(* ===== verification/Prelude.thy ===== *)
theory Prelude
  imports Main
begin

text \<open>
  The shared ground of the development.

  \<^item> \<open>res\<close>: the result of a Go function that returns \<open>(value, error)\<close>.  \<open>Ok\<close> is a value with a nil
    error, \<open>Err\<close> a non-nil error, \<open>Panic\<close> a run-time panic (an index out of range, a failed type
    assertion) and \<open>NoFuel\<close> the one outcome the code does not have: the recursion bound of a model
    function was too small.  Every model function with fuel comes with a theorem that says
    which fuel is enough.
  \<^item> \<open>rbind\<close>: the idiom \<open>x, err := f(); if err != nil \{ return err \}\<close>.
  \<^item> the theorem collections of the components, and generic lemmas on lists.
\<close>

named_theorems res_simps \<open>equations and case rules for results\<close>
named_theorems progress_rules \<open>a reader never moves its stream backwards or past the end\<close>

subsection \<open>Results\<close>

datatype ('e, 'a) res = Ok 'a | Err 'e | Panic | NoFuel

fun rbind :: "('e, 'a) res \<Rightarrow> ('a \<Rightarrow> ('e, 'b) res) \<Rightarrow> ('e, 'b) res" where
  "rbind (Ok x) f = f x"
| "rbind (Err e) f = Err e"
| "rbind Panic f = Panic"
| "rbind NoFuel f = NoFuel"

fun rmap :: "('a \<Rightarrow> 'b) \<Rightarrow> ('e, 'a) res \<Rightarrow> ('e, 'b) res" where
  "rmap f (Ok x) = Ok (f x)"
| "rmap f (Err e) = Err e"
| "rmap f Panic = Panic"
| "rmap f NoFuel = NoFuel"

fun is_ok :: "('e, 'a) res \<Rightarrow> bool" where
  "is_ok (Ok x) = True"
| "is_ok _ = False"

lemma rbind_Ok_iff [res_simps]: "(rbind m f = Ok y) = (\<exists>x. m = Ok x \<and> f x = Ok y)"
  by (cases m) auto

lemma rbind_Err_iff: "(rbind m f = Err e) = (m = Err e \<or> (\<exists>x. m = Ok x \<and> f x = Err e))"
  by (cases m) auto

lemma rbind_Panic_iff: "(rbind m f = Panic) = (m = Panic \<or> (\<exists>x. m = Ok x \<and> f x = Panic))"
  by (cases m) auto

lemma rbind_NoFuel_iff: "(rbind m f = NoFuel) = (m = NoFuel \<or> (\<exists>x. m = Ok x \<and> f x = NoFuel))"
  by (cases m) auto

lemma rbind_cong [fundef_cong]:
  "m = m' \<Longrightarrow> (\<And>x. m' = Ok x \<Longrightarrow> f x = f' x) \<Longrightarrow> rbind m f = rbind m' f'"
  by (cases m') auto

lemma rbind_assoc: "rbind (rbind m f) g = rbind m (\<lambda>x. rbind (f x) g)"
  by (cases m) auto

definition panics :: "('e, 'a) res \<Rightarrow> bool" where
  "panics r = (case r of Panic \<Rightarrow> True | _ \<Rightarrow> False)"

lemma rmap_Ok_iff [res_simps]: "(rmap f m = Ok y) = (\<exists>x. m = Ok x \<and> y = f x)"
  by (cases m) auto

lemma rmap_outcomes [simp]:
  "(rmap f m = Err e) = (m = Err e)" "(rmap f m = Panic) = (m = Panic)"
  "(rmap f m = NoFuel) = (m = NoFuel)"
  by (cases m; auto)+

text \<open>
  The order of results by fuel: an outcome other than \<open>NoFuel\<close> is kept.  The rules go through the
  constructs the model functions are written with.
\<close>

named_theorems fuel_intros \<open>monotonicity in the fuel\<close>

definition fuel_le :: "('e, 'a) res \<Rightarrow> ('e, 'a) res \<Rightarrow> bool" where
  "fuel_le m m' = (m \<noteq> NoFuel \<longrightarrow> m' = m)"

lemma fuel_le_refl [fuel_intros]: "fuel_le m m"
  by (simp add: fuel_le_def)

lemma fuel_le_NoFuel [fuel_intros]: "fuel_le NoFuel m"
  by (simp add: fuel_le_def)

lemma fuel_le_trans: "fuel_le a b \<Longrightarrow> fuel_le b c \<Longrightarrow> fuel_le a c"
  by (auto simp: fuel_le_def)

lemma fuel_le_rbind [fuel_intros]:
  "fuel_le m m' \<Longrightarrow> (\<And>x. m = Ok x \<Longrightarrow> fuel_le (f x) (f' x)) \<Longrightarrow> fuel_le (rbind m f) (rbind m' f')"
  by (cases m) (auto simp: fuel_le_def)

lemma fuel_le_if [fuel_intros]:
  "(b \<Longrightarrow> fuel_le x x') \<Longrightarrow> (\<not> b \<Longrightarrow> fuel_le y y') \<Longrightarrow>
     fuel_le (if b then x else y) (if b then x' else y')"
  by simp

lemma fuel_le_option [fuel_intros]:
  "(u = None \<Longrightarrow> fuel_le x x') \<Longrightarrow> (\<And>v. u = Some v \<Longrightarrow> fuel_le (f v) (f' v)) \<Longrightarrow>
     fuel_le (case u of None \<Rightarrow> x | Some v \<Rightarrow> f v) (case u of None \<Rightarrow> x' | Some v \<Rightarrow> f' v)"
  by (cases u) simp_all

lemma fuel_le_prod [fuel_intros]:
  "(\<And>a b. u = (a, b) \<Longrightarrow> fuel_le (f a b) (f' a b)) \<Longrightarrow>
     fuel_le (case u of (a, b) \<Rightarrow> f a b) (case u of (a, b) \<Rightarrow> f' a b)"
  by (cases u) simp_all

lemma fuel_le_list [fuel_intros]:
  "(u = [] \<Longrightarrow> fuel_le x x') \<Longrightarrow> (\<And>v vs. u = v # vs \<Longrightarrow> fuel_le (f v vs) (f' v vs)) \<Longrightarrow>
     fuel_le (case u of [] \<Rightarrow> x | v # vs \<Rightarrow> f v vs) (case u of [] \<Rightarrow> x' | v # vs \<Rightarrow> f' v vs)"
  by (cases u) simp_all

lemma is_ok_iff: "is_ok m = (\<exists>x. m = Ok x)"
  by (cases m) auto

subsection \<open>Lists\<close>

text \<open>The longest prefix and what follows it, as Go loops that advance an index compute them.\<close>

lemma length_dropWhile_Suc: "p x \<Longrightarrow> length (dropWhile p (x # xs)) \<le> length xs"
  by (simp add: length_dropWhile_le)

lemma butlast_snoc_last: "xs \<noteq> [] \<Longrightarrow> butlast xs @ [last xs] = xs"
  by simp

lemma filter_empty_all: "(filter p xs = []) = (\<forall>x\<in>set xs. \<not> p x)"
  by (induction xs) auto

lemma list_all_take: "list_all p xs \<Longrightarrow> list_all p (take n xs)"
  by (metis append_take_drop_id list_all_append)

lemma list_all_drop: "list_all p xs \<Longrightarrow> list_all p (drop n xs)"
  by (metis append_take_drop_id list_all_append)

lemma lookup_unique:
  "distinct (map fst xs) \<Longrightarrow> (k, v) \<in> set xs \<Longrightarrow> map_of xs k = Some v"
  by simp

lemma find_map_None: "(find p xs = None) = list_all (\<lambda>x. \<not> p x) xs"
  by (induction xs) auto

lemma find_Some_holds: "find p xs = Some x \<Longrightarrow> x \<in> set xs \<and> p x"
  by (induction xs) (auto split: if_splits)

end
