(* ===== verification/GoText.thy ===== *)
theory GoText
  imports Prelude
begin

text \<open>
  Go text as the components read it: a \<open>[]rune\<close> or a string whose code points are U+0000 to U+00FF
  is an Isabelle \<open>string\<close>, one \<open>char\<close> per code point.  On this range the predicates of Go's
  \<open>unicode\<close> package are given by its Latin-1 tables, so they are written out here in full;
  code points above U+00FF are outside the model.  The functions of \<open>strings\<close> and
  \<open>strconv\<close> the components call are modelled on the same strings.
\<close>

subsection \<open>Package unicode on Latin-1\<close>

definition code :: "char \<Rightarrow> nat" where
  "code c = of_char c"

definition NL :: char where "NL = CHR 0x0A"
definition CR :: char where "CR = CHR 0x0D"
definition TAB :: char where "TAB = CHR 0x09"

text \<open>\<open>unicode.IsSpace\<close>: tab, newline, vertical tab, form feed, return, space, U+0085, U+00A0.\<close>

definition isSpace :: "char \<Rightarrow> bool" where
  "isSpace c = (let n = code c in (9 \<le> n \<and> n \<le> 13) \<or> n = 32 \<or> n = 133 \<or> n = 160)"

text \<open>\<open>unicode.IsDigit\<close>: the only decimal digits below U+0100 are the ASCII ones.\<close>

definition isDigit :: "char \<Rightarrow> bool" where
  "isDigit c = (let n = code c in 48 \<le> n \<and> n \<le> 57)"

definition isUpperAscii :: "char \<Rightarrow> bool" where
  "isUpperAscii c = (let n = code c in 65 \<le> n \<and> n \<le> 90)"

definition isLowerAscii :: "char \<Rightarrow> bool" where
  "isLowerAscii c = (let n = code c in 97 \<le> n \<and> n \<le> 122)"

text \<open>\<open>unicode.IsLetter\<close>: ASCII letters, the two ordinal indicators, micro, and the Latin-1 letters.\<close>

definition isLetter :: "char \<Rightarrow> bool" where
  "isLetter c = (isUpperAscii c \<or> isLowerAscii c \<or>
     (let n = code c in n = 170 \<or> n = 181 \<or> n = 186 \<or>
        (192 \<le> n \<and> n \<le> 214) \<or> (216 \<le> n \<and> n \<le> 246) \<or> (248 \<le> n \<and> n \<le> 255)))"

text \<open>
  \<open>unicode.ToUpper(c) != c\<close>: the characters that have another upper case.  U+00B5 and U+00FF are
  among them (their upper case lies above U+00FF), the sharp s U+00DF is not.
\<close>

definition upperDiffers :: "char \<Rightarrow> bool" where
  "upperDiffers c = (isLowerAscii c \<or>
     (let n = code c in n = 181 \<or> (224 \<le> n \<and> n \<le> 246) \<or> (248 \<le> n \<and> n \<le> 255)))"

text \<open>ASCII case conversion, all the callers below need of \<open>ToUpper\<close> and \<open>ToLower\<close>.\<close>

definition toUpperAscii :: "char \<Rightarrow> char" where
  "toUpperAscii c = (if isLowerAscii c then char_of (code c - 32) else c)"

definition toLowerAscii :: "char \<Rightarrow> char" where
  "toLowerAscii c = (if isUpperAscii c then char_of (code c + 32) else c)"

lemma isSpace_not_letter: "isSpace c \<Longrightarrow> \<not> isLetter c"
  by (auto simp: isSpace_def isLetter_def isUpperAscii_def isLowerAscii_def Let_def)

lemma isSpace_not_digit: "isSpace c \<Longrightarrow> \<not> isDigit c"
  by (auto simp: isSpace_def isDigit_def Let_def)

lemma isDigit_not_letter: "isDigit c \<Longrightarrow> \<not> isLetter c"
  by (auto simp: isDigit_def isLetter_def isUpperAscii_def isLowerAscii_def Let_def)

lemma isSpace_white [simp]: "isSpace CHR '' ''" "isSpace NL" "isSpace CR" "isSpace TAB"
  by (simp_all add: isSpace_def code_def NL_def CR_def TAB_def)

subsection \<open>Package strings\<close>

text \<open>\<open>strings.TrimSpace\<close>.\<close>

definition trimSpace :: "string \<Rightarrow> string" where
  "trimSpace s = rev (dropWhile isSpace (rev (dropWhile isSpace s)))"

fun hasPrefix :: "string \<Rightarrow> string \<Rightarrow> bool" where
  "hasPrefix s [] = True"
| "hasPrefix [] (p # ps) = False"
| "hasPrefix (c # s) (p # ps) = (c = p \<and> hasPrefix s ps)"

definition trimPrefix :: "string \<Rightarrow> string \<Rightarrow> string" where
  "trimPrefix s p = (if hasPrefix s p then drop (length p) s else s)"

text \<open>\<open>strings.Index(s, sep)\<close> for a one-character separator: \<open>None\<close> is Go's \<open>-1\<close>.\<close>

fun indexOf :: "string \<Rightarrow> char \<Rightarrow> nat option" where
  "indexOf [] d = None"
| "indexOf (c # s) d = (if c = d then Some 0 else map_option Suc (indexOf s d))"

text \<open>\<open>strings.Split(s, sep)\<close> for a one-character separator: always at least one piece.\<close>

fun splitOn :: "string \<Rightarrow> char \<Rightarrow> string list" where
  "splitOn [] d = [[]]"
| "splitOn (c # s) d =
     (if c = d then [] # splitOn s d
      else (case splitOn s d of [] \<Rightarrow> [[c]] | p # ps \<Rightarrow> (c # p) # ps))"

text \<open>\<open>strings.Join(parts, sep)\<close>.\<close>

fun joinWith :: "string \<Rightarrow> string list \<Rightarrow> string" where
  "joinWith sep [] = []"
| "joinWith sep [p] = p"
| "joinWith sep (p # q # ps) = p @ sep @ joinWith sep (q # ps)"

text \<open>\<open>strings.Contains(s, sub)\<close>.\<close>

fun containsStr :: "string \<Rightarrow> string \<Rightarrow> bool" where
  "containsStr [] sub = (sub = [])"
| "containsStr (c # s) sub = (hasPrefix (c # s) sub \<or> containsStr s sub)"

lemma hasPrefix_iff: "hasPrefix s p = (\<exists>r. s = p @ r)"
  by (induction s p rule: hasPrefix.induct) auto

lemma hasPrefix_append [simp]: "hasPrefix (p @ r) p"
  by (simp add: hasPrefix_iff)

lemma trimPrefix_append [simp]: "trimPrefix (p @ r) p = r"
  by (simp add: trimPrefix_def)

lemma splitOn_nonempty [simp]: "splitOn s d \<noteq> []"
  by (induction s d rule: splitOn.induct) (auto split: list.splits)

text \<open>Splitting and joining are inverse: no character of the text is lost.\<close>

lemma joinWith_splitOn: "joinWith [d] (splitOn s d) = s"
proof (induction s)
  case Nil
  then show ?case by simp
next
  case (Cons c s)
  obtain p ps where ps: "splitOn s d = p # ps"
    by (metis list.exhaust splitOn_nonempty)
  with Cons show ?case
    by (cases ps) auto
qed

lemma splitOn_no_sep: "p \<in> set (splitOn s d) \<Longrightarrow> d \<notin> set p"
  by (induction s d arbitrary: p rule: splitOn.induct) (auto split: list.splits if_splits)

lemma splitOn_no: "d \<notin> set s \<Longrightarrow> splitOn s d = [s]"
  by (induction s) auto

lemma splitOn_append: "d \<notin> set s \<Longrightarrow> splitOn (s @ d # t) d = s # splitOn t d"
  by (induction s) auto

lemma splitOn_join: "ls \<noteq> [] \<Longrightarrow> \<forall>l \<in> set ls. d \<notin> set l \<Longrightarrow> splitOn (joinWith [d] ls) d = ls"
proof (induction ls)
  case (Cons l ls)
  then show ?case by (cases ls) (simp_all add: splitOn_no splitOn_append)
qed simp

lemma trimSpace_empty_iff: "trimSpace s = [] \<longleftrightarrow> (\<forall>c\<in>set s. isSpace c)"
proof -
  have "trimSpace s = [] \<longleftrightarrow> (\<forall>c\<in>set (dropWhile isSpace s). isSpace c)"
    by (simp add: trimSpace_def dropWhile_eq_Nil_conv)
  also have "\<dots> \<longleftrightarrow> dropWhile isSpace s = []"
    by (metis dropWhile_eq_Nil_conv empty_iff hd_dropWhile list.set(1) list.set_sel(1))
  finally show ?thesis
    by (simp add: dropWhile_eq_Nil_conv)
qed

subsection \<open>Trimmed text\<close>

definition trimmed :: "string \<Rightarrow> bool" where
  "trimmed s = (s \<noteq> [] \<and> \<not> isSpace (hd s) \<and> \<not> isSpace (last s))"

lemma trimSpace_trimmed: "trimmed s \<Longrightarrow> trimSpace s = s"
proof -
  assume t: "trimmed s"
  then have "dropWhile isSpace s = s"
    by (cases s) (simp_all add: trimmed_def)
  moreover have "dropWhile isSpace (rev s) = rev s"
    using t by (cases s rule: rev_cases) (simp_all add: trimmed_def)
  ultimately show ?thesis
    by (simp add: trimSpace_def)
qed

lemma trimmed_append: "trimmed s \<Longrightarrow> trimmed t \<Longrightarrow> trimmed (s @ m @ t)"
  by (auto simp: trimmed_def)

lemma trimmed_join: "ps \<noteq> [] \<Longrightarrow> list_all trimmed ps \<Longrightarrow> trimmed (joinWith sep ps)"
proof (induction ps)
  case (Cons p ps)
  then show ?case
    by (cases ps) (auto intro: trimmed_append)
qed simp

end
