(* ===== verification/ExprTokens.thy ===== *)
theory ExprTokens
  imports GoText
begin

text \<open>
  Tokens and operators of the TQL expression language: \<open>token.go\<close>, \<open>operator.go\<close>,
  \<open>operator_table.go\<close>, \<open>source_span.go\<close> and the error type of \<open>errors.go\<close>, all of
  \<open>mods/tql/expression\<close>.  The maps from operator text to symbol are functions to \<open>option\<close>, the
  \<open>iota\<close> enumerations are datatypes, and the interface value of a token is a tagged union.
\<close>

subsection \<open>Source positions (source_span.go)\<close>

record source_position =
  Offset :: nat
  Line :: nat
  Column :: nat

record source_span =
  spanStart :: source_position
  spanEnd :: source_position

definition zeroPos :: source_position where
  "zeroPos = \<lparr>Offset = 0, Line = 0, Column = 0\<rparr>"

definition zeroSpan :: source_span where
  "zeroSpan = \<lparr>spanStart = zeroPos, spanEnd = zeroPos\<rparr>"

definition span_IsZero :: "source_span \<Rightarrow> bool" where
  "span_IsZero sp = (spanStart sp = zeroPos \<and> spanEnd sp = zeroPos)"

text \<open>\<open>source[start:end]\<close> panics when the bounds are out of order or past the end.\<close>

definition RawFrom :: "source_span \<Rightarrow> string \<Rightarrow> ('e, string) res" where
  "RawFrom sp source =
     (let start = Offset (spanStart sp);
          end0 = Offset (spanEnd sp);
          end1 = (if end0 < start then start else end0);
          end2 = (if end1 > length source then length source else end1)
      in if start \<le> end2 then Ok (take (end2 - start) (drop start source)) else Panic)"

definition mergeSpan :: "source_span \<Rightarrow> source_span \<Rightarrow> source_span" where
  "mergeSpan l r =
     (if span_IsZero l then r
      else if span_IsZero r then l
      else \<lparr>spanStart = spanStart l, spanEnd = spanEnd r\<rparr>)"

lemma mergeSpan_zero [simp]: "mergeSpan zeroSpan r = r" "mergeSpan l zeroSpan = l"
  by (auto simp: mergeSpan_def span_IsZero_def zeroSpan_def)

subsection \<open>Token kinds and tokens (token.go)\<close>

datatype token_kind =
    UNKNOWN | PREFIX | NUMERIC | BOOLEAN | STRING | PATTERN | TIME | VARIABLE | FUNCTION
  | SEPARATOR | ACCESSOR | COMPARATOR | LOGICALOP | MODIFIER | CLAUSE | CLAUSE_CLOSE | TERNARY

fun kind_String :: "token_kind \<Rightarrow> string" where
  "kind_String PREFIX = ''PREFIX''"
| "kind_String NUMERIC = ''NUMERIC''"
| "kind_String BOOLEAN = ''BOOLEAN''"
| "kind_String STRING = ''STRING''"
| "kind_String PATTERN = ''PATTERN''"
| "kind_String TIME = ''TIME''"
| "kind_String VARIABLE = ''VARIABLE''"
| "kind_String FUNCTION = ''FUNCTION''"
| "kind_String SEPARATOR = ''SEPARATOR''"
| "kind_String COMPARATOR = ''COMPARATOR''"
| "kind_String LOGICALOP = ''LOGICALOP''"
| "kind_String MODIFIER = ''MODIFIER''"
| "kind_String CLAUSE = ''CLAUSE''"
| "kind_String CLAUSE_CLOSE = ''CLAUSE_CLOSE''"
| "kind_String TERNARY = ''TERNARY''"
| "kind_String ACCESSOR = ''ACCESSOR''"
| "kind_String UNKNOWN = ''UNKNOWN''"

text \<open>
  \<open>Token.Value\<close> is an \<open>any\<close>: nil, a float64, a bool, a string, a rune (the parentheses), a
  \<open>Function\<close> (named by the entry of the function table it was found under), a compiled regular
  expression (named by its source text), the parts of an accessor, or a time (its Unix seconds).
\<close>

datatype 'f tvalue =
    TVNil | TVNum 'f | TVBool bool | TVStr string | TVRune char | TVFunc string
  | TVPattern string | TVParts "string list" | TVTime int

record 'f token =
  Kind :: token_kind
  Value :: "'f tvalue"
  Span :: source_span
  Raw :: string

text \<open>The assertion \<open>tok.Value.(string)\<close> panics on any other dynamic type.\<close>

fun value_string :: "'f tvalue \<Rightarrow> ('e, string) res" where
  "value_string (TVStr s) = Ok s"
| "value_string _ = Panic"

lemma value_string_Ok_iff [simp]: "(value_string v = Ok s) = (v = TVStr s)"
  by (cases v) auto

text \<open>
  The token stream: its index only moves forward while stages are planned and SQL is printed, so the
  stream is the list of the tokens from the index on.  \<open>next\<close> and \<open>peek\<close> on an exhausted stream
  are out of range, hence panics.
\<close>

type_synonym 'f token_stream = "'f token list"

definition newTokenStream :: "'f token list \<Rightarrow> 'f token_stream" where
  "newTokenStream tokens = tokens"

fun hasNext :: "'f token_stream \<Rightarrow> bool" where
  "hasNext [] = False"
| "hasNext (t # ts) = True"

fun next_token :: "'f token_stream \<Rightarrow> ('e, 'f token \<times> 'f token_stream) res" where
  "next_token [] = Panic"
| "next_token (t # ts) = Ok (t, ts)"

fun peek_token :: "'f token_stream \<Rightarrow> ('e, 'f token) res" where
  "peek_token [] = Panic"
| "peek_token (t # ts) = Ok t"

lemma hasNext_iff: "hasNext ts = (ts \<noteq> [])"
  by (cases ts) auto

subsection \<open>Operators (operator.go)\<close>

datatype op_symbol =
    VALUE | LITERAL | NOOP | EQ | NEQ | GT | LT | GTE | LTE | REQ | NREQ | IN
  | AND | OR
  | PLUS | MINUS | BITWISE_AND | BITWISE_OR | BITWISE_XOR | BITWISE_LSHIFT | BITWISE_RSHIFT
  | MULTIPLY | DIVIDE | MODULUS | EXPONENT
  | NEGATE | INVERT | BITWISE_NOT
  | TERNARY_TRUE | TERNARY_FALSE | COALESCE
  | FUNCTIONAL | ACCESS | SEPARATE

definition comparatorSymbols :: "string \<Rightarrow> op_symbol option" where
  "comparatorSymbols = map_of
     [(''=='', EQ), (''!='', NEQ), (''>'', GT), (''>='', GTE), (''<'', LT), (''<='', LTE),
      (''=~'', REQ), (''!~'', NREQ), (''in'', IN)]"

definition logicalSymbols :: "string \<Rightarrow> op_symbol option" where
  "logicalSymbols = map_of [(''&&'', AND), (''||'', OR)]"

definition prefixSymbols :: "string \<Rightarrow> op_symbol option" where
  "prefixSymbols = map_of [(''-'', NEGATE), (''!'', INVERT), (''~'', BITWISE_NOT)]"

definition ternarySymbols :: "string \<Rightarrow> op_symbol option" where
  "ternarySymbols = map_of [(''?'', TERNARY_TRUE), ('':'', TERNARY_FALSE), (''??'', COALESCE)]"

definition modifierSymbols :: "string \<Rightarrow> op_symbol option" where
  "modifierSymbols = map_of
     [(''+'', PLUS), (''-'', MINUS), (''*'', MULTIPLY), (''/'', DIVIDE), (''%'', MODULUS),
      (''**'', EXPONENT), (''&'', BITWISE_AND), (''|'', BITWISE_OR), (''^'', BITWISE_XOR),
      (''>>'', BITWISE_RSHIFT), (''<<'', BITWISE_LSHIFT)]"

fun op_String :: "op_symbol \<Rightarrow> string" where
  "op_String NOOP = ''NOOP''"
| "op_String VALUE = ''VALUE''"
| "op_String EQ = ''=''"
| "op_String NEQ = ''!=''"
| "op_String GT = ''>''"
| "op_String LT = ''<''"
| "op_String GTE = ''>=''"
| "op_String LTE = ''<=''"
| "op_String REQ = ''=~''"
| "op_String NREQ = ''!~''"
| "op_String AND = ''&&''"
| "op_String OR = ''||''"
| "op_String IN = ''in''"
| "op_String BITWISE_AND = ''&''"
| "op_String BITWISE_OR = ''|''"
| "op_String BITWISE_XOR = ''^''"
| "op_String BITWISE_LSHIFT = ''<<''"
| "op_String BITWISE_RSHIFT = ''>>''"
| "op_String PLUS = ''+''"
| "op_String MINUS = ''-''"
| "op_String MULTIPLY = ''*''"
| "op_String DIVIDE = ''/''"
| "op_String MODULUS = ''%''"
| "op_String EXPONENT = ''**''"
| "op_String NEGATE = ''-''"
| "op_String INVERT = ''!''"
| "op_String BITWISE_NOT = ''~''"
| "op_String TERNARY_TRUE = ''?''"
| "op_String TERNARY_FALSE = '':''"
| "op_String COALESCE = ''??''"
| "op_String _ = []"

lemmas symbol_tables =
  comparatorSymbols_def logicalSymbols_def prefixSymbols_def ternarySymbols_def modifierSymbols_def

text \<open>An entry of a table prints as its key, \<open>==\<close> (printed \<open>=\<close>) apart.\<close>

lemma modifierSymbols_String: "modifierSymbols s = Some y \<Longrightarrow> op_String y = s"
  by (auto simp: modifierSymbols_def split: if_splits)

lemma logicalSymbols_String: "logicalSymbols s = Some y \<Longrightarrow> op_String y = s"
  by (auto simp: logicalSymbols_def split: if_splits)

lemma ternarySymbols_String: "ternarySymbols s = Some y \<Longrightarrow> op_String y = s"
  by (auto simp: ternarySymbols_def split: if_splits)

lemma prefixSymbols_String: "prefixSymbols s = Some y \<Longrightarrow> op_String y = s"
  by (auto simp: prefixSymbols_def split: if_splits)

lemma comparatorSymbols_String:
  "comparatorSymbols s = Some y \<Longrightarrow> op_String y = (if y = EQ then ''='' else s)"
  by (auto simp: comparatorSymbols_def split: if_splits)

subsection \<open>Binding powers (operator_table.go)\<close>

record infix_binding_power =
  bp_left :: nat
  bp_right :: nat

fun infixBindingPowerFor :: "op_symbol \<Rightarrow> infix_binding_power option" where
  "infixBindingPowerFor SEPARATE = Some \<lparr>bp_left = 10, bp_right = 11\<rparr>"
| "infixBindingPowerFor TERNARY_TRUE = Some \<lparr>bp_left = 20, bp_right = 19\<rparr>"
| "infixBindingPowerFor COALESCE = Some \<lparr>bp_left = 30, bp_right = 29\<rparr>"
| "infixBindingPowerFor OR = Some \<lparr>bp_left = 40, bp_right = 41\<rparr>"
| "infixBindingPowerFor AND = Some \<lparr>bp_left = 50, bp_right = 51\<rparr>"
| "infixBindingPowerFor EQ = Some \<lparr>bp_left = 60, bp_right = 61\<rparr>"
| "infixBindingPowerFor NEQ = Some \<lparr>bp_left = 60, bp_right = 61\<rparr>"
| "infixBindingPowerFor GT = Some \<lparr>bp_left = 60, bp_right = 61\<rparr>"
| "infixBindingPowerFor LT = Some \<lparr>bp_left = 60, bp_right = 61\<rparr>"
| "infixBindingPowerFor GTE = Some \<lparr>bp_left = 60, bp_right = 61\<rparr>"
| "infixBindingPowerFor LTE = Some \<lparr>bp_left = 60, bp_right = 61\<rparr>"
| "infixBindingPowerFor REQ = Some \<lparr>bp_left = 60, bp_right = 61\<rparr>"
| "infixBindingPowerFor NREQ = Some \<lparr>bp_left = 60, bp_right = 61\<rparr>"
| "infixBindingPowerFor IN = Some \<lparr>bp_left = 60, bp_right = 61\<rparr>"
| "infixBindingPowerFor BITWISE_OR = Some \<lparr>bp_left = 70, bp_right = 71\<rparr>"
| "infixBindingPowerFor BITWISE_XOR = Some \<lparr>bp_left = 70, bp_right = 71\<rparr>"
| "infixBindingPowerFor BITWISE_AND = Some \<lparr>bp_left = 70, bp_right = 71\<rparr>"
| "infixBindingPowerFor BITWISE_LSHIFT = Some \<lparr>bp_left = 80, bp_right = 81\<rparr>"
| "infixBindingPowerFor BITWISE_RSHIFT = Some \<lparr>bp_left = 80, bp_right = 81\<rparr>"
| "infixBindingPowerFor PLUS = Some \<lparr>bp_left = 90, bp_right = 91\<rparr>"
| "infixBindingPowerFor MINUS = Some \<lparr>bp_left = 90, bp_right = 91\<rparr>"
| "infixBindingPowerFor MULTIPLY = Some \<lparr>bp_left = 100, bp_right = 101\<rparr>"
| "infixBindingPowerFor DIVIDE = Some \<lparr>bp_left = 100, bp_right = 101\<rparr>"
| "infixBindingPowerFor MODULUS = Some \<lparr>bp_left = 100, bp_right = 101\<rparr>"
| "infixBindingPowerFor EXPONENT = Some \<lparr>bp_left = 110, bp_right = 110\<rparr>"
| "infixBindingPowerFor _ = None"

definition infixOperatorForToken :: "'f token \<Rightarrow> ('e, op_symbol option) res" where
  "infixOperatorForToken tok =
     (case Kind tok of
        MODIFIER \<Rightarrow> rmap modifierSymbols (value_string (Value tok))
      | COMPARATOR \<Rightarrow> rmap comparatorSymbols (value_string (Value tok))
      | LOGICALOP \<Rightarrow> rmap logicalSymbols (value_string (Value tok))
      | TERNARY \<Rightarrow> rmap ternarySymbols (value_string (Value tok))
      | SEPARATOR \<Rightarrow> Ok (Some SEPARATE)
      | _ \<Rightarrow> Ok None)"

text \<open>
  The shape of the table the parser's precedence rests on: the left powers are the levels 10 to 110
  in steps of ten, and the right power differs from the left one by at most one.
\<close>

lemma binding_power_levels:
  assumes "infixBindingPowerFor s = Some bp"
  shows "bp_left bp mod 10 = 0" "10 \<le> bp_left bp" "bp_left bp \<le> 110"
    "bp_right bp \<le> bp_left bp + 1" "bp_left bp \<le> bp_right bp + 1"
  using assms by (cases s; auto)+

subsection \<open>Parse errors (errors.go)\<close>

text \<open>
  A \<open>ParseError\<close> without its formatted message and cause: the error's kind, where it is, and the
  source text near it.
\<close>

record parse_error =
  pe_Kind :: string
  pe_Span :: source_span
  pe_Near :: string

definition newParseError :: "string \<Rightarrow> source_span \<Rightarrow> string \<Rightarrow> parse_error" where
  "newParseError kind span near = \<lparr>pe_Kind = kind, pe_Span = span, pe_Near = near\<rparr>"

end
