(* ===== verification/ExprStates.thy ===== *)
theory ExprStates
  imports ExprTokens
begin

text \<open>
  The token grammar: \<open>lexer_state.go\<close>, with \<open>checkBalance\<close> and \<open>optimizeTokens\<close> of
  \<open>parse.go\<close>.  The table of states is kept as a list searched in order, as in the code; the
  lexer consults it for the prefix/infix ambiguity and \<open>checkExpressionSyntax\<close> for every adjacent
  pair of tokens.
\<close>

subsection \<open>Lexer states\<close>

record lexer_state =
  isEOF :: bool
  isNullable :: bool
  state_kind :: token_kind
  validNextKinds :: "token_kind list"

definition canTransitionTo :: "lexer_state \<Rightarrow> token_kind \<Rightarrow> bool" where
  "canTransitionTo st k = (k \<in> set (validNextKinds st))"

definition validLexerStates :: "lexer_state list" where
  "validLexerStates =
    [\<lparr>isEOF = False, isNullable = True, state_kind = UNKNOWN, validNextKinds =
        [PREFIX, NUMERIC, BOOLEAN, VARIABLE, PATTERN, FUNCTION, ACCESSOR, STRING, TIME, CLAUSE]\<rparr>,
     \<lparr>isEOF = False, isNullable = True, state_kind = CLAUSE, validNextKinds =
        [PREFIX, NUMERIC, BOOLEAN, VARIABLE, PATTERN, FUNCTION, ACCESSOR, STRING, TIME, CLAUSE,
         CLAUSE_CLOSE]\<rparr>,
     \<lparr>isEOF = True, isNullable = True, state_kind = CLAUSE_CLOSE, validNextKinds =
        [COMPARATOR, MODIFIER, NUMERIC, BOOLEAN, VARIABLE, STRING, PATTERN, TIME, CLAUSE,
         CLAUSE_CLOSE, LOGICALOP, TERNARY, SEPARATOR]\<rparr>,
     \<lparr>isEOF = True, isNullable = False, state_kind = NUMERIC, validNextKinds =
        [MODIFIER, COMPARATOR, LOGICALOP, CLAUSE_CLOSE, TERNARY, SEPARATOR]\<rparr>,
     \<lparr>isEOF = True, isNullable = False, state_kind = BOOLEAN, validNextKinds =
        [MODIFIER, COMPARATOR, LOGICALOP, CLAUSE_CLOSE, TERNARY, SEPARATOR]\<rparr>,
     \<lparr>isEOF = True, isNullable = False, state_kind = STRING, validNextKinds =
        [MODIFIER, COMPARATOR, LOGICALOP, CLAUSE_CLOSE, TERNARY, SEPARATOR]\<rparr>,
     \<lparr>isEOF = True, isNullable = False, state_kind = TIME, validNextKinds =
        [MODIFIER, COMPARATOR, LOGICALOP, CLAUSE_CLOSE, SEPARATOR]\<rparr>,
     \<lparr>isEOF = True, isNullable = False, state_kind = PATTERN, validNextKinds =
        [MODIFIER, COMPARATOR, LOGICALOP, CLAUSE_CLOSE, SEPARATOR]\<rparr>,
     \<lparr>isEOF = True, isNullable = False, state_kind = VARIABLE, validNextKinds =
        [MODIFIER, COMPARATOR, LOGICALOP, CLAUSE_CLOSE, TERNARY, SEPARATOR]\<rparr>,
     \<lparr>isEOF = False, isNullable = False, state_kind = MODIFIER, validNextKinds =
        [PREFIX, NUMERIC, VARIABLE, FUNCTION, ACCESSOR, STRING, BOOLEAN, CLAUSE, CLAUSE_CLOSE]\<rparr>,
     \<lparr>isEOF = False, isNullable = False, state_kind = COMPARATOR, validNextKinds =
        [PREFIX, NUMERIC, BOOLEAN, VARIABLE, FUNCTION, ACCESSOR, STRING, TIME, CLAUSE,
         CLAUSE_CLOSE, PATTERN]\<rparr>,
     \<lparr>isEOF = False, isNullable = False, state_kind = LOGICALOP, validNextKinds =
        [PREFIX, NUMERIC, BOOLEAN, VARIABLE, FUNCTION, ACCESSOR, STRING, TIME, CLAUSE,
         CLAUSE_CLOSE]\<rparr>,
     \<lparr>isEOF = False, isNullable = False, state_kind = PREFIX, validNextKinds =
        [NUMERIC, BOOLEAN, VARIABLE, FUNCTION, ACCESSOR, CLAUSE, CLAUSE_CLOSE]\<rparr>,
     \<lparr>isEOF = False, isNullable = False, state_kind = TERNARY, validNextKinds =
        [PREFIX, NUMERIC, BOOLEAN, STRING, TIME, VARIABLE, FUNCTION, ACCESSOR, CLAUSE,
         SEPARATOR]\<rparr>,
     \<lparr>isEOF = False, isNullable = False, state_kind = FUNCTION, validNextKinds = [CLAUSE]\<rparr>,
     \<lparr>isEOF = True, isNullable = False, state_kind = ACCESSOR, validNextKinds =
        [CLAUSE, MODIFIER, COMPARATOR, LOGICALOP, CLAUSE_CLOSE, TERNARY, SEPARATOR]\<rparr>,
     \<lparr>isEOF = False, isNullable = True, state_kind = SEPARATOR, validNextKinds =
        [PREFIX, NUMERIC, BOOLEAN, STRING, TIME, VARIABLE, FUNCTION, ACCESSOR, CLAUSE]\<rparr>]"

text \<open>The lookup loop: the first state with the kind; \<open>None\<close> is the error return.\<close>

definition getLexerStateForToken :: "token_kind \<Rightarrow> lexer_state option" where
  "getLexerStateForToken k = find (\<lambda>st. state_kind st = k) validLexerStates"

definition initialState :: lexer_state where
  "initialState = hd validLexerStates"

text \<open>The error return is dead: every kind has a state.\<close>

lemma lexer_state_total: "\<exists>st. getLexerStateForToken k = Some st \<and> state_kind st = k"
  by (cases k) (simp_all add: getLexerStateForToken_def validLexerStates_def)

definition stateOf :: "token_kind \<Rightarrow> lexer_state" where
  "stateOf k = the (getLexerStateForToken k)"

lemma getLexerStateForToken_stateOf: "getLexerStateForToken k = Some (stateOf k)"
  using lexer_state_total [of k] by (auto simp: stateOf_def)

lemma stateOf_kind [simp]: "state_kind (stateOf k) = k"
  using lexer_state_total [of k] by (auto simp: stateOf_def)

lemma initialState_UNKNOWN: "initialState = stateOf UNKNOWN"
  by (simp add: initialState_def stateOf_def getLexerStateForToken_def validLexerStates_def)

text \<open>The kinds a token list may end with.\<close>

lemma stateOf_isEOF:
  "isEOF (stateOf k) \<longleftrightarrow>
     k \<in> {CLAUSE_CLOSE, NUMERIC, BOOLEAN, STRING, TIME, PATTERN, VARIABLE, ACCESSOR}"
  by (cases k) (simp_all add: stateOf_def getLexerStateForToken_def validLexerStates_def)

lemma stateOf_isNullable:
  "isNullable (stateOf k) \<longleftrightarrow> k \<in> {UNKNOWN, CLAUSE, CLAUSE_CLOSE, SEPARATOR}"
  by (cases k) (simp_all add: stateOf_def getLexerStateForToken_def validLexerStates_def)

subsection \<open>checkExpressionSyntax\<close>

text \<open>
  One pass over the tokens.  \<open>last\<close> is the previous token, \<open>None\<close> while the code's \<open>lastToken\<close>
  is still the zero token (whose kind is UNKNOWN).
\<close>

fun checkSyntaxLoop ::
  "lexer_state \<Rightarrow> 'f token option \<Rightarrow> 'f token list \<Rightarrow> (parse_error, unit) res" where
  "checkSyntaxLoop st lst [] =
     (if isEOF st then Ok ()
      else (case lst of
          None \<Rightarrow> Err (newParseError ''unexpected_end'' zeroSpan [])
        | Some t \<Rightarrow> Err (newParseError ''unexpected_end''
              \<lparr>spanStart = spanEnd (Span t), spanEnd = spanEnd (Span t)\<rparr> (Raw t))))"
| "checkSyntaxLoop st lst (tok # toks) =
     (if \<not> canTransitionTo st (Kind tok) then
        (case lst of
           Some l \<Rightarrow>
             (if Kind l = VARIABLE \<and> Kind tok = CLAUSE
              then rbind (value_string (Value l))
                     (\<lambda>name. Err (newParseError ''undefined_function'' (Span l) (Raw l)))
              else Err (newParseError ''invalid_syntax_transition'' (Span tok) (Raw tok)))
         | None \<Rightarrow> Err (newParseError ''invalid_syntax_transition'' (Span tok) (Raw tok)))
      else (case getLexerStateForToken (Kind tok) of
          None \<Rightarrow> Err (newParseError ''no_lexer_state'' zeroSpan [])
        | Some st' \<Rightarrow>
            (if \<not> isNullable st' \<and> Value tok = TVNil
             then Err (newParseError ''nil_token_value'' (Span tok) (Raw tok))
             else checkSyntaxLoop st' (Some tok) toks)))"

definition checkExpressionSyntax :: "'f token list \<Rightarrow> (parse_error, unit) res" where
  "checkExpressionSyntax toks = checkSyntaxLoop initialState None toks"

text \<open>
  What an accepted token list looks like: each kind may follow the one before, no token that needs a
  value lacks one, and the last kind may end an expression.
\<close>

fun chain_ok :: "token_kind \<Rightarrow> 'f token list \<Rightarrow> bool" where
  "chain_ok k [] = isEOF (stateOf k)"
| "chain_ok k (t # ts) =
     (canTransitionTo (stateOf k) (Kind t)
      \<and> (isNullable (stateOf (Kind t)) \<or> Value t \<noteq> TVNil)
      \<and> chain_ok (Kind t) ts)"

lemma checkSyntaxLoop_chain_ok:
  "checkSyntaxLoop (stateOf k) lst toks = Ok () \<longleftrightarrow> chain_ok k toks"
  by (induction toks arbitrary: k lst)
     (auto simp: getLexerStateForToken_stateOf rbind_Ok_iff split: option.splits)

lemma checkExpressionSyntax_chain_ok:
  "checkExpressionSyntax toks = Ok () \<longleftrightarrow> chain_ok UNKNOWN toks"
  by (simp add: checkExpressionSyntax_def initialState_UNKNOWN checkSyntaxLoop_chain_ok)

lemma chain_ok_nonempty: "chain_ok UNKNOWN toks \<Longrightarrow> toks \<noteq> []"
  by (cases toks) (auto simp: stateOf_isEOF)

lemma chain_ok_last: "chain_ok k toks \<Longrightarrow> toks \<noteq> [] \<Longrightarrow> isEOF (stateOf (Kind (last toks)))"
  by (induction toks arbitrary: k) auto

subsection \<open>checkBalance (parse.go)\<close>

fun balanceLoop :: "'f token list \<Rightarrow> 'f token list \<Rightarrow> (parse_error, unit) res" where
  "balanceLoop [] clauses =
     (case clauses of
        [] \<Rightarrow> Ok ()
      | c # cs \<Rightarrow> Err (newParseError ''unbalanced_parenthesis''
                          (Span (last clauses)) (Raw (last clauses))))"
| "balanceLoop (tok # toks) clauses =
     (if Kind tok = CLAUSE then balanceLoop toks (clauses @ [tok])
      else if Kind tok = CLAUSE_CLOSE then
        (if clauses = []
         then Err (newParseError ''unbalanced_parenthesis'' (Span tok) (Raw tok))
         else balanceLoop toks (butlast clauses))
      else balanceLoop toks clauses)"

definition checkBalance :: "'f token list \<Rightarrow> (parse_error, unit) res" where
  "checkBalance toks = balanceLoop toks []"

text \<open>The reference: a depth that never becomes negative and ends at zero.\<close>

fun depth_ok :: "nat \<Rightarrow> 'f token list \<Rightarrow> bool" where
  "depth_ok d [] = (d = 0)"
| "depth_ok d (t # ts) =
     (if Kind t = CLAUSE then depth_ok (Suc d) ts
      else if Kind t = CLAUSE_CLOSE then (case d of 0 \<Rightarrow> False | Suc d' \<Rightarrow> depth_ok d' ts)
      else depth_ok d ts)"

lemma balanceLoop_depth_ok: "balanceLoop toks clauses = Ok () \<longleftrightarrow> depth_ok (length clauses) toks"
  by (induction toks clauses rule: balanceLoop.induct)
     (auto split: list.splits nat.splits)

subsection \<open>optimizeTokens (parse.go)\<close>

text \<open>
  A regular-expression comparator with a literal right side has it compiled once.  \<open>compiles\<close> is
  \<open>regexp.Compile\<close> of Go's library (whether the pattern compiles).  The code ranges over the
  tokens by index and updates the slice it ranges over: the element read at an index is the slice's,
  after the updates made so far.  \<open>tokens[index+1]\<close> past the end panics.
\<close>

function optimizeFrom ::
  "(string \<Rightarrow> bool) \<Rightarrow> nat \<Rightarrow> 'f token list \<Rightarrow> (parse_error, 'f token list) res" where
  "optimizeFrom compiles i toks =
     (if i < length toks then
        (let tok = toks ! i in
         if Kind tok \<noteq> COMPARATOR then optimizeFrom compiles (Suc i) toks
         else rbind (value_string (Value tok)) (\<lambda>s.
           if comparatorSymbols s \<noteq> Some REQ \<and> comparatorSymbols s \<noteq> Some NREQ
           then optimizeFrom compiles (Suc i) toks
           else if length toks \<le> Suc i then Panic
           else (let t2 = toks ! Suc i in
             if Kind t2 = STRING then
               rbind (value_string (Value t2)) (\<lambda>p.
                 if compiles p
                 then optimizeFrom compiles (Suc i)
                        (toks[Suc i := t2\<lparr>Kind := PATTERN, Value := TVPattern p\<rparr>])
                 else Err (newParseError ''regexp'' zeroSpan []))
             else optimizeFrom compiles (Suc i) toks)))
      else Ok toks)"
  by pat_completeness auto
termination
  by (relation "measure (\<lambda>(compiles, i, toks). length toks - i)") auto

declare optimizeFrom.simps [simp del]

definition optimizeTokens ::
  "(string \<Rightarrow> bool) \<Rightarrow> 'f token list \<Rightarrow> (parse_error, 'f token list) res" where
  "optimizeTokens compiles toks = optimizeFrom compiles 0 toks"

end
