(* ===== verification/ExprPlan.thy ===== *)
theory ExprPlan
  imports ExprStates
begin

text \<open>
  Stage planning, \<open>stage.go\<close> of \<open>mods/tql/expression\<close>: the Pratt parser that turns a token list
  into a tree of evaluation stages.  \<open>parseExpression\<close> takes fuel; the planner gives it one more
  than there are tokens, and \<open>parseStages_total\<close> shows that this is never too little.
\<close>

subsection \<open>Values and stages\<close>

text \<open>
  The dynamic types the evaluator tells apart.  \<open>VNull\<close> is the pointer \<open>NullValue\<close>.  \<open>VInt\<close> holds
  a value of one of Go's integer types and \<open>VFloat32\<close> one of type float32 (already widened), which
  parameters are converted from; \<open>VOther\<close> any other value, known by an identity.
\<close>

datatype int_type = U8 | U16 | U32 | U64 | I8 | I16 | I32 | I64 | GoInt

datatype 'f val =
    VNil | VNull | VBool bool | VNum 'f | VStr string | VRegexp string
  | VArr "'f val list" | VInt int_type int | VFloat32 'f | VOther nat

text \<open>
  The closure a stage runs: one made by a \<open>make...Stage\<close> function, the entry of \<open>stageSymbolMap\<close>
  for a symbol, or \<open>noopStageRight\<close>.
\<close>

datatype 'f stage_op =
    OpParam string | OpLiteral "'f val" | OpFunction string | OpAccessor "string list"
  | OpSymbol op_symbol | OpNoop

text \<open>
  The type checks of a stage are those \<open>findTypeChecks\<close> gives for its symbol wherever the code sets
  them, and none for the symbols of the other stages, where \<open>findTypeChecks\<close> gives none either; so
  they are no field here.  The error format is dropped with the messages.
\<close>

datatype 'f stage =
  Stage (st_symbol: op_symbol) (st_span: source_span)
    (st_left: "'f stage option") (st_right: "'f stage option") (st_operator: "'f stage_op")

definition with_span :: "source_span \<Rightarrow> 'f stage \<Rightarrow> 'f stage" where
  "with_span sp s = Stage (st_symbol s) sp (st_left s) (st_right s) (st_operator s)"

fun literal_value :: "'f tvalue \<Rightarrow> 'f val" where
  "literal_value TVNil = VNil"
| "literal_value (TVNum x) = VNum x"
| "literal_value (TVBool b) = VBool b"
| "literal_value (TVStr s) = VStr s"
| "literal_value (TVPattern p) = VRegexp p"
| "literal_value (TVRune c) = VInt I32 (int (code c))"
| "literal_value (TVFunc f) = VOther 0"
| "literal_value (TVParts ps) = VOther 0"
| "literal_value (TVTime t) = VOther 0"

definition makeInfixStage :: "op_symbol \<Rightarrow> 'f stage \<Rightarrow> 'f stage \<Rightarrow> 'f stage" where
  "makeInfixStage symbol l r =
     Stage symbol (mergeSpan (st_span l) (st_span r)) (Some l) (Some r) (OpSymbol symbol)"

definition ternaryTrueStage :: "'f stage \<Rightarrow> 'f stage \<Rightarrow> 'f stage" where
  "ternaryTrueStage cond trueExpr =
     Stage TERNARY_TRUE (mergeSpan (st_span cond) (st_span trueExpr)) (Some cond) (Some trueExpr)
       (OpSymbol TERNARY_TRUE)"

definition ternaryFalseStage :: "'f stage \<Rightarrow> 'f stage \<Rightarrow> 'f stage \<Rightarrow> 'f stage" where
  "ternaryFalseStage cond trueStage falseExpr =
     Stage TERNARY_FALSE (mergeSpan (st_span cond) (st_span falseExpr))
       (Some trueStage) (Some falseExpr) (OpSymbol TERNARY_FALSE)"

subsection \<open>The parser\<close>

text \<open>\<open>!stream.hasNext() || stream.peek().Kind != CLAUSE_CLOSE\<close> and its neighbours.\<close>

definition at_kind :: "token_kind \<Rightarrow> 'f token_stream \<Rightarrow> bool" where
  "at_kind k ts = (case ts of [] \<Rightarrow> False | t # ts' \<Rightarrow> Kind t = k)"

text \<open>
  The functions below call \<open>parseExpression\<close> on a shorter stream; the parser they call is their
  argument \<open>pe\<close>, and \<open>parseExpression\<close> ties the knot with one unit of fuel less.
\<close>

type_synonym 'f stage_parser = "'f token_stream \<Rightarrow> nat \<Rightarrow> (parse_error, 'f stage \<times> 'f token_stream) res"

definition parseCallArguments ::
  "'f stage_parser \<Rightarrow> 'f token_stream \<Rightarrow> 'f token
     \<Rightarrow> (parse_error, ('f stage option \<times> source_span) \<times> 'f token_stream) res" where
  "parseCallArguments pe ts callTok =
     (if \<not> at_kind CLAUSE ts then Ok ((None, Span callTok), ts)
      else (let openTok = hd ts; ts1 = tl ts in
        if at_kind CLAUSE_CLOSE ts1
        then Ok ((None, mergeSpan (Span callTok) (Span (hd ts1))), tl ts1)
        else rbind (pe ts1 0) (\<lambda>(args, ts2).
          if \<not> at_kind CLAUSE_CLOSE ts2
          then Err (newParseError ''unclosed_call'' (Span openTok) (Raw openTok))
          else Ok ((Some args, mergeSpan (Span callTok) (Span (hd ts2))), tl ts2))))"

definition parseOptionalCallArguments ::
  "'f stage_parser \<Rightarrow> 'f token_stream \<Rightarrow> 'f token
     \<Rightarrow> (parse_error, ('f stage option \<times> source_span) \<times> 'f token_stream) res" where
  "parseOptionalCallArguments pe ts tok =
     (if \<not> at_kind CLAUSE ts then Ok ((None, Span tok), ts)
      else parseCallArguments pe ts tok)"

definition parseTernary ::
  "'f stage_parser \<Rightarrow> 'f token_stream \<Rightarrow> 'f stage
     \<Rightarrow> (parse_error, 'f stage \<times> 'f token_stream) res" where
  "parseTernary pe ts cond =
     rbind (pe ts 0) (\<lambda>(trueExpr, ts1).
       if \<not> at_kind TERNARY ts1 then Ok (ternaryTrueStage cond trueExpr, ts1)
       else rbind (value_string (Value (hd ts1))) (\<lambda>colon.
         if colon \<noteq> '':'' then Ok (ternaryTrueStage cond trueExpr, ts1)
         else rbind (pe (tl ts1) 19) (\<lambda>(falseExpr, ts2).
           Ok (ternaryFalseStage cond (ternaryTrueStage cond trueExpr) falseExpr, ts2))))"

definition parseClause ::
  "'f stage_parser \<Rightarrow> 'f token \<Rightarrow> 'f token_stream
     \<Rightarrow> (parse_error, 'f stage \<times> 'f token_stream) res" where
  "parseClause pe tok rest =
     (if at_kind CLAUSE_CLOSE rest
      then Ok (Stage NOOP (mergeSpan (Span tok) (Span (hd rest))) None None OpNoop, tl rest)
      else rbind (pe rest 0) (\<lambda>(expr, ts').
        if \<not> at_kind CLAUSE_CLOSE ts'
        then Err (newParseError ''unclosed_clause'' (Span tok) (Raw tok))
        else Ok (with_span (mergeSpan (Span tok) (Span (hd ts'))) expr, tl ts')))"

definition parsePrefixOperator ::
  "'f stage_parser \<Rightarrow> 'f token \<Rightarrow> 'f token_stream
     \<Rightarrow> (parse_error, 'f stage \<times> 'f token_stream) res" where
  "parsePrefixOperator pe tok rest =
     rbind (value_string (Value tok)) (\<lambda>s.
       case prefixSymbols s of
         None \<Rightarrow> Err (newParseError ''invalid_prefix'' (Span tok) (Raw tok))
       | Some symbol \<Rightarrow>
           rbind (pe rest 120) (\<lambda>(r, ts').
             Ok (Stage symbol (mergeSpan (Span tok) (st_span r)) None (Some r)
                   (OpSymbol symbol), ts')))"

text \<open>\<open>unix\<close> is the conversion \<open>float64(t.Unix())\<close> of a time literal.\<close>

definition parsePrefix ::
  "(int \<Rightarrow> 'f) \<Rightarrow> 'f stage_parser \<Rightarrow> 'f token_stream
     \<Rightarrow> (parse_error, 'f stage \<times> 'f token_stream) res" where
  "parsePrefix unix pe ts =
     (case ts of
        [] \<Rightarrow> Err (newParseError ''unexpected_end'' zeroSpan [])
      | tok # rest \<Rightarrow>
          (let k = Kind tok in
           if k = PREFIX then parsePrefixOperator pe tok rest
           else if k = CLAUSE then parseClause pe tok rest
           else if k = FUNCTION then
             rbind (parseCallArguments pe rest tok) (\<lambda>((args, span), ts').
               case Value tok of
                 TVFunc f \<Rightarrow> Ok (Stage FUNCTIONAL span None args (OpFunction f), ts')
               | _ \<Rightarrow> Panic)
           else if k = ACCESSOR then
             rbind (parseOptionalCallArguments pe rest tok) (\<lambda>((args, span), ts').
               case Value tok of
                 TVParts ps \<Rightarrow> Ok (Stage ACCESS span None args (OpAccessor ps), ts')
               | _ \<Rightarrow> Panic)
           else if k = VARIABLE then
             rbind (value_string (Value tok)) (\<lambda>x.
               Ok (Stage VALUE (Span tok) None None (OpParam x), rest))
           else if k = NUMERIC \<or> k = STRING \<or> k = PATTERN \<or> k = BOOLEAN then
             Ok (Stage LITERAL (Span tok) None None (OpLiteral (literal_value (Value tok))), rest)
           else if k = TIME then
             (case Value tok of
                TVTime t \<Rightarrow> Ok (Stage LITERAL (Span tok) None None (OpLiteral (VNum (unix t))), rest)
              | _ \<Rightarrow> Panic)
           else if k = CLAUSE_CLOSE
           then Err (newParseError ''unexpected_clause_close'' (Span tok) (Raw tok))
           else Err (newParseError ''unexpected_token'' (Span tok) (Raw tok))))"

primrec parseLoop ::
  "'f stage_parser \<Rightarrow> nat \<Rightarrow> 'f stage \<Rightarrow> 'f token_stream \<Rightarrow> nat
     \<Rightarrow> (parse_error, 'f stage \<times> 'f token_stream) res" where
  "parseLoop pe 0 l ts minBP = NoFuel"
| "parseLoop pe (Suc k) l ts minBP =
     (case ts of
        [] \<Rightarrow> Ok (l, ts)
      | tok # rest \<Rightarrow>
          (if Kind tok = CLAUSE_CLOSE then Ok (l, ts)
           else rbind (infixOperatorForToken tok) (\<lambda>found.
             case found of
               None \<Rightarrow> Ok (l, ts)
             | Some symbol \<Rightarrow>
                 (case infixBindingPowerFor symbol of
                    None \<Rightarrow> Ok (l, ts)
                  | Some bp \<Rightarrow>
                      (if bp_left bp < minBP then Ok (l, ts)
                       else if symbol = TERNARY_TRUE then
                         rbind (parseTernary pe rest l) (\<lambda>(l', ts').
                           parseLoop pe k l' ts' minBP)
                       else
                         rbind (pe rest (bp_right bp)) (\<lambda>(r, ts').
                           parseLoop pe k (makeInfixStage symbol l r) ts' minBP))))))"

primrec parseExpression ::
  "(int \<Rightarrow> 'f) \<Rightarrow> nat \<Rightarrow> 'f token_stream \<Rightarrow> nat
     \<Rightarrow> (parse_error, 'f stage \<times> 'f token_stream) res" where
  "parseExpression unix 0 ts minBP = NoFuel"
| "parseExpression unix (Suc n) ts minBP =
     rbind (parsePrefix unix (parseExpression unix n) ts) (\<lambda>(l, ts').
       parseLoop (parseExpression unix n) (Suc n) l ts' minBP)"

text \<open>\<open>planStages\<close> up to the elision of literals, which the evaluator's theory adds.\<close>

definition parseStages ::
  "(int \<Rightarrow> 'f) \<Rightarrow> 'f token list \<Rightarrow> (parse_error, 'f stage) res" where
  "parseStages unix toks =
     rbind (parseExpression unix (Suc (length toks)) (newTokenStream toks) 0) (\<lambda>(stage, ts).
       case ts of
         [] \<Rightarrow> Ok stage
       | tok # rest \<Rightarrow> Err (newParseError ''unexpected_token'' (Span tok) (Raw tok)))"

subsection \<open>The tree holds the tokens in order\<close>

text \<open>
  What a token contributes to the tree: its operation, nothing for a parenthesis.  \<open>yield_ops\<close>
  reads the operations of a tree from left to right.
\<close>

definition tok_ops :: "(int \<Rightarrow> 'f) \<Rightarrow> 'f token \<Rightarrow> 'f stage_op list" where
  "tok_ops unix tok =
     (let k = Kind tok in
      if k = PREFIX then
        (case Value tok of
           TVStr s \<Rightarrow> (case prefixSymbols s of Some y \<Rightarrow> [OpSymbol y] | None \<Rightarrow> [])
         | _ \<Rightarrow> [])
      else if k = FUNCTION then (case Value tok of TVFunc f \<Rightarrow> [OpFunction f] | _ \<Rightarrow> [])
      else if k = ACCESSOR then (case Value tok of TVParts ps \<Rightarrow> [OpAccessor ps] | _ \<Rightarrow> [])
      else if k = VARIABLE then (case Value tok of TVStr x \<Rightarrow> [OpParam x] | _ \<Rightarrow> [])
      else if k = NUMERIC \<or> k = STRING \<or> k = PATTERN \<or> k = BOOLEAN
      then [OpLiteral (literal_value (Value tok))]
      else if k = TIME then (case Value tok of TVTime t \<Rightarrow> [OpLiteral (VNum (unix t))] | _ \<Rightarrow> [])
      else (case infixOperatorForToken tok :: (parse_error, op_symbol option) res of
              Ok (Some y) \<Rightarrow> [OpSymbol y]
            | _ \<Rightarrow> []))"

fun yield_ops :: "'f stage \<Rightarrow> 'f stage_op list" where
  "yield_ops (Stage sm sp l r op') =
     (case l of None \<Rightarrow> [] | Some a \<Rightarrow> yield_ops a)
     @ (if op' = OpNoop then [] else [op'])
     @ (case r of None \<Rightarrow> [] | Some a \<Rightarrow> yield_ops a)"

abbreviation ops_of :: "(int \<Rightarrow> 'f) \<Rightarrow> 'f token list \<Rightarrow> 'f stage_op list" where
  "ops_of unix ts \<equiv> concat (map (tok_ops unix) ts)"

text \<open>
  A parser that consumes a non-empty prefix of its stream and returns a tree with exactly that
  prefix's operations.
\<close>

definition consuming :: "(int \<Rightarrow> 'f) \<Rightarrow> 'f stage_parser \<Rightarrow> bool" where
  "consuming unix pe = (\<forall>ts bp s ts'. pe ts bp = Ok (s, ts') \<longrightarrow>
     (\<exists>us. us \<noteq> [] \<and> ts = us @ ts' \<and> ops_of unix us = yield_ops s))"

lemma at_kind_Cons:
  assumes "at_kind k ts"
  obtains t ts' where "ts = t # ts'" "Kind t = k"
  using assms by (cases ts) (auto simp: at_kind_def)

lemma consumingD:
  assumes "consuming unix pe" "pe ts bp = Ok (s, ts')"
  obtains us where "us \<noteq> []" "ts = us @ ts'" "ops_of unix us = yield_ops s"
  using assms unfolding consuming_def by blast

lemma tok_ops_paren [simp]:
  "Kind t = CLAUSE \<Longrightarrow> tok_ops unix t = []" "Kind t = CLAUSE_CLOSE \<Longrightarrow> tok_ops unix t = []"
  by (simp_all add: tok_ops_def infixOperatorForToken_def)

lemma yield_ops_with_span [simp]: "yield_ops (with_span sp s) = yield_ops s"
  by (cases s) (simp add: with_span_def)

lemma parseCallArguments_consumes:
  assumes c: "consuming unix pe" and run: "parseCallArguments pe ts t = Ok ((args, sp), ts')"
  shows "\<exists>us. ts = us @ ts' \<and> ops_of unix us = (case args of None \<Rightarrow> [] | Some a \<Rightarrow> yield_ops a)"
proof (cases "at_kind CLAUSE ts")
  case False
  with run show ?thesis by (auto simp: parseCallArguments_def)
next
  case True
  then obtain o' ts1 where ts: "ts = o' # ts1" "Kind o' = CLAUSE" by (rule at_kind_Cons)
  show ?thesis
  proof (cases "at_kind CLAUSE_CLOSE ts1")
    case True
    then obtain c' ts2 where "ts1 = c' # ts2" "Kind c' = CLAUSE_CLOSE" by (rule at_kind_Cons)
    with run ts \<open>at_kind CLAUSE ts\<close> True show ?thesis
      by (intro exI [of _ "[o', c']"]) (auto simp: parseCallArguments_def)
  next
    case False
    with run ts \<open>at_kind CLAUSE ts\<close> obtain a ts2 where
      pe: "pe ts1 0 = Ok (a, ts2)" and cl: "at_kind CLAUSE_CLOSE ts2"
      and res: "args = Some a" "ts' = tl ts2"
      by (auto simp: parseCallArguments_def rbind_Ok_iff split: if_splits)
    from cl obtain c' ts3 where c': "ts2 = c' # ts3" "Kind c' = CLAUSE_CLOSE" by (rule at_kind_Cons)
    from c pe obtain us where "ts1 = us @ ts2" "ops_of unix us = yield_ops a" by (rule consumingD)
    with ts c' res show ?thesis
      by (intro exI [of _ "o' # us @ [c']"]) auto
  qed
qed

lemma parseOptionalCallArguments_eq: "parseOptionalCallArguments = parseCallArguments"
  by (intro ext) (simp add: parseOptionalCallArguments_def parseCallArguments_def)

lemma parseTernary_consumes:
  assumes c: "consuming unix pe" and run: "parseTernary pe ts cond = Ok (s, ts')"
  shows "\<exists>us. ts = us @ ts' \<and> yield_ops s = yield_ops cond @ OpSymbol TERNARY_TRUE # ops_of unix us"
proof -
  from run obtain t ts1 where t: "pe ts 0 = Ok (t, ts1)"
    by (auto simp: parseTernary_def rbind_Ok_iff)
  from c t obtain us where us: "ts = us @ ts1" "ops_of unix us = yield_ops t" by (rule consumingD)
  show ?thesis
  proof (cases "at_kind TERNARY ts1 \<and> Value (hd ts1) = TVStr '':''")
    case False
    with run t have "s = ternaryTrueStage cond t" "ts' = ts1"
      by (auto simp: parseTernary_def rbind_Ok_iff split: if_splits)
    with us show ?thesis by (auto simp: ternaryTrueStage_def)
  next
    case True
    then obtain k ts2 where k: "ts1 = k # ts2" "Kind k = TERNARY" "Value k = TVStr '':''"
      by (auto elim: at_kind_Cons)
    with True run t obtain f where f: "pe ts2 19 = Ok (f, ts')"
      and s: "s = ternaryFalseStage cond (ternaryTrueStage cond t) f"
      by (auto simp: parseTernary_def rbind_Ok_iff)
    from c f obtain vs where vs: "ts2 = vs @ ts'" "ops_of unix vs = yield_ops f" by (rule consumingD)
    have "tok_ops unix k = [OpSymbol TERNARY_FALSE]"
      using k by (simp add: tok_ops_def infixOperatorForToken_def ternarySymbols_def)
    with us vs k s show ?thesis
      by (intro exI [of _ "us @ k # vs"]) (auto simp: ternaryTrueStage_def ternaryFalseStage_def)
  qed
qed

lemma parseClause_consumes:
  assumes c: "consuming unix pe" and run: "parseClause pe tok rest = Ok (s, ts')"
  shows "\<exists>us. rest = us @ ts' \<and> ops_of unix us = yield_ops s"
proof (cases "at_kind CLAUSE_CLOSE rest")
  case True
  then obtain c' ts2 where "rest = c' # ts2" "Kind c' = CLAUSE_CLOSE" by (rule at_kind_Cons)
  with run True show ?thesis by (intro exI [of _ "[c']"]) (auto simp: parseClause_def)
next
  case False
  with run obtain e ts2 where pe: "pe rest 0 = Ok (e, ts2)" and cl: "at_kind CLAUSE_CLOSE ts2"
    and res: "yield_ops s = yield_ops e" "ts' = tl ts2"
    by (auto simp: parseClause_def rbind_Ok_iff split: if_splits)
  from cl obtain c' ts3 where "ts2 = c' # ts3" "Kind c' = CLAUSE_CLOSE" by (rule at_kind_Cons)
  moreover from c pe obtain us where "rest = us @ ts2" "ops_of unix us = yield_ops e"
    by (rule consumingD)
  ultimately show ?thesis using res by (intro exI [of _ "us @ [c']"]) auto
qed

lemma parsePrefixOperator_consumes:
  assumes c: "consuming unix pe" and run: "parsePrefixOperator pe tok rest = Ok (s, ts')"
    and k: "Kind tok = PREFIX"
  shows "\<exists>us. rest = us @ ts' \<and> tok_ops unix tok @ ops_of unix us = yield_ops s"
proof -
  from run obtain x y r where v: "Value tok = TVStr x" and y: "prefixSymbols x = Some y"
    and r: "pe rest 120 = Ok (r, ts')"
    and s: "s = Stage y (mergeSpan (Span tok) (st_span r)) None (Some r) (OpSymbol y)"
    by (auto simp: parsePrefixOperator_def rbind_Ok_iff split: option.splits)
  from c r obtain us where "rest = us @ ts'" "ops_of unix us = yield_ops r" by (rule consumingD)
  with s v y k show ?thesis by (auto simp: tok_ops_def)
qed

lemma parsePrefix_consumes:
  assumes c: "consuming unix pe" and run: "parsePrefix unix pe ts = Ok (s, ts')"
  shows "\<exists>us. us \<noteq> [] \<and> ts = us @ ts' \<and> ops_of unix us = yield_ops s"
proof -
  from run obtain tok rest where ts: "ts = tok # rest"
    by (cases ts) (auto simp: parsePrefix_def)
  note run' = run [unfolded parsePrefix_def ts list.case Let_def]
  have more: "\<exists>us. rest = us @ ts' \<and> tok_ops unix tok @ ops_of unix us = yield_ops s"
  proof -
    consider "Kind tok = PREFIX" | "Kind tok = CLAUSE" | "Kind tok = FUNCTION"
      | "Kind tok = ACCESSOR" | "Kind tok = VARIABLE"
      | "Kind tok \<in> {NUMERIC, STRING, PATTERN, BOOLEAN}" | "Kind tok = TIME"
      using run' by (auto split: if_splits)
    then show ?thesis
    proof cases
      case 1
      with run' c show ?thesis by (auto dest: parsePrefixOperator_consumes)
    next
      case 2
      with run' c show ?thesis by (auto dest: parseClause_consumes)
    next
      case 3
      with run' obtain args sp ts2 where
        "parseCallArguments pe rest tok = Ok ((args, sp), ts2)"
        and v: "(case Value tok of TVFunc f \<Rightarrow> Ok (Stage FUNCTIONAL sp None args (OpFunction f), ts2)
                 | _ \<Rightarrow> Panic) = (Ok (s, ts') :: (parse_error, _) res)"
        by (auto simp: rbind_Ok_iff)
      moreover from v obtain f where f: "Value tok = TVFunc f"
        and s: "s = Stage FUNCTIONAL sp None args (OpFunction f)" and "ts2 = ts'"
        by (cases "Value tok") auto
      ultimately have a: "parseCallArguments pe rest tok = Ok ((args, sp), ts')" by simp
      from parseCallArguments_consumes [OF c a] f s 3 show ?thesis
        by (auto simp: tok_ops_def split: option.splits)
    next
      case 4
      with run' obtain args sp ts2 where
        "parseCallArguments pe rest tok = Ok ((args, sp), ts2)"
        and v: "(case Value tok of TVParts f \<Rightarrow> Ok (Stage ACCESS sp None args (OpAccessor f), ts2)
                 | _ \<Rightarrow> Panic) = (Ok (s, ts') :: (parse_error, _) res)"
        by (auto simp: parseOptionalCallArguments_eq rbind_Ok_iff)
      moreover from v obtain f where f: "Value tok = TVParts f"
        and s: "s = Stage ACCESS sp None args (OpAccessor f)" and "ts2 = ts'"
        by (cases "Value tok") auto
      ultimately have a: "parseCallArguments pe rest tok = Ok ((args, sp), ts')" by simp
      from parseCallArguments_consumes [OF c a] f s 4 show ?thesis
        by (auto simp: tok_ops_def split: option.splits)
    next
      case 5
      with run' show ?thesis by (auto simp: rbind_Ok_iff tok_ops_def)
    next
      case 6
      with run' show ?thesis by (auto simp: tok_ops_def)
    next
      case 7
      with run' show ?thesis by (auto simp: tok_ops_def split: tvalue.splits)
    qed
  qed
  then obtain us where "rest = us @ ts'" "tok_ops unix tok @ ops_of unix us = yield_ops s" by blast
  with ts show ?thesis by (intro exI [of _ "tok # us"]) simp
qed

text \<open>Where the loop stops: the next token is no infix operator, or binds less tightly.\<close>

definition loop_stops :: "'f token_stream \<Rightarrow> nat \<Rightarrow> bool" where
  "loop_stops ts bp =
     (case ts of
        [] \<Rightarrow> True
      | tok # rest \<Rightarrow>
          Kind tok = CLAUSE_CLOSE \<or>
          (case infixOperatorForToken tok :: (parse_error, op_symbol option) res of
             Ok None \<Rightarrow> True
           | Ok (Some y) \<Rightarrow>
               (case infixBindingPowerFor y of None \<Rightarrow> True | Some p \<Rightarrow> bp_left p < bp)
           | _ \<Rightarrow> False))"

lemma parseLoop_stop: "loop_stops ts bp \<Longrightarrow> parseLoop pe (Suc k) l ts bp = Ok (l, ts)"
proof (cases ts)
  case Nil
  then show ?thesis by simp
next
  case (Cons tok rest)
  assume st: "loop_stops ts bp"
  show ?thesis
  proof (cases "infixOperatorForToken tok :: (parse_error, op_symbol option) res")
    case (Ok found)
    show ?thesis
    proof (cases found)
      case None
      with Ok Cons show ?thesis by simp
    next
      case (Some y)
      with Ok Cons st show ?thesis
        by (cases "infixBindingPowerFor y") (auto simp: loop_stops_def)
    qed
  qed (use st Cons in \<open>auto simp: loop_stops_def\<close>)
qed

text \<open>One turn of the loop: it stops, or an operator is consumed with its right side.\<close>

lemma parseLoop_turn [consumes 1, case_names stop ternary infix_op]:
  assumes run: "parseLoop pe (Suc k) l ts bp = Ok (s, ts')"
  obtains "loop_stops ts bp" "s = l" "ts' = ts"
  | tok rest l' ts1 where "ts = tok # rest" "Kind tok \<noteq> CLAUSE_CLOSE"
      "infixOperatorForToken tok = (Ok (Some TERNARY_TRUE) :: (parse_error, op_symbol option) res)"
      "bp \<le> 20" "parseTernary pe rest l = Ok (l', ts1)" "parseLoop pe k l' ts1 bp = Ok (s, ts')"
  | tok rest symbol p r ts1 where "ts = tok # rest" "Kind tok \<noteq> CLAUSE_CLOSE"
      "infixOperatorForToken tok = (Ok (Some symbol) :: (parse_error, op_symbol option) res)"
      "symbol \<noteq> TERNARY_TRUE" "infixBindingPowerFor symbol = Some p" "bp \<le> bp_left p"
      "pe rest (bp_right p) = Ok (r, ts1)"
      "parseLoop pe k (makeInfixStage symbol l r) ts1 bp = Ok (s, ts')"
proof (cases ts)
  case Nil
  with run that(1) show thesis by (auto simp: loop_stops_def)
next
  case (Cons tok rest)
  note run' = run [unfolded parseLoop.simps Cons list.case]
  consider "loop_stops ts bp"
    | symbol p where "Kind tok \<noteq> CLAUSE_CLOSE"
      "infixOperatorForToken tok = (Ok (Some symbol) :: (parse_error, op_symbol option) res)"
      "infixBindingPowerFor symbol = Some p" "bp \<le> bp_left p"
  proof (cases "Kind tok = CLAUSE_CLOSE")
    case True
    with Cons that(1) show thesis by (simp add: loop_stops_def)
  next
    case False
    with run' obtain found where
      f: "infixOperatorForToken tok = (Ok found :: (parse_error, op_symbol option) res)"
      by (auto simp: rbind_Ok_iff)
    show thesis
    proof (cases "\<exists>y p. found = Some y \<and> infixBindingPowerFor y = Some p \<and> bp \<le> bp_left p")
      case True
      with that(2) False f show thesis by blast
    next
      case no: False
      have "loop_stops ts bp"
        using f no Cons by (cases found) (auto simp: loop_stops_def split: option.splits)
      with that(1) show thesis by simp
    qed
  qed
  then show thesis
  proof cases
    case 1
    with run parseLoop_stop [of ts bp pe k l] show thesis by (intro that(1)) auto
  next
    case (2 symbol p)
    show thesis
    proof (cases "symbol = TERNARY_TRUE")
      case True
      with 2 run' obtain l' ts1 where "parseTernary pe rest l = Ok (l', ts1)"
        "parseLoop pe k l' ts1 bp = Ok (s, ts')"
        by (auto simp: rbind_Ok_iff split: if_splits)
      with 2 True Cons show thesis by (intro that(2)) auto
    next
      case False
      with 2 run' obtain r ts1 where "pe rest (bp_right p) = Ok (r, ts1)"
        "parseLoop pe k (makeInfixStage symbol l r) ts1 bp = Ok (s, ts')"
        by (auto simp: rbind_Ok_iff split: if_splits)
      with 2 False Cons show thesis by (intro that(3)) auto
    qed
  qed
qed

lemma infix_token_ops:
  assumes "infixOperatorForToken tok = (Ok (Some y) :: (parse_error, op_symbol option) res)"
  shows "tok_ops unix tok = [OpSymbol y]"
proof -
  have "Kind tok \<in> {MODIFIER, COMPARATOR, LOGICALOP, TERNARY, SEPARATOR}"
    using assms by (cases "Kind tok") (auto simp: infixOperatorForToken_def)
  with assms show ?thesis by (auto simp: tok_ops_def)
qed

lemma parseLoop_consumes:
  assumes c: "consuming unix pe"
  shows "parseLoop pe k l ts bp = Ok (s, ts') \<Longrightarrow>
     \<exists>us. ts = us @ ts' \<and> yield_ops s = yield_ops l @ ops_of unix us"
proof (induction k arbitrary: l ts)
  case 0
  then show ?case by simp
next
  case (Suc k)
  from Suc.prems show ?case
  proof (cases rule: parseLoop_turn)
    case stop
    then show ?thesis by simp
  next
    case (ternary tok rest l' ts1)
    from parseTernary_consumes [OF c ternary(5)] obtain us where
      us: "rest = us @ ts1" "yield_ops l' = yield_ops l @ OpSymbol TERNARY_TRUE # ops_of unix us"
      by blast
    from Suc.IH [OF ternary(6)] obtain vs where
      "ts1 = vs @ ts'" "yield_ops s = yield_ops l' @ ops_of unix vs" by blast
    with us ternary(1) infix_token_ops [OF ternary(3), of unix] show ?thesis
      by (intro exI [of _ "tok # us @ vs"]) simp
  next
    case (infix_op tok rest symbol p r ts1)
    from c infix_op(7) obtain us where us: "rest = us @ ts1" "ops_of unix us = yield_ops r"
      by (rule consumingD)
    from Suc.IH [OF infix_op(8)] obtain vs where
      "ts1 = vs @ ts'" "yield_ops s = yield_ops (makeInfixStage symbol l r) @ ops_of unix vs" by blast
    with us infix_op(1) infix_token_ops [OF infix_op(3), of unix] show ?thesis
      by (intro exI [of _ "tok # us @ vs"]) (simp add: makeInfixStage_def)
  qed
qed

lemma parseExpression_consuming: "consuming unix (parseExpression unix n)"
proof (induction n)
  case 0
  then show ?case by (simp add: consuming_def)
next
  case (Suc n)
  show ?case
    unfolding consuming_def
  proof (intro allI impI)
    fix ts bp s ts'
    assume "parseExpression unix (Suc n) ts bp = Ok (s, ts')"
    then obtain l ts1 where p: "parsePrefix unix (parseExpression unix n) ts = Ok (l, ts1)"
      and lp: "parseLoop (parseExpression unix n) (Suc n) l ts1 bp = Ok (s, ts')"
      by (auto simp: rbind_Ok_iff simp del: parseLoop.simps)
    from parsePrefix_consumes [OF Suc.IH p] parseLoop_consumes [OF Suc.IH lp]
    show "\<exists>us. us \<noteq> [] \<and> ts = us @ ts' \<and> ops_of unix us = yield_ops s"
      by force
  qed
qed

subsection \<open>The fuel is enough\<close>

text \<open>A parser that answers every stream shorter than \<open>n\<close>.\<close>

definition answers :: "nat \<Rightarrow> 'f stage_parser \<Rightarrow> bool" where
  "answers n pe = (\<forall>ts bp. length ts < n \<longrightarrow> pe ts bp \<noteq> NoFuel)"

lemma answersD: "answers n pe \<Longrightarrow> length ts < n \<Longrightarrow> pe ts bp \<noteq> NoFuel"
  by (simp add: answers_def)

lemma value_string_not_NoFuel [simp]: "value_string v \<noteq> NoFuel"
  by (cases v) auto

lemma infixOperatorForToken_not_NoFuel [simp]: "infixOperatorForToken tok \<noteq> NoFuel"
  by (cases "Kind tok") (simp_all add: infixOperatorForToken_def)

lemma parseCallArguments_answers:
  assumes "answers n pe" "length ts \<le> n"
  shows "parseCallArguments pe ts t \<noteq> NoFuel"
proof (cases ts)
  case Nil
  then show ?thesis by (simp add: parseCallArguments_def at_kind_def)
next
  case (Cons o' ts1)
  with assms answersD [of n pe ts1 0] show ?thesis
    by (auto simp: parseCallArguments_def rbind_NoFuel_iff)
qed

lemma parseTernary_answers:
  assumes "consuming unix pe" "answers n pe" "length ts < n"
  shows "parseTernary pe ts cond \<noteq> NoFuel"
proof
  assume "parseTernary pe ts cond = NoFuel"
  with answersD [OF assms(2,3), of 0] obtain t ts1 where t: "pe ts 0 = Ok (t, ts1)"
    and f: "pe (tl ts1) 19 = NoFuel"
    by (auto simp: parseTernary_def rbind_NoFuel_iff split: if_splits)
  from assms(1) t obtain us where "ts = us @ ts1" by (rule consumingD)
  with assms(3) have "length (tl ts1) < n" by simp
  with f answersD [OF assms(2)] show False by blast
qed

lemma parsePrefix_answers:
  assumes "answers n pe" "length ts \<le> n"
  shows "parsePrefix unix pe ts \<noteq> NoFuel"
proof (cases ts)
  case Nil
  then show ?thesis by (simp add: parsePrefix_def)
next
  case (Cons tok rest)
  with assms answersD [of n pe rest] parseCallArguments_answers [of n pe rest tok] show ?thesis
    by (auto simp: parsePrefix_def parsePrefixOperator_def parseClause_def Let_def
        parseOptionalCallArguments_eq rbind_NoFuel_iff split: option.splits tvalue.splits)
qed

lemma parseLoop_answers:
  assumes c: "consuming unix pe" and a: "answers n pe"
  shows "length ts < k \<Longrightarrow> length ts \<le> n \<Longrightarrow> parseLoop pe k l ts bp \<noteq> NoFuel"
proof (induction k arbitrary: l ts)
  case 0
  then show ?case by simp
next
  case (Suc k)
  show ?case
  proof (cases ts)
    case Nil
    then show ?thesis by simp
  next
    case (Cons tok rest)
    have again: "parseLoop pe k l' ts' bp \<noteq> NoFuel" if "length ts' \<le> length rest" for l' ts'
      using that Suc.prems Cons by (intro Suc.IH) auto
    have "parseTernary pe rest l \<noteq> NoFuel" "pe rest q \<noteq> NoFuel" for q
      using Suc.prems Cons parseTernary_answers [OF c a] answersD [OF a] by auto
    moreover have "parseLoop pe k l' ts' bp \<noteq> NoFuel"
      if "parseTernary pe rest l = Ok (l', ts')" for l' ts'
      using parseTernary_consumes [OF c that] by (intro again) auto
    moreover have "parseLoop pe k m ts' bp \<noteq> NoFuel"
      if "pe rest q = Ok (r, ts')" for q r m ts'
      using c that by (auto elim!: consumingD intro!: again)
    ultimately show ?thesis
      using Cons by (auto simp: rbind_NoFuel_iff split: option.splits)
  qed
qed

lemma parseExpression_answers: "answers n (parseExpression unix n)"
proof (induction n)
  case 0
  then show ?case by (simp add: answers_def)
next
  case (Suc n)
  note c = parseExpression_consuming [of unix n]
  show ?case
    unfolding answers_def
  proof (intro allI impI notI)
    fix ts :: "'a token list" and bp
    assume len: "length ts < Suc n" and "parseExpression unix (Suc n) ts bp = NoFuel"
    with parsePrefix_answers [OF Suc.IH, of ts unix] obtain l ts1 where
      p: "parsePrefix unix (parseExpression unix n) ts = Ok (l, ts1)"
      and lp: "parseLoop (parseExpression unix n) (Suc n) l ts1 bp = NoFuel"
      by (auto simp: rbind_NoFuel_iff simp del: parseLoop.simps)
    from parsePrefix_consumes [OF c p] have "length ts1 < length ts" by auto
    with len lp parseLoop_answers [OF c Suc.IH, of ts1 "Suc n" l bp] show False by simp
  qed
qed

subsection \<open>More fuel gives the same tree\<close>

definition extends :: "'f stage_parser \<Rightarrow> 'f stage_parser \<Rightarrow> bool" where
  "extends pe pe' = (\<forall>ts bp. fuel_le (pe ts bp) (pe' ts bp))"

lemma extendsD: "extends pe pe' \<Longrightarrow> fuel_le (pe ts bp) (pe' ts bp)"
  by (simp add: extends_def)

lemma parseCallArguments_extends [fuel_intros]:
  assumes e: "extends pe pe'"
  shows "fuel_le (parseCallArguments pe ts t) (parseCallArguments pe' ts t)"
  unfolding parseCallArguments_def Let_def by (intro fuel_intros extendsD [OF e] e)

lemma parseTernary_extends [fuel_intros]:
  assumes e: "extends pe pe'"
  shows "fuel_le (parseTernary pe ts l) (parseTernary pe' ts l)"
  unfolding parseTernary_def by (intro fuel_intros extendsD [OF e] e)

lemma parseClause_extends [fuel_intros]:
  assumes e: "extends pe pe'"
  shows "fuel_le (parseClause pe tok ts) (parseClause pe' tok ts)"
  unfolding parseClause_def by (intro fuel_intros extendsD [OF e] e)

lemma parsePrefixOperator_extends [fuel_intros]:
  assumes e: "extends pe pe'"
  shows "fuel_le (parsePrefixOperator pe tok ts) (parsePrefixOperator pe' tok ts)"
  unfolding parsePrefixOperator_def by (intro fuel_intros extendsD [OF e] e)

lemma parsePrefix_extends [fuel_intros]:
  assumes e: "extends pe pe'"
  shows "fuel_le (parsePrefix unix pe ts) (parsePrefix unix pe' ts)"
  unfolding parsePrefix_def Let_def parseOptionalCallArguments_eq by (intro fuel_intros extendsD [OF e] e)

lemma parseLoop_extends [fuel_intros]:
  "extends pe pe' \<Longrightarrow> k \<le> k' \<Longrightarrow> fuel_le (parseLoop pe k l ts bp) (parseLoop pe' k' l ts bp)"
proof (induction k arbitrary: l ts k')
  case 0
  then show ?case by (simp add: fuel_le_NoFuel)
next
  case (Suc k)
  obtain j where k': "k' = Suc j" "k \<le> j" using Suc.prems(2) by (cases k') auto
  have ih: "fuel_le (parseLoop pe k l' ts' bp) (parseLoop pe' j l' ts' bp)" for l' ts'
    by (rule Suc.IH [OF Suc.prems(1) k'(2)])
  show ?case
    unfolding k'(1) parseLoop.simps by (intro fuel_intros extendsD [OF Suc.prems(1)] Suc.prems(1) ih)
qed

lemma parseExpression_extends_Suc:
  "extends (parseExpression unix n) (parseExpression unix (Suc n))"
proof (induction n)
  case 0
  then show ?case by (simp add: extends_def fuel_le_NoFuel)
next
  case (Suc n)
  have "fuel_le (parseExpression unix (Suc n) ts bp) (parseExpression unix (Suc (Suc n)) ts bp)"
    for ts bp
    unfolding parseExpression.simps(2) [of unix n ts bp] parseExpression.simps(2) [of unix "Suc n" ts bp]
    by (intro fuel_intros Suc.IH) simp
  then show ?case by (simp only: extends_def) blast
qed

lemma parseExpression_extends:
  "n \<le> m \<Longrightarrow> extends (parseExpression unix n) (parseExpression unix m)"
proof (induction rule: dec_induct)
  case base
  then show ?case by (simp add: extends_def fuel_le_refl)
next
  case (step i)
  with parseExpression_extends_Suc [of unix i] show ?case
    unfolding extends_def by (blast intro: fuel_le_trans)
qed

lemma parseExpression_fuel:
  assumes "parseExpression unix n ts bp = Ok r" "length ts < m"
  shows "parseExpression unix m ts bp = Ok r"
proof -
  have "parseExpression unix (max n m) ts bp = Ok r"
    using extendsD [OF parseExpression_extends [of n "max n m" unix], of ts bp] assms(1)
    by (simp add: fuel_le_def)
  moreover have "parseExpression unix m ts bp \<noteq> NoFuel"
    by (rule answersD [OF parseExpression_answers assms(2)])
  ultimately show ?thesis
    using extendsD [OF parseExpression_extends [of m "max n m" unix], of ts bp]
    by (simp add: fuel_le_def)
qed

subsection \<open>Properties of the planner\<close>

lemma parseStages_OkE:
  assumes "parseStages unix toks = Ok s"
  shows "parseExpression unix (Suc (length toks)) toks 0 = Ok (s, [])"
proof -
  from assms obtain s' ts where
    run: "parseExpression unix (Suc (length toks)) toks 0 = Ok (s', ts)"
    and more: "(case ts of [] \<Rightarrow> Ok s'
      | tok # rest \<Rightarrow> Err (newParseError ''unexpected_token'' (Span tok) (Raw tok))) = Ok s"
    by (auto simp: parseStages_def newTokenStream_def rbind_Ok_iff simp del: parseExpression.simps)
  from more have "ts = []" "s' = s" by (cases ts; simp)+
  with run show ?thesis by simp
qed

lemma parseStages_consumed:
  assumes "parseStages unix toks = Ok s"
  shows "yield_ops s = ops_of unix toks"
proof -
  from parseExpression_consuming parseStages_OkE [OF assms] obtain us where
    "toks = us @ []" "ops_of unix us = yield_ops s"
    by (rule consumingD)
  then show ?thesis by simp
qed

text \<open>C26: the planner answers every token list with a tree, an error or a panic: the fuel it gives
  its parser, one unit more than there are tokens, is never used up.\<close>

theorem parseStages_total: "parseStages unix toks \<noteq> NoFuel"
  using answersD [OF parseExpression_answers, of toks "Suc (length toks)" unix 0]
  by (auto simp: parseStages_def newTokenStream_def rbind_NoFuel_iff split: list.splits
      simp del: parseExpression.simps)

end
