(* ===== verification/ExprOperators.thy ===== *)
theory ExprOperators
  imports ExprPlan "HOL-Library.Word"
begin

text \<open>
  The operators a stage runs and the type checks before them, \<open>evaluation.go\<close> and \<open>findTypeChecks\<close> of
  \<open>stage.go\<close>, with the parameters they read, \<open>parameter.go\<close>.

  Go's float64 is a type \<open>'f\<close>; its operations, the regular expressions, \<open>fmt\<close>'s \<open>%v\<close>, and the
  functions and objects of the caller are fields of the record \<open>host\<close>.  An operation that can run
  the caller's code threads a state \<open>'s\<close> of the caller.  What \<open>reflect\<close> says of an object of the
  caller is a field too: whether it is a struct or points to one, its fields (\<open>Err\<close> where reading
  one panics with a string), its methods (a handle, the kinds of the parameters), the conversion of a
  value to a kind (\<open>None\<close> where it panics) and whether a value is a non-nil error.  Values are immutable here: that
  \<open>makeFunctionStage\<close> and \<open>separatorStage\<close> may write into an array the caller passed is not modelled.
\<close>

subsection \<open>The host\<close>

record ('f, 's) host =
  fadd :: "'f \<Rightarrow> 'f \<Rightarrow> 'f"
  fsub :: "'f \<Rightarrow> 'f \<Rightarrow> 'f"
  fmul :: "'f \<Rightarrow> 'f \<Rightarrow> 'f"
  fdiv :: "'f \<Rightarrow> 'f \<Rightarrow> 'f"
  fpow :: "'f \<Rightarrow> 'f \<Rightarrow> 'f"
  fmod :: "'f \<Rightarrow> 'f \<Rightarrow> 'f"
  fneg :: "'f \<Rightarrow> 'f"
  fless :: "'f \<Rightarrow> 'f \<Rightarrow> bool"
  feq :: "'f \<Rightarrow> 'f \<Rightarrow> bool"
  ofInt :: "int_type \<Rightarrow> int \<Rightarrow> 'f"
  ofInt64 :: "64 word \<Rightarrow> 'f"
  toInt64 :: "'f \<Rightarrow> 64 word"
  ofUint64 :: "64 word \<Rightarrow> 'f"
  toUint64 :: "'f \<Rightarrow> 64 word"
  fmtV :: "'f val \<Rightarrow> string"
  reCompiles :: "string \<Rightarrow> bool"
  reMatches :: "string \<Rightarrow> string \<Rightarrow> bool"
  deepOther :: "'f val \<Rightarrow> 'f val \<Rightarrow> bool"
  sameOther :: "'f val \<Rightarrow> 'f val \<Rightarrow> bool option"
  callFunction :: "string \<Rightarrow> 'f val list \<Rightarrow> 's \<Rightarrow> (unit, 'f val) res \<times> 's"
  isStruct :: "'f val \<Rightarrow> bool"
  fieldByName :: "'f val \<Rightarrow> string \<Rightarrow> (unit, 'f val) res option"
  methodByName :: "'f val \<Rightarrow> string \<Rightarrow> nat option"
  methodIn :: "nat \<Rightarrow> nat list"
  kindOf :: "'f val \<Rightarrow> nat"
  convertKind :: "'f val \<Rightarrow> nat \<Rightarrow> 'f val option"
  callMethod :: "nat \<Rightarrow> 'f val list \<Rightarrow> 's \<Rightarrow> (unit, 'f val list) res \<times> 's"
  isError :: "'f val \<Rightarrow> bool"

text \<open>The computations of the caller's code: an outcome and the state afterwards.\<close>

type_synonym ('s, 'e, 'a) comp = "'s \<Rightarrow> ('e, 'a) res \<times> 's"

definition cret :: "('e, 'a) res \<Rightarrow> ('s, 'e, 'a) comp" where
  "cret r s = (r, s)"

definition cbind :: "('s, 'e, 'a) comp \<Rightarrow> ('a \<Rightarrow> ('s, 'e, 'b) comp) \<Rightarrow> ('s, 'e, 'b) comp" where
  "cbind m f s =
     (case m s of
        (Ok a, s') \<Rightarrow> f a s'
      | (Err e, s') \<Rightarrow> (Err e, s')
      | (Panic, s') \<Rightarrow> (Panic, s')
      | (NoFuel, s') \<Rightarrow> (NoFuel, s'))"

lemma cbind_cret [simp]:
  "cbind (cret (Ok a)) f = f a" "cbind (cret (Err e)) f = cret (Err e)"
  "cbind (cret Panic) f = cret Panic"
  by (simp_all add: cbind_def cret_def fun_eq_iff)

lemma fst_cret [simp]: "fst (cret r s) = r" and snd_cret [simp]: "snd (cret r s) = s"
  by (simp_all add: cret_def)

subsection \<open>Tests of a value's type\<close>

fun isString :: "'f val \<Rightarrow> bool" where "isString (VStr s) = True" | "isString _ = False"
fun isBool :: "'f val \<Rightarrow> bool" where "isBool (VBool b) = True" | "isBool _ = False"
fun isFloat64 :: "'f val \<Rightarrow> bool" where "isFloat64 (VNum x) = True" | "isFloat64 _ = False"
fun isArray :: "'f val \<Rightarrow> bool" where "isArray (VArr vs) = True" | "isArray _ = False"

fun isRegexOrString :: "'f val \<Rightarrow> bool" where
  "isRegexOrString (VStr s) = True"
| "isRegexOrString (VRegexp p) = True"
| "isRegexOrString _ = False"

definition additionTypeCheck :: "'f val \<Rightarrow> 'f val \<Rightarrow> bool" where
  "additionTypeCheck l r =
     (if isFloat64 l \<and> isFloat64 r then True
      else if \<not> isString l \<and> \<not> isString r then False
      else True)"

definition comparatorTypeCheck :: "'f val \<Rightarrow> 'f val \<Rightarrow> bool" where
  "comparatorTypeCheck l r =
     (if isFloat64 l \<and> isFloat64 r then True
      else if isString l \<and> isString r then True
      else False)"

text \<open>The assertions \<open>v.(float64)\<close>, \<open>v.(bool)\<close>, \<open>v.(string)\<close> and \<open>v.([]any)\<close> panic on another type.\<close>

fun asNum :: "'f val \<Rightarrow> ('e, 'f) res" where "asNum (VNum x) = Ok x" | "asNum _ = Panic"
fun asBool :: "'f val \<Rightarrow> ('e, bool) res" where "asBool (VBool b) = Ok b" | "asBool _ = Panic"
fun asStr :: "'f val \<Rightarrow> ('e, string) res" where "asStr (VStr s) = Ok s" | "asStr _ = Panic"
fun asArr :: "'f val \<Rightarrow> ('e, 'f val list) res" where "asArr (VArr vs) = Ok vs" | "asArr _ = Panic"

lemma as_type_iff:
  "isFloat64 v \<longleftrightarrow> (\<exists>x. v = VNum x)" "isBool v \<longleftrightarrow> (\<exists>b. v = VBool b)"
  "isString v \<longleftrightarrow> (\<exists>s. v = VStr s)" "isArray v \<longleftrightarrow> (\<exists>vs. v = VArr vs)"
  "isRegexOrString v \<longleftrightarrow> (\<exists>s. v = VStr s) \<or> (\<exists>p. v = VRegexp p)"
  by (cases v; simp)+

subsection \<open>Parameters (parameter.go)\<close>

type_synonym ('f, 's) parameters = "string \<Rightarrow> ('s, unit, 'f val) comp"

definition MapParameters_Get :: "(string \<Rightarrow> 'f val option) \<Rightarrow> ('f, 's) parameters" where
  "MapParameters_Get p name = (case p name of None \<Rightarrow> cret (Err ()) | Some v \<Rightarrow> cret (Ok v))"

fun castToFloat64 :: "('f, 's) host \<Rightarrow> 'f val \<Rightarrow> 'f val" where
  "castToFloat64 h (VInt t i) = VNum (ofInt h t i)"
| "castToFloat64 h (VFloat32 x) = VNum x"
| "castToFloat64 h v = v"

definition sanitizedParameters_Get :: "('f, 's) host \<Rightarrow> ('f, 's) parameters \<Rightarrow> ('f, 's) parameters" where
  "sanitizedParameters_Get h orig key = cbind (orig key) (\<lambda>v. cret (Ok (castToFloat64 h v)))"

definition DUMMY_PARAMETERS :: "('f, 's) parameters" where
  "DUMMY_PARAMETERS = MapParameters_Get (\<lambda>_. None)"

subsection \<open>Operators on two values\<close>

type_synonym 'f operator2 = "'f val \<Rightarrow> 'f val \<Rightarrow> (unit, 'f val) res"

definition sprintV :: "('f, 's) host \<Rightarrow> 'f val \<Rightarrow> string" where
  "sprintV h v = (case v of VStr s \<Rightarrow> s | _ \<Rightarrow> fmtV h v)"

definition numStage :: "('f \<Rightarrow> 'f \<Rightarrow> 'f val) \<Rightarrow> 'f operator2" where
  "numStage f l r = rbind (asNum l) (\<lambda>x. rbind (asNum r) (\<lambda>y. Ok (f x y)))"

definition addStage :: "('f, 's) host \<Rightarrow> 'f operator2" where
  "addStage h l r =
     (if isString l \<or> isString r then Ok (VStr (sprintV h l @ sprintV h r))
      else numStage (\<lambda>x y. VNum (fadd h x y)) l r)"

definition subtractStage :: "('f, 's) host \<Rightarrow> 'f operator2" where
  "subtractStage h = numStage (\<lambda>x y. VNum (fsub h x y))"

definition multiplyStage :: "('f, 's) host \<Rightarrow> 'f operator2" where
  "multiplyStage h = numStage (\<lambda>x y. VNum (fmul h x y))"

definition divideStage :: "('f, 's) host \<Rightarrow> 'f operator2" where
  "divideStage h = numStage (\<lambda>x y. VNum (fdiv h x y))"

definition exponentStage :: "('f, 's) host \<Rightarrow> 'f operator2" where
  "exponentStage h = numStage (\<lambda>x y. VNum (fpow h x y))"

definition modulusStage :: "('f, 's) host \<Rightarrow> 'f operator2" where
  "modulusStage h = numStage (\<lambda>x y. VNum (fmod h x y))"

text \<open>Strings are compared by their characters' codes; \<open>x >= y\<close> on floats is \<open>y < x \<or> x == y\<close>.\<close>

fun str_less :: "string \<Rightarrow> string \<Rightarrow> bool" where
  "str_less xs [] = False"
| "str_less [] (y # ys) = True"
| "str_less (x # xs) (y # ys) = (code x < code y \<or> x = y \<and> str_less xs ys)"

definition compareStage ::
  "(string \<Rightarrow> string \<Rightarrow> bool) \<Rightarrow> ('f \<Rightarrow> 'f \<Rightarrow> bool) \<Rightarrow> 'f operator2" where
  "compareStage sc fc l r =
     (if isString l \<and> isString r
      then rbind (asStr l) (\<lambda>a. rbind (asStr r) (\<lambda>b. Ok (VBool (sc a b))))
      else numStage (\<lambda>x y. VBool (fc x y)) l r)"

definition gteStage :: "('f, 's) host \<Rightarrow> 'f operator2" where
  "gteStage h = compareStage (\<lambda>a b. \<not> str_less a b) (\<lambda>x y. fless h y x \<or> feq h x y)"

definition gtStage :: "('f, 's) host \<Rightarrow> 'f operator2" where
  "gtStage h = compareStage (\<lambda>a b. str_less b a) (\<lambda>x y. fless h y x)"

definition lteStage :: "('f, 's) host \<Rightarrow> 'f operator2" where
  "lteStage h = compareStage (\<lambda>a b. \<not> str_less b a) (\<lambda>x y. fless h x y \<or> feq h x y)"

definition ltStage :: "('f, 's) host \<Rightarrow> 'f operator2" where
  "ltStage h = compareStage str_less (\<lambda>x y. fless h x y)"

text \<open>
  \<open>reflect.DeepEqual\<close>: values of one type compared by content, arrays element by element; compiled
  patterns and the caller's objects by the host.
\<close>

fun deepEqual :: "('f, 's) host \<Rightarrow> 'f val \<Rightarrow> 'f val \<Rightarrow> bool" where
  "deepEqual h VNil w = (case w of VNil \<Rightarrow> True | _ \<Rightarrow> False)"
| "deepEqual h VNull w = (case w of VNull \<Rightarrow> True | _ \<Rightarrow> False)"
| "deepEqual h (VBool a) w = (case w of VBool b \<Rightarrow> a = b | _ \<Rightarrow> False)"
| "deepEqual h (VNum x) w = (case w of VNum y \<Rightarrow> feq h x y | _ \<Rightarrow> False)"
| "deepEqual h (VStr s) w = (case w of VStr t \<Rightarrow> s = t | _ \<Rightarrow> False)"
| "deepEqual h (VArr vs) w = (case w of VArr ws \<Rightarrow> list_all2 (deepEqual h) vs ws | _ \<Rightarrow> False)"
| "deepEqual h (VInt t i) w = (case w of VInt u j \<Rightarrow> t = u \<and> i = j | _ \<Rightarrow> False)"
| "deepEqual h (VFloat32 x) w = (case w of VFloat32 y \<Rightarrow> feq h x y | _ \<Rightarrow> False)"
| "deepEqual h (VRegexp p) w = (case w of VRegexp q \<Rightarrow> deepOther h (VRegexp p) w | _ \<Rightarrow> False)"
| "deepEqual h (VOther m) w = (case w of VOther n \<Rightarrow> deepOther h (VOther m) w | _ \<Rightarrow> False)"

fun isNull :: "'f val \<Rightarrow> bool" where "isNull VNil = True" | "isNull VNull = True" | "isNull _ = False"

definition equalStage :: "('f, 's) host \<Rightarrow> 'f operator2" where
  "equalStage h l r = Ok (VBool (if isNull l \<and> isNull r then True else deepEqual h l r))"

definition notEqualStage :: "('f, 's) host \<Rightarrow> 'f operator2" where
  "notEqualStage h l r = Ok (VBool (if isNull l \<and> isNull r then False else \<not> deepEqual h l r))"

definition andStage :: "'f operator2" where
  "andStage l r = rbind (asBool l) (\<lambda>a. if a then rmap VBool (asBool r) else Ok (VBool False))"

definition orStage :: "'f operator2" where
  "orStage l r = rbind (asBool l) (\<lambda>a. if a then Ok (VBool True) else rmap VBool (asBool r))"

definition negateStage :: "('f, 's) host \<Rightarrow> 'f operator2" where
  "negateStage h l r = rmap (\<lambda>x. VNum (fneg h x)) (asNum r)"

definition invertStage :: "'f operator2" where
  "invertStage l r = rmap (\<lambda>b. VBool (\<not> b)) (asBool r)"

definition bitwiseNotStage :: "('f, 's) host \<Rightarrow> 'f operator2" where
  "bitwiseNotStage h l r = rmap (\<lambda>x. VNum (ofInt64 h (not (toInt64 h x)))) (asNum r)"

definition ternaryIfStage :: "'f operator2" where
  "ternaryIfStage l r = rbind (asBool l) (\<lambda>b. Ok (if b then r else VNil))"

definition ternaryElseStage :: "'f operator2" where
  "ternaryElseStage l r = Ok (case l of VNil \<Rightarrow> r | _ \<Rightarrow> l)"

text \<open>A right side that is neither a string nor a pattern leaves \<open>pattern\<close> nil, which panics.\<close>

definition regexStage :: "('f, 's) host \<Rightarrow> 'f operator2" where
  "regexStage h l r =
     rbind (case r of
        VStr p \<Rightarrow> if reCompiles h p then Ok p else Err ()
      | VRegexp p \<Rightarrow> Ok p
      | _ \<Rightarrow> Panic)
     (\<lambda>p. rbind (asStr l) (\<lambda>s. Ok (VBool (reMatches h p s))))"

definition notRegexStage :: "('f, 's) host \<Rightarrow> 'f operator2" where
  "notRegexStage h l r = rbind (regexStage h l r) (\<lambda>v. rmap (\<lambda>b. VBool (\<not> b)) (asBool v))"

definition bitwiseOrStage :: "('f, 's) host \<Rightarrow> 'f operator2" where
  "bitwiseOrStage h = numStage (\<lambda>x y. VNum (ofInt64 h (or (toInt64 h x) (toInt64 h y))))"

definition bitwiseAndStage :: "('f, 's) host \<Rightarrow> 'f operator2" where
  "bitwiseAndStage h = numStage (\<lambda>x y. VNum (ofInt64 h (and (toInt64 h x) (toInt64 h y))))"

definition bitwiseXORStage :: "('f, 's) host \<Rightarrow> 'f operator2" where
  "bitwiseXORStage h = numStage (\<lambda>x y. VNum (ofInt64 h (xor (toInt64 h x) (toInt64 h y))))"

text \<open>A shift of a uint64 by 64 or more gives 0 in Go as \<open>push_bit\<close> and \<open>drop_bit\<close> do on words.\<close>

definition leftShiftStage :: "('f, 's) host \<Rightarrow> 'f operator2" where
  "leftShiftStage h =
     numStage (\<lambda>x y. VNum (ofUint64 h (push_bit (unat (toUint64 h y)) (toUint64 h x))))"

definition rightShiftStage :: "('f, 's) host \<Rightarrow> 'f operator2" where
  "rightShiftStage h =
     numStage (\<lambda>x y. VNum (ofUint64 h (drop_bit (unat (toUint64 h y)) (toUint64 h x))))"

definition separatorStage :: "'f operator2" where
  "separatorStage l r = Ok (VArr (case l of VArr vs \<Rightarrow> vs @ [r] | _ \<Rightarrow> [l, r]))"

text \<open>\<open>left == value\<close> on interfaces: false on different types, a panic on two arrays.\<close>

definition ifaceEq :: "('f, 's) host \<Rightarrow> 'f val \<Rightarrow> 'f val \<Rightarrow> bool option" where
  "ifaceEq h v w =
     (case (v, w) of
        (VNil, VNil) \<Rightarrow> Some True
      | (VNull, VNull) \<Rightarrow> Some True
      | (VBool a, VBool b) \<Rightarrow> Some (a = b)
      | (VNum x, VNum y) \<Rightarrow> Some (feq h x y)
      | (VStr s, VStr t) \<Rightarrow> Some (s = t)
      | (VArr vs, VArr ws) \<Rightarrow> None
      | (VInt t i, VInt u j) \<Rightarrow> Some (t = u \<and> i = j)
      | (VFloat32 x, VFloat32 y) \<Rightarrow> Some (feq h x y)
      | (VRegexp p, VRegexp q) \<Rightarrow> sameOther h v w
      | (VOther m, VOther n) \<Rightarrow> sameOther h v w
      | _ \<Rightarrow> Some False)"

fun inLoop :: "('f, 's) host \<Rightarrow> 'f val \<Rightarrow> 'f val list \<Rightarrow> (unit, 'f val) res" where
  "inLoop h l [] = Ok (VBool False)"
| "inLoop h l (v # vs) =
     (case ifaceEq h l v of
        None \<Rightarrow> Panic
      | Some True \<Rightarrow> Ok (VBool True)
      | Some False \<Rightarrow> inLoop h l vs)"

definition inStage :: "('f, 's) host \<Rightarrow> 'f operator2" where
  "inStage h l r = rbind (asArr r) (inLoop h l)"

definition noopStageRight :: "'f operator2" where
  "noopStageRight l r = Ok r"

text \<open>\<open>stageSymbolMap\<close>: a symbol without an entry has no operator.\<close>

definition stageSymbolMap :: "('f, 's) host \<Rightarrow> op_symbol \<Rightarrow> 'f operator2 option" where
  "stageSymbolMap h y =
     (case y of
        EQ \<Rightarrow> Some (equalStage h) | NEQ \<Rightarrow> Some (notEqualStage h)
      | GT \<Rightarrow> Some (gtStage h) | LT \<Rightarrow> Some (ltStage h)
      | GTE \<Rightarrow> Some (gteStage h) | LTE \<Rightarrow> Some (lteStage h)
      | REQ \<Rightarrow> Some (regexStage h) | NREQ \<Rightarrow> Some (notRegexStage h)
      | AND \<Rightarrow> Some andStage | OR \<Rightarrow> Some orStage | IN \<Rightarrow> Some (inStage h)
      | BITWISE_OR \<Rightarrow> Some (bitwiseOrStage h) | BITWISE_AND \<Rightarrow> Some (bitwiseAndStage h)
      | BITWISE_XOR \<Rightarrow> Some (bitwiseXORStage h)
      | BITWISE_LSHIFT \<Rightarrow> Some (leftShiftStage h) | BITWISE_RSHIFT \<Rightarrow> Some (rightShiftStage h)
      | PLUS \<Rightarrow> Some (addStage h) | MINUS \<Rightarrow> Some (subtractStage h)
      | MULTIPLY \<Rightarrow> Some (multiplyStage h) | DIVIDE \<Rightarrow> Some (divideStage h)
      | MODULUS \<Rightarrow> Some (modulusStage h) | EXPONENT \<Rightarrow> Some (exponentStage h)
      | NEGATE \<Rightarrow> Some (negateStage h) | INVERT \<Rightarrow> Some invertStage
      | BITWISE_NOT \<Rightarrow> Some (bitwiseNotStage h)
      | TERNARY_TRUE \<Rightarrow> Some ternaryIfStage | TERNARY_FALSE \<Rightarrow> Some ternaryElseStage
      | COALESCE \<Rightarrow> Some ternaryElseStage | SEPARATE \<Rightarrow> Some separatorStage
      | _ \<Rightarrow> None)"

subsection \<open>Operators that run the caller's code\<close>

type_synonym ('f, 's) operator = "'f val \<Rightarrow> 'f val \<Rightarrow> ('f, 's) parameters \<Rightarrow> ('s, unit, 'f val) comp"

definition makeParameterStage :: "string \<Rightarrow> ('f, 's) operator" where
  "makeParameterStage name l r params = params name"

definition makeLiteralStage :: "'f val \<Rightarrow> ('f, 's) operator" where
  "makeLiteralStage v l r params = cret (Ok v)"

definition functionArguments :: "'f val \<Rightarrow> 'f val list" where
  "functionArguments r =
     (case r of
        VNil \<Rightarrow> [] | VNull \<Rightarrow> []
      | VArr vs \<Rightarrow> map (\<lambda>v. case v of VNull \<Rightarrow> VNil | _ \<Rightarrow> v) vs
      | _ \<Rightarrow> [r])"

text \<open>A result of type int, int16, int32 or int64 becomes a float64; int8 and unsigned ones do not.\<close>

definition functionResult :: "('f, 's) host \<Rightarrow> 'f val \<Rightarrow> 'f val" where
  "functionResult h v =
     (case v of VInt t i \<Rightarrow> if t \<in> {GoInt, I16, I32, I64} then VNum (ofInt h t i) else v | _ \<Rightarrow> v)"

definition makeFunctionStage :: "('f, 's) host \<Rightarrow> string \<Rightarrow> ('f, 's) operator" where
  "makeFunctionStage h f l r params =
     cbind (callFunction h f (functionArguments r)) (\<lambda>v. cret (Ok (functionResult h v)))"

text \<open>
  \<open>typeConvertParams\<close>.  The zero \<open>reflect.Value\<close> of a nil argument panics at \<open>p.Type()\<close>, with a value
  the accessor's recovery cannot handle.
\<close>

fun convertLoop :: "('f, 's) host \<Rightarrow> nat list \<Rightarrow> 'f val list \<Rightarrow> (unit, 'f val list) res" where
  "convertLoop h (t # ts) (p # ps) =
     (if p = VNil then Panic
      else rbind (if t = kindOf h p then Ok p
                  else (case convertKind h p t of None \<Rightarrow> Err () | Some q \<Rightarrow> Ok q))
        (\<lambda>q. rmap (\<lambda>qs. q # qs) (convertLoop h ts ps)))"
| "convertLoop h _ _ = Ok []"

definition typeConvertParams :: "('f, 's) host \<Rightarrow> nat \<Rightarrow> 'f val list \<Rightarrow> (unit, 'f val list) res" where
  "typeConvertParams h m ps =
     (if length (methodIn h m) \<noteq> length ps then Err () else convertLoop h (methodIn h m) ps)"

definition accessArguments :: "'f val \<Rightarrow> 'f val list" where
  "accessArguments r = (case r of VArr vs \<Rightarrow> vs | VNil \<Rightarrow> [] | _ \<Rightarrow> [r])"

fun accessLoop ::
  "('f, 's) host \<Rightarrow> 'f val \<Rightarrow> string list \<Rightarrow> 'f val \<Rightarrow> ('s, unit, 'f val) comp" where
  "accessLoop h r [] v = cret (Ok v)"
| "accessLoop h r (name # names) v =
     (if \<not> isStruct h v then cret (Err ())
      else case fieldByName h v name of
        Some field \<Rightarrow> cbind (cret field) (accessLoop h r names)
      | None \<Rightarrow>
          (case methodByName h v name of
             None \<Rightarrow> cret (Err ())
           | Some m \<Rightarrow>
               cbind (cret (typeConvertParams h m (accessArguments r))) (\<lambda>ps.
               cbind (callMethod h m ps) (\<lambda>returned.
                 case returned of
                   [] \<Rightarrow> cret (Err ())
                 | [w] \<Rightarrow> accessLoop h r names w
                 | [w, e] \<Rightarrow> if isError h e then cret (Err ()) else accessLoop h r names w
                 | _ \<Rightarrow> cret (Err ())))))"

definition makeAccessorStage :: "('f, 's) host \<Rightarrow> string list \<Rightarrow> ('f, 's) operator" where
  "makeAccessorStage h pair l r params =
     (case pair of
        [] \<Rightarrow> cret Panic
      | p # names \<Rightarrow>
          cbind (params p) (\<lambda>v.
          cbind (accessLoop h r names v) (\<lambda>w. cret (Ok (castToFloat64 h w)))))"

text \<open>\<open>stage.operator(left, right, parameters)\<close>: calling a missing operator panics.\<close>

definition runOperator :: "('f, 's) host \<Rightarrow> 'f stage_op \<Rightarrow> ('f, 's) operator" where
  "runOperator h op l r params =
     (case op of
        OpParam x \<Rightarrow> makeParameterStage x l r params
      | OpLiteral v \<Rightarrow> makeLiteralStage v l r params
      | OpFunction f \<Rightarrow> makeFunctionStage h f l r params
      | OpAccessor ps \<Rightarrow> makeAccessorStage h ps l r params
      | OpNoop \<Rightarrow> cret (noopStageRight l r)
      | OpSymbol y \<Rightarrow>
          (case stageSymbolMap h y of None \<Rightarrow> cret Panic | Some f \<Rightarrow> cret (f l r)))"

subsection \<open>Type checks (stage.go)\<close>

record 'f typeChecks =
  tc_left :: "('f val \<Rightarrow> bool) option"
  tc_right :: "('f val \<Rightarrow> bool) option"
  tc_combined :: "('f val \<Rightarrow> 'f val \<Rightarrow> bool) option"

definition noChecks :: "'f typeChecks" where
  "noChecks = \<lparr>tc_left = None, tc_right = None, tc_combined = None\<rparr>"

definition findTypeChecks :: "op_symbol \<Rightarrow> 'f typeChecks" where
  "findTypeChecks symbol =
     (if symbol \<in> {GT, LT, GTE, LTE} then noChecks\<lparr>tc_combined := Some comparatorTypeCheck\<rparr>
      else if symbol \<in> {REQ, NREQ} then
        noChecks\<lparr>tc_left := Some isString, tc_right := Some isRegexOrString\<rparr>
      else if symbol \<in> {AND, OR} then noChecks\<lparr>tc_left := Some isBool, tc_right := Some isBool\<rparr>
      else if symbol = IN then noChecks\<lparr>tc_right := Some isArray\<rparr>
      else if symbol \<in> {BITWISE_LSHIFT, BITWISE_RSHIFT, BITWISE_OR, BITWISE_AND, BITWISE_XOR} then
        noChecks\<lparr>tc_left := Some isFloat64, tc_right := Some isFloat64\<rparr>
      else if symbol = PLUS then noChecks\<lparr>tc_combined := Some additionTypeCheck\<rparr>
      else if symbol \<in> {MINUS, MULTIPLY, DIVIDE, MODULUS, EXPONENT} then
        noChecks\<lparr>tc_left := Some isFloat64, tc_right := Some isFloat64\<rparr>
      else if symbol = NEGATE then noChecks\<lparr>tc_right := Some isFloat64\<rparr>
      else if symbol = INVERT then noChecks\<lparr>tc_right := Some isBool\<rparr>
      else if symbol = BITWISE_NOT then noChecks\<lparr>tc_right := Some isFloat64\<rparr>
      else if symbol = TERNARY_TRUE then noChecks\<lparr>tc_left := Some isBool\<rparr>
      else noChecks)"

definition typeCheck :: "('f val \<Rightarrow> bool) option \<Rightarrow> 'f val \<Rightarrow> bool" where
  "typeCheck check v = (case check of None \<Rightarrow> True | Some c \<Rightarrow> c v)"

definition checksPass :: "op_symbol \<Rightarrow> 'f val \<Rightarrow> 'f val \<Rightarrow> bool" where
  "checksPass symbol l r =
     (let checks = findTypeChecks symbol in
      case tc_combined checks of
        None \<Rightarrow> typeCheck (tc_left checks) l \<and> typeCheck (tc_right checks) r
      | Some c \<Rightarrow> c l r)"

text \<open>
  What the checks are for: an operator whose operands passed them gives a value or, for a pattern that
  does not compile, an error.  It does not panic.
\<close>

lemma numStage_num [simp]: "numStage f (VNum x) (VNum y) = Ok (f x y)"
  by (simp add: numStage_def)

lemmas operator_defs =
  addStage_def subtractStage_def multiplyStage_def divideStage_def exponentStage_def modulusStage_def
  gteStage_def gtStage_def lteStage_def ltStage_def compareStage_def equalStage_def notEqualStage_def
  andStage_def orStage_def negateStage_def invertStage_def bitwiseNotStage_def ternaryIfStage_def
  ternaryElseStage_def bitwiseOrStage_def bitwiseAndStage_def bitwiseXORStage_def
  leftShiftStage_def rightShiftStage_def separatorStage_def

lemma regexStage_no_panic:
  "isString l \<Longrightarrow> isRegexOrString r \<Longrightarrow> regexStage h l r \<noteq> Panic \<and> regexStage h l r \<noteq> NoFuel"
  "isString l \<Longrightarrow> isRegexOrString r \<Longrightarrow> notRegexStage h l r \<noteq> Panic \<and> notRegexStage h l r \<noteq> NoFuel"
  by (auto simp: as_type_iff regexStage_def notRegexStage_def split: if_splits)

lemma stageSymbolMap_checked:
  assumes "stageSymbolMap h y = Some f" "checksPass y l r" "y \<noteq> IN"
  shows "f l r \<noteq> Panic \<and> f l r \<noteq> NoFuel"
  using assms
  by (cases y; (simp add: stageSymbolMap_def; fail)?;
      auto simp: stageSymbolMap_def checksPass_def findTypeChecks_def noChecks_def typeCheck_def
        comparatorTypeCheck_def additionTypeCheck_def as_type_iff operator_defs regexStage_no_panic
        split: if_splits)

end
