(* ===== verification/ExprLexer.thy ===== *)
theory ExprLexer
  imports ExprStates
begin

text \<open>
  The lexer of \<open>mods/tql/expression\<close>: the character stream of \<open>lexer.go\<close> and the readers of
  \<open>parse.go\<close> up to \<open>ParseTokens\<close>.  The stream keeps the code's fields; a reader takes the stream
  and returns it moved.  Reading past the end is a panic in the code and \<open>Panic\<close> here.  What is
  not under \<open>src/\<close> is a field of \<open>lexer_env\<close>: \<open>strconv.ParseFloat\<close>, the conversion of a
  uint64 to float64, the parser of time literals, and the caller's table of functions.
\<close>

subsection \<open>The stream (lexer.go)\<close>

text \<open>
  The fields \<open>length\<close> and \<open>positions\<close> are set by the constructor from the source and never
  written again, so they are functions of the source here.
\<close>

record lexer_stream =
  ls_source :: string
  ls_position :: nat

definition ls_length :: "lexer_stream \<Rightarrow> nat" where
  "ls_length ls = length (ls_source ls)"

fun positionsFrom :: "nat \<Rightarrow> nat \<Rightarrow> nat \<Rightarrow> string \<Rightarrow> source_position list" where
  "positionsFrom i line column [] = [\<lparr>Offset = i, Line = line, Column = column\<rparr>]"
| "positionsFrom i line column (r # rs) =
     \<lparr>Offset = i, Line = line, Column = column\<rparr> #
     (if r = NL then positionsFrom (Suc i) (Suc line) 1 rs
      else positionsFrom (Suc i) line (Suc column) rs)"

definition ls_positions :: "lexer_stream \<Rightarrow> source_position list" where
  "ls_positions ls = positionsFrom 0 1 1 (ls_source ls)"

definition newLexerStream :: "string \<Rightarrow> lexer_stream" where
  "newLexerStream src = \<lparr>ls_source = src, ls_position = 0\<rparr>"

definition canRead :: "lexer_stream \<Rightarrow> bool" where
  "canRead ls = (ls_position ls < ls_length ls)"

definition readCharacter :: "lexer_stream \<Rightarrow> (parse_error, char \<times> lexer_stream) res" where
  "readCharacter ls =
     (if ls_position ls < length (ls_source ls)
      then Ok (ls_source ls ! ls_position ls, ls\<lparr>ls_position := Suc (ls_position ls)\<rparr>)
      else Panic)"

text \<open>\<open>nat\<close> is 0 on a negative number, which is the clamp of the code.\<close>

definition ls_rewind :: "int \<Rightarrow> lexer_stream \<Rightarrow> lexer_stream" where
  "ls_rewind amount ls = ls\<lparr>ls_position := nat (int (ls_position ls) - amount)\<rparr>"

definition ls_span :: "lexer_stream \<Rightarrow> nat \<Rightarrow> nat \<Rightarrow> (parse_error, source_span) res" where
  "ls_span ls start end0 =
     (let end1 = (if end0 < start then start else end0);
          end2 = (if end1 > ls_length ls then ls_length ls else end1)
      in if start < length (ls_positions ls) \<and> end2 < length (ls_positions ls)
         then Ok \<lparr>spanStart = ls_positions ls ! start, spanEnd = ls_positions ls ! end2\<rparr>
         else Panic)"

fun tokenEndFrom :: "string \<Rightarrow> nat \<Rightarrow> nat" where
  "tokenEndFrom src 0 = 0"
| "tokenEndFrom src (Suc e) =
     (if Suc e \<le> length src \<and> isSpace (src ! e) then tokenEndFrom src e else Suc e)"

definition tokenEnd :: "lexer_stream \<Rightarrow> nat" where
  "tokenEnd ls = tokenEndFrom (ls_source ls) (ls_position ls)"

definition currentSpan :: "lexer_stream \<Rightarrow> nat \<Rightarrow> (parse_error, source_span) res" where
  "currentSpan ls start = ls_span ls start (tokenEnd ls)"

definition ls_raw :: "lexer_stream \<Rightarrow> nat \<Rightarrow> nat \<Rightarrow> (parse_error, string) res" where
  "ls_raw ls start end0 = rbind (ls_span ls start end0) (\<lambda>sp. RawFrom sp (ls_source ls))"

definition currentRaw :: "lexer_stream \<Rightarrow> nat \<Rightarrow> (parse_error, string) res" where
  "currentRaw ls start = ls_raw ls start (tokenEnd ls)"

subsection \<open>Character classes (parse.go)\<close>

definition isHexDigit :: "char \<Rightarrow> bool" where
  "isHexDigit c = (let l = toLowerAscii c in isDigit l \<or> l \<in> set ''abcdef'')"

definition isNumeric :: "char \<Rightarrow> bool" where
  "isNumeric c = (isDigit c \<or> c = CHR ''.'')"

definition isNotQuote :: "char \<Rightarrow> bool" where
  "isNotQuote c = (c \<noteq> CHR 0x27 \<and> c \<noteq> CHR 0x22 \<and> c \<noteq> CHR 0x60 \<and> c \<noteq> CHR ''{'')"

definition isNotQuoteMatch :: "char \<Rightarrow> char \<Rightarrow> bool" where
  "isNotQuoteMatch openQuote c = (c \<noteq> openQuote)"

definition isNotAlphanumeric :: "char \<Rightarrow> bool" where
  "isNotAlphanumeric c =
     (\<not> (isDigit c \<or> isLetter c \<or> c = CHR ''('' \<or> c = CHR '')'' \<or> c = CHR ''['' \<or> c = CHR '']''
         \<or> c = CHR ''$'' \<or> \<not> isNotQuote c))"

definition isVariableName :: "char \<Rightarrow> bool" where
  "isVariableName c = (isLetter c \<or> isDigit c \<or> c = CHR ''_'' \<or> c = CHR ''.'')"

definition isNotClosingBracket :: "char \<Rightarrow> bool" where
  "isNotClosingBracket c = (c \<noteq> CHR '']'')"

definition getFirstRune :: "string \<Rightarrow> char" where
  "getFirstRune s = (case s of [] \<Rightarrow> CHR 0x00 | r # rs \<Rightarrow> r)"

subsection \<open>readUntilFalse\<close>

definition escaped :: "char \<Rightarrow> char" where
  "escaped c = (if c = CHR ''n'' then NL else if c = CHR ''t'' then TAB else c)"

text \<open>
  The buffer is passed along.  The backslash case reads the next character without asking
  \<open>canRead\<close>: at the end of the input this is the panic of \<open>readCharacter\<close>.
\<close>

function readUntilLoop ::
  "bool \<Rightarrow> bool \<Rightarrow> bool \<Rightarrow> (char \<Rightarrow> bool) \<Rightarrow> lexer_stream \<Rightarrow> string
     \<Rightarrow> (parse_error, (string \<times> bool) \<times> lexer_stream) res" where
  "readUntilLoop incWs brkWs esc cond ls buf =
     (if canRead ls then
        rbind (readCharacter ls) (\<lambda>(c, ls1).
          if esc \<and> c = CHR 0x5C then
            rbind (readCharacter ls1) (\<lambda>(c2, ls2).
              readUntilLoop incWs brkWs esc cond ls2 (buf @ [escaped c2]))
          else if isSpace c \<and> brkWs \<and> buf \<noteq> [] then Ok ((buf, True), ls1)
          else if isSpace c \<and> \<not> incWs then readUntilLoop incWs brkWs esc cond ls1 buf
          else if cond c then readUntilLoop incWs brkWs esc cond ls1 (buf @ [c])
          else Ok ((buf, True), ls_rewind 1 ls1))
      else Ok ((buf, False), ls))"
  by pat_completeness auto
termination
  by (relation "measure (\<lambda>(i, b, e, c, ls, buf). length (ls_source ls) - ls_position ls)")
     (auto simp: readCharacter_def split: if_splits)

declare readUntilLoop.simps [simp del]

definition readUntilFalse ::
  "lexer_stream \<Rightarrow> bool \<Rightarrow> bool \<Rightarrow> bool \<Rightarrow> (char \<Rightarrow> bool)
     \<Rightarrow> (parse_error, (string \<times> bool) \<times> lexer_stream) res" where
  "readUntilFalse ls incWs brkWs esc cond = readUntilLoop incWs brkWs esc cond ls []"

definition readTokenUntilFalse ::
  "lexer_stream \<Rightarrow> (char \<Rightarrow> bool) \<Rightarrow> (parse_error, string \<times> lexer_stream) res" where
  "readTokenUntilFalse ls cond =
     rmap (\<lambda>((s, b), ls'). (s, ls')) (readUntilFalse (ls_rewind 1 ls) False True True cond)"

subsection \<open>Strings in backticks, blocks in braces\<close>

function readStringUntilEndOfLine :: "lexer_stream \<Rightarrow> lexer_stream" where
  "readStringUntilEndOfLine ls =
     (if canRead ls then
        (case readCharacter ls of
           Ok (c, ls1) \<Rightarrow> if c = NL then ls1 else readStringUntilEndOfLine ls1
         | _ \<Rightarrow> ls)
      else ls)"
  by pat_completeness auto
termination
  by (relation "measure (\<lambda>ls. length (ls_source ls) - ls_position ls)")
     (auto simp: readCharacter_def split: if_splits)

declare readStringUntilEndOfLine.simps [simp del]

function backtickLoop :: "lexer_stream \<Rightarrow> string \<Rightarrow> string \<times> lexer_stream" where
  "backtickLoop ls buf =
     (if canRead ls then
        (case readCharacter ls of
           Ok (c, ls1) \<Rightarrow> if c = CHR 0x60 then (buf, ls1) else backtickLoop ls1 (buf @ [c])
         | _ \<Rightarrow> (buf, ls))
      else (buf, ls))"
  by pat_completeness auto
termination
  by (relation "measure (\<lambda>(ls, buf). length (ls_source ls) - ls_position ls)")
     (auto simp: readCharacter_def split: if_splits)

declare backtickLoop.simps [simp del]

definition readStringUntilBacktick :: "lexer_stream \<Rightarrow> string \<times> lexer_stream" where
  "readStringUntilBacktick ls = backtickLoop ls []"

function braceLoop :: "lexer_stream \<Rightarrow> int \<Rightarrow> string \<Rightarrow> string \<times> lexer_stream" where
  "braceLoop ls depth buf =
     (if canRead ls then
        (case readCharacter ls of
           Ok (c, ls1) \<Rightarrow>
             (let depth' = (if c = CHR ''{'' then depth + 1
                            else if c = CHR ''}'' then depth - 1 else depth)
              in if depth' = 0 then (buf, ls1) else braceLoop ls1 depth' (buf @ [c]))
         | _ \<Rightarrow> (buf, ls))
      else (buf, ls))"
  by pat_completeness auto
termination
  by (relation "measure (\<lambda>(ls, d, buf). length (ls_source ls) - ls_position ls)")
     (auto simp: readCharacter_def split: if_splits)

declare braceLoop.simps [simp del]

definition readNestedBraceBlock :: "lexer_stream \<Rightarrow> string \<times> lexer_stream" where
  "readNestedBraceBlock ls = braceLoop ls 1 []"

text \<open>
  Tagged strings and blocks, \<open>`<<TAG ... TAG`\<close> and \<open>\{<<TAG ... TAG\}\<close>.  The two readers share
  the header line and the matcher of the closing line, which the code writes twice.
\<close>

fun isTaggedBlockTag :: "string \<Rightarrow> bool" where
  "isTaggedBlockTag [] = False"
| "isTaggedBlockTag (r # rs) =
     ((isLetter r \<or> r = CHR ''_'') \<and>
      list_all (\<lambda>q. isLetter q \<or> isDigit q \<or> q = CHR ''_'') rs)"

function skipBlanks :: "string \<Rightarrow> nat \<Rightarrow> nat \<Rightarrow> nat" where
  "skipBlanks src i lineEnd =
     (if i < lineEnd \<and> (src ! i = CHR '' '' \<or> src ! i = TAB)
      then skipBlanks src (Suc i) lineEnd else i)"
  by pat_completeness auto
termination
  by (relation "measure (\<lambda>(src, i, e). e - i)") auto

declare skipBlanks.simps [simp del]

definition matchTaggedCloser ::
  "char \<Rightarrow> string \<Rightarrow> nat \<Rightarrow> nat \<Rightarrow> string \<Rightarrow> nat option" where
  "matchTaggedCloser close src lineStart lineEnd tag =
     (let i = skipBlanks src lineStart lineEnd in
      if i + length tag > lineEnd then None
      else if take (length tag) (drop i src) \<noteq> tag then None
      else (let j = skipBlanks src (i + length tag) lineEnd in
        if j \<ge> lineEnd \<or> src ! j \<noteq> close then None else Some (Suc j)))"

definition matchTaggedBlockCloser :: "string \<Rightarrow> nat \<Rightarrow> nat \<Rightarrow> string \<Rightarrow> nat option" where
  "matchTaggedBlockCloser = matchTaggedCloser CHR ''}''"

definition matchTaggedBacktickCloser :: "string \<Rightarrow> nat \<Rightarrow> nat \<Rightarrow> string \<Rightarrow> nat option" where
  "matchTaggedBacktickCloser = matchTaggedCloser CHR 0x60"

definition slice :: "string \<Rightarrow> nat \<Rightarrow> nat \<Rightarrow> string" where
  "slice s i j = take (j - i) (drop i s)"

text \<open>The header: \<open><<\<close>, then a tag alone on the rest of the line.\<close>

definition readTagHeader :: "lexer_stream \<Rightarrow> (string \<times> lexer_stream) option" where
  "readTagHeader ls =
     (if ls_position ls + 1 \<ge> ls_length ls then None
      else if ls_source ls ! ls_position ls \<noteq> CHR ''<''
           \<or> ls_source ls ! (ls_position ls + 1) \<noteq> CHR ''<'' then None
      else
       (let ls1 = ls\<lparr>ls_position := ls_position ls + 2\<rparr>;
            tagLineStart = ls_position ls1;
            ls2 = readStringUntilEndOfLine ls1
        in if ls_position ls2 \<le> tagLineStart \<or> ls_source ls2 ! (ls_position ls2 - 1) \<noteq> NL
           then None
           else
            (let e0 = ls_position ls2 - 1;
                 e1 = (if e0 > tagLineStart \<and> ls_source ls2 ! (e0 - 1) = CR then e0 - 1 else e0);
                 tag = trimSpace (slice (ls_source ls2) tagLineStart e1)
             in if isTaggedBlockTag tag then Some (tag, ls2) else None)))"

subsection \<open>Streams only move forward\<close>

text \<open>
  The invariant of a stream, the position does not pass the end, and the order of a reader: the
  source is the same and the position has not decreased.
\<close>

definition ls_wf :: "lexer_stream \<Rightarrow> bool" where
  "ls_wf ls = (ls_position ls \<le> length (ls_source ls))"

definition ls_le :: "lexer_stream \<Rightarrow> lexer_stream \<Rightarrow> bool" where
  "ls_le ls ls' = (ls_source ls' = ls_source ls \<and> ls_position ls \<le> ls_position ls')"

lemma ls_le_refl [simp]: "ls_le ls ls"
  by (simp add: ls_le_def)

lemma ls_le_trans: "ls_le a b \<Longrightarrow> ls_le b c \<Longrightarrow> ls_le a c"
  by (simp add: ls_le_def)

lemma newLexerStream_wf: "ls_wf (newLexerStream s)"
  by (simp add: ls_wf_def newLexerStream_def)

lemma canRead_iff: "canRead ls = (ls_position ls < length (ls_source ls))"
  by (simp add: canRead_def ls_length_def)

lemma readCharacter_Ok_iff:
  "readCharacter ls = Ok (c, ls1) \<longleftrightarrow>
     canRead ls \<and> c = ls_source ls ! ls_position ls
     \<and> ls1 = ls\<lparr>ls_position := Suc (ls_position ls)\<rparr>"
  by (auto simp: readCharacter_def canRead_iff)

lemma readCharacter_canRead:
  "canRead ls \<Longrightarrow> readCharacter ls =
     Ok (ls_source ls ! ls_position ls, ls\<lparr>ls_position := Suc (ls_position ls)\<rparr>)"
  by (simp add: readCharacter_def canRead_iff)

text \<open>The stream after \<open>n\<close> characters, and the induction on what is left of it.\<close>

definition ls_adv :: "nat \<Rightarrow> lexer_stream \<Rightarrow> lexer_stream" where
  "ls_adv n ls = ls\<lparr>ls_position := ls_position ls + n\<rparr>"

lemma ls_adv_simps [simp]:
  "ls_source (ls_adv n ls) = ls_source ls"
  "ls_position (ls_adv n ls) = ls_position ls + n"
  by (simp_all add: ls_adv_def)

abbreviation ls_cur :: "lexer_stream \<Rightarrow> char" where
  "ls_cur ls \<equiv> ls_source ls ! ls_position ls"

lemma readCharacter_eq:
  "readCharacter ls = (if canRead ls then Ok (ls_cur ls, ls_adv 1 ls) else Panic)"
  by (simp add: readCharacter_def canRead_iff ls_adv_def)

lemma ls_rewind_adv [simp]: "ls_rewind 1 (ls_adv (Suc 0) ls) = ls"
  by (simp add: ls_rewind_def ls_adv_def)

lemma stream_induct [case_names step]:
  assumes "\<And>ls. (\<And>ls'. ls_source ls' = ls_source ls \<Longrightarrow> ls_position ls < ls_position ls' \<Longrightarrow>
      canRead ls \<Longrightarrow> P ls') \<Longrightarrow> P ls"
  shows "P (ls :: lexer_stream)"
proof (induction ls rule: measure_induct_rule
    [where f = "\<lambda>ls. length (ls_source ls) - ls_position ls"])
  case (less ls)
  show ?case
    by (rule assms, rule less) (auto simp: canRead_iff)
qed

lemma readUntilLoop_step:
  "canRead ls \<Longrightarrow> readUntilLoop iw bw esc cond ls buf =
     (let c = ls_cur ls; ls1 = ls_adv 1 ls in
      if esc \<and> c = CHR 0x5C then
        (if canRead ls1
         then readUntilLoop iw bw esc cond (ls_adv 2 ls) (buf @ [escaped (ls_cur ls1)])
         else Panic)
      else if isSpace c \<and> bw \<and> buf \<noteq> [] then Ok ((buf, True), ls1)
      else if isSpace c \<and> \<not> iw then readUntilLoop iw bw esc cond ls1 buf
      else if cond c then readUntilLoop iw bw esc cond ls1 (buf @ [c])
      else Ok ((buf, True), ls))"
  by (subst readUntilLoop.simps)
     (auto simp: readCharacter_eq Let_def ls_adv_def ls_rewind_def)

lemma readUntilLoop_end:
  "\<not> canRead ls \<Longrightarrow> readUntilLoop iw bw esc cond ls buf = Ok ((buf, False), ls)"
  by (subst readUntilLoop.simps) simp

text \<open>
  One turn of the loop, as a case rule: it stops at the end, at white space or at a character the
  condition refuses, or goes on \<open>n\<close> characters later with a buffer at most \<open>n\<close> longer.
\<close>

lemma readUntilLoop_turn [consumes 1, case_names at_end at_space at_stop again]:
  assumes run: "readUntilLoop iw bw esc cond ls buf = Ok ((s, b), ls')"
  obtains "\<not> canRead ls" "s = buf" "\<not> b" "ls' = ls"
  | "canRead ls" "bw" "s = buf" "b" "ls' = ls_adv 1 ls"
  | "canRead ls" "\<not> cond (ls_cur ls)" "s = buf" "b" "ls' = ls"
  | n buf' where "canRead ls" "0 < n" "ls_wf (ls_adv n ls)"
      "readUntilLoop iw bw esc cond (ls_adv n ls) buf' = Ok ((s, b), ls')"
      "length buf \<le> length buf'" "length buf' \<le> length buf + n"
proof (cases "canRead ls")
  case False
  with run have "s = buf" "\<not> b" "ls' = ls" by (auto simp: readUntilLoop_end)
  with False show thesis by (rule that(1))
next
  case True
  note p = run [unfolded readUntilLoop_step [OF True] Let_def]
  have wf1: "ls_wf (ls_adv 1 ls)" using True by (simp add: ls_wf_def canRead_iff)
  show thesis
  proof (cases "esc \<and> ls_cur ls = CHR 0x5C")
    case esc: True
    with p have "canRead (ls_adv 1 ls)"
      "readUntilLoop iw bw esc cond (ls_adv 2 ls) (buf @ [escaped (ls_cur (ls_adv 1 ls))])
         = Ok ((s, b), ls')"
      by (simp_all split: if_splits)
    then show thesis
      by (intro that(4) [OF True, of 2]) (auto simp: ls_wf_def canRead_iff)
  next
    case not_esc: False
    consider "isSpace (ls_cur ls)" "bw" "buf \<noteq> []"
      | "isSpace (ls_cur ls)" "\<not> iw" "\<not> (bw \<and> buf \<noteq> [])"
      | "cond (ls_cur ls)" "\<not> (isSpace (ls_cur ls) \<and> (bw \<and> buf \<noteq> [] \<or> \<not> iw))"
      | "\<not> cond (ls_cur ls)" "\<not> (isSpace (ls_cur ls) \<and> (bw \<and> buf \<noteq> [] \<or> \<not> iw))"
      by blast
    then show thesis
    proof cases
      case 1
      with p not_esc have "s = buf" "b" "ls' = ls_adv 1 ls" by auto
      with True \<open>bw\<close> show thesis by (rule that(2))
    next
      case 2
      with p not_esc have "readUntilLoop iw bw esc cond (ls_adv 1 ls) buf = Ok ((s, b), ls')"
        by auto
      from that(4) [OF True _ wf1 this] show thesis by simp
    next
      case 3
      with p not_esc
      have "readUntilLoop iw bw esc cond (ls_adv 1 ls) (buf @ [ls_cur ls]) = Ok ((s, b), ls')"
        by auto
      from that(4) [OF True _ wf1 this] show thesis by simp
    next
      case 4
      with p not_esc have "s = buf" "b" "ls' = ls" by auto
      with True \<open>\<not> cond (ls_cur ls)\<close> show thesis by (rule that(3))
    qed
  qed
qed

text \<open>
  \<open>readUntilFalse\<close> consumes at least one character for each character it returns, stays within
  the source, and says so if it met a character the condition refuses.
\<close>

lemma readUntilLoop_progress:
  "readUntilLoop iw bw esc cond ls buf = Ok ((s, b), ls') \<Longrightarrow>
     ls_source ls' = ls_source ls
     \<and> length s + ls_position ls \<le> length buf + ls_position ls'
     \<and> length buf \<le> length s
     \<and> (ls_wf ls \<longrightarrow> ls_wf ls')"
proof (induction ls arbitrary: buf rule: stream_induct)
  case (step ls)
  from step.prems show ?case
  proof (cases rule: readUntilLoop_turn)
    case (again n buf')
    with step.IH [of "ls_adv n ls" buf'] show ?thesis by auto
  qed (auto simp: ls_wf_def canRead_iff)
qed

lemma readUntilLoop_completed:
  "readUntilLoop iw bw esc cond ls buf = Ok ((s, b), ls') \<Longrightarrow> b \<Longrightarrow> \<not> bw \<Longrightarrow>
     canRead ls' \<and> \<not> cond (ls_cur ls')"
proof (induction ls arbitrary: buf rule: stream_induct)
  case (step ls)
  from step.prems(1) show ?case
  proof (cases rule: readUntilLoop_turn)
    case (again n buf')
    with step.IH [of "ls_adv n ls" buf'] step.prems(2,3) show ?thesis by auto
  qed (use step.prems(2,3) in auto)
qed

lemma readUntilLoop_first:
  assumes "readUntilLoop iw bw esc cond ls [] = Ok ((s, b), ls')"
    and "canRead ls" "\<not> isSpace (ls_cur ls)" "cond (ls_cur ls)" "ls_cur ls \<noteq> CHR 0x5C"
  shows "s \<noteq> []"
  using assms readUntilLoop_progress [of iw bw esc cond "ls_adv 1 ls" "[ls_cur ls]" s b ls']
  by (auto simp: readUntilLoop_step Let_def)

lemma readUntilFalse_progress [progress_rules]:
  "readUntilFalse ls iw bw esc cond = Ok ((s, b), ls') \<Longrightarrow>
     ls_source ls' = ls_source ls \<and> length s + ls_position ls \<le> ls_position ls'
     \<and> (ls_wf ls \<longrightarrow> ls_wf ls')"
  using readUntilLoop_progress [of iw bw esc cond ls "[]" s b ls'] by (simp add: readUntilFalse_def)

lemma readTokenUntilFalse_progress [progress_rules]:
  "readTokenUntilFalse (ls_adv 1 ls) cond = Ok (s, ls') \<Longrightarrow>
     ls_source ls' = ls_source ls \<and> length s + ls_position ls \<le> ls_position ls'
     \<and> (ls_wf ls \<longrightarrow> ls_wf ls')"
  by (auto simp: readTokenUntilFalse_def rmap_Ok_iff dest!: readUntilFalse_progress)

lemma readTokenUntilFalse_first:
  "readTokenUntilFalse (ls_adv 1 ls) cond = Ok (s, ls') \<Longrightarrow> canRead ls \<Longrightarrow>
     \<not> isSpace (ls_cur ls) \<Longrightarrow> cond (ls_cur ls) \<Longrightarrow> ls_cur ls \<noteq> CHR 0x5C \<Longrightarrow> s \<noteq> []"
  by (auto simp: readTokenUntilFalse_def readUntilFalse_def rmap_Ok_iff dest: readUntilLoop_first)

lemma readStringUntilEndOfLine_eq:
  "readStringUntilEndOfLine ls =
     (if canRead ls then
        (if ls_cur ls = NL then ls_adv 1 ls else readStringUntilEndOfLine (ls_adv 1 ls))
      else ls)"
  by (subst readStringUntilEndOfLine.simps) (simp add: readCharacter_eq)

lemma readStringUntilEndOfLine_progress:
  "ls_source (readStringUntilEndOfLine ls) = ls_source ls
     \<and> (canRead ls \<longrightarrow> ls_position ls < ls_position (readStringUntilEndOfLine ls))
     \<and> ls_position ls \<le> ls_position (readStringUntilEndOfLine ls)
     \<and> (ls_wf ls \<longrightarrow> ls_wf (readStringUntilEndOfLine ls))"
proof (induction ls rule: stream_induct)
  case (step ls)
  show ?case
  proof (cases "canRead ls \<and> ls_cur ls \<noteq> NL")
    case False
    then show ?thesis
      by (auto simp: readStringUntilEndOfLine_eq [of ls] ls_wf_def canRead_iff)
  next
    case True
    then have "readStringUntilEndOfLine ls = readStringUntilEndOfLine (ls_adv 1 ls)"
      by (simp add: readStringUntilEndOfLine_eq [of ls])
    with step.IH [of "ls_adv 1 ls"] True show ?thesis
      by (auto simp: ls_wf_def canRead_iff)
  qed
qed

lemma backtickLoop_eq:
  "backtickLoop ls buf =
     (if canRead ls then
        (if ls_cur ls = CHR 0x60 then (buf, ls_adv 1 ls)
         else backtickLoop (ls_adv 1 ls) (buf @ [ls_cur ls]))
      else (buf, ls))"
  by (subst backtickLoop.simps) (simp add: readCharacter_eq)

lemma backtickLoop_progress [progress_rules]:
  "backtickLoop ls buf = (s, ls') \<Longrightarrow>
     ls_source ls' = ls_source ls \<and> ls_position ls \<le> ls_position ls' \<and> (ls_wf ls \<longrightarrow> ls_wf ls')"
proof (induction ls arbitrary: buf rule: stream_induct)
  case (step ls)
  show ?case
  proof (cases "canRead ls \<and> ls_cur ls \<noteq> CHR 0x60")
    case False
    with step.prems show ?thesis
      by (auto simp: backtickLoop_eq [of ls] ls_wf_def canRead_iff split: if_splits)
  next
    case True
    with step.prems have "backtickLoop (ls_adv 1 ls) (buf @ [ls_cur ls]) = (s, ls')"
      by (simp add: backtickLoop_eq [of ls])
    with step.IH [of "ls_adv 1 ls"] True show ?thesis
      by (fastforce simp: ls_wf_def canRead_iff)
  qed
qed

lemma braceLoop_eq:
  "braceLoop ls depth buf =
     (if canRead ls then
        (let depth' = (if ls_cur ls = CHR ''{'' then depth + 1
                       else if ls_cur ls = CHR ''}'' then depth - 1 else depth)
         in if depth' = 0 then (buf, ls_adv 1 ls)
            else braceLoop (ls_adv 1 ls) depth' (buf @ [ls_cur ls]))
      else (buf, ls))"
  by (subst braceLoop.simps) (simp add: readCharacter_eq Let_def)

lemma braceLoop_progress [progress_rules]:
  "braceLoop ls depth buf = (s, ls') \<Longrightarrow>
     ls_source ls' = ls_source ls \<and> ls_position ls \<le> ls_position ls' \<and> (ls_wf ls \<longrightarrow> ls_wf ls')"
proof (induction ls arbitrary: depth buf rule: stream_induct)
  case (step ls)
  let ?d = "if ls_cur ls = CHR ''{'' then depth + 1
            else if ls_cur ls = CHR ''}'' then depth - 1 else depth"
  show ?case
  proof (cases "canRead ls \<and> ?d \<noteq> 0")
    case False
    with step.prems show ?thesis
      by (auto simp: braceLoop_eq [of ls] Let_def ls_wf_def canRead_iff split: if_splits)
  next
    case True
    with step.prems have "braceLoop (ls_adv 1 ls) ?d (buf @ [ls_cur ls]) = (s, ls')"
      by (simp add: braceLoop_eq [of ls] Let_def)
    with step.IH [of "ls_adv 1 ls"] True show ?thesis
      by (fastforce simp: ls_wf_def canRead_iff)
  qed
qed

lemma skipBlanks_bounds: "i \<le> e \<Longrightarrow> i \<le> skipBlanks src i e \<and> skipBlanks src i e \<le> e"
proof (induction src i e rule: skipBlanks.induct)
  case (1 src i e)
  then show ?case by (auto simp: skipBlanks.simps [of src i e])
qed

lemma matchTaggedCloser_bounds:
  "matchTaggedCloser close src a e tag = Some p \<Longrightarrow> a \<le> e \<Longrightarrow> a < p \<and> p \<le> e"
  using skipBlanks_bounds [of a e src]
    skipBlanks_bounds [of "skipBlanks src a e + length tag" e src]
  by (auto simp: matchTaggedCloser_def Let_def split: if_splits)

subsection \<open>The tagged readers\<close>

text \<open>The text of a line read up to \<open>e0\<close>: without its newline and a return before it.\<close>

definition lineHasNewline :: "string \<Rightarrow> nat \<Rightarrow> nat \<Rightarrow> bool" where
  "lineHasNewline src a e0 = (e0 > a \<and> src ! (e0 - 1) = NL)"

definition lineEndOf :: "string \<Rightarrow> nat \<Rightarrow> nat \<Rightarrow> nat" where
  "lineEndOf src a e0 =
     (let e1 = (if lineHasNewline src a e0 then e0 - 1 else e0)
      in if e1 > a \<and> src ! (e1 - 1) = CR then e1 - 1 else e1)"

lemma lineEndOf_bounds: "a \<le> e0 \<Longrightarrow> a \<le> lineEndOf src a e0 \<and> lineEndOf src a e0 \<le> e0"
  by (auto simp: lineEndOf_def lineHasNewline_def Let_def)

text \<open>
  The line loop: collect lines until one closes the tag.  The result says whether a closing line was
  found.
\<close>

function taggedLines ::
  "(string \<Rightarrow> nat \<Rightarrow> nat \<Rightarrow> string \<Rightarrow> nat option) \<Rightarrow> string \<Rightarrow> lexer_stream \<Rightarrow> string
     \<Rightarrow> bool \<times> string \<times> lexer_stream" where
  "taggedLines closer tag ls body =
     (if canRead ls then
       (let lineStart = ls_position ls;
            ls1 = readStringUntilEndOfLine ls;
            src = ls_source ls1;
            lineEnd = lineEndOf src lineStart (ls_position ls1)
        in (case closer src lineStart lineEnd tag of
              Some p \<Rightarrow> (True, body, ls1\<lparr>ls_position := p\<rparr>)
            | None \<Rightarrow> taggedLines closer tag ls1
                        (body @ slice src lineStart lineEnd @
                         (if lineHasNewline src lineStart (ls_position ls1) then [NL] else []))))
      else (False, body, ls))"
  by pat_completeness auto
termination
proof (relation "measure (\<lambda>(closer, tag, ls, body). length (ls_source ls) - ls_position ls)",
    goal_cases)
  case 1
  show ?case by simp
next
  case (2 closer tag ls body)
  then show ?case
    using readStringUntilEndOfLine_progress [of ls] by (simp add: canRead_iff) arith
qed

declare taggedLines.simps [simp del]

lemma taggedLines_progress [progress_rules]:
  "taggedLines (matchTaggedCloser close) tag ls body = (found, s, ls') \<Longrightarrow> ls_wf ls \<Longrightarrow>
     ls_source ls' = ls_source ls \<and> ls_position ls \<le> ls_position ls' \<and> ls_wf ls'"
proof (induction ls arbitrary: body rule: stream_induct)
  case (step ls)
  show ?case
  proof (cases "canRead ls")
    case False
    with step.prems show ?thesis by (simp add: taggedLines.simps [of _ _ ls])
  next
    case True
    let ?ls1 = "readStringUntilEndOfLine ls"
    let ?src = "ls_source ?ls1" and ?a = "ls_position ls" and ?e0 = "ls_position ?ls1"
    let ?e2 = "lineEndOf ?src ?a ?e0"
    note prog = readStringUntilEndOfLine_progress [of ls]
    have e2: "?a \<le> ?e2" "?e2 \<le> ?e0" "?e0 \<le> length (ls_source ls)"
      using prog True step.prems(2) lineEndOf_bounds [of ?a ?e0 ?src] by (auto simp: ls_wf_def)
    show ?thesis
    proof (cases "matchTaggedCloser close ?src ?a ?e2 tag")
      case None
      with step.prems True obtain body' where
        "taggedLines (matchTaggedCloser close) tag ?ls1 body' = (found, s, ls')"
        by (simp add: taggedLines.simps [of _ _ ls] Let_def)
      with step.IH [of ?ls1] True prog step.prems(2) show ?thesis by fastforce
    next
      case (Some p)
      with step.prems True have ls': "ls' = ?ls1\<lparr>ls_position := p\<rparr>"
        by (simp add: taggedLines.simps [of _ _ ls] Let_def)
      have "?a < p \<and> p \<le> ?e2"
        by (rule matchTaggedCloser_bounds [OF Some e2(1)])
      with ls' prog e2 show ?thesis by (auto simp: ls_wf_def)
    qed
  qed
qed

text \<open>
  An unclosed tagged string keeps everything to the end of the input; an unclosed tagged block is no
  tagged block, and the reader goes back to where it started.
\<close>

definition readTaggedBacktickString :: "lexer_stream \<Rightarrow> (string \<times> lexer_stream) option" where
  "readTaggedBacktickString ls =
     (case readTagHeader ls of
        None \<Rightarrow> None
      | Some (tag, ls1) \<Rightarrow>
          (case taggedLines matchTaggedBacktickCloser tag ls1 [] of
             (found, body, ls2) \<Rightarrow> Some (body, ls2)))"

definition readBacktickString :: "lexer_stream \<Rightarrow> string \<times> lexer_stream" where
  "readBacktickString ls =
     (case readTaggedBacktickString ls of
        Some r \<Rightarrow> r
      | None \<Rightarrow> readStringUntilBacktick ls)"

definition readTaggedBlock :: "lexer_stream \<Rightarrow> (string \<times> lexer_stream) option" where
  "readTaggedBlock ls =
     (case readTagHeader ls of
        None \<Rightarrow> None
      | Some (tag, ls1) \<Rightarrow>
          (case taggedLines matchTaggedBlockCloser tag ls1 [] of
             (found, body, ls2) \<Rightarrow> if found then Some (body, ls2) else None))"

definition readBlock :: "lexer_stream \<Rightarrow> string \<times> lexer_stream" where
  "readBlock ls =
     (case readTaggedBlock ls of
        Some r \<Rightarrow> r
      | None \<Rightarrow> readNestedBraceBlock ls)"

lemma readTagHeader_progress [progress_rules]:
  "readTagHeader ls = Some (tag, ls') \<Longrightarrow> ls_wf ls \<Longrightarrow>
     ls_source ls' = ls_source ls \<and> ls_position ls \<le> ls_position ls' \<and> ls_wf ls'"
  using readStringUntilEndOfLine_progress [of "ls\<lparr>ls_position := ls_position ls + 2\<rparr>"]
  by (auto simp: readTagHeader_def Let_def ls_wf_def ls_length_def split: if_splits)

lemma readBacktickString_progress [progress_rules]:
  "readBacktickString ls = (s, ls') \<Longrightarrow> ls_wf ls \<Longrightarrow>
     ls_source ls' = ls_source ls \<and> ls_position ls \<le> ls_position ls' \<and> ls_wf ls'"
  by (fastforce simp: readBacktickString_def readTaggedBacktickString_def
      readStringUntilBacktick_def matchTaggedBacktickCloser_def
      split: option.splits prod.splits dest: progress_rules)

lemma readBlock_progress [progress_rules]:
  "readBlock ls = (s, ls') \<Longrightarrow> ls_wf ls \<Longrightarrow>
     ls_source ls' = ls_source ls \<and> ls_position ls \<le> ls_position ls' \<and> ls_wf ls'"
  by (fastforce simp: readBlock_def readTaggedBlock_def
      readNestedBraceBlock_def matchTaggedBlockCloser_def
      split: option.splits prod.splits if_splits dest: progress_rules)

end
