(* ===== verification/ExprParse.thy ===== *)
theory ExprParse
  imports ExprLexer
begin

text \<open>
  \<open>readToken\<close> and \<open>ParseTokens\<close> of \<open>mods/tql/expression/parse.go\<close>.  The branches of the big
  character switch are one definition each, in the code's order; the two branches that fall through
  to later ones (a dollar sign or a slash that starts neither a variable nor a comment) continue
  with \<open>readRest\<close>, which holds the branches after them.
\<close>

record 'f lexer_env =
  parseFloat :: "string \<Rightarrow> 'f option"
  ofUint64 :: "nat \<Rightarrow> 'f"
  parseStringToTime :: bool
  tryParseTime :: "string \<Rightarrow> int option"
  functionTable :: "string \<Rightarrow> bool"

subsection \<open>Numbers\<close>

definition hexVal :: "char \<Rightarrow> nat" where
  "hexVal c = (let l = toLowerAscii c in if isDigit l then code l - 48 else code l - 87)"

text \<open>\<open>strconv.ParseUint(s, 16, 64)\<close>: \<open>None\<close> on a syntax or a range error.\<close>

definition parseUintHex :: "string \<Rightarrow> nat option" where
  "parseUintHex s =
     (if s = [] \<or> \<not> list_all isHexDigit s then None
      else (let n = foldl (\<lambda>n c. 16 * n + hexVal c) 0 s in if n < 2 ^ 64 then Some n else None))"

definition tokenError ::
  "string \<Rightarrow> lexer_stream \<Rightarrow> nat \<Rightarrow> (parse_error, 'a) res" where
  "tokenError kind ls start =
     rbind (currentSpan ls start) (\<lambda>sp. rbind (currentRaw ls start) (\<lambda>raw.
       Err (newParseError kind sp raw)))"

definition readHexNumber ::
  "'f lexer_env \<Rightarrow> nat \<Rightarrow> lexer_stream
     \<Rightarrow> (parse_error, (token_kind \<times> 'f tvalue) \<times> lexer_stream) res" where
  "readHexNumber env start ls =
     rbind (readUntilFalse ls False True True isHexDigit) (\<lambda>((s, completed), ls').
       case parseUintHex s of
         None \<Rightarrow> tokenError ''invalid_numeric'' ls' start
       | Some n \<Rightarrow> Ok ((NUMERIC, TVNum (ofUint64 env n)), ls'))"

definition readDecimalNumber ::
  "'f lexer_env \<Rightarrow> nat \<Rightarrow> lexer_stream
     \<Rightarrow> (parse_error, (token_kind \<times> 'f tvalue) \<times> lexer_stream) res" where
  "readDecimalNumber env start ls =
     rbind (readTokenUntilFalse ls isNumeric) (\<lambda>(s, ls').
       case parseFloat env s of
         None \<Rightarrow> tokenError ''invalid_numeric'' ls' start
       | Some v \<Rightarrow> Ok ((NUMERIC, TVNum v), ls'))"

definition readNumber ::
  "'f lexer_env \<Rightarrow> char \<Rightarrow> nat \<Rightarrow> lexer_stream
     \<Rightarrow> (parse_error, (token_kind \<times> 'f tvalue) \<times> lexer_stream) res" where
  "readNumber env c start ls =
     (if canRead ls \<and> c = CHR ''0'' then
        rbind (readCharacter ls) (\<lambda>(c2, ls2).
          if canRead ls2 \<and> c2 = CHR ''x'' then readHexNumber env start ls2
          else readDecimalNumber env start (ls_rewind 1 ls2))
      else readDecimalNumber env start ls)"

subsection \<open>Variables, words and strings\<close>

definition readEscapedVariable ::
  "nat \<Rightarrow> lexer_stream \<Rightarrow> (parse_error, (token_kind \<times> 'f tvalue) \<times> lexer_stream) res" where
  "readEscapedVariable start ls =
     rbind (readUntilFalse ls True False True isNotClosingBracket) (\<lambda>((s, completed), ls').
       if \<not> completed then tokenError ''unclosed_parameter_bracket'' ls' start
       else Ok ((VARIABLE, TVStr s), ls_rewind (-1) ls'))"

definition readDollarVariable ::
  "lexer_stream \<Rightarrow> (parse_error, (token_kind \<times> 'f tvalue) \<times> lexer_stream) res" where
  "readDollarVariable ls =
     rbind (readTokenUntilFalse ls isVariableName) (\<lambda>(s, ls').
       Ok ((VARIABLE, TVStr (''$'' @ s)), ls'))"

text \<open>The kind and value of a word that is not an accessor: later tests override earlier ones.\<close>

definition wordToken :: "'f lexer_env \<Rightarrow> string \<Rightarrow> token_kind \<times> 'f tvalue" where
  "wordToken env s =
     (let kv0 = (VARIABLE, TVStr s);
          kv1 = (if s = ''true'' then (BOOLEAN, TVBool True)
                 else if s = ''false'' then (BOOLEAN, TVBool False) else kv0);
          kv2 = (if s = ''in'' \<or> s = ''IN'' then (COMPARATOR, TVStr ''in'') else kv1);
          kv3 = (if functionTable env s then (FUNCTION, TVFunc s) else kv2)
      in kv3)"

text \<open>\<open>strings.Index(tokenString, ".") > 0\<close>.\<close>

definition hasAccessorDot :: "string \<Rightarrow> bool" where
  "hasAccessorDot s = (case indexOf s CHR ''.'' of Some i \<Rightarrow> i > 0 | None \<Rightarrow> False)"

definition readWord ::
  "'f lexer_env \<Rightarrow> nat \<Rightarrow> lexer_stream
     \<Rightarrow> (parse_error, (token_kind \<times> 'f tvalue) \<times> lexer_stream) res" where
  "readWord env start ls =
     rbind (readTokenUntilFalse ls isVariableName) (\<lambda>(s, ls').
       if hasAccessorDot s then
         (if last s = CHR ''.'' then tokenError ''hanging_accessor'' ls' start
          else (let splits = splitOn s CHR ''.'' in
            if list_ex (\<lambda>p. upperDiffers (getFirstRune p)) (tl splits)
            then tokenError ''unexported_accessor'' ls' start
            else Ok ((ACCESSOR, TVParts splits), ls')))
       else Ok (wordToken env s, ls'))"

definition readQuoted ::
  "'f lexer_env \<Rightarrow> char \<Rightarrow> nat \<Rightarrow> lexer_stream
     \<Rightarrow> (parse_error, (token_kind \<times> 'f tvalue) \<times> lexer_stream) res" where
  "readQuoted env c start ls =
     rbind (readUntilFalse ls True False True (isNotQuoteMatch c)) (\<lambda>((s, completed), ls').
       if \<not> completed then tokenError ''unclosed_string_literal'' ls' start
       else (let ls'' = ls_rewind (-1) ls' in
         if parseStringToTime env
         then (case tryParseTime env s of
                 Some t \<Rightarrow> Ok ((TIME, TVTime t), ls'')
               | None \<Rightarrow> Ok ((STRING, TVStr s), ls''))
         else Ok ((STRING, TVStr s), ls'')))"

subsection \<open>Symbols\<close>

definition symbolKind :: "lexer_state \<Rightarrow> string \<Rightarrow> token_kind" where
  "symbolKind st s =
     (if canTransitionTo st PREFIX \<and> prefixSymbols s \<noteq> None then PREFIX
      else if modifierSymbols s \<noteq> None then MODIFIER
      else if logicalSymbols s \<noteq> None then LOGICALOP
      else if comparatorSymbols s \<noteq> None then COMPARATOR
      else if ternarySymbols s \<noteq> None then TERNARY
      else UNKNOWN)"

definition readSymbol ::
  "lexer_state \<Rightarrow> nat \<Rightarrow> lexer_stream
     \<Rightarrow> (parse_error, (token_kind \<times> 'f tvalue) \<times> lexer_stream) res" where
  "readSymbol st start ls =
     rbind (readTokenUntilFalse ls isNotAlphanumeric) (\<lambda>(s, ls').
       if symbolKind st s = UNKNOWN then tokenError ''invalid_token'' ls' start
       else Ok ((symbolKind st s, TVStr s), ls'))"

subsection \<open>readToken\<close>

definition readRest ::
  "'f lexer_env \<Rightarrow> lexer_state \<Rightarrow> char \<Rightarrow> nat \<Rightarrow> lexer_stream
     \<Rightarrow> (parse_error, (token_kind \<times> 'f tvalue) \<times> lexer_stream) res" where
  "readRest env st c start ls =
     (if c = CHR 0x60 then
        (case readBacktickString ls of (s, ls') \<Rightarrow> Ok ((STRING, TVStr s), ls'))
      else if c = CHR ''{'' then
        (case readBlock ls of (s, ls') \<Rightarrow> Ok ((STRING, TVStr s), ls'))
      else if isLetter c then readWord env start ls
      else if \<not> isNotQuote c then readQuoted env c start ls
      else if c = CHR ''('' then Ok ((CLAUSE, TVRune c), ls)
      else if c = CHR '')'' then Ok ((CLAUSE_CLOSE, TVRune c), ls)
      else readSymbol st start ls)"

text \<open>The code after the loop: the token's span and source text.\<close>

definition finishToken ::
  "nat \<Rightarrow> (parse_error, (token_kind \<times> 'f tvalue) \<times> lexer_stream) res
     \<Rightarrow> (parse_error, ('f token \<times> lexer_stream) option) res" where
  "finishToken start m =
     rbind m (\<lambda>((k, v), ls).
       rbind (currentSpan ls start) (\<lambda>sp. rbind (currentRaw ls start) (\<lambda>raw.
         Ok (Some (\<lparr>Kind = k, Value = v, Span = sp, Raw = raw\<rparr>, ls)))))"

text \<open>
  The loop: white space and comments are skipped by its \<open>continue\<close>s.  \<open>None\<close> is the result
  \<open>found = false\<close>.  After a dollar sign the next character is read without \<open>canRead\<close>.
\<close>

function readToken ::
  "'f lexer_env \<Rightarrow> lexer_state \<Rightarrow> lexer_stream
     \<Rightarrow> (parse_error, ('f token \<times> lexer_stream) option) res" where
  "readToken env st ls =
     (if canRead ls then
        (let c = ls_cur ls; ls1 = ls_adv 1 ls; start = ls_position ls in
         if isSpace c then readToken env st ls1
         else if isNumeric c then finishToken start (readNumber env c start ls1)
         else if c = CHR '','' then finishToken start (Ok ((SEPARATOR, TVStr '',''), ls1))
         else if c = CHR ''['' then finishToken start (readEscapedVariable start ls1)
         else if c = CHR ''$'' then
           rbind (readCharacter ls1) (\<lambda>(nc, ls2).
             if isLetter nc then finishToken start (readDollarVariable ls2)
             else finishToken start (readRest env st c start (ls_rewind 1 ls2)))
         else if c = CHR ''/'' \<and> canRead ls1 \<and> ls_cur ls1 = CHR ''/'' then
           readToken env st (readStringUntilEndOfLine (ls_adv 1 ls1))
         else finishToken start (readRest env st c start ls1))
      else Ok None)"
  by pat_completeness auto
termination
proof (relation "measure (\<lambda>(env, st, ls). length (ls_source ls) - ls_position ls)", goal_cases)
  case 1
  show ?case by simp
next
  case (2 env st ls)
  then show ?case by (simp add: canRead_iff)
next
  case (3 env st ls)
  then show ?case
    using readStringUntilEndOfLine_progress [of "ls_adv 2 ls"]
    by (simp add: canRead_iff ls_adv_def) arith
qed

declare readToken.simps [simp del]

subsection \<open>Every branch consumes its first character\<close>

text \<open>
  \<open>took ls ls'\<close>: the reader that looked at the current character of \<open>ls\<close> left the stream at
  \<open>ls'\<close>, past that character and within the source.
\<close>

definition took :: "lexer_stream \<Rightarrow> lexer_stream \<Rightarrow> bool" where
  "took ls ls' = (ls_source ls' = ls_source ls \<and> ls_position ls < ls_position ls' \<and> ls_wf ls')"

lemma took_adv: "canRead ls \<Longrightarrow> took ls (ls_adv (Suc 0) ls)"
  by (simp add: took_def ls_wf_def canRead_iff)

lemma readUntilFalse_completed:
  "readUntilFalse ls iw False esc cond = Ok ((s, True), ls') \<Longrightarrow> canRead ls'"
  by (auto simp: readUntilFalse_def dest: readUntilLoop_completed)

lemma readUntilFalse_close_took:
  assumes "readUntilFalse (ls_adv (Suc 0) ls) iw False esc cond = Ok ((s, True), ls')"
    and "canRead ls"
  shows "took ls (ls_rewind (-1) ls')"
  using readUntilFalse_progress [OF assms(1)] readUntilFalse_completed [OF assms(1)] assms(2)
  by (auto simp: took_def ls_rewind_def ls_wf_def canRead_iff)

lemma readTokenUntilFalse_took:
  assumes "readTokenUntilFalse (ls_adv (Suc 0) ls) cond = Ok (s, ls')" "s \<noteq> []" "canRead ls"
  shows "took ls ls'"
  using readTokenUntilFalse_progress [of ls cond s ls'] assms
  by (auto simp: took_def ls_wf_def canRead_iff Suc_le_eq) (cases s; simp)+

lemma tokenError_not_Ok [simp]: "tokenError k ls start \<noteq> Ok x"
  by (auto simp: tokenError_def rbind_Ok_iff)

lemma readDecimalNumber_took:
  assumes "readDecimalNumber env start (ls_adv (Suc 0) ls) = Ok (kv, ls')"
    and "canRead ls" "isNumeric (ls_cur ls)" "\<not> isSpace (ls_cur ls)"
  shows "took ls ls'"
proof -
  from assms(1) obtain s where s: "readTokenUntilFalse (ls_adv (Suc 0) ls) isNumeric = Ok (s, ls')"
    by (auto simp: readDecimalNumber_def rbind_Ok_iff split: option.splits)
  have "ls_cur ls \<noteq> CHR 0x5C"
    using assms(3) by (auto simp: isNumeric_def isDigit_def code_def)
  with s assms readTokenUntilFalse_first [of ls isNumeric s ls'] have "s \<noteq> []" by simp
  with s assms(2) show ?thesis by (intro readTokenUntilFalse_took) auto
qed

lemma readNumber_took:
  assumes "readNumber env (ls_cur ls) start (ls_adv (Suc 0) ls) = Ok (kv, ls')"
    and "canRead ls" "isNumeric (ls_cur ls)" "\<not> isSpace (ls_cur ls)"
  shows "took ls ls'"
proof -
  have hex: "took ls ls'"
    if h: "readHexNumber env start (ls_adv (Suc 0) (ls_adv (Suc 0) ls)) = Ok (kv, ls')"
      and c: "canRead (ls_adv (Suc 0) ls)"
  proof -
    obtain s b where "readUntilFalse (ls_adv (Suc 0) (ls_adv (Suc 0) ls)) False True True isHexDigit
        = Ok ((s, b), ls')"
      using h by (auto simp: readHexNumber_def rbind_Ok_iff split: option.splits)
    from readUntilFalse_progress [OF this] c show ?thesis
      by (auto simp: took_def ls_wf_def canRead_iff)
  qed
  from assms(1) consider
      "readHexNumber env start (ls_adv (Suc 0) (ls_adv (Suc 0) ls)) = Ok (kv, ls')"
      "canRead (ls_adv (Suc 0) ls)"
    | "readDecimalNumber env start (ls_adv (Suc 0) ls) = Ok (kv, ls')"
    by (auto simp: readNumber_def readCharacter_eq split: if_splits)
  then show ?thesis
  proof cases
    case 1
    then show ?thesis by (rule hex)
  next
    case 2
    then show ?thesis by (rule readDecimalNumber_took [OF _ assms(2-4)])
  qed
qed

lemma readWord_took:
  assumes "readWord env start (ls_adv (Suc 0) ls) = Ok (kv, ls')"
    and "canRead ls" "isLetter (ls_cur ls)" "\<not> isSpace (ls_cur ls)"
  shows "took ls ls'"
proof -
  from assms(1) obtain s where
    s: "readTokenUntilFalse (ls_adv (Suc 0) ls) isVariableName = Ok (s, ls')"
    by (auto simp: readWord_def rbind_Ok_iff Let_def split: if_splits)
  have "ls_cur ls \<noteq> CHR 0x5C"
    using assms(3) by (auto simp: isLetter_def isUpperAscii_def isLowerAscii_def code_def)
  with s assms readTokenUntilFalse_first [of ls isVariableName s ls'] have "s \<noteq> []"
    by (simp add: isVariableName_def)
  with s assms(2) show ?thesis by (intro readTokenUntilFalse_took) auto
qed

lemma symbolKind_Nil [simp]: "symbolKind st [] = UNKNOWN"
  by (simp add: symbolKind_def symbol_tables)

lemma readSymbol_took:
  assumes "readSymbol st start (ls_adv (Suc 0) ls) = Ok (kv, ls')" "canRead ls"
  shows "took ls ls'"
proof -
  from assms(1) obtain s where
    s: "readTokenUntilFalse (ls_adv (Suc 0) ls) isNotAlphanumeric = Ok (s, ls')"
    and "symbolKind st s \<noteq> UNKNOWN"
    by (auto simp: readSymbol_def rbind_Ok_iff split: if_splits)
  then have "s \<noteq> []" by (cases s) auto
  with s assms(2) show ?thesis by (intro readTokenUntilFalse_took) auto
qed

lemma readQuoted_took:
  assumes "readQuoted env c start (ls_adv (Suc 0) ls) = Ok (kv, ls')" "canRead ls"
  shows "took ls ls'"
proof -
  from assms(1) obtain s ls2 where
    "readUntilFalse (ls_adv (Suc 0) ls) True False True (isNotQuoteMatch c) = Ok ((s, True), ls2)"
    and "ls' = ls_rewind (-1) ls2"
    by (auto simp: readQuoted_def rbind_Ok_iff Let_def split: if_splits option.splits)
  with assms(2) show ?thesis by (auto dest: readUntilFalse_close_took)
qed

lemma readEscapedVariable_took:
  assumes "readEscapedVariable start (ls_adv (Suc 0) ls) = Ok (kv, ls')" "canRead ls"
  shows "took ls ls'"
proof -
  from assms(1) obtain s ls2 where
    "readUntilFalse (ls_adv (Suc 0) ls) True False True isNotClosingBracket = Ok ((s, True), ls2)"
    and "ls' = ls_rewind (-1) ls2"
    by (auto simp: readEscapedVariable_def rbind_Ok_iff split: if_splits)
  with assms(2) show ?thesis by (auto dest: readUntilFalse_close_took)
qed

lemma readDollarVariable_took:
  assumes "readDollarVariable (ls_adv (Suc 0) (ls_adv (Suc 0) ls)) = Ok (kv, ls')"
    and "canRead (ls_adv (Suc 0) ls)"
  shows "took ls ls'"
proof -
  from assms(1) obtain s where
    "readTokenUntilFalse (ls_adv (Suc 0) (ls_adv (Suc 0) ls)) isVariableName = Ok (s, ls')"
    by (auto simp: readDollarVariable_def rbind_Ok_iff)
  with readTokenUntilFalse_progress [of "ls_adv (Suc 0) ls" isVariableName s ls'] assms(2)
  show ?thesis by (auto simp: took_def ls_wf_def canRead_iff)
qed

lemma readRest_took:
  assumes "readRest env st (ls_cur ls) start (ls_adv (Suc 0) ls) = Ok (kv, ls')"
    and "canRead ls" "\<not> isSpace (ls_cur ls)"
  shows "took ls ls'"
proof -
  have "ls_wf (ls_adv (Suc 0) ls)"
    using assms(2) by (simp add: ls_wf_def canRead_iff)
  with assms show ?thesis
    by (auto simp: readRest_def took_adv split: if_splits prod.splits
        intro: readWord_took readQuoted_took readSymbol_took)
      (auto simp: took_def dest!: readBacktickString_progress readBlock_progress)
qed

text \<open>The span a token gets: start and end are positions of the source, and the raw text is between.\<close>

lemma positionsFrom_length [simp]: "length (positionsFrom i l c s) = Suc (length s)"
  by (induction s arbitrary: i l c) auto

lemma positionsFrom_Offset:
  "k \<le> length s \<Longrightarrow> Offset (positionsFrom i l c s ! k) = i + k"
proof (induction s arbitrary: i l c k)
  case Nil
  then show ?case by simp
next
  case (Cons r rs)
  then show ?case by (cases k) auto
qed

lemma tokenEndFrom_bounds: "tokenEndFrom src e \<le> e"
  by (induction src e rule: tokenEndFrom.induct) auto

lemma tokenEndFrom_above:
  "a < e \<Longrightarrow> \<not> isSpace (src ! a) \<Longrightarrow> a < tokenEndFrom src e"
proof (induction src e rule: tokenEndFrom.induct)
  case (2 src e)
  then show ?case by (cases "a = e") auto
qed simp

definition token_at :: "string \<Rightarrow> nat \<Rightarrow> nat \<Rightarrow> 'f token \<Rightarrow> bool" where
  "token_at src a b tok = (a < b \<and> b \<le> length src
     \<and> Span tok = \<lparr>spanStart = positionsFrom 0 1 1 src ! a, spanEnd = positionsFrom 0 1 1 src ! b\<rparr>
     \<and> Raw tok = slice src a b)"

lemma currentSpan_eq:
  assumes "ls_wf ls" "a < ls_position ls" "\<not> isSpace (ls_source ls ! a)"
  shows "currentSpan ls a =
     Ok \<lparr>spanStart = ls_positions ls ! a, spanEnd = ls_positions ls ! tokenEnd ls\<rparr>"
  using assms tokenEndFrom_bounds [of "ls_source ls" "ls_position ls"]
    tokenEndFrom_above [of a "ls_position ls" "ls_source ls"]
  by (simp add: currentSpan_def ls_span_def Let_def ls_wf_def ls_positions_def ls_length_def
      tokenEnd_def)

lemma currentRaw_eq:
  assumes "ls_wf ls" "a < ls_position ls" "\<not> isSpace (ls_source ls ! a)"
  shows "currentRaw ls a = Ok (slice (ls_source ls) a (tokenEnd ls))"
proof -
  have b: "a < tokenEnd ls" "tokenEnd ls \<le> length (ls_source ls)"
    using assms tokenEndFrom_bounds [of "ls_source ls" "ls_position ls"]
      tokenEndFrom_above [of a "ls_position ls" "ls_source ls"]
    by (simp_all add: ls_wf_def tokenEnd_def)
  show ?thesis
    using currentSpan_eq [OF assms] b
    by (simp add: currentRaw_def ls_raw_def currentSpan_def [symmetric] RawFrom_def Let_def
        ls_positions_def positionsFrom_Offset slice_def)
qed

lemma finishToken_Ok:
  assumes "finishToken (ls_position ls) m = Ok (Some (tok, ls'))"
    and took: "\<And>kv. m = Ok (kv, ls') \<Longrightarrow> took ls ls'"
    and "\<not> isSpace (ls_cur ls)"
  obtains k v where "m = Ok ((k, v), ls')" "took ls ls'" "Kind tok = k" "Value tok = v"
    "token_at (ls_source ls) (ls_position ls) (tokenEnd ls') tok" "tokenEnd ls' \<le> ls_position ls'"
proof -
  from assms(1) obtain k v where m: "m = Ok ((k, v), ls')"
    and sp: "currentSpan ls' (ls_position ls) = Ok (Span tok)"
    and raw: "currentRaw ls' (ls_position ls) = Ok (Raw tok)"
    and kv: "Kind tok = k" "Value tok = v"
    by (auto simp: finishToken_def rbind_Ok_iff)
  from took [OF m] have t: "ls_source ls' = ls_source ls" "ls_position ls < ls_position ls'"
    "ls_wf ls'" by (auto simp: took_def)
  have "token_at (ls_source ls) (ls_position ls) (tokenEnd ls') tok"
    using sp raw t assms(3) currentSpan_eq [of ls' "ls_position ls"]
      currentRaw_eq [of ls' "ls_position ls"]
      tokenEndFrom_bounds [of "ls_source ls'" "ls_position ls'"]
      tokenEndFrom_above [of "ls_position ls" "ls_position ls'" "ls_source ls'"]
    by (auto simp: token_at_def ls_positions_def ls_wf_def tokenEnd_def)
  moreover have "tokenEnd ls' \<le> ls_position ls'"
    by (simp add: tokenEnd_def tokenEndFrom_bounds)
  ultimately show thesis using that [OF m took [OF m] kv] by blast
qed

text \<open>One token: where it starts, where it ends, and how far the stream moved.\<close>

lemma readToken_took:
  "readToken env st ls = Ok (Some (tok, ls')) \<Longrightarrow>
     \<exists>a b. ls_position ls \<le> a \<and> token_at (ls_source ls) a b tok \<and> b \<le> ls_position ls'
       \<and> ls_source ls' = ls_source ls \<and> ls_position ls < ls_position ls' \<and> ls_wf ls'
       \<and> \<not> isSpace (ls_source ls ! a)"
proof (induction ls rule: stream_induct)
  case (step ls)
  have cr: "canRead ls"
    using step.prems by (subst (asm) readToken.simps) (auto split: if_splits)
  let ?c = "ls_cur ls"
  have fin: ?case
    if f: "finishToken (ls_position ls) m = Ok (Some (tok, ls'))"
      and t: "\<And>kv. m = Ok (kv, ls') \<Longrightarrow> took ls ls'" and nsp: "\<not> isSpace ?c" for m
    using f t nsp
  proof (rule finishToken_Ok)
    fix k v
    assume "took ls ls'" "token_at (ls_source ls) (ls_position ls) (tokenEnd ls') tok"
      "tokenEnd ls' \<le> ls_position ls'"
    with nsp show ?case by (auto simp: took_def)
  qed
  note unf = step.prems [unfolded readToken.simps [of env st ls] Let_def]
  consider (space) "isSpace ?c"
    | (num) "\<not> isSpace ?c" "isNumeric ?c"
    | (comma) "\<not> isSpace ?c" "\<not> isNumeric ?c" "?c = CHR '',''"
    | (bracket) "\<not> isSpace ?c" "\<not> isNumeric ?c" "?c = CHR ''[''"
    | (dollar) "\<not> isSpace ?c" "\<not> isNumeric ?c" "?c = CHR ''$''"
    | (comment) "\<not> isSpace ?c" "\<not> isNumeric ?c" "?c = CHR ''/''" "canRead (ls_adv 1 ls)"
        "ls_cur (ls_adv 1 ls) = CHR ''/''"
    | (rest) "\<not> isSpace ?c" "\<not> isNumeric ?c" "?c \<noteq> CHR '',''" "?c \<noteq> CHR ''[''" "?c \<noteq> CHR ''$''"
        "\<not> (?c = CHR ''/'' \<and> canRead (ls_adv 1 ls) \<and> ls_cur (ls_adv 1 ls) = CHR ''/'')"
    by blast
  then show ?case
  proof cases
    case space
    with unf cr have "readToken env st (ls_adv 1 ls) = Ok (Some (tok, ls'))" by simp
    from step.IH [OF _ _ cr this] obtain a b where
      "Suc (ls_position ls) \<le> a" "token_at (ls_source ls) a b tok" "b \<le> ls_position ls'"
      "ls_source ls' = ls_source ls" "ls_position ls < ls_position ls'" "ls_wf ls'"
      "\<not> isSpace (ls_source ls ! a)" by auto
    then show ?thesis by (intro exI [of _ a] exI [of _ b]) auto
  next
    case num
    with unf cr show ?thesis
      by (intro fin [OF _ readNumber_took]) auto
  next
    case comma
    with unf cr show ?thesis
      by (intro fin) (auto simp: took_adv)
  next
    case bracket
    with unf cr show ?thesis
      by (intro fin [OF _ readEscapedVariable_took]) auto
  next
    case dollar
    from dollar unf cr have cr1: "canRead (ls_adv 1 ls)"
      by (auto simp: readCharacter_eq split: if_splits)
    show ?thesis
    proof (cases "isLetter (ls_cur (ls_adv 1 ls))")
      case True
      with dollar unf cr cr1 show ?thesis
        by (intro fin [OF _ readDollarVariable_took]) (auto simp: readCharacter_eq)
    next
      case False
      with dollar unf cr cr1 show ?thesis
        by (intro fin [OF _ readRest_took]) (auto simp: readCharacter_eq)
    qed
  next
    case comment
    let ?l = "readStringUntilEndOfLine (ls_adv 1 (ls_adv 1 ls))"
    from comment unf cr have r: "readToken env st ?l = Ok (Some (tok, ls'))" by auto
    have l: "ls_source ?l = ls_source ls" "ls_position ls < ls_position ?l"
      using readStringUntilEndOfLine_progress [of "ls_adv 1 (ls_adv 1 ls)"] by auto
    from step.IH [OF l cr r] obtain a b where
      "ls_position ?l \<le> a" "token_at (ls_source ls) a b tok" "b \<le> ls_position ls'"
      "ls_source ls' = ls_source ls" "ls_position ?l < ls_position ls'" "ls_wf ls'"
      "\<not> isSpace (ls_source ls ! a)" using l by auto
    with l show ?thesis by (intro exI [of _ a] exI [of _ b]) auto
  next
    case rest
    with unf cr show ?thesis
      by (intro fin [OF _ readRest_took]) auto
  qed
qed

subsection \<open>ParseTokens\<close>

text \<open>
  The result is the code's triple: the tokens, the position, and the error if there is one.  An error
  of \<open>readToken\<close> returns the tokens read so far, one of \<open>checkBalance\<close> none.
\<close>

definition finishParse ::
  "'f token list \<Rightarrow> nat \<Rightarrow> (parse_error, 'f token list \<times> nat \<times> parse_error option) res" where
  "finishParse ret position =
     (case checkBalance ret of
        Err e \<Rightarrow> Ok ([], position, Some e)
      | Ok u \<Rightarrow> Ok (ret, position, None)
      | Panic \<Rightarrow> Panic
      | NoFuel \<Rightarrow> NoFuel)"

function parseTokensLoop ::
  "'f lexer_env \<Rightarrow> lexer_stream \<Rightarrow> lexer_state \<Rightarrow> 'f token list \<Rightarrow> nat
     \<Rightarrow> (parse_error, 'f token list \<times> nat \<times> parse_error option) res" where
  "parseTokensLoop env ls st ret position =
     (if canRead ls then
        (case readToken env st ls of
           Err e \<Rightarrow> Ok (ret, position, Some e)
         | Panic \<Rightarrow> Panic
         | NoFuel \<Rightarrow> NoFuel
         | Ok None \<Rightarrow> finishParse ret position
         | Ok (Some (tok, ls')) \<Rightarrow>
             (case getLexerStateForToken (Kind tok) of
                None \<Rightarrow> Ok (ret, ls_position ls',
                            Some (newParseError ''no_lexer_state'' zeroSpan []))
              | Some st' \<Rightarrow> parseTokensLoop env ls' st' (ret @ [tok]) (ls_position ls')))
      else finishParse ret position)"
  by pat_completeness auto
termination
proof (relation "measure (\<lambda>(env, ls, st, ret, p). length (ls_source ls) - ls_position ls)",
    goal_cases)
  case 1
  show ?case by simp
next
  case (2 env ls st ret position o' p tok ls' st')
  then show ?case
    using readToken_took [of env st ls tok ls'] by (auto simp: canRead_iff)
qed

declare parseTokensLoop.simps [simp del]

definition ParseTokens ::
  "'f lexer_env \<Rightarrow> string \<Rightarrow> (parse_error, 'f token list \<times> nat \<times> parse_error option) res" where
  "ParseTokens env input = parseTokensLoop env (newLexerStream input) initialState [] 0"

text \<open>
  The tokens of a source: each is a non-empty piece of it, with its span, and they follow one
  another without overlap.
\<close>

fun tokens_of :: "string \<Rightarrow> nat \<Rightarrow> 'f token list \<Rightarrow> bool" where
  "tokens_of src lo [] = True"
| "tokens_of src lo (t # ts) = (\<exists>a b. lo \<le> a \<and> token_at src a b t \<and> tokens_of src b ts)"

lemma tokens_of_mono: "tokens_of src lo ts \<Longrightarrow> lo' \<le> lo \<Longrightarrow> tokens_of src lo' ts"
  by (cases ts) (auto intro: order_trans)

lemma parseTokensLoop_prefix:
  "parseTokensLoop env ls st ret p = Ok (toks, q, err) \<Longrightarrow> ls_source ls = src \<Longrightarrow>
     (\<exists>more. toks = ret @ more \<and> tokens_of src (ls_position ls) more) \<or> toks = [] \<and> err \<noteq> None"
proof (induction ls arbitrary: st ret p rule: stream_induct)
  case (step ls)
  show ?case
  proof (cases "canRead ls \<and> (\<exists>tok ls'. readToken env st ls = Ok (Some (tok, ls')))")
    case False
    with step.prems(1) show ?thesis
      by (subst (asm) parseTokensLoop.simps)
         (auto simp: finishParse_def split: if_splits res.splits option.splits)
  next
    case True
    then obtain tok ls' where cr: "canRead ls" and r: "readToken env st ls = Ok (Some (tok, ls'))"
      by blast
    from step.prems(1) cr r
    have run: "parseTokensLoop env ls' (stateOf (Kind tok)) (ret @ [tok]) (ls_position ls')
        = Ok (toks, q, err)"
      by (subst (asm) parseTokensLoop.simps) (simp add: getLexerStateForToken_stateOf)
    from readToken_took [OF r] obtain a b where
      t: "ls_position ls \<le> a" "token_at src a b tok" "b \<le> ls_position ls'"
        "ls_source ls' = ls_source ls" "ls_position ls < ls_position ls'"
      using step.prems(2) by auto
    from step.IH [OF t(4,5) cr run] t(4) step.prems(2)
    consider more where "toks = (ret @ [tok]) @ more" "tokens_of src (ls_position ls') more"
      | "toks = [] \<and> err \<noteq> None" by auto
    then show ?thesis
    proof cases
      case 1
      then have "tokens_of src (ls_position ls) (tok # more)"
        using t by (auto intro: tokens_of_mono)
      with 1 show ?thesis by auto
    qed simp
  qed
qed

end
