(* ===== verification/ExprEval.thy ===== *)
theory ExprEval
  imports ExprOperators ExprParse
begin

text \<open>
  Evaluation of the stage tree (\<open>expression.go\<close>), the elision of literals and \<open>planStages\<close>
  (\<open>stage.go\<close>), and the constructors and methods of \<open>Expression\<close>.  An evaluation error keeps its kind
  and span; its message is dropped.
\<close>

subsection \<open>evaluateStage\<close>

record eval_error =
  ee_Kind :: string
  ee_Span :: source_span

definition wrapEvaluationError :: "string \<Rightarrow> source_span \<Rightarrow> eval_error" where
  "wrapEvaluationError kind span = \<lparr>ee_Kind = kind, ee_Span = span\<rparr>"

text \<open>An operator's error becomes an evaluation error at the stage.\<close>

definition cwrap :: "'e \<Rightarrow> ('s, unit, 'a) comp \<Rightarrow> ('s, 'e, 'a) comp" where
  "cwrap e m s =
     (case m s of
        (Ok a, s') \<Rightarrow> (Ok a, s')
      | (Err u, s') \<Rightarrow> (Err e, s')
      | (Panic, s') \<Rightarrow> (Panic, s')
      | (NoFuel, s') \<Rightarrow> (NoFuel, s'))"

definition isShortCircuitable :: "op_symbol \<Rightarrow> bool" where
  "isShortCircuitable y = (y \<in> {AND, OR, TERNARY_TRUE, TERNARY_FALSE, COALESCE})"

text \<open>
  What the left value decides: the stage's result, that the right stage is not run and its value is
  \<open>shortCircuitHolder\<close>, or nothing.
\<close>

datatype 'f circuit = Return "'f val" | SkipRight | RunRight

definition shortCircuitHolder :: "'f val" where
  "shortCircuitHolder = VInt GoInt (-1)"

definition shortCircuit :: "op_symbol \<Rightarrow> 'f val \<Rightarrow> 'f circuit" where
  "shortCircuit y l =
     (if \<not> isShortCircuitable y then RunRight
      else if y = AND then (if l = VBool False then Return (VBool False) else RunRight)
      else if y = OR then (if l = VBool True then Return (VBool True) else RunRight)
      else if y = COALESCE then (if l \<noteq> VNil then Return l else RunRight)
      else if y = TERNARY_TRUE then (if l = VBool False then SkipRight else RunRight)
      else (if l \<noteq> VNil then SkipRight else RunRight))"

definition applyStage ::
  "('f, 's) host \<Rightarrow> bool \<Rightarrow> ('f, 's) parameters \<Rightarrow> op_symbol \<Rightarrow> source_span \<Rightarrow> 'f stage_op
     \<Rightarrow> 'f val \<Rightarrow> 'f val \<Rightarrow> ('s, eval_error, 'f val) comp" where
  "applyStage h checksTypes params y sp op l r =
     (if checksTypes \<and> \<not> checksPass y l r
      then cret (Err (wrapEvaluationError ''type_check'' sp))
      else cwrap (wrapEvaluationError ''operator'' sp) (runOperator h op l r params))"

fun evaluateStage ::
  "('f, 's) host \<Rightarrow> bool \<Rightarrow> ('f, 's) parameters \<Rightarrow> 'f stage \<Rightarrow> ('s, eval_error, 'f val) comp" where
  "evaluateStage h checksTypes params (Stage y sp left right op) =
     cbind (case left of None \<Rightarrow> cret (Ok VNil) | Some a \<Rightarrow> evaluateStage h checksTypes params a) (\<lambda>l.
       case shortCircuit y l of
         Return v \<Rightarrow> cret (Ok v)
       | SkipRight \<Rightarrow> applyStage h checksTypes params y sp op l shortCircuitHolder
       | RunRight \<Rightarrow>
           cbind (case right of None \<Rightarrow> cret (Ok VNil)
                  | Some b \<Rightarrow> evaluateStage h checksTypes params b)
             (applyStage h checksTypes params y sp op l))"

subsection \<open>Elision of literals\<close>

text \<open>
  The operator of a stage run with no parameters, at planning time.  A stage that holds one of the
  caller's operations has no left side and is no literal, so \<open>elideStage\<close> never runs one
  (\<open>elide_wf_stage\<close>); the nil \<open>Parameters\<close> would panic.
\<close>

definition planOperator :: "('f, 's) host \<Rightarrow> 'f stage_op \<Rightarrow> 'f operator2" where
  "planOperator h op l r =
     (case op of
        OpLiteral v \<Rightarrow> Ok v
      | OpNoop \<Rightarrow> noopStageRight l r
      | OpSymbol y \<Rightarrow> (case stageSymbolMap h y of None \<Rightarrow> Panic | Some f \<Rightarrow> f l r)
      | _ \<Rightarrow> Panic)"

text \<open>\<open>if err != nil { return root }\<close>\<close>

definition orRoot :: "(unit, 'a) res \<Rightarrow> 'f stage \<Rightarrow> ('a \<Rightarrow> ('e, 'f stage) res) \<Rightarrow> ('e, 'f stage) res" where
  "orRoot m root k = (case m of Ok a \<Rightarrow> k a | Err e \<Rightarrow> Ok root | Panic \<Rightarrow> Panic | NoFuel \<Rightarrow> NoFuel)"

definition elideStage :: "('f, 's) host \<Rightarrow> 'f stage \<Rightarrow> ('e, 'f stage) res" where
  "elideStage h root =
     (case (st_left root, st_right root) of
        (Some l, Some r) \<Rightarrow>
          (if st_symbol r \<noteq> LITERAL \<or> st_symbol l \<noteq> LITERAL then Ok root
           else if st_symbol root = SEPARATE \<or> st_symbol root = IN then Ok root
           else orRoot (planOperator h (st_operator l) VNil VNil) root (\<lambda>leftValue.
             orRoot (planOperator h (st_operator r) VNil VNil) root (\<lambda>rightValue.
               let checks = findTypeChecks (st_symbol root) in
               if \<not> typeCheck (tc_left checks) leftValue then Ok root
               else if \<not> typeCheck (tc_right checks) rightValue then Ok root
               else if (case tc_combined checks of None \<Rightarrow> False | Some c \<Rightarrow> \<not> c leftValue rightValue)
               then Ok root
               else orRoot (planOperator h (st_operator root) leftValue rightValue) root (\<lambda>result.
                 Ok (Stage LITERAL (st_span root) None None (OpLiteral result))))))
      | _ \<Rightarrow> Ok root)"

fun elideLiterals :: "('f, 's) host \<Rightarrow> 'f stage \<Rightarrow> ('e, 'f stage) res" where
  "elideLiterals h (Stage y sp left right op) =
     rbind (case left of None \<Rightarrow> Ok None | Some a \<Rightarrow> rmap Some (elideLiterals h a)) (\<lambda>left'.
       rbind (case right of None \<Rightarrow> Ok None | Some b \<Rightarrow> rmap Some (elideLiterals h b)) (\<lambda>right'.
         elideStage h (Stage y sp left' right' op)))"

definition planStages ::
  "('f, 's) host \<Rightarrow> (int \<Rightarrow> 'f) \<Rightarrow> 'f token list \<Rightarrow> (parse_error, 'f stage) res" where
  "planStages h unix toks = rbind (parseStages unix toks) (elideLiterals h)"

subsection \<open>Expressions\<close>

record 'f expression =
  ex_ChecksTypes :: bool
  ex_tokens :: "'f token list"
  ex_evaluationStages :: "'f stage option"
  ex_inputExpression :: string

definition buildExpression ::
  "('f, 's) host \<Rightarrow> (int \<Rightarrow> 'f) \<Rightarrow> 'f token list \<Rightarrow> string \<Rightarrow> (parse_error, 'f expression) res" where
  "buildExpression h unix toks input =
     rbind (checkBalance toks) (\<lambda>_.
     rbind (checkExpressionSyntax toks) (\<lambda>_.
     rbind (optimizeTokens (reCompiles h) toks) (\<lambda>toks'.
     rbind (planStages h unix toks') (\<lambda>stages.
       Ok \<lparr>ex_ChecksTypes = True, ex_tokens = toks', ex_evaluationStages = Some stages,
           ex_inputExpression = input\<rparr>))))"

definition NewFromTokensWithExpression ::
  "('f, 's) host \<Rightarrow> (int \<Rightarrow> 'f) \<Rightarrow> 'f token list \<Rightarrow> string \<Rightarrow> (parse_error, 'f expression) res" where
  "NewFromTokensWithExpression h unix toks input = buildExpression h unix toks input"

definition NewFromTokens ::
  "('f, 's) host \<Rightarrow> (int \<Rightarrow> 'f) \<Rightarrow> 'f token list \<Rightarrow> (parse_error, 'f expression) res" where
  "NewFromTokens h unix toks = NewFromTokensWithExpression h unix toks []"

definition NewWithFunctions ::
  "('f, 's) host \<Rightarrow> 'f lexer_env \<Rightarrow> (int \<Rightarrow> 'f) \<Rightarrow> string \<Rightarrow> (parse_error, 'f expression) res" where
  "NewWithFunctions h env unix source =
     rbind (ParseTokens env source) (\<lambda>(toks, position, err).
       case err of
         Some e \<Rightarrow> Err e
       | None \<Rightarrow> buildExpression h unix toks source)"

definition New :: "('f, 's) host \<Rightarrow> 'f lexer_env \<Rightarrow> (int \<Rightarrow> 'f) \<Rightarrow> string \<Rightarrow> (parse_error, 'f expression) res" where
  "New h env unix source = NewWithFunctions h (env\<lparr>functionTable := \<lambda>_. False\<rparr>) unix source"

definition Eval ::
  "('f, 's) host \<Rightarrow> 'f expression \<Rightarrow> ('f, 's) parameters option \<Rightarrow> ('s, eval_error, 'f val) comp" where
  "Eval h ee params =
     (case ex_evaluationStages ee of
        None \<Rightarrow> cret (Ok VNil)
      | Some stage \<Rightarrow>
          (let p = (case params of Some q \<Rightarrow> sanitizedParameters_Get h q | None \<Rightarrow> DUMMY_PARAMETERS)
           in evaluateStage h (ex_ChecksTypes ee) p stage))"

definition Evaluate ::
  "('f, 's) host \<Rightarrow> 'f expression \<Rightarrow> (string \<Rightarrow> 'f val option) option \<Rightarrow> ('s, eval_error, 'f val) comp" where
  "Evaluate h ee params =
     (case params of
        None \<Rightarrow> Eval h ee None
      | Some m \<Rightarrow>
          cbind (Eval h ee (Some (MapParameters_Get m))) (\<lambda>v.
            cret (Ok (case v of VNull \<Rightarrow> VNil | _ \<Rightarrow> v))))"

fun varsOf :: "'f token list \<Rightarrow> ('e, string list) res" where
  "varsOf [] = Ok []"
| "varsOf (t # ts) =
     (if Kind t = VARIABLE
      then rbind (value_string (Value t)) (\<lambda>x. rmap (\<lambda>xs. x # xs) (varsOf ts))
      else varsOf ts)"

definition Vars :: "'f expression \<Rightarrow> ('e, string list) res" where
  "Vars ee = varsOf (ex_tokens ee)"

end
