(* ===== verification/ExprPrint.thy ===== *)
theory ExprPrint
  imports ExprPlan
begin

text \<open>
  The language the parser of \<open>stage.go\<close> is meant to accept.  An expression is a tree of type
  \<open>ast\<close>; \<open>print_ast\<close> writes it as tokens with parentheses only where the binding powers of
  \<open>operator_table.go\<close> need them, and \<open>stage_of\<close> is the tree of stages it stands for.  The parser
  reads every such text back to that tree: precedence and associativity are those of the table.
\<close>

subsection \<open>Abstract syntax and its text\<close>

datatype 'f lit = LNum 'f | LBool bool | LStr string | LPattern string

datatype 'f ast =
    AVar string
  | ALit "'f lit"
  | AUnit
  | APrefix op_symbol "'f ast"
  | ACall string "'f ast option"
  | AAccess "string list" "'f ast option"
  | ABin op_symbol "'f ast" "'f ast"
  | AIf "'f ast" "'f ast"
  | AIfElse "'f ast" "'f ast" "'f ast"

definition mk_token :: "token_kind \<Rightarrow> 'f tvalue \<Rightarrow> 'f token" where
  "mk_token k v = \<lparr>Kind = k, Value = v, Span = zeroSpan, Raw = []\<rparr>"

lemma mk_token_simps [simp]:
  "Kind (mk_token k v) = k" "Value (mk_token k v) = v" "Span (mk_token k v) = zeroSpan"
  by (simp_all add: mk_token_def)

definition open_tok :: "'f token" where "open_tok = mk_token CLAUSE (TVRune CHR ''('')"
definition close_tok :: "'f token" where "close_tok = mk_token CLAUSE_CLOSE (TVRune CHR '')'')"
definition question_tok :: "'f token" where "question_tok = mk_token TERNARY (TVStr ''?'')"
definition colon_tok :: "'f token" where "colon_tok = mk_token TERNARY (TVStr '':'')"

definition is_prefix :: "op_symbol \<Rightarrow> bool" where
  "is_prefix y = (y \<in> {NEGATE, INVERT, BITWISE_NOT})"

definition infix_kind :: "op_symbol \<Rightarrow> token_kind" where
  "infix_kind y =
     (if y \<in> {EQ, NEQ, GT, LT, GTE, LTE, REQ, NREQ, IN} then COMPARATOR
      else if y \<in> {AND, OR} then LOGICALOP
      else if y \<in> {TERNARY_TRUE, TERNARY_FALSE, COALESCE} then TERNARY
      else if y = SEPARATE then SEPARATOR
      else MODIFIER)"

definition infix_text :: "op_symbol \<Rightarrow> string" where
  "infix_text y = (if y = EQ then ''=='' else if y = SEPARATE then '','' else op_String y)"

definition infix_tok :: "op_symbol \<Rightarrow> 'f token" where
  "infix_tok y = mk_token (infix_kind y) (TVStr (infix_text y))"

definition prefix_tok :: "op_symbol \<Rightarrow> 'f token" where
  "prefix_tok y = mk_token PREFIX (TVStr (op_String y))"

fun lit_tok :: "'f lit \<Rightarrow> 'f token" where
  "lit_tok (LNum x) = mk_token NUMERIC (TVNum x)"
| "lit_tok (LBool b) = mk_token BOOLEAN (TVBool b)"
| "lit_tok (LStr s) = mk_token STRING (TVStr s)"
| "lit_tok (LPattern p) = mk_token PATTERN (TVPattern p)"

fun lit_value :: "'f lit \<Rightarrow> 'f val" where
  "lit_value (LNum x) = VNum x"
| "lit_value (LBool b) = VBool b"
| "lit_value (LStr s) = VStr s"
| "lit_value (LPattern p) = VRegexp p"

definition bp_l :: "op_symbol \<Rightarrow> nat" where
  "bp_l y = (case infixBindingPowerFor y of Some p \<Rightarrow> bp_left p | None \<Rightarrow> 0)"

definition bp_r :: "op_symbol \<Rightarrow> nat" where
  "bp_r y = (case infixBindingPowerFor y of Some p \<Rightarrow> bp_right p | None \<Rightarrow> 0)"

text \<open>The level of a left operand: one more than the operator's own where the operator is right-associative.\<close>

definition left_level :: "op_symbol \<Rightarrow> nat" where
  "left_level y = (if bp_r y \<le> bp_l y then Suc (bp_l y) else bp_l y)"

definition paren :: "bool \<Rightarrow> 'f token list \<Rightarrow> 'f token list" where
  "paren b ts = (if b then open_tok # ts @ [close_tok] else ts)"

fun print_ast :: "nat \<Rightarrow> 'f ast \<Rightarrow> 'f token list" where
  "print_ast q (AVar x) = [mk_token VARIABLE (TVStr x)]"
| "print_ast q (ALit v) = [lit_tok v]"
| "print_ast q AUnit = [open_tok, close_tok]"
| "print_ast q (APrefix y e) = prefix_tok y # print_ast 120 e"
| "print_ast q (ACall f None) = [mk_token FUNCTION (TVFunc f), open_tok, close_tok]"
| "print_ast q (ACall f (Some e)) =
     mk_token FUNCTION (TVFunc f) # open_tok # print_ast 0 e @ [close_tok]"
| "print_ast q (AAccess ps None) = [mk_token ACCESSOR (TVParts ps), open_tok, close_tok]"
| "print_ast q (AAccess ps (Some e)) =
     mk_token ACCESSOR (TVParts ps) # open_tok # print_ast 0 e @ [close_tok]"
| "print_ast q (ABin y a b) =
     paren (bp_l y < q) (print_ast (left_level y) a @ infix_tok y # print_ast (bp_r y) b)"
| "print_ast q (AIf c t) = paren True (print_ast 21 c @ question_tok # print_ast 0 t)"
| "print_ast q (AIfElse c t f) =
     paren (20 < q)
       (print_ast 21 c @ question_tok # print_ast 0 t @ colon_tok # print_ast 19 f)"

fun stage_of :: "'f ast \<Rightarrow> 'f stage" where
  "stage_of (AVar x) = Stage VALUE zeroSpan None None (OpParam x)"
| "stage_of (ALit v) = Stage LITERAL zeroSpan None None (OpLiteral (lit_value v))"
| "stage_of AUnit = Stage NOOP zeroSpan None None OpNoop"
| "stage_of (APrefix y e) = Stage y zeroSpan None (Some (stage_of e)) (OpSymbol y)"
| "stage_of (ACall f None) = Stage FUNCTIONAL zeroSpan None None (OpFunction f)"
| "stage_of (ACall f (Some e)) =
     Stage FUNCTIONAL zeroSpan None (Some (stage_of e)) (OpFunction f)"
| "stage_of (AAccess ps None) = Stage ACCESS zeroSpan None None (OpAccessor ps)"
| "stage_of (AAccess ps (Some e)) =
     Stage ACCESS zeroSpan None (Some (stage_of e)) (OpAccessor ps)"
| "stage_of (ABin y a b) =
     Stage y zeroSpan (Some (stage_of a)) (Some (stage_of b)) (OpSymbol y)"
| "stage_of (AIf c t) =
     Stage TERNARY_TRUE zeroSpan (Some (stage_of c)) (Some (stage_of t)) (OpSymbol TERNARY_TRUE)"
| "stage_of (AIfElse c t f) =
     Stage TERNARY_FALSE zeroSpan
       (Some (Stage TERNARY_TRUE zeroSpan (Some (stage_of c)) (Some (stage_of t))
                (OpSymbol TERNARY_TRUE)))
       (Some (stage_of f)) (OpSymbol TERNARY_FALSE)"

text \<open>Prefix operators are prefix symbols, infix operators infix symbols other than the ternary's.\<close>

fun wf_ast :: "'f ast \<Rightarrow> bool" where
  "wf_ast (APrefix y e) = (is_prefix y \<and> wf_ast e)"
| "wf_ast (ACall f (Some e)) = wf_ast e"
| "wf_ast (AAccess ps (Some e)) = wf_ast e"
| "wf_ast (ABin y a b) =
     (infixBindingPowerFor y \<noteq> None \<and> y \<noteq> TERNARY_TRUE \<and> wf_ast a \<and> wf_ast b)"
| "wf_ast (AIf c t) = (wf_ast c \<and> wf_ast t)"
| "wf_ast (AIfElse c t f) = (wf_ast c \<and> wf_ast t \<and> wf_ast f)"
| "wf_ast _ = True"

subsection \<open>The tokens of operators\<close>

lemma infixBindingPowerFor_bp:
  "infixBindingPowerFor y \<noteq> None \<Longrightarrow>
     infixBindingPowerFor y = Some \<lparr>bp_left = bp_l y, bp_right = bp_r y\<rparr>"
  by (auto simp: bp_l_def bp_r_def)

lemma infix_tok_operator:
  assumes "infixBindingPowerFor y \<noteq> None"
  shows "infixOperatorForToken (infix_tok y) = Ok (Some y)" "Kind (infix_tok y) \<noteq> CLAUSE_CLOSE"
  using assms
  by (cases y; simp add: infixOperatorForToken_def infix_tok_def infix_kind_def infix_text_def
      symbol_tables)+

lemma question_tok_operator [simp]:
  "infixOperatorForToken question_tok = Ok (Some TERNARY_TRUE)"
  "Kind question_tok = TERNARY"
  by (simp_all add: question_tok_def infixOperatorForToken_def symbol_tables)

lemma colon_tok_operator [simp]:
  "infixOperatorForToken colon_tok = Ok (Some TERNARY_FALSE)"
  "Kind colon_tok = TERNARY" "Value colon_tok = TVStr '':''"
  by (simp_all add: colon_tok_def infixOperatorForToken_def symbol_tables)

lemma paren_toks [simp]:
  "Kind open_tok = CLAUSE" "Kind close_tok = CLAUSE_CLOSE"
  "Span open_tok = zeroSpan" "Span close_tok = zeroSpan"
  by (simp_all add: open_tok_def close_tok_def)

lemma prefix_tok_symbol:
  "is_prefix y \<Longrightarrow> prefixSymbols (op_String y) = Some y"
  by (auto simp: is_prefix_def prefixSymbols_def)

lemma stage_of_span [simp]: "st_span (stage_of e) = zeroSpan"
  by (cases e rule: stage_of.cases) auto

lemma with_span_stage_of [simp]: "with_span zeroSpan (stage_of e) = stage_of e"
  using stage_of_span [of e] by (cases "stage_of e") (auto simp: with_span_def)

subsection \<open>Parsing as a relation\<close>

text \<open>The parser's runs with some fuel, closed under the rules of its text.\<close>

definition parses :: "(int \<Rightarrow> 'f) \<Rightarrow> 'f token list \<Rightarrow> nat \<Rightarrow> 'f stage \<Rightarrow> 'f token list \<Rightarrow> bool" where
  "parses unix ts bp s ts' = (\<exists>n. parseExpression unix n ts bp = Ok (s, ts'))"

definition parses_prefix :: "(int \<Rightarrow> 'f) \<Rightarrow> 'f token list \<Rightarrow> 'f stage \<Rightarrow> 'f token list \<Rightarrow> bool" where
  "parses_prefix unix ts s ts' = (\<exists>n. parsePrefix unix (parseExpression unix n) ts = Ok (s, ts'))"

definition loops :: "(int \<Rightarrow> 'f) \<Rightarrow> 'f stage \<Rightarrow> 'f token list \<Rightarrow> nat \<Rightarrow> 'f stage \<Rightarrow> 'f token list \<Rightarrow> bool" where
  "loops unix l ts bp s ts' = (\<exists>n k. parseLoop (parseExpression unix n) k l ts bp = Ok (s, ts'))"

lemma fuel_le_Ok: "fuel_le m m' \<Longrightarrow> m = Ok x \<Longrightarrow> m' = Ok x"
  by (simp add: fuel_le_def)

lemma loops_more:
  assumes "parseLoop (parseExpression unix n) k l ts bp = Ok r" "n \<le> n'" "k \<le> k'"
  shows "parseLoop (parseExpression unix n') k' l ts bp = Ok r"
  using parseLoop_extends [OF parseExpression_extends [OF assms(2)] assms(3)] assms(1)
  by (rule fuel_le_Ok)

lemma parses_prefix_more:
  assumes "parsePrefix unix (parseExpression unix n) ts = Ok r" "n \<le> n'"
  shows "parsePrefix unix (parseExpression unix n') ts = Ok r"
  using parsePrefix_extends [OF parseExpression_extends [OF assms(2)]] assms(1)
  by (rule fuel_le_Ok)

lemma parses_more:
  assumes "parseExpression unix n ts bp = Ok r" "n \<le> n'"
  shows "parseExpression unix n' ts bp = Ok r"
  using extendsD [OF parseExpression_extends [OF assms(2)]] assms(1)
  by (rule fuel_le_Ok)

lemma parsesI:
  assumes "parses_prefix unix ts l ts1" "loops unix l ts1 bp s ts'"
  shows "parses unix ts bp s ts'"
proof -
  from assms obtain n m k where
    p: "parsePrefix unix (parseExpression unix n) ts = Ok (l, ts1)"
    and q: "parseLoop (parseExpression unix m) k l ts1 bp = Ok (s, ts')"
    by (auto simp: parses_prefix_def loops_def)
  let ?n = "max n (max m k)"
  have "parseExpression unix (Suc ?n) ts bp = Ok (s, ts')"
    using parses_prefix_more [OF p, of ?n] loops_more [OF q, of ?n "Suc ?n"]
    by (simp del: parseLoop.simps)
  then show ?thesis by (auto simp: parses_def simp del: parseExpression.simps)
qed

lemma loops_stop: "loop_stops ts bp \<Longrightarrow> loops unix l ts bp l ts"
  using parseLoop_stop [of ts bp _ 0 l] unfolding loops_def by blast

lemma loops_infix:
  assumes y: "infixBindingPowerFor y \<noteq> None" "y \<noteq> TERNARY_TRUE" "bp \<le> bp_l y"
    and r: "parses unix ts (bp_r y) r ts1"
    and l: "loops unix (makeInfixStage y l r) ts1 bp s ts'"
  shows "loops unix l (infix_tok y # ts) bp s ts'"
proof -
  from r l obtain n m k where p: "parseExpression unix n ts (bp_r y) = Ok (r, ts1)"
    and q: "parseLoop (parseExpression unix m) k (makeInfixStage y l r) ts1 bp = Ok (s, ts')"
    by (auto simp: parses_def loops_def)
  let ?n = "max n m"
  have "parseLoop (parseExpression unix ?n) (Suc k) l (infix_tok y # ts) bp = Ok (s, ts')"
    using parses_more [OF p, of ?n] loops_more [OF q, of ?n k] y(2,3)
    by (simp add: infix_tok_operator [OF y(1)] infixBindingPowerFor_bp [OF y(1)])
  then show ?thesis unfolding loops_def by blast
qed

lemma loops_ternary:
  assumes bp: "bp \<le> 20"
    and t: "parses unix ts 0 t (colon_tok # ts1)" and f: "parses unix ts1 19 f ts2"
    and l: "loops unix (ternaryFalseStage c (ternaryTrueStage c t) f) ts2 bp s ts'"
  shows "loops unix c (question_tok # ts) bp s ts'"
proof -
  from t f l obtain n m j k where p: "parseExpression unix n ts 0 = Ok (t, colon_tok # ts1)"
    and q: "parseExpression unix m ts1 19 = Ok (f, ts2)"
    and r: "parseLoop (parseExpression unix j) k (ternaryFalseStage c (ternaryTrueStage c t) f) ts2 bp
        = Ok (s, ts')"
    by (auto simp: parses_def loops_def)
  let ?n = "max n (max m j)"
  have "parseTernary (parseExpression unix ?n) ts c
      = Ok (ternaryFalseStage c (ternaryTrueStage c t) f, ts2)"
    using parses_more [OF p, of ?n] parses_more [OF q, of ?n]
    by (simp add: parseTernary_def at_kind_def)
  then have "parseLoop (parseExpression unix ?n) (Suc k) c (question_tok # ts) bp = Ok (s, ts')"
    using loops_more [OF r, of ?n k] bp by simp
  then show ?thesis unfolding loops_def by blast
qed

lemma loops_ternary_open:
  assumes bp: "bp \<le> 20"
    and t: "parses unix ts 0 t (close_tok # ts1)"
    and l: "loops unix (ternaryTrueStage c t) (close_tok # ts1) bp s ts'"
  shows "loops unix c (question_tok # ts) bp s ts'"
proof -
  from t l obtain n j k where p: "parseExpression unix n ts 0 = Ok (t, close_tok # ts1)"
    and r: "parseLoop (parseExpression unix j) k (ternaryTrueStage c t) (close_tok # ts1) bp
        = Ok (s, ts')"
    by (auto simp: parses_def loops_def)
  let ?n = "max n j"
  have "parseTernary (parseExpression unix ?n) ts c = Ok (ternaryTrueStage c t, close_tok # ts1)"
    using parses_more [OF p, of ?n] by (simp add: parseTernary_def at_kind_def)
  then have "parseLoop (parseExpression unix ?n) (Suc k) c (question_tok # ts) bp = Ok (s, ts')"
    using loops_more [OF r, of ?n k] bp by simp
  then show ?thesis unfolding loops_def by blast
qed

subsection \<open>The levels of the binding powers\<close>

lemma right_power:
  assumes "infixBindingPowerFor y \<noteq> None"
  shows "bp_r y = (if bp_l y = 20 \<or> bp_l y = 30 then bp_l y - 1 else if bp_l y = 110 then 110 else Suc (bp_l y))"
    "\<exists>k. bp_l y = 10 * k \<and> 1 \<le> k \<and> k \<le> 11"
proof -
  show "bp_r y = (if bp_l y = 20 \<or> bp_l y = 30 then bp_l y - 1 else if bp_l y = 110 then 110 else Suc (bp_l y))"
    using assms by (cases y) (simp_all add: bp_l_def bp_r_def)
  show "\<exists>k. bp_l y = 10 * k \<and> 1 \<le> k \<and> k \<le> 11"
    using binding_power_levels(1-3) [OF infixBindingPowerFor_bp [OF assms]]
    by (intro exI [of _ "bp_l y div 10"]) auto
qed

lemma right_power_mono:
  assumes "infixBindingPowerFor y \<noteq> None" "infixBindingPowerFor z \<noteq> None" "bp_r y \<le> bp_l z"
  shows "bp_r y \<le> bp_r z"
proof -
  obtain k j where kj: "bp_l y = 10 * k" "bp_l z = 10 * j" "1 \<le> j" "1 \<le> k"
    using right_power(2) [OF assms(1)] right_power(2) [OF assms(2)] by blast
  have near: "bp_l z \<le> Suc (bp_r z)" using right_power(1) [OF assms(2)] by (auto split: if_splits)
  have near': "bp_r y \<le> Suc (bp_l y)" "bp_l y \<le> Suc (bp_r y)"
    using right_power(1) [OF assms(1)] by (auto split: if_splits)
  show ?thesis
  proof (cases "k < j")
    case True
    with kj near near' show ?thesis by simp
  next
    case False
    with assms(3) kj near' have "bp_l y = bp_l z" by simp
    then have "bp_r y = bp_r z"
      by (simp only: right_power(1) [OF assms(1)] right_power(1) [OF assms(2)])
    then show ?thesis by simp
  qed
qed

lemma left_level_stops:
  assumes "infixBindingPowerFor y \<noteq> None" "infixBindingPowerFor z \<noteq> None" "left_level y \<le> bp_l z"
  shows "bp_l y < bp_r z"
proof -
  obtain k j where kj: "bp_l y = 10 * k" "bp_l z = 10 * j"
    using right_power(2) [OF assms(1)] right_power(2) [OF assms(2)] by blast
  have near: "bp_l z \<le> Suc (bp_r z)" using right_power(1) [OF assms(2)] by (auto split: if_splits)
  show ?thesis
  proof (cases "k < j")
    case True
    with kj near show ?thesis by simp
  next
    case False
    with assms(3) kj have "bp_l y = bp_l z" "bp_l y < bp_r y"
      by (auto simp: left_level_def split: if_splits)
    moreover from this have "bp_r y = bp_r z"
      by (simp only: right_power(1) [OF assms(1)] right_power(1) [OF assms(2)])
    ultimately show ?thesis by simp
  qed
qed

lemma loop_stops_simps [simp]:
  "loop_stops [] bp" "loop_stops (close_tok # ts) bp" "loop_stops (colon_tok # ts) bp"
  by (simp_all add: loop_stops_def)

lemma loop_stops_infix:
  "infixBindingPowerFor y \<noteq> None \<Longrightarrow> loop_stops (infix_tok y # ts) bp = (bp_l y < bp)"
  by (simp add: loop_stops_def infix_tok_operator infixBindingPowerFor_bp)

lemma loop_stops_question [simp]: "loop_stops (question_tok # ts) bp = (20 < bp)"
  by (simp add: loop_stops_def)

lemma loop_stops_mono: "loop_stops ts bp \<Longrightarrow> bp \<le> bp' \<Longrightarrow> loop_stops ts bp'"
  by (auto simp: loop_stops_def split: list.splits res.splits option.splits)

text \<open>
  What may follow a text of level \<open>q\<close>: a token that ends the right operand of every operator such a
  text may end with.
\<close>

definition safe :: "nat \<Rightarrow> 'f token list \<Rightarrow> bool" where
  "safe q ts = (loop_stops ts 120 \<and>
     (\<forall>y. infixBindingPowerFor y \<noteq> None \<longrightarrow> q \<le> bp_l y \<longrightarrow> loop_stops ts (bp_r y)))"

lemma safe_simps [simp]: "safe q []" "safe q (close_tok # ts)" "safe q (colon_tok # ts)"
  by (simp_all add: safe_def)

lemma safe_120: "safe q ts \<Longrightarrow> safe 120 ts"
  using right_power(2) by (fastforce simp: safe_def)

lemma safe_right:
  assumes "safe q ts" "infixBindingPowerFor y \<noteq> None" "q \<le> bp_l y"
  shows "safe (bp_r y) ts" "loop_stops ts (bp_r y)"
  using assms right_power_mono [OF assms(2)] by (auto simp: safe_def intro: loop_stops_mono)

lemma safe_infix:
  assumes "infixBindingPowerFor y \<noteq> None"
  shows "safe (left_level y) (infix_tok y # ts)"
  using assms left_level_stops [OF assms] right_power(2) [OF assms]
  by (auto simp: safe_def loop_stops_infix)

lemma safe_question: "safe 21 (question_tok # ts)"
  using left_level_stops [of TERNARY_TRUE]
  by (simp add: safe_def left_level_def bp_l_def bp_r_def)

lemma ternary_powers: "bp_l TERNARY_TRUE = 20" "bp_r TERNARY_TRUE = 19"
  by (simp_all add: bp_l_def bp_r_def)

subsection \<open>The parser reads the text back\<close>

lemma parses_prefix_clause:
  assumes "parses unix (ts @ close_tok # rest) 0 s (close_tok # rest)"
    "\<not> at_kind CLAUSE_CLOSE (ts @ close_tok # rest)" "st_span s = zeroSpan"
  shows "parses_prefix unix (open_tok # ts @ close_tok # rest) s rest"
proof -
  from assms(1) obtain n where
    "parseExpression unix n (ts @ close_tok # rest) 0 = Ok (s, close_tok # rest)"
    by (auto simp: parses_def)
  moreover have "with_span zeroSpan s = s" using assms(3) by (cases s) (simp add: with_span_def)
  moreover have "at_kind CLAUSE_CLOSE (close_tok # rest)" by (simp add: at_kind_def)
  ultimately have "parsePrefix unix (parseExpression unix n) (open_tok # ts @ close_tok # rest) = Ok (s, rest)"
    using assms(2) by (simp add: parsePrefix_def parseClause_def)
  then show ?thesis by (auto simp: parses_prefix_def)
qed

lemma parses_prefix_single:
  assumes "\<And>pe. parsePrefix unix pe ts = Ok (s, ts')"
  shows "parses_prefix unix ts s ts'"
  using assms by (simp add: parses_prefix_def)

lemma parses_prefix_operator:
  assumes "is_prefix y" "parses unix ts 120 r ts'" "st_span r = zeroSpan"
  shows "parses_prefix unix (prefix_tok y # ts) (Stage y zeroSpan None (Some r) (OpSymbol y)) ts'"
proof -
  from assms(2) obtain n where "parseExpression unix n ts 120 = Ok (r, ts')"
    by (auto simp: parses_def)
  then have "parsePrefix unix (parseExpression unix n) (prefix_tok y # ts)
      = Ok (Stage y zeroSpan None (Some r) (OpSymbol y), ts')"
    using assms(1,3) by (simp add: parsePrefix_def parsePrefixOperator_def prefix_tok_def prefix_tok_symbol)
  then show ?thesis by (auto simp: parses_prefix_def)
qed

lemma parses_call_arguments:
  assumes "parses unix (ts @ close_tok # rest) 0 s (close_tok # rest)"
    "\<not> at_kind CLAUSE_CLOSE (ts @ close_tok # rest)" "Span t = zeroSpan"
  shows "\<exists>n. parseCallArguments (parseExpression unix n) (open_tok # ts @ close_tok # rest) t
    = Ok ((Some s, zeroSpan), rest)"
proof -
  from assms(1) obtain n where
    "parseExpression unix n (ts @ close_tok # rest) 0 = Ok (s, close_tok # rest)"
    by (auto simp: parses_def)
  moreover have "at_kind CLAUSE_CLOSE (close_tok # rest)" "at_kind CLAUSE (open_tok # ts @ close_tok # rest)"
    by (simp_all add: at_kind_def)
  ultimately show ?thesis
    using assms(2,3) by (intro exI [of _ n]) (simp add: parseCallArguments_def)
qed

text \<open>A tree whose text, at any level, the parser reads and goes on after.\<close>

definition readable :: "(int \<Rightarrow> 'f) \<Rightarrow> 'f ast \<Rightarrow> bool" where
  "readable unix e = (\<forall>q p rest s ts'. p \<le> q \<longrightarrow> safe q rest \<longrightarrow>
     loops unix (stage_of e) rest p s ts' \<longrightarrow> parses unix (print_ast q e @ rest) p s ts')"

lemma readableI:
  assumes "\<And>q p rest s ts'. \<lbrakk>p \<le> q; safe q rest; loops unix (stage_of e) rest p s ts'\<rbrakk>
    \<Longrightarrow> parses unix (print_ast q e @ rest) p s ts'"
  shows "readable unix e"
  using assms by (simp add: readable_def)

lemma readableD:
  "\<lbrakk>readable unix e; p \<le> q; safe q rest; loops unix (stage_of e) rest p s ts'\<rbrakk>
     \<Longrightarrow> parses unix (print_ast q e @ rest) p s ts'"
  by (simp add: readable_def)

lemma readable_exact:
  "\<lbrakk>readable unix e; safe q rest; loop_stops rest q\<rbrakk>
     \<Longrightarrow> parses unix (print_ast q e @ rest) q (stage_of e) rest"
  by (rule readableD) (auto intro: loops_stop)

lemma not_close [simp]: "\<not> at_kind CLAUSE_CLOSE (print_ast q e @ ts)"
proof (induction e arbitrary: q ts)
  case (ALit v)
  then show ?case by (cases v) (simp_all add: at_kind_def)
next
  case (ACall f a)
  then show ?case by (cases a) (simp_all add: at_kind_def)
next
  case (AAccess f a)
  then show ?case by (cases a) (simp_all add: at_kind_def)
qed (simp_all add: at_kind_def paren_def prefix_tok_def)

text \<open>Where parentheses may stand round a tree's text: it suffices that the text without them is read.\<close>

lemma readable_paren:
  assumes shape: "\<And>q. print_ast q e = paren (lim < q) txt"
    and read: "\<And>q p rest s ts'. \<lbrakk>p \<le> q; q \<le> lim; safe q rest; loops unix (stage_of e) rest p s ts'\<rbrakk>
      \<Longrightarrow> parses unix (txt @ rest) p s ts'"
  shows "readable unix e"
proof (rule readableI)
  fix q p rest s ts'
  assume p: "p \<le> q" and sf: "safe q rest" and l: "loops unix (stage_of e) rest p s ts'"
  show "parses unix (print_ast q e @ rest) p s ts'"
  proof (cases "lim < q")
    case False
    with read [OF p _ sf l] show ?thesis by (simp add: shape paren_def)
  next
    case True
    have "txt = print_ast 0 e" by (simp add: shape paren_def)
    then have "\<not> at_kind CLAUSE_CLOSE (txt @ close_tok # rest)" by simp
    moreover have "parses unix (txt @ close_tok # rest) 0 (stage_of e) (close_tok # rest)"
      by (rule read [of 0 0]) (simp_all add: loops_stop)
    ultimately have "parses_prefix unix (open_tok # txt @ close_tok # rest) (stage_of e) rest"
      by (intro parses_prefix_clause) simp_all
    with l True show ?thesis by (auto simp: shape paren_def intro: parsesI)
  qed
qed

lemma readable_binary:
  assumes y: "infixBindingPowerFor y \<noteq> None" "y \<noteq> TERNARY_TRUE"
    and a: "readable unix a" and b: "readable unix b"
  shows "readable unix (ABin y a b)"
proof (rule readable_paren)
  show "print_ast q (ABin y a b)
      = paren (bp_l y < q) (print_ast (left_level y) a @ infix_tok y # print_ast (bp_r y) b)" for q
    by simp
next
  fix q p rest s ts'
  assume p: "p \<le> q" and q: "q \<le> bp_l y" and sf: "safe q rest"
    and l: "loops unix (stage_of (ABin y a b)) rest p s ts'"
  have "parses unix (print_ast (bp_r y) b @ rest) (bp_r y) (stage_of b) rest"
    using b safe_right [OF sf y(1) q] by (rule readable_exact)
  with l p q have "loops unix (stage_of a) (infix_tok y # print_ast (bp_r y) b @ rest) p s ts'"
    by (intro loops_infix [OF y, where r = "stage_of b"]) (simp_all add: makeInfixStage_def)
  then have "parses unix (print_ast (left_level y) a @ infix_tok y # print_ast (bp_r y) b @ rest) p s ts'"
    using p q by (intro readableD [OF a] safe_infix y(1)) (simp_all add: left_level_def)
  then show "parses unix ((print_ast (left_level y) a @ infix_tok y # print_ast (bp_r y) b) @ rest) p s ts'"
    by simp
qed

lemma readable_if_else:
  assumes c: "readable unix c" and t: "readable unix t" and f: "readable unix f"
  shows "readable unix (AIfElse c t f)"
proof (rule readable_paren)
  show "print_ast q (AIfElse c t f) = paren (20 < q)
      (print_ast 21 c @ question_tok # print_ast 0 t @ colon_tok # print_ast 19 f)" for q
    by simp
next
  fix q p rest s ts'
  assume p: "p \<le> q" and q: "q \<le> 20" and sf: "safe q rest"
    and l: "loops unix (stage_of (AIfElse c t f)) rest p s ts'"
  have "parses unix (print_ast 19 f @ rest) 19 (stage_of f) rest"
    using f safe_right [OF sf, of TERNARY_TRUE] q by (intro readable_exact) (simp_all add: ternary_powers)
  moreover have "parses unix (print_ast 0 t @ colon_tok # print_ast 19 f @ rest) 0 (stage_of t)
      (colon_tok # print_ast 19 f @ rest)"
    by (rule readable_exact [OF t]) simp_all
  ultimately have "loops unix (stage_of c)
      (question_tok # print_ast 0 t @ colon_tok # print_ast 19 f @ rest) p s ts'"
    using l p q by (intro loops_ternary [where t = "stage_of t" and f = "stage_of f"]) (simp_all add: ternaryTrueStage_def ternaryFalseStage_def)
  then have "parses unix
      (print_ast 21 c @ question_tok # print_ast 0 t @ colon_tok # print_ast 19 f @ rest) p s ts'"
    using p q by (intro readableD [OF c] safe_question) simp_all
  then show "parses unix
      ((print_ast 21 c @ question_tok # print_ast 0 t @ colon_tok # print_ast 19 f) @ rest) p s ts'"
    by simp
qed

lemma readable_if:
  assumes c: "readable unix c" and t: "readable unix t"
  shows "readable unix (AIf c t)"
proof (rule readableI)
  fix q p rest s ts'
  assume l: "loops unix (stage_of (AIf c t)) rest p s ts'"
  let ?txt = "print_ast 21 c @ question_tok # print_ast 0 t"
  have "parses unix (print_ast 0 t @ close_tok # rest) 0 (stage_of t) (close_tok # rest)"
    by (rule readable_exact [OF t]) simp_all
  then have "loops unix (stage_of c) (question_tok # print_ast 0 t @ close_tok # rest) 0
      (stage_of (AIf c t)) (close_tok # rest)"
    by (intro loops_ternary_open [where t = "stage_of t" and ?ts1.0 = rest]) (simp_all add: ternaryTrueStage_def loops_stop)
  then have "parses unix (?txt @ close_tok # rest) 0 (stage_of (AIf c t)) (close_tok # rest)"
    using readableD [OF c, of 0 21 "question_tok # print_ast 0 t @ close_tok # rest"]
    by (simp add: safe_question)
  moreover have "\<not> at_kind CLAUSE_CLOSE (?txt @ close_tok # rest)"
    using not_close [of 21 c "question_tok # print_ast 0 t @ close_tok # rest"] by simp
  ultimately have "parses_prefix unix (open_tok # ?txt @ close_tok # rest) (stage_of (AIf c t)) rest"
    by (intro parses_prefix_clause) simp_all
  from parsesI [OF this l] show "parses unix (print_ast q (AIf c t) @ rest) p s ts'"
    by (simp add: paren_def)
qed

lemma readable_prefix:
  assumes y: "is_prefix y" and e: "readable unix e"
  shows "readable unix (APrefix y e)"
proof (rule readableI)
  fix q p rest s ts'
  assume sf: "safe q rest" and l: "loops unix (stage_of (APrefix y e)) rest p s ts'"
  from sf have "loop_stops rest 120" by (simp add: safe_def)
  with e safe_120 [OF sf] have "parses unix (print_ast 120 e @ rest) 120 (stage_of e) rest"
    by (rule readable_exact)
  then have "parses_prefix unix (prefix_tok y # print_ast 120 e @ rest) (stage_of (APrefix y e)) rest"
    using parses_prefix_operator [OF y, of unix _ "stage_of e"] by simp
  from parsesI [OF this l] show "parses unix (print_ast q (APrefix y e) @ rest) p s ts'" by simp
qed

text \<open>A function's or an accessor's arguments.\<close>

lemma parsePrefix_FUNCTION:
  "parsePrefix unix pe (mk_token FUNCTION (TVFunc f) # ts) =
     rbind (parseCallArguments pe ts (mk_token FUNCTION (TVFunc f))) (\<lambda>((args, span), ts').
       Ok (Stage FUNCTIONAL span None args (OpFunction f), ts'))"
  by (simp add: parsePrefix_def)

lemma parsePrefix_ACCESSOR:
  "parsePrefix unix pe (mk_token ACCESSOR (TVParts ps) # ts) =
     rbind (parseCallArguments pe ts (mk_token ACCESSOR (TVParts ps))) (\<lambda>((args, span), ts').
       Ok (Stage ACCESS span None args (OpAccessor ps), ts'))"
  by (simp add: parsePrefix_def parseOptionalCallArguments_eq)

lemma readable_call:
  assumes tok: "\<And>pe ts. parsePrefix unix pe (tok # ts) =
      rbind (parseCallArguments pe ts tok) (\<lambda>((args, span), ts').
        Ok (Stage symbol span None args op', ts'))" "Span tok = zeroSpan"
    and shape: "\<And>q. print_ast q e = tok # open_tok # (case arg of None \<Rightarrow> [] | Some a \<Rightarrow> print_ast 0 a) @ [close_tok]"
    and stg: "stage_of e = Stage symbol zeroSpan None (map_option stage_of arg) op'"
    and arg: "\<And>a. arg = Some a \<Longrightarrow> readable unix a"
  shows "readable unix e"
proof (rule readableI)
  fix q p rest s ts'
  assume l: "loops unix (stage_of e) rest p s ts'"
  let ?a = "case arg of None \<Rightarrow> [] | Some a \<Rightarrow> print_ast 0 a"
  have "\<exists>n. parseCallArguments (parseExpression unix n) (open_tok # ?a @ close_tok # rest) tok
      = Ok ((map_option stage_of arg, zeroSpan), rest)"
  proof (cases arg)
    case None
    with tok(2) show ?thesis by (simp add: parseCallArguments_def at_kind_def)
  next
    case (Some a)
    have "parses unix (print_ast 0 a @ close_tok # rest) 0 (stage_of a) (close_tok # rest)"
      by (rule readable_exact [OF arg [OF Some]]) simp_all
    with Some parses_call_arguments [of unix "print_ast 0 a" rest "stage_of a" tok] tok(2)
    show ?thesis by simp
  qed
  then obtain n where "parseCallArguments (parseExpression unix n) (open_tok # ?a @ close_tok # rest) tok
      = Ok ((map_option stage_of arg, zeroSpan), rest)" ..
  then have "parsePrefix unix (parseExpression unix n) (tok # open_tok # ?a @ close_tok # rest)
      = Ok (stage_of e, rest)"
    unfolding tok(1) stg by simp
  then have "parses_prefix unix (tok # open_tok # ?a @ close_tok # rest) (stage_of e) rest"
    unfolding parses_prefix_def ..
  from parsesI [OF this l] show "parses unix (print_ast q e @ rest) p s ts'" by (simp add: shape)
qed

lemma readable_atom:
  assumes "\<And>pe ts. parsePrefix unix pe (tok # ts) = Ok (stage_of e, ts)" "\<And>q. print_ast q e = [tok]"
  shows "readable unix e"
  by (rule readableI) (use assms in \<open>auto intro!: parsesI parses_prefix_single\<close>)

lemma readable_unit: "readable unix AUnit"
proof (rule readableI)
  fix q p rest s ts'
  assume l: "loops unix (stage_of AUnit) rest p s ts'"
  have "parses_prefix unix (open_tok # close_tok # rest) (stage_of AUnit) rest"
    by (rule parses_prefix_single) (simp add: parsePrefix_def parseClause_def at_kind_def)
  from parsesI [OF this l] show "parses unix (print_ast q AUnit @ rest) p s ts'" by simp
qed

lemma readable_function:
  assumes "\<And>a. arg = Some a \<Longrightarrow> readable unix a"
  shows "readable unix (ACall f arg)"
proof (rule readable_call [OF parsePrefix_FUNCTION])
  show "print_ast q (ACall f arg) = mk_token FUNCTION (TVFunc f) # open_tok #
      (case arg of None \<Rightarrow> [] | Some a \<Rightarrow> print_ast 0 a) @ [close_tok]" for q
    by (cases arg) simp_all
  show "stage_of (ACall f arg) = Stage FUNCTIONAL zeroSpan None (map_option stage_of arg) (OpFunction f)"
    by (cases arg) simp_all
qed (simp_all add: assms)

lemma readable_access:
  assumes "\<And>a. arg = Some a \<Longrightarrow> readable unix a"
  shows "readable unix (AAccess ps arg)"
proof (rule readable_call [OF parsePrefix_ACCESSOR])
  show "print_ast q (AAccess ps arg) = mk_token ACCESSOR (TVParts ps) # open_tok #
      (case arg of None \<Rightarrow> [] | Some a \<Rightarrow> print_ast 0 a) @ [close_tok]" for q
    by (cases arg) simp_all
  show "stage_of (AAccess ps arg) = Stage ACCESS zeroSpan None (map_option stage_of arg) (OpAccessor ps)"
    by (cases arg) simp_all
qed (simp_all add: assms)

lemma wf_ast_call:
  "wf_ast (ACall f arg) \<Longrightarrow> arg = Some a \<Longrightarrow> wf_ast a"
  "wf_ast (AAccess ps arg) \<Longrightarrow> arg = Some a \<Longrightarrow> wf_ast a"
  by simp_all

lemma wf_ast_readable: "wf_ast e \<Longrightarrow> readable unix e"
proof (induction e)
  case (AVar x)
  show ?case
    by (rule readable_atom [where tok = "mk_token VARIABLE (TVStr x)"]) (simp_all add: parsePrefix_def)
next
  case (ALit v)
  show ?case by (rule readable_atom [where tok = "lit_tok v"]) (cases v; simp add: parsePrefix_def)+
next
  case (ACall f arg)
  then show ?case by (intro readable_function) (auto dest: wf_ast_call)
next
  case (AAccess ps arg)
  then show ?case by (intro readable_access) (auto dest: wf_ast_call)
qed (simp_all add: readable_unit readable_prefix readable_binary readable_if readable_if_else)

lemma parseStages_readable:
  assumes "readable unix e"
  shows "parseStages unix (print_ast 0 e) = Ok (stage_of e)"
proof -
  have "parses unix (print_ast 0 e) 0 (stage_of e) []"
    using readable_exact [OF assms, of 0 "[]"] by simp
  then obtain n where "parseExpression unix n (print_ast 0 e) 0 = Ok (stage_of e, [])"
    by (auto simp: parses_def)
  then have "parseExpression unix (Suc (length (print_ast 0 e))) (print_ast 0 e) 0 = Ok (stage_of e, [])"
    by (rule parseExpression_fuel) simp
  then show ?thesis
    by (simp add: parseStages_def newTokenStream_def del: parseExpression.simps)
qed

text \<open>C1: the parser inverts the printer: a well-formed expression, printed with parentheses only where
  the binding powers of \<open>operator_table.go\<close> ask for them, is parsed back to exactly its own tree, so
  precedence, left and right associativity, prefix operators, calls and nested ternaries are read as
  the table says.\<close>

theorem parse_print:
  assumes "wf_ast e"
  shows "parseStages unix (print_ast 0 e) = Ok (stage_of e)"
  by (rule parseStages_readable [OF wf_ast_readable [OF assms]])

definition sample_ast :: "nat ast" where
  "sample_ast = AIfElse (ABin GT (AVar ''x'') (ALit (LNum 1)))
     (ABin MINUS (ABin MINUS (ALit (LNum 9)) (ALit (LNum 2))) (APrefix NEGATE (AVar ''y'')))
     (ACall ''f'' (Some (ABin SEPARATE (AVar ''a'')
        (ABin MULTIPLY (ABin PLUS (AVar ''b'') (ALit (LNum 3)))
          (ABin EXPONENT (ALit (LNum 2)) (ABin EXPONENT (ALit (LNum 3)) (AVar ''c'')))))))"

lemma parse_print_witness:
  "wf_ast sample_ast \<and> parseStages nat (print_ast 0 sample_ast) = Ok (stage_of sample_ast)
     \<and> length (print_ast 0 sample_ast) = 27"
proof -
  have wf: "wf_ast sample_ast" by (simp add: sample_ast_def is_prefix_def)
  moreover have "length (print_ast 0 sample_ast) = 27"
    by (simp add: sample_ast_def paren_def left_level_def bp_l_def bp_r_def)
  ultimately show ?thesis using parse_print [OF wf] by blast
qed

text \<open>the tree the planner builds holds every token's operation exactly once and in the order of
  the text, with parentheses contributing nothing: no token is dropped, repeated or reordered.\<close>

theorem parseStages_yield:
  assumes "parseStages unix toks = Ok s"
  shows "yield_ops s = ops_of unix toks"
  using assms by (rule parseStages_consumed)

lemma parseStages_yield_witness:
  "parseStages nat (print_ast 0 sample_ast) = Ok (stage_of sample_ast)
     \<and> yield_ops (stage_of sample_ast) = ops_of nat (print_ast 0 sample_ast)"
proof -
  have wf: "wf_ast sample_ast" by (simp add: sample_ast_def is_prefix_def)
  have "parseStages nat (print_ast 0 sample_ast) = Ok (stage_of sample_ast)"
    by (rule parseStages_readable [OF wf_ast_readable [OF wf]])
  with parseStages_yield [OF this] show ?thesis by blast
qed

end
