(* ===== verification/ExprSound.thy ===== *)
theory ExprSound
  imports ExprEval ExprPrint
begin

text \<open>
  The trees the planner builds are well formed, and what follows for their evaluation: elision changes
  no result, a type-checked evaluation does not panic, and only the variables of the expression are
  read.
\<close>

subsection \<open>Well-formed trees\<close>

text \<open>What each kind of stage holds: the operation, its symbol and the operands it has.\<close>

definition node_ok :: "op_symbol \<Rightarrow> bool \<Rightarrow> bool \<Rightarrow> 'f stage_op \<Rightarrow> bool" where
  "node_ok y hasLeft hasRight op =
     (case op of
        OpParam x \<Rightarrow> y = VALUE \<and> \<not> hasLeft \<and> \<not> hasRight
      | OpLiteral v \<Rightarrow> y = LITERAL \<and> \<not> hasLeft \<and> \<not> hasRight
      | OpFunction f \<Rightarrow> y = FUNCTIONAL \<and> \<not> hasLeft
      | OpAccessor ps \<Rightarrow> y = ACCESS \<and> \<not> hasLeft
      | OpNoop \<Rightarrow> y = NOOP \<and> \<not> hasLeft \<and> \<not> hasRight
      | OpSymbol z \<Rightarrow> y = z \<and> y \<notin> {VALUE, LITERAL, NOOP, FUNCTIONAL, ACCESS} \<and> hasRight)"

fun wf_stage :: "'f stage \<Rightarrow> bool" where
  "wf_stage (Stage y sp l r op) =
     (node_ok y (l \<noteq> None) (r \<noteq> None) op
      \<and> (case l of None \<Rightarrow> True | Some a \<Rightarrow> wf_stage a)
      \<and> (case r of None \<Rightarrow> True | Some b \<Rightarrow> wf_stage b))"

lemma stageSymbolMap_None:
  "stageSymbolMap h y = None \<longleftrightarrow> y \<in> {VALUE, LITERAL, NOOP, FUNCTIONAL, ACCESS}"
  by (cases y) (simp_all add: stageSymbolMap_def)

definition makes_wf :: "'f stage_parser \<Rightarrow> bool" where
  "makes_wf pe = (\<forall>ts bp s ts'. pe ts bp = Ok (s, ts') \<longrightarrow> wf_stage s)"

lemma makes_wfD: "makes_wf pe \<Longrightarrow> pe ts bp = Ok (s, ts') \<Longrightarrow> wf_stage s"
  unfolding makes_wf_def by blast

lemma wf_stage_with_span [simp]: "wf_stage (with_span sp s) = wf_stage s"
  by (cases s) (simp add: with_span_def)

lemma infix_symbol:
  "infixBindingPowerFor y \<noteq> None \<Longrightarrow> y \<notin> {VALUE, LITERAL, NOOP, FUNCTIONAL, ACCESS}"
  by (cases y) simp_all

lemma prefix_symbol:
  "prefixSymbols x = Some y \<Longrightarrow> y \<notin> {VALUE, LITERAL, NOOP, FUNCTIONAL, ACCESS}"
  by (auto simp: prefixSymbols_def split: if_splits)

lemma parseCallArguments_wf:
  assumes "makes_wf pe" "parseCallArguments pe ts t = Ok ((args, sp), ts')"
  shows "case args of None \<Rightarrow> True | Some a \<Rightarrow> wf_stage a"
  using assms
  by (auto simp: parseCallArguments_def Let_def rbind_Ok_iff split: if_splits dest: makes_wfD)

lemma parseTernary_wf:
  assumes "makes_wf pe" "parseTernary pe ts c = Ok (s, ts')" "wf_stage c"
  shows "wf_stage s"
  using assms
  by (auto simp: parseTernary_def rbind_Ok_iff ternaryTrueStage_def ternaryFalseStage_def node_ok_def
      split: if_splits dest: makes_wfD)

lemma parseClause_wf:
  assumes "makes_wf pe" "parseClause pe tok ts = Ok (s, ts')"
  shows "wf_stage s"
  using assms
  by (auto simp: parseClause_def rbind_Ok_iff node_ok_def split: if_splits dest: makes_wfD)

lemma parsePrefixOperator_wf:
  assumes "makes_wf pe" "parsePrefixOperator pe tok ts = Ok (s, ts')"
  shows "wf_stage s"
proof -
  from assms(2) obtain x y r where y: "prefixSymbols x = Some y" and r: "pe ts 120 = Ok (r, ts')"
    and s: "s = Stage y (mergeSpan (Span tok) (st_span r)) None (Some r) (OpSymbol y)"
    by (auto simp: parsePrefixOperator_def rbind_Ok_iff split: option.splits)
  with makes_wfD [OF assms(1) r] prefix_symbol [OF y] show ?thesis by (simp add: node_ok_def)
qed

text \<open>A call's stage around its arguments.\<close>

lemma call_wf:
  assumes w: "makes_wf pe" and op: "node_ok y False False op" "node_ok y False True op"
    and run: "rbind (parseCallArguments pe ts t) (\<lambda>((args, sp), ts'). Ok (Stage y sp None args op, ts'))
      = Ok (s, ts')"
  shows "wf_stage s"
proof -
  from run obtain args sp where "parseCallArguments pe ts t = Ok ((args, sp), ts')"
    and s: "s = Stage y sp None args op"
    by (auto simp: rbind_Ok_iff)
  from parseCallArguments_wf [OF w this(1)] s op show ?thesis by (cases args) auto
qed

lemma parsePrefix_wf:
  assumes w: "makes_wf pe" and run: "parsePrefix unix pe ts = Ok (s, ts')"
  shows "wf_stage s"
proof -
  from run obtain tok rest where ts: "ts = tok # rest"
    by (cases ts) (auto simp: parsePrefix_def)
  note run' = run [unfolded parsePrefix_def ts list.case Let_def parseOptionalCallArguments_eq]
  consider "Kind tok = PREFIX" | "Kind tok = CLAUSE" | "Kind tok = FUNCTION"
    | "Kind tok = ACCESSOR" | "Kind tok = VARIABLE"
    | "Kind tok \<in> {NUMERIC, STRING, PATTERN, BOOLEAN}" | "Kind tok = TIME"
    using run' by (auto split: if_splits)
  then show ?thesis
  proof cases
    case 1
    with run' parsePrefixOperator_wf [OF w] show ?thesis by simp
  next
    case 2
    with run' parseClause_wf [OF w] show ?thesis by simp
  next
    case 3
    with run' obtain f where "Value tok = TVFunc f"
      by (cases "Value tok") (auto simp: rbind_Ok_iff)
    with 3 run' show ?thesis by (intro call_wf [OF w, of FUNCTIONAL]) (simp_all add: node_ok_def)
  next
    case 4
    with run' obtain ps where "Value tok = TVParts ps"
      by (cases "Value tok") (auto simp: rbind_Ok_iff)
    with 4 run' show ?thesis by (intro call_wf [OF w, of ACCESS]) (simp_all add: node_ok_def)
  next
    case 5
    with run' show ?thesis by (auto simp: rbind_Ok_iff node_ok_def)
  next
    case 6
    with run' show ?thesis by (auto simp: node_ok_def)
  next
    case 7
    with run' show ?thesis by (auto simp: node_ok_def split: tvalue.splits)
  qed
qed

lemma parseLoop_wf:
  assumes w: "makes_wf pe"
  shows "parseLoop pe k l ts bp = Ok (s, ts') \<Longrightarrow> wf_stage l \<Longrightarrow> wf_stage s"
proof (induction k arbitrary: l ts)
  case 0
  then show ?case by simp
next
  case (Suc k)
  from Suc.prems(1) show ?case
  proof (cases rule: parseLoop_turn)
    case stop
    with Suc.prems show ?thesis by simp
  next
    case (ternary tok rest l' ts1)
    with Suc parseTernary_wf [OF w] show ?thesis by blast
  next
    case (infix_op tok rest symbol p r ts1)
    have "wf_stage (makeInfixStage symbol l r)"
      using Suc.prems(2) makes_wfD [OF w infix_op(7)] infix_symbol infix_op(5)
      by (simp add: makeInfixStage_def node_ok_def)
    with Suc.IH [OF infix_op(8)] show ?thesis .
  qed
qed

lemma parseExpression_wf: "makes_wf (parseExpression unix n)"
proof (induction n)
  case 0
  then show ?case by (simp add: makes_wf_def)
next
  case (Suc n)
  show ?case
    unfolding makes_wf_def
  proof (intro allI impI)
    fix ts bp s ts'
    assume "parseExpression unix (Suc n) ts bp = Ok (s, ts')"
    then obtain l ts1 where p: "parsePrefix unix (parseExpression unix n) ts = Ok (l, ts1)"
      and lp: "parseLoop (parseExpression unix n) (Suc n) l ts1 bp = Ok (s, ts')"
      by (auto simp: rbind_Ok_iff simp del: parseLoop.simps)
    from parseLoop_wf [OF Suc.IH lp parsePrefix_wf [OF Suc.IH p]] show "wf_stage s" .
  qed
qed

lemma parseStages_wf: "parseStages unix toks = Ok s \<Longrightarrow> wf_stage s"
  by (rule makes_wfD [OF parseExpression_wf parseStages_OkE])

subsection \<open>Elision\<close>

lemma checksPass_all:
  "checksPass y l r \<longleftrightarrow> typeCheck (tc_left (findTypeChecks y)) l \<and> typeCheck (tc_right (findTypeChecks y)) r
     \<and> (case tc_combined (findTypeChecks y) of None \<Rightarrow> True | Some c \<Rightarrow> c l r)"
  by (cases y) (simp_all add: checksPass_def findTypeChecks_def noChecks_def typeCheck_def)

text \<open>On an operator of two literals \<open>elideStage\<close> is the following.\<close>

lemma elideStage_literals:
  assumes f: "stageSymbolMap h y = Some f"
  shows "elideStage h (Stage y sp (Some (Stage LITERAL spl None None (OpLiteral lv)))
      (Some (Stage LITERAL spr None None (OpLiteral rv))) (OpSymbol y)) =
    (let root = Stage y sp (Some (Stage LITERAL spl None None (OpLiteral lv)))
       (Some (Stage LITERAL spr None None (OpLiteral rv))) (OpSymbol y) in
     if y = SEPARATE \<or> y = IN \<or> \<not> checksPass y lv rv then Ok root
     else orRoot (f lv rv) root (\<lambda>v. Ok (Stage LITERAL sp None None (OpLiteral v))))"
  by (cases "tc_combined (findTypeChecks y) :: (('a val \<Rightarrow> 'a val \<Rightarrow> bool) option)")
    (auto simp: elideStage_def planOperator_def f Let_def orRoot_def [of "Ok _"] checksPass_all)

lemma literal_stage:
  assumes "wf_stage a" "st_symbol a = LITERAL"
  obtains sp v where "a = Stage LITERAL sp None None (OpLiteral v)"
proof (cases a)
  case (Stage y sp l r op)
  with assms have "\<exists>v. op = OpLiteral v" by (cases op) (auto simp: node_ok_def)
  with assms Stage that show thesis by (auto simp: node_ok_def)
qed

text \<open>One stage: it stays, or it is an operator on two literals and becomes their result.\<close>

lemma elideStage_cases:
  assumes w: "wf_stage root"
  obtains "elideStage h root = (Ok root :: ('e, 'f stage) res)"
  | y sp spl lv spr rv f v where
      "root = Stage y sp (Some (Stage LITERAL spl None None (OpLiteral lv)))
         (Some (Stage LITERAL spr None None (OpLiteral rv))) (OpSymbol y)"
      "stageSymbolMap h y = Some f" "checksPass y lv rv" "f lv rv = Ok v"
      "elideStage h root = (Ok (Stage LITERAL sp None None (OpLiteral v)) :: ('e, 'f stage) res)"
proof (cases "\<exists>a b. st_left root = Some a \<and> st_right root = Some b \<and> st_symbol a = LITERAL \<and> st_symbol b = LITERAL")
  case False
  then have "elideStage h root = (Ok root :: ('e, 'f stage) res)"
    by (cases "st_left root"; cases "st_right root") (auto simp: elideStage_def)
  then show thesis by (rule that(1))
next
  case True
  then obtain a b where ab: "st_left root = Some a" "st_right root = Some b"
    "st_symbol a = LITERAL" "st_symbol b = LITERAL" by blast
  obtain y sp op where root: "root = Stage y sp (Some a) (Some b) op" using ab by (cases root) simp
  obtain spl lv where a: "a = Stage LITERAL spl None None (OpLiteral lv)"
    using w ab(3) by (auto simp: root elim: literal_stage)
  obtain spr rv where b: "b = Stage LITERAL spr None None (OpLiteral rv)"
    using w ab(4) by (auto simp: root elim: literal_stage)
  have op: "op = OpSymbol y" "y \<notin> {VALUE, LITERAL, NOOP, FUNCTIONAL, ACCESS}"
    using w by (cases op; simp add: root node_ok_def)+
  then obtain f where f: "stageSymbolMap h y = Some f"
    using stageSymbolMap_None [of h y] by blast
  note root' = root [unfolded a b op(1)]
  note eli = elideStage_literals [OF f, of sp spl lv spr rv, folded root', unfolded Let_def]
  show thesis
  proof (cases "y = SEPARATE \<or> y = IN \<or> \<not> checksPass y lv rv \<or> f lv rv = Err ()")
    case True
    then have "elideStage h root = (Ok root :: ('e, 'f stage) res)"
      by (auto simp: eli orRoot_def)
    then show thesis by (rule that(1))
  next
    case no: False
    then have chk: "checksPass y lv rv" by simp
    from stageSymbolMap_checked [OF f chk] no obtain v where v: "f lv rv = Ok v"
      by (cases "f lv rv") auto
    have "elideStage h root = (Ok (Stage LITERAL sp None None (OpLiteral v)) :: ('e, 'f stage) res)"
      using no v by (simp add: eli orRoot_def)
    from that(2) [OF root' f chk v this] show thesis .
  qed
qed

text \<open>
  A short circuit gives what the operator gives: whatever the right value is, where a left value
  decides the result the operator on the two values has that result.
\<close>

lemma shortCircuit_agrees:
  assumes "stageSymbolMap h y = Some f" "checksPass y l r"
  shows "case shortCircuit y l of
      Return v \<Rightarrow> f l r = Ok v
    | SkipRight \<Rightarrow> checksPass y l r' \<and> f l r' = f l r
    | RunRight \<Rightarrow> True"
proof (cases "isShortCircuitable y")
  case False
  then show ?thesis by (simp add: shortCircuit_def)
next
  case True
  then consider "y = AND" | "y = OR" | "y = COALESCE" | "y = TERNARY_TRUE" | "y = TERNARY_FALSE"
    by (auto simp: isShortCircuitable_def)
  then show ?thesis
  proof cases
    case 3
    with assms show ?thesis
      by (cases l) (auto simp: shortCircuit_def isShortCircuitable_def stageSymbolMap_def ternaryElseStage_def)
  next
    case 5
    with assms show ?thesis
      by (cases l) (auto simp: shortCircuit_def isShortCircuitable_def stageSymbolMap_def
          ternaryElseStage_def checksPass_def findTypeChecks_def noChecks_def typeCheck_def)
  qed (use assms in \<open>auto simp: shortCircuit_def isShortCircuitable_def stageSymbolMap_def checksPass_def
      findTypeChecks_def noChecks_def typeCheck_def as_type_iff andStage_def orStage_def
      ternaryIfStage_def\<close>)
qed

lemma cwrap_cret [simp]:
  "cwrap e (cret (Ok v)) = cret (Ok v)" "cwrap e (cret (Err u)) = cret (Err e)"
  "cwrap e (cret Panic) = cret Panic" "cwrap e (cret NoFuel) = cret NoFuel"
  by (simp_all add: cwrap_def cret_def fun_eq_iff)

lemma checksPass_unchecked: "y \<in> {VALUE, LITERAL, NOOP, FUNCTIONAL, ACCESS} \<Longrightarrow> checksPass y l r"
  by (auto simp: checksPass_def findTypeChecks_def noChecks_def typeCheck_def)

lemma shortCircuit_other: "\<not> isShortCircuitable y \<Longrightarrow> shortCircuit y l = RunRight"
  by (simp add: shortCircuit_def)

declare evaluateStage.simps [simp del]

lemma evaluate_literal [simp]:
  "evaluateStage h c params (Stage LITERAL sp None None (OpLiteral v)) = cret (Ok v)"
  by (simp add: evaluateStage.simps shortCircuit_other isShortCircuitable_def applyStage_def
      checksPass_unchecked runOperator_def makeLiteralStage_def)

lemma applyStage_symbol:
  assumes "stageSymbolMap h y = Some f" "checksPass y l r" "f l r = Ok v"
  shows "applyStage h c params y sp (OpSymbol y) l r = cret (Ok v)"
  using assms by (simp add: applyStage_def runOperator_def)

lemma evaluate_literals:
  assumes f: "stageSymbolMap h y = Some f" and chk: "checksPass y lv rv" and v: "f lv rv = Ok v"
  shows "evaluateStage h c params (Stage y sp (Some (Stage LITERAL spl None None (OpLiteral lv)))
      (Some (Stage LITERAL spr None None (OpLiteral rv))) (OpSymbol y)) = cret (Ok v)"
  using shortCircuit_agrees [OF f chk, of shortCircuitHolder] v
  by (auto simp: evaluateStage.simps [of h c params y] applyStage_symbol [OF f chk v] applyStage_symbol [OF f] split: circuit.splits)

text \<open>The parameters among a tree's operations.\<close>

definition params_in :: "'f stage_op list \<Rightarrow> 'f stage_op list" where
  "params_in ops = filter (\<lambda>op. \<exists>x. op = OpParam x) ops"

lemma params_in_append [simp]: "params_in (xs @ ys) = params_in xs @ params_in ys"
  by (simp add: params_in_def)

lemma elideStage_evaluate:
  assumes w: "wf_stage root"
  shows "\<exists>st. elideStage h root = (Ok st :: ('e, 'f stage) res) \<and> wf_stage st
    \<and> (\<forall>c params. evaluateStage h c params st = evaluateStage h c params root)
    \<and> params_in (yield_ops st) = params_in (yield_ops root)"
  using w
proof (cases rule: elideStage_cases [where h = h and 'e = 'e])
  case 1
  with w show ?thesis by simp
next
  case (2 y sp spl lv spr rv f v)
  have "wf_stage (Stage LITERAL sp None None (OpLiteral v))" by (simp add: node_ok_def)
  with 2(1,5) evaluate_literals [OF 2(2-4)] show ?thesis by (auto simp: params_in_def)
qed

lemma evaluateStage_cong:
  assumes "\<And>c params. (case l of None \<Rightarrow> cret (Ok VNil) | Some a \<Rightarrow> evaluateStage h c params a)
      = (case l' of None \<Rightarrow> cret (Ok VNil) | Some a \<Rightarrow> evaluateStage h c params a)"
    "\<And>c params. (case r of None \<Rightarrow> cret (Ok VNil) | Some a \<Rightarrow> evaluateStage h c params a)
      = (case r' of None \<Rightarrow> cret (Ok VNil) | Some a \<Rightarrow> evaluateStage h c params a)"
  shows "evaluateStage h c params (Stage y sp l r op) = evaluateStage h c params (Stage y sp l' r' op)"
  using assms by (simp add: evaluateStage.simps cong: circuit.case_cong)

definition elided :: "('f, 's) host \<Rightarrow> 'f stage \<Rightarrow> 'f stage \<Rightarrow> bool" where
  "elided h st root = (wf_stage st
    \<and> (\<forall>c params. evaluateStage h c params st = evaluateStage h c params root)
    \<and> params_in (yield_ops st) = params_in (yield_ops root))"

lemma elideLiterals_elided:
  "wf_stage root \<Longrightarrow> \<exists>st. elideLiterals h root = (Ok st :: ('e, 'f stage) res) \<and> elided h st root"
proof (induction root)
  case (Stage y sp l r op)
  have child: "\<exists>l'. (case l of None \<Rightarrow> Ok None | Some a \<Rightarrow> rmap Some (elideLiterals h a))
      = (Ok l' :: ('e, 'f stage option) res) \<and> rel_option (elided h) l' l"
    if "\<And>a. l = Some a \<Longrightarrow> \<exists>st. elideLiterals h a = (Ok st :: ('e, 'f stage) res) \<and> elided h st a"
    for l :: "'f stage option"
    using that by (cases l) fastforce+
  have "\<exists>st. elideLiterals h a = (Ok st :: ('e, 'f stage) res) \<and> elided h st a" if "l = Some a" for a
    using Stage.IH(1) Stage.prems that by auto
  from child [OF this] obtain l' where
    l: "(case l of None \<Rightarrow> Ok None | Some a \<Rightarrow> rmap Some (elideLiterals h a))
      = (Ok l' :: ('e, 'f stage option) res)" "rel_option (elided h) l' l"
    by blast
  have "\<exists>st. elideLiterals h a = (Ok st :: ('e, 'f stage) res) \<and> elided h st a" if "r = Some a" for a
    using Stage.IH(2) Stage.prems that by auto
  from child [OF this] obtain r' where
    r: "(case r of None \<Rightarrow> Ok None | Some a \<Rightarrow> rmap Some (elideLiterals h a))
      = (Ok r' :: ('e, 'f stage option) res)" "rel_option (elided h) r' r"
    by blast
  have w: "wf_stage (Stage y sp l' r' op)"
    using Stage.prems l(2) r(2) by (cases l'; cases l; cases r'; cases r) (auto simp: elided_def)
  have e: "evaluateStage h c params (Stage y sp l' r' op) = evaluateStage h c params (Stage y sp l r op)"
    for c params
    using l(2) r(2)
    by (intro evaluateStage_cong) (cases l'; cases l; cases r'; cases r; simp add: elided_def)+
  have f: "params_in (yield_ops (Stage y sp l' r' op))
      = params_in (yield_ops (Stage y sp l r op))"
    using l(2) r(2) by (cases l'; cases l; cases r'; cases r) (auto simp: elided_def params_in_def)
  from elideStage_evaluate [OF w, of h, where 'e = 'e] e f l(1) r(1) show ?case
    by (auto simp: elided_def)
qed

lemma planStages_elided:
  assumes "parseStages unix toks = Ok s"
  obtains st where "planStages h unix toks = Ok st" "elided h st s"
  using elideLiterals_elided [OF parseStages_wf [OF assms], of h, where 'e = parse_error] assms
  by (auto simp: planStages_def)

lemma planStages_OkE:
  assumes "planStages h unix toks = Ok st"
  obtains s where "parseStages unix toks = Ok s" "elided h st s"
proof -
  from assms obtain s where s: "parseStages unix toks = Ok s"
    by (auto simp: planStages_def rbind_Ok_iff)
  from planStages_elided [OF s] obtain st' where "planStages h unix toks = Ok st'" "elided h st' s" .
  with assms s that show thesis by simp
qed

subsection \<open>Type checks keep an evaluation from panicking\<close>

text \<open>The caller's part of an operation does not panic, and the operation is no \<open>IN\<close>.\<close>

definition calm :: "('f, 's) host \<Rightarrow> ('f, 's) parameters \<Rightarrow> 'f stage_op \<Rightarrow> bool" where
  "calm h params op =
     (case op of
        OpSymbol y \<Rightarrow> y \<noteq> IN
      | OpLiteral v \<Rightarrow> True
      | OpNoop \<Rightarrow> True
      | _ \<Rightarrow> (\<forall>l r s. fst (runOperator h op l r params s) \<noteq> Panic
                  \<and> fst (runOperator h op l r params s) \<noteq> NoFuel))"

definition quiet :: "('s, 'e, 'a) comp \<Rightarrow> bool" where
  "quiet m = (\<forall>s. fst (m s) \<noteq> Panic \<and> fst (m s) \<noteq> NoFuel)"

lemma quiet_cret: "quiet (cret (Ok v))" "quiet (cret (Err e))"
  by (simp_all add: quiet_def)

lemma quiet_cbind:
  assumes "quiet m" "\<And>a. quiet (f a)"
  shows "quiet (cbind m f)"
  unfolding quiet_def
proof
  fix s
  obtain r s' where m: "m s = (r, s')" by fastforce
  with assms(1) have r: "r \<noteq> Panic" "r \<noteq> NoFuel" by (metis fst_conv quiet_def)+
  show "fst (cbind m f s) \<noteq> Panic \<and> fst (cbind m f s) \<noteq> NoFuel"
    using assms(2) r by (cases r) (auto simp: cbind_def m quiet_def)
qed

lemma quiet_cwrap: "quiet m \<Longrightarrow> quiet (cwrap e m)"
  unfolding quiet_def
proof
  fix s
  assume q: "\<forall>s. fst (m s) \<noteq> Panic \<and> fst (m s) \<noteq> NoFuel"
  obtain r s' where m: "m s = (r, s')" by fastforce
  with q have "r \<noteq> Panic" "r \<noteq> NoFuel" by (metis fst_conv)+
  then show "fst (cwrap e m s) \<noteq> Panic \<and> fst (cwrap e m s) \<noteq> NoFuel"
    by (cases r) (auto simp: cwrap_def m)
qed

lemma quiet_applyStage:
  assumes op: "calm h params op" "node_ok y hl hr op"
  shows "quiet (applyStage h True params y sp op l r)"
proof (cases "checksPass y l r")
  case False
  then show ?thesis by (simp add: applyStage_def quiet_cret)
next
  case True
  have "quiet (runOperator h op l r params)"
  proof (cases op)
    case (OpSymbol z)
    with op have z: "z = y" "y \<noteq> IN" "y \<notin> {VALUE, LITERAL, NOOP, FUNCTIONAL, ACCESS}"
      by (auto simp: calm_def node_ok_def)
    then obtain f where f: "stageSymbolMap h y = Some f"
      using stageSymbolMap_None [of h y] by blast
    from stageSymbolMap_checked [OF f True z(2)] f z(1) OpSymbol show ?thesis
      by (simp add: quiet_def runOperator_def)
  next
    case (OpParam x)
    with op show ?thesis unfolding quiet_def calm_def by (simp split: stage_op.splits)
  next
    case (OpFunction f)
    with op show ?thesis unfolding quiet_def calm_def by (simp split: stage_op.splits)
  next
    case (OpAccessor ps)
    with op show ?thesis unfolding quiet_def calm_def by (simp split: stage_op.splits)
  qed (simp_all add: runOperator_def makeLiteralStage_def noopStageRight_def quiet_cret)
  with True show ?thesis by (simp add: applyStage_def quiet_cwrap)
qed

lemma evaluateStage_quiet:
  "wf_stage st \<Longrightarrow> \<forall>op \<in> set (yield_ops st). calm h params op \<Longrightarrow>
     quiet (evaluateStage h True params st)"
proof (induction st)
  case (Stage y sp l r op)
  have l: "quiet (case l of None \<Rightarrow> cret (Ok VNil) | Some a \<Rightarrow> evaluateStage h True params a)"
    using Stage by (cases l) (auto simp: quiet_cret)
  have r: "quiet (case r of None \<Rightarrow> cret (Ok VNil) | Some a \<Rightarrow> evaluateStage h True params a)"
    using Stage by (cases r) (auto simp: quiet_cret)
  have "calm h params op" using Stage.prems by (cases "op = OpNoop") (auto simp: calm_def)
  with Stage.prems have a: "quiet (applyStage h True params y sp op v w)" for v w
    by (intro quiet_applyStage) auto
  show ?case
    unfolding evaluateStage.simps
    by (intro quiet_cbind l) (auto intro!: quiet_cbind quiet_cret r a split: circuit.split)
qed

subsection \<open>The parameters an evaluation reads\<close>

definition reads_same :: "('f, 's) parameters \<Rightarrow> ('f, 's) parameters \<Rightarrow> 'f stage_op \<Rightarrow> bool" where
  "reads_same p q op =
     (case op of
        OpParam x \<Rightarrow> p x = q x
      | OpAccessor ps \<Rightarrow> (case ps of [] \<Rightarrow> True | x # xs \<Rightarrow> p x = q x)
      | _ \<Rightarrow> True)"

lemma runOperator_reads:
  "reads_same p q op \<Longrightarrow> runOperator h op l r p = runOperator h op l r q"
  by (auto simp: reads_same_def runOperator_def makeParameterStage_def makeLiteralStage_def
      makeFunctionStage_def makeAccessorStage_def split: stage_op.splits list.splits)

lemma evaluateStage_reads:
  "\<forall>op \<in> set (yield_ops st). reads_same p q op \<Longrightarrow> evaluateStage h c p st = evaluateStage h c q st"
proof (induction st)
  case (Stage y sp l r op)
  have l: "(case l of None \<Rightarrow> cret (Ok VNil) | Some a \<Rightarrow> evaluateStage h c p a)
      = (case l of None \<Rightarrow> cret (Ok VNil) | Some a \<Rightarrow> evaluateStage h c q a)"
    using Stage by (cases l) auto
  have r: "(case r of None \<Rightarrow> cret (Ok VNil) | Some a \<Rightarrow> evaluateStage h c p a)
      = (case r of None \<Rightarrow> cret (Ok VNil) | Some a \<Rightarrow> evaluateStage h c q a)"
    using Stage by (cases r) auto
  have "reads_same p q op" using Stage.prems by (cases "op = OpNoop") (auto simp: reads_same_def)
  then have "applyStage h c p y sp op v w = applyStage h c q y sp op v w" for v w
    by (simp add: applyStage_def runOperator_reads)
  then have "applyStage h c p y sp op v = applyStage h c q y sp op v" for v by (rule ext)
  with l r show ?case by (simp add: evaluateStage.simps cong: circuit.case_cong)
qed

text \<open>Each VARIABLE token gives a parameter.\<close>

lemma tok_ops_params:
  "Kind t \<noteq> VARIABLE \<Longrightarrow> params_in (tok_ops unix t) = []"
  "Kind t = VARIABLE \<Longrightarrow> Value t = TVStr x \<Longrightarrow> params_in (tok_ops unix t) = [OpParam x]"
  by (auto simp: tok_ops_def params_in_def Let_def split: tvalue.splits option.splits res.splits)

lemma varsOf_ops: "varsOf ts = (Ok xs :: (parse_error, string list) res) \<Longrightarrow> params_in (ops_of unix ts) = map OpParam xs"
proof (induction ts arbitrary: xs)
  case Nil
  then show ?case by (simp add: params_in_def)
next
  case (Cons t ts)
  show ?case
  proof (cases "Kind t = VARIABLE")
    case True
    with Cons.prems obtain x ys where "Value t = TVStr x"
        "varsOf ts = (Ok ys :: (parse_error, string list) res)" "xs = x # ys"
      by (auto simp: rbind_Ok_iff rmap_Ok_iff)
    with True Cons.IH show ?thesis by (simp add: tok_ops_params)
  next
    case False
    with Cons show ?thesis by (simp add: tok_ops_params)
  qed
qed

lemma buildExpression_OkE:
  assumes "buildExpression h unix toks input = Ok ee"
  obtains st where "depth_ok 0 toks" "chain_ok UNKNOWN toks"
    "optimizeTokens (reCompiles h) toks = Ok (ex_tokens ee)"
    "planStages h unix (ex_tokens ee) = Ok st" "ex_evaluationStages ee = Some st" "ex_ChecksTypes ee"
proof -
  from assms obtain st where "checkBalance toks = Ok ()" "checkExpressionSyntax toks = Ok ()"
    "optimizeTokens (reCompiles h) toks = Ok (ex_tokens ee)"
    "planStages h unix (ex_tokens ee) = Ok st" "ex_evaluationStages ee = Some st" "ex_ChecksTypes ee"
    by (auto simp: buildExpression_def rbind_Ok_iff)
  then show thesis
    using that by (simp add: checkExpressionSyntax_chain_ok checkBalance_def balanceLoop_depth_ok)
qed

lemma accessor_op:
  assumes "OpAccessor ps \<in> set (tok_ops unix t)"
  shows "Kind t = ACCESSOR"
  using assms
  by (auto simp: tok_ops_def Let_def split: if_splits tvalue.splits option.splits res.splits)

lemma elided_ops:
  assumes "elided h st s" "OpParam x \<in> set (yield_ops st)"
  shows "OpParam x \<in> set (yield_ops s)"
proof -
  have "OpParam x \<in> set (params_in (yield_ops st))" using assms(2) by (simp add: params_in_def)
  then have "OpParam x \<in> set (params_in (yield_ops s))"
    using assms(1) by (simp add: elided_def)
  then show ?thesis by (simp add: params_in_def)
qed

subsection \<open>Short circuits and branches\<close>

text \<open>Go's reading of a stage with operands \<open>a\<close> and \<open>b\<close>.\<close>

lemma evaluate_binary:
  "evaluateStage h c params (Stage y sp (Some a) (Some b) op) =
     cbind (evaluateStage h c params a) (\<lambda>l.
       case shortCircuit y l of
         Return v \<Rightarrow> cret (Ok v)
       | SkipRight \<Rightarrow> applyStage h c params y sp op l shortCircuitHolder
       | RunRight \<Rightarrow> cbind (evaluateStage h c params b) (applyStage h c params y sp op l))"
  unfolding evaluateStage.simps option.case ..

definition type_error :: "source_span \<Rightarrow> ('s, eval_error, 'f val) comp" where
  "type_error sp = cret (Err (wrapEvaluationError ''type_check'' sp))"

lemma cbind_cong: "(\<And>a. f a = g a) \<Longrightarrow> cbind m f = cbind m g"
proof -
  assume "\<And>a. f a = g a"
  then have "f = g" by (rule ext)
  then show ?thesis by simp
qed

lemmas stage_checks =
  applyStage_def runOperator_def stageSymbolMap_def checksPass_def findTypeChecks_def noChecks_def
  typeCheck_def

lemma apply_and:
  "applyStage h True params AND sp (OpSymbol AND) l r =
     (case (l, r) of (VBool p, VBool q) \<Rightarrow> cret (Ok (VBool (p \<and> q))) | _ \<Rightarrow> type_error sp)"
  by (cases l; cases r) (simp_all add: stage_checks type_error_def andStage_def)

lemma apply_or:
  "applyStage h True params OR sp (OpSymbol OR) l r =
     (case (l, r) of (VBool p, VBool q) \<Rightarrow> cret (Ok (VBool (p \<or> q))) | _ \<Rightarrow> type_error sp)"
  by (cases l; cases r) (simp_all add: stage_checks type_error_def orStage_def)

lemma apply_else:
  "y \<in> {COALESCE, TERNARY_FALSE} \<Longrightarrow>
     applyStage h True params y sp (OpSymbol y) l r = cret (Ok (if l = VNil then r else l))"
  by (cases l) (auto simp: stage_checks ternaryElseStage_def)

lemma apply_if:
  "applyStage h True params TERNARY_TRUE sp (OpSymbol TERNARY_TRUE) l r =
     (case l of VBool p \<Rightarrow> cret (Ok (if p then r else VNil)) | _ \<Rightarrow> type_error sp)"
  by (cases l) (simp_all add: stage_checks type_error_def ternaryIfStage_def)

subsection \<open>Parameters seen through the sanitizer\<close>

text \<open>
  What the evaluator relies on in a source of parameters: no machine number comes out of it, only
  float64.
\<close>

fun machine_number :: "'f val \<Rightarrow> bool" where
  "machine_number (VInt t i) = True"
| "machine_number (VFloat32 x) = True"
| "machine_number _ = False"

lemma castToFloat64_clean: "\<not> machine_number (castToFloat64 h v)"
  by (cases v) simp_all

lemma castToFloat64_id: "\<not> machine_number v \<Longrightarrow> castToFloat64 h v = v"
  by (cases v) simp_all

locale clean_parameters =
  fixes get :: "('f, 's) parameters"
  assumes get_clean: "get x s = (Ok v, s') \<Longrightarrow> \<not> machine_number v"
begin

lemma sanitized_same: "sanitizedParameters_Get h get = get"
proof (intro ext)
  fix x s
  show "sanitizedParameters_Get h get x s = get x s"
  proof (cases "get x s")
    case (Pair r s')
    with get_clean [of x s _ s'] show ?thesis
      by (cases r) (simp_all add: sanitizedParameters_Get_def cbind_def cret_def castToFloat64_id)
  qed
qed

lemma variable_clean:
  "evaluateStage h c get (Stage VALUE sp None None (OpParam x)) s = (Ok v, s') \<Longrightarrow> \<not> machine_number v"
proof -
  assume "evaluateStage h c get (Stage VALUE sp None None (OpParam x)) s = (Ok v, s')"
  then have "cwrap (wrapEvaluationError ''operator'' sp) (get x) s = (Ok v, s')"
    by (simp add: evaluateStage.simps shortCircuit_other isShortCircuitable_def applyStage_def
        checksPass_unchecked runOperator_def makeParameterStage_def)
  then have "get x s = (Ok v, s')"
    by (cases "get x s"; cases "fst (get x s)") (auto simp: cwrap_def)
  then show ?thesis by (rule get_clean)
qed

end

interpretation sanitized: clean_parameters "sanitizedParameters_Get h p" for h p
proof
  fix x s v s'
  assume "sanitizedParameters_Get h p x s = (Ok v, s')"
  then show "\<not> machine_number v"
    by (cases "p x s"; cases "fst (p x s)")
      (auto simp: sanitizedParameters_Get_def cbind_def cret_def castToFloat64_clean)
qed

interpretation no_parameters: clean_parameters DUMMY_PARAMETERS
  by unfold_locales (simp add: DUMMY_PARAMETERS_def MapParameters_Get_def cret_def)

end
