(* ===== verification/ExprProps.thy ===== *)
theory ExprProps
  imports ExprSound
begin

text \<open>
  The properties of the expression language that rest on the parser, the operators and the evaluator
  together, with the concrete caller their witnesses use.
\<close>

subsection \<open>A concrete caller\<close>

text \<open>Integers for floats; the state counts the calls of functions, which return their argument count.\<close>

definition sample_host :: "(int, nat) host" where
  "sample_host =
    \<lparr>fadd = (+), fsub = (-), fmul = (*), fdiv = (div), fpow = (\<lambda>x y. x ^ nat y), fmod = (mod),
     fneg = uminus, fless = (<), feq = (=), ofInt = (\<lambda>t i. i),
     ofInt64 = sint, toInt64 = word_of_int, ofUint64 = uint, toUint64 = word_of_int,
     fmtV = (\<lambda>v. ''?''), reCompiles = (\<lambda>p. True), reMatches = (=),
     deepOther = (\<lambda>v w. False), sameOther = (\<lambda>v w. Some False),
     callFunction = (\<lambda>f vs n. (Ok (VNum (int (length vs))), Suc n)),
     isStruct = (\<lambda>v. False), fieldByName = (\<lambda>v f. None), methodByName = (\<lambda>v f. None),
     methodIn = (\<lambda>m. []), kindOf = (\<lambda>v. 0), convertKind = (\<lambda>v k. None),
     callMethod = (\<lambda>m vs n. (Err (), n)), isError = (\<lambda>v. False)\<rparr>"

text \<open>\<open>x > 1 + 2 && f(x, 4)\<close>\<close>

definition guard_ast :: "int ast" where
  "guard_ast =
     ABin AND
       (ABin GT (AVar ''x'') (ABin PLUS (ALit (LNum 1)) (ALit (LNum 2))))
       (ACall ''f'' (Some (ABin SEPARATE (AVar ''x'') (ALit (LNum 4)))))"

lemma guard_parsed: "parseStages unix (print_ast 0 guard_ast) = Ok (stage_of guard_ast)"
  by (rule parseStages_readable [OF wf_ast_readable]) (simp add: guard_ast_def)

lemma guard_planned: "\<exists>st. planStages sample_host unix (print_ast 0 guard_ast) = Ok st"
  using planStages_elided [OF guard_parsed] by blast

lemma guard_text: "print_ast 0 guard_ast =
  [mk_token VARIABLE (TVStr ''x''), infix_tok GT, mk_token NUMERIC (TVNum 1), infix_tok PLUS,
   mk_token NUMERIC (TVNum 2), infix_tok AND, mk_token FUNCTION (TVFunc ''f''), open_tok,
   mk_token VARIABLE (TVStr ''x''), infix_tok SEPARATE, mk_token NUMERIC (TVNum 4), close_tok]"
  by (simp add: guard_ast_def paren_def left_level_def bp_l_def bp_r_def)

lemma guard_ops: "ops_of unix (print_ast 0 guard_ast) =
  [OpParam ''x'', OpSymbol GT, OpLiteral (VNum 1), OpSymbol PLUS, OpLiteral (VNum 2), OpSymbol AND,
   OpFunction ''f'', OpParam ''x'', OpSymbol SEPARATE, OpLiteral (VNum 4)]"
  by (simp add: parseStages_consumed [OF guard_parsed, symmetric]) (simp add: guard_ast_def)

subsection \<open>Planning\<close>

text \<open>C3: replacing an operator of two literals by its value at planning time is invisible: planning
  succeeds whenever parsing does, and the planned tree evaluates to the same result, error or panic,
  with the same effects on the caller's state, as the tree the parser built, with type checks on or
  off.\<close>

theorem plan_elision:
  assumes "parseStages unix toks = Ok s"
  shows "\<exists>st. planStages h unix toks = Ok st
    \<and> (\<forall>c params w. evaluateStage h c params st w = evaluateStage h c params s w)"
proof -
  obtain st where "planStages h unix toks = Ok st" "elided h st s"
    by (rule planStages_elided [OF assms])
  then show ?thesis by (auto simp: elided_def)
qed

lemma plan_elision_witness:
  "\<exists>st. planStages sample_host id (print_ast 0 guard_ast) = Ok st
    \<and> (\<forall>c params w. evaluateStage sample_host c params st w
          = evaluateStage sample_host c params (stage_of guard_ast) w)"
  by (rule plan_elision [OF guard_parsed])



definition array_in_array :: "'f \<Rightarrow> 'f ast" where
  "array_in_array n =
     (let pair = ABin SEPARATE (ALit (LNum n)) (ALit (LNum n)) in
      ABin IN pair (ABin SEPARATE (ALit (LNum n)) pair))"

text \<open>the exception of the previous property is real: \<open>(x, y) in (z, (x, y))\<close> panics, since
  \<open>inStage\<close> compares two arrays with Go's \<open>==\<close>, although both operands passed their type checks.\<close>

theorem in_array_panics:
  "parseStages unix (print_ast 0 (array_in_array n)) = Ok (stage_of (array_in_array n))
   \<and> fst (evaluateStage h True params (stage_of (array_in_array n)) s) = Panic"
proof
  show "parseStages unix (print_ast 0 (array_in_array n)) = Ok (stage_of (array_in_array n))"
    by (rule parseStages_readable [OF wf_ast_readable]) (simp add: array_in_array_def Let_def)
  have sep: "applyStage h True params SEPARATE sp (OpSymbol SEPARATE) v w
      = cret (Ok (VArr (case v of VArr vs \<Rightarrow> vs @ [w] | _ \<Rightarrow> [v, w])))" for sp v w
    by (simp add: stage_checks separatorStage_def)
  show "fst (evaluateStage h True params (stage_of (array_in_array n)) s) = Panic"
    by (simp add: array_in_array_def Let_def evaluate_binary shortCircuit_other isShortCircuitable_def sep)
      (simp add: stage_checks inStage_def ifaceEq_def)
qed

subsection \<open>Branches\<close>

lemma cbind_assoc: "cbind (cbind m f) g = cbind m (\<lambda>a. cbind (f a) g)"
  by (auto simp: cbind_def fun_eq_iff split: prod.splits res.splits)

lemma cbind_ret_id [simp]: "cbind m (\<lambda>a. cret (Ok a)) = m"
  by (auto simp: cbind_def cret_def fun_eq_iff split: prod.splits res.splits)

lemma shortCircuit_branches:
  "shortCircuit TERNARY_TRUE l = (if l = VBool False then SkipRight else RunRight)"
  "shortCircuit TERNARY_FALSE l = (if l \<noteq> VNil then SkipRight else RunRight)"
  "shortCircuit COALESCE l = (if l \<noteq> VNil then Return l else RunRight)"
  "shortCircuit AND l = (if l = VBool False then Return (VBool False) else RunRight)"
  "shortCircuit OR l = (if l = VBool True then Return (VBool True) else RunRight)"
  by (simp_all add: shortCircuit_def isShortCircuitable_def)

lemma evaluate_if:
  "evaluateStage h True params (ternaryTrueStage c t) =
     cbind (evaluateStage h True params c) (\<lambda>cv.
       case cv of
         VBool b \<Rightarrow> if b then evaluateStage h True params t else cret (Ok VNil)
       | _ \<Rightarrow> cbind (evaluateStage h True params t) (\<lambda>tv. type_error (mergeSpan (st_span c) (st_span t))))"
  unfolding ternaryTrueStage_def evaluate_binary shortCircuit_branches apply_if
  by (rule cbind_cong) (simp split: val.split)

lemma evaluate_else:
  assumes "y \<in> {COALESCE, TERNARY_FALSE}"
  shows "evaluateStage h True params (Stage y sp (Some a) (Some b) (OpSymbol y)) =
     cbind (evaluateStage h True params a) (\<lambda>v.
       if v = VNil then evaluateStage h True params b else cret (Ok v))"
  unfolding evaluate_binary apply_else [OF assms]
  by (rule cbind_cong) (use assms in \<open>auto simp: shortCircuit_branches\<close>)

text \<open>what a conditional \<open>c ? t : f\<close> evaluates to.  A false condition runs only \<open>f\<close> and a true
  one only \<open>t\<close>, except that a \<open>t\<close> whose value is nil makes the conditional run \<open>f\<close> as well and return
  its value; a condition that is no bool is reported only after \<open>t\<close> has been run.\<close>

theorem ternary_eval:
  "evaluateStage h True params (ternaryFalseStage c (ternaryTrueStage c t) f) =
     cbind (evaluateStage h True params c) (\<lambda>cv.
       case cv of
         VBool b \<Rightarrow>
           (if b then
              cbind (evaluateStage h True params t) (\<lambda>tv.
                if tv = VNil then evaluateStage h True params f else cret (Ok tv))
            else evaluateStage h True params f)
       | _ \<Rightarrow> cbind (evaluateStage h True params t) (\<lambda>tv. type_error (mergeSpan (st_span c) (st_span t))))"
  unfolding ternaryFalseStage_def evaluate_else [OF insertI2 [OF singletonI]] evaluate_if cbind_assoc
  by (rule cbind_cong) (simp add: cbind_assoc type_error_def split: val.split)

text \<open>what \<open>&&\<close>, \<open>||\<close> and \<open>??\<close> evaluate to: the right operand runs, with its effects, only where
  the left one is not false, not true, or nil; the two logical operators insist on a bool on either
  side that is run, a left operand of another type being reported only after the right one has run.\<close>

theorem logical_eval:
  "evaluateStage h True params (makeInfixStage AND a b) =
     cbind (evaluateStage h True params a) (\<lambda>l.
       if l = VBool False then cret (Ok (VBool False))
       else cbind (evaluateStage h True params b) (\<lambda>r.
         if l = VBool True \<and> isBool r then cret (Ok r)
         else type_error (mergeSpan (st_span a) (st_span b))))
   \<and> evaluateStage h True params (makeInfixStage OR a b) =
     cbind (evaluateStage h True params a) (\<lambda>l.
       if l = VBool True then cret (Ok (VBool True))
       else cbind (evaluateStage h True params b) (\<lambda>r.
         if l = VBool False \<and> isBool r then cret (Ok r)
         else type_error (mergeSpan (st_span a) (st_span b))))
   \<and> evaluateStage h True params (makeInfixStage COALESCE a b) =
     cbind (evaluateStage h True params a) (\<lambda>l.
       if l = VNil then evaluateStage h True params b else cret (Ok l))"
proof (intro conjI)
  show "evaluateStage h True params (makeInfixStage COALESCE a b) =
     cbind (evaluateStage h True params a) (\<lambda>l.
       if l = VNil then evaluateStage h True params b else cret (Ok l))"
    unfolding makeInfixStage_def by (rule evaluate_else) simp
qed (unfold makeInfixStage_def evaluate_binary shortCircuit_branches apply_and apply_or,
    auto intro!: cbind_cong split: val.split)

subsection \<open>Variables\<close>

lemma guard_built:
  "\<exists>ee. NewFromTokensWithExpression sample_host id (print_ast 0 guard_ast) [] = Ok ee
     \<and> ex_tokens ee = print_ast 0 guard_ast
     \<and> Vars ee = (Ok [''x'', ''x''] :: (parse_error, string list) res)"
proof -
  from guard_planned obtain st where st: "planStages sample_host id (print_ast 0 guard_ast) = Ok st" ..
  have "checkBalance (print_ast 0 guard_ast) = Ok ()"
    by (simp add: guard_text checkBalance_def infix_tok_def infix_kind_def)
  moreover have "checkExpressionSyntax (print_ast 0 guard_ast) = Ok ()"
    by (simp add: checkExpressionSyntax_chain_ok guard_text infix_tok_def infix_kind_def open_tok_def
        close_tok_def canTransitionTo_def stateOf_def getLexerStateForToken_def validLexerStates_def)
  moreover have "optimizeTokens p (print_ast 0 guard_ast) = Ok (print_ast 0 guard_ast)" for p
    by (simp add: guard_text optimizeTokens_def optimizeFrom.simps infix_tok_def infix_kind_def
        infix_text_def comparatorSymbols_def Let_def)
  moreover have "varsOf (print_ast 0 guard_ast) = (Ok [''x'', ''x''] :: (parse_error, string list) res)"
    by (simp add: guard_text infix_tok_def infix_kind_def)
  ultimately show ?thesis
    using st by (simp add: NewFromTokensWithExpression_def buildExpression_def Vars_def)
qed

text \<open>\<open>Vars\<close> of an expression built from a token list is exactly the sequence of parameter reads
  in its evaluation tree, in the order of the text and with repetitions: the elision of literals
  removes none, and no other stage reads a plain parameter.\<close>

theorem Vars_exact:
  assumes "NewFromTokensWithExpression h unix toks input = Ok ee"
    and "Vars ee = (Ok xs :: (parse_error, string list) res)"
  shows "\<exists>st. ex_evaluationStages ee = Some st \<and> params_in (yield_ops st) = map OpParam xs"
proof -
  from assms(1) obtain st where "planStages h unix (ex_tokens ee) = Ok st" "ex_evaluationStages ee = Some st"
    unfolding NewFromTokensWithExpression_def by (rule buildExpression_OkE)
  moreover from this(1) obtain s where s: "parseStages unix (ex_tokens ee) = Ok s" and "elided h st s"
    by (rule planStages_OkE)
  ultimately show ?thesis
    using varsOf_ops [of "ex_tokens ee" xs unix] assms(2)
    by (simp add: elided_def Vars_def parseStages_consumed [OF s])
qed

text \<open>C27: an evaluation reads no parameter but those \<open>Vars\<close> lists: two parameter maps that agree on
  them give the same result and the same effects, provided the expression has no accessor (whose
  first part is a parameter that \<open>Vars\<close> leaves out).\<close>

theorem Evaluate_reads_only_Vars:
  assumes "NewFromTokensWithExpression h unix toks input = Ok ee"
    and "Vars ee = (Ok xs :: (parse_error, string list) res)"
    and "\<forall>t \<in> set (ex_tokens ee). Kind t \<noteq> ACCESSOR"
    and "\<forall>x \<in> set xs. m x = m' x"
  shows "Evaluate h ee (Some m) = Evaluate h ee (Some m')"
proof -
  from assms(1) obtain st where p: "planStages h unix (ex_tokens ee) = Ok st"
    and st: "ex_evaluationStages ee = Some st"
    unfolding NewFromTokensWithExpression_def by (rule buildExpression_OkE)
  from p obtain s where s: "parseStages unix (ex_tokens ee) = Ok s" and e: "elided h st s"
    by (rule planStages_OkE)
  let ?p = "sanitizedParameters_Get h (MapParameters_Get m)"
  let ?q = "sanitizedParameters_Get h (MapParameters_Get m')"
  have "reads_same ?p ?q op" if op: "op \<in> set (ops_of unix (ex_tokens ee))" for op
  proof (cases op)
    case (OpParam x)
    with op have "OpParam x \<in> set (params_in (ops_of unix (ex_tokens ee)))"
      by (simp add: params_in_def)
    then have "x \<in> set xs"
      using varsOf_ops [of "ex_tokens ee" xs unix] assms(2) by (auto simp: Vars_def)
    with assms(4) OpParam show ?thesis
      by (simp add: reads_same_def sanitizedParameters_Get_def MapParameters_Get_def fun_eq_iff)
  next
    case (OpAccessor ps)
    with op assms(3) show ?thesis by (auto dest: accessor_op)
  qed (simp_all add: reads_same_def)
  then have "evaluateStage h c ?p s = evaluateStage h c ?q s" for c
    by (intro evaluateStage_reads) (simp add: parseStages_consumed [OF s])
  with e st show ?thesis by (simp add: Evaluate_def Eval_def elided_def)
qed

lemma Vars_exact_witness:
  "\<exists>ee st. NewFromTokensWithExpression sample_host id (print_ast 0 guard_ast) [] = Ok ee
     \<and> ex_evaluationStages ee = Some st \<and> params_in (yield_ops st) = [OpParam ''x'', OpParam ''x'']"
  using guard_built Vars_exact [of sample_host id "print_ast 0 guard_ast" "[]" _ "[''x'', ''x'']"]
  by fastforce

lemma Evaluate_reads_only_Vars_witness:
  "\<exists>ee. NewFromTokensWithExpression sample_host id (print_ast 0 guard_ast) [] = Ok ee
     \<and> Evaluate sample_host ee (Some [''x'' \<mapsto> VNum 5])
       = Evaluate sample_host ee (Some [''x'' \<mapsto> VNum 5, ''y'' \<mapsto> VNil])"
proof -
  from guard_built obtain ee where ee:
    "NewFromTokensWithExpression sample_host id (print_ast 0 guard_ast) [] = Ok ee"
    "ex_tokens ee = print_ast 0 guard_ast"
    "Vars ee = (Ok [''x'', ''x''] :: (parse_error, string list) res)" by blast
  have "\<forall>t \<in> set (ex_tokens ee). Kind t \<noteq> ACCESSOR"
    by (simp add: ee(2) guard_text infix_tok_def infix_kind_def)
  from Evaluate_reads_only_Vars [OF ee(1,3) this, of "[''x'' \<mapsto> VNum 5]" "[''x'' \<mapsto> VNum 5, ''y'' \<mapsto> VNil]"]
  have "Evaluate sample_host ee (Some [''x'' \<mapsto> VNum 5])
       = Evaluate sample_host ee (Some [''x'' \<mapsto> VNum 5, ''y'' \<mapsto> VNil])"
    by simp
  with ee(1) show ?thesis by blast
qed

text \<open>sanitizing parameters twice is sanitizing them once, so an evaluation whose caller has already
  converted its machine numbers to float64 sees the values the caller holds.\<close>

theorem sanitize_once:
  "Eval h ee (Some (sanitizedParameters_Get h p)) = Eval h ee (Some p)"
  unfolding Eval_def option.case sanitized.sanitized_same ..

subsection \<open>The lexer and the checks of a token list\<close>

definition sample_env :: "int lexer_env" where
  "sample_env = \<lparr>parseFloat = (\<lambda>s. if s = ''1'' then Some 1 else None), ofUint64 = int,
     parseStringToTime = False, tryParseTime = (\<lambda>s. None), functionTable = (\<lambda>s. s = ''f'')\<rparr>"

text \<open>the tokens of a source text are non-empty pieces of it in their order and without overlap;
  each token's span holds the positions where its piece starts and ends, and its raw text is the
  piece, whatever was skipped as white space or comment in between.\<close>

theorem ParseTokens_pieces:
  assumes "ParseTokens env src = Ok (toks, pos, err)"
  shows "tokens_of src 0 toks"
  using parseTokensLoop_prefix [OF assms [unfolded ParseTokens_def], of src]
  by (auto simp: newLexerStream_def)

lemma ParseTokens_pieces_witness:
  "\<exists>toks pos. ParseTokens sample_env ''1 + x'' = Ok (toks, pos, None)
     \<and> map Raw toks = [''1'', ''+'', ''x''] \<and> tokens_of ''1 + x'' 0 toks"
proof -
  have "case ParseTokens sample_env ''1 + x'' of
      Ok (toks, pos, None) \<Rightarrow> map Raw toks = [''1'', ''+'', ''x''] | _ \<Rightarrow> False"
    by code_simp
  then obtain toks pos where "ParseTokens sample_env ''1 + x'' = Ok (toks, pos, None)"
    "map Raw toks = [''1'', ''+'', ''x'']"
    by (auto split: res.splits option.splits)
  with ParseTokens_pieces [OF this(1)] show ?thesis by (intro exI [of _ toks] exI [of _ pos]) simp
qed

text \<open>three texts on which \<open>ParseTokens\<close> panics instead of returning an error, whatever the
  functions: a lone dollar sign, and a name or a string that ends in a backslash.  Each time the lexer
  reads a character past the end of the text without asking \<open>canRead\<close>.\<close>

theorem ParseTokens_panics:
  "panics (ParseTokens env ''$'') \<and> panics (ParseTokens env [CHR ''a'', CHR 0x5C])
     \<and> panics (ParseTokens env [CHR 0x27, CHR 0x5C])"
  by (intro conjI) code_simp+

text \<open>\<open>checkBalance\<close> accepts exactly the token lists whose parentheses are balanced: the depth
  never becomes negative and ends at zero.\<close>

theorem checkBalance_depth: "checkBalance toks = Ok () \<longleftrightarrow> depth_ok 0 toks"
  by (simp add: checkBalance_def balanceLoop_depth_ok)


end
