(* ===== verification/ExprSql.thy ===== *)
theory ExprSql
  imports ExprPrint
begin

text \<open>
  The SQL form of an expression, \<open>expression_sql.go\<close>.  The output stream is the list of its
  transactions; Go's formatting of floats (\<open>%g\<close>), of times and of values (\<open>%v\<close>) is the record
  \<open>sql_env\<close>.
\<close>

record 'f sql_env =
  fmtG :: "'f \<Rightarrow> string"
  fmtDate :: "int \<Rightarrow> string"
  fmtAny :: "'f tvalue \<Rightarrow> string"

subsection \<open>The output stream\<close>

type_synonym expressionOutputStream = "string list"

definition eos_add :: "expressionOutputStream \<Rightarrow> string \<Rightarrow> expressionOutputStream" where
  "eos_add eos t = eos @ [t]"

definition rollback :: "expressionOutputStream \<Rightarrow> ('e, string \<times> expressionOutputStream) res" where
  "rollback eos = (if eos = [] then Panic else Ok (last eos, butlast eos))"

text \<open>\<open>eos.transactions[penultimate]\<close> panics on an empty stream, where \<open>penultimate\<close> is -1.\<close>

definition createString :: "string \<Rightarrow> expressionOutputStream \<Rightarrow> ('e, string) res" where
  "createString delimiter eos =
     (if eos = [] then Panic
      else Ok (concat (map (\<lambda>t. t @ delimiter) (butlast eos)) @ last eos))"

subsection \<open>findNextSQLString and ToSQLQuery\<close>

definition quote_sql :: "string \<Rightarrow> string" where
  "quote_sql s = CHR 0x27 # s @ [CHR 0x27]"

fun findNextSQLString ::
  "'f sql_env \<Rightarrow> 'f token_stream \<Rightarrow> expressionOutputStream
     \<Rightarrow> (parse_error, string \<times> 'f token_stream \<times> expressionOutputStream) res" where
  "findNextSQLString env [] eos = Panic"
| "findNextSQLString env (token # ts) eos =
     (let k = Kind token;
          emit = (\<lambda>s. Ok (s, ts, eos));
          binary = (\<lambda>f. rbind (rollback eos) (\<lambda>(left, eos1).
            rbind (findNextSQLString env ts eos1) (\<lambda>(right, ts', eos').
              Ok (f @ ''('' @ left @ '', '' @ right @ '')'', ts', eos'))))
      in
      if k = STRING then
        emit (quote_sql (case Value token of TVStr s \<Rightarrow> s | v \<Rightarrow> fmtAny env v))
      else if k = PATTERN then (case Value token of TVPattern p \<Rightarrow> emit (quote_sql p) | _ \<Rightarrow> Panic)
      else if k = TIME then (case Value token of TVTime t \<Rightarrow> emit (quote_sql (fmtDate env t)) | _ \<Rightarrow> Panic)
      else if k = LOGICALOP then
        rbind (value_string (Value token)) (\<lambda>s.
          emit (if logicalSymbols s = Some AND then ''AND''
                else if logicalSymbols s = Some OR then ''OR'' else []))
      else if k = BOOLEAN then
        (case Value token of TVBool b \<Rightarrow> emit (if b then ''1'' else ''0'') | _ \<Rightarrow> Panic)
      else if k = VARIABLE then
        rbind (value_string (Value token)) (\<lambda>s. emit (''['' @ s @ '']''))
      else if k = NUMERIC then (case Value token of TVNum x \<Rightarrow> emit (fmtG env x) | _ \<Rightarrow> Panic)
      else if k = COMPARATOR then
        rbind (value_string (Value token)) (\<lambda>s.
          emit (if comparatorSymbols s = Some EQ then ''=''
                else if comparatorSymbols s = Some NEQ then ''<>''
                else if comparatorSymbols s = Some REQ then ''RLIKE''
                else if comparatorSymbols s = Some NREQ then ''NOT RLIKE''
                else s))
      else if k = TERNARY then
        rbind (value_string (Value token)) (\<lambda>s.
          if ternarySymbols s = Some COALESCE then binary ''COALESCE''
          else if ternarySymbols s = Some TERNARY_TRUE \<or> ternarySymbols s = Some TERNARY_FALSE
          then Err (newParseError ''ternary_unsupported'' zeroSpan [])
          else emit [])
      else if k = PREFIX then
        rbind (value_string (Value token)) (\<lambda>s.
          if prefixSymbols s = Some INVERT then emit ''NOT''
          else rbind (findNextSQLString env ts eos) (\<lambda>(right, ts', eos'). Ok (s @ right, ts', eos')))
      else if k = MODIFIER then
        rbind (value_string (Value token)) (\<lambda>s.
          if modifierSymbols s = Some EXPONENT then binary ''POW''
          else if modifierSymbols s = Some MODULUS then binary ''MOD''
          else emit s)
      else if k = CLAUSE then emit ''(''
      else if k = CLAUSE_CLOSE then emit '')''
      else if k = SEPARATOR then emit '',''
      else Err (newParseError ''unrecognized_query_token'' zeroSpan []))"

declare findNextSQLString.simps(2) [simp del]

text \<open>The token at the head is consumed, and with it what its operand is made of.\<close>

lemma findNextSQLString_shorter:
  "findNextSQLString env ts eos = Ok (s, ts', eos') \<Longrightarrow> length ts' < length ts"
proof (induction ts arbitrary: eos s ts' eos')
  case Nil
  then show ?case by simp
next
  case (Cons token ts)
  from Cons.prems consider "ts' = ts"
    | eos1 r ts1 eos2 where "findNextSQLString env ts eos1 = Ok (r, ts1, eos2)" "ts' = ts1"
    by (auto simp: findNextSQLString.simps(2) Let_def rbind_Ok_iff split: if_splits tvalue.splits)
  then show ?case
    by cases (auto dest: Cons.IH)
qed

function sqlLoop ::
  "'f sql_env \<Rightarrow> 'f token_stream \<Rightarrow> expressionOutputStream \<Rightarrow> (parse_error, expressionOutputStream) res" where
  "sqlLoop env ts eos =
     (case ts of
        [] \<Rightarrow> Ok eos
      | t # ts0 \<Rightarrow>
          (case findNextSQLString env ts eos of
             Ok (s, ts', eos') \<Rightarrow> sqlLoop env ts' (eos_add eos' s)
           | Err e \<Rightarrow> Err e | Panic \<Rightarrow> Panic | NoFuel \<Rightarrow> NoFuel))"
  by pat_completeness auto
termination
  by (relation "measure (\<lambda>(env, ts, eos). length ts)") (auto dest!: findNextSQLString_shorter)

declare sqlLoop.simps [simp del]

definition ToSQLQuery :: "'f sql_env \<Rightarrow> 'f token list \<Rightarrow> (parse_error, string) res" where
  "ToSQLQuery env tokens =
     rbind (sqlLoop env (newTokenStream tokens) []) (createString '' '')"

subsection \<open>No panic on an accepted token list\<close>

text \<open>The form of a token's value that its kind promises.\<close>

definition well_typed :: "'f token \<Rightarrow> bool" where
  "well_typed t =
     (let k = Kind t; v = Value t in
      (k \<in> {LOGICALOP, VARIABLE, COMPARATOR, TERNARY, PREFIX, MODIFIER} \<longrightarrow> (\<exists>s. v = TVStr s))
      \<and> (k = PATTERN \<longrightarrow> (\<exists>p. v = TVPattern p)) \<and> (k = TIME \<longrightarrow> (\<exists>i. v = TVTime i))
      \<and> (k = BOOLEAN \<longrightarrow> (\<exists>b. v = TVBool b)) \<and> (k = NUMERIC \<longrightarrow> (\<exists>x. v = TVNum x)))"

lemma operand_follows:
  assumes "chain_ok k ts" "k \<in> {PREFIX, MODIFIER, TERNARY}"
  obtains t ts' where "ts = t # ts'" "Kind t \<notin> {MODIFIER, TERNARY}"
proof (cases ts)
  case Nil
  with assms show thesis by (auto simp: stateOf_isEOF)
next
  case (Cons t ts')
  with assms have "Kind t \<notin> {MODIFIER, TERNARY}"
    by (auto simp: canTransitionTo_def stateOf_def getLexerStateForToken_def validLexerStates_def)
  with Cons that show thesis by blast
qed

text \<open>A run of \<open>findNextSQLString\<close> that fails only with an error and stops inside the checked list.\<close>

definition sql_safe :: "(parse_error, string \<times> 'f token_stream \<times> expressionOutputStream) res \<Rightarrow> bool" where
  "sql_safe r = (case r of
     Ok (s, ts', eos') \<Rightarrow> \<exists>k. chain_ok k ts' \<and> (\<forall>t \<in> set ts'. well_typed t)
   | Err e \<Rightarrow> True | Panic \<Rightarrow> False | NoFuel \<Rightarrow> False)"

lemma sql_safe_simps [simp]:
  "sql_safe (Ok (s, ts', eos')) = (\<exists>k. chain_ok k ts' \<and> (\<forall>t \<in> set ts'. well_typed t))"
  "sql_safe (Err e)" "\<not> sql_safe Panic" "\<not> sql_safe NoFuel"
  by (simp_all add: sql_safe_def)

lemma sql_safe_rbind:
  "sql_safe m \<Longrightarrow> sql_safe (rbind m (\<lambda>(s, ts', eos'). Ok (f s, ts', eos')))"
  by (cases m) (auto simp: sql_safe_def)

lemma findNextSQLString_safe:
  "chain_ok k ts \<Longrightarrow> \<forall>t \<in> set ts. well_typed t \<Longrightarrow> ts \<noteq> [] \<Longrightarrow>
     (Kind (hd ts) \<in> {MODIFIER, TERNARY} \<Longrightarrow> eos \<noteq> []) \<Longrightarrow> sql_safe (findNextSQLString env ts eos)"
proof (induction ts arbitrary: k eos)
  case Nil
  then show ?case by simp
next
  case (Cons token ts)
  let ?k = "Kind token"
  have c: "chain_ok ?k ts" and wt: "\<forall>t \<in> set ts. well_typed t" and w: "well_typed token"
    using Cons.prems by auto
  have rest: "\<exists>k. chain_ok k ts \<and> (\<forall>t \<in> set ts. well_typed t)" using c wt by blast
  have next': "sql_safe (findNextSQLString env ts eos1)" if "?k \<in> {PREFIX, MODIFIER, TERNARY}" for eos1
  proof (rule operand_follows [OF c that])
    fix t ts'
    assume "ts = t # ts'" "Kind t \<notin> {MODIFIER, TERNARY}"
    then show ?thesis by (intro Cons.IH [OF c wt]) simp_all
  qed
  have binary: "sql_safe (rbind (rollback eos) (\<lambda>(left, eos1).
      rbind (findNextSQLString env ts eos1) (\<lambda>(right, ts', eos'). Ok (g left right, ts', eos'))))"
    if "?k \<in> {MODIFIER, TERNARY}" for g
    using that Cons.prems(4) next' by (auto simp: rollback_def intro: sql_safe_rbind)
  have str: "\<exists>s. Value token = TVStr s"
    if "?k \<in> {LOGICALOP, VARIABLE, COMPARATOR, TERNARY, PREFIX, MODIFIER}"
    using w that by (auto simp: well_typed_def Let_def)
  note eq = findNextSQLString.simps(2) [of env token ts eos, unfolded Let_def]
  consider "?k = LOGICALOP" | "?k = VARIABLE" | "?k = COMPARATOR" | "?k = TERNARY" | "?k = PREFIX"
    | "?k = MODIFIER" | "?k \<notin> {LOGICALOP, VARIABLE, COMPARATOR, TERNARY, PREFIX, MODIFIER}" by blast
  then show ?case
  proof cases
    case 1
    with str obtain s where "Value token = TVStr s" by auto
    with 1 rest show ?thesis by (simp add: eq)
  next
    case 2
    with str obtain s where "Value token = TVStr s" by auto
    with 2 rest show ?thesis by (simp add: eq)
  next
    case 3
    with str obtain s where "Value token = TVStr s" by auto
    with 3 rest show ?thesis by (simp add: eq)
  next
    case 4
    with str obtain s where v: "Value token = TVStr s" by auto
    show ?thesis
      using rest binary by (simp add: eq 4 v del: append.simps)
  next
    case 5
    with str obtain s where v: "Value token = TVStr s" by auto
    show ?thesis
      using rest sql_safe_rbind [OF next'] by (simp add: eq 5 v)
  next
    case 6
    with str obtain s where v: "Value token = TVStr s" by auto
    show ?thesis
      using rest binary by (simp add: eq 6 v del: append.simps)
  next
    case 7
    with w have "?k = PATTERN \<Longrightarrow> \<exists>p. Value token = TVPattern p"
      "?k = TIME \<Longrightarrow> \<exists>i. Value token = TVTime i" "?k = BOOLEAN \<Longrightarrow> \<exists>b. Value token = TVBool b"
      "?k = NUMERIC \<Longrightarrow> \<exists>x. Value token = TVNum x"
      by (simp_all add: well_typed_def Let_def)
    with 7 rest show ?thesis by (cases ?k) (auto simp: eq)
  qed
qed

lemma sqlLoop_safe:
  "chain_ok k ts \<Longrightarrow> \<forall>t \<in> set ts. well_typed t \<Longrightarrow>
     (ts \<noteq> [] \<Longrightarrow> Kind (hd ts) \<in> {MODIFIER, TERNARY} \<Longrightarrow> eos \<noteq> []) \<Longrightarrow>
     sqlLoop env ts eos \<noteq> Panic \<and> sqlLoop env ts eos \<noteq> NoFuel
       \<and> (ts \<noteq> [] \<or> eos \<noteq> [] \<longrightarrow> sqlLoop env ts eos \<noteq> Ok [])"
proof (induction env ts eos arbitrary: k rule: sqlLoop.induct)
  case (1 env ts eos)
  show ?case
  proof (cases ts)
    case Nil
    then show ?thesis by (simp add: sqlLoop.simps)
  next
    case (Cons t ts0)
    with "1.prems" have safe: "sql_safe (findNextSQLString env ts eos)"
      by (intro findNextSQLString_safe) auto
    show ?thesis
    proof (cases "findNextSQLString env ts eos")
      case (Ok a)
      obtain s ts' eos' where a: "a = (s, ts', eos')" by (cases a)
      from safe Ok a obtain k' where "chain_ok k' ts'" "\<forall>t \<in> set ts'. well_typed t" by auto
      from "1.IH" [OF Cons Ok a [symmetric] refl this] have
        "sqlLoop env ts' (eos_add eos' s) \<noteq> Panic \<and> sqlLoop env ts' (eos_add eos' s) \<noteq> NoFuel
         \<and> sqlLoop env ts' (eos_add eos' s) \<noteq> Ok []"
        by (simp add: eos_add_def)
      then show ?thesis
        by (subst (1 2 3) sqlLoop.simps) (simp add: Cons Ok [unfolded Cons] a)
    next
      case (Err e)
      then show ?thesis by (subst (1 2 3) sqlLoop.simps) (simp add: Cons)
    qed (use safe in \<open>simp_all\<close>)
  qed
qed

lemma createString_ok: "eos \<noteq> [] \<Longrightarrow> \<exists>s. createString d eos = Ok s"
  by (simp add: createString_def)


definition sample_sql :: "nat sql_env" where
  "sample_sql = \<lparr>fmtG = (\<lambda>n. replicate n CHR ''1''), fmtDate = (\<lambda>t. ''d''), fmtAny = (\<lambda>v. [])\<rparr>"


subsection \<open>Plain tokens\<close>

text \<open>A token whose SQL text needs no neighbour.\<close>

definition plain_sql :: "'f token \<Rightarrow> bool" where
  "plain_sql t =
     (Kind t \<noteq> TERNARY
      \<and> (Kind t = PREFIX \<longrightarrow> Value t = TVStr ''!'')
      \<and> (Kind t = MODIFIER \<longrightarrow> Value t \<noteq> TVStr ''%'' \<and> Value t \<noteq> TVStr ''**''))"

lemma operator_text:
  "modifierSymbols s = Some EXPONENT \<longleftrightarrow> s = ''**''" "modifierSymbols s = Some MODULUS \<longleftrightarrow> s = ''%''"
  "prefixSymbols s = Some INVERT \<longleftrightarrow> s = ''!''"
  by (auto simp: symbol_tables split: if_splits)

lemma plain_sql_token:
  assumes "plain_sql t" "findNextSQLString env [t] [] = Ok (s, [], [])"
  shows "findNextSQLString env (t # ts) eos = Ok (s, ts, eos)"
  using assms
  by (cases "Value t") (auto simp: plain_sql_def findNextSQLString.simps(2) Let_def operator_text
      split: if_splits)

lemma sqlLoop_plain:
  "list_all2 (\<lambda>t s. plain_sql t \<and> findNextSQLString env [t] [] = Ok (s, [], [])) ts ss \<Longrightarrow>
     sqlLoop env ts eos = Ok (eos @ ss)"
  by (induction ts ss arbitrary: eos rule: list_all2_induct)
    (simp_all add: sqlLoop.simps plain_sql_token eos_add_def)

lemma createString_joinWith: "eos \<noteq> [] \<Longrightarrow> createString d eos = Ok (joinWith d eos)"
  by (induction d eos rule: joinWith.induct) (simp_all add: createString_def)

text \<open>where no token needs a neighbour (no conditional or \<open>??\<close>, no prefix but \<open>!\<close>, no \<open>%\<close> and
  \<open>**\<close>), the SQL text is the tokens' own SQL texts in their order, separated by single blanks.\<close>

theorem ToSQLQuery_plain:
  assumes "list_all2 (\<lambda>t s. plain_sql t \<and> findNextSQLString env [t] [] = Ok (s, [], [])) toks ss"
    and "toks \<noteq> []"
  shows "ToSQLQuery env toks = Ok (joinWith '' '' ss)"
proof -
  from assms have "ss \<noteq> []" by auto
  with sqlLoop_plain [OF assms(1), of "[]"] show ?thesis
    by (simp add: ToSQLQuery_def newTokenStream_def createString_joinWith)
qed

lemma ToSQLQuery_plain_witness:
  "ToSQLQuery sample_sql [mk_token VARIABLE (TVStr ''a''), mk_token COMPARATOR (TVStr ''!=''),
     mk_token NUMERIC (TVNum 2)] = Ok ''[a] <> 11''"
proof -
  have "list_all2 (\<lambda>t s. plain_sql t \<and> findNextSQLString sample_sql [t] [] = Ok (s, [], []))
     [mk_token VARIABLE (TVStr ''a''), mk_token COMPARATOR (TVStr ''!=''), mk_token NUMERIC (TVNum 2)]
     [''[a]'', ''<>'', ''11'']"
    by (simp add: plain_sql_def findNextSQLString.simps(2) Let_def comparatorSymbols_def sample_sql_def
        numeral_2_eq_2)
  from ToSQLQuery_plain [OF this] show ?thesis by simp
qed

definition power_ast :: "'f ast" where
  "power_ast = ABin EXPONENT (AVar ''a'') (ABin EXPONENT (AVar ''b'') (AVar ''c''))"

definition modulus_ast :: "'f ast" where
  "modulus_ast = ABin MODULUS (ABin MULTIPLY (AVar ''a'') (AVar ''b'')) (AVar ''c'')"

definition clause_ast :: "'f ast" where
  "clause_ast = ABin MODULUS (AVar ''a'') (ABin PLUS (AVar ''b'') (AVar ''c''))"

lemmas sql_eval =
  print_ast.simps paren_def left_level_def bp_l_def bp_r_def infix_tok_def infix_kind_def
  infix_text_def ToSQLQuery_def newTokenStream_def sqlLoop.simps findNextSQLString.simps(2)
  eos_add_def rollback_def createString_def symbol_tables open_tok_def close_tok_def

text \<open>\<open>ToSQLQuery\<close> translates the operators \<open>**\<close> and \<open>%\<close> by what stands next to them and so
  differs from the parser: \<open>a ** b ** c\<close> means \<open>a ** (b ** c)\<close> but is written with the first power
  inside, \<open>a * b % c\<close> means \<open>(a * b) % c\<close> but is written as a product with a MOD, and a
  parenthesised operand is cut at its parenthesis.\<close>

theorem ToSQLQuery_precedence:
  "(parseStages unix (print_ast 0 power_ast) = Ok (stage_of power_ast)
    \<and> ToSQLQuery env (print_ast 0 power_ast) = Ok ''POW(POW([a], [b]), [c])'')
   \<and> (parseStages unix (print_ast 0 modulus_ast) = Ok (stage_of modulus_ast)
    \<and> ToSQLQuery env (print_ast 0 modulus_ast) = Ok ''[a] * MOD([b], [c])'')
   \<and> (parseStages unix (print_ast 0 clause_ast) = Ok (stage_of clause_ast)
    \<and> ToSQLQuery env (print_ast 0 clause_ast) = Ok ''MOD([a], () [b] + [c] )'')"
  by (intro conjI parseStages_readable wf_ast_readable)
    (simp_all add: power_ast_def modulus_ast_def clause_ast_def sql_eval)

text \<open>a string literal is put between quotes as it is: a quote in it ends the SQL literal early, so
  the text of a string expression decides what follows the literal.\<close>

theorem ToSQLQuery_string:
  "ToSQLQuery env [mk_token STRING (TVStr (s @ [CHR 0x27] @ rest))]
     = Ok (quote_sql s @ rest @ [CHR 0x27])"
  by (simp add: sql_eval quote_sql_def)

end
