(* ===== verification/SqlSplit.thy ===== *)
theory SqlSplit
  imports GoText
begin

text \<open>
  Splitting a script into statements, \<open>mods/util/split.go\<close>: SQL statements with their comments,
  lines, types and environments (\<open>SplitSqlStatements\<close>), fields (\<open>SplitFields\<close>) and HTTP statements
  (\<open>SplitHttpStatements\<close>).  The readers give valid text, one character at a time or line by line, and
  no line reaches the limit of \<open>bufio.Scanner\<close>.
\<close>

subsection \<open>Fields\<close>

text \<open>\<open>unicode.Quotation_Mark\<close> on Latin-1: the two ASCII quotes and the two guillemets.\<close>

definition isQuotationMark :: "char \<Rightarrow> bool" where
  "isQuotationMark c = (let n = code c in n = 34 \<or> n = 39 \<or> n = 171 \<or> n = 187)"

text \<open>
  The separator function of \<open>SplitFields\<close> with the quote it is in, \<open>None\<close> for \<open>rune(0)\<close>, as
  \<open>strings.FieldsFunc\<close> calls it: once for each character, in order.  A NUL character equals the
  \<open>rune(0)\<close> outside quotes.
\<close>

definition fieldSeparator :: "char \<Rightarrow> char \<Rightarrow> bool \<times> char" where
  "fieldSeparator lastQuote c =
     (if c = lastQuote then (False, CHR 0x00)
      else if lastQuote \<noteq> CHR 0x00 then (False, lastQuote)
      else if isQuotationMark c then (False, c)
      else (isSpace c, lastQuote))"

text \<open>\<open>FieldsFunc\<close>: the maximal runs of characters that are no separators; \<open>cur\<close> is the run so far.\<close>

fun fieldsLoop :: "char \<Rightarrow> string \<Rightarrow> string \<Rightarrow> string list" where
  "fieldsLoop q cur [] = (if cur = [] then [] else [cur])"
| "fieldsLoop q cur (c # cs) =
     (case fieldSeparator q c of
        (True, q') \<Rightarrow> (if cur = [] then fieldsLoop q' [] cs else cur # fieldsLoop q' [] cs)
      | (False, q') \<Rightarrow> fieldsLoop q' (cur @ [c]) cs)"

text \<open>\<open>strings.Trim(s, string(c))\<close> for one character.\<close>

definition trimChar :: "char \<Rightarrow> string \<Rightarrow> string" where
  "trimChar c s = rev (dropWhile (\<lambda>x. x = c) (rev (dropWhile (\<lambda>x. x = c) s)))"

text \<open>\<open>[]rune(f)[0]\<close> would panic on an empty field; there is none (\<open>fieldsLoop_nonempty\<close>).\<close>

definition stripField :: "string \<Rightarrow> string" where
  "stripField f = (let c = hd f in if isQuotationMark c then trimChar c f else f)"

definition SplitFields :: "string \<Rightarrow> bool \<Rightarrow> string list" where
  "SplitFields line stripQuote =
     (let fields = fieldsLoop (CHR 0x00) [] line in if stripQuote then map stripField fields else fields)"

definition StripQuote :: "string \<Rightarrow> string" where
  "StripQuote str =
     (if str = [] then str
      else (let c = hd str in if isQuotationMark c then trimChar c str else str))"

subsection \<open>Statement types\<close>

text \<open>\<open>ToUpper\<close> and \<open>ToLower\<close> on Latin-1, less U+00B5 and U+00FF whose upper case lies outside.\<close>

definition toUpperLatin :: "char \<Rightarrow> char" where
  "toUpperLatin c =
     (let n = code c in
      if isLowerAscii c \<or> (224 \<le> n \<and> n \<le> 254 \<and> n \<noteq> 247) then char_of (n - 32) else c)"

definition toLowerLatin :: "char \<Rightarrow> char" where
  "toLowerLatin c =
     (let n = code c in
      if isUpperAscii c \<or> (192 \<le> n \<and> n \<le> 222 \<and> n \<noteq> 215) then char_of (n + 32) else c)"

text \<open>The part of a token from its first letter to its last, in upper case.\<close>

definition normalizeSqlKeyword :: "string \<Rightarrow> string" where
  "normalizeSqlKeyword token =
     map toUpperLatin
       (rev (dropWhile (\<lambda>c. \<not> isLetter c) (rev (dropWhile (\<lambda>c. \<not> isLetter c) token))))"

definition mainVerbs :: "string list" where
  "mainVerbs = [''SELECT'', ''INSERT'', ''UPDATE'', ''DELETE'', ''MERGE'', ''CREATE'', ''ALTER'',
     ''DROP'', ''TRUNCATE'', ''EXPLAIN'', ''SHOW'', ''DESC'', ''DESCRIBE'', ''CALL'', ''EXEC'',
     ''EXECUTE'', ''GRANT'', ''REVOKE'']"

definition detectSqlStatementType :: "string \<Rightarrow> string" where
  "detectSqlStatementType statement =
     (case SplitFields (trimSpace statement) True of
        [] \<Rightarrow> []
      | t # tokens \<Rightarrow>
          (let primary = normalizeSqlKeyword t in
           if primary = [] then []
           else if primary = ''WITH'' then
             (case find (\<lambda>kw. kw \<in> set mainVerbs) (map normalizeSqlKeyword tokens) of
                Some kw \<Rightarrow> map toLowerLatin kw
              | None \<Rightarrow> map toLowerLatin primary)
           else map toLowerLatin primary))"

text \<open>\<open>strings.EqualFold\<close> with an ASCII lower-case word.\<close>

definition equalFold :: "string \<Rightarrow> string \<Rightarrow> bool" where
  "equalFold s w = (map toLowerAscii s = w)"

definition doubleDashAsFlags :: "string list list" where
  "doubleDashAsFlags = [[''explain''], [''desc''], [''show'', ''tables''], [''show'', ''table'']]"

definition flagPrefixMatches :: "string list \<Rightarrow> string list \<Rightarrow> bool" where
  "flagPrefixMatches tokens prefix =
     (length prefix \<le> length tokens
      \<and> list_all2 equalFold (take (length prefix) tokens) prefix
      \<and> list_all (\<lambda>t. hasPrefix t ''--'') (drop (length prefix) tokens))"

definition treatDoubleDashAsFlag :: "string \<Rightarrow> bool" where
  "treatDoubleDashAsFlag statement =
     (let tokens = SplitFields (trimSpace statement) True in
      tokens \<noteq> [] \<and> list_ex (flagPrefixMatches tokens) doubleDashAsFlags)"

subsection \<open>Statement environments\<close>

record sql_env =
  env_Error :: string
  env_Bridge :: string

definition emptyEnv :: sql_env where "emptyEnv = \<lparr>env_Error = [], env_Bridge = []\<rparr>"

definition env_Reset :: "sql_env \<Rightarrow> sql_env" where "env_Reset e = e\<lparr>env_Error := [], env_Bridge := []\<rparr>"

text \<open>
  The regular expression of \<open>ParseNameValuePairs\<close> as a matcher: a name of \<open>[\w-_.]\<close>, then, if it can be
  matched, an equals sign with a quoted value or, failing that, a run of characters that are no
  blanks.
\<close>

definition isNameChar :: "char \<Rightarrow> bool" where
  "isNameChar c = (isDigit c \<or> isUpperAscii c \<or> isLowerAscii c \<or> c \<in> {CHR ''_'', CHR ''-'', CHR ''.''})"

text \<open>The length of the quoted value after its opening quote, closing quote included.\<close>

fun quotedLength :: "string \<Rightarrow> nat option" where
  "quotedLength [] = None"
| "quotedLength (c # cs) =
     (if c = CHR 0x22 then Some 1
      else if c = CHR 0x5C then
        (case cs of
           [] \<Rightarrow> None
         | d # ds \<Rightarrow> if d = NL then None else map_option (\<lambda>n. n + 2) (quotedLength ds))
      else map_option Suc (quotedLength cs))"

definition valueLength :: "string \<Rightarrow> nat option" where
  "valueLength s =
     (case s of
        [] \<Rightarrow> None
      | c # cs \<Rightarrow>
          (case (if c = CHR 0x22 then quotedLength cs else None) of
             Some n \<Rightarrow> Some (Suc n)
           | None \<Rightarrow>
               (let n = length (takeWhile (\<lambda>x. x \<noteq> CHR '' '') s) in if n = 0 then None else Some n)))"

text \<open>The next match: name, raw value and the text after it.\<close>

definition nextPair :: "string \<Rightarrow> (string \<times> string \<times> string) option" where
  "nextPair s =
     (case dropWhile (\<lambda>c. \<not> isNameChar c) s of
        [] \<Rightarrow> None
      | c # cs \<Rightarrow>
          (let key = takeWhile isNameChar (c # cs); rest = dropWhile isNameChar (c # cs) in
           case (case rest of [] \<Rightarrow> None | e # es \<Rightarrow> if e = CHR ''='' then valueLength es else None) of
             None \<Rightarrow> Some (key, [], rest)
           | Some n \<Rightarrow> Some (key, take n (tl rest), drop n (tl rest))))"

lemma nextPair_shorter:
  assumes "nextPair s = Some (k, v, r)"
  shows "length r < length s"
proof -
  obtain c cs where d: "dropWhile (\<lambda>c. \<not> isNameChar c) s = c # cs"
    using assms by (auto simp: nextPair_def split: list.splits)
  then have c: "isNameChar c" and s: "length (c # cs) \<le> length s"
    by (metis hd_dropWhile list.distinct(1) list.sel(1), metis length_dropWhile_le)
  let ?rest = "dropWhile isNameChar (c # cs)"
  have r: "length ?rest < length s"
    using c s length_dropWhile_le [of isNameChar cs] by simp
  from assms have "r = ?rest \<or> (\<exists>n. r = drop n (tl ?rest))"
    by (auto simp: nextPair_def d Let_def simp del: dropWhile.simps split: option.splits)
  with r show ?thesis by auto
qed

function matchPairs :: "string \<Rightarrow> (string \<times> string) list" where
  "matchPairs s = (case nextPair s of None \<Rightarrow> [] | Some (k, v, r) \<Rightarrow> (k, v) # matchPairs r)"
  by pat_completeness auto
termination
  by (relation "measure length") (auto dest: nextPair_shorter)

declare matchPairs.simps [simp del]

text \<open>\<open>strings.ReplaceAll\<close> of an escaped quote by a quote.\<close>

fun unescapeQuotes :: "string \<Rightarrow> string" where
  "unescapeQuotes (a # b # s) =
     (if a = CHR 0x5C \<and> b = CHR 0x22 then CHR 0x22 # unescapeQuotes s else a # unescapeQuotes (b # s))"
| "unescapeQuotes s = s"

text \<open>\<open>value[1:len(value)-1]\<close> panics on a value that is a single quote.\<close>

definition pairValue :: "string \<Rightarrow> (unit, string) res" where
  "pairValue v =
     (if v = [] then Ok []
      else if hd v = CHR 0x22 \<and> last v = CHR 0x22 then
        (if length v = 1 then Panic else Ok (unescapeQuotes (butlast (tl v))))
      else Ok v)"

fun pairValues :: "(string \<times> string) list \<Rightarrow> (unit, (string \<times> string) list) res" where
  "pairValues [] = Ok []"
| "pairValues ((k, v) # ps) = rbind (pairValue v) (\<lambda>w. rmap (\<lambda>qs. (k, w) # qs) (pairValues ps))"

definition ParseNameValuePairs :: "string \<Rightarrow> (unit, (string \<times> string) list) res" where
  "ParseNameValuePairs input = pairValues (matchPairs input)"

definition applyPair :: "sql_env \<Rightarrow> string \<times> string \<Rightarrow> sql_env" where
  "applyPair env p =
     (if fst p = ''bridge'' then env\<lparr>env_Bridge := snd p\<rparr>
      else if fst p = ''reset'' then env_Reset env
      else env\<lparr>env_Error := ''unknown env: '' @ fst p\<rparr>)"

definition ParseStatementEnv :: "sql_env \<Rightarrow> string \<Rightarrow> (unit, sql_env) res" where
  "ParseStatementEnv prev txt0 =
     (let txt = trimSpace (trimPrefix txt0 ''--'') in
      if \<not> hasPrefix txt ''env:'' then Ok prev
      else rbind (ParseNameValuePairs (trimSpace (trimPrefix txt ''env:''))) (\<lambda>pairs.
        if pairs = [] then Ok prev else Ok (foldl applyPair prev pairs)))"

subsection \<open>SplitSqlStatements\<close>

record sql_statement =
  st_Text :: string
  st_BeginLine :: nat
  st_EndLine :: nat
  st_IsComment :: bool
  st_StmtType :: string
  st_Env :: sql_env

text \<open>The local variables of the scanning loop.\<close>

record sql_scan =
  sc_env :: sql_env
  sc_statements :: "sql_statement list"
  sc_buffer :: string
  sc_comment :: string
  sc_inString :: bool
  sc_inComment :: bool
  sc_dash :: bool
  sc_slash :: bool
  sc_line :: nat
  sc_start :: nat

definition scanInit :: sql_scan where
  "scanInit = \<lparr>sc_env = emptyEnv, sc_statements = [], sc_buffer = [], sc_comment = [],
     sc_inString = False, sc_inComment = False, sc_dash = False, sc_slash = False,
     sc_line = 1, sc_start = 1\<rparr>"

definition isBlank :: "string \<Rightarrow> bool" where
  "isBlank s = (trimSpace s = [])"

text \<open>A character of a comment; the newline that ends it is still added to the comment's buffer.\<close>

definition scanComment :: "sql_scan \<Rightarrow> char \<Rightarrow> (unit, sql_scan) res" where
  "scanComment sc c =
     rbind (if c = NL then
              rbind (ParseStatementEnv (sc_env sc) (sc_comment sc)) (\<lambda>env.
                Ok (let sc1 = sc\<lparr>sc_inComment := False, sc_env := env,
                        sc_statements := sc_statements sc @
                          [\<lparr>st_Text = sc_comment sc, st_BeginLine = sc_start sc, st_EndLine = sc_line sc,
                            st_IsComment = True, st_StmtType = [], st_Env = env\<rparr>],
                        sc_line := Suc (sc_line sc)\<rparr>
                    in if isBlank (sc_buffer sc1) then sc1\<lparr>sc_start := sc_line sc1\<rparr> else sc1))
            else Ok sc)
       (\<lambda>sc2. Ok (if c \<noteq> CR then sc2\<lparr>sc_comment := sc_comment sc2 @ [c]\<rparr> else sc2))"

text \<open>What the code after the switch does with a character that is kept.\<close>

definition scanKeep :: "sql_scan \<Rightarrow> char \<Rightarrow> sql_scan" where
  "scanKeep sc c =
     (if isBlank (sc_buffer sc) \<and> c \<in> {CHR '' '', TAB, CR, NL} then sc\<lparr>sc_start := sc_line sc\<rparr>
      else (let sc1 = (if sc_dash sc then sc\<lparr>sc_buffer := sc_buffer sc @ ''-'', sc_dash := False\<rparr> else sc);
                sc2 = (if sc_slash sc1 then sc1\<lparr>sc_buffer := sc_buffer sc1 @ ''/'', sc_slash := False\<rparr> else sc1)
            in sc2\<lparr>sc_buffer := sc_buffer sc2 @ [c]\<rparr>))"

definition textStatement :: "sql_scan \<Rightarrow> string \<Rightarrow> sql_statement" where
  "textStatement sc s =
     \<lparr>st_Text = s, st_BeginLine = sc_start sc, st_EndLine = sc_line sc, st_IsComment = False,
      st_StmtType = detectSqlStatementType s, st_Env = sc_env sc\<rparr>"

definition scanStep :: "sql_scan \<Rightarrow> char \<Rightarrow> (unit, sql_scan) res" where
  "scanStep sc c =
     (if sc_inComment sc then scanComment sc c
      else if c = CHR 0x27 then Ok (scanKeep (sc\<lparr>sc_inString := \<not> sc_inString sc\<rparr>) c)
      else if c = CHR ''-'' \<and> \<not> sc_inString sc then
        (if sc_dash sc then
           (if treatDoubleDashAsFlag (sc_buffer sc)
            then Ok (sc\<lparr>sc_buffer := sc_buffer sc @ ''--'', sc_dash := False\<rparr>)
            else Ok (sc\<lparr>sc_comment := ''--'', sc_inComment := True, sc_dash := False\<rparr>))
         else Ok (sc\<lparr>sc_dash := True\<rparr>))
      else if c = CHR ''/'' \<and> \<not> sc_inString sc then
        (if sc_slash sc then Ok (sc\<lparr>sc_comment := ''//'', sc_inComment := True, sc_slash := False\<rparr>)
         else Ok (sc\<lparr>sc_slash := True\<rparr>))
      else if c = CHR '';'' \<and> \<not> sc_inString sc then
        Ok (sc\<lparr>sc_statements := sc_statements sc @ [textStatement sc (sc_buffer sc @ '';'')],
               sc_buffer := [], sc_start := sc_line sc\<rparr>)
      else if c = NL then Ok (scanKeep (sc\<lparr>sc_line := Suc (sc_line sc)\<rparr>) c)
      else Ok (scanKeep sc c))"

fun scanAll :: "sql_scan \<Rightarrow> string \<Rightarrow> (unit, sql_scan) res" where
  "scanAll sc [] = Ok sc"
| "scanAll sc (c # cs) = rbind (scanStep sc c) (\<lambda>sc'. scanAll sc' cs)"

definition scanFinish :: "sql_scan \<Rightarrow> sql_statement list" where
  "scanFinish sc =
     (if isBlank (sc_buffer sc) then sc_statements sc
      else sc_statements sc @ [textStatement sc (sc_buffer sc)])"

definition SplitSqlStatements :: "string \<Rightarrow> (unit, sql_statement list) res" where
  "SplitSqlStatements src = rmap scanFinish (scanAll scanInit src)"

end
