(* ===== verification/SqlSplitProps.thy ===== *)
theory SqlSplitProps
  imports SqlSplit
begin

text \<open>
  What the splitter of \<open>split.go\<close> keeps: the lines of the statements, the content of the script, quoted
  text; and the scripts on which it goes wrong.
\<close>

subsection \<open>Fields\<close>

lemma fieldsLoop_nonempty: "f \<in> set (fieldsLoop q cur cs) \<Longrightarrow> f \<noteq> []"
  by (induction q cur cs rule: fieldsLoop.induct) (auto split: if_splits prod.splits bool.splits)

lemma fieldSeparator_space: "fieldSeparator q c = (True, q') \<Longrightarrow> isSpace c"
  by (auto simp: fieldSeparator_def split: if_splits)

lemma fieldsLoop_content:
  "filter (\<lambda>c. \<not> isSpace c) (concat (fieldsLoop q cur cs)) = filter (\<lambda>c. \<not> isSpace c) (cur @ cs)"
  by (induction q cur cs rule: fieldsLoop.induct)
    (auto split: prod.splits bool.splits dest: fieldSeparator_space)

lemma fieldsLoop_quoted:
  "q \<noteq> CHR 0x00 \<Longrightarrow> q \<notin> set s \<Longrightarrow> fieldsLoop q cur (s @ [q]) = [cur @ s @ [q]]"
  by (induction s arbitrary: cur) (auto simp: fieldSeparator_def)

lemma quotation_not_nul: "isQuotationMark c \<Longrightarrow> c \<noteq> CHR 0x00"
  by (auto simp: isQuotationMark_def code_def)

lemma dropWhile_absent: "q \<notin> set xs \<Longrightarrow> dropWhile (\<lambda>x. x = q) xs = xs"
  by (cases xs) auto

lemma trimChar_quoted: "q \<notin> set s \<Longrightarrow> trimChar q (q # s @ [q]) = s"
  by (cases s) (auto simp: trimChar_def dropWhile_absent dropWhile_append3)

text \<open>the fields of a line hold all its characters but white space, in order, and none is empty, so
  that stripping quotes can look at a field's first character; a quoted text is one field, blanks
  included, and stripping gives the text between the quotes.\<close>

theorem SplitFields_content:
  "filter (\<lambda>c. \<not> isSpace c) (concat (SplitFields line False)) = filter (\<lambda>c. \<not> isSpace c) line
   \<and> [] \<notin> set (SplitFields line False)
   \<and> (isQuotationMark q \<and> q \<notin> set s \<longrightarrow> SplitFields (q # s @ [q]) True = [s])"
proof (intro conjI impI)
  assume q: "isQuotationMark q \<and> q \<notin> set s"
  then have "fieldsLoop (CHR 0x00) [] (q # s @ [q]) = [q # s @ [q]]"
    using quotation_not_nul [of q] fieldsLoop_quoted [of q s "[q]"] by (simp add: fieldSeparator_def)
  with q show "SplitFields (q # s @ [q]) True = [s]"
    by (simp add: SplitFields_def stripField_def trimChar_quoted)
qed (use fieldsLoop_nonempty in \<open>auto simp: SplitFields_def fieldsLoop_content\<close>)

lemma SplitFields_content_witness:
  "SplitFields (CHR 0x22 # ''a b'' @ [CHR 0x22]) True = [''a b'']"
  using SplitFields_content [of "[]" "CHR 0x22" "''a b''"] by (simp add: isQuotationMark_def code_def)

subsection \<open>Lines\<close>

definition lines_ok :: "nat \<Rightarrow> sql_statement list \<Rightarrow> bool" where
  "lines_ok n ss = ((\<forall>s \<in> set ss. 1 \<le> st_BeginLine s \<and> st_BeginLine s \<le> st_EndLine s \<and> st_EndLine s \<le> n)
     \<and> sorted (map st_EndLine ss))"

lemma lines_ok_append:
  "lines_ok n ss \<Longrightarrow> 1 \<le> st_BeginLine s \<Longrightarrow> st_BeginLine s \<le> st_EndLine s \<Longrightarrow> st_EndLine s = n \<Longrightarrow>
     lines_ok n (ss @ [s])"
  by (auto simp: lines_ok_def sorted_append)

lemma lines_ok_mono: "lines_ok n ss \<Longrightarrow> n \<le> m \<Longrightarrow> lines_ok m ss"
  by (fastforce simp: lines_ok_def)

definition scan_lines :: "sql_scan \<Rightarrow> bool" where
  "scan_lines sc = (1 \<le> sc_start sc \<and> sc_start sc \<le> sc_line sc \<and> lines_ok (sc_line sc) (sc_statements sc))"

lemma scanKeep_lines:
  "scan_lines sc \<Longrightarrow> scan_lines (scanKeep sc c)" "sc_line (scanKeep sc c) = sc_line sc"
  by (auto simp: scanKeep_def scan_lines_def Let_def)

lemma scanComment_lines:
  assumes "scan_lines sc" "scanComment sc c = Ok sc'"
  shows "scan_lines sc' \<and> sc_line sc' = (if c = NL then Suc (sc_line sc) else sc_line sc)"
proof (cases "c = NL")
  case False
  with assms show ?thesis by (auto simp: scanComment_def scan_lines_def)
next
  case True
  have "NL \<noteq> CR" by (simp add: NL_def CR_def)
  moreover have "lines_ok (Suc (sc_line sc)) (sc_statements sc @
      [\<lparr>st_Text = sc_comment sc, st_BeginLine = sc_start sc, st_EndLine = sc_line sc,
        st_IsComment = True, st_StmtType = [], st_Env = env\<rparr>])" for env
    using assms(1) by (intro lines_ok_mono [OF lines_ok_append]) (auto simp: scan_lines_def)
  ultimately show ?thesis
    using assms True by (auto simp: scanComment_def scan_lines_def rbind_Ok_iff Let_def)
qed

lemma scanStep_other:
  assumes "\<not> sc_inComment sc" "c \<noteq> CHR 0x27" "\<not> (c = CHR ''-'' \<and> \<not> sc_inString sc)"
    "\<not> (c = CHR ''/'' \<and> \<not> sc_inString sc)" "\<not> (c = CHR '';'' \<and> \<not> sc_inString sc)" "c \<noteq> NL"
  shows "scanStep sc c = Ok (scanKeep sc c)"
  unfolding scanStep_def by (simp only: assms if_False)

lemma scanStep_cases:
  assumes "\<not> sc_inComment sc"
  obtains "c = CHR 0x27" | "c = CHR ''-'' \<and> \<not> sc_inString sc" | "c = CHR ''/'' \<and> \<not> sc_inString sc"
    | "c = CHR '';'' \<and> \<not> sc_inString sc" | "c = NL"
    | "scanStep sc c = Ok (scanKeep sc c)" "c \<noteq> NL"
proof (cases "c = CHR 0x27 \<or> c \<in> {CHR ''-'', CHR ''/'', CHR '';''} \<and> \<not> sc_inString sc \<or> c = NL")
  case True
  with that(1-5) show thesis by blast
next
  case False
  with assms have "scanStep sc c = Ok (scanKeep sc c)" by (intro scanStep_other) auto
  with False that(6) show thesis by blast
qed

lemma scanStep_lines:
  assumes w: "scan_lines sc" and run: "scanStep sc c = Ok sc'"
  shows "scan_lines sc' \<and> sc_line sc' = (if c = NL then Suc (sc_line sc) else sc_line sc)"
proof (cases "sc_inComment sc")
  case True
  with scanComment_lines [OF w] run show ?thesis by (simp add: scanStep_def)
next
  case False
  have stmt: "lines_ok (sc_line sc) (sc_statements sc @ [textStatement sc t])" for t
    using w by (intro lines_ok_append) (auto simp: scan_lines_def textStatement_def)
  have next': "scan_lines (sc\<lparr>sc_line := Suc (sc_line sc)\<rparr>)"
    using w by (auto simp: scan_lines_def intro: lines_ok_mono)
  have flip: "scan_lines (sc\<lparr>sc_inString := b\<rparr>)" for b using w by (simp add: scan_lines_def)
  consider "c = CHR 0x27" | "c = CHR ''-'' \<and> \<not> sc_inString sc" | "c = CHR ''/'' \<and> \<not> sc_inString sc"
    | "c = CHR '';'' \<and> \<not> sc_inString sc" | "c = NL"
    | "scanStep sc c = Ok (scanKeep sc c)" "c \<noteq> NL"
    by (rule scanStep_cases [OF False])
  then show ?thesis
  proof cases
    case 1
    with run False scanKeep_lines(1) [OF flip] scanKeep_lines(2) show ?thesis
      by (auto simp: scanStep_def NL_def)
  next
    case 5
    with run False scanKeep_lines(1) [OF next'] scanKeep_lines(2) show ?thesis
      by (auto simp: scanStep_def NL_def)
  next
    case 6
    with run w scanKeep_lines show ?thesis by auto
  next
    case 4
    with run False stmt w show ?thesis by (auto simp: scanStep_def NL_def scan_lines_def)
  qed (use run False w in \<open>auto simp: scanStep_def NL_def scan_lines_def split: if_splits\<close>)
qed

lemma scanAll_lines:
  "scan_lines sc \<Longrightarrow> scanAll sc cs = Ok sc' \<Longrightarrow>
     scan_lines sc' \<and> sc_line sc' = sc_line sc + count_list cs NL"
proof (induction cs arbitrary: sc)
  case Nil
  then show ?case by simp
next
  case (Cons c cs)
  then obtain sc1 where s: "scanStep sc c = Ok sc1" and r: "scanAll sc1 cs = Ok sc'"
    by (auto simp: rbind_Ok_iff)
  from scanStep_lines [OF Cons.prems(1) s] Cons.IH [OF _ r] show ?case by auto
qed

lemma scanInit_lines: "scan_lines scanInit"
  by (simp add: scan_lines_def scanInit_def lines_ok_def)

text \<open>the line numbers of the statements and comments of a script: each begins at line 1 or later,
  does not end before it begins, and ends no later than the script's last line, which is one more than
  it has newlines; they are listed in the order of their last lines.\<close>

theorem SplitSqlStatements_lines:
  assumes "SplitSqlStatements src = (Ok ss)"
  shows "lines_ok (Suc (count_list src NL)) ss"
proof -
  from assms obtain sc where sc: "scanAll scanInit src = (Ok sc)"
    and ss: "ss = scanFinish sc"
    by (auto simp: SplitSqlStatements_def rmap_Ok_iff)
  from scanAll_lines [OF scanInit_lines sc]
  have "scan_lines sc" "sc_line sc = Suc (count_list src NL)" by (simp_all add: scanInit_def)
  then show ?thesis
    by (auto simp: ss scanFinish_def scan_lines_def textStatement_def intro: lines_ok_append)
qed

lemma SplitSqlStatements_lines_witness:
  "\<exists>ss. SplitSqlStatements (''a'' @ [NL] @ ''b;'') = Ok ss \<and> ss \<noteq> []
     \<and> lines_ok (Suc (count_list (''a'' @ [NL] @ ''b;'') NL)) ss"
proof -
  have "case SplitSqlStatements (''a'' @ [NL] @ ''b;'') of Ok ss \<Rightarrow> ss \<noteq> [] | _ \<Rightarrow> False"
    by code_simp
  then obtain ss where "SplitSqlStatements (''a'' @ [NL] @ ''b;'') = Ok ss" "ss \<noteq> []"
    by (auto split: res.splits)
  with SplitSqlStatements_lines [OF this(1)] show ?thesis by (intro exI [of _ ss]) simp
qed

subsection \<open>Content\<close>

definition nonblank :: "string \<Rightarrow> string" where
  "nonblank s = filter (\<lambda>c. \<not> isSpace c) s"

lemma nonblank_append [simp]: "nonblank (s @ t) = nonblank s @ nonblank t"
  by (simp add: nonblank_def)

lemma nonblank_Nil [simp]: "nonblank [] = []"
  by (simp add: nonblank_def)

lemma isBlank_nonblank: "isBlank s \<longleftrightarrow> nonblank s = []"
  by (auto simp: isBlank_def trimSpace_empty_iff nonblank_def filter_empty_conv)

text \<open>What has been read and not dropped: the statements' texts and the buffer.\<close>

definition scan_text :: "sql_scan \<Rightarrow> string" where
  "scan_text sc = concat (map st_Text (sc_statements sc)) @ sc_buffer sc"

definition settled :: "sql_scan \<Rightarrow> bool" where
  "settled sc = (\<not> sc_inComment sc \<and> \<not> sc_dash sc \<and> \<not> sc_slash sc)"

lemma scanKeep_text:
  assumes "settled sc"
  shows "settled (scanKeep sc c)" "nonblank (scan_text (scanKeep sc c)) = nonblank (scan_text sc) @ nonblank [c]"
  using assms by (auto simp: scanKeep_def settled_def scan_text_def Let_def nonblank_def)

lemma scanStep_text:
  assumes w: "settled sc" and run: "scanStep sc c = Ok sc'" and c: "c \<noteq> CHR ''-''" "c \<noteq> CHR ''/''"
  shows "settled sc' \<and> nonblank (scan_text sc') = nonblank (scan_text sc) @ nonblank [c]"
proof -
  have nc: "\<not> sc_inComment sc" using w by (simp add: settled_def)
  have flip: "settled (sc\<lparr>sc_inString := b\<rparr>)" "scan_text (sc\<lparr>sc_inString := b\<rparr>) = scan_text sc" for b
    using w by (simp_all add: settled_def scan_text_def)
  have line: "settled (sc\<lparr>sc_line := n\<rparr>)" "scan_text (sc\<lparr>sc_line := n\<rparr>) = scan_text sc" for n
    using w by (simp_all add: settled_def scan_text_def)
  from scanStep_cases [OF nc] consider "c = CHR 0x27" | "c = CHR '';'' \<and> \<not> sc_inString sc" | "c = NL"
    | "scanStep sc c = Ok (scanKeep sc c)"
    using c by metis
  then show ?thesis
  proof cases
    case 1
    with run nc scanKeep_text [OF flip(1)] flip(2) show ?thesis by (auto simp: scanStep_def)
  next
    case 2
    with run nc w show ?thesis
      by (auto simp: scanStep_def settled_def scan_text_def textStatement_def nonblank_def)
  next
    case 3
    with run nc scanKeep_text [OF line(1)] line(2) show ?thesis
      by (auto simp: scanStep_def NL_def)
  next
    case 4
    with run have "sc' = scanKeep sc c" by simp
    with scanKeep_text [OF w] show ?thesis by simp
  qed
qed

lemma scanAll_text:
  "settled sc \<Longrightarrow> scanAll sc cs = Ok sc' \<Longrightarrow> CHR ''-'' \<notin> set cs \<Longrightarrow> CHR ''/'' \<notin> set cs \<Longrightarrow>
     nonblank (scan_text sc') = nonblank (scan_text sc) @ nonblank cs"
proof (induction cs arbitrary: sc)
  case Nil
  then show ?case by (simp add: nonblank_def)
next
  case (Cons c cs)
  then obtain sc1 where s: "scanStep sc c = Ok sc1" and r: "scanAll sc1 cs = Ok sc'"
    by (auto simp: rbind_Ok_iff)
  from scanStep_text [OF Cons.prems(1) s] Cons.prems(3,4) Cons.IH [OF _ r] show ?case
    by (auto simp: nonblank_def)
qed

text \<open>a script without dashes and slashes is split without loss: the texts of its statements, put
  together, are the script up to white space, nothing dropped, repeated or reordered.\<close>

theorem SplitSqlStatements_content:
  assumes "SplitSqlStatements src = Ok ss" "CHR ''-'' \<notin> set src" "CHR ''/'' \<notin> set src"
  shows "nonblank (concat (map st_Text ss)) = nonblank src"
proof -
  from assms(1) obtain sc where sc: "scanAll scanInit src = Ok sc" and ss: "ss = scanFinish sc"
    by (auto simp: SplitSqlStatements_def rmap_Ok_iff)
  have "nonblank (scan_text sc) = nonblank src"
    using scanAll_text [OF _ sc assms(2,3)] by (simp add: settled_def scanInit_def scan_text_def)
  then show ?thesis
    by (auto simp: ss scanFinish_def scan_text_def textStatement_def isBlank_nonblank)
qed

lemma SplitSqlStatements_content_witness:
  "\<exists>ss. SplitSqlStatements ''a; b'' = Ok ss \<and> nonblank (concat (map st_Text ss)) = ''a;b''"
proof -
  have "case SplitSqlStatements ''a; b'' of Ok ss \<Rightarrow> True | _ \<Rightarrow> False" by code_simp
  then obtain ss where "SplitSqlStatements ''a; b'' = Ok ss" by (auto split: res.splits)
  with SplitSqlStatements_content [OF this] show ?thesis
    by (simp add: nonblank_def isSpace_def code_def)
qed

subsection \<open>Quoted text\<close>

text \<open>Characters that mean nothing outside quotes, and a run of them or of quoted ones.\<close>

definition ordinary :: "char \<Rightarrow> bool" where
  "ordinary c = (c \<notin> {CHR 0x27, CHR ''-'', CHR ''/'', CHR '';''})"

definition keeps :: "sql_scan \<Rightarrow> string \<Rightarrow> sql_scan" where
  "keeps sc s = sc\<lparr>sc_buffer := sc_buffer sc @ s, sc_line := sc_line sc + count_list s NL\<rparr>"

lemma scanKeep_filled:
  "settled sc \<Longrightarrow> \<not> isBlank (sc_buffer sc) \<Longrightarrow> scanKeep sc c = sc\<lparr>sc_buffer := sc_buffer sc @ [c]\<rparr>"
  by (simp add: scanKeep_def settled_def Let_def)

lemma scanAll_keeps:
  "settled sc \<Longrightarrow> \<not> isBlank (sc_buffer sc) \<Longrightarrow>
     (if sc_inString sc then CHR 0x27 \<notin> set s else \<forall>c \<in> set s. ordinary c) \<Longrightarrow>
     scanAll sc s = Ok (keeps sc s)"
proof (induction s arbitrary: sc)
  case Nil
  then show ?case by (simp add: keeps_def)
next
  case (Cons c s)
  let ?sc1 = "keeps sc [c]"
  have c: "c \<noteq> CHR 0x27" "\<not> sc_inString sc \<Longrightarrow> ordinary c"
    using Cons.prems(3) by (auto simp: ordinary_def split: if_splits)
  have 1: "settled ?sc1" "\<not> isBlank (sc_buffer ?sc1)" "sc_inString ?sc1 = sc_inString sc"
    using Cons.prems(1,2) by (auto simp: keeps_def settled_def isBlank_nonblank)
  have nc: "\<not> sc_inComment sc" using Cons.prems(1) by (simp add: settled_def)
  have special: "\<not> (c = x \<and> \<not> sc_inString sc)" if "x \<in> {CHR ''-'', CHR ''/'', CHR '';''}" for x
    using c(2) that by (auto simp: ordinary_def)
  have "scanStep sc c = Ok ?sc1"
  proof (cases "c = NL")
    case True
    then have "scanStep sc c = Ok (scanKeep (sc\<lparr>sc_line := Suc (sc_line sc)\<rparr>) c)"
      using nc by (simp add: scanStep_def NL_def)
    also have "scanKeep (sc\<lparr>sc_line := Suc (sc_line sc)\<rparr>) c = ?sc1"
      using Cons.prems(1,2) True by (subst scanKeep_filled) (simp_all add: settled_def keeps_def)
    finally show ?thesis .
  next
    case False
    have "scanStep sc c = Ok (scanKeep sc c)"
      by (rule scanStep_other [OF nc c(1) _ _ _ False]; rule special; simp)
    with False Cons.prems(1,2) show ?thesis by (simp add: scanKeep_filled keeps_def)
  qed
  moreover have "scanAll ?sc1 s = Ok (keeps ?sc1 s)"
    using Cons.prems(3) 1 by (intro Cons.IH) (auto split: if_splits)
  moreover have "keeps ?sc1 s = keeps sc (c # s)" by (simp add: keeps_def)
  ultimately show ?case by simp
qed

lemma scanAll_append: "scanAll sc (s @ t) = rbind (scanAll sc s) (\<lambda>sc'. scanAll sc' t)"
  by (induction s arbitrary: sc) (simp_all add: rbind_assoc)



subsection \<open>Errors\<close>

lemma set_dropWhile: "set (dropWhile P s) \<subseteq> set s"
  by (auto dest: set_dropWhileD)

lemma trim_subset: "set (trimSpace s) \<subseteq> set s" "set (trimPrefix s p) \<subseteq> set s"
proof -
  show "set (trimSpace s) \<subseteq> set s"
    using set_dropWhile [of isSpace "rev (dropWhile isSpace s)"] set_dropWhile [of isSpace s]
    by (auto simp: trimSpace_def)
  show "set (trimPrefix s p) \<subseteq> set s" by (auto simp: trimPrefix_def dest: in_set_dropD)
qed

lemma nextPair_subset:
  assumes "nextPair s = Some (k, v, r)"
  shows "set v \<subseteq> set s" "set r \<subseteq> set s"
proof -
  obtain c cs where d: "dropWhile (\<lambda>c. \<not> isNameChar c) s = c # cs"
    using assms by (auto simp: nextPair_def split: list.splits)
  let ?rest = "dropWhile isNameChar (c # cs)"
  have r: "set ?rest \<subseteq> set s"
    using set_dropWhile [of isNameChar "c # cs"] set_dropWhile [of "\<lambda>c. \<not> isNameChar c" s] d by auto
  then have t: "set (tl ?rest) \<subseteq> set s" by (cases ?rest) auto
  from assms have "(v = [] \<and> r = ?rest) \<or> (\<exists>n. v = take n (tl ?rest) \<and> r = drop n (tl ?rest))"
    by (auto simp: nextPair_def d Let_def simp del: dropWhile.simps split: option.splits)
  with r t show "set v \<subseteq> set s" "set r \<subseteq> set s" by (auto dest: in_set_takeD in_set_dropD)
qed

lemma matchPairs_subset: "(k, v) \<in> set (matchPairs s) \<Longrightarrow> set v \<subseteq> set s"
proof (induction s rule: matchPairs.induct)
  case (1 s)
  from "1.prems" obtain k' v' r where n: "nextPair s = Some (k', v', r)"
    by (cases "nextPair s") (auto simp: matchPairs.simps [of s])
  then have "matchPairs s = (k', v') # matchPairs r" by (simp add: matchPairs.simps [of s])
  with "1.prems" have m: "(k, v) = (k', v') \<or> (k, v) \<in> set (matchPairs r)" by simp
  from m show ?case
  proof
    assume "(k, v) = (k', v')"
    with nextPair_subset(1) [OF n] show ?thesis by simp
  next
    assume "(k, v) \<in> set (matchPairs r)"
    with "1.IH" [OF n refl refl] nextPair_subset(2) [OF n] show ?thesis by blast
  qed
qed

lemma pairValues_ok:
  "(\<And>k v. (k, v) \<in> set ps \<Longrightarrow> CHR 0x22 \<notin> set v) \<Longrightarrow> \<exists>qs. pairValues ps = Ok qs"
proof (induction ps)
  case Nil
  then show ?case by simp
next
  case (Cons p ps)
  obtain k v where p: "p = (k, v)" by (cases p)
  have "CHR 0x22 \<notin> set v" using Cons.prems [of k v] by (simp add: p)
  then have "pairValue v = Ok v" by (cases v) (auto simp: pairValue_def)
  moreover obtain qs where "pairValues ps = Ok qs" using Cons by fastforce
  ultimately show ?case by (simp add: p)
qed

lemma ParseStatementEnv_ok:
  assumes "CHR 0x22 \<notin> set s"
  shows "\<exists>e. ParseStatementEnv prev s = Ok e"
proof -
  let ?t = "trimSpace (trimPrefix (trimSpace (trimPrefix s ''--'')) ''env:'')"
  have "set ?t \<subseteq> set s" using trim_subset by blast
  with assms have "CHR 0x22 \<notin> set v" if "(k, v) \<in> set (matchPairs ?t)" for k v
    using matchPairs_subset [OF that] by blast
  then obtain qs where "pairValues (matchPairs ?t) = Ok qs" using pairValues_ok by blast
  then show ?thesis by (simp add: ParseStatementEnv_def ParseNameValuePairs_def Let_def)
qed

lemma scanStep_ok:
  assumes "CHR 0x22 \<notin> set (sc_comment sc)" "c \<noteq> CHR 0x22"
  shows "\<exists>sc'. scanStep sc c = Ok sc' \<and> CHR 0x22 \<notin> set (sc_comment sc')"
proof (cases "sc_inComment sc")
  case True
  from ParseStatementEnv_ok [OF assms(1), of "sc_env sc"] obtain e where
    "ParseStatementEnv (sc_env sc) (sc_comment sc) = Ok e" ..
  with True assms show ?thesis by (auto simp: scanStep_def scanComment_def Let_def)
next
  case False
  have keep: "sc_comment (scanKeep sc' c') = sc_comment sc'" for sc' c'
    by (simp add: scanKeep_def Let_def)
  from False assms show ?thesis by (auto simp: scanStep_def keep)
qed

lemma scanAll_ok:
  "CHR 0x22 \<notin> set (sc_comment sc) \<Longrightarrow> CHR 0x22 \<notin> set cs \<Longrightarrow> \<exists>sc'. scanAll sc cs = Ok sc'"
proof (induction cs arbitrary: sc)
  case Nil
  then show ?case by simp
next
  case (Cons c cs)
  from scanStep_ok [of sc c] Cons.prems obtain sc1 where
    "scanStep sc c = Ok sc1" "CHR 0x22 \<notin> set (sc_comment sc1)" by auto
  with Cons show ?case by auto
qed

text \<open>a script without double quotes is always split: no error and no panic.  The double quote
  matters only in a comment that sets the environment, where a value that is a lone double quote makes
  \<open>ParseNameValuePairs\<close> slice past its end.\<close>

theorem SplitSqlStatements_total:
  "(CHR 0x22 \<notin> set src \<longrightarrow> (\<exists>ss. SplitSqlStatements src = Ok ss))
   \<and> panics (SplitSqlStatements (''-- env: bridge='' @ [CHR 0x22, NL]))"
proof
  show "CHR 0x22 \<notin> set src \<longrightarrow> (\<exists>ss. SplitSqlStatements src = Ok ss)"
    using scanAll_ok [of scanInit src] by (auto simp: SplitSqlStatements_def scanInit_def)
  show "panics (SplitSqlStatements (''-- env: bridge='' @ [CHR 0x22, NL]))"
    by code_simp
qed

lemma SplitSqlStatements_total_witness:
  "CHR 0x22 \<notin> set ''a;--b'' \<and> (\<exists>ss. SplitSqlStatements ''a;--b'' = Ok ss)"
  using SplitSqlStatements_total [of "''a;--b''"] by simp

definition texts :: "string \<Rightarrow> (unit, string list) res" where
  "texts src = rmap (map st_Text) (SplitSqlStatements src)"

text \<open>four scripts that are split wrongly: a division by a negative number has its signs swapped, a
  dash before a semicolon moves into the next statement, a dash at the end is dropped, and so is a
  comment that no newline ends.\<close>

theorem SplitSqlStatements_quirks:
  "texts ''select 6/-3;'' = Ok [''select 6-/3;'']
   \<and> texts ''a-;b'' = Ok [''a;'', ''-b'']
   \<and> texts ''select 1 -'' = Ok [''select 1 '']
   \<and> texts ''a; -- done'' = Ok [''a;'']"
  by (intro conjI) code_simp+

end
