(* ===== verification/HttpSplit.thy ===== *)
theory HttpSplit
  imports GoText
begin

text \<open>
  \<open>SplitHttpStatements\<close> of \<open>mods/util/split.go\<close>: the statements of a script of HTTP requests, which
  lines that start with three hash signs separate.
\<close>

record http_statement =
  ht_Text :: string
  ht_BeginLine :: nat
  ht_EndLine :: nat

text \<open>\<open>bufio.ScanLines\<close>: the pieces between newlines, less a trailing return; no empty last piece.\<close>

definition dropCR :: "string \<Rightarrow> string" where
  "dropCR s = (if s \<noteq> [] \<and> last s = CR then butlast s else s)"

definition scanLines :: "string \<Rightarrow> string list" where
  "scanLines src =
     (let ps = splitOn src NL in map dropCR (if last ps = [] then butlast ps else ps))"

definition isSeparatorLine :: "string \<Rightarrow> bool" where
  "isSeparatorLine l = hasPrefix (trimSpace l) ''###''"

text \<open>\<open>n\<close> is \<open>lineNumber\<close>, \<open>start\<close> \<open>statementStartLine\<close>.\<close>

fun httpLoop ::
  "nat \<Rightarrow> nat \<Rightarrow> string \<Rightarrow> http_statement list \<Rightarrow> string list \<Rightarrow> http_statement list" where
  "httpLoop n start buffer statements [] =
     (if buffer \<noteq> []
      then statements @ [\<lparr>ht_Text = buffer, ht_BeginLine = start, ht_EndLine = n\<rparr>]
      else statements)"
| "httpLoop n start buffer statements (l # ls) =
     (if isSeparatorLine l then
        httpLoop (Suc n) (Suc (Suc n)) []
          (if buffer \<noteq> [] \<and> trimSpace buffer \<noteq> []
           then statements @ [\<lparr>ht_Text = buffer, ht_BeginLine = start, ht_EndLine = n\<rparr>]
           else statements) ls
      else httpLoop (Suc n) start (buffer @ l @ [NL]) statements ls)"

definition SplitHttpStatements :: "string \<Rightarrow> http_statement list" where
  "SplitHttpStatements src = httpLoop 0 1 [] [] (scanLines src)"

subsection \<open>The statements are ranges of lines\<close>

definition unlines :: "string list \<Rightarrow> string" where
  "unlines ls = concat (map (\<lambda>l. l @ [NL]) ls)"

definition lineRange :: "string list \<Rightarrow> nat \<Rightarrow> nat \<Rightarrow> string list" where
  "lineRange ls b e = take (Suc e - b) (drop (b - 1) ls)"

definition http_ok :: "string list \<Rightarrow> http_statement \<Rightarrow> bool" where
  "http_ok ls s = (1 \<le> ht_BeginLine s \<and> ht_BeginLine s \<le> ht_EndLine s \<and> ht_EndLine s \<le> length ls
     \<and> ht_Text s = unlines (lineRange ls (ht_BeginLine s) (ht_EndLine s))
     \<and> (\<forall>l \<in> set (lineRange ls (ht_BeginLine s) (ht_EndLine s)). \<not> isSeparatorLine l))"

lemma unlines_simps [simp]: "unlines [] = []" "unlines (xs @ ys) = unlines xs @ unlines ys"
  "unlines [l] = l @ [NL]" "unlines ls = [] \<longleftrightarrow> ls = []"
  by (auto simp: unlines_def)

lemma lineRange_prefix:
  "1 \<le> b \<Longrightarrow> b \<le> Suc (length xs) \<Longrightarrow> lineRange (xs @ ys) b (length xs) = drop (b - 1) xs"
  by (cases b) (simp_all add: lineRange_def)

lemma httpLoop_ok:
  assumes "all = past @ ls" "n = length past" "1 \<le> start" "start \<le> Suc n"
    and "buffer = unlines (drop (start - 1) past)" "\<forall>l \<in> set (drop (start - 1) past). \<not> isSeparatorLine l"
    and "\<forall>s \<in> set statements. http_ok all s"
  shows "\<forall>s \<in> set (httpLoop n start buffer statements ls). http_ok all s"
  using assms
proof (induction n start buffer statements ls arbitrary: past rule: httpLoop.induct)
  case (1 n start buffer statements)
  have "http_ok all \<lparr>ht_Text = buffer, ht_BeginLine = start, ht_EndLine = n\<rparr>" if "buffer \<noteq> []"
    using 1 that lineRange_prefix [of start past "[]"] by (auto simp: http_ok_def)
  with 1 show ?case by simp
next
  case (2 n start buffer statements l ls)
  have add: "http_ok all \<lparr>ht_Text = buffer, ht_BeginLine = start, ht_EndLine = n\<rparr>" if "buffer \<noteq> []"
    using "2.prems" that lineRange_prefix [of start past "l # ls"] by (auto simp: http_ok_def)
  show ?case
  proof (cases "isSeparatorLine l")
    case True
    with "2.prems" add show ?thesis
      unfolding httpLoop.simps if_P [OF True]
      by (intro "2.IH"(1) [OF True, of "past @ [l]"]) auto
  next
    case False
    with "2.prems" show ?thesis
      unfolding httpLoop.simps if_not_P [OF False]
      by (intro "2.IH"(2) [OF False, of "past @ [l]"]) auto
  qed
qed

text \<open>every HTTP statement is a range of the script's lines: its text is the lines from its first
  line number to its last, each ended by a newline, the range is not empty, lies inside the script and
  holds no separator line.\<close>

theorem SplitHttpStatements_ranges:
  "s \<in> set (SplitHttpStatements src) \<Longrightarrow> http_ok (scanLines src) s"
  using httpLoop_ok [of "scanLines src" "[]" "scanLines src" 0 1 "[]" "[]"]
  by (simp add: SplitHttpStatements_def)

lemma SplitHttpStatements_ranges_witness:
  "let src = ''GET /a'' @ [NL] @ ''###'' @ [NL] @ ''GET /b'' in
     \<lparr>ht_Text = ''GET /b'' @ [NL], ht_BeginLine = 3, ht_EndLine = 3\<rparr> \<in> set (SplitHttpStatements src)
     \<and> http_ok (scanLines src) \<lparr>ht_Text = ''GET /b'' @ [NL], ht_BeginLine = 3, ht_EndLine = 3\<rparr>"
proof -
  let ?src = "''GET /a'' @ [NL] @ ''###'' @ [NL] @ ''GET /b''"
  let ?s = "\<lparr>ht_Text = ''GET /b'' @ [NL], ht_BeginLine = 3, ht_EndLine = 3\<rparr>"
  have "SplitHttpStatements ?src = [\<lparr>ht_Text = ''GET /a'' @ [NL], ht_BeginLine = 1, ht_EndLine = 1\<rparr>, ?s]"
    by code_simp
  then have "?s \<in> set (SplitHttpStatements ?src)" by simp
  with SplitHttpStatements_ranges [OF this] show ?thesis by (simp add: Let_def)
qed

text \<open>a blank part between separators is no statement, but a blank part after the last separator
  is one.\<close>

theorem SplitHttpStatements_blank_tail:
  "SplitHttpStatements ([NL] @ ''###'' @ [NL]) = []
   \<and> SplitHttpStatements (''###'' @ [NL] @ [NL]) = [\<lparr>ht_Text = [NL], ht_BeginLine = 2, ht_EndLine = 2\<rparr>]"
  by code_simp

end
