(* ===== verification/IntText.thy ===== *)
theory IntText
  imports GoText
begin

text \<open>
  Positional notation.  \<open>digitsOf\<close> is the division loop that Go programs write out for alphabets of
  their own and that \<open>strconv.FormatInt\<close> runs for its own; the locale \<open>alphabet\<close> states what an alphabet
  must satisfy for it to be inverted.  \<open>FormatInt\<close> and \<open>ParseInt\<close> of \<open>strconv\<close> follow.
\<close>

subsection \<open>Digits\<close>

text \<open>The digits of \<open>n\<close>, least significant first: divide while the value is at least the base.\<close>

function digitsOf :: "nat \<Rightarrow> nat \<Rightarrow> nat list" where
  "digitsOf base n = (if base \<le> n \<and> 2 \<le> base then n mod base # digitsOf base (n div base) else [n])"
  by pat_completeness auto
termination
  by (relation "measure snd") auto

declare digitsOf.simps [simp del]

text \<open>The value of digits, most significant first.\<close>

definition valueOf :: "nat \<Rightarrow> nat list \<Rightarrow> nat" where
  "valueOf base ds = foldl (\<lambda>n d. n * base + d) 0 ds"

lemma valueOf_append: "valueOf base (ds @ [d]) = valueOf base ds * base + d"
  by (simp add: valueOf_def)

lemma valueOf_digitsOf: "2 \<le> base \<Longrightarrow> valueOf base (rev (digitsOf base n)) = n"
proof (induction base n rule: digitsOf.induct)
  case (1 base n)
  show ?case
  proof (cases "base \<le> n")
    case True
    with 1 show ?thesis by (subst digitsOf.simps) (simp add: valueOf_append)
  next
    case False
    then show ?thesis by (subst digitsOf.simps) (simp add: valueOf_def)
  qed
qed

lemma digitsOf_less: "2 \<le> base \<Longrightarrow> d \<in> set (digitsOf base n) \<Longrightarrow> d < base"
proof (induction base n rule: digitsOf.induct)
  case (1 base n)
  then show ?case by (subst (asm) (2) digitsOf.simps) (auto split: if_splits)
qed

lemma digitsOf_nonempty [simp]: "digitsOf base n \<noteq> []"
  by (subst digitsOf.simps) simp

subsection \<open>Alphabets\<close>

locale alphabet =
  fixes letters :: string
  assumes letters_distinct: "distinct letters"
    and letters_size: "2 \<le> length letters" "length letters < 255"
begin

definition encode :: "nat \<Rightarrow> string" where
  "encode n = map (\<lambda>d. letters ! d) (rev (digitsOf (length letters) n))"

definition letter_value :: "char \<Rightarrow> nat option" where
  "letter_value c = (if c \<in> set letters then Some (THE i. i < length letters \<and> letters ! i = c) else None)"

lemma letter_value_nth: "i < length letters \<Longrightarrow> letter_value (letters ! i) = Some i"
  unfolding letter_value_def using letters_distinct by (auto simp: nth_eq_iff_index_eq)

lemma encode_inverse:
  "map letter_value (encode n) = map Some (rev (digitsOf (length letters) n))"
  using digitsOf_less [OF letters_size(1)] by (auto simp: encode_def letter_value_nth)

lemma encode_inj: "encode m = encode n \<Longrightarrow> m = n"
proof -
  assume "encode m = encode n"
  then have "rev (digitsOf (length letters) m) = rev (digitsOf (length letters) n)"
    by (metis encode_inverse inj_map_eq_map inj_Some)
  then show ?thesis by (metis valueOf_digitsOf letters_size(1))
qed

end

subsection \<open>strconv.FormatInt and strconv.ParseInt\<close>

definition goDigits :: string where
  "goDigits = ''0123456789abcdefghijklmnopqrstuvwxyz''"

definition formatUint :: "nat \<Rightarrow> nat \<Rightarrow> string" where
  "formatUint base n = map (\<lambda>d. goDigits ! d) (rev (digitsOf base n))"

definition FormatInt :: "int \<Rightarrow> nat \<Rightarrow> string" where
  "FormatInt i base = (if i < 0 then CHR ''-'' # formatUint base (nat (- i)) else formatUint base (nat i))"

text \<open>The value of a digit in either case; \<open>None\<close> is a syntax error.\<close>

definition digitValue :: "char \<Rightarrow> nat option" where
  "digitValue c =
     (if isDigit c then Some (code c - 48)
      else if isLowerAscii c then Some (code c - 87)
      else if isUpperAscii c then Some (code c - 55)
      else None)"

datatype num_error = ErrSyntax | ErrRange

text \<open>\<open>ParseUint\<close> of 64 bits: the first digit that is wrong or makes the value too big decides.\<close>

fun parseUintLoop :: "nat \<Rightarrow> nat \<Rightarrow> string \<Rightarrow> nat \<times> num_error option" where
  "parseUintLoop base n [] = (n, None)"
| "parseUintLoop base n (c # cs) =
     (case digitValue c of
        None \<Rightarrow> (0, Some ErrSyntax)
      | Some d \<Rightarrow>
          (if base \<le> d then (0, Some ErrSyntax)
           else if 2 ^ 64 \<le> n * base + d then (2 ^ 64 - 1, Some ErrRange)
           else parseUintLoop base (n * base + d) cs))"

definition ParseUint :: "string \<Rightarrow> nat \<Rightarrow> nat \<times> num_error option" where
  "ParseUint s base = (if s = [] then (0, Some ErrSyntax) else parseUintLoop base 0 s)"

text \<open>\<open>ParseInt\<close> of 64 bits: the value and the error, both of which callers may use.\<close>

definition ParseInt :: "string \<Rightarrow> nat \<Rightarrow> int \<times> num_error option" where
  "ParseInt s base =
     (if s = [] then (0, Some ErrSyntax)
      else (let neg = (hd s = CHR ''-'');
                body = (if hd s = CHR ''+'' \<or> hd s = CHR ''-'' then tl s else s) in
        case ParseUint body base of
          (un, Some ErrSyntax) \<Rightarrow> (0, Some ErrSyntax)
        | (un, e) \<Rightarrow>
            (if \<not> neg \<and> 2 ^ 63 \<le> un then (2 ^ 63 - 1, Some ErrRange)
             else if neg \<and> 2 ^ 63 < un then (- (2 ^ 63), Some ErrRange)
             else (if neg then - int un else int un, None))))"

lemma goDigits_value: "d < 36 \<Longrightarrow> digitValue (goDigits ! d) = Some d"
proof -
  assume "d < 36"
  then have "d \<in> set [0..<36]" by simp
  moreover have "\<forall>d \<in> set [0..<36]. digitValue (goDigits ! d) = Some d" by code_simp
  ultimately show ?thesis by blast
qed

lemma goDigits_sign: "d < 36 \<Longrightarrow> goDigits ! d \<noteq> CHR ''+'' \<and> goDigits ! d \<noteq> CHR ''-''"
  using goDigits_value [of d] by (auto simp: digitValue_def isDigit_def isLowerAscii_def isUpperAscii_def code_def)

lemma parseUintLoop_digits:
  assumes "base \<le> 36" "\<forall>d \<in> set ds. d < base" "foldl (\<lambda>n d. n * base + d) n ds < 2 ^ 64"
  shows "parseUintLoop base n (map (\<lambda>d. goDigits ! d) ds) = (foldl (\<lambda>n d. n * base + d) n ds, None)"
  using assms(2,3)
proof (induction ds arbitrary: n)
  case Nil
  then show ?case by simp
next
  case (Cons d ds)
  have mono: "k \<le> foldl (\<lambda>n d. n * base + d) k ds" if "0 < base" for k
    using that
  proof (induction ds arbitrary: k)
    case (Cons e ds)
    have "k \<le> k * base + e" using Cons.prems by (simp add: le_add1 trans_le_add1)
    with Cons.IH [OF Cons.prems, of "k * base + e"] show ?case by simp
  qed simp
  have "0 < base" "d < 36" using Cons.prems(1) assms(1) by auto
  with Cons.prems mono [of "n * base + d"] Cons.IH [of "n * base + d"] show ?case
    by (simp add: goDigits_value)
qed

lemma ParseUint_formatUint:
  assumes "2 \<le> base" "base \<le> 36" "n < 2 ^ 64"
  shows "ParseUint (formatUint base n) base = (n, None)"
proof -
  have "foldl (\<lambda>n d. n * base + d) 0 (rev (digitsOf base n)) = n"
    using valueOf_digitsOf [OF assms(1), of n] by (simp add: valueOf_def)
  with parseUintLoop_digits [OF assms(2), of "rev (digitsOf base n)" 0] assms
  show ?thesis by (auto simp: ParseUint_def formatUint_def dest: digitsOf_less)
qed

lemma formatUint_head:
  assumes "2 \<le> base" "base \<le> 36"
  shows "formatUint base n \<noteq> []" "hd (formatUint base n) \<notin> {CHR ''+'', CHR ''-''}"
proof -
  have "last (digitsOf base n) < base"
    by (rule digitsOf_less [OF assms(1), of _ n]) simp
  with assms(2) goDigits_sign [of "last (digitsOf base n)"] show
    "hd (formatUint base n) \<notin> {CHR ''+'', CHR ''-''}"
    by (simp add: formatUint_def hd_map hd_rev)
qed (simp add: formatUint_def)

lemma ParseInt_FormatInt:
  assumes "2 \<le> base" "base \<le> 36" "- (2 ^ 63) \<le> i" "i < 2 ^ 63"
  shows "ParseInt (FormatInt i base) base = (i, None)"
proof (cases "i < 0")
  case True
  from True assms(3) have "nat (- i) \<le> 2 ^ 63" by (simp add: nat_le_iff)
  moreover from this have "nat (- i) < 2 ^ 64" by simp
  ultimately show ?thesis
    using ParseUint_formatUint [OF assms(1,2)] True by (simp add: ParseInt_def FormatInt_def)
next
  case False
  have "nat i < 2 ^ 63" using False assms(4) by (simp add: nat_less_iff)
  with ParseUint_formatUint [OF assms(1,2), of "nat i"] False formatUint_head [OF assms(1,2), of "nat i"]
  show ?thesis by (simp add: ParseInt_def FormatInt_def)
qed

end
