(* ===== verification/Snowflake.thy ===== *)
theory Snowflake
  imports IntText "HOL-Library.Word"
begin

text \<open>
  Snowflake IDs, \<open>mods/util/snowflake/snowflake.go\<close>: the generator of a node and the text and byte forms
  of an ID.  An int64 is a \<open>64 word\<close> read with \<open>sint\<close>.  The mutex makes \<open>Generate\<close> atomic, so the calls
  of all callers are one sequence; the clock is the list of the values the calls read from it.
\<close>

subsection \<open>The generator\<close>

type_synonym int64 = "64 word"

record snow_node =
  sn_time :: int64
  sn_node :: int64
  sn_step :: int64
  sn_nodeMax :: int64
  sn_nodeMask :: int64
  sn_stepMask :: int64
  sn_timeShift :: "8 word"
  sn_nodeShift :: "8 word"

text \<open>
  \<open>NodeBits\<close> and \<open>StepBits\<close> are package variables of type uint8; their sum wraps.  \<open>time.Now\<close> sets the
  epoch the clock's readings are relative to.
\<close>

definition NewNode :: "8 word \<Rightarrow> 8 word \<Rightarrow> int64 \<Rightarrow> (unit, snow_node) res" where
  "NewNode nodeBits stepBits node =
     (if nodeBits + stepBits > 22 then Err ()
      else (let nodeMax = xor (- 1) (push_bit (unat nodeBits) (- 1));
                n = \<lparr>sn_time = 0, sn_node = node, sn_step = 0, sn_nodeMax = nodeMax,
                     sn_nodeMask = push_bit (unat stepBits) nodeMax,
                     sn_stepMask = xor (- 1) (push_bit (unat stepBits) (- 1)),
                     sn_timeShift = nodeBits + stepBits, sn_nodeShift = stepBits\<rparr>
            in if sint node < 0 \<or> sint nodeMax < sint node then Err () else Ok n))"

text \<open>The inner loop reads the clock until it is past \<open>n.time\<close>.\<close>

fun waitPast :: "int64 \<Rightarrow> int64 list \<Rightarrow> (unit, int64 \<times> int64 list) res" where
  "waitPast t [] = NoFuel"
| "waitPast t (now # readings) =
     (if sint now \<le> sint t then waitPast t readings else Ok (now, readings))"

definition composeID :: "snow_node \<Rightarrow> int64" where
  "composeID n =
     or (or (push_bit (unat (sn_timeShift n)) (sn_time n)) (push_bit (unat (sn_nodeShift n)) (sn_node n)))
        (sn_step n)"

text \<open>\<open>NoFuel\<close> stands for readings that end while the generator still asks for one.\<close>

definition Generate :: "snow_node \<Rightarrow> int64 list \<Rightarrow> (unit, (int64 \<times> snow_node) \<times> int64 list) res" where
  "Generate n readings =
     (case readings of
        [] \<Rightarrow> NoFuel
      | now # rest \<Rightarrow>
          rbind (if now = sn_time n then
                   (let n1 = n\<lparr>sn_step := and (sn_step n + 1) (sn_stepMask n)\<rparr> in
                    if sn_step n1 = 0
                    then (if sint now \<le> sint (sn_time n)
                          then rbind (waitPast (sn_time n) rest) (\<lambda>(now', rest'). Ok (n1, now', rest'))
                          else Ok (n1, now, rest))
                    else Ok (n1, now, rest))
                 else Ok (n\<lparr>sn_step := 0\<rparr>, now, rest))
            (\<lambda>(n2, now2, rest2).
              let n3 = n2\<lparr>sn_time := now2\<rparr> in Ok ((composeID n3, n3), rest2)))"

text \<open>A sequence of \<open>k\<close> calls.\<close>

fun generateAll :: "nat \<Rightarrow> snow_node \<Rightarrow> int64 list \<Rightarrow> (unit, int64 list) res" where
  "generateAll 0 n readings = Ok []"
| "generateAll (Suc k) n readings =
     rbind (Generate n readings) (\<lambda>((i, n'), rest). rmap (\<lambda>is. i # is) (generateAll k n' rest))"

subsection \<open>Text and byte forms\<close>

definition encodeBase32Map :: string where
  "encodeBase32Map = ''ybndrfg8ejkmcpqxot1uwisza345h769''"

definition encodeBase58Map :: string where
  "encodeBase58Map = ''123456789abcdefghijkmnopqrstuvwxyzABCDEFGHJKLMNPQRSTUVWXYZ''"

text \<open>The table \<open>init\<close> builds: 0xFF everywhere, then the index of each letter at its code.\<close>

definition decodeTable :: "string \<Rightarrow> nat list" where
  "decodeTable letters =
     foldl (\<lambda>t i. t[code (letters ! i) := i]) (replicate 256 255) [0..<length letters]"

text \<open>
  \<open>encodeBase32Map[f]\<close> panics on a negative ID; otherwise the loop appends the digits from the least
  significant one and the result is reversed in place.
\<close>

definition encodeID :: "string \<Rightarrow> int64 \<Rightarrow> (unit, string) res" where
  "encodeID letters f =
     (if sint f < 0 then Panic
      else Ok (rev (map (\<lambda>d. letters ! d) (digitsOf (length letters) (nat (sint f))))))"

fun decodeLoop :: "nat list \<Rightarrow> int64 \<Rightarrow> int64 \<Rightarrow> string \<Rightarrow> (unit, int64) res" where
  "decodeLoop table base i [] = Ok i"
| "decodeLoop table base i (c # cs) =
     (if table ! code c = 255 then Err ()
      else decodeLoop table base (i * base + of_nat (table ! code c)) cs)"

definition ID_Base32 :: "int64 \<Rightarrow> (unit, string) res" where
  "ID_Base32 f = encodeID encodeBase32Map f"

definition ParseBase32 :: "string \<Rightarrow> (unit, int64) res" where
  "ParseBase32 b = decodeLoop (decodeTable encodeBase32Map) 32 0 b"

definition ID_Base58 :: "int64 \<Rightarrow> (unit, string) res" where
  "ID_Base58 f = encodeID encodeBase58Map f"

definition ParseBase58 :: "string \<Rightarrow> (unit, int64) res" where
  "ParseBase58 b = decodeLoop (decodeTable encodeBase58Map) 58 0 b"

text \<open>The forms \<open>strconv\<close> makes; the parsers return the value even with an error.\<close>

definition ID_String :: "int64 \<Rightarrow> string" where "ID_String f = FormatInt (sint f) 10"
definition ID_Base2 :: "int64 \<Rightarrow> string" where "ID_Base2 f = FormatInt (sint f) 2"
definition ID_Base36 :: "int64 \<Rightarrow> string" where "ID_Base36 f = FormatInt (sint f) 36"

definition parseID :: "nat \<Rightarrow> string \<Rightarrow> int64 \<times> num_error option" where
  "parseID base s = (case ParseInt s base of (i, e) \<Rightarrow> (word_of_int i, e))"

definition ParseString :: "string \<Rightarrow> int64 \<times> num_error option" where "ParseString = parseID 10"
definition ParseBase2 :: "string \<Rightarrow> int64 \<times> num_error option" where "ParseBase2 = parseID 2"
definition ParseBase36 :: "string \<Rightarrow> int64 \<times> num_error option" where "ParseBase36 = parseID 36"
definition ID_Bytes :: "int64 \<Rightarrow> string" where "ID_Bytes f = ID_String f"
definition ParseBytes :: "string \<Rightarrow> int64 \<times> num_error option" where "ParseBytes = parseID 10"

text \<open>\<open>b64\<close> and \<open>unb64\<close> are \<open>base64.StdEncoding\<close>.\<close>

definition ID_Base64 :: "(string \<Rightarrow> string) \<Rightarrow> int64 \<Rightarrow> string" where
  "ID_Base64 b64 f = b64 (ID_Bytes f)"

definition ParseBase64 :: "(string \<Rightarrow> string option) \<Rightarrow> string \<Rightarrow> int64 \<times> num_error option" where
  "ParseBase64 unb64 s = (case unb64 s of None \<Rightarrow> (- 1, Some ErrSyntax) | Some b \<Rightarrow> ParseBytes b)"

definition ID_IntBytes :: "int64 \<Rightarrow> 8 word list" where
  "ID_IntBytes f = map (\<lambda>k. ucast (drop_bit (8 * (7 - k)) f)) [0..<8]"

definition ParseIntBytes :: "8 word list \<Rightarrow> int64" where
  "ParseIntBytes bs = foldl (\<lambda>w b. or (push_bit 8 w) (ucast b)) 0 bs"

definition MarshalJSON :: "int64 \<Rightarrow> string" where
  "MarshalJSON f = CHR 0x22 # FormatInt (sint f) 10 @ [CHR 0x22]"

definition UnmarshalJSON :: "string \<Rightarrow> (num_error option, int64) res" where
  "UnmarshalJSON b =
     (if length b < 3 \<or> hd b \<noteq> CHR 0x22 \<or> last b \<noteq> CHR 0x22 then Err None
      else (case ParseInt (butlast (tl b)) 10 of
              (i, None) \<Rightarrow> Ok (word_of_int i)
            | (i, Some e) \<Rightarrow> Err (Some e)))"

end
