(* ===== verification/SnowflakeProps.thy ===== *)
theory SnowflakeProps
  imports Snowflake
begin

text \<open>
  IDs of one node are strictly increasing and IDs of different nodes differ; every text and byte form
  of an ID is read back to it.
\<close>

subsection \<open>The value of an ID\<close>

lemma or_disjoint:
  fixes x y :: int
  assumes "0 \<le> y" "y < 2 ^ k"
  shows "or (x * 2 ^ k) y = x * 2 ^ k + y"
proof -
  have "take_bit k y = y" using assms by (simp add: take_bit_int_eq_self_iff)
  then show ?thesis
    using concat_bit_eq [of k y x] concat_bit_def [of k y x]
    by (simp add: push_bit_eq_mult or.commute add.commute)
qed

lemma len64: "LENGTH(64) = 64"
  by simp

lemma uint_push_bit:
  fixes w :: int64
  assumes "uint w * 2 ^ k < 2 ^ 64"
  shows "uint (push_bit k w) = uint w * 2 ^ k"
proof -
  have "uint (push_bit k w) = take_bit 64 (push_bit k (uint w))"
    by (simp only: unsigned_push_bit_eq len64)
  also have "\<dots> = uint w * 2 ^ k"
    using assms by (simp add: push_bit_eq_mult take_bit_int_eq_self_iff)
  finally show ?thesis .
qed

lemma mask_xor: "xor (- 1) (push_bit n (- 1)) = (mask n :: int64)"
  by (rule bit_word_eqI) (auto simp: bit_simps)

lemma sint_small: "sint w = uint w" if "uint w < 2 ^ 63" for w :: int64
proof -
  have "- (2 ^ 63) \<le> uint w" by (rule order_trans [of _ 0]) simp_all
  then have "signed_take_bit 63 (uint w) = uint w" using that by (rule signed_take_bit_int_eq_self)
  then show ?thesis by (simp add: sint_uint)
qed

text \<open>A node with its fields in range: \<open>nb\<close> bits for the node, \<open>sb\<close> for the step.\<close>

definition valid_node :: "nat \<Rightarrow> nat \<Rightarrow> snow_node \<Rightarrow> bool" where
  "valid_node nb sb n =
     (nb + sb \<le> 22 \<and> unat (sn_timeShift n) = nb + sb \<and> unat (sn_nodeShift n) = sb
      \<and> sn_stepMask n = mask sb \<and> uint (sn_step n) < 2 ^ sb
      \<and> uint (sn_node n) < 2 ^ nb \<and> uint (sn_time n) < 2 ^ 41)"

definition idValue :: "nat \<Rightarrow> nat \<Rightarrow> snow_node \<Rightarrow> int" where
  "idValue nb sb n = uint (sn_time n) * 2 ^ (nb + sb) + uint (sn_node n) * 2 ^ sb + uint (sn_step n)"

lemma low_part:
  assumes "valid_node nb sb n"
  shows "uint (sn_node n) * 2 ^ sb + uint (sn_step n) < 2 ^ (nb + sb)"
proof -
  have "uint (sn_node n) + 1 \<le> 2 ^ nb" using assms by (simp add: valid_node_def)
  then have "(uint (sn_node n) + 1) * 2 ^ sb \<le> 2 ^ nb * 2 ^ sb" by (intro mult_right_mono) auto
  with assms show ?thesis by (simp add: valid_node_def power_add algebra_simps)
qed

lemma idValue_bound:
  assumes v: "valid_node nb sb n"
  shows "idValue nb sb n < 2 ^ 63"
proof -
  have "uint (sn_time n) + 1 \<le> 2 ^ 41" using v by (simp add: valid_node_def)
  then have "(uint (sn_time n) + 1) * 2 ^ (nb + sb) \<le> 2 ^ 41 * 2 ^ (nb + sb)"
    by (intro mult_right_mono) auto
  also have "\<dots> = (2 :: int) ^ (41 + (nb + sb))" by (simp add: power_add)
  also have "\<dots> \<le> 2 ^ 63" using v by (intro power_increasing) (auto simp: valid_node_def)
  finally show ?thesis
    using low_part [OF v] by (simp add: idValue_def algebra_simps)
qed

lemma composeID_value:
  assumes v: "valid_node nb sb n"
  shows "uint (composeID n) = idValue nb sb n"
proof -
  let ?t = "uint (sn_time n)" and ?d = "uint (sn_node n)" and ?s = "uint (sn_step n)"
  have shifts: "unat (sn_timeShift n) = nb + sb" "unat (sn_nodeShift n) = sb"
    and s: "?s < 2 ^ sb" and bits: "nb + sb \<le> 22"
    using v by (simp_all add: valid_node_def)
  have b: "idValue nb sb n < 2 ^ 64" using idValue_bound [OF v] by simp
  have "0 \<le> ?d * 2 ^ sb" "0 \<le> ?t * 2 ^ (nb + sb)" "0 \<le> ?s" by simp_all
  with b have "?t * 2 ^ (nb + sb) < 2 ^ 64" "?d * 2 ^ sb < 2 ^ 64"
    unfolding idValue_def by linarith+
  then have "uint (composeID n) = or (or (?t * 2 ^ (nb + sb)) (?d * 2 ^ sb)) ?s"
    by (simp add: composeID_def shifts unsigned_or_eq uint_push_bit)
  also have "or (?t * 2 ^ (nb + sb)) (?d * 2 ^ sb) = ?t * 2 ^ (nb + sb) + ?d * 2 ^ sb"
  proof (rule or_disjoint)
    have "0 \<le> ?s" by simp
    with low_part [OF v] show "?d * 2 ^ sb < 2 ^ (nb + sb)" by linarith
  qed simp
  also have "\<dots> = (?t * 2 ^ nb + ?d) * 2 ^ sb" by (simp add: power_add algebra_simps)
  also have "or ((?t * 2 ^ nb + ?d) * 2 ^ sb) ?s = (?t * 2 ^ nb + ?d) * 2 ^ sb + ?s"
    using s by (intro or_disjoint) auto
  finally show ?thesis by (simp add: idValue_def power_add algebra_simps)
qed

text \<open>A later time gives a larger ID whatever the rest; so does a larger step at the same time.\<close>

lemma idValue_later:
  assumes "valid_node nb sb n" "sn_node n' = sn_node n" "uint (sn_time n) < uint (sn_time n')"
  shows "idValue nb sb n < idValue nb sb n'"
proof -
  have "(uint (sn_time n) + 1) * 2 ^ (nb + sb) \<le> uint (sn_time n') * 2 ^ (nb + sb)"
    using assms(3) by (intro mult_right_mono) auto
  then have "uint (sn_time n) * 2 ^ (nb + sb) + 2 ^ (nb + sb) \<le> uint (sn_time n') * 2 ^ (nb + sb)"
    by (simp add: algebra_simps)
  moreover have "0 \<le> uint (sn_step n')" "0 \<le> uint (sn_node n') * 2 ^ sb" by simp_all
  ultimately show ?thesis
    using low_part [OF assms(1)] unfolding idValue_def by linarith
qed

subsection \<open>One call\<close>

definition clock_ok :: "int64 \<Rightarrow> int64 list \<Rightarrow> bool" where
  "clock_ok t readings =
     (sorted (map sint readings) \<and> (\<forall>r \<in> set readings. sint t \<le> sint r \<and> 0 \<le> sint r \<and> sint r < 2 ^ 41))"

lemma clock_ok_tail: "clock_ok t (r # rs) \<Longrightarrow> clock_ok r rs"
  by (auto simp: clock_ok_def)

lemma clock_ok_cons: "clock_ok t (r # rs) \<Longrightarrow> clock_ok t rs"
  by (auto simp: clock_ok_def)

lemma nonneg_sint: "0 \<le> sint w \<Longrightarrow> uint w = sint w" for w :: int64
proof -
  assume "0 \<le> sint w"
  moreover have "sint w < 2 ^ 63" using sint_lt [of w] by simp
  ultimately have "take_bit 64 (sint w) = sint w" by (simp add: take_bit_int_eq_self_iff)
  then show ?thesis by (simp add: uint_sint)
qed

lemma next_step:
  fixes step :: int64
  assumes "uint step < 2 ^ sb" "sb \<le> 22"
  shows "uint (and (step + 1) (mask sb)) = (if uint step + 1 = 2 ^ sb then 0 else uint step + 1)"
proof -
  have "(2 :: int) ^ sb \<le> 2 ^ 22" using assms(2) by (intro power_increasing) auto
  with assms(1) have "uint step + 1 < 2 ^ 64" by simp
  then have "uint (step + 1) = uint step + 1" by (simp add: uint_word_ariths)
  moreover have "uint (and (step + 1) (mask sb)) = take_bit sb (uint (step + 1))"
    by (simp only: take_bit_eq_mask [symmetric] unsigned_take_bit_eq)
  ultimately have "uint (and (step + 1) (mask sb)) = (uint step + 1) mod 2 ^ sb"
    by (simp only: take_bit_eq_mod)
  also have "\<dots> = (if uint step + 1 = 2 ^ sb then 0 else uint step + 1)"
    using assms(1) by (auto intro: mod_pos_pos_trivial)
  finally show ?thesis .
qed

lemma waitPast_Ok:
  "waitPast t rs = Ok (now, rest) \<Longrightarrow> sint t < sint now \<and> (\<exists>us. rs = us @ now # rest)"
proof (induction t rs rule: waitPast.induct)
  case (2 t r rs)
  show ?case
  proof (cases "sint r \<le> sint t")
    case True
    with 2 obtain us where "sint t < sint now" "rs = us @ now # rest" by auto
    then show ?thesis by (intro conjI exI [of _ "r # us"]) simp_all
  next
    case False
    with "2.prems" show ?thesis by auto
  qed
qed simp

lemma clock_ok_suffix: "clock_ok t (us @ r # rest) \<Longrightarrow> clock_ok r rest \<and> sint t \<le> sint r \<and> 0 \<le> sint r \<and> sint r < 2 ^ 41"
  by (auto simp: clock_ok_def sorted_append)

lemma sint_eq: "sint a = sint b \<longleftrightarrow> a = b" for a b :: int64
proof
  assume "sint a = sint b"
  then have "(of_int (sint a) :: int64) = of_int (sint b)" by simp
  then show "a = b" by simp
qed simp

text \<open>What a call leaves: the times, and the node's next fields.\<close>

lemma Generate_turn:
  assumes run: "Generate n readings = Ok ((i, n'), rest)" and clk: "clock_ok (sn_time n) readings"
  obtains (later) now step where "n' = n\<lparr>sn_step := step, sn_time := now\<rparr>" "i = composeID n'"
      "sint (sn_time n) < sint now" "sint now < 2 ^ 41" "0 \<le> sint now" "clock_ok now rest"
      "step = 0 \<or> step = and (sn_step n + 1) (sn_stepMask n)"
  | (same) "n' = n\<lparr>sn_step := and (sn_step n + 1) (sn_stepMask n)\<rparr>" "i = composeID n'"
      "and (sn_step n + 1) (sn_stepMask n) \<noteq> 0" "clock_ok (sn_time n) rest"
proof -
  obtain now rs where r: "readings = now # rs"
    using run by (cases readings) (auto simp: Generate_def)
  from clk r have now: "clock_ok now rs" "sint (sn_time n) \<le> sint now" "0 \<le> sint now" "sint now < 2 ^ 41"
    using clock_ok_suffix [of "sn_time n" "[]" now rs] by auto
  let ?s = "and (sn_step n + 1) (sn_stepMask n)"
  consider "now \<noteq> sn_time n" | "now = sn_time n" "?s \<noteq> 0" | "now = sn_time n" "?s = 0" by blast
  then show thesis
  proof cases
    case 1
    with now(2) have "sint (sn_time n) < sint now" by (simp add: order_less_le sint_eq)
    moreover from 1 run have "n' = n\<lparr>sn_step := 0, sn_time := now\<rparr>" "i = composeID n'" "rest = rs"
      by (auto simp: Generate_def r Let_def)
    ultimately show thesis using now by (intro later) auto
  next
    case 2
    with run have "n' = n\<lparr>sn_step := ?s\<rparr>" "i = composeID n'" "rest = rs"
      by (auto simp: Generate_def r Let_def)
    with 2 now(1) show thesis by (intro same) auto
  next
    case 3
    with run obtain now' rest' where w: "waitPast (sn_time n) rs = Ok (now', rest')"
      and res: "n' = n\<lparr>sn_step := ?s, sn_time := now'\<rparr>" "i = composeID n'" "rest = rest'"
      by (auto simp: Generate_def r Let_def rbind_Ok_iff)
    from waitPast_Ok [OF w] obtain us where us: "sint (sn_time n) < sint now'" "rs = us @ now' # rest'"
      by blast
    have "clock_ok now' rest' \<and> 0 \<le> sint now' \<and> sint now' < 2 ^ 41"
      using clock_ok_suffix [of now us now' rest'] now(1) us(2) by simp
    with us(1) res show thesis by (intro later [of now' ?s]) auto
  qed
qed

lemma Generate_step:
  assumes v: "valid_node nb sb n" and clk: "clock_ok (sn_time n) readings"
    and run: "Generate n readings = Ok ((i, n'), rest)"
  shows "valid_node nb sb n' \<and> sn_node n' = sn_node n \<and> i = composeID n'
    \<and> idValue nb sb n < idValue nb sb n' \<and> clock_ok (sn_time n') rest"
  using run clk
proof (cases rule: Generate_turn)
  case (later now step)
  have "sb \<le> 22" "sn_stepMask n = mask sb" "uint (sn_step n) < 2 ^ sb" "uint (sn_time n) < 2 ^ 41"
    using v by (auto simp: valid_node_def)
  then have "uint step < 2 ^ sb"
    using later(7) next_step [of "sn_step n" sb] by auto
  moreover have "uint (sn_time n) = sint (sn_time n)" using sint_small [of "sn_time n"] \<open>uint (sn_time n) < 2 ^ 41\<close> by simp
  ultimately have "valid_node nb sb n'" "uint (sn_time n) < uint (sn_time n')"
    using v later nonneg_sint [OF later(5)] by (auto simp: valid_node_def)
  with later idValue_later [OF v, of n'] show ?thesis by simp
next
  case same
  have m: "sb \<le> 22" "sn_stepMask n = mask sb" "uint (sn_step n) < 2 ^ sb"
    using v by (auto simp: valid_node_def)
  have "uint (sn_step n) + 1 \<noteq> 2 ^ sb"
    using same(3) next_step [OF m(3,1)] m(2) by (auto simp: word_uint_eq_iff)
  with next_step [OF m(3,1)] m have "uint (sn_step n') = uint (sn_step n) + 1" "uint (sn_step n') < 2 ^ sb"
    using same(1) by auto
  with v same show ?thesis by (simp add: valid_node_def idValue_def)
qed

lemma generateAll_increasing:
  "valid_node nb sb n \<Longrightarrow> clock_ok (sn_time n) readings \<Longrightarrow> generateAll k n readings = Ok ids \<Longrightarrow>
     sorted_wrt (<) (idValue nb sb n # map uint ids)
     \<and> (\<forall>i \<in> set ids. \<exists>n'. valid_node nb sb n' \<and> sn_node n' = sn_node n \<and> i = composeID n')"
proof (induction k arbitrary: n readings ids)
  case 0
  then show ?case by simp
next
  case (Suc k)
  from Suc.prems(3) obtain i n' rest js where g: "Generate n readings = Ok ((i, n'), rest)"
    and more: "generateAll k n' rest = Ok js" and ids: "ids = i # js"
    by (auto simp: rbind_Ok_iff rmap_Ok_iff)
  from Generate_step [OF Suc.prems(1,2) g] have step: "valid_node nb sb n'" "sn_node n' = sn_node n"
    "i = composeID n'" "idValue nb sb n < idValue nb sb n'" "clock_ok (sn_time n') rest" by auto
  from Suc.IH [OF step(1,5) more] step composeID_value [OF step(1)] ids show ?case
    by (auto simp: order.strict_trans)
qed

subsection \<open>Properties of the generator\<close>

lemma nodeMax_value: "nb \<le> 22 \<Longrightarrow> sint (mask nb :: int64) = 2 ^ nb - 1"
proof -
  assume "nb \<le> 22"
  then have "min 64 nb = nb" by simp
  then have "uint (mask nb :: int64) = mask nb" by (simp only: uint_mask_eq len64)
  then have "uint (mask nb :: int64) = 2 ^ nb - 1" by (simp only: mask_eq_exp_minus_1 [where 'a = int])
  moreover have "(2 :: int) ^ nb \<le> 2 ^ 22" using \<open>nb \<le> 22\<close> by (intro power_increasing) auto
  ultimately show ?thesis using sint_small [of "mask nb :: int64"] by simp
qed

lemma NewNode_valid:
  assumes new: "NewNode nb sb node = Ok n" and bits: "unat nb + unat sb \<le> 22"
  shows "valid_node (unat nb) (unat sb) n \<and> sn_time n = 0 \<and> sn_node n = node"
proof -
  have sum: "unat (nb + sb) = unat nb + unat sb" using bits by (simp add: unat_word_ariths)
  from new have n: "n = \<lparr>sn_time = 0, sn_node = node, sn_step = 0, sn_nodeMax = mask (unat nb),
        sn_nodeMask = push_bit (unat sb) (mask (unat nb)), sn_stepMask = mask (unat sb),
        sn_timeShift = nb + sb, sn_nodeShift = sb\<rparr>"
    and range: "0 \<le> sint node" "sint node \<le> sint (mask (unat nb) :: int64)"
    by (auto simp: NewNode_def mask_xor Let_def split: if_splits)
  have "uint node < 2 ^ unat nb"
    using range nodeMax_value [of "unat nb"] bits nonneg_sint [OF range(1)] by simp
  with n sum bits show ?thesis by (simp add: valid_node_def)
qed

text \<open>C25: the IDs a node generates are unique: with bits that fit, a clock that never goes back and
  readings from the epoch to the end of the 41-bit range, the IDs of any number of calls are strictly
  increasing as int64 values and none is negative, whether calls fall into the same millisecond, use up
  its steps and wait, or come later.\<close>

theorem generate_increasing:
  assumes "NewNode nb sb node = Ok n" "unat nb + unat sb \<le> 22"
    and "sorted (map sint readings)" "\<forall>r \<in> set readings. 0 \<le> sint r \<and> sint r < 2 ^ 41"
    and "generateAll k n readings = Ok ids"
  shows "sorted_wrt (<) (map sint ids) \<and> (\<forall>i \<in> set ids. 0 \<le> sint i)"
proof -
  from NewNode_valid [OF assms(1,2)] have v: "valid_node (unat nb) (unat sb) n" and t: "sn_time n = 0"
    by auto
  have clk: "clock_ok (sn_time n) readings" using assms(3,4) by (simp add: clock_ok_def t)
  from generateAll_increasing [OF v clk assms(5)] have s: "sorted_wrt (<) (map uint ids)"
    and made: "\<forall>i \<in> set ids. \<exists>n'. valid_node (unat nb) (unat sb) n' \<and> i = composeID n'"
    by auto
  have eq: "sint i = uint i" if "i \<in> set ids" for i
  proof -
    from made that obtain n' where "valid_node (unat nb) (unat sb) n'" "i = composeID n'" by blast
    with composeID_value idValue_bound sint_small show ?thesis by metis
  qed
  then have m: "map sint ids = map uint ids" by simp
  from s eq show ?thesis unfolding m by simp
qed

lemma generate_increasing_witness:
  "\<exists>n ids. NewNode 10 2 5 = Ok n \<and> generateAll 6 n [7, 7, 7, 7, 7, 7, 8, 8] = Ok ids
     \<and> sorted_wrt (<) (map sint ids)"
proof -
  have "case NewNode 10 2 5 of
      Ok n \<Rightarrow> (case generateAll 6 n [7, 7, 7, 7, 7, 7, 8, 8] of Ok ids \<Rightarrow> True | _ \<Rightarrow> False)
    | _ \<Rightarrow> False"
    by code_simp
  then obtain n ids where n: "NewNode 10 2 5 = Ok n" "generateAll 6 n [7, 7, 7, 7, 7, 7, 8, 8] = Ok ids"
    by (auto split: res.splits)
  have "sorted (map sint [7, 7, 7, 7, 7, 7, 8, 8 :: int64])"
    "\<forall>r \<in> set [7, 7, 7, 7, 7, 7, 8, 8 :: int64]. 0 \<le> sint r \<and> sint r < 2 ^ 41"
    by simp_all
  from generate_increasing [OF n(1) _ this n(2)] n show ?thesis by (intro exI [of _ n] exI [of _ ids]) simp
qed

text \<open>the nodes' IDs are disjoint: whatever their clocks show, two nodes with different numbers and
  the same bits never generate the same ID.\<close>

theorem generate_disjoint:
  assumes "NewNode nb sb node = Ok n" "NewNode nb sb node' = Ok n'" "unat nb + unat sb \<le> 22" "node \<noteq> node'"
    and "sorted (map sint readings)" "\<forall>r \<in> set readings. 0 \<le> sint r \<and> sint r < 2 ^ 41"
    and "sorted (map sint readings')" "\<forall>r \<in> set readings'. 0 \<le> sint r \<and> sint r < 2 ^ 41"
    and "generateAll k n readings = Ok ids" "generateAll k' n' readings' = Ok ids'"
  shows "set ids \<inter> set ids' = {}"
proof -
  have field: "uint i div 2 ^ unat sb mod 2 ^ unat nb = uint nd"
    if "NewNode nb sb nd = Ok m" "sorted (map sint rs)" "\<forall>r \<in> set rs. 0 \<le> sint r \<and> sint r < 2 ^ 41"
      "generateAll j m rs = Ok is" "i \<in> set is" for nd m rs j "is" i
  proof -
    from NewNode_valid [OF that(1) assms(3)] have v: "valid_node (unat nb) (unat sb) m"
      and t: "sn_time m = 0" "sn_node m = nd" by auto
    have "clock_ok (sn_time m) rs" using that(2,3) by (simp add: clock_ok_def t)
    from generateAll_increasing [OF v this that(4)] that(5) t obtain m' where
      m': "valid_node (unat nb) (unat sb) m'" "sn_node m' = nd" "i = composeID m'" by auto
    let ?b = "unat sb" and ?a = "unat nb"
    have "uint i = (uint (sn_time m') * 2 ^ ?a + uint nd) * 2 ^ ?b + uint (sn_step m')"
      using composeID_value [OF m'(1)] m'(2,3) by (simp add: idValue_def power_add algebra_simps)
    moreover have "0 \<le> uint (sn_step m')" "uint (sn_step m') < 2 ^ ?b" "uint nd < 2 ^ ?a" "0 \<le> uint nd"
      using m'(1,2) by (auto simp: valid_node_def)
    ultimately show ?thesis by simp
  qed
  show ?thesis
  proof (rule ccontr)
    assume "set ids \<inter> set ids' \<noteq> {}"
    then obtain i where i: "i \<in> set ids" "i \<in> set ids'" by blast
    from field [OF assms(1,5,6,9) i(1)] field [OF assms(2,7,8,10) i(2)] have "uint node = uint node'" by simp
    with assms(4) show False by (simp add: word_uint_eq_iff)
  qed
qed

lemma generate_disjoint_witness:
  "\<exists>n n' ids ids'. generateAll 2 n [7, 7] = Ok ids \<and> generateAll 2 n' [7, 7] = Ok ids'
     \<and> NewNode 10 12 5 = Ok n \<and> NewNode 10 12 6 = Ok n' \<and> set ids \<inter> set ids' = {}"
proof -
  have "case NewNode 10 12 5 of
      Ok n \<Rightarrow> (case generateAll 2 n [7, 7] of Ok ids \<Rightarrow> True | _ \<Rightarrow> False) | _ \<Rightarrow> False"
    "case NewNode 10 12 6 of
      Ok n \<Rightarrow> (case generateAll 2 n [7, 7] of Ok ids \<Rightarrow> True | _ \<Rightarrow> False) | _ \<Rightarrow> False"
    by code_simp+
  then obtain n ids n' ids' where n: "NewNode 10 12 5 = Ok n" "generateAll 2 n [7, 7] = Ok ids"
    "NewNode 10 12 6 = Ok n'" "generateAll 2 n' [7, 7] = Ok ids'"
    by (auto split: res.splits)
  have "sorted (map sint [7, 7 :: int64])" "\<forall>r \<in> set [7, 7 :: int64]. 0 \<le> sint r \<and> sint r < 2 ^ 41"
    by simp_all
  from generate_disjoint [OF n(1,3) _ _ this this n(2,4)] n show ?thesis by auto
qed

text \<open>with the default bits a node number is accepted exactly from 0 to 1023; the guard on the sum of
  the bits is a sum of bytes, so 10 and 250 bits pass it although they exceed 22.\<close>

theorem NewNode_range:
  "(is_ok (NewNode 10 12 node) \<longleftrightarrow> 0 \<le> sint node \<and> sint node \<le> 1023)
   \<and> is_ok (NewNode 10 250 5)"
proof
  have "(10 :: 8 word) + 12 > 22 \<longleftrightarrow> False" by simp
  then show "is_ok (NewNode 10 12 node) \<longleftrightarrow> 0 \<le> sint node \<and> sint node \<le> 1023"
    using nodeMax_value [of 10] by (auto simp: NewNode_def mask_xor Let_def)
  show "is_ok (NewNode 10 250 5)" by code_simp
qed

subsection \<open>Alphabets and their decoding tables\<close>

lemma decodeTable_length: "length (foldl (\<lambda>t i. t[code (f i) := g i]) t xs) = length t"
  by (induction xs arbitrary: t) simp_all

lemma code_inject [simp]: "code c = code d \<longleftrightarrow> c = d"
  by (simp add: code_def)

lemma code_bound [simp]: "code c < 256"
  using nat_of_char_less_256 [of c] by (simp add: code_def)

lemma decodeTable_fold:
  assumes "distinct (map f xs)" "length t = 256"
  shows "foldl (\<lambda>t i. t[code (f i) := (i :: nat)]) t xs ! code c =
    (if c \<in> f ` set xs then (THE i. i \<in> set xs \<and> f i = c) else t ! code c)"
  using assms
proof (induction xs arbitrary: t)
  case Nil
  then show ?case by simp
next
  case (Cons x xs)
  have d: "distinct (map f xs)" "f x \<notin> f ` set xs" using Cons.prems(1) by auto
  have "foldl (\<lambda>t i. t[code (f i) := i]) t (x # xs) ! code c =
      (if c \<in> f ` set xs then (THE i. i \<in> set xs \<and> f i = c) else t[code (f x) := x] ! code c)"
    using Cons.IH [OF d(1)] Cons.prems(2) by simp
  also have "\<dots> = (if c \<in> f ` set (x # xs) then (THE i. i \<in> set (x # xs) \<and> f i = c) else t ! code c)"
  proof (cases "c \<in> f ` set xs")
    case True
    with d(2) have "i \<in> set (x # xs) \<and> f i = c \<longleftrightarrow> i \<in> set xs \<and> f i = c" for i by auto
    with True show ?thesis by simp
  next
    case False
    then have "i \<in> set (x # xs) \<and> f i = c \<longleftrightarrow> i = x \<and> f x = c" for i by auto
    with False Cons.prems(2) show ?thesis by (cases "c = f x") (simp_all add: nth_list_update)
  qed
  finally show ?case .
qed

context alphabet begin

lemma decodeTable_letter: "i < length letters \<Longrightarrow> decodeTable letters ! code (letters ! i) = i"
proof -
  assume i: "i < length letters"
  have d: "distinct (map (\<lambda>i. letters ! i) [0..<length letters])" by (simp add: map_nth letters_distinct)
  have "(THE j. j \<in> set [0..<length letters] \<and> letters ! j = letters ! i) = i"
    using i letters_distinct by (auto simp: nth_eq_iff_index_eq)
  with i decodeTable_fold [OF d, of "replicate 256 255" "letters ! i"] show ?thesis
    by (simp add: decodeTable_def)
qed

lemma decodeTable_other: "c \<notin> set letters \<Longrightarrow> decodeTable letters ! code c = 255"
proof -
  assume c: "c \<notin> set letters"
  have d: "distinct (map (\<lambda>i. letters ! i) [0..<length letters])" by (simp add: map_nth letters_distinct)
  from c have "c \<notin> (\<lambda>i. letters ! i) ` set [0..<length letters]" by auto
  with decodeTable_fold [OF d, of "replicate 256 255" c] show ?thesis by (simp add: decodeTable_def)
qed

lemma decodeLoop_letters:
  "\<forall>d \<in> set ds. d < length letters \<Longrightarrow>
     decodeLoop (decodeTable letters) (of_nat (length letters)) w (map (\<lambda>d. letters ! d) ds)
       = Ok (foldl (\<lambda>w d. w * of_nat (length letters) + of_nat d) w ds)"
  using letters_size by (induction ds arbitrary: w) (auto simp: decodeTable_letter)

lemma foldl_of_nat:
  "foldl (\<lambda>w d. w * of_nat b + of_nat d) (of_nat k :: int64) ds = of_nat (foldl (\<lambda>n d. n * b + d) k ds)"
  by (induction ds arbitrary: k) (simp_all flip: of_nat_mult of_nat_add)

text \<open>A non-negative ID is read back from its text.\<close>

lemma decode_encode:
  assumes "0 \<le> sint f"
  shows "\<exists>s. encodeID letters f = Ok s
    \<and> decodeLoop (decodeTable letters) (of_nat (length letters)) 0 s = Ok f"
proof -
  let ?b = "length letters" and ?n = "nat (sint f)"
  have "foldl (\<lambda>w d. w * of_nat ?b + of_nat d) (of_nat 0 :: int64) (rev (digitsOf ?b ?n)) = of_nat ?n"
    unfolding foldl_of_nat using valueOf_digitsOf [OF letters_size(1), of ?n] by (simp add: valueOf_def)
  also have "(of_nat ?n :: int64) = of_int (sint f)" using assms by simp
  finally have "foldl (\<lambda>w d. w * of_nat ?b + of_nat d) 0 (rev (digitsOf ?b ?n)) = f" by simp
  with decodeLoop_letters [of "rev (digitsOf ?b ?n)" 0] digitsOf_less [OF letters_size(1)] assms
  show ?thesis by (simp add: encodeID_def rev_map)
qed

text \<open>A text with a character that is no letter is an error.\<close>

lemma decode_invalid:
  "\<not> set s \<subseteq> set letters \<Longrightarrow> decodeLoop (decodeTable letters) b w s = Err ()"
proof (induction s arbitrary: w)
  case (Cons c s)
  then show ?case by (cases "c \<in> set letters") (auto simp: decodeTable_other)
qed simp

end

interpretation base32: alphabet encodeBase32Map
  by unfold_locales (simp_all add: encodeBase32Map_def)

interpretation base58: alphabet encodeBase58Map
  by unfold_locales (simp_all add: encodeBase58Map_def)

lemma map_lengths: "length encodeBase32Map = 32" "length encodeBase58Map = 58"
  by (simp_all add: encodeBase32Map_def encodeBase58Map_def)

text \<open>the two compact forms: a non-negative ID is read back from its base 32 and from its base 58
  text, a negative ID makes both forms panic, and both parsers refuse a text
  with a character outside their alphabet.\<close>

theorem compact_roundtrip:
  "(0 \<le> sint f \<longrightarrow>
      rbind (ID_Base32 f) ParseBase32 = Ok f \<and> rbind (ID_Base58 f) ParseBase58 = Ok f)
   \<and> (sint f < 0 \<longrightarrow> ID_Base32 f = Panic \<and> ID_Base58 f = Panic)
   \<and> (\<not> set s \<subseteq> set encodeBase32Map \<longrightarrow> ParseBase32 s = Err ())
   \<and> (\<not> set s \<subseteq> set encodeBase58Map \<longrightarrow> ParseBase58 s = Err ())"
  using base32.decode_encode [of f] base58.decode_encode [of f] base32.decode_invalid [of s 32 0]
    base58.decode_invalid [of s 58 0]
  by (auto simp: ID_Base32_def ID_Base58_def ParseBase32_def ParseBase58_def map_lengths encodeID_def)

lemma compact_roundtrip_witness:
  "rbind (ID_Base32 1000) ParseBase32 = Ok 1000 \<and> ID_Base58 (- 1) = Panic \<and> ParseBase58 ''0'' = Err ()"
  using compact_roundtrip [of 1000 "''0''"] compact_roundtrip [of "- 1" "''0''"]
  by (simp add: encodeBase58Map_def)

lemma ParseBase32_letters:
  "\<forall>d \<in> set ds. d < 32 \<Longrightarrow> ParseBase32 (map (\<lambda>d. encodeBase32Map ! d) ds)
     = Ok (foldl (\<lambda>w d. w * 32 + of_nat d) 0 ds)"
  using base32.decodeLoop_letters [of ds 0] by (simp add: ParseBase32_def map_lengths)

lemma base32_yb: "encodeBase32Map ! 0 = CHR ''y''" "encodeBase32Map ! Suc 0 = CHR ''b''"
  "encodeBase32Map ! 8 = CHR ''e''"
  by (simp_all add: encodeBase32Map_def)

text \<open>the compact parsers do not notice a text too long for 64 bits: its value is taken modulo 2 to
  the 64, so a text with another letter in front gives the same ID without an error, the empty text
  gives 0, and a text of 13 letters can give a negative ID.\<close>

theorem compact_overflow:
  "ParseBase32 ''yyyyyyyyyyyyyb'' = Ok 1 \<and> ParseBase32 ''byyyyyyyyyyyyyb'' = Ok 1
   \<and> ParseBase32 [] = Ok 0 \<and> ParseBase58 [] = Ok 0
   \<and> (\<exists>f. ParseBase32 ''eyyyyyyyyyyyy'' = Ok f \<and> sint f < 0)"
proof (intro conjI)
  show "ParseBase32 ''yyyyyyyyyyyyyb'' = Ok 1"
    using ParseBase32_letters [of "replicate 13 0 @ [1]"] by (simp add: base32_yb numeral_eq_Suc)
  have "ParseBase32 ''byyyyyyyyyyyyyb'' = Ok 1180591620717411303425"
    using ParseBase32_letters [of "1 # replicate 13 0 @ [1]"] by (simp add: base32_yb numeral_eq_Suc)
  moreover have "(1180591620717411303425 :: int64) = 1" by (simp add: word_eq_iff_unsigned)
  ultimately show "ParseBase32 ''byyyyyyyyyyyyyb'' = Ok 1" by (simp only:)
  show "ParseBase32 [] = Ok 0" "ParseBase58 [] = Ok 0" by (simp_all add: ParseBase32_def ParseBase58_def)
  have "ParseBase32 ''eyyyyyyyyyyyy'' = Ok 0x8000000000000000"
    using ParseBase32_letters [of "[8, 0, 0, 0, 0, 0, 0, 0, 0, 0, 0, 0, 0]"] by (simp add: base32_yb)
  then show "\<exists>f. ParseBase32 ''eyyyyyyyyyyyy'' = Ok f \<and> sint f < 0" by auto
qed

subsection \<open>The other forms\<close>

lemma sint_range: "- (2 ^ 63) \<le> sint f" "sint f < 2 ^ 63" for f :: int64
  using sint_ge [of f] sint_lt [of f] by simp_all

lemma parseID_FormatInt:
  "2 \<le> b \<Longrightarrow> b \<le> 36 \<Longrightarrow> parseID b (FormatInt (sint f) b) = (f, None)"
  using ParseInt_FormatInt [of b "sint f", OF _ _ sint_range] by (simp add: parseID_def)

text \<open>every ID, negative ones and the smallest int64 included, is read back without an error from
  its decimal, binary and base 36 texts and from its bytes.\<close>

theorem text_roundtrip:
  "ParseString (ID_String f) = (f, None) \<and> ParseBase2 (ID_Base2 f) = (f, None)
   \<and> ParseBase36 (ID_Base36 f) = (f, None) \<and> ParseBytes (ID_Bytes f) = (f, None)"
  by (simp add: ParseString_def ParseBase2_def ParseBase36_def ParseBytes_def ID_String_def ID_Base2_def
      ID_Base36_def ID_Bytes_def parseID_FormatInt)

text \<open>an ID is read back from its base 64 text, given that \<open>base64.StdEncoding\<close> decodes what it
  encodes.\<close>

theorem base64_roundtrip:
  assumes "\<And>s. unb64 (b64 s) = Some s"
  shows "ParseBase64 unb64 (ID_Base64 b64 f) = (f, None)"
  by (simp add: assms ParseBase64_def ID_Base64_def ParseBytes_def ID_Bytes_def ID_String_def
      parseID_FormatInt)

lemma base64_roundtrip_witness:
  "ParseBase64 (\<lambda>s. Some (rev s)) (ID_Base64 rev 77) = (77, None)"
  by (rule base64_roundtrip) simp

lemma join_byte:
  fixes f :: int64
  assumes "k + 8 \<le> 64"
  shows "or (push_bit 8 (drop_bit (k + 8) f)) (ucast (ucast (drop_bit k f) :: 8 word)) = drop_bit k f"
proof (rule bit_word_eqI)
  fix n
  assume n: "n < LENGTH(64)"
  have "bit f (k + 8 + (n - 8)) \<longleftrightarrow> bit f (k + n)" if "8 \<le> n" using that by simp
  then show "bit (or (push_bit 8 (drop_bit (k + 8) f)) (ucast (ucast (drop_bit k f) :: 8 word))) n
      = bit (drop_bit k f) n"
    using n by (cases "n < 8") (auto simp: bit_simps)
qed

lemma top_byte: "ucast (ucast (drop_bit 56 f) :: 8 word) = drop_bit 56 (f :: int64)"
proof (rule bit_word_eqI)
  fix n
  assume "n < LENGTH(64)"
  then show "bit (ucast (ucast (drop_bit 56 f) :: 8 word) :: int64) n = bit (drop_bit 56 f) n"
    using bit_imp_le_length [of f "56 + n"] by (auto simp: bit_simps)
qed

lemma pick_byte:
  fixes w :: int64
  shows "ucast (drop_bit 0 (or (push_bit 8 w) (ucast b))) = (b :: 8 word)"
    and "k + 8 \<le> 56 \<Longrightarrow> (ucast (drop_bit (k + 8) (or (push_bit 8 w) (ucast b))) :: 8 word) = ucast (drop_bit k w)"
proof -
  show "ucast (drop_bit 0 (or (push_bit 8 w) (ucast b))) = (b :: 8 word)"
    by (rule bit_word_eqI) (auto simp: bit_simps)
  assume k: "k + 8 \<le> 56"
  show "(ucast (drop_bit (k + 8) (or (push_bit 8 w) (ucast b))) :: 8 word) = ucast (drop_bit k w)"
  proof (rule bit_word_eqI)
    fix n
    assume n: "n < LENGTH(8)"
    have "\<not> bit b (k + 8 + n)" using bit_imp_le_length [of b "k + 8 + n"] by auto
    with n k show "bit (ucast (drop_bit (k + 8) (or (push_bit 8 w) (ucast b))) :: 8 word) n
        = bit (ucast (drop_bit k w) :: 8 word) n"
      by (auto simp: bit_simps)
  qed
qed

text \<open>Appending a byte, kept folded so that the bytes are picked off one at a time.\<close>

definition add_byte :: "int64 \<Rightarrow> 8 word \<Rightarrow> int64" where
  "add_byte w b = or (push_bit 8 w) (ucast b)"

lemmas pick_add_byte = pick_byte(1) [folded add_byte_def, simplified]
  pick_byte(2) [of 0, folded add_byte_def, simplified] pick_byte(2) [of 8, folded add_byte_def, simplified]
  pick_byte(2) [of 16, folded add_byte_def, simplified] pick_byte(2) [of 24, folded add_byte_def, simplified]
  pick_byte(2) [of 32, folded add_byte_def, simplified] pick_byte(2) [of 40, folded add_byte_def, simplified]
  pick_byte(2) [of 48, folded add_byte_def, simplified]

lemma bytes_list: "[0..<8] = [0, 1, 2, 3, 4, 5, 6, 7 :: nat]"
  by (simp add: upt_rec)

text \<open>an ID is read back from its eight bytes in big-endian order, and any eight bytes are the bytes
  of the ID they are read as.\<close>

theorem IntBytes_roundtrip:
  "ParseIntBytes (ID_IntBytes f) = f
   \<and> ID_IntBytes (ParseIntBytes [b0, b1, b2, b3, b4, b5, b6, b7]) = [b0, b1, b2, b3, b4, b5, b6, b7]"
proof
  show "ParseIntBytes (ID_IntBytes f) = f"
    using join_byte [of 48 f] join_byte [of 40 f] join_byte [of 32 f] join_byte [of 24 f]
      join_byte [of 16 f] join_byte [of 8 f] join_byte [of 0 f] top_byte [of f]
    by (simp add: ParseIntBytes_def ID_IntBytes_def bytes_list)
  show "ID_IntBytes (ParseIntBytes [b0, b1, b2, b3, b4, b5, b6, b7]) = [b0, b1, b2, b3, b4, b5, b6, b7]"
    by (simp add: ParseIntBytes_def ID_IntBytes_def bytes_list pick_add_byte flip: add_byte_def)
qed

text \<open>the JSON form of an ID, a decimal number between quotes, is read back to it.\<close>

theorem JSON_roundtrip: "UnmarshalJSON (MarshalJSON f) = Ok f"
proof -
  have "FormatInt (sint f) 10 \<noteq> []" using formatUint_head(1) [of 10] by (simp add: FormatInt_def)
  then have "\<not> length (MarshalJSON f) < 3" by (cases "FormatInt (sint f) 10") (simp_all add: MarshalJSON_def)
  moreover have "ParseInt (FormatInt (sint f) 10) 10 = (sint f, None)"
    by (rule ParseInt_FormatInt [OF _ _ sint_range]) simp_all
  moreover have "butlast (tl (MarshalJSON f)) = FormatInt (sint f) 10" "hd (MarshalJSON f) = CHR 0x22"
    "last (MarshalJSON f) = CHR 0x22"
    by (simp_all add: MarshalJSON_def)
  ultimately show ?thesis unfolding UnmarshalJSON_def by simp
qed

end
