(* ===== verification/ShellParser.thy ===== *)
theory ShellParser
  imports GoText
begin

text \<open>
  The command-line parser of the shell, \<open>jsh/lib/shell/parser.go\<close>: statements, pipelines, words with
  their quoted fragments, redirections and assignments.
\<close>

subsection \<open>Words\<close>

datatype quote_kind = QuoteNone | QuoteSingle | QuoteDouble

record word_fragment =
  fr_Text :: string
  fr_QuoteKind :: quote_kind

record shell_word =
  wd_Fragments :: "word_fragment list"
  wd_Explicit :: bool

definition Word_String :: "shell_word \<Rightarrow> string" where
  "Word_String w = concat (map fr_Text (wd_Fragments w))"

definition Word_IsEmpty :: "shell_word \<Rightarrow> bool" where
  "Word_IsEmpty w = (Word_String w = [])"

definition HasQuotedFragment :: "shell_word \<Rightarrow> bool" where
  "HasQuotedFragment w = list_ex (\<lambda>f. fr_QuoteKind f \<noteq> QuoteNone) (wd_Fragments w)"

definition HasUnquotedFragment :: "shell_word \<Rightarrow> bool" where
  "HasUnquotedFragment w = list_ex (\<lambda>f. fr_QuoteKind f = QuoteNone) (wd_Fragments w)"

definition newWord :: "string \<Rightarrow> shell_word" where
  "newWord s = \<lparr>wd_Fragments = [\<lparr>fr_Text = s, fr_QuoteKind = QuoteNone\<rparr>], wd_Explicit = True\<rparr>"

definition isRedirectOperator :: "shell_word \<Rightarrow> bool" where
  "isRedirectOperator w =
     (\<not> HasQuotedFragment w
      \<and> Word_String w \<in> {''<'', ''>'', ''>>'', ''2>'', ''2>>'', ''2>&1''})"

subsection \<open>The parsed command\<close>

record shell_redirect =
  rd_Type :: string
  rd_Target :: string
  rd_TargetWord :: "shell_word option"

record shell_assignment =
  as_Name :: string
  as_ValueWord :: shell_word
  as_Value :: string

record shell_pipeline =
  pl_Assignments :: "shell_assignment list"
  pl_ParseError :: string
  pl_CommandWord :: "shell_word option"
  pl_ArgWords :: "shell_word list"
  pl_Command :: string
  pl_Args :: "string list"
  pl_Stdin :: "shell_redirect option"
  pl_Stdout :: "shell_redirect option"
  pl_Stderr :: "shell_redirect option"

record shell_statement =
  ss_Pipelines :: "shell_pipeline list"
  ss_Operator :: string

record shell_command =
  sh_Raw :: string
  sh_Statements :: "shell_statement list"

subsection \<open>Quotes\<close>

text \<open>
  The test every scanner makes: a quote character that no backslash precedes.  The open quote,
  \<open>inQuote\<close> with \<open>quoteChar\<close>, is an option.
\<close>

definition BACKSLASH :: char where "BACKSLASH = CHR 0x5C"

definition isQuote :: "char \<Rightarrow> char \<Rightarrow> bool" where
  "isQuote prev c = ((c = CHR 0x22 \<or> c = CHR 0x27) \<and> prev \<noteq> BACKSLASH)"

definition nextQuote :: "char option \<Rightarrow> char \<Rightarrow> char option" where
  "nextQuote q c = (case q of None \<Rightarrow> Some c | Some d \<Rightarrow> if c = d then None else q)"

subsection \<open>Statements and pipelines\<close>

definition flushText :: "string \<Rightarrow> string list" where
  "flushText cur = (if cur \<noteq> [] then [trimSpace cur] else [])"

fun splitStatementsLoop :: "char option \<Rightarrow> char \<Rightarrow> string \<Rightarrow> string \<Rightarrow> string list" where
  "splitStatementsLoop q prev cur [] = flushText cur"
| "splitStatementsLoop q prev cur (c # cs) =
     (if isQuote prev c then splitStatementsLoop (nextQuote q c) c (cur @ [c]) cs
      else if q = None \<and> c = CHR ''&'' \<and> cs \<noteq> [] \<and> hd cs = CHR ''&''
      then flushText cur @ splitStatementsLoop q c [] (tl cs)
      else if q = None \<and> c = CHR '';'' then flushText cur @ splitStatementsLoop q c [] cs
      else splitStatementsLoop q c (cur @ [c]) cs)"

definition splitStatements :: "string \<Rightarrow> string list" where
  "splitStatements input = splitStatementsLoop None (CHR 0x00) [] input"

fun splitPipesLoop :: "char option \<Rightarrow> char \<Rightarrow> string \<Rightarrow> string \<Rightarrow> string list" where
  "splitPipesLoop q prev cur [] = flushText cur"
| "splitPipesLoop q prev cur (c # cs) =
     (if isQuote prev c then splitPipesLoop (nextQuote q c) c (cur @ [c]) cs
      else if q = None \<and> c = CHR ''|'' then flushText cur @ splitPipesLoop q c [] cs
      else splitPipesLoop q c (cur @ [c]) cs)"

definition splitPipes :: "string \<Rightarrow> string list" where
  "splitPipes input = splitPipesLoop None (CHR 0x00) [] input"

subsection \<open>Tokens\<close>

record tok_state =
  ts_tokens :: "shell_word list"
  ts_fragment :: string
  ts_fragments :: "word_fragment list"
  ts_quote :: "char option"
  ts_currentQuote :: quote_kind
  ts_inToken :: bool

definition tokInit :: tok_state where
  "tokInit = \<lparr>ts_tokens = [], ts_fragment = [], ts_fragments = [], ts_quote = None,
     ts_currentQuote = QuoteNone, ts_inToken = False\<rparr>"

definition flushFragment :: "bool \<Rightarrow> tok_state \<Rightarrow> tok_state" where
  "flushFragment force st =
     (if ts_fragment st = [] \<and> \<not> force then st
      else st\<lparr>ts_fragments := ts_fragments st @
                [\<lparr>fr_Text = ts_fragment st, fr_QuoteKind = ts_currentQuote st\<rparr>],
              ts_fragment := []\<rparr>)"

definition flushToken :: "tok_state \<Rightarrow> tok_state" where
  "flushToken st =
     (if \<not> ts_inToken st then st
      else (let st1 = flushFragment False st in
        st1\<lparr>ts_tokens := ts_tokens st1 @ [\<lparr>wd_Fragments = ts_fragments st1, wd_Explicit = True\<rparr>],
            ts_fragments := [], ts_currentQuote := QuoteNone, ts_inToken := False\<rparr>))"

definition pushOperator :: "string \<Rightarrow> tok_state \<Rightarrow> tok_state" where
  "pushOperator s st = (let st1 = flushToken st in st1\<lparr>ts_tokens := ts_tokens st1 @ [newWord s]\<rparr>)"

definition openQuote :: "char \<Rightarrow> tok_state \<Rightarrow> tok_state" where
  "openQuote c st =
     (flushFragment False st)\<lparr>ts_quote := Some c, ts_inToken := True,
        ts_currentQuote := (if c = CHR 0x27 then QuoteSingle else QuoteDouble)\<rparr>"

definition closeQuote :: "tok_state \<Rightarrow> tok_state" where
  "closeQuote st = (flushFragment True st)\<lparr>ts_quote := None, ts_currentQuote := QuoteNone\<rparr>"

definition addChar :: "char \<Rightarrow> tok_state \<Rightarrow> tok_state" where
  "addChar c st = st\<lparr>ts_inToken := True, ts_fragment := ts_fragment st @ [c]\<rparr>"

fun tokenizeLoop :: "char \<Rightarrow> tok_state \<Rightarrow> string \<Rightarrow> tok_state" where
  "tokenizeLoop prev st [] = flushToken st"
| "tokenizeLoop prev st (c # cs) =
     (if isQuote prev c \<and> ts_quote st = None then tokenizeLoop c (openQuote c st) cs
      else if isQuote prev c \<and> ts_quote st = Some c then tokenizeLoop c (closeQuote st) cs
      else if ts_quote st = None \<and> (c = CHR '' '' \<or> c = TAB) then tokenizeLoop c (flushToken st) cs
      else if ts_quote st = None \<and> c = CHR ''2'' \<and> hasPrefix cs ''>&1'' then
        tokenizeLoop (CHR ''1'') (pushOperator ''2>&1'' st) (drop 3 cs)
      else if ts_quote st = None \<and> c = CHR ''2'' \<and> hasPrefix cs ''>'' then
        (if hasPrefix cs ''>>''
         then tokenizeLoop (CHR ''>'') (pushOperator ''2>>'' st) (drop 2 cs)
         else tokenizeLoop (CHR ''>'') (pushOperator ''2>'' st) (drop 1 cs))
      else if ts_quote st = None \<and> c = CHR ''>'' \<and> hasPrefix cs ''>'' then
        tokenizeLoop c (pushOperator ''>>'' st) (drop 1 cs)
      else if ts_quote st = None \<and> (c = CHR ''<'' \<or> c = CHR ''>'') then
        tokenizeLoop c (pushOperator [c] st) cs
      else tokenizeLoop c (addChar c st) cs)"

definition tokenize :: "string \<Rightarrow> shell_word list" where
  "tokenize input = ts_tokens (tokenizeLoop (CHR 0x00) tokInit input)"

subsection \<open>Assignments\<close>

definition validAssignmentName :: "string \<Rightarrow> bool" where
  "validAssignmentName s =
     (s \<noteq> [] \<and> (isUpperAscii (hd s) \<or> isLowerAscii (hd s) \<or> hd s = CHR ''_'')
      \<and> list_all (\<lambda>c. isUpperAscii c \<or> isLowerAscii c \<or> isDigit c \<or> c = CHR ''_'') (tl s))"

datatype assign_result = NotAssignment | AssignError string | IsAssignment shell_assignment

text \<open>\<open>before\<close> holds the fragments in front, all unquoted and without an equals sign.\<close>

fun scanAssignment :: "word_fragment list \<Rightarrow> word_fragment list \<Rightarrow> assign_result" where
  "scanAssignment before [] = NotAssignment"
| "scanAssignment before (f # fs) =
     (if fr_QuoteKind f \<noteq> QuoteNone
      then AssignError (''invalid variable name: '' @ concat (map fr_Text (before @ [f])))
      else case indexOf (fr_Text f) (CHR ''='') of
        None \<Rightarrow> scanAssignment (before @ [f]) fs
      | Some i \<Rightarrow>
          (let name = concat (map fr_Text before) @ take i (fr_Text f);
               tailText = drop (Suc i) (fr_Text f)
           in if \<not> validAssignmentName name then AssignError (''invalid variable name: '' @ name)
              else IsAssignment
                \<lparr>as_Name = name,
                 as_ValueWord =
                   \<lparr>wd_Fragments =
                      (if tailText \<noteq> [] then [\<lparr>fr_Text = tailText, fr_QuoteKind = QuoteNone\<rparr>] else []) @ fs,
                    wd_Explicit = True\<rparr>,
                 as_Value = []\<rparr>))"

definition parseAssignmentWord :: "shell_word \<Rightarrow> assign_result" where
  "parseAssignmentWord w = scanAssignment [] (wd_Fragments w)"

subsection \<open>Pipelines and commands\<close>

definition emptyPipeline :: shell_pipeline where
  "emptyPipeline = \<lparr>pl_Assignments = [], pl_ParseError = [], pl_CommandWord = None, pl_ArgWords = [],
     pl_Command = [], pl_Args = [], pl_Stdin = None, pl_Stdout = None, pl_Stderr = None\<rparr>"

definition setRedirect :: "shell_word \<Rightarrow> shell_word \<Rightarrow> shell_pipeline \<Rightarrow> shell_pipeline" where
  "setRedirect op target p =
     (let r = \<lparr>rd_Type = Word_String op, rd_Target = Word_String target, rd_TargetWord = Some target\<rparr> in
      if Word_String op = ''<'' then p\<lparr>pl_Stdin := Some r\<rparr>
      else if Word_String op = ''>'' \<or> Word_String op = ''>>'' then p\<lparr>pl_Stdout := Some r\<rparr>
      else p\<lparr>pl_Stderr := Some r\<rparr>)"

text \<open>The first loop: redirections are taken out, the other tokens are kept.\<close>

fun takeRedirects :: "shell_pipeline \<Rightarrow> shell_word list \<Rightarrow> shell_word list \<Rightarrow> shell_pipeline \<times> shell_word list" where
  "takeRedirects p cmd [] = (p, cmd)"
| "takeRedirects p cmd [t] =
     (if isRedirectOperator t \<and> Word_String t = ''2>&1''
      then (p\<lparr>pl_Stderr := Some \<lparr>rd_Type = Word_String t, rd_Target = ''1'', rd_TargetWord = None\<rparr>\<rparr>, cmd)
      else (p, cmd @ [t]))"
| "takeRedirects p cmd (t # target # ts) =
     (if isRedirectOperator t \<and> Word_String t = ''2>&1''
      then takeRedirects
             (p\<lparr>pl_Stderr := Some \<lparr>rd_Type = Word_String t, rd_Target = ''1'', rd_TargetWord = None\<rparr>\<rparr>)
             cmd (target # ts)
      else if isRedirectOperator t then takeRedirects (setRedirect t target p) cmd ts
      else takeRedirects p (cmd @ [t]) (target # ts))"

text \<open>The second loop: leading assignments; an error ends the parse of the pipeline.\<close>

fun takeAssignments :: "shell_pipeline \<Rightarrow> shell_word list \<Rightarrow> shell_pipeline" where
  "takeAssignments p [] = p"
| "takeAssignments p (t # ts) =
     (case parseAssignmentWord t of
        AssignError e \<Rightarrow> p\<lparr>pl_ParseError := e\<rparr>
      | IsAssignment a \<Rightarrow> takeAssignments (p\<lparr>pl_Assignments := pl_Assignments p @ [a]\<rparr>) ts
      | NotAssignment \<Rightarrow>
          p\<lparr>pl_CommandWord := Some t, pl_Command := Word_String t,
            pl_ArgWords := ts, pl_Args := map Word_String ts\<rparr>)"

definition parsePipeline :: "string \<Rightarrow> shell_pipeline" where
  "parsePipeline input0 =
     (let input = trimSpace input0 in
      if input = [] then emptyPipeline
      else (case takeRedirects emptyPipeline [] (tokenize input) of
              (p, cmdTokens) \<Rightarrow> takeAssignments p cmdTokens))"

definition statementOf :: "string \<Rightarrow> nat \<Rightarrow> nat \<Rightarrow> string \<Rightarrow> shell_statement" where
  "statementOf input n i stmtStr =
     \<lparr>ss_Pipelines = map parsePipeline (splitPipes stmtStr),
      ss_Operator = (if i < n - 1 then (if containsStr input ''&&'' then ''&&'' else '';'') else [])\<rparr>"

definition parseCommand :: "string \<Rightarrow> shell_command" where
  "parseCommand raw =
     (let input = trimSpace raw in
      if input = [] then \<lparr>sh_Raw = raw, sh_Statements = []\<rparr>
      else (let statements = splitStatements input in
        \<lparr>sh_Raw = raw,
         sh_Statements = map (\<lambda>(i, s). statementOf input (length statements) i s) (enumerate 0 statements)\<rparr>))"

end
