(* ===== verification/ShellText.thy ===== *)
theory ShellText
  imports ShellParser
begin

text \<open>
  What \<open>jsh/lib/shell/parser.go\<close> promises: a text joined from pieces is split into these pieces
  (\<open>splitStatements\<close>, \<open>splitPipes\<close>), a text joined from rendered words is tokenized into these
  words, and a command line of assignments, a command, arguments and a redirection is parsed into
  exactly these.
\<close>

subsection \<open>Splitters\<close>

text \<open>
  Both splitters read a text in pieces: \<open>piece\<close> says that the scanner leaves the text with its
  quotes closed and meets no separator outside them.  \<open>stop\<close> looks at the rest of the text, as
  the scanners do.
\<close>

fun piece :: "(string \<Rightarrow> bool) \<Rightarrow> char option \<Rightarrow> char \<Rightarrow> string \<Rightarrow> bool" where
  "piece stop q prev [] = (q = None)"
| "piece stop q prev (c # cs) =
     (if isQuote prev c then piece stop (nextQuote q c) c cs
      else if q = None \<and> stop (c # cs) then False
      else piece stop q c cs)"

fun pipeStop :: "string \<Rightarrow> bool" where
  "pipeStop [] = False"
| "pipeStop (c # cs) = (c = CHR ''|'')"

text \<open>An ampersand may stand alone; at the end of a piece it could pair with the next one.\<close>

fun statementStop :: "string \<Rightarrow> bool" where
  "statementStop [] = False"
| "statementStop (c # cs) = (c = CHR '';'' \<or> (c = CHR ''&'' \<and> (cs = [] \<or> hd cs = CHR ''&'')))"

definition pipePiece :: "string \<Rightarrow> bool" where
  "pipePiece s = (s \<noteq> [] \<and> piece pipeStop None (CHR 0x00) s)"

definition statementPiece :: "string \<Rightarrow> bool" where
  "statementPiece s = (s \<noteq> [] \<and> piece statementStop None (CHR 0x00) s)"

text \<open>The contract of a splitter, and what follows from it for a joined text.\<close>

locale splitter =
  fixes split :: "string \<Rightarrow> string list" and sep :: string and fits :: "string \<Rightarrow> bool"
  assumes split_last: "fits p \<Longrightarrow> split p = [trimSpace p]"
    and split_first: "fits p \<Longrightarrow> split (p @ sep @ t) = trimSpace p # split t"
begin

lemma split_join:
  "ps \<noteq> [] \<Longrightarrow> (\<And>p. p \<in> set ps \<Longrightarrow> fits p) \<Longrightarrow> split (joinWith sep ps) = map trimSpace ps"
proof (induction ps)
  case (Cons p ps)
  then show ?case
    by (cases ps) (simp_all add: split_last split_first del: append_assoc)
qed simp

end

lemma isQuote_prev: "prev \<noteq> BACKSLASH \<Longrightarrow> isQuote prev c = isQuote (CHR 0x00) c"
  by (auto simp: isQuote_def BACKSLASH_def)

lemma isQuote_start: "isQuote CHR ''|'' = isQuote (CHR 0x00)" "isQuote CHR '';'' = isQuote (CHR 0x00)"
  "isQuote CHR ''&'' = isQuote (CHR 0x00)"
  by (simp_all add: isQuote_def BACKSLASH_def fun_eq_iff)

lemma not_quote [simp]: "\<not> isQuote prev CHR ''|''" "\<not> isQuote prev CHR '';''" "\<not> isQuote prev CHR ''&''"
  by (simp_all add: isQuote_def)

text \<open>Behind a separator the scanners go on as at the start of a text.\<close>

lemma restart:
  "splitPipesLoop None (CHR ''|'') [] t = splitPipes t"
  "splitStatementsLoop None (CHR '';'') [] t = splitStatements t"
  "splitStatementsLoop None (CHR ''&'') [] t = splitStatements t"
  by (cases t; simp add: splitPipes_def splitStatements_def isQuote_start)+

lemma pipe_step:
  "isQuote prev c \<Longrightarrow> splitPipesLoop q prev cur (c # s) = splitPipesLoop (nextQuote q c) c (cur @ [c]) s"
  "\<not> isQuote prev c \<Longrightarrow> \<not> (q = None \<and> pipeStop (c # cs)) \<Longrightarrow>
     splitPipesLoop q prev cur (c # cs @ t) = splitPipesLoop q c (cur @ [c]) (cs @ t)"
  by auto

lemma statement_step:
  "isQuote prev c \<Longrightarrow>
     splitStatementsLoop q prev cur (c # s) = splitStatementsLoop (nextQuote q c) c (cur @ [c]) s"
  "\<not> isQuote prev c \<Longrightarrow> \<not> (q = None \<and> statementStop (c # cs)) \<Longrightarrow>
     splitStatementsLoop q prev cur (c # cs @ t) = splitStatementsLoop q c (cur @ [c]) (cs @ t)"
  by (simp, cases cs) auto

text \<open>A piece is read to its end whatever follows it.\<close>

lemma pipe_piece:
  "piece stop q prev p \<Longrightarrow> stop = pipeStop \<Longrightarrow>
     \<exists>prev'. splitPipesLoop q prev cur (p @ t) = splitPipesLoop None prev' (cur @ p) t"
proof (induction stop q prev p arbitrary: cur rule: piece.induct)
  case (2 stop q prev c cs)
  show ?case
  proof (cases "isQuote prev c")
    case True
    with 2(1) [of "cur @ [c]"] 2(3,4) show ?thesis
      by (simp del: splitPipesLoop.simps add: pipe_step)
  next
    case False
    with 2(2) [of "cur @ [c]"] 2(3,4) show ?thesis
      by (simp del: splitPipesLoop.simps add: pipe_step split: if_splits)
  qed
qed auto

lemma statement_piece:
  "piece stop q prev p \<Longrightarrow> stop = statementStop \<Longrightarrow>
     \<exists>prev'. splitStatementsLoop q prev cur (p @ t) = splitStatementsLoop None prev' (cur @ p) t"
proof (induction stop q prev p arbitrary: cur rule: piece.induct)
  case (2 stop q prev c cs)
  show ?case
  proof (cases "isQuote prev c")
    case True
    with 2(1) [of "cur @ [c]"] 2(3,4) show ?thesis
      by (simp del: splitStatementsLoop.simps add: statement_step)
  next
    case False
    with 2(2) [of "cur @ [c]"] 2(3,4) show ?thesis
      by (simp del: splitStatementsLoop.simps add: statement_step split: if_splits)
  qed
qed auto

lemma splitPipes_last: "pipePiece p \<Longrightarrow> splitPipes p = [trimSpace p]"
  using pipe_piece [of pipeStop None "CHR 0x00" p "[]" "[]"]
  by (auto simp: pipePiece_def splitPipes_def flushText_def)

lemma splitPipes_first: "pipePiece p \<Longrightarrow> splitPipes (p @ ''|'' @ t) = trimSpace p # splitPipes t"
  using pipe_piece [of pipeStop None "CHR 0x00" p "[]" "''|'' @ t"]
  by (auto simp: pipePiece_def splitPipes_def [of "_ @ _"] flushText_def restart)

lemma splitStatements_last: "statementPiece p \<Longrightarrow> splitStatements p = [trimSpace p]"
  using statement_piece [of statementStop None "CHR 0x00" p "[]" "[]"]
  by (auto simp: statementPiece_def splitStatements_def flushText_def)

lemma splitStatements_first:
  "statementPiece p \<Longrightarrow> splitStatements (p @ '';'' @ t) = trimSpace p # splitStatements t"
  "statementPiece p \<Longrightarrow> splitStatements (p @ ''&&'' @ t) = trimSpace p # splitStatements t"
  using statement_piece [of statementStop None "CHR 0x00" p "[]" "'';'' @ t"]
    statement_piece [of statementStop None "CHR 0x00" p "[]" "''&&'' @ t"]
  by (auto simp: statementPiece_def splitStatements_def [of "_ @ _"] flushText_def restart)

interpretation pipes: splitter splitPipes "''|''" pipePiece
  by unfold_locales (rule splitPipes_last splitPipes_first; assumption)+

interpretation semis: splitter splitStatements "'';''" statementPiece
  by unfold_locales (rule splitStatements_last splitStatements_first; assumption)+

interpretation ands: splitter splitStatements "''&&''" statementPiece
  by unfold_locales (rule splitStatements_last splitStatements_first; assumption)+

subsection \<open>Words and their text\<close>

text \<open>
  The text a word is written as.  A quoted fragment may hold anything but its own quote character
  and a backslash at the end; an unquoted one holds no white space, quote or redirection character,
  and two unquoted fragments are never neighbours.
\<close>

fun renderFragment :: "word_fragment \<Rightarrow> string" where
  "renderFragment f =
     (case fr_QuoteKind f of QuoteNone \<Rightarrow> fr_Text f
      | QuoteSingle \<Rightarrow> [CHR 0x27] @ fr_Text f @ [CHR 0x27]
      | QuoteDouble \<Rightarrow> [CHR 0x22] @ fr_Text f @ [CHR 0x22])"

definition renderWord :: "shell_word \<Rightarrow> string" where
  "renderWord w = concat (map renderFragment (wd_Fragments w))"

definition renderWords :: "shell_word list \<Rightarrow> string" where
  "renderWords ws = joinWith '' '' (map renderWord ws)"

definition plainChar :: "char \<Rightarrow> bool" where
  "plainChar c = (\<not> isSpace c \<and> c \<noteq> CHR ''<'' \<and> c \<noteq> CHR ''>'' \<and> c \<noteq> CHR 0x22 \<and> c \<noteq> CHR 0x27)"

definition endsOK :: "string \<Rightarrow> bool" where
  "endsOK s = (s = [] \<or> last s \<noteq> BACKSLASH)"

definition goodFragment :: "word_fragment \<Rightarrow> bool" where
  "goodFragment f = (endsOK (fr_Text f) \<and>
     (case fr_QuoteKind f of
        QuoteNone \<Rightarrow> fr_Text f \<noteq> [] \<and> list_all plainChar (fr_Text f)
      | QuoteSingle \<Rightarrow> CHR 0x27 \<notin> set (fr_Text f)
      | QuoteDouble \<Rightarrow> CHR 0x22 \<notin> set (fr_Text f)))"

fun goodFragments :: "word_fragment list \<Rightarrow> bool" where
  "goodFragments [] = True"
| "goodFragments [f] = goodFragment f"
| "goodFragments (f # g # fs) =
     (goodFragment f \<and> \<not> (fr_QuoteKind f = QuoteNone \<and> fr_QuoteKind g = QuoteNone) \<and> goodFragments (g # fs))"

definition goodWord :: "shell_word \<Rightarrow> bool" where
  "goodWord w = (wd_Fragments w \<noteq> [] \<and> goodFragments (wd_Fragments w) \<and> wd_Explicit w)"

definition redirectOperators :: "string list" where
  "redirectOperators = [''<'', ''>'', ''>>'', ''2>'', ''2>>'', ''2>&1'']"

definition shellToken :: "shell_word \<Rightarrow> bool" where
  "shellToken w = (goodWord w \<or> w \<in> set (map newWord redirectOperators))"

subsection \<open>Reading a word\<close>

definition flushed :: "tok_state \<Rightarrow> word_fragment list" where
  "flushed st = ts_fragments (flushFragment False st)"

text \<open>\<open>calm st prev\<close>: outside quotes, and no backslash in front.\<close>

definition calm :: "char \<Rightarrow> tok_state \<Rightarrow> bool" where
  "calm prev st = (ts_quote st = None \<and> ts_currentQuote st = QuoteNone \<and> prev \<noteq> BACKSLASH)"

declare tokenizeLoop.simps(2) [simp del] renderFragment.simps [simp del]

lemma renderFragment_plain: "fr_QuoteKind f = QuoteNone \<Longrightarrow> renderFragment f = fr_Text f"
  by (simp add: renderFragment.simps)

lemma plain_text:
  "list_all plainChar s \<Longrightarrow> ts_quote st = None \<Longrightarrow> s \<noteq> [] \<Longrightarrow> (\<nexists>r. rest = CHR ''>'' # r) \<Longrightarrow>
     tokenizeLoop prev st (s @ rest) =
       tokenizeLoop (last s) (st\<lparr>ts_inToken := True, ts_fragment := ts_fragment st @ s\<rparr>) rest"
proof (induction s arbitrary: prev st)
  case (Cons c s)
  have c: "plainChar c" using Cons.prems by simp
  have np: "\<not> hasPrefix (s @ rest) (CHR ''>'' # p)" for p
    using Cons.prems by (cases s; cases rest) (auto simp: plainChar_def)
  have step: "tokenizeLoop prev st (c # s @ rest) = tokenizeLoop c (addChar c st) (s @ rest)"
    using c np Cons.prems(2) by (auto simp: tokenizeLoop.simps plainChar_def isQuote_def)
  show ?case
  proof (cases "s = []")
    case True
    then show ?thesis using step by (simp add: addChar_def)
  next
    case False
    then show ?thesis
      using step Cons.IH [of "addChar c st" c] Cons.prems
      by (simp add: addChar_def)
  qed
qed simp

text \<open>Inside quotes everything is taken up to the quote character that no backslash precedes.\<close>

lemma quoted_text:
  "q \<notin> set s \<Longrightarrow> ts_quote st = Some q \<Longrightarrow>
     tokenizeLoop prev st (s @ rest) =
       tokenizeLoop (if s = [] then prev else last s)
         (if s = [] then st else st\<lparr>ts_inToken := True, ts_fragment := ts_fragment st @ s\<rparr>) rest"
proof (induction s arbitrary: prev st)
  case (Cons c s)
  have "tokenizeLoop prev st (c # s @ rest) = tokenizeLoop c (addChar c st) (s @ rest)"
    using Cons.prems by (auto simp: tokenizeLoop.simps)
  then show ?case
    using Cons.IH [of "addChar c st" c] Cons.prems
    by (simp add: addChar_def)
qed simp

lemma quoted_fragment:
  assumes "fr_QuoteKind f \<noteq> QuoteNone" and "goodFragment f" and "calm prev st"
  shows "\<exists>c. c \<noteq> BACKSLASH \<and> tokenizeLoop prev st (renderFragment f @ rest) =
           tokenizeLoop c (st\<lparr>ts_fragments := flushed st @ [f], ts_fragment := [], ts_inToken := True\<rparr>) rest"
proof -
  define c where "c = (if fr_QuoteKind f = QuoteSingle then CHR 0x27 else CHR 0x22)"
  have c: "isQuote p c = (p \<noteq> BACKSLASH)" "c \<noteq> BACKSLASH" for p
    by (auto simp: c_def isQuote_def BACKSLASH_def)
  have shown: "renderFragment f = c # fr_Text f @ [c]" "c \<notin> set (fr_Text f)" "endsOK (fr_Text f)"
    using assms(1,2) by (auto simp: renderFragment.simps c_def goodFragment_def split: quote_kind.splits)
  let ?o = "openQuote c st"
  have "tokenizeLoop prev st (renderFragment f @ rest) = tokenizeLoop c ?o (fr_Text f @ c # rest)"
    using assms(3) unfolding shown(1) by (simp add: tokenizeLoop.simps c calm_def)
  also have "\<dots> = tokenizeLoop (if fr_Text f = [] then c else last (fr_Text f))
      (if fr_Text f = [] then ?o
       else ?o\<lparr>ts_inToken := True, ts_fragment := ts_fragment ?o @ fr_Text f\<rparr>) (c # rest)"
    by (rule quoted_text [OF shown(2)]) (simp add: openQuote_def)
  also have "\<dots> = tokenizeLoop c (closeQuote (if fr_Text f = [] then ?o
       else ?o\<lparr>ts_inToken := True, ts_fragment := ts_fragment ?o @ fr_Text f\<rparr>)) rest"
    using shown(3) c by (auto simp: tokenizeLoop.simps endsOK_def openQuote_def)
  also have "closeQuote (if fr_Text f = [] then ?o
       else ?o\<lparr>ts_inToken := True, ts_fragment := ts_fragment ?o @ fr_Text f\<rparr>) =
      st\<lparr>ts_fragments := flushed st @ [f], ts_fragment := [], ts_inToken := True\<rparr>"
    using assms(1,3)
    by (cases "fr_QuoteKind f"; cases f; cases st)
      (auto simp: closeQuote_def openQuote_def flushFragment_def flushed_def calm_def c_def)
  finally show ?thesis using c by blast
qed

lemma read_fragments:
  assumes "goodFragments fs" and "calm prev st"
    and "ts_fragment st = [] \<or> fs = [] \<or> fr_QuoteKind (hd fs) \<noteq> QuoteNone"
    and "rest = [] \<or> hd rest = CHR '' ''"
  shows "\<exists>prev' st'. tokenizeLoop prev st (concat (map renderFragment fs) @ rest) = tokenizeLoop prev' st' rest
           \<and> calm prev' st' \<and> flushed st' = flushed st @ fs \<and> ts_tokens st' = ts_tokens st
           \<and> ts_inToken st' = (ts_inToken st \<or> fs \<noteq> [])"
  using assms
proof (induction fs arbitrary: prev st)
  case (Cons f fs)
  let ?rest = "concat (map renderFragment fs) @ rest"
  have f: "goodFragment f" and fs: "goodFragments fs"
    using Cons.prems(1) by (cases fs; simp)+
  show ?case
  proof (cases "fr_QuoteKind f = QuoteNone")
    case True
    have start: "fs = [] \<or> fr_QuoteKind (hd fs) \<noteq> QuoteNone"
      using Cons.prems(1) True by (cases fs) auto
    have rest: "\<nexists>r. ?rest = CHR ''>'' # r"
      using start Cons.prems(4) by (cases fs) (auto simp: renderFragment.simps split: quote_kind.splits)
    let ?st = "st\<lparr>ts_inToken := True, ts_fragment := ts_fragment st @ fr_Text f\<rparr>"
    have text_f: "list_all plainChar (fr_Text f)" "fr_Text f \<noteq> []" "last (fr_Text f) \<noteq> BACKSLASH"
      using f True by (auto simp: goodFragment_def endsOK_def)
    have eq: "tokenizeLoop prev st (fr_Text f @ ?rest) = tokenizeLoop (last (fr_Text f)) ?st ?rest"
      using Cons.prems(2) rest text_f by (intro plain_text) (auto simp: calm_def)
    have nofr: "ts_fragment st = []"
      using Cons.prems(3) True by auto
    have fl: "flushed ?st = flushed st @ [f]"
      using nofr text_f Cons.prems(2) True by (cases f) (simp add: flushed_def flushFragment_def calm_def)
    have "calm (last (fr_Text f)) ?st"
      using Cons.prems(2) text_f by (simp add: calm_def)
    from Cons.IH [OF fs this disjI2 [OF start] Cons.prems(4)] obtain prev' st'
      where "tokenizeLoop (last (fr_Text f)) ?st ?rest = tokenizeLoop prev' st' rest" "calm prev' st'"
        "flushed st' = flushed ?st @ fs" "ts_tokens st' = ts_tokens ?st" "ts_inToken st'"
      by auto
    then show ?thesis
      using eq fl True by (intro exI [of _ prev'] exI [of _ st']) (auto simp: renderFragment_plain)
  next
    case False
    let ?st = "st\<lparr>ts_fragments := flushed st @ [f], ts_fragment := [], ts_inToken := True\<rparr>"
    from quoted_fragment [OF False f Cons.prems(2), of ?rest] obtain c
      where c: "c \<noteq> BACKSLASH" "tokenizeLoop prev st (renderFragment f @ ?rest) = tokenizeLoop c ?st ?rest"
      by blast
    have "calm c ?st" "flushed ?st = flushed st @ [f]"
      using Cons.prems(2) c by (simp_all add: calm_def flushed_def flushFragment_def)
    with Cons.IH [OF fs this(1) disjI1 Cons.prems(4)] obtain prev' st'
      where "tokenizeLoop c ?st ?rest = tokenizeLoop prev' st' rest" "calm prev' st'"
        "flushed st' = flushed st @ [f] @ fs" "ts_tokens st' = ts_tokens ?st" "ts_inToken st'"
      by auto
    then show ?thesis
      using c by (intro exI [of _ prev'] exI [of _ st'])
        auto
  qed
qed auto

lemma read_space:
  "ts_quote st = None \<Longrightarrow>
     tokenizeLoop prev st (CHR '' '' # r) = tokenizeLoop (CHR '' '') (flushToken st) r"
  by (simp add: tokenizeLoop.simps isQuote_def)

definition idle :: "shell_word list \<Rightarrow> tok_state" where
  "idle toks = tokInit\<lparr>ts_tokens := toks\<rparr>"

lemma calm_quote: "calm prev st \<Longrightarrow> ts_quote st = None"
  by (simp add: calm_def)

lemma flushToken_idle:
  "calm prev st \<Longrightarrow> ts_inToken st \<Longrightarrow>
     flushToken st = idle (ts_tokens st @ [\<lparr>wd_Fragments = flushed st, wd_Explicit = True\<rparr>])"
  by (cases st) (auto simp: flushToken_def flushFragment_def flushed_def calm_def idle_def tokInit_def)

lemma idle_simps [simp]:
  "ts_quote (idle toks) = None" "ts_fragment (idle toks) = []" "ts_tokens (idle toks) = toks"
  "flushed (idle toks) = []" "flushToken (idle toks) = idle toks"
  "pushOperator s (idle toks) = idle (toks @ [newWord s])"
  by (simp_all add: idle_def tokInit_def flushed_def flushFragment_def flushToken_def pushOperator_def)

lemma calm_idle [simp]: "calm prev (idle toks) = (prev \<noteq> BACKSLASH)"
  by (simp add: calm_def idle_def tokInit_def)

text \<open>A token at the end of the text, and one in front of a space.\<close>

lemma read_word:
  assumes "goodWord w" and "prev \<noteq> BACKSLASH"
  shows "tokenizeLoop prev (idle toks) (renderWord w) = idle (toks @ [w])"
    and "tokenizeLoop prev (idle toks) (renderWord w @ CHR '' '' # r) =
           tokenizeLoop (CHR '' '') (idle (toks @ [w])) r"
proof -
  have fr: "goodFragments (wd_Fragments w)" "wd_Fragments w \<noteq> []"
    and w: "\<lparr>wd_Fragments = wd_Fragments w, wd_Explicit = True\<rparr> = w"
    using assms(1) by (simp_all add: goodWord_def)
  show "tokenizeLoop prev (idle toks) (renderWord w) = idle (toks @ [w])"
    using read_fragments [OF fr(1), of prev "idle toks" "[]"] fr(2) assms(2) w
    by (auto simp: renderWord_def flushToken_idle)
  show "tokenizeLoop prev (idle toks) (renderWord w @ CHR '' '' # r) =
          tokenizeLoop (CHR '' '') (idle (toks @ [w])) r"
    using read_fragments [OF fr(1), of prev "idle toks" "CHR '' '' # r"] fr(2) assms(2) w
    by (auto simp: renderWord_def flushToken_idle calm_quote read_space)
qed

lemma read_operator:
  assumes "w \<in> set (map newWord redirectOperators)" and "prev \<noteq> BACKSLASH"
  shows "tokenizeLoop prev (idle toks) (renderWord w) = idle (toks @ [w])"
    and "tokenizeLoop prev (idle toks) (renderWord w @ CHR '' '' # r) =
           tokenizeLoop (CHR '' '') (idle (toks @ [w])) r"
proof -
  have w: "renderWord w = Word_String w" "w = newWord (Word_String w)"
    "Word_String w \<in> set redirectOperators"
    using assms(1) by (auto simp: renderWord_def newWord_def Word_String_def renderFragment_plain)
  have "Word_String w = ''<'' \<or> Word_String w = ''>'' \<or> Word_String w = ''>>'' \<or> Word_String w = ''2>''
      \<or> Word_String w = ''2>>'' \<or> Word_String w = ''2>&1''"
    using w(3) by (simp add: redirectOperators_def)
  then have "tokenizeLoop prev (idle toks) (Word_String w) = idle (toks @ [newWord (Word_String w)])
      \<and> tokenizeLoop prev (idle toks) (Word_String w @ CHR '' '' # r) =
           tokenizeLoop (CHR '' '') (idle (toks @ [newWord (Word_String w)])) r"
    by (elim disjE)
      (simp_all add: tokenizeLoop.simps isQuote_def TAB_def numeral_2_eq_2 numeral_3_eq_3)
  then show "tokenizeLoop prev (idle toks) (renderWord w) = idle (toks @ [w])"
    "tokenizeLoop prev (idle toks) (renderWord w @ CHR '' '' # r) =
       tokenizeLoop (CHR '' '') (idle (toks @ [w])) r"
    using w by simp_all
qed

lemma read_token:
  assumes "shellToken w" and "prev \<noteq> BACKSLASH"
  shows "tokenizeLoop prev (idle toks) (renderWord w) = idle (toks @ [w])"
    and "tokenizeLoop prev (idle toks) (renderWord w @ CHR '' '' # r) =
           tokenizeLoop (CHR '' '') (idle (toks @ [w])) r"
  using assms read_word read_operator by (auto simp: shellToken_def)

lemma read_tokens:
  "list_all shellToken ws \<Longrightarrow> prev \<noteq> BACKSLASH \<Longrightarrow>
     ts_tokens (tokenizeLoop prev (idle toks) (renderWords ws)) = toks @ ws"
proof (induction ws arbitrary: prev toks)
  case Nil
  then show ?case by (simp add: renderWords_def)
next
  case (Cons w ws)
  show ?case
  proof (cases ws)
    case Nil
    then show ?thesis
      using Cons.prems read_token(1) [of w prev toks]
      by (simp add: renderWords_def)
  next
    case (Cons v vs)
    then have "renderWords (w # ws) = renderWord w @ CHR '' '' # renderWords ws"
      by (simp add: renderWords_def)
    then show ?thesis
      using Cons.prems read_token(2) [of w prev toks "renderWords ws"]
        Cons.IH [of "CHR '' ''" "toks @ [w]"]
      by (simp add: BACKSLASH_def)
  qed
qed

lemma tokenize_words: "list_all shellToken ws \<Longrightarrow> tokenize (renderWords ws) = ws"
  using read_tokens [of ws "CHR 0x00" "[]"]
  by (simp add: tokenize_def idle_def tokInit_def BACKSLASH_def)

subsection \<open>Trimmed words\<close>

lemma trimmed_fragment:
  assumes "goodFragment f"
  shows "trimmed (renderFragment f)"
proof (cases "fr_QuoteKind f")
  case QuoteNone
  with assms show ?thesis
    by (auto simp: goodFragment_def trimmed_def renderFragment.simps plainChar_def list_all_iff)
qed (simp_all add: trimmed_def renderFragment.simps isSpace_def code_def)

lemma trimmed_fragments:
  "goodFragments fs \<Longrightarrow> fs \<noteq> [] \<Longrightarrow> trimmed (concat (map renderFragment fs))"
proof (induction fs)
  case (Cons f fs)
  then show ?case
    using trimmed_fragment [of f] trimmed_append [of "renderFragment f" "concat (map renderFragment fs)" "[]"]
    by (cases fs) auto
qed simp

lemma trimmed_token: "shellToken w \<Longrightarrow> trimmed (renderWord w)"
  by (auto simp: shellToken_def goodWord_def renderWord_def trimmed_fragments redirectOperators_def
    newWord_def renderFragment_plain)
    (simp_all add: trimmed_def isSpace_def code_def)

lemma trimmed_words: "ws \<noteq> [] \<Longrightarrow> list_all shellToken ws \<Longrightarrow> trimmed (renderWords ws)"
  unfolding renderWords_def by (rule trimmed_join) (auto simp: list_all_iff trimmed_token)

subsection \<open>Assignments\<close>

text \<open>The word of \<open>NAME=value\<close>: the name and the equals sign go into the first unquoted fragment.\<close>

definition assignmentWord :: "string \<Rightarrow> shell_word \<Rightarrow> shell_word" where
  "assignmentWord name v = (case wd_Fragments v of
     f # fs \<Rightarrow> if fr_QuoteKind f = QuoteNone
               then v\<lparr>wd_Fragments := f\<lparr>fr_Text := name @ ''='' @ fr_Text f\<rparr> # fs\<rparr>
               else v\<lparr>wd_Fragments := \<lparr>fr_Text = name @ ''='', fr_QuoteKind = QuoteNone\<rparr> # f # fs\<rparr>
   | [] \<Rightarrow> v)"

lemma indexOf_name: "CHR ''='' \<notin> set n \<Longrightarrow> indexOf (n @ CHR ''='' # t) (CHR ''='') = Some (length n)"
  by (induction n) auto

lemma name_chars:
  assumes "validAssignmentName n" and "c \<in> set n"
  shows "plainChar c" and "c \<noteq> CHR ''=''" and "c \<noteq> BACKSLASH"
proof -
  have "isUpperAscii c \<or> isLowerAscii c \<or> isDigit c \<or> c = CHR ''_''"
    using assms by (cases n) (auto simp: validAssignmentName_def list_all_iff)
  then show "plainChar c" "c \<noteq> CHR ''=''" "c \<noteq> BACKSLASH"
    by (auto simp: plainChar_def BACKSLASH_def isSpace_def isUpperAscii_def isLowerAscii_def isDigit_def
      code_def Let_def)
qed

lemma parse_assignmentWord:
  assumes "validAssignmentName n" and "goodWord v"
  shows "parseAssignmentWord (assignmentWord n v) =
           IsAssignment \<lparr>as_Name = n, as_ValueWord = v, as_Value = []\<rparr>"
proof -
  obtain f fs where v: "v = \<lparr>wd_Fragments = f # fs, wd_Explicit = True\<rparr>" and f: "goodFragment f"
    using assms(2) by (cases v; cases "wd_Fragments v"; cases "tl (wd_Fragments v)") (auto simp: goodWord_def)
  have n: "CHR ''='' \<notin> set n"
    using name_chars(2) [OF assms(1)] by blast
  have t: "fr_QuoteKind f = QuoteNone \<longrightarrow> fr_Text f \<noteq> []"
    using f by (auto simp: goodFragment_def)
  show ?thesis
    using assms(1) n t by (cases f)
      (auto simp: parseAssignmentWord_def assignmentWord_def v indexOf_name)
qed

lemma good_assignmentWord:
  assumes "validAssignmentName n" and "goodWord v"
  shows "goodWord (assignmentWord n v)"
proof -
  obtain f fs where v: "v = \<lparr>wd_Fragments = f # fs, wd_Explicit = True\<rparr>" and f: "goodFragment f"
    and all: "goodFragments (f # fs)"
    using assms(2) by (cases v; cases "wd_Fragments v"; cases "tl (wd_Fragments v)") (auto simp: goodWord_def)
  have plain: "list_all plainChar n" "plainChar CHR ''=''"
    using name_chars(1) [OF assms(1)] by (auto simp: list_all_iff plainChar_def isSpace_def code_def)
  show ?thesis
  proof (cases "fr_QuoteKind f = QuoteNone")
    case True
    then have "goodFragment (f\<lparr>fr_Text := n @ ''='' @ fr_Text f\<rparr>)"
      using f plain by (auto simp: goodFragment_def endsOK_def BACKSLASH_def)
    then show ?thesis
      using all True by (cases fs) (auto simp: goodWord_def assignmentWord_def v)
  next
    case False
    have "goodFragment \<lparr>fr_Text = n @ ''='', fr_QuoteKind = QuoteNone\<rparr>"
      using plain by (auto simp: goodFragment_def endsOK_def BACKSLASH_def)
    then show ?thesis
      using all False by (simp add: goodWord_def assignmentWord_def v)
  qed
qed

subsection \<open>Pipelines\<close>

lemma good_not_redirect:
  assumes "goodWord w"
  shows "\<not> isRedirectOperator w"
proof
  assume r: "isRedirectOperator w"
  obtain f fs where w: "wd_Fragments w = f # fs" and f: "goodFragment f"
    using assms by (cases "wd_Fragments w"; cases "tl (wd_Fragments w)") (auto simp: goodWord_def)
  have "list_all (\<lambda>f. fr_QuoteKind f = QuoteNone) (f # fs)"
    using r w by (simp add: isRedirectOperator_def HasQuotedFragment_def list_ex_iff list_all_iff)
  moreover from this have "fs = []"
    using assms w by (cases fs) (simp_all add: goodWord_def)
  ultimately have "fr_QuoteKind f = QuoteNone" "fs = []"
    by simp_all
  then have "list_all plainChar (Word_String w)"
    using f w by (simp add: Word_String_def goodFragment_def)
  with r show False
    by (auto simp: isRedirectOperator_def plainChar_def)
qed

lemma takeRedirects_skip:
  "\<not> isRedirectOperator t \<Longrightarrow> takeRedirects p cmd (t # ts) = takeRedirects p (cmd @ [t]) ts"
  by (cases ts) auto

lemma takeRedirects_words:
  "list_all goodWord ws \<Longrightarrow> takeRedirects p cmd (ws @ rest) = takeRedirects p (cmd @ ws) rest"
  by (induction ws arbitrary: cmd) (simp_all add: takeRedirects_skip good_not_redirect)

lemma isRedirect_newWord:
  "isRedirectOperator (newWord s) = (s \<in> set redirectOperators)" "Word_String (newWord s) = s"
  by (simp_all add: isRedirectOperator_def newWord_def HasQuotedFragment_def Word_String_def
    redirectOperators_def)

lemma takeAssignments_words:
  "\<forall>(n, v)\<in>set asg. validAssignmentName n \<and> goodWord v \<Longrightarrow> parseAssignmentWord cmd = NotAssignment \<Longrightarrow>
     takeAssignments p (map (\<lambda>(n, v). assignmentWord n v) asg @ cmd # args) =
       p\<lparr>pl_Assignments := pl_Assignments p
            @ map (\<lambda>(n, v). \<lparr>as_Name = n, as_ValueWord = v, as_Value = []\<rparr>) asg,
         pl_CommandWord := Some cmd, pl_Command := Word_String cmd,
         pl_ArgWords := args, pl_Args := map Word_String args\<rparr>"
  by (induction asg arbitrary: p) (auto simp: parse_assignmentWord)

end
