(* ===== verification/ShellProps.thy ===== *)
theory ShellProps
  imports ShellText
begin

text \<open>
  The properties of the shell's command-line parser: what \<open>splitPipes\<close>, \<open>splitStatements\<close>,
  \<open>tokenize\<close>, \<open>parsePipeline\<close> and \<open>parseCommand\<close> give on texts built from their parts, and the
  inputs on which the code and its comments differ.
\<close>

subsection \<open>Statements of pipelines\<close>

lemma piece_prev: "prev \<noteq> BACKSLASH \<Longrightarrow> piece stop q prev s = piece stop q (CHR 0x00) s"
  by (cases s) (simp_all add: isQuote_prev)

lemma stop_append: "statementStop (c # cs @ CHR ''|'' # t) \<Longrightarrow> statementStop (c # cs)"
  by (cases cs) auto

lemma piece_pipe_append:
  "piece stop q prev p \<Longrightarrow> stop = statementStop \<Longrightarrow>
     piece stop q prev (p @ CHR ''|'' # t) = piece stop None (CHR 0x00) t"
proof (induction stop q prev p rule: piece.induct)
  case (1 stop q prev)
  then show ?case by (simp add: piece_prev [of "CHR ''|''"] BACKSLASH_def)
next
  case (2 stop q prev c cs)
  show ?case
  proof (cases "isQuote prev c")
    case True
    with 2(1) 2(3,4) show ?thesis by (simp del: statementStop.simps)
  next
    case False
    with 2(3,4) have go: "\<not> (q = None \<and> statementStop (c # cs))" "piece stop q c cs"
      by (auto simp del: statementStop.simps split: if_splits)
    with stop_append [of c cs t] have "\<not> (q = None \<and> statementStop (c # cs @ CHR ''|'' # t))"
      by blast
    then have "piece stop q prev ((c # cs) @ CHR ''|'' # t) = piece stop q c (cs @ CHR ''|'' # t)"
      using False 2(4) by (auto simp del: statementStop.simps)
    with 2(2) False go 2(4) show ?thesis by simp
  qed
qed

definition shellPiece :: "string \<Rightarrow> bool" where
  "shellPiece p = (pipePiece p \<and> statementPiece p \<and> trimmed p)"

lemma shellPiece_parts:
  "shellPiece p \<Longrightarrow> pipePiece p" "shellPiece p \<Longrightarrow> statementPiece p" "shellPiece p \<Longrightarrow> trimmed p"
  by (simp_all add: shellPiece_def)

lemma joined_statementPiece:
  "ps \<noteq> [] \<Longrightarrow> list_all shellPiece ps \<Longrightarrow> statementPiece (joinWith ''|'' ps)"
proof (induction ps)
  case (Cons p ps)
  then show ?case
    by (cases ps) (auto simp: shellPiece_def statementPiece_def piece_pipe_append)
qed simp

lemma map_trim: "list_all trimmed ps \<Longrightarrow> map trimSpace ps = ps"
  by (induction ps) (simp_all add: trimSpace_trimmed)

lemma splitPipes_joined:
  assumes "ps \<noteq> []" and "list_all shellPiece ps"
  shows "splitPipes (joinWith ''|'' ps) = ps"
  using assms pipes.split_join [of ps] map_trim [of ps]
  by (auto simp: list_all_iff shellPiece_def)

lemma splitStatements_joined:
  assumes "ss \<noteq> []" and "\<And>s. s \<in> set ss \<Longrightarrow> statementPiece s \<and> trimmed s"
  shows "splitStatements (joinWith '';'' ss) = ss" and "splitStatements (joinWith ''&&'' ss) = ss"
  using assms semis.split_join [of ss] ands.split_join [of ss] map_trim [of ss]
  by (auto simp: list_all_iff)

lemma parseCommand_split:
  assumes "trimmed s"
  shows "map ss_Pipelines (sh_Statements (parseCommand s)) =
           map (\<lambda>t. map parsePipeline (splitPipes t)) (splitStatements s)"
proof -
  have "map ss_Pipelines (map (\<lambda>(i, t). statementOf s n i t) (enumerate k ts)) =
      map (\<lambda>t. map parsePipeline (splitPipes t)) ts" for n k ts
    by (induction ts arbitrary: k) (simp_all add: statementOf_def)
  moreover have "s \<noteq> []"
    using assms by (simp add: trimmed_def)
  ultimately show ?thesis
    using assms by (simp add: parseCommand_def trimSpace_trimmed Let_def)
qed

subsection \<open>Properties\<close>

text \<open>
  a command line written as statements joined by \<open>;\<close> or by \<open>&&\<close>, each of them commands joined
  by \<open>|\<close>, is parsed into these commands in these groups, whatever separators stand inside quotes.
\<close>

theorem parseCommand_structure:
  assumes "sts \<noteq> []" and "\<And>ps. ps \<in> set sts \<Longrightarrow> ps \<noteq> [] \<and> list_all shellPiece ps"
    and "sep = '';'' \<or> sep = ''&&''"
  shows "map ss_Pipelines (sh_Statements (parseCommand (joinWith sep (map (joinWith ''|'') sts)))) =
           map (map parsePipeline) sts"
proof -
  have parts: "statementPiece (joinWith ''|'' ps) \<and> trimmed (joinWith ''|'' ps)" if "ps \<in> set sts" for ps
    using assms(2) [OF that] by (auto intro!: joined_statementPiece trimmed_join simp: list_all_iff shellPiece_def)
  then have "trimmed (joinWith sep (map (joinWith ''|'') sts))"
    using assms(1) by (intro trimmed_join) (auto simp: list_all_iff)
  moreover have "splitStatements (joinWith sep (map (joinWith ''|'') sts)) = map (joinWith ''|'') sts"
    using assms(1,3) parts splitStatements_joined [of "map (joinWith ''|'') sts"] by auto
  moreover have "splitPipes (joinWith ''|'' ps) = ps" if "ps \<in> set sts" for ps
    using assms(2) [OF that] by (simp add: splitPipes_joined)
  ultimately show ?thesis
    by (simp add: parseCommand_split)
qed

definition sampleStatements :: "string list list" where
  "sampleStatements = [[[CHR 0x22] @ ''a;b'' @ [CHR 0x22], ''wc''], [''ls'']]"

lemma sampleStatements_pieces: "ps \<in> set sampleStatements \<Longrightarrow> ps \<noteq> [] \<and> list_all shellPiece ps"
  by (auto simp: sampleStatements_def shellPiece_def pipePiece_def statementPiece_def trimmed_def
    isQuote_def nextQuote_def BACKSLASH_def isSpace_def code_def Let_def)

theorem parseCommand_structure_witness:
  "map ss_Pipelines (sh_Statements (parseCommand (joinWith '';'' (map (joinWith ''|'') sampleStatements)))) =
     map (map parsePipeline) sampleStatements"
  by (rule parseCommand_structure) (simp add: sampleStatements_def, erule sampleStatements_pieces, simp)

text \<open>
  a text written as words and redirection operators with a space between them is tokenized into
  exactly these words, each with its fragments and the way they were quoted.
\<close>

theorem tokenize_render:
  assumes "list_all shellToken ws"
  shows "tokenize (renderWords ws) = ws"
  by (rule tokenize_words [OF assms])

definition sampleWord :: shell_word where
  "sampleWord = \<lparr>wd_Fragments = [\<lparr>fr_Text = ''a'', fr_QuoteKind = QuoteNone\<rparr>,
     \<lparr>fr_Text = ''b >c'', fr_QuoteKind = QuoteDouble\<rparr>], wd_Explicit = True\<rparr>"

lemma sampleWord_good: "goodWord sampleWord"
  by (simp add: sampleWord_def goodWord_def goodFragment_def endsOK_def plainChar_def BACKSLASH_def
    isSpace_def code_def Let_def)

lemma newWord_good: "goodWord (newWord ''ls'')"
  by (simp add: newWord_def goodWord_def goodFragment_def endsOK_def plainChar_def BACKSLASH_def
    isSpace_def code_def Let_def)

theorem tokenize_render_witness: "tokenize (renderWords [sampleWord, newWord ''2>&1'']) = [sampleWord, newWord ''2>&1'']"
  by (rule tokenize_render) (simp add: shellToken_def sampleWord_good redirectOperators_def)

text \<open>
  a pipeline written as assignments, a command word, its arguments and a redirection is parsed
  into these assignments, this command with these arguments, and the redirection of the stream the
  operator names, without a parse error.
\<close>

theorem parsePipeline_words:
  assumes "\<forall>(n, v)\<in>set asg. validAssignmentName n \<and> goodWord v"
    and "goodWord cmd" and "parseAssignmentWord cmd = NotAssignment"
    and "list_all goodWord args"
    and "op \<in> set [''<'', ''>'', ''>>'', ''2>'', ''2>>'']" and "goodWord target"
  shows "parsePipeline (renderWords
            (map (\<lambda>(n, v). assignmentWord n v) asg @ (cmd # args) @ [newWord op, target])) =
           (setRedirect (newWord op) target emptyPipeline)
             \<lparr>pl_Assignments := map (\<lambda>(n, v). \<lparr>as_Name = n, as_ValueWord = v, as_Value = []\<rparr>) asg,
              pl_CommandWord := Some cmd, pl_Command := Word_String cmd,
              pl_ArgWords := args, pl_Args := map Word_String args\<rparr>"
proof -
  let ?front = "map (\<lambda>(n, v). assignmentWord n v) asg @ cmd # args"
  let ?ws = "map (\<lambda>(n, v). assignmentWord n v) asg @ (cmd # args) @ [newWord op, target]"
  have good: "list_all goodWord ?front"
    using assms(1,2,4) by (auto simp: list_all_iff good_assignmentWord)
  then have tok: "list_all shellToken ?ws"
    using assms(5,6) by (auto simp: list_all_iff shellToken_def redirectOperators_def)
  have nonempty: "renderWords ?ws \<noteq> []" and trim: "trimSpace (renderWords ?ws) = renderWords ?ws"
    using trimmed_words [OF _ tok] by (auto simp: trimSpace_trimmed trimmed_def)
  have "takeRedirects emptyPipeline [] (?front @ [newWord op, target]) =
      (setRedirect (newWord op) target emptyPipeline, ?front)"
    using takeRedirects_words [OF good, of emptyPipeline "[]" "[newWord op, target]"] assms(5)
    by (auto simp: isRedirect_newWord redirectOperators_def)
  moreover have "pl_Assignments (setRedirect (newWord op) target emptyPipeline) = []"
    by (simp add: setRedirect_def emptyPipeline_def Let_def)
  ultimately show ?thesis
    using tokenize_words [OF tok] nonempty trim takeAssignments_words [OF assms(1,3)]
    by (simp add: parsePipeline_def Let_def)
qed

theorem parsePipeline_words_witness:
  "pl_Args (parsePipeline (renderWords
     (map (\<lambda>(n, v). assignmentWord n v) [(''X'', sampleWord)] @
       (newWord ''ls'' # [sampleWord]) @ [newWord ''>'', sampleWord]))) = [''ab >c'']"
proof -
  have "validAssignmentName ''X''"
    by (simp add: validAssignmentName_def isUpperAscii_def code_def Let_def)
  moreover have "parseAssignmentWord (newWord ''ls'') = NotAssignment"
    by (simp add: parseAssignmentWord_def newWord_def)
  ultimately show ?thesis
    by (subst parsePipeline_words) (simp_all add: sampleWord_good newWord_good, simp add: sampleWord_def Word_String_def)
qed

text \<open>
  where the code and its comments differ.  One \<open>&&\<close> anywhere in the input, even inside quotes,
  makes every operator \<open>&&\<close>; a blank between two separators is kept as an empty statement; a quoted
  command name is reported as an invalid variable name and nothing is run; and a \<open>2\<close> that ends a word
  is taken as the descriptor of a redirection.
\<close>

theorem parseCommand_quirks:
  "map ss_Operator (sh_Statements (parseCommand ''a; b && c'')) = [''&&'', ''&&'', []]
   \<and> map ss_Operator (sh_Statements (parseCommand (''a; b '' @ [CHR 0x22] @ ''&&'' @ [CHR 0x22]))) = [''&&'', []]
   \<and> splitStatements ''a; ;b'' = [''a'', [], ''b'']
   \<and> pl_ParseError (parsePipeline ([CHR 0x22] @ ''my tool'' @ [CHR 0x22] @ '' -x'')) =
     ''invalid variable name: my tool''
   \<and> pl_Command (parsePipeline ([CHR 0x22] @ ''my tool'' @ [CHR 0x22] @ '' -x'')) = []
   \<and> pl_Args (parsePipeline ''cp file2>out'') = [''file'']
   \<and> map_option rd_Type (pl_Stderr (parsePipeline ''cp file2>out'')) = Some ''2>''"
  by (intro conjI; code_simp)

end
