(* ===== verification/TqlScript.thy ===== *)
theory TqlScript
  imports ExprEval
begin

text \<open>
  TQL scripts, \<open>mods/tql\<close>: the reader that cuts a source text into statements, comments and pragmas
  (\<open>tqlreader.go\<close>), the parser that gives each statement its expression, name, kind and span
  (\<open>script_parser.go\<close>, \<open>script_types.go\<close>, the table of \<open>fx_definitions.go\<close> and \<open>asNodeName\<close> of \<open>task.go\<close>), and
  the check of a script's structure (\<open>script_validate.go\<close>).  Statements are tokenized, checked and
  planned by the expression language.
\<close>

subsection \<open>Types (script_types.go, tqlreader.go)\<close>

datatype statement_kind =
    StatementUnknown | StatementComment | StatementPragma | StatementSource | StatementMap
  | StatementSink | StatementSourceOrMap | StatementSourceOrSink | StatementSourceOrMapOrSink

record 'f statement =
  sm_Text :: string
  sm_Span :: source_span
  sm_Line :: nat
  sm_IsComment :: bool
  sm_IsPragma :: bool
  sm_Kind :: statement_kind
  sm_Name :: string
  sm_Expr :: "'f expression option"

definition IsCode :: "'f statement \<Rightarrow> bool" where
  "IsCode s = (\<not> sm_IsComment s \<and> \<not> sm_IsPragma s)"

record 'f tql_script =
  ts_Source :: string
  ts_Statements :: "'f statement list"

record 'f line =
  ln_text :: string
  ln_line :: nat
  ln_isComment :: bool
  ln_isPragma :: bool
  ln_tokens :: "'f token list"
  ln_start :: nat
  ln_end :: nat

definition toLine :: "'f statement \<Rightarrow> 'f line" where
  "toLine s = \<lparr>ln_text = sm_Text s, ln_line = sm_Line s, ln_isComment = sm_IsComment s,
     ln_isPragma = sm_IsPragma s, ln_tokens = [], ln_start = 0, ln_end = 0\<rparr>"

subsection \<open>Reading lines\<close>

text \<open>
  \<open>bufio.Reader.ReadLine\<close>, long lines put together again: the pieces between newlines.  A return in
  front of a newline goes with it, one at the end of the text stays, and there is no empty last line.
\<close>

definition chopCR :: "string \<Rightarrow> string" where
  "chopCR s = (if s \<noteq> [] \<and> last s = CR then butlast s else s)"

definition readLines :: "string \<Rightarrow> string list" where
  "readLines src =
     (let ps = splitOn src NL in
      map chopCR (butlast ps) @ (if last ps = [] then [] else [last ps]))"

text \<open>
  \<open>strings.Index\<close> counts bytes where the reader counts characters; a code point from U+0080 to U+00FF
  has two bytes.
\<close>

definition runeWidth :: "char \<Rightarrow> nat" where
  "runeWidth c = (if code c < 128 then 1 else 2)"

fun byteIndex :: "string \<Rightarrow> string \<Rightarrow> nat option" where
  "byteIndex [] sub = (if sub = [] then Some 0 else None)"
| "byteIndex (c # s) sub =
     (if hasPrefix (c # s) sub then Some 0 else map_option (\<lambda>n. n + runeWidth c) (byteIndex s sub))"

text \<open>A comment or pragma line: its text is looked up in the line.\<close>

definition markLine :: "bool \<Rightarrow> string \<Rightarrow> string \<Rightarrow> nat \<Rightarrow> nat \<Rightarrow> 'f line" where
  "markLine pragma lineText txt lineNo lineStartOffset =
     (let start = (case byteIndex lineText txt of Some i \<Rightarrow> lineStartOffset + i | None \<Rightarrow> lineStartOffset) in
      \<lparr>ln_text = txt, ln_line = lineNo, ln_isComment = True, ln_isPragma = pragma, ln_tokens = [],
       ln_start = start, ln_end = start + length txt\<rparr>)"

definition absolutizeParseError :: "parse_error \<Rightarrow> nat \<Rightarrow> nat \<Rightarrow> parse_error" where
  "absolutizeParseError e startLine startOffset =
     (let move = (\<lambda>p. p\<lparr>Offset := startOffset + Offset p,
                        Line := (if Line p > 0 then startLine + Line p - 1 else Line p)\<rparr>)
      in if pe_Kind e = ''regexp'' then e
         else e\<lparr>pe_Span := \<lparr>spanStart = move (spanStart (pe_Span e)), spanEnd = move (spanEnd (pe_Span e))\<rparr>\<rparr>)"

text \<open>
  The local variables of the loop of \<open>scanLines\<close>.  \<open>rs_stmt\<close> holds the lines of the statement read so
  far, \<open>rs_lineFrom\<close> its first line (0 outside a statement) and \<open>rs_stmtOffset\<close> its offset, \<open>None\<close>
  for -1.
\<close>

record 'f reader_state =
  rs_stmt :: "string list"
  rs_expressions :: "'f line list"
  rs_lineNo :: nat
  rs_lineFrom :: nat
  rs_lineOffset :: nat
  rs_stmtOffset :: "nat option"

definition readerInit :: "'f reader_state" where
  "readerInit = \<lparr>rs_stmt = [], rs_expressions = [], rs_lineNo = 0, rs_lineFrom = 0, rs_lineOffset = 0,
     rs_stmtOffset = None\<rparr>"

definition isBlankText :: "string \<Rightarrow> bool" where
  "isBlankText s = (trimSpace s = [])"

definition addLine :: "'f line \<Rightarrow> 'f reader_state \<Rightarrow> 'f reader_state" where
  "addLine l st = st\<lparr>rs_expressions := rs_expressions st @ [l]\<rparr>"

text \<open>The code of the loop from \<open>ParseTokens\<close> on; \<open>start0\<close> is the offset of the line.\<close>

definition readCode ::
  "'f lexer_env \<Rightarrow> string \<Rightarrow> nat \<Rightarrow> 'f reader_state \<Rightarrow> (parse_error, 'f reader_state) res" where
  "readCode env lineText0 start0 st =
     (let aStmt = joinWith [NL] (rs_stmt st @ [lineText0]) in
      rbind (ParseTokens env aStmt) (\<lambda>(tokens, pos, err).
        let lineText = (if length aStmt > pos
                        then trimPrefix (take pos aStmt) (joinWith [NL] (rs_stmt st) @ [NL])
                        else lineText0);
            stmtStartLine = (if rs_lineFrom st \<noteq> 0 then rs_lineFrom st else rs_lineNo st);
            stmtStartOffset = (case rs_stmtOffset st of Some o' \<Rightarrow> o' | None \<Rightarrow> start0)
        in case err of
             Some e \<Rightarrow>
               (if pe_Kind e = ''unbalanced_parenthesis''
                then Ok (let st1 = (if rs_lineFrom st = 0
                                    then st\<lparr>rs_lineFrom := rs_lineNo st, rs_stmtOffset := Some start0\<rparr>
                                    else st)
                         in st1\<lparr>rs_stmt := rs_stmt st @ [lineText]\<rparr>)
                else Err (absolutizeParseError e stmtStartLine stmtStartOffset))
           | None \<Rightarrow>
               (let start = (if rs_lineFrom st \<noteq> 0 then (case rs_stmtOffset st of Some o' \<Rightarrow> o' | None \<Rightarrow> start0)
                             else start0);
                    l = \<lparr>ln_text = joinWith [NL] (rs_stmt st @ [lineText]),
                         ln_line = (if rs_lineFrom st \<noteq> 0 then rs_lineFrom st else rs_lineNo st),
                         ln_isComment = False, ln_isPragma = False, ln_tokens = tokens,
                         ln_start = start, ln_end = start + pos\<rparr>;
                    st1 = (if isBlankText (ln_text l) then st else addLine l st)
                in Ok (st1\<lparr>rs_stmt := [], rs_lineFrom := 0, rs_stmtOffset := None\<rparr>))))"

definition readLine ::
  "'f lexer_env \<Rightarrow> 'f reader_state \<Rightarrow> string \<Rightarrow> (parse_error, 'f reader_state) res" where
  "readLine env st0 lineText =
     (let start = rs_lineOffset st0;
          st = st0\<lparr>rs_lineNo := Suc (rs_lineNo st0), rs_lineOffset := rs_lineOffset st0 + length lineText + 1\<rparr>;
          trimmedText = trimSpace lineText;
          inMultilineStmt = (rs_lineFrom st \<noteq> 0)
      in if trimmedText = [] then
           Ok (if rs_stmt st \<noteq> [] then st\<lparr>rs_stmt := rs_stmt st @ [lineText]\<rparr> else st)
         else if hasPrefix trimmedText ''#pragma'' \<and> \<not> inMultilineStmt then
           Ok (addLine (markLine True lineText (drop 7 trimmedText) (rs_lineNo st) start) st)
         else if hasPrefix trimmedText ''//+'' \<and> \<not> inMultilineStmt then
           Ok (addLine (markLine True lineText (drop 3 trimmedText) (rs_lineNo st) start) st)
         else if hasPrefix trimmedText ''//'' \<and> \<not> inMultilineStmt then
           Ok (addLine (markLine False lineText (drop 2 trimmedText) (rs_lineNo st) start)
                 (st\<lparr>rs_stmt := rs_stmt st @ [[]]\<rparr>))
         else if hasPrefix trimmedText ''#'' \<and> \<not> inMultilineStmt then
           Ok (addLine (markLine False lineText (drop 1 trimmedText) (rs_lineNo st) start) st)
         else readCode env lineText start st)"

fun readAll ::
  "'f lexer_env \<Rightarrow> 'f reader_state \<Rightarrow> string list \<Rightarrow> (parse_error, 'f reader_state) res" where
  "readAll env st [] = Ok st"
| "readAll env st (l # ls) = rbind (readLine env st l) (\<lambda>st'. readAll env st' ls)"

text \<open>At the end of the text an unfinished statement is a line without tokens.\<close>

definition readFinish :: "'f reader_state \<Rightarrow> 'f line list" where
  "readFinish st =
     (let txt = joinWith [NL] (rs_stmt st);
          start = (case rs_stmtOffset st of Some o' \<Rightarrow> o' | None \<Rightarrow> 0)
      in if rs_stmt st = [] \<or> isBlankText txt then rs_expressions st
         else rs_expressions st @
           [\<lparr>ln_text = txt, ln_line = rs_lineNo st, ln_isComment = False, ln_isPragma = False,
             ln_tokens = [], ln_start = start, ln_end = start + length txt\<rparr>])"

definition tql_scanLines :: "'f lexer_env \<Rightarrow> string \<Rightarrow> (parse_error, 'f line list) res" where
  "tql_scanLines env src = rmap readFinish (readAll env readerInit (readLines src))"

subsection \<open>Statements (script_parser.go)\<close>

definition buildSourcePositions :: "string \<Rightarrow> source_position list" where
  "buildSourcePositions source = positionsFrom 0 1 1 source"

text \<open>Offsets are never negative here, so the code's clamps to 0 do nothing.\<close>

definition makeStatementSpan ::
  "string \<Rightarrow> source_position list \<Rightarrow> nat \<Rightarrow> string \<Rightarrow> nat \<Rightarrow> nat \<Rightarrow> ('e, source_span) res" where
  "makeStatementSpan source positions startLine txt startOffset0 endOffset0 =
     (let n = length source;
          startOffset = (if startOffset0 > n then n else startOffset0);
          end1 = (if endOffset0 < startOffset then startOffset else endOffset0);
          end2 = (if end1 > n then n else end1);
          endOffset = (if startOffset = end2 \<and> txt \<noteq> []
                       then (let f = startOffset + length txt in if f > n then n else f) else end2)
      in if length positions \<le> startOffset \<or> length positions \<le> endOffset then Panic
         else (let s0 = positions ! startOffset; e0 = positions ! endOffset;
                   s1 = (if Line s0 = 0 then \<lparr>Offset = startOffset, Line = startLine, Column = 1\<rparr> else s0);
                   e1 = (if Line e0 = 0 then \<lparr>Offset = endOffset, Line = Line s1, Column = Column s1\<rparr> else e0)
               in Ok \<lparr>spanStart = s1, spanEnd = e1\<rparr>))"

definition absolutizeStatementParseError ::
  "parse_error \<Rightarrow> source_position list \<Rightarrow> source_span \<Rightarrow> parse_error" where
  "absolutizeStatementParseError e positions stmtSpan =
     (if pe_Kind e = ''regexp'' then e
      else (let startOffset = Offset (spanStart stmtSpan) + Offset (spanStart (pe_Span e));
                end0 = Offset (spanStart stmtSpan) + Offset (spanEnd (pe_Span e));
                endOffset = (if end0 < startOffset then startOffset else end0);
                sp = pe_Span e;
                sp1 = (if startOffset < length positions then sp\<lparr>spanStart := positions ! startOffset\<rparr> else sp);
                sp2 = (if endOffset < length positions then sp1\<lparr>spanEnd := positions ! endOffset\<rparr> else sp1)
            in e\<lparr>pe_Span := sp2\<rparr>))"

text \<open>
  The regular expression of \<open>asNodeName\<close>: a letter and at least one more word character, as many as
  there are, with a character after them that is no newline; the last word character is given back
  where nothing else follows.
\<close>

definition isWordChar :: "char \<Rightarrow> bool" where
  "isWordChar c = (isUpperAscii c \<or> isLowerAscii c \<or> isDigit c \<or> c = CHR ''_'')"

definition nodeNameAt :: "string \<Rightarrow> string option" where
  "nodeNameAt s =
     (case s of
        [] \<Rightarrow> None
      | c # cs \<Rightarrow>
          (let run = takeWhile isWordChar cs; after = dropWhile isWordChar cs in
           if \<not> (isUpperAscii c \<or> isLowerAscii c) \<or> run = [] then None
           else if after \<noteq> [] \<and> hd after \<noteq> NL then Some (c # run)
           else if length run \<ge> 2 then Some (c # butlast run)
           else None))"

fun nodeName :: "string \<Rightarrow> string option" where
  "nodeName [] = None"
| "nodeName (c # s) = (case nodeNameAt (c # s) of Some n \<Rightarrow> Some n | None \<Rightarrow> nodeName s)"

definition asNodeName :: "'f expression \<Rightarrow> string" where
  "asNodeName ee =
     (if ex_tokens ee \<noteq> [] \<and> Kind (hd (ex_tokens ee)) = FUNCTION
      then (case nodeName (ex_inputExpression ee) of
              Some n \<Rightarrow> n @ ''()''
            | None \<Rightarrow> ex_inputExpression ee)
      else ex_inputExpression ee)"

definition fxStatementKinds :: "(string \<times> statement_kind) list" where
  "fxStatementKinds =
     [(''SQL'', StatementSourceOrMapOrSink), (''SQL_SELECT'', StatementSource), (''QUERY'', StatementSource),
      (''FAKE'', StatementSource), (''BYTES'', StatementSource), (''STRING'', StatementSource),
      (''ARGS'', StatementSource), (''SCRIPT'', StatementSourceOrMap), (''HTTP'', StatementSourceOrMap),
      (''CSV'', StatementSourceOrSink), (''INSERT'', StatementSink), (''APPEND'', StatementSink),
      (''JSON'', StatementSink), (''NDJSON'', StatementSink), (''MARKDOWN'', StatementSink),
      (''HTML'', StatementSink), (''TEXT'', StatementSink), (''BOX'', StatementSink),
      (''DISCARD'', StatementSink), (''GEOMAP'', StatementSink), (''CHART'', StatementSink),
      (''CHART_LINE'', StatementSink), (''CHART_BAR'', StatementSink), (''CHART_SCATTER'', StatementSink),
      (''CHART_LINE3D'', StatementSink), (''CHART_BAR3D'', StatementSink),
      (''CHART_SURFACE3D'', StatementSink), (''CHART_SCATTER3D'', StatementSink)]"

definition statementKindByFunctionName :: "string \<Rightarrow> statement_kind option" where
  "statementKindByFunctionName name = map_of fxStatementKinds name"

text \<open>\<open>strings.TrimSuffix\<close>.\<close>

definition trimSuffix :: "string \<Rightarrow> string \<Rightarrow> string" where
  "trimSuffix s suf = (if hasPrefix (rev s) (rev suf) then take (length s - length suf) s else s)"

definition classifyStatementKind :: "string \<Rightarrow> statement_kind" where
  "classifyStatementKind name =
     (case statementKindByFunctionName (trimSuffix name ''()'') of
        Some k \<Rightarrow> k
      | None \<Rightarrow> if name \<noteq> [] then StatementMap else StatementUnknown)"

definition lineExpression ::
  "('f, 's) host \<Rightarrow> 'f lexer_env \<Rightarrow> (int \<Rightarrow> 'f) \<Rightarrow> 'f line \<Rightarrow> (parse_error, 'f expression) res" where
  "lineExpression h env unix l =
     (if ln_tokens l \<noteq> [] then NewFromTokensWithExpression h unix (ln_tokens l) (ln_text l)
      else NewWithFunctions h env unix (ln_text l))"

text \<open>The body of the loop over the lines.\<close>

definition makeStatement ::
  "('f, 's) host \<Rightarrow> 'f lexer_env \<Rightarrow> (int \<Rightarrow> 'f) \<Rightarrow> string \<Rightarrow> 'f line \<Rightarrow> (parse_error, 'f statement) res" where
  "makeStatement h env unix source l =
     (let positions = buildSourcePositions source in
      rbind (makeStatementSpan source positions (ln_line l) (ln_text l) (ln_start l) (ln_end l)) (\<lambda>sp.
        let stmt = \<lparr>sm_Text = ln_text l, sm_Span = sp, sm_Line = ln_line l, sm_IsComment = ln_isComment l,
                    sm_IsPragma = ln_isPragma l, sm_Kind = StatementUnknown, sm_Name = [], sm_Expr = None\<rparr>
        in if ln_isPragma l then Ok (stmt\<lparr>sm_Kind := StatementPragma\<rparr>)
           else if ln_isComment l then Ok (stmt\<lparr>sm_Kind := StatementComment\<rparr>)
           else (case lineExpression h env unix l of
                   Ok ee \<Rightarrow> Ok (stmt\<lparr>sm_Expr := Some ee, sm_Name := asNodeName ee,
                                     sm_Kind := classifyStatementKind (asNodeName ee)\<rparr>)
                 | Err e \<Rightarrow> Err (absolutizeStatementParseError e positions sp)
                 | Panic \<Rightarrow> Panic
                 | NoFuel \<Rightarrow> NoFuel)))"

fun mapRes :: "('a \<Rightarrow> ('e, 'b) res) \<Rightarrow> 'a list \<Rightarrow> ('e, 'b list) res" where
  "mapRes f [] = Ok []"
| "mapRes f (x # xs) = rbind (f x) (\<lambda>y. rmap (\<lambda>ys. y # ys) (mapRes f xs))"

definition ParseScript ::
  "('f, 's) host \<Rightarrow> 'f lexer_env \<Rightarrow> (int \<Rightarrow> 'f) \<Rightarrow> string \<Rightarrow> (parse_error, 'f tql_script) res" where
  "ParseScript h env unix source =
     rbind (tql_scanLines env source) (\<lambda>lines.
       rmap (\<lambda>stmts. \<lparr>ts_Source = source, ts_Statements = stmts\<rparr>) (mapRes (makeStatement h env unix source) lines))"

subsection \<open>The structure of a script (script_validate.go)\<close>

record script_error =
  se_Kind :: string
  se_Span :: source_span
  se_Text :: string

definition newScriptError :: "string \<Rightarrow> 'f statement option \<Rightarrow> script_error" where
  "newScriptError kind stmt =
     (case stmt of
        None \<Rightarrow> \<lparr>se_Kind = kind, se_Span = zeroSpan, se_Text = []\<rparr>
      | Some s \<Rightarrow> \<lparr>se_Kind = kind, se_Span = sm_Span s, se_Text = sm_Text s\<rparr>)"

definition isApplicableForSource :: "statement_kind \<Rightarrow> bool" where
  "isApplicableForSource k =
     (k \<in> {StatementSource, StatementSourceOrMap, StatementSourceOrSink, StatementSourceOrMapOrSink})"

definition isApplicableForMap :: "statement_kind \<Rightarrow> bool" where
  "isApplicableForMap k = (k \<in> {StatementMap, StatementSourceOrMap, StatementSourceOrMapOrSink})"

definition isApplicableForSink :: "statement_kind \<Rightarrow> bool" where
  "isApplicableForSink k = (k \<in> {StatementSink, StatementSourceOrSink, StatementSourceOrMapOrSink})"

definition ValidateScriptStructure :: "'f tql_script option \<Rightarrow> (script_error, unit) res" where
  "ValidateScriptStructure script =
     (case script of
        None \<Rightarrow> Err (newScriptError ''nil_script'' (None :: 'f statement option))
      | Some sc \<Rightarrow>
          (let codes = filter IsCode (ts_Statements sc) in
           if codes = [] then Err (newScriptError ''no_source'' (None :: 'f statement option))
           else if length codes = 1 then Err (newScriptError ''no_sink'' (Some (hd codes)))
           else if \<not> isApplicableForSource (sm_Kind (hd codes))
           then Err (newScriptError ''invalid_source'' (Some (hd codes)))
           else if \<not> isApplicableForSink (sm_Kind (last codes))
           then Err (newScriptError ''invalid_sink'' (Some (last codes)))
           else (case find (\<lambda>s. \<not> isApplicableForMap (sm_Kind s)) (butlast (tl codes)) of
                   Some s \<Rightarrow> Err (newScriptError ''invalid_map'' (Some s))
                 | None \<Rightarrow> Ok ())))"

end
