(* ===== verification/TqlScriptProps.thy ===== *)
theory TqlScriptProps
  imports TqlScript ExprProps
begin

text \<open>
  The properties of TQL scripts: how a source text is cut into statements, what a parsed script holds,
  and which structures the check accepts.
\<close>

subsection \<open>The reader's line numbers\<close>

lemma joinWith_set: "set (joinWith sep ps) \<subseteq> set sep \<union> \<Union> (set (map set ps))"
  by (induction sep ps rule: joinWith.induct) auto

lemma isBlankText_iff: "isBlankText s = list_all isSpace s"
  by (simp add: isBlankText_def trimSpace_empty_iff list_all_iff)

lemma isBlankText_join: "list_all isBlankText ps \<Longrightarrow> isBlankText (joinWith [NL] ps)"
  using joinWith_set [of "[NL]" ps] by (fastforce simp: isBlankText_iff list_all_iff)

text \<open>
  Between two lines: the lines found so far have ascending numbers up to the last one read, they lie
  before an open statement, and outside a statement only blank lines are held back.
\<close>

definition reader_ok :: "'f reader_state \<Rightarrow> bool" where
  "reader_ok st = (sorted_wrt (<) (map ln_line (rs_expressions st))
     \<and> (\<forall>l \<in> set (rs_expressions st). 1 \<le> ln_line l \<and> ln_line l \<le> rs_lineNo st)
     \<and> (if rs_lineFrom st = 0 then list_all isBlankText (rs_stmt st)
        else rs_lineFrom st \<le> rs_lineNo st
          \<and> (\<forall>l \<in> set (rs_expressions st). ln_line l < rs_lineFrom st)))"

lemma readerInit_ok: "reader_ok readerInit"
  by (simp add: reader_ok_def readerInit_def)

text \<open>What \<open>readCode\<close> does to the state: it holds a line back or adds a statement.\<close>

definition openLine :: "nat \<Rightarrow> string \<Rightarrow> 'f reader_state \<Rightarrow> 'f reader_state" where
  "openLine start l st =
     (if rs_lineFrom st = 0 then st\<lparr>rs_lineFrom := rs_lineNo st, rs_stmtOffset := Some start\<rparr> else st)
       \<lparr>rs_stmt := rs_stmt st @ [l]\<rparr>"

definition closeStatement :: "'f reader_state \<Rightarrow> 'f reader_state" where
  "closeStatement st = st\<lparr>rs_stmt := [], rs_lineFrom := 0, rs_stmtOffset := None\<rparr>"

lemma readCode_cases:
  assumes "readCode env l start st = Ok st'"
  obtains (opened) l' where "st' = openLine start l' st"
  | (closed) "st' = closeStatement st"
  | (added) ln where "st' = closeStatement (addLine ln st)"
      "ln_line ln = (if rs_lineFrom st \<noteq> 0 then rs_lineFrom st else rs_lineNo st)"
proof -
  obtain tokens pos err where p: "ParseTokens env (joinWith [NL] (rs_stmt st @ [l])) = Ok (tokens, pos, err)"
    using assms by (auto simp: readCode_def rbind_Ok_iff Let_def)
  show thesis
  proof (cases err)
    case None
    with p assms closed added show thesis
      by (auto simp: readCode_def Let_def closeStatement_def split: if_splits)
  next
    case (Some e)
    then have "\<exists>l'. st' = openLine start l' st"
      using p assms by (auto simp: readCode_def Let_def openLine_def split: if_splits)
    with opened show thesis by blast
  qed
qed

lemma reader_ok_openLine:
  "reader_ok (st\<lparr>rs_lineNo := n\<rparr>) \<Longrightarrow> rs_lineNo st = Suc n \<Longrightarrow>
     reader_ok (openLine start l st) \<and> rs_lineNo (openLine start l st) = Suc n"
  by (cases "rs_lineFrom st = 0") (auto simp: reader_ok_def openLine_def less_Suc_eq_le)

lemma reader_ok_closeStatement:
  "reader_ok (st\<lparr>rs_lineNo := n\<rparr>) \<Longrightarrow> rs_lineNo st = Suc n \<Longrightarrow> reader_ok (closeStatement st)"
  by (fastforce simp: reader_ok_def closeStatement_def)

lemma reader_ok_addLine:
  assumes "reader_ok (st\<lparr>rs_lineNo := n\<rparr>)" and "rs_lineNo st = Suc n"
    and "ln_line ln = (if rs_lineFrom st \<noteq> 0 then rs_lineFrom st else Suc n)"
  shows "reader_ok (closeStatement (addLine ln st))"
  using assms
  by (cases "rs_lineFrom st = 0") (fastforce simp: reader_ok_def closeStatement_def addLine_def sorted_wrt_append)+

lemma reader_ok_mark:
  assumes "reader_ok (st\<lparr>rs_lineNo := n\<rparr>)" and "rs_lineNo st = Suc n" and "rs_lineFrom st = 0"
  shows "reader_ok (addLine (markLine b l x (Suc n) start) st)"
  using assms by (auto simp: reader_ok_def addLine_def markLine_def sorted_wrt_append Let_def less_Suc_eq_le)

lemma readLine_ok:
  assumes "readLine env st l = Ok st'" and "reader_ok st"
  shows "reader_ok st' \<and> rs_lineNo st' = Suc (rs_lineNo st)"
proof -
  let ?st = "st\<lparr>rs_lineNo := Suc (rs_lineNo st), rs_lineOffset := rs_lineOffset st + length l + 1\<rparr>"
  have ok: "reader_ok (?st\<lparr>rs_lineNo := rs_lineNo st\<rparr>)"
    using assms(2) by (simp add: reader_ok_def)
  consider
      (blank) "isBlankText l" "st' = (if rs_stmt ?st \<noteq> [] then ?st\<lparr>rs_stmt := rs_stmt ?st @ [l]\<rparr> else ?st)"
    | (mark) b x where "rs_lineFrom st = 0"
        "st' = addLine (markLine b l x (Suc (rs_lineNo st)) (rs_lineOffset st)) ?st"
    | (comment) x where "rs_lineFrom st = 0"
        "st' = addLine (markLine False l x (Suc (rs_lineNo st)) (rs_lineOffset st))
                 (?st\<lparr>rs_stmt := rs_stmt ?st @ [[]]\<rparr>)"
    | (code) "readCode env l (rs_lineOffset st) ?st = Ok st'"
    using assms(1) by (auto simp: readLine_def Let_def isBlankText_def split: if_splits)
  then show ?thesis
  proof cases
    case blank
    then show ?thesis
      using assms(2) by (fastforce simp: reader_ok_def)
  next
    case mark
    then show ?thesis
      using reader_ok_mark [OF ok] by (simp add: addLine_def)
  next
    case comment
    have "reader_ok (?st\<lparr>rs_stmt := rs_stmt ?st @ [[]], rs_lineNo := rs_lineNo st\<rparr>)"
      using ok comment(1) by (simp add: reader_ok_def isBlankText_def trimSpace_def)
    then show ?thesis
      using comment reader_ok_mark [where st = "?st\<lparr>rs_stmt := rs_stmt ?st @ [[]]\<rparr>" and n = "rs_lineNo st"]
      by (simp add: addLine_def)
  next
    case code
    then show ?thesis
    proof (cases rule: readCode_cases)
      case opened
      then show ?thesis using reader_ok_openLine [OF ok] by simp
    next
      case closed
      then show ?thesis using reader_ok_closeStatement [OF ok] by (simp add: closeStatement_def)
    next
      case added
      then show ?thesis using reader_ok_addLine [OF ok] by (simp add: closeStatement_def addLine_def)
    qed
  qed
qed

lemma readAll_ok:
  "readAll env st ls = Ok st' \<Longrightarrow> reader_ok st \<Longrightarrow>
     reader_ok st' \<and> rs_lineNo st' = rs_lineNo st + length ls"
proof (induction ls arbitrary: st)
  case (Cons l ls)
  then show ?case
    using readLine_ok [of env st l] by (fastforce simp: rbind_Ok_iff)
qed simp

lemma readFinish_ok:
  assumes "reader_ok st"
  shows "sorted_wrt (<) (map ln_line (readFinish st))"
    and "l \<in> set (readFinish st) \<Longrightarrow> 1 \<le> ln_line l \<and> ln_line l \<le> rs_lineNo st"
proof -
  have "rs_lineFrom st \<noteq> 0" if "\<not> isBlankText (joinWith [NL] (rs_stmt st))"
    using that assms isBlankText_join [of "rs_stmt st"] by (metis reader_ok_def)
  then show "sorted_wrt (<) (map ln_line (readFinish st))"
    "l \<in> set (readFinish st) \<Longrightarrow> 1 \<le> ln_line l \<and> ln_line l \<le> rs_lineNo st"
    using assms by (fastforce simp: reader_ok_def readFinish_def Let_def sorted_wrt_append split: if_splits)+
qed

subsection \<open>The statements of a script\<close>

lemma mapRes_Ok: "(mapRes f xs = Ok ys) = list_all2 (\<lambda>x y. f x = Ok y) xs ys"
  by (induction xs arbitrary: ys) (auto simp: rbind_Ok_iff rmap_Ok_iff list_all2_Cons1)

lemma length_positionsFrom: "length (positionsFrom i l c s) = Suc (length s)"
  by (induction i l c s rule: positionsFrom.induct) auto

lemma line_positionsFrom: "0 < l \<Longrightarrow> k \<le> length s \<Longrightarrow> 0 < Line (positionsFrom i l c s ! k)"
  by (induction i l c s arbitrary: k rule: positionsFrom.induct) (auto simp: nth_Cons split: nat.splits)

lemma offset_positionsFrom: "k \<le> length s \<Longrightarrow> Offset (positionsFrom i l c s ! k) = i + k"
  by (induction i l c s arbitrary: k rule: positionsFrom.induct) (auto simp: nth_Cons split: nat.splits)

definition span_in :: "string \<Rightarrow> source_span \<Rightarrow> bool" where
  "span_in src sp = (\<exists>a b. a \<le> b \<and> b \<le> length src
     \<and> sp = \<lparr>spanStart = buildSourcePositions src ! a, spanEnd = buildSourcePositions src ! b\<rparr>)"

lemma makeStatementSpan_in:
  "\<exists>sp. makeStatementSpan src (buildSourcePositions src) line txt a b = Ok sp \<and> span_in src sp"
proof -
  let ?n = "length src"
  define x where "x = (if a > ?n then ?n else a)"
  define e1 where "e1 = (if b < x then x else b)"
  define y where "y = (if e1 > ?n then ?n else e1)"
  define z where "z = (if x = y \<and> txt \<noteq> []
    then (let f = x + length txt in if f > ?n then ?n else f) else y)"
  have b: "x \<le> z" "z \<le> ?n"
    by (auto simp: x_def e1_def y_def z_def Let_def)
  have len: "length (buildSourcePositions src) = Suc ?n"
    and pos: "k \<le> ?n \<Longrightarrow> 0 < Line (buildSourcePositions src ! k)" for k
    by (simp_all add: buildSourcePositions_def length_positionsFrom line_positionsFrom)
  have "makeStatementSpan src (buildSourcePositions src) line txt a b =
      Ok \<lparr>spanStart = buildSourcePositions src ! x, spanEnd = buildSourcePositions src ! z\<rparr>"
    unfolding makeStatementSpan_def Let_def
    unfolding x_def [symmetric] e1_def [symmetric] y_def [symmetric] z_def [unfolded Let_def, symmetric]
    using b pos [of x] pos [of z] by (simp add: len)
  then show ?thesis
    using b by (auto simp: span_in_def)
qed

lemma buildExpression_input: "buildExpression h unix toks s = Ok ee \<Longrightarrow> ex_inputExpression ee = s"
  by (auto simp: buildExpression_def rbind_Ok_iff)

lemma lineExpression_input: "lineExpression h env unix l = Ok ee \<Longrightarrow> ex_inputExpression ee = ln_text l"
  by (auto simp: lineExpression_def NewFromTokensWithExpression_def NewWithFunctions_def rbind_Ok_iff
      buildExpression_input split: if_splits option.splits)

definition statement_ok :: "string \<Rightarrow> 'f statement \<Rightarrow> bool" where
  "statement_ok src s = (span_in src (sm_Span s)
     \<and> (if sm_IsPragma s then sm_Kind s = StatementPragma \<and> sm_Expr s = None
        else if sm_IsComment s then sm_Kind s = StatementComment \<and> sm_Expr s = None
        else \<exists>ee. sm_Expr s = Some ee \<and> ex_inputExpression ee = sm_Text s
               \<and> sm_Name s = asNodeName ee \<and> sm_Kind s = classifyStatementKind (sm_Name s)))"

lemma makeStatement_ok:
  assumes "makeStatement h env unix src l = Ok s"
  shows "statement_ok src s" and "sm_Line s = ln_line l"
proof -
  obtain sp where sp: "makeStatementSpan src (buildSourcePositions src) (ln_line l) (ln_text l)
      (ln_start l) (ln_end l) = (Ok sp :: (parse_error, _) res)" "span_in src sp"
    using makeStatementSpan_in by blast
  with assms show "statement_ok src s" "sm_Line s = ln_line l"
    by (auto simp: makeStatement_def statement_ok_def Let_def lineExpression_input
        split: if_splits res.splits)
qed

lemma ParseScript_lines:
  assumes "ParseScript h env unix src = Ok sc"
  obtains lines where "tql_scanLines env src = Ok lines"
    "list_all2 (\<lambda>l s. makeStatement h env unix src l = Ok s) lines (ts_Statements sc)"
    "ts_Source sc = src"
  using assms by (auto simp: ParseScript_def rbind_Ok_iff rmap_Ok_iff mapRes_Ok)


subsection \<open>The structure of a script\<close>

text \<open>
  C31: A script is accepted exactly if its code statements are one that can be a source, then any number
  that can be maps, then one that can be a sink.
\<close>

theorem ValidateScriptStructure_shape:
  "ValidateScriptStructure (Some sc) = Ok () \<longleftrightarrow>
     (\<exists>src maps snk. filter IsCode (ts_Statements sc) = src # maps @ [snk]
        \<and> isApplicableForSource (sm_Kind src) \<and> isApplicableForSink (sm_Kind snk)
        \<and> list_all (\<lambda>s. isApplicableForMap (sm_Kind s)) maps)"
proof (cases "filter IsCode (ts_Statements sc)")
  case Nil
  then show ?thesis by (simp add: ValidateScriptStructure_def)
next
  case (Cons a as)
  then show ?thesis
    by (cases as rule: rev_cases)
      (auto simp: ValidateScriptStructure_def find_map_None list_all_iff Let_def
        dest: find_Some_holds split: option.splits if_splits)
qed

subsection \<open>Scripts of whole statements\<close>

lemma chopCR_id: "CR \<notin> set l \<Longrightarrow> chopCR l = l"
  by (auto simp: chopCR_def dest: last_in_set)

lemma readLines_join:
  assumes "\<forall>l \<in> set ls. NL \<notin> set l \<and> CR \<notin> set l" and "ls \<noteq> []" and "last ls \<noteq> []"
  shows "readLines (joinWith [NL] ls) = ls"
proof -
  have "map chopCR (butlast ls) = butlast ls"
    using assms(1) by (intro map_idI) (auto simp: chopCR_id dest: in_set_butlastD)
  then show ?thesis
    using assms by (simp add: readLines_def splitOn_join Let_def)
qed

definition plain_start :: "string \<Rightarrow> bool" where
  "plain_start l = (\<not> hasPrefix (trimSpace l) ''#'' \<and> \<not> hasPrefix (trimSpace l) ''//'')"

text \<open>
  The lines of one statement: what stands before the last line is an open parenthesis for the lexer
  and nothing is left over behind a line's last token; blank lines may stand inside.
\<close>

definition open_part :: "'f lexer_env \<Rightarrow> string list \<Rightarrow> bool" where
  "open_part env ls = (\<exists>toks e. ParseTokens env (joinWith [NL] ls) = Ok (toks, length (joinWith [NL] ls), Some e)
     \<and> pe_Kind e = ''unbalanced_parenthesis'')"

definition statement_lines :: "'f lexer_env \<Rightarrow> string list \<Rightarrow> 'f token list \<Rightarrow> bool" where
  "statement_lines env ls toks = (ls \<noteq> []
     \<and> (\<forall>l \<in> set ls. NL \<notin> set l \<and> CR \<notin> set l)
     \<and> plain_start (hd ls) \<and> \<not> isBlankText (hd ls) \<and> \<not> isBlankText (last ls)
     \<and> (\<forall>j. 0 < j \<longrightarrow> j < length ls \<longrightarrow> isBlankText (ls ! (j - 1)) \<or> open_part env (take j ls))
     \<and> ParseTokens env (joinWith [NL] ls) = Ok (toks, length (joinWith [NL] ls), None))"

lemma hasPrefix_longer: "hasPrefix s (p @ q) \<Longrightarrow> hasPrefix s p"
  by (auto simp: hasPrefix_iff)

lemma plain_start_code:
  assumes "plain_start l \<or> rs_lineFrom st \<noteq> 0" and "\<not> isBlankText l"
  shows "readLine env st l = readCode env l (rs_lineOffset st)
    (st\<lparr>rs_lineNo := Suc (rs_lineNo st), rs_lineOffset := rs_lineOffset st + length l + 1\<rparr>)"
  using assms hasPrefix_longer [of "trimSpace l" "''#''" "''pragma''"]
    hasPrefix_longer [of "trimSpace l" "''//''" "''+''"]
  by (auto simp: readLine_def Let_def plain_start_def isBlankText_def)

text \<open>The state inside a statement that started at line \<open>n\<close> and offset \<open>o'\<close>, \<open>k\<close> lines of it read.\<close>

definition inside ::
  "'f line list \<Rightarrow> nat \<Rightarrow> nat \<Rightarrow> string list \<Rightarrow> nat \<Rightarrow> 'f reader_state" where
  "inside ex n o' ls k =
     \<lparr>rs_stmt = take k ls, rs_expressions = ex, rs_lineNo = n + k, rs_lineFrom = (if k = 0 then 0 else Suc n),
      rs_lineOffset = o' + (\<Sum>l\<leftarrow>take k ls. length l + 1), rs_stmtOffset = (if k = 0 then None else Some o')\<rparr>"

lemma inside_step:
  assumes "statement_lines env ls toks" and "Suc k < length ls"
  shows "readLine env (inside ex n o' ls k) (ls ! k) = Ok (inside ex n o' ls (Suc k))"
proof -
  have take: "take (Suc k) ls = take k ls @ [ls ! k]"
    using assms(2) by (simp add: take_Suc_conv_app_nth)
  have nonempty: "k \<noteq> 0 \<Longrightarrow> take k ls \<noteq> []"
    using assms(2) by auto
  show ?thesis
  proof (cases "isBlankText (ls ! k)")
    case True
    then have "k \<noteq> 0"
      using assms(1) by (metis hd_conv_nth statement_lines_def)
    with True nonempty show ?thesis
      by (simp add: readLine_def Let_def isBlankText_def inside_def take)
  next
    case False
    then obtain ts e where p: "ParseTokens env (joinWith [NL] (take (Suc k) ls)) =
        Ok (ts, length (joinWith [NL] (take (Suc k) ls)), Some e)" "pe_Kind e = ''unbalanced_parenthesis''"
      using assms unfolding statement_lines_def open_part_def by (metis diff_Suc_1 zero_less_Suc)
    have "plain_start (ls ! k) \<or> rs_lineFrom (inside ex n o' ls k) \<noteq> 0"
      using assms(1) by (cases k; cases ls) (auto simp: statement_lines_def inside_def)
    from plain_start_code [OF this False] p show ?thesis
      by (auto simp: readCode_def Let_def inside_def take)
  qed
qed

lemma inside_steps:
  assumes "statement_lines env ls toks" and "k < length ls"
  shows "readAll env (inside ex n o' ls 0) (take k ls) = Ok (inside ex n o' ls k)"
  using assms(2)
proof (induction k)
  case (Suc k)
  have app: "readAll env st (xs @ ys) = rbind (readAll env st xs) (\<lambda>st'. readAll env st' ys)" for st xs ys
    by (induction xs arbitrary: st) (simp_all add: rbind_assoc)
  show ?case
    using Suc inside_step [OF assms(1) Suc.prems] by (simp add: take_Suc_conv_app_nth app)
qed (simp add: inside_def)

lemma rbind_Ok_right [simp]: "rbind m Ok = m"
  by (cases m) simp_all

text \<open>The whole statement becomes one line.\<close>

definition wholeLine :: "nat \<Rightarrow> nat \<Rightarrow> string list \<Rightarrow> 'f token list \<Rightarrow> 'f line" where
  "wholeLine n o' ls toks =
     \<lparr>ln_text = joinWith [NL] ls, ln_line = n, ln_isComment = False, ln_isPragma = False,
      ln_tokens = toks, ln_start = o', ln_end = o' + length (joinWith [NL] ls)\<rparr>"

definition outside :: "'f line list \<Rightarrow> nat \<Rightarrow> nat \<Rightarrow> 'f reader_state" where
  "outside ex n o' = \<lparr>rs_stmt = [], rs_expressions = ex, rs_lineNo = n, rs_lineFrom = 0, rs_lineOffset = o',
     rs_stmtOffset = None\<rparr>"

lemma readerInit_outside: "readerInit = outside [] 0 0"
  by (simp add: readerInit_def outside_def)

lemma readFinish_outside: "readFinish (outside ex n o') = ex"
  by (simp add: readFinish_def outside_def)

lemma length_join: "ls \<noteq> [] \<Longrightarrow> length (joinWith [NL] ls) + 1 = (\<Sum>l\<leftarrow>ls. length l + 1)"
proof (induction ls)
  case (Cons l ls)
  then show ?case by (cases ls) auto
qed simp

lemma join_blank: "isBlankText (joinWith [NL] ls) \<Longrightarrow> l \<in> set ls \<Longrightarrow> isBlankText l"
proof (induction ls)
  case (Cons k ls)
  then show ?case by (cases ls) (auto simp: isBlankText_iff)
qed simp

lemma read_statement:
  assumes "statement_lines env ls toks"
  shows "readAll env (outside ex n o') ls =
           Ok (outside (ex @ [wholeLine (Suc n) o' ls toks]) (n + length ls)
                 (o' + length (joinWith [NL] ls) + 1))"
proof -
  obtain k where k: "length ls = Suc k"
    using assms by (cases ls) (auto simp: statement_lines_def)
  then have ls: "ls = take k ls @ [ls ! k]" "last ls = ls ! k" "ls \<noteq> []"
    using take_Suc_conv_app_nth [of k ls] last_conv_nth [of ls] by auto
  have app: "readAll env st (xs @ ys) = rbind (readAll env st xs) (\<lambda>st'. readAll env st' ys)" for st xs ys
    by (induction xs arbitrary: st) (simp_all add: rbind_assoc)
  have start: "outside ex n o' = inside ex n o' ls 0"
    by (simp add: outside_def inside_def)
  have steps: "readAll env (outside ex n o') ls = readLine env (inside ex n o' ls k) (ls ! k)"
  proof -
    have "readAll env (outside ex n o') ls =
        rbind (readAll env (outside ex n o') (take k ls)) (\<lambda>st'. readAll env st' [ls ! k])"
      by (metis app ls(1))
    then show ?thesis
      using inside_steps [OF assms, of k ex n o'] k by (simp add: start)
  qed
  have nb: "\<not> isBlankText (ls ! k)" and p: "ParseTokens env (joinWith [NL] ls) =
      Ok (toks, length (joinWith [NL] ls), None)"
    using assms ls(2) by (simp_all add: statement_lines_def)
  have code: "plain_start (ls ! k) \<or> rs_lineFrom (inside ex n o' ls k) \<noteq> 0"
    using assms by (cases k; cases ls) (auto simp: statement_lines_def inside_def)
  have nb2: "\<not> isBlankText (joinWith [NL] ls)"
    using join_blank [of ls "ls ! k"] nb k by auto
  have off: "o' + (\<Sum>l\<leftarrow>take k ls. length l + 1) + length (ls ! k) + 1 = o' + length (joinWith [NL] ls) + 1"
    using length_join [OF ls(3)] by (subst (asm) (2) ls(1)) simp
  show ?thesis
    using steps plain_start_code [OF code nb] p nb2 k off
    by (simp add: readCode_def Let_def inside_def ls(1) [symmetric] outside_def wholeLine_def addLine_def)
qed

fun wholeLines :: "nat \<Rightarrow> nat \<Rightarrow> (string list \<times> 'f token list) list \<Rightarrow> 'f line list" where
  "wholeLines n o' [] = []"
| "wholeLines n o' ((ls, toks) # gs) =
     wholeLine (Suc n) o' ls toks
     # wholeLines (n + length ls) (o' + length (joinWith [NL] ls) + 1) gs"

lemma read_statements:
  "\<forall>(ls, toks) \<in> set gs. statement_lines env ls toks \<Longrightarrow>
     \<exists>n' o''. readAll env (outside ex n o') (concat (map fst gs)) = Ok (outside (ex @ wholeLines n o' gs) n' o'')"
proof (induction gs arbitrary: ex n o')
  case (Cons g gs)
  obtain ls toks where g: "g = (ls, toks)"
    by (cases g)
  have app: "readAll env st (xs @ ys) = rbind (readAll env st xs) (\<lambda>st'. readAll env st' ys)" for st xs ys
    by (induction xs arbitrary: st) (simp_all add: rbind_assoc)
  have "statement_lines env ls toks"
    using Cons.prems g by auto
  from read_statement [OF this, of ex n o'] show ?case
    using Cons.IH [of "ex @ [wholeLine (Suc n) o' ls toks]"] Cons.prems by (auto simp: g app)
qed auto

text \<open>
  C32: A source that is written as whole statements, each over one or more lines, is cut into exactly these
  statements: each becomes one line with its text, the number of its first line, its tokens and its
  place in the source.
\<close>

theorem scanLines_statements:
  assumes "gs \<noteq> []" and "\<forall>(ls, toks) \<in> set gs. statement_lines env ls toks"
  shows "tql_scanLines env (joinWith [NL] (concat (map fst gs))) = Ok (wholeLines 0 0 gs)"
proof -
  let ?ls = "concat (map fst gs)"
  have parts: "ls \<noteq> [] \<and> (\<forall>l \<in> set ls. NL \<notin> set l \<and> CR \<notin> set l) \<and> \<not> isBlankText (last ls)"
    if "(ls, toks) \<in> set gs" for ls toks
    using assms(2) that by (auto simp: statement_lines_def)
  have chars: "\<forall>l \<in> set ?ls. NL \<notin> set l \<and> CR \<notin> set l"
    using parts by fastforce
  obtain ls toks gs' where g: "gs = gs' @ [(ls, toks)]"
    using assms(1) by (metis rev_exhaust surj_pair)
  then have "?ls \<noteq> []" "last ?ls \<noteq> []"
    using parts [of ls toks] by (auto simp: isBlankText_def trimSpace_def)
  then have "readLines (joinWith [NL] ?ls) = ?ls"
    by (rule readLines_join [OF chars])
  moreover obtain n' o'' where "readAll env (outside [] 0 0) ?ls = Ok (outside (wholeLines 0 0 gs) n' o'')"
    using read_statements [OF assms(2), of "[]" 0 0] by auto
  ultimately show ?thesis
    by (simp add: tql_scanLines_def readerInit_outside readFinish_outside)
qed

text \<open>The place a whole statement's line names is where its text stands in the source.\<close>

lemma wholeLines_place:
  "\<forall>(ls, toks) \<in> set gs. ls \<noteq> [] \<Longrightarrow> l \<in> set (wholeLines n (length pre) gs) \<Longrightarrow>
     take (ln_end l - ln_start l) (drop (ln_start l) (pre @ joinWith [NL] (concat (map fst gs)))) = ln_text l"
proof (induction gs arbitrary: n pre)
  case (Cons g gs)
  obtain ls toks where g: "g = (ls, toks)" "ls \<noteq> []"
    using Cons.prems(1) by (cases g) auto
  have join: "joinWith [NL] (xs @ ys) = joinWith [NL] xs @ [NL] @ joinWith [NL] ys" if "xs \<noteq> []" "ys \<noteq> []" for xs ys
    using that
  proof (induction xs)
    case (Cons x xs)
    then show ?case by (cases xs; cases ys) auto
  qed simp
  show ?case
  proof (cases "l = wholeLine (Suc n) (length pre) ls toks")
    case True
    then show ?thesis
      by (cases "concat (map fst gs) = []")
        (simp_all add: g wholeLine_def join del: concat_eq_Nil_conv)
  next
    case False
    with Cons.prems(2) g have l: "l \<in> set (wholeLines (n + length ls)
        (length (pre @ joinWith [NL] ls @ [NL])) gs)"
      by (simp add: add.assoc)
    then have "gs \<noteq> []"
      by auto
    then have "concat (map fst gs) \<noteq> []"
      using Cons.prems(1) by (cases gs) auto
    with Cons.IH [OF _ l] Cons.prems(1) show ?thesis
      by (simp add: g join)
  qed
qed simp

subsection \<open>Witnesses and irregular scripts\<close>

definition script_env :: "int lexer_env" where
  "script_env = \<lparr>parseFloat = (\<lambda>s. if s = ''1'' then Some 1 else None), ofUint64 = int,
     parseStringToTime = False, tryParseTime = (\<lambda>s. None),
     functionTable = (\<lambda>s. s = ''FAKE'' \<or> s = ''CSV'')\<rparr>"

definition outlines :: "string \<Rightarrow> (string \<times> nat \<times> nat \<times> nat) list option" where
  "outlines src =
     (case tql_scanLines script_env src of
        Ok ls \<Rightarrow> Some (map (\<lambda>l. (ln_text l, ln_line l, ln_start l, ln_end l)) ls)
      | _ \<Rightarrow> None)"

text \<open>
  Three scripts whose statements are misplaced.  A comment before a statement puts a newline in front of
  the statement's text and one character too many into its span; a return before a newline is not
  counted, so every later statement starts too early; and a statement that is not finished at the end of
  the source carries the number of the last line instead of its first.
\<close>

theorem scanLines_misplaced:
  "outlines (''//c'' @ [NL] @ ''CSV(1)'') = Some [(''c'', 1, 2, 3), (NL # ''CSV(1)'', 2, 4, 11)]
   \<and> length (''//c'' @ [NL] @ ''CSV(1)'') = 10
   \<and> outlines (''CSV(1)'' @ [CR, NL] @ ''CSV(1)'') = Some [(''CSV(1)'', 1, 0, 6), (''CSV(1)'', 2, 7, 13)]
   \<and> take 6 (drop 8 (''CSV(1)'' @ [CR, NL] @ ''CSV(1)'')) = ''CSV(1)''
   \<and> outlines (''CSV('' @ [NL] @ ''1'') = Some [(''CSV('' @ [NL] @ ''1'', 2, 0, 6)]"
  by (intro conjI; code_simp)

subsection \<open>Witnesses\<close>

definition two_groups :: "string list list" where
  "two_groups = [[''FAKE(1)''], [''CSV('', ''1)'']]"

definition tokens_of :: "string list \<Rightarrow> int token list" where
  "tokens_of ls = (case ParseTokens script_env (joinWith [NL] ls) of Ok (toks, _, None) \<Rightarrow> toks | _ \<Rightarrow> [])"

lemma group_one: "statement_lines script_env [''FAKE(1)''] (tokens_of [''FAKE(1)''])"
proof -
  have "ParseTokens script_env (joinWith [NL] [''FAKE(1)'']) =
      Ok (tokens_of [''FAKE(1)''], length (joinWith [NL] [''FAKE(1)'']), None)"
    by code_simp
  moreover have "plain_start ''FAKE(1)''" and "\<not> isBlankText ''FAKE(1)''"
      and "NL \<notin> set ''FAKE(1)'' \<and> CR \<notin> set ''FAKE(1)''"
    by code_simp+
  ultimately show ?thesis
    by (simp add: statement_lines_def)
qed

lemma group_two: "statement_lines script_env [''CSV('', ''1)''] (tokens_of [''CSV('', ''1)''])"
proof -
  have "ParseTokens script_env (joinWith [NL] [''CSV('']) =
      Ok ([], 4, Some \<lparr>pe_Kind = ''unbalanced_parenthesis'',
        pe_Span = \<lparr>spanStart = \<lparr>Offset = 3, Line = 1, Column = 4\<rparr>,
          spanEnd = \<lparr>Offset = 4, Line = 1, Column = 5\<rparr>\<rparr>, pe_Near = ''(''\<rparr>)"
    by code_simp
  then have "open_part script_env [''CSV('']"
    by (simp add: open_part_def)
  then have opened: "0 < j \<Longrightarrow> j < length [''CSV('', ''1)''] \<Longrightarrow> open_part script_env (take j [''CSV('', ''1)''])" for j
    by (cases "j = 1") simp_all
  have "ParseTokens script_env (joinWith [NL] [''CSV('', ''1)'']) =
      Ok (tokens_of [''CSV('', ''1)''], length (joinWith [NL] [''CSV('', ''1)'']), None)"
    by code_simp
  moreover have "plain_start ''CSV(''" and "\<not> isBlankText ''CSV(''" and "\<not> isBlankText ''1)''"
      and "\<forall>l \<in> set [''CSV('', ''1)'']. NL \<notin> set l \<and> CR \<notin> set l"
    by code_simp+
  ultimately show ?thesis
    using opened by (simp add: statement_lines_def)
qed

lemma two_groups_ok: "\<forall>(ls, toks) \<in> set (map (\<lambda>ls. (ls, tokens_of ls)) two_groups). statement_lines script_env ls toks"
  using group_one group_two by (simp add: two_groups_def)

theorem scanLines_statements_witness:
  "tql_scanLines script_env (joinWith [NL] [''FAKE(1)'', ''CSV('', ''1)'']) =
     Ok (wholeLines 0 0 (map (\<lambda>ls. (ls, tokens_of ls)) two_groups))"
  using scanLines_statements [OF _ two_groups_ok] by (simp add: two_groups_def)

definition two_statements :: "int tql_script" where
  "two_statements = (case ParseScript sample_host script_env id (''FAKE(1)'' @ [NL] @ ''CSV(1)'') of
     Ok sc \<Rightarrow> sc | _ \<Rightarrow> \<lparr>ts_Source = [], ts_Statements = []\<rparr>)"


end
