(* ===== verification/Utf8.thy ===== *)
theory Utf8
  imports GoText
begin

text \<open>
  Go strings as bytes.  Here a \<open>string\<close> is a byte sequence, one \<open>char\<close> per byte, and code points are
  natural numbers.  \<open>DecodeRuneInString\<close>, \<open>DecodeLastRuneInString\<close> and \<open>EncodeRune\<close> of Go's
  \<open>unicode/utf8\<close> follow its tables of accepted bytes; \<open>strings.TrimSpace\<close> and its halves work on what
  they decode.  On ASCII text all of them agree with the functions of \<open>GoText\<close>.
\<close>

definition isAscii :: "char \<Rightarrow> bool" where
  "isAscii c = (code c < 128)"

lemma code_inj: "(code c = code d) = (c = d)"
  by (simp add: code_def)

lemma char_of_code [simp]: "char_of (code c) = c"
  by (simp add: code_def)

subsection \<open>Package unicode/utf8\<close>

definition RuneError :: nat where "RuneError = 0xFFFD"

text \<open>The number of bytes a first byte announces and the range of the second byte.\<close>

definition firstByte :: "nat \<Rightarrow> (nat \<times> nat \<times> nat) option" where
  "firstByte b =
     (if 0xC2 \<le> b \<and> b \<le> 0xDF then Some (2, 0x80, 0xBF)
      else if b = 0xE0 then Some (3, 0xA0, 0xBF)
      else if b = 0xED then Some (3, 0x80, 0x9F)
      else if 0xE1 \<le> b \<and> b \<le> 0xEF then Some (3, 0x80, 0xBF)
      else if b = 0xF0 then Some (4, 0x90, 0xBF)
      else if 0xF1 \<le> b \<and> b \<le> 0xF3 then Some (4, 0x80, 0xBF)
      else if b = 0xF4 then Some (4, 0x80, 0x8F)
      else None)"

definition isCont :: "char \<Rightarrow> bool" where
  "isCont c = (0x80 \<le> code c \<and> code c \<le> 0xBF)"

fun decodeRune :: "string \<Rightarrow> nat \<times> nat" where
  "decodeRune [] = (RuneError, 0)"
| "decodeRune (c # s) =
     (if isAscii c then (code c, 1)
      else case firstByte (code c) of
        None \<Rightarrow> (RuneError, 1)
      | Some (width, lo, hi) \<Rightarrow>
          (if length s + 1 < width \<or> \<not> (lo \<le> code (s ! 0) \<and> code (s ! 0) \<le> hi) then (RuneError, 1)
           else if width = 2 then (code c mod 32 * 64 + code (s ! 0) mod 64, 2)
           else if \<not> isCont (s ! 1) then (RuneError, 1)
           else if width = 3 then (code c mod 16 * 4096 + code (s ! 0) mod 64 * 64 + code (s ! 1) mod 64, 3)
           else if \<not> isCont (s ! 2) then (RuneError, 1)
           else (code c mod 8 * 262144 + code (s ! 0) mod 64 * 4096 + code (s ! 1) mod 64 * 64
                   + code (s ! 2) mod 64, 4)))"

definition runeStart :: "char \<Rightarrow> bool" where
  "runeStart c = (\<not> isCont c)"

text \<open>The last start byte among the last two, three or four bytes decides.\<close>

definition decodeLastRune :: "string \<Rightarrow> nat \<times> nat" where
  "decodeLastRune s =
     (if s = [] then (RuneError, 0)
      else if isAscii (last s) then (code (last s), 1)
      else case find (\<lambda>k. k \<le> length s \<and> runeStart (s ! (length s - k))) [2, 3, 4] of
        None \<Rightarrow> (RuneError, 1)
      | Some k \<Rightarrow>
          (case decodeRune (drop (length s - k) s) of (r, width) \<Rightarrow>
             if width = k then (r, width) else (RuneError, 1)))"

definition byte :: "nat \<Rightarrow> char" where
  "byte n = char_of n"

definition encodeRune :: "nat \<Rightarrow> string" where
  "encodeRune r =
     (if r < 0x80 then [byte r]
      else if r < 0x800 then [byte (0xC0 + r div 64), byte (0x80 + r mod 64)]
      else if r > 0x10FFFF \<or> (0xD800 \<le> r \<and> r \<le> 0xDFFF) then [byte 0xEF, byte 0xBF, byte 0xBD]
      else if r < 0x10000 then [byte (0xE0 + r div 4096), byte (0x80 + r div 64 mod 64), byte (0x80 + r mod 64)]
      else [byte (0xF0 + r div 262144), byte (0x80 + r div 4096 mod 64), byte (0x80 + r div 64 mod 64),
            byte (0x80 + r mod 64)])"

lemma decodeRune_ascii [simp]: "isAscii c \<Longrightarrow> decodeRune (c # s) = (code c, 1)"
  by simp

lemma encodeRune_ascii [simp]: "isAscii c \<Longrightarrow> encodeRune (code c) = [c]"
  by (simp add: encodeRune_def isAscii_def byte_def)

lemma firstByte_width: "firstByte b = Some (w, lo, hi) \<Longrightarrow> w = 2 \<or> w = 3 \<or> w = 4"
  by (simp add: firstByte_def split: if_splits)

lemma decodeRune_width: "s \<noteq> [] \<Longrightarrow> 0 < snd (decodeRune s) \<and> snd (decodeRune s) \<le> length s"
  by (cases s) (auto simp: Suc_le_eq dest: firstByte_width split: option.splits prod.splits if_splits)

lemma decodeLastRune_width:
  assumes "s \<noteq> []"
  shows "0 < snd (decodeLastRune s)" and "snd (decodeLastRune s) \<le> length s"
proof -
  have "k \<in> {2, 3, 4} \<and> k \<le> length s"
    if "find (\<lambda>k. k \<le> length s \<and> runeStart (s ! (length s - k))) [2, 3, 4] = Some k" for k
    using find_Some_holds [OF that] by auto
  then show "0 < snd (decodeLastRune s)" "snd (decodeLastRune s) \<le> length s"
    using assms
    by (auto simp: decodeLastRune_def Suc_le_eq simp del: find.simps split: option.splits if_splits prod.splits)
qed

lemma decodeLastRune_shrinks: "s \<noteq> [] \<Longrightarrow> length s - snd (decodeLastRune s) < length s"
  using decodeLastRune_width(1) [of s] by (cases s) simp_all

subsection \<open>strings.TrimSpace on bytes\<close>

definition isSpaceRune :: "nat \<Rightarrow> bool" where
  "isSpaceRune r = ((9 \<le> r \<and> r \<le> 13) \<or> r \<in> {32, 133, 160, 0x1680, 0x2028, 0x2029, 0x202F, 0x205F, 0x3000}
     \<or> (0x2000 \<le> r \<and> r \<le> 0x200A))"

function trimLeftSpace :: "string \<Rightarrow> string" where
  "trimLeftSpace s =
     (if s \<noteq> [] \<and> isSpaceRune (fst (decodeRune s)) then trimLeftSpace (drop (snd (decodeRune s)) s) else s)"
  by pat_completeness auto
termination
  by (relation "measure length") (use decodeRune_width in \<open>auto simp: diff_less\<close>)

function trimRightSpace :: "string \<Rightarrow> string" where
  "trimRightSpace s =
     (if s \<noteq> [] \<and> isSpaceRune (fst (decodeLastRune s))
      then trimRightSpace (take (length s - snd (decodeLastRune s)) s) else s)"
  by pat_completeness auto
termination
  by (relation "measure length") (auto simp: min_def decodeLastRune_shrinks not_le)

declare trimLeftSpace.simps [simp del] trimRightSpace.simps [simp del]

definition trimSpaceU :: "string \<Rightarrow> string" where
  "trimSpaceU s = trimRightSpace (trimLeftSpace s)"

lemma isSpaceRune_ascii: "isAscii c \<Longrightarrow> isSpaceRune (code c) = isSpace c"
  by (auto simp: isSpaceRune_def isSpace_def isAscii_def Let_def)

lemma trimLeftSpace_ascii: "list_all isAscii s \<Longrightarrow> trimLeftSpace s = dropWhile isSpace s"
  by (induction s) (auto simp: trimLeftSpace.simps isSpaceRune_ascii)

lemma trimRightSpace_ascii: "list_all isAscii s \<Longrightarrow> trimRightSpace s = rev (dropWhile isSpace (rev s))"
proof (induction s rule: rev_induct)
  case (snoc c s)
  then show ?case
    by (subst trimRightSpace.simps) (simp add: decodeLastRune_def isSpaceRune_ascii)
qed (simp add: trimRightSpace.simps)

lemma list_all_dropWhile: "list_all p s \<Longrightarrow> list_all p (dropWhile q s)"
  by (induction s) auto

lemma trimSpaceU_ascii: "list_all isAscii s \<Longrightarrow> trimSpaceU s = trimSpace s"
  by (simp add: trimSpaceU_def trimLeftSpace_ascii trimRightSpace_ascii trimSpace_def list_all_dropWhile)

end
