(* ===== verification/IniEscape.thy ===== *)
theory IniEscape
  imports Utf8
begin

text \<open>
  The text of ini files, \<open>mods/util/ini/escape.go\<close>: inline comments, continued lines, and the escape
  sequences of values, on bytes.  The lemmas say what the readers of values do to a text that
  \<open>toEscape\<close> wrote.
\<close>

abbreviation BSL :: char where "BSL \<equiv> CHR 0x5C"

subsection \<open>Comments and continued lines\<close>

text \<open>
  The loop of \<open>removeComments\<close>: what stands before an inline comment.  The first argument is the byte
  before the current one, \<open>None\<close> at the start.
\<close>

fun cutComment :: "char option \<Rightarrow> string \<Rightarrow> string" where
  "cutComment p [] = []"
| "cutComment p (c # s) =
     (if c = BSL then (case s of [] \<Rightarrow> [c] | d # t \<Rightarrow> c # d # cutComment (Some d) t)
      else if (c = CHR '';'' \<or> c = CHR ''#'') \<and> (case p of Some q \<Rightarrow> isSpace q | None \<Rightarrow> False) then []
      else c # cutComment (Some c) s)"

definition removeComments :: "string \<Rightarrow> string" where
  "removeComments v = trimSpaceU (cutComment None v)"

text \<open>The loop of \<open>removeContinuationSuffix\<close> from the end: an odd number of backslashes.\<close>

fun oddBackslashes :: "string \<Rightarrow> bool" where
  "oddBackslashes [] = False"
| "oddBackslashes (c # s) =
     (c = BSL \<and> (case s of [] \<Rightarrow> True | d # t \<Rightarrow> (if d \<noteq> BSL then True else oddBackslashes t)))"

definition removeContinuationSuffix :: "string \<Rightarrow> string option" where
  "removeContinuationSuffix v = (if oddBackslashes (rev v) then Some (butlast v) else None)"

subsection \<open>Escape sequences\<close>

definition escapeChar :: "char \<Rightarrow> string" where
  "escapeChar c =
     (if code c = 0 then [BSL, CHR ''0'']
      else if c = BSL then [BSL, BSL]
      else if code c = 7 then [BSL, CHR ''a'']
      else if code c = 8 then [BSL, CHR ''b'']
      else if c = TAB then [BSL, CHR ''t'']
      else if c = CR then [BSL, CHR ''r'']
      else if c = NL then [BSL, CHR ''n'']
      else if c \<in> {CHR '';'', CHR ''#'', CHR ''='', CHR '':''} then [BSL, c]
      else [c])"

definition toEscape :: "string \<Rightarrow> string" where
  "toEscape s = concat (map escapeChar s)"

definition isOctChar :: "char \<Rightarrow> bool" where
  "isOctChar c = (48 \<le> code c \<and> code c \<le> 55)"

definition isHexChar :: "char \<Rightarrow> bool" where
  "isHexChar c = ((48 \<le> code c \<and> code c \<le> 57) \<or> (97 \<le> code c \<and> code c \<le> 102)
     \<or> (65 \<le> code c \<and> code c \<le> 70))"

definition hexValue :: "char \<Rightarrow> nat" where
  "hexValue c = (if code c \<le> 57 then code c - 48 else if code c \<le> 70 then code c - 55 else code c - 87)"

text \<open>
  The loop of \<open>fromEscape\<close>.  A byte that is not part of an escape sequence is written with the verb
  \<open>%c\<close>, as the code point of its number.  After \<open>\\x\<close> without four hexadecimal digits the loop has gone
  past the next byte.
\<close>

definition controlEscape :: "char \<Rightarrow> nat option" where
  "controlEscape d =
     map_of [(CHR ''0'', 0), (CHR ''a'', 7), (CHR ''b'', 8), (CHR ''f'', 12), (CHR ''t'', 9),
             (CHR ''r'', 13), (CHR ''n'', 10), (CHR ''v'', 11)] d"

fun unescape :: "string \<Rightarrow> string" where
  "unescape [] = []"
| "unescape (c # s) =
     (if c \<noteq> BSL then encodeRune (code c) @ unescape s
      else case s of
        [] \<Rightarrow> []
      | d # t \<Rightarrow>
          (if 2 \<le> length t \<and> isOctChar d \<and> isOctChar (t ! 0) \<and> isOctChar (t ! 1)
           then encodeRune ((code d - 48) * 64 + (code (t ! 0) - 48) * 8 + (code (t ! 1) - 48)) @ unescape (drop 2 t)
           else case controlEscape d of
             Some n \<Rightarrow> byte n # unescape t
           | None \<Rightarrow>
               (if d = CHR ''x''
                then (if 4 \<le> length t \<and> list_all isHexChar (take 4 t)
                      then encodeRune (foldl (\<lambda>n h. n * 16 + hexValue h) 0 (take 4 t)) @ unescape (drop 4 t)
                      else unescape (drop 1 t))
                else encodeRune (code d) @ unescape t)))"

definition fromEscape :: "string \<Rightarrow> string" where
  "fromEscape v = (if BSL \<notin> set v then v else unescape v)"

subsection \<open>What the readers do to escaped text\<close>

lemma escapeChar_cases:
  obtains (plain) "escapeChar c = [c]" "c \<noteq> BSL" "c \<notin> {CHR '';'', CHR ''#'', CHR ''='', CHR '':'', NL, CR, TAB}" "code c \<noteq> 0"
  | (escaped) d where "escapeChar c = [BSL, d]" "d \<noteq> BSL \<or> c = BSL" "\<not> isSpace d" "isAscii d" "d \<noteq> NL"
proof (cases "code c = 0 \<or> c = BSL \<or> code c = 7 \<or> code c = 8 \<or> c = TAB \<or> c = CR \<or> c = NL
    \<or> c \<in> {CHR '';'', CHR ''#'', CHR ''='', CHR '':''}")
  case True
  then have "\<exists>d. escapeChar c = [BSL, d] \<and> (d \<noteq> BSL \<or> c = BSL) \<and> \<not> isSpace d \<and> isAscii d \<and> d \<noteq> NL"
    by (auto simp: escapeChar_def isSpace_def isAscii_def code_def NL_def TAB_def CR_def Let_def)
  with escaped show thesis by blast
next
  case False
  with plain show thesis by (auto simp: escapeChar_def)
qed

lemma toEscape_simps [simp]: "toEscape [] = []" "toEscape (c # s) = escapeChar c @ toEscape s"
  "toEscape (s @ t) = toEscape s @ toEscape t"
  by (simp_all add: toEscape_def)

lemma escapeChar_nonempty [simp]: "escapeChar c \<noteq> []"
  by (simp add: escapeChar_def)

lemma toEscape_empty [simp]: "(toEscape v = []) = (v = [])"
  by (cases v) simp_all

lemma toEscape_ascii: "list_all isAscii v \<Longrightarrow> list_all isAscii (toEscape v)"
proof (induction v)
  case (Cons c v)
  then show ?case by (cases c rule: escapeChar_cases) (simp_all add: isAscii_def code_def)
qed simp

lemma toEscape_no_newline: "NL \<notin> set (toEscape v)"
proof (induction v)
  case (Cons c v)
  then show ?case by (cases c rule: escapeChar_cases) (auto simp: NL_def)
qed simp

lemma cutComment_toEscape: "cutComment p (toEscape v) = toEscape v"
proof (induction v arbitrary: p)
  case (Cons c v)
  then show ?case by (cases c rule: escapeChar_cases) simp_all
qed simp

lemma oddBackslashes_toEscape: "\<not> oddBackslashes (rev (toEscape v))"
proof (induction v rule: rev_induct)
  case (snoc c v)
  then show ?case by (cases c rule: escapeChar_cases) auto
qed simp

lemma removeContinuation_toEscape [simp]: "removeContinuationSuffix (toEscape v) = None"
  by (simp add: removeContinuationSuffix_def oddBackslashes_toEscape)

lemma escapeChar_solid: "\<not> isSpace c \<Longrightarrow> \<not> isSpace (hd (escapeChar c)) \<and> \<not> isSpace (last (escapeChar c))"
  by (cases c rule: escapeChar_cases) (simp_all add: isSpace_def code_def)

lemma toEscape_hd: "v \<noteq> [] \<Longrightarrow> hd (toEscape v) = hd (escapeChar (hd v))"
  by (cases v) (simp_all add: hd_append)

lemma toEscape_last: "v \<noteq> [] \<Longrightarrow> last (toEscape v) = last (escapeChar (last v))"
  by (cases v rule: rev_cases) (simp_all add: last_append)

lemma toEscape_trimmed: "trimmed v \<Longrightarrow> trimmed (toEscape v)"
  by (simp add: trimmed_def toEscape_hd toEscape_last escapeChar_solid)

text \<open>\<open>unescape\<close> reads a NUL byte before two octal digits as one octal sequence.\<close>

fun reread :: "string \<Rightarrow> string" where
  "reread (c # a # b # s) =
     (if code c = 0 \<and> isOctChar a \<and> isOctChar b
      then byte ((code a - 48) * 8 + (code b - 48)) # reread s else c # reread (a # b # s))"
| "reread [c, a] = [c, a]"
| "reread [c] = [c]"
| "reread [] = []"

fun octal_nul :: "string \<Rightarrow> bool" where
  "octal_nul (c # a # b # s) = ((code c = 0 \<and> isOctChar a \<and> isOctChar b) \<or> octal_nul (a # b # s))"
| "octal_nul _ = False"

lemma reread_length: "length (reread v) \<le> length v"
  by (induction v rule: reread.induct) (auto intro: le_SucI)

lemma reread_id_iff: "(reread v = v) = (\<not> octal_nul v)"
proof (induction v rule: octal_nul.induct)
  case (1 c a b s)
  have "length (reread s) < length (a # b # s)"
    using reread_length [of s] by simp
  then have "reread s \<noteq> a # b # s"
    by auto
  with 1 show ?case by auto
qed auto

lemma isOct_chars: "isOctChar c \<Longrightarrow> c \<in> set ''01234567''"
proof -
  assume "isOctChar c"
  then have "code c \<in> set [48..<56]"
    by (auto simp: isOctChar_def)
  moreover have "\<forall>n \<in> set [48..<56]. byte n \<in> set ''01234567''"
    by code_simp
  ultimately have "byte (code c) \<in> set ''01234567''"
    by blast
  then show ?thesis
    by (simp add: byte_def)
qed

lemma isOct_escape [simp]: "isOctChar c \<Longrightarrow> escapeChar c = [c]"
proof -
  assume "isOctChar c"
  moreover have "\<forall>c \<in> set ''01234567''. escapeChar c = [c]"
    by code_simp
  ultimately show ?thesis
    using isOct_chars by blast
qed

lemma not_isOct_BSL [simp]: "\<not> isOctChar BSL"
  by (simp add: isOctChar_def code_def)

lemma isOct_hd_escape: "isOctChar (hd (escapeChar c)) = isOctChar c"
proof (cases "isOctChar c")
  case False
  then show ?thesis
    by (cases c rule: escapeChar_cases) (simp_all only: list.sel not_isOct_BSL)
qed (simp only: isOct_escape list.sel)

lemma unescape_plain: "c \<noteq> BSL \<Longrightarrow> isAscii c \<Longrightarrow> unescape (c # s) = c # unescape s"
  by simp

declare unescape.simps(2) [simp del]

lemma octal_after_nul:
  "(2 \<le> length (toEscape w) \<and> isOctChar (toEscape w ! 0) \<and> isOctChar (toEscape w ! 1)) =
     (case w of a # b # s \<Rightarrow> isOctChar a \<and> isOctChar b | _ \<Rightarrow> False)"
proof (cases w)
  case (Cons a r)
  obtain x xs where x: "escapeChar a = x # xs"
    by (cases "escapeChar a") simp_all
  show ?thesis
  proof (cases "isOctChar a")
    case True
    then have w: "toEscape w = a # toEscape r"
      using Cons by simp
    show ?thesis
    proof (cases r)
      case (Cons b s)
      obtain y ys where y: "escapeChar b = y # ys"
        by (cases "escapeChar b") simp_all
      then have "isOctChar y = isOctChar b"
        using isOct_hd_escape [of b] by simp
      then show ?thesis
        by (simp add: w Cons y True \<open>w = a # r\<close>)
    qed (simp add: True \<open>w = a # r\<close>)
  next
    case False
    then have "\<not> isOctChar x"
      using isOct_hd_escape [of a] x by simp
    then have "\<not> isOctChar (toEscape w ! 0)"
      using x Cons by simp
    then show ?thesis
      using False Cons by (cases r) (simp_all only: simp_thms list.case)
  qed
qed simp

text \<open>The escaped bytes are read back one by one, but for NUL.\<close>

lemma escaped_bytes:
  assumes "escapeChar c = [BSL, d]" and "code c \<noteq> 0"
  shows "(d, c) \<in> {(BSL, BSL), (CHR ''a'', byte 7), (CHR ''b'', byte 8), (CHR ''t'', TAB), (CHR ''r'', CR),
    (CHR ''n'', NL), (CHR '';'', CHR '';''), (CHR ''#'', CHR ''#''), (CHR ''='', CHR ''=''), (CHR '':'', CHR '':'')}"
proof -
  have "c = byte n" if "code c = n" for n
    using that by (auto simp: byte_def)
  then show ?thesis
    using assms unfolding escapeChar_def by (simp split: if_split_asm)
qed

lemma unescape_pairs:
  "\<forall>(d, c) \<in> {(BSL, BSL), (CHR ''a'', byte 7), (CHR ''b'', byte 8), (CHR ''t'', TAB), (CHR ''r'', CR),
    (CHR ''n'', NL), (CHR '';'', CHR '';''), (CHR ''#'', CHR ''#''), (CHR ''='', CHR ''=''), (CHR '':'', CHR '':'')}.
   \<not> isOctChar d \<and> (case controlEscape d of Some n \<Rightarrow> byte n = c | None \<Rightarrow> d = c \<and> d \<noteq> CHR ''x'' \<and> isAscii d)"
  by code_simp

lemma unescape_escaped:
  assumes "escapeChar c = [BSL, d]" and "code c \<noteq> 0"
  shows "unescape (BSL # d # s) = c # unescape s"
  using bspec [OF unescape_pairs escaped_bytes [OF assms]]
  by (auto simp: unescape.simps(2) split: option.splits)

lemma unescape_nul:
  "unescape (BSL # CHR ''0'' # s) =
     (if 2 \<le> length s \<and> isOctChar (s ! 0) \<and> isOctChar (s ! 1)
      then encodeRune ((code (s ! 0) - 48) * 8 + (code (s ! 1) - 48)) @ unescape (drop 2 s)
      else byte 0 # unescape s)"
  by (simp add: unescape.simps(2) controlEscape_def isOctChar_def [of "CHR ''0''"] code_def [of "CHR ''0''"])

lemma escapeChar_0: "code c = 0 \<Longrightarrow> escapeChar c = [BSL, CHR ''0'']"
  by (simp add: escapeChar_def)

text \<open>A value that was written is read back, but for NUL bytes in front of two octal digits.\<close>

lemma unescape_toEscape: "list_all isAscii v \<Longrightarrow> unescape (toEscape v) = reread v"
proof (induction v rule: length_induct)
  case (1 v)
  note IH = 1(1) [rule_format]
  show ?case
  proof (cases v)
    case (Cons c w)
    show ?thesis
    proof (cases "code c = 0")
      case False
      have "unescape (toEscape v) = c # unescape (toEscape w)"
        using Cons 1(2) False by (cases c rule: escapeChar_cases)
          (simp_all add: unescape_plain unescape_escaped)
      moreover have "reread v = c # reread w"
        using Cons False by (cases w rule: reread.cases) simp_all
      ultimately show ?thesis
        using IH [of w] Cons 1(2) by simp
    next
      case True
      then have u: "unescape (toEscape v) =
          (if 2 \<le> length (toEscape w) \<and> isOctChar (toEscape w ! 0) \<and> isOctChar (toEscape w ! 1)
           then encodeRune ((code (toEscape w ! 0) - 48) * 8 + (code (toEscape w ! 1) - 48))
                  @ unescape (drop 2 (toEscape w))
           else byte 0 # unescape (toEscape w))"
        by (simp add: Cons escapeChar_0 unescape_nul)
      have c: "byte 0 = c"
        using True by (metis byte_def char_of_code)
      show ?thesis
      proof (cases "case w of a # b # s \<Rightarrow> isOctChar a \<and> isOctChar b | _ \<Rightarrow> False")
        case oct: True
        then obtain a b s where w: "w = a # b # s" "isOctChar a" "isOctChar b"
          by (auto split: list.splits)
        have "encodeRune ((code a - 48) * 8 + (code b - 48)) = [byte ((code a - 48) * 8 + (code b - 48))]"
        proof -
          have "code a - 48 \<le> 7" "code b - 48 \<le> 7"
            using w(2,3) unfolding isOctChar_def by linarith+
          then have "(code a - 48) * 8 + (code b - 48) < 0x80"
            by linarith
          then show ?thesis
            by (simp add: encodeRune_def)
        qed
        with u w show ?thesis
          using IH [of s] Cons True 1(2) by (simp add: octal_after_nul)
      next
        case False
        then have "unescape (toEscape v) = c # unescape (toEscape w)"
          using u by (simp only: octal_after_nul c if_False)
        moreover have "reread v = c # reread w"
          using False Cons by (cases w rule: reread.cases) auto
        ultimately show ?thesis
          using IH [of w] Cons 1(2) by simp
      qed
    qed
  qed simp
qed

lemma fromEscape_toEscape:
  assumes "list_all isAscii v"
  shows "fromEscape (toEscape v) = reread v"
proof (cases "BSL \<in> set (toEscape v)")
  case False
  then have "toEscape v = v"
  proof (induction v)
    case (Cons c v)
    then show ?case by (cases c rule: escapeChar_cases) auto
  qed simp
  moreover have "unescape v = v" if "BSL \<notin> set v" "list_all isAscii v" for v
    using that
  proof (induction v)
    case (Cons c v)
    then have "c \<noteq> BSL" by auto
    with Cons show ?case by (simp add: unescape_plain)
  qed simp
  ultimately show ?thesis
    using False assms unescape_toEscape [OF assms] by (simp add: fromEscape_def)
qed (simp add: fromEscape_def unescape_toEscape [OF assms])

end
