(* ===== verification/IniKeys.thy ===== *)
theory IniKeys
  imports IniEscape IntText
begin

text \<open>
  Keys, sections and the ini object, \<open>mods/util/ini/key.go\<close>, \<open>section.go\<close> and \<open>ini.go\<close>.  A Go function
  that returns \<open>(value, error)\<close> here is a pair of the value and the error, since a conversion that is out
  of range returns both.  Go maps are maps; where the code ranges over a map the order is an argument.
  The parser of floating-point numbers is an argument too.
\<close>

datatype ini_error = NoSuchKey string | NoSuchSection string | NumError num_error | LineTooLong | FileError

type_synonym 'a answer = "'a \<times> ini_error option"

subsection \<open>strconv with base prefixes and underscores\<close>

text \<open>\<open>strconv.ParseUint(s, 0, bits)\<close>: the base is given by a prefix, underscores separate digits.\<close>

fun parseUintBits :: "nat \<Rightarrow> nat \<Rightarrow> nat \<Rightarrow> string \<Rightarrow> nat \<times> num_error option" where
  "parseUintBits bits base n [] = (n, None)"
| "parseUintBits bits base n (c # cs) =
     (if c = CHR ''_'' then parseUintBits bits base n cs
      else case digitValue c of
        None \<Rightarrow> (0, Some ErrSyntax)
      | Some d \<Rightarrow>
          (if base \<le> d then (0, Some ErrSyntax)
           else if 2 ^ bits \<le> n * base + d then (2 ^ bits - 1, Some ErrRange)
           else parseUintBits bits base (n * base + d) cs))"

text \<open>\<open>underscoreOK\<close>: the state is the kind of the last character: start, digit, underscore, other.\<close>

fun underscoreLoop :: "bool \<Rightarrow> char \<Rightarrow> string \<Rightarrow> bool" where
  "underscoreLoop hex i [] = (i \<noteq> CHR ''_'')"
| "underscoreLoop hex i (c # s) =
     (if isDigit c \<or> (hex \<and> isHexChar c) then underscoreLoop hex CHR ''0'' s
      else if c = CHR ''_'' then (if i \<noteq> CHR ''0'' then False else underscoreLoop hex CHR ''_'' s)
      else if i = CHR ''_'' then False
      else underscoreLoop hex CHR ''!'' s)"

definition basePrefix :: "string \<Rightarrow> (nat \<times> string) option" where
  "basePrefix s =
     (case s of
        z # p # t \<Rightarrow>
          (if z \<noteq> CHR ''0'' then None
           else if p \<in> {CHR ''b'', CHR ''B''} then Some (2, t)
           else if p \<in> {CHR ''o'', CHR ''O''} then Some (8, t)
           else if p \<in> {CHR ''x'', CHR ''X''} then Some (16, t)
           else None)
      | _ \<Rightarrow> None)"

definition underscoreOK :: "string \<Rightarrow> bool" where
  "underscoreOK s0 =
     (let s = (if s0 \<noteq> [] \<and> hd s0 \<in> {CHR ''-'', CHR ''+''} then tl s0 else s0) in
      case basePrefix s of
        Some (b, t) \<Rightarrow> underscoreLoop (b = 16) CHR ''0'' t
      | None \<Rightarrow> underscoreLoop False CHR ''^'' s)"

definition ParseUint0 :: "string \<Rightarrow> nat \<Rightarrow> nat \<times> num_error option" where
  "ParseUint0 s bits =
     (if s = [] then (0, Some ErrSyntax)
      else (let (base, t) =
                  (case basePrefix s of
                     Some (b, t) \<Rightarrow> if t \<noteq> [] then (b, t) else (8, tl s)
                   | None \<Rightarrow> if hd s = CHR ''0'' then (8, tl s) else (10, s))
            in case parseUintBits bits base 0 t of
                 (n, None) \<Rightarrow> if CHR ''_'' \<in> set t \<and> \<not> underscoreOK s then (0, Some ErrSyntax) else (n, None)
               | r \<Rightarrow> r))"

definition ParseInt0 :: "string \<Rightarrow> nat \<Rightarrow> int \<times> num_error option" where
  "ParseInt0 s bits =
     (if s = [] then (0, Some ErrSyntax)
      else (let neg = (hd s = CHR ''-'');
                t = (if hd s \<in> {CHR ''+'', CHR ''-''} then tl s else s)
            in case ParseUint0 t bits of
                 (un, Some ErrSyntax) \<Rightarrow> (0, Some ErrSyntax)
               | (un, e) \<Rightarrow>
                   (if \<not> neg \<and> 2 ^ (bits - 1) \<le> un then (2 ^ (bits - 1) - 1, Some ErrRange)
                    else if neg \<and> 2 ^ (bits - 1) < un then (- (2 ^ (bits - 1)), Some ErrRange)
                    else (if neg then - int un else int un, None))))"

subsection \<open>Keys (key.go)\<close>

datatype ini_key = NonExistKey string | NormalKey string string

definition numAnswer :: "'a \<times> num_error option \<Rightarrow> 'a answer" where
  "numAnswer r = (fst r, map_option NumError (snd r))"

fun Key_Name :: "ini_key \<Rightarrow> string" where
  "Key_Name (NonExistKey n) = n"
| "Key_Name (NormalKey n v) = n"

fun Key_Value :: "ini_key \<Rightarrow> string answer" where
  "Key_Value (NonExistKey n) = ([], Some (NoSuchKey n))"
| "Key_Value (NormalKey n v) = (v, None)"

fun Key_ValueWithDefault :: "ini_key \<Rightarrow> string \<Rightarrow> string" where
  "Key_ValueWithDefault (NonExistKey n) d = d"
| "Key_ValueWithDefault (NormalKey n v) d = v"

definition trueBoolValue :: "string set" where
  "trueBoolValue = {''true'', ''t'', ''yes'', ''y'', ''1'', ''on''}"

text \<open>No character above ASCII has a lower case that occurs in these words.\<close>

fun Key_Bool :: "ini_key \<Rightarrow> bool answer" where
  "Key_Bool (NonExistKey n) = (False, Some (NoSuchKey n))"
| "Key_Bool (NormalKey n v) = (map toLowerAscii v \<in> trueBoolValue, None)"

fun Key_Int :: "ini_key \<Rightarrow> int answer" where
  "Key_Int (NonExistKey n) = (0, Some (NoSuchKey n))"
| "Key_Int (NormalKey n v) = numAnswer (ParseInt v 10)"

fun Key_Uint :: "ini_key \<Rightarrow> nat answer" where
  "Key_Uint (NonExistKey n) = (0, Some (NoSuchKey n))"
| "Key_Uint (NormalKey n v) = numAnswer (ParseUint0 v 32)"

fun Key_Int64 :: "ini_key \<Rightarrow> int answer" where
  "Key_Int64 (NonExistKey n) = (0, Some (NoSuchKey n))"
| "Key_Int64 (NormalKey n v) = numAnswer (ParseInt0 v 64)"

text \<open>\<open>Float32\<close> and \<open>Float64\<close>: \<open>parse\<close> is \<open>strconv.ParseFloat\<close> of the width, \<open>zero\<close> is 0.\<close>

fun Key_Float :: "(string \<Rightarrow> 'f \<times> num_error option) \<Rightarrow> 'f \<Rightarrow> ini_key \<Rightarrow> 'f answer" where
  "Key_Float parse zero (NonExistKey n) = (zero, Some (NoSuchKey n))"
| "Key_Float parse zero (NormalKey n v) = numAnswer (parse v)"

text \<open>The other accessors with a default.\<close>

definition orDefault :: "'a answer \<Rightarrow> 'a \<Rightarrow> 'a" where
  "orDefault r d = (case r of (v, Some e) \<Rightarrow> d | (v, None) \<Rightarrow> v)"

fun Key_BoolWithDefault :: "ini_key \<Rightarrow> bool \<Rightarrow> bool" where
  "Key_BoolWithDefault (NonExistKey n) d = d"
| "Key_BoolWithDefault (NormalKey n v) d = orDefault (Key_Bool (NormalKey n v)) d"

fun Key_IntWithDefault :: "ini_key \<Rightarrow> int \<Rightarrow> int" where
  "Key_IntWithDefault (NonExistKey n) d = d"
| "Key_IntWithDefault (NormalKey n v) d = orDefault (Key_Int (NormalKey n v)) d"

fun Key_UintWithDefault :: "ini_key \<Rightarrow> nat \<Rightarrow> nat" where
  "Key_UintWithDefault (NonExistKey n) d = d"
| "Key_UintWithDefault (NormalKey n v) d = orDefault (Key_Uint (NormalKey n v)) d"

fun Key_Int64WithDefault :: "ini_key \<Rightarrow> int \<Rightarrow> int" where
  "Key_Int64WithDefault (NonExistKey n) d = d"
| "Key_Int64WithDefault (NormalKey n v) d = orDefault (Key_Int64 (NormalKey n v)) d"

fun Key_FloatWithDefault ::
  "(string \<Rightarrow> 'f \<times> num_error option) \<Rightarrow> 'f \<Rightarrow> ini_key \<Rightarrow> 'f \<Rightarrow> 'f" where
  "Key_FloatWithDefault parse zero (NonExistKey n) d = d"
| "Key_FloatWithDefault parse zero (NormalKey n v) d = orDefault (Key_Float parse zero (NormalKey n v)) d"

fun Key_String :: "ini_key \<Rightarrow> string" where
  "Key_String (NonExistKey n) = []"
| "Key_String (NormalKey n v) = n @ CHR ''='' # toEscape v"

subsection \<open>Sections (section.go)\<close>

record ini_section =
  is_Name :: string
  is_keys :: "string \<rightharpoonup> ini_key"

definition NewSection :: "string \<Rightarrow> ini_section" where
  "NewSection name = \<lparr>is_Name = name, is_keys = Map.empty\<rparr>"

definition Section_Add :: "string \<Rightarrow> string \<Rightarrow> ini_section \<Rightarrow> ini_section" where
  "Section_Add key v sect = sect\<lparr>is_keys := (is_keys sect)(key \<mapsto> NormalKey key v)\<rparr>"

definition Section_HasKey :: "ini_section \<Rightarrow> string \<Rightarrow> bool" where
  "Section_HasKey sect key = (is_keys sect key \<noteq> None)"

definition Section_Key :: "ini_section \<Rightarrow> string \<Rightarrow> ini_key" where
  "Section_Key sect key = (case is_keys sect key of Some k \<Rightarrow> k | None \<Rightarrow> NonExistKey key)"

text \<open>\<open>Write\<close> into a buffer, which never fails; \<open>order\<close> is the order in which the keys are ranged over.\<close>

definition Section_String :: "string list \<Rightarrow> ini_section \<Rightarrow> string" where
  "Section_String order sect =
     CHR ''['' # is_Name sect @ [CHR '']'', NL]
       @ concat (map (\<lambda>k. case is_keys sect k of Some key \<Rightarrow> Key_String key @ [NL] | None \<Rightarrow> []) order)"

subsection \<open>The ini object (ini.go)\<close>

record ini =
  in_defaultSectionName :: string
  in_sections :: "string \<rightharpoonup> ini_section"

definition Ini_New :: ini where
  "Ini_New = \<lparr>in_defaultSectionName = ''default'', in_sections = Map.empty\<rparr>"

definition SetDefaultSectionName :: "string \<Rightarrow> ini \<Rightarrow> ini" where
  "SetDefaultSectionName n i = i\<lparr>in_defaultSectionName := n\<rparr>"

definition Ini_NewSection :: "string \<Rightarrow> ini \<Rightarrow> ini" where
  "Ini_NewSection name i =
     (case in_sections i name of
        Some s \<Rightarrow> i
      | None \<Rightarrow> i\<lparr>in_sections := (in_sections i)(name \<mapsto> NewSection name)\<rparr>)"

definition AddSection :: "ini_section \<Rightarrow> ini \<Rightarrow> ini" where
  "AddSection sect i = i\<lparr>in_sections := (in_sections i)(is_Name sect \<mapsto> sect)\<rparr>"

definition Ini_Section :: "ini \<Rightarrow> string \<Rightarrow> (ini_error, ini_section) res" where
  "Ini_Section i name = (case in_sections i name of Some s \<Rightarrow> Ok s | None \<Rightarrow> Err (NoSuchSection name))"

definition HasSection :: "ini \<Rightarrow> string \<Rightarrow> bool" where
  "HasSection i name = (in_sections i name \<noteq> None)"

definition Ini_HasKey :: "ini \<Rightarrow> string \<Rightarrow> string \<Rightarrow> bool" where
  "Ini_HasKey i name key = (case in_sections i name of Some s \<Rightarrow> Section_HasKey s key | None \<Rightarrow> False)"

text \<open>The shape all accessors share: the accessor of the key in its section, or that there is no such section.\<close>

definition GetValue :: "ini \<Rightarrow> string \<Rightarrow> string \<Rightarrow> string answer" where
  "GetValue i name key =
     (case in_sections i name of
        Some s \<Rightarrow> Key_Value (Section_Key s key) | None \<Rightarrow> ([], Some (NoSuchSection name)))"

definition GetValueWithDefault :: "ini \<Rightarrow> string \<Rightarrow> string \<Rightarrow> string \<Rightarrow> string" where
  "GetValueWithDefault i name key d =
     (case in_sections i name of Some s \<Rightarrow> Key_ValueWithDefault (Section_Key s key) d | None \<Rightarrow> d)"

definition GetBool :: "ini \<Rightarrow> string \<Rightarrow> string \<Rightarrow> bool answer" where
  "GetBool i name key =
     (case in_sections i name of
        Some s \<Rightarrow> Key_Bool (Section_Key s key) | None \<Rightarrow> (False, Some (NoSuchSection name)))"

definition GetBoolWithDefault :: "ini \<Rightarrow> string \<Rightarrow> string \<Rightarrow> bool \<Rightarrow> bool" where
  "GetBoolWithDefault i name key d =
     (case in_sections i name of Some s \<Rightarrow> Key_BoolWithDefault (Section_Key s key) d | None \<Rightarrow> d)"

definition GetInt :: "ini \<Rightarrow> string \<Rightarrow> string \<Rightarrow> int answer" where
  "GetInt i name key =
     (case in_sections i name of
        Some s \<Rightarrow> Key_Int (Section_Key s key) | None \<Rightarrow> (0, Some (NoSuchSection name)))"

definition GetIntWithDefault :: "ini \<Rightarrow> string \<Rightarrow> string \<Rightarrow> int \<Rightarrow> int" where
  "GetIntWithDefault i name key d =
     (case in_sections i name of Some s \<Rightarrow> Key_IntWithDefault (Section_Key s key) d | None \<Rightarrow> d)"

definition GetUint :: "ini \<Rightarrow> string \<Rightarrow> string \<Rightarrow> nat answer" where
  "GetUint i name key =
     (case in_sections i name of
        Some s \<Rightarrow> Key_Uint (Section_Key s key) | None \<Rightarrow> (0, Some (NoSuchSection name)))"

definition GetUintWithDefault :: "ini \<Rightarrow> string \<Rightarrow> string \<Rightarrow> nat \<Rightarrow> nat" where
  "GetUintWithDefault i name key d =
     (case in_sections i name of Some s \<Rightarrow> Key_UintWithDefault (Section_Key s key) d | None \<Rightarrow> d)"

definition GetInt64 :: "ini \<Rightarrow> string \<Rightarrow> string \<Rightarrow> int answer" where
  "GetInt64 i name key =
     (case in_sections i name of
        Some s \<Rightarrow> Key_Int64 (Section_Key s key) | None \<Rightarrow> (0, Some (NoSuchSection name)))"

definition GetInt64WithDefault :: "ini \<Rightarrow> string \<Rightarrow> string \<Rightarrow> int \<Rightarrow> int" where
  "GetInt64WithDefault i name key d =
     (case in_sections i name of Some s \<Rightarrow> Key_Int64WithDefault (Section_Key s key) d | None \<Rightarrow> d)"

definition GetFloat ::
  "(string \<Rightarrow> 'f \<times> num_error option) \<Rightarrow> 'f \<Rightarrow> ini \<Rightarrow> string \<Rightarrow> string \<Rightarrow> 'f answer" where
  "GetFloat parse zero i name key =
     (case in_sections i name of
        Some s \<Rightarrow> Key_Float parse zero (Section_Key s key) | None \<Rightarrow> (zero, Some (NoSuchSection name)))"

definition GetFloatWithDefault ::
  "(string \<Rightarrow> 'f \<times> num_error option) \<Rightarrow> 'f \<Rightarrow> ini \<Rightarrow> string \<Rightarrow> string \<Rightarrow> 'f \<Rightarrow> 'f" where
  "GetFloatWithDefault parse zero i name key d =
     (case in_sections i name of Some s \<Rightarrow> Key_FloatWithDefault parse zero (Section_Key s key) d | None \<Rightarrow> d)"

text \<open>\<open>Write\<close> and \<open>String\<close>; \<open>order\<close> lists the sections as they are ranged over, each with its keys.\<close>

definition Ini_String :: "(string \<times> string list) list \<Rightarrow> ini \<Rightarrow> string" where
  "Ini_String order i =
     concat (map (\<lambda>(name, keys). case in_sections i name of Some s \<Rightarrow> Section_String keys s | None \<Rightarrow> []) order)"

subsection \<open>Stores\<close>

text \<open>
  What clients rely on in sections and in the ini object: what is put under a name is found there again,
  in the form the store keeps it, and nothing else changes.
\<close>

locale store =
  fixes look :: "'s \<Rightarrow> 'k \<Rightarrow> 'w option"
    and put :: "'k \<Rightarrow> 'v \<Rightarrow> 's \<Rightarrow> 's"
    and entry :: "'k \<Rightarrow> 'v \<Rightarrow> 'w"
  assumes look_put: "look (put k v s) k' = (if k' = k then Some (entry k v) else look s k')"
begin

lemma look_puts:
  "look (fold (\<lambda>(k, v). put k v) kvs s) k =
     (case map_of (rev kvs) k of Some v \<Rightarrow> Some (entry k v) | None \<Rightarrow> look s k)"
  by (induction kvs rule: rev_induct) (auto simp: look_put split: option.splits)

text \<open>With distinct names the order of the insertions does not matter.\<close>

lemma look_puts_distinct:
  assumes "distinct (map fst kvs)"
  shows "look (fold (\<lambda>(k, v). put k v) kvs s) k =
     (case map_of kvs k of Some v \<Rightarrow> Some (entry k v) | None \<Rightarrow> look s k)"
proof -
  have "map_of (rev kvs) = map_of kvs"
    by (rule map_of_eqI) (use assms in \<open>auto simp: rev_map [symmetric]\<close>)
  then show ?thesis
    by (simp add: look_puts)
qed

end

interpretation sec: store is_keys Section_Add NormalKey
  by unfold_locales (simp add: Section_Add_def)

interpretation secs: store in_sections "\<lambda>name ks. AddSection \<lparr>is_Name = name, is_keys = ks\<rparr>"
    "\<lambda>name ks. \<lparr>is_Name = name, is_keys = ks\<rparr>"
  by unfold_locales (simp add: AddSection_def)

end
