(* ===== verification/IniLoad.thy ===== *)
theory IniLoad
  imports IniKeys
begin

text \<open>
  Reading ini text, \<open>mods/util/ini/loader.go\<close>, and replacing references in values, \<open>resolve.go\<close>.
\<close>

subsection \<open>Lines\<close>

text \<open>
  \<open>bufio.Scanner\<close> with \<open>ScanLines\<close>: the source as its raw lines still to be read.  A return at the end
  of a line is dropped, there is no empty last line, and a line that does not fit into the scanner's
  buffer of 64 KiB ends the reading with an error, which every later call reports again.
\<close>

definition scanBuffer :: nat where "scanBuffer = 65536"

definition rawLines :: "string \<Rightarrow> string list" where
  "rawLines src = (let ps = splitOn src NL in butlast ps @ (if last ps = [] then [] else [last ps]))"

definition dropCR :: "string \<Rightarrow> string" where
  "dropCR s = (if s \<noteq> [] \<and> last s = CR then butlast s else s)"

datatype read_error = EndOfFile | TooLong

definition readLineIni :: "string list \<Rightarrow> (read_error, string \<times> string list) res" where
  "readLineIni ls =
     (case ls of
        [] \<Rightarrow> Err EndOfFile
      | l # ls' \<Rightarrow> if scanBuffer \<le> length l then Err TooLong else Ok (dropCR l, ls'))"

definition hasSuffix :: "string \<Rightarrow> string \<Rightarrow> bool" where
  "hasSuffix s suf = hasPrefix (rev s) (rev suf)"

fun readLinesUntilSuffix :: "string \<Rightarrow> string list \<Rightarrow> string \<times> string list" where
  "readLinesUntilSuffix suffix [] = ([], [])"
| "readLinesUntilSuffix suffix (l # ls) =
     (if scanBuffer \<le> length l then ([], l # ls)
      else (let line = dropCR l; t = trimRightSpace line in
        if hasSuffix t suffix then (take (length t - length suffix) t, ls)
        else (case readLinesUntilSuffix suffix ls of (r, ls') \<Rightarrow> (line @ NL # r, ls'))))"

fun readContinuationLines :: "string list \<Rightarrow> string \<times> string list" where
  "readContinuationLines [] = ([], [])"
| "readContinuationLines (l # ls) =
     (if scanBuffer \<le> length l then ([], l # ls)
      else (let line = trimRightSpace (dropCR l) in
        case removeContinuationSuffix line of
          Some t \<Rightarrow> (case readContinuationLines ls of (r, ls') \<Rightarrow> (t @ r, ls'))
        | None \<Rightarrow> (line, ls)))"

lemma readLinesUntilSuffix_length: "length (snd (readLinesUntilSuffix suffix ls)) \<le> length ls"
  by (induction ls) (auto simp: Let_def split: prod.splits)

lemma readContinuationLines_length: "length (snd (readContinuationLines ls)) \<le> length ls"
  by (induction ls) (auto simp: Let_def split: prod.splits option.splits)

subsection \<open>Kinds of lines\<close>

definition getIndent :: "string \<Rightarrow> nat" where
  "getIndent s = length (takeWhile isSpace s)"

definition isCommentLine :: "string \<Rightarrow> bool" where
  "isCommentLine line = (let l = trimSpaceU line in l = [] \<or> hd l = CHR '';'' \<or> hd l = CHR ''#'')"

definition parseSectionName :: "string \<Rightarrow> string option" where
  "parseSectionName line =
     (let l = trimSpaceU line in
      if hasPrefix l ''['' \<and> hasSuffix l '']'' then Some (trimSpaceU (butlast (tl l))) else None)"

text \<open>\<open>strings.IndexAny(line, "=:")\<close>: the text before and after the first separator.\<close>

fun splitKey :: "string \<Rightarrow> (string \<times> string) option" where
  "splitKey [] = None"
| "splitKey (c # s) =
     (if c = CHR ''='' \<or> c = CHR '':'' then Some ([], s)
      else map_option (\<lambda>(k, v). (c # k, v)) (splitKey s))"

subsection \<open>Loading\<close>

text \<open>
  The variables of the loop of \<open>LoadReader\<close>: the ini object, the name of the current section (the code
  keeps a pointer to it), the indentation of the last key (\<open>None\<close> for -1) and the last key.
\<close>

record load_state =
  ld_ini :: ini
  ld_curSection :: "string option"
  ld_keyIndent :: "nat option"
  ld_prevKey :: string

definition loadInit :: "ini \<Rightarrow> load_state" where
  "loadInit i = \<lparr>ld_ini = i, ld_curSection = None, ld_keyIndent = None, ld_prevKey = []\<rparr>"

definition curKey :: "load_state \<Rightarrow> string \<Rightarrow> string \<Rightarrow> load_state" where
  "curKey st key v =
     (case ld_curSection st of
        None \<Rightarrow> st
      | Some n \<Rightarrow>
          (case in_sections (ld_ini st) n of
             None \<Rightarrow> st
           | Some s \<Rightarrow> st\<lparr>ld_ini := (ld_ini st)
               \<lparr>in_sections := (in_sections (ld_ini st))(n \<mapsto> Section_Add key v s)\<rparr>\<rparr>))"

definition curValue :: "load_state \<Rightarrow> string \<Rightarrow> string" where
  "curValue st key =
     (case ld_curSection st of
        None \<Rightarrow> []
      | Some n \<Rightarrow> GetValueWithDefault (ld_ini st) n key [])"

abbreviation TQ :: string where "TQ \<equiv> [CHR 0x22, CHR 0x22, CHR 0x22]"

text \<open>The value of a key: the rest of the line, more lines up to a closing mark, or continued lines.\<close>

definition readValue :: "string \<Rightarrow> string list \<Rightarrow> ('e, string \<times> string list) res" where
  "readValue value0 ls =
     (if hasPrefix value0 TQ
      then (let t = trimRightSpace value0 in
            if hasSuffix t TQ
            then (if length t < 6 then Panic else Ok (take (length t - 6) (drop 3 t), ls))
            else (case readLinesUntilSuffix TQ ls of (r, ls') \<Rightarrow> Ok (drop 3 value0 @ NL # r, ls')))
      else (let v = trimRightSpace value0 in
            case removeContinuationSuffix v of
              Some t \<Rightarrow> (case readContinuationLines ls of (r, ls') \<Rightarrow> Ok (t @ r, ls'))
            | None \<Rightarrow> Ok (v, ls)))"

definition loadKey :: "load_state \<Rightarrow> string \<Rightarrow> string \<Rightarrow> string list \<Rightarrow> string \<Rightarrow> ('e, load_state \<times> string list) res" where
  "loadKey st line k ls rest =
     (let key = trimSpaceU k;
          st1 = st\<lparr>ld_keyIndent := Some (getIndent line), ld_prevKey := key\<rparr>
      in rbind (readValue (trimLeftSpace rest) ls) (\<lambda>(v, ls').
           if key = [] then Ok (st1, ls')
           else (let n = in_defaultSectionName (ld_ini st1);
                     st2 = (if ld_curSection st1 = None \<and> n \<noteq> []
                            then st1\<lparr>ld_ini := Ini_NewSection n (ld_ini st1), ld_curSection := Some n\<rparr> else st1)
                 in Ok (curKey st2 key (trimSpaceU (fromEscape (removeComments v))), ls'))))"

definition loadLine :: "load_state \<Rightarrow> string \<Rightarrow> string list \<Rightarrow> ('e, load_state \<times> string list) res" where
  "loadLine st line ls =
     (if (case ld_keyIndent st of Some n \<Rightarrow> n < getIndent line | None \<Rightarrow> False)
         \<and> ld_curSection st \<noteq> None \<and> ld_prevKey st \<noteq> []
      then Ok (curKey st (ld_prevKey st)
             (curValue st (ld_prevKey st) @ NL # fromEscape (removeComments line)), ls)
      else if isCommentLine line then Ok (st, ls)
      else (case parseSectionName line of
              Some n \<Rightarrow> Ok (st\<lparr>ld_ini := Ini_NewSection n (ld_ini st), ld_curSection := Some n,
                             ld_prevKey := [], ld_keyIndent := None\<rparr>, ls)
            | None \<Rightarrow>
                (case splitKey line of
                   None \<Rightarrow> Ok (st, ls)
                 | Some (k, rest) \<Rightarrow> loadKey st line k ls rest)))"

lemma readValue_length: "readValue v ls = Ok (r, ls') \<Longrightarrow> length ls' \<le> length ls"
  using readLinesUntilSuffix_length [of TQ ls] readContinuationLines_length [of ls]
  by (auto simp: readValue_def Let_def split: if_splits prod.splits option.splits)

lemma loadLine_length: "loadLine st line ls = Ok (st', ls') \<Longrightarrow> length ls' \<le> length ls"
  by (auto simp: loadLine_def loadKey_def rbind_Ok_iff Let_def
      split: if_splits prod.splits option.splits dest: readValue_length)

function loadLoop :: "load_state \<Rightarrow> string list \<Rightarrow> ('e, ini answer) res" where
  "loadLoop st ls =
     (case readLineIni ls of
        Ok (line, ls') \<Rightarrow>
          (case loadLine st line ls' of
             Ok (st', ls'') \<Rightarrow> loadLoop st' ls''
           | Err e \<Rightarrow> Err e
           | Panic \<Rightarrow> Panic
           | NoFuel \<Rightarrow> NoFuel)
      | Err TooLong \<Rightarrow> Ok (ld_ini st, Some LineTooLong)
      | _ \<Rightarrow> Ok (ld_ini st, None))"
  by pat_completeness auto
termination
  by (relation "measure (\<lambda>(st, ls). length ls)")
    (auto simp: readLineIni_def split: list.splits if_splits dest!: loadLine_length)

declare loadLoop.simps [simp del]

text \<open>The object after the call, with what was read before an error, and the error.\<close>

definition LoadReader :: "ini \<Rightarrow> string \<Rightarrow> ('e, ini answer) res" where
  "LoadReader i src = loadLoop (loadInit i) (rawLines src)"

definition LoadBytes :: "ini \<Rightarrow> string \<Rightarrow> ('e, ini answer) res" where
  "LoadBytes i content = LoadReader i content"

definition LoadString :: "ini \<Rightarrow> string \<Rightarrow> ('e, ini answer) res" where
  "LoadString i content = LoadReader i content"

text \<open>A source, and what the file system says: whether a path exists, and the content it opens.\<close>

datatype ini_source = SrcString string | SrcReader string | SrcBytes string | SrcOther

definition LoadFile :: "(string \<Rightarrow> string option) \<Rightarrow> ini \<Rightarrow> string \<Rightarrow> ('e, ini answer) res" where
  "LoadFile openFile i filename =
     (case openFile filename of None \<Rightarrow> Ok (i, Some FileError) | Some content \<Rightarrow> LoadReader i content)"

fun Ini_Load ::
  "(string \<Rightarrow> bool) \<Rightarrow> (string \<Rightarrow> string option) \<Rightarrow> ini \<Rightarrow> ini_source list \<Rightarrow> ('e, ini answer) res" where
  "Ini_Load statOk openFile i [] = Ok (i, None)"
| "Ini_Load statOk openFile i (SrcString s # ss) =
     (if statOk s then LoadFile openFile i s else LoadString i s)"
| "Ini_Load statOk openFile i (SrcReader s # ss) = LoadReader i s"
| "Ini_Load statOk openFile i (SrcBytes s # ss) = LoadBytes i s"
| "Ini_Load statOk openFile i (SrcOther # ss) = Ini_Load statOk openFile i ss"

text \<open>The function \<open>Load\<close> drops the error.\<close>

definition Load :: "(string \<Rightarrow> bool) \<Rightarrow> (string \<Rightarrow> string option) \<Rightarrow> ini_source list \<Rightarrow> ('e, ini) res" where
  "Load statOk openFile sources =
     rmap fst (Ini_Load statOk openFile (SetDefaultSectionName ''default'' Ini_New) sources)"

subsection \<open>References (resolve.go)\<close>

text \<open>
  The loop of \<open>replace\<close>.  \<open>collect\<close> is the text since the last opening of a reference, reversed;
  \<open>None\<close> outside one.  \<open>value\<close> is the text a name stands for.  The result is the replaced text and whether
  the last reference was resolved.
\<close>

fun replaceLoop ::
  "(string \<Rightarrow> ('e, string option) res) \<Rightarrow> bool \<Rightarrow> string option \<Rightarrow> string \<Rightarrow> ('e, string \<times> bool) res" where
  "replaceLoop val resolved collect [] = Ok ([], resolved)"
| "replaceLoop val resolved (Some name) (c # s) =
     (if c \<noteq> CHR ''}'' then replaceLoop val resolved (Some (c # name)) s
      else rbind (val (rev name)) (\<lambda>v.
        rmap (\<lambda>(t, r). ((case v of Some x \<Rightarrow> x | None \<Rightarrow> ''${'' @ rev name @ ''}'') @ t, r))
          (replaceLoop val (v \<noteq> None) None s)))"
| "replaceLoop val resolved None (c # s) =
     (if c = BSL then
        (case s of
           [] \<Rightarrow> Ok ([c], resolved)
         | d # t \<Rightarrow> rmap (\<lambda>(u, r). (c # d # u, r)) (replaceLoop val resolved None t))
      else if c = CHR ''$'' \<and> s \<noteq> [] \<and> hd s = CHR ''{'' then replaceLoop val resolved (Some []) (tl s)
      else rmap (\<lambda>(u, r). (c # u, r)) (replaceLoop val resolved None s))"

definition sectionReference :: "string \<Rightarrow> (string \<times> string) option" where
  "sectionReference name =
     (case indexOf name CHR ''.'' of
        None \<Rightarrow> None
      | Some p \<Rightarrow> if p < length name - 1 then Some (take p name, drop (Suc p) name) else None)"

text \<open>
  What a reference stands for before it is replaced in turn: a key of a section, a predefined name, a
  variable of the environment that is not empty.
\<close>

definition referenceText ::
  "ini \<Rightarrow> (string \<rightharpoonup> string) \<Rightarrow> (string \<Rightarrow> string) option \<Rightarrow> string \<Rightarrow> string option" where
  "referenceText i predefs getenv name =
     (case sectionReference name of
        Some (s, k) \<Rightarrow>
          (if Ini_HasKey i s k then Some (GetValueWithDefault i s k [])
           else (case predefs name of
                   Some v \<Rightarrow> Some v
                 | None \<Rightarrow> (case getenv of Some env \<Rightarrow> if env name \<noteq> [] then Some (env name) else None | None \<Rightarrow> None)))
      | None \<Rightarrow>
          (case predefs name of
             Some v \<Rightarrow> Some v
           | None \<Rightarrow> (case getenv of Some env \<Rightarrow> if env name \<noteq> [] then Some (env name) else None | None \<Rightarrow> None)))"

text \<open>\<open>replace\<close>; the fuel bounds the depth of its calls of itself.  The flag of an inner call is not used.\<close>

fun replaceIni ::
  "nat \<Rightarrow> ini \<Rightarrow> (string \<rightharpoonup> string) \<Rightarrow> (string \<Rightarrow> string) option \<Rightarrow> string \<Rightarrow> ('e, string \<times> bool) res" where
  "replaceIni 0 i predefs getenv s = NoFuel"
| "replaceIni (Suc n) i predefs getenv s =
     (if \<not> containsStr s ''${'' then Ok (s, False)
      else replaceLoop (\<lambda>name. case referenceText i predefs getenv name of
                          None \<Rightarrow> Ok None
                        | Some v \<Rightarrow> rmap (\<lambda>(t, r). Some t) (replaceIni n i predefs getenv v))
             False None s)"

text \<open>\<open>Resolve\<close> ranges over the sections and their keys in the given order and writes as it goes.\<close>

definition resolveKey ::
  "nat \<Rightarrow> (string \<rightharpoonup> string) \<Rightarrow> (string \<Rightarrow> string) option \<Rightarrow> string \<Rightarrow> string \<Rightarrow> ini \<Rightarrow> ('e, ini) res" where
  "resolveKey n predefs getenv name key i =
     (case in_sections i name of
        None \<Rightarrow> Ok i
      | Some s \<Rightarrow>
          (case is_keys s key of
             None \<Rightarrow> Ok i
           | Some k \<Rightarrow>
               rbind (replaceIni n i predefs getenv (fst (Key_Value k))) (\<lambda>(t, resolved).
                 Ok (if resolved
                     then i\<lparr>in_sections := (in_sections i)(name \<mapsto> Section_Add key t s)\<rparr> else i))))"

fun Resolve ::
  "nat \<Rightarrow> (string \<rightharpoonup> string) \<Rightarrow> (string \<Rightarrow> string) option \<Rightarrow> (string \<times> string) list \<Rightarrow> ini \<Rightarrow> ('e, ini) res" where
  "Resolve n predefs getenv [] i = Ok i"
| "Resolve n predefs getenv ((name, key) # order) i =
     rbind (resolveKey n predefs getenv name key i) (Resolve n predefs getenv order)"

end
