(* ===== verification/IniProps.thy ===== *)
theory IniProps
  imports IniLoad
begin

text \<open>
  The properties of ini files: what is written is read back, what the accessors return, how references
  are replaced, and where reading goes wrong.
\<close>

subsection \<open>What can be written\<close>

definition tidy :: "string \<Rightarrow> bool" where
  "tidy s = (list_all isAscii s \<and> (s = [] \<or> trimmed s))"

definition plain_section :: "string \<Rightarrow> bool" where
  "plain_section n = (tidy n \<and> NL \<notin> set n \<and> length n + 2 < scanBuffer)"

definition plain_key :: "string \<Rightarrow> bool" where
  "plain_key k = (tidy k \<and> k \<noteq> [] \<and> set k \<inter> {NL, CHR ''='', CHR '':''} = {} \<and> hd k \<notin> {CHR '';'', CHR ''#'', CHR ''[''})"

definition plain_value :: "string \<Rightarrow> bool" where
  "plain_value v = (tidy v \<and> \<not> hasPrefix v TQ \<and> \<not> octal_nul v)"

definition plain_entry :: "string \<Rightarrow> string \<Rightarrow> bool" where
  "plain_entry k v = (plain_key k \<and> plain_value v \<and> length k + length (toEscape v) + 1 < scanBuffer)"

lemma tidy_trim: "tidy s \<Longrightarrow> trimSpaceU s = s"
  by (auto simp: tidy_def trimSpaceU_ascii trimSpace_trimmed) (simp add: trimSpace_def)

lemma trimmed_sides:
  assumes "trimmed s" and "list_all isAscii s"
  shows "trimLeftSpace s = s" and "trimRightSpace s = s" and "getIndent s = 0" and "dropCR s = s"
proof -
  obtain c t where s: "s = c # t" "\<not> isSpace c"
    using assms(1) by (cases s) (auto simp: trimmed_def)
  then show "trimLeftSpace s = s" "getIndent s = 0"
    using assms(2) by (simp_all add: trimLeftSpace_ascii getIndent_def)
  obtain r d where "s = r @ [d]" "\<not> isSpace d"
    using assms(1) by (cases s rule: rev_cases) (auto simp: trimmed_def)
  then show "trimRightSpace s = s" "dropCR s = s"
    using assms(2) by (auto simp: trimRightSpace_ascii dropCR_def)
qed

lemma tidy_sides:
  assumes "tidy s"
  shows "trimLeftSpace s = s" and "trimRightSpace s = s"
  using assms trimmed_sides by (auto simp: tidy_def trimLeftSpace_ascii trimRightSpace_ascii)

lemma tidy_toEscape: "tidy v \<Longrightarrow> tidy (toEscape v)"
  by (auto simp: tidy_def toEscape_ascii toEscape_trimmed)

lemma hasPrefix_toEscape: "hasPrefix (toEscape v) TQ = hasPrefix v TQ"
proof -
  have q: "hd (escapeChar c) = CHR 0x22 \<longleftrightarrow> c = CHR 0x22" "c = CHR 0x22 \<Longrightarrow> escapeChar c = [c]" for c
    by (cases c rule: escapeChar_cases; auto simp: escapeChar_def code_def NL_def CR_def TAB_def)+
  have one: "hasPrefix (toEscape w) (CHR 0x22 # p) = (\<exists>w'. w = CHR 0x22 # w' \<and> hasPrefix (toEscape w') p)" for w p
  proof (cases w)
    case (Cons c w')
    obtain x xs where x: "escapeChar c = x # xs"
      by (cases "escapeChar c") simp_all
    then show ?thesis
      using q [of c] Cons by auto
  qed simp
  have two: "hasPrefix w (CHR 0x22 # p) = (\<exists>w'. w = CHR 0x22 # w' \<and> hasPrefix w' p)" for w p
    by (cases w) auto
  show ?thesis
    by (simp only: one) (simp only: two hasPrefix.simps(1))
qed

text \<open>What is read back of a written value.\<close>

lemma read_value:
  assumes "plain_value v"
  shows "readValue (trimLeftSpace (toEscape v)) ls = Ok (toEscape v, ls)"
    and "trimSpaceU (fromEscape (removeComments (toEscape v))) = v"
proof -
  have v: "tidy v" "tidy (toEscape v)" "list_all isAscii v"
    using assms tidy_toEscape [of v] by (auto simp: plain_value_def tidy_def)
  show "readValue (trimLeftSpace (toEscape v)) ls = Ok (toEscape v, ls)"
    using assms v by (simp add: readValue_def tidy_sides hasPrefix_toEscape plain_value_def Let_def)
  show "trimSpaceU (fromEscape (removeComments (toEscape v))) = v"
    using assms v reread_id_iff [of v]
    by (simp add: removeComments_def cutComment_toEscape tidy_trim fromEscape_toEscape plain_value_def)
qed

subsection \<open>The lines of a section\<close>

lemma splitKey_plain: "set k \<inter> {CHR ''='', CHR '':''} = {} \<Longrightarrow> splitKey (k @ CHR ''='' # r) = Some (k, r)"
  by (induction k) auto

definition keyLine :: "string \<Rightarrow> string \<Rightarrow> string" where
  "keyLine k v = k @ CHR ''='' # toEscape v"

definition sectionLine :: "string \<Rightarrow> string" where
  "sectionLine n = CHR ''['' # n @ [CHR '']'']"

lemma key_line:
  assumes "plain_entry k v"
  shows "trimmed (keyLine k v)" and "list_all isAscii (keyLine k v)"
    and "NL \<notin> set (keyLine k v)" and "length (keyLine k v) < scanBuffer"
    and "hd (keyLine k v) = hd k"
proof -
  have v: "tidy (toEscape v)"
    using assms by (simp add: plain_entry_def plain_value_def tidy_toEscape)
  show "trimmed (keyLine k v)"
    using assms v by (auto simp: plain_entry_def plain_key_def keyLine_def trimmed_def tidy_def isSpace_def code_def)
  show "list_all isAscii (keyLine k v)"
    using assms v by (auto simp: plain_entry_def plain_key_def keyLine_def tidy_def isAscii_def code_def)
  show "NL \<notin> set (keyLine k v)"
    using assms toEscape_no_newline [of v] by (auto simp: plain_entry_def plain_key_def keyLine_def NL_def)
  show "length (keyLine k v) < scanBuffer" "hd (keyLine k v) = hd k"
    using assms by (auto simp: plain_entry_def plain_key_def keyLine_def hd_append)
qed

lemma section_line:
  assumes "plain_section n"
  shows "trimmed (sectionLine n)" and "list_all isAscii (sectionLine n)"
    and "NL \<notin> set (sectionLine n)" and "length (sectionLine n) < scanBuffer"
  using assms
  by (auto simp: plain_section_def sectionLine_def trimmed_def tidy_def isSpace_def code_def isAscii_def NL_def)

definition calm :: "load_state \<Rightarrow> bool" where
  "calm st = (ld_keyIndent st = None \<or> ld_keyIndent st = Some 0)"

lemma calm_line: "calm st \<Longrightarrow> getIndent l = 0 \<Longrightarrow>
    (case ld_keyIndent st of Some n \<Rightarrow> n < getIndent l | None \<Rightarrow> False) = False"
  by (auto simp: calm_def)

lemma loadLine_section:
  assumes "plain_section n" and "calm st"
  shows "loadLine st (sectionLine n) ls =
    Ok (st\<lparr>ld_ini := Ini_NewSection n (ld_ini st), ld_curSection := Some n, ld_prevKey := [], ld_keyIndent := None\<rparr>, ls)"
proof -
  note l = section_line [OF assms(1)]
  have trim: "trimSpaceU (sectionLine n) = sectionLine n"
    using l by (simp add: tidy_trim tidy_def)
  have "parseSectionName (sectionLine n) = Some n"
    using assms(1) unfolding parseSectionName_def trim
    by (simp add: sectionLine_def hasSuffix_def tidy_trim plain_section_def)
  moreover have "\<not> isCommentLine (sectionLine n)"
    unfolding isCommentLine_def trim by (simp add: sectionLine_def)
  ultimately show ?thesis
    using calm_line [OF assms(2) trimmed_sides(3) [OF l(1,2)]] by (simp add: loadLine_def)
qed

lemma loadLine_key:
  assumes "plain_entry k v" and "calm st" and "ld_curSection st = Some n"
  shows "loadLine st (keyLine k v) ls =
    Ok (curKey (st\<lparr>ld_keyIndent := Some 0, ld_prevKey := k\<rparr>) k v, ls)"
proof -
  note l = key_line [OF assms(1)]
  have k: "plain_key k" "plain_value v"
    using assms(1) by (simp_all add: plain_entry_def)
  have trim: "trimSpaceU (keyLine k v) = keyLine k v"
    using l by (simp add: tidy_trim tidy_def)
  have "\<not> hasPrefix (keyLine k v) ''[''"
    using k(1) by (cases k) (simp_all add: plain_key_def keyLine_def)
  then have "parseSectionName (keyLine k v) = None"
    unfolding parseSectionName_def trim by simp
  moreover have "\<not> isCommentLine (keyLine k v)"
    using l(5) k(1) unfolding isCommentLine_def trim by (simp add: plain_key_def) (simp add: keyLine_def)
  moreover have "splitKey (keyLine k v) = Some (k, toEscape v)"
    using k(1) unfolding keyLine_def by (intro splitKey_plain) (auto simp: plain_key_def)
  ultimately show ?thesis
    using trimmed_sides(3) [OF l(1,2)] calm_line [OF assms(2) trimmed_sides(3) [OF l(1,2)]] assms(3) k
    by (simp add: read_value [OF k(2)] loadLine_def loadKey_def Let_def tidy_trim plain_key_def)
qed

subsection \<open>Whole files\<close>

lemma loadLoop_line:
  assumes "length l < scanBuffer" and "trimmed l" and "list_all isAscii l"
    and "loadLine st l ls = (Ok (st', ls) :: ('e, _) res)"
  shows "loadLoop st (l # ls) = (loadLoop st' ls :: ('e, _) res)"
  using assms trimmed_sides(4) [of l] by (subst loadLoop.simps) (simp add: readLineIni_def)

lemma load_keys:
  assumes "list_all (\<lambda>(k, v). plain_entry k v) kvs" and "calm st" and "ld_curSection st = Some n"
    and "in_sections (ld_ini st) n = Some s"
  shows "\<exists>st'. loadLoop st (map (\<lambda>(k, v). keyLine k v) kvs @ ls) = (loadLoop st' ls :: ('e, _) res) \<and> calm st'
     \<and> ld_ini st' = (ld_ini st)\<lparr>in_sections := (in_sections (ld_ini st))(n \<mapsto> fold (\<lambda>(k, v). Section_Add k v) kvs s)\<rparr>"
  using assms
proof (induction kvs arbitrary: st s)
  case Nil
  then show ?case by (intro exI [of _ st]) (simp add: map_upd_triv)
next
  case (Cons kv kvs)
  obtain k v where kv: "kv = (k, v)" by (cases kv)
  then have e: "plain_entry k v" using Cons.prems(1) by simp
  let ?st = "curKey (st\<lparr>ld_keyIndent := Some 0, ld_prevKey := k\<rparr>) k v"
  have st: "ld_curSection ?st = Some n" "calm ?st"
    "ld_ini ?st = (ld_ini st)\<lparr>in_sections := (in_sections (ld_ini st))(n \<mapsto> Section_Add k v s)\<rparr>"
    using Cons.prems by (simp_all add: curKey_def calm_def)
  have step: "loadLoop st (keyLine k v # map (\<lambda>(k, v). keyLine k v) kvs @ ls) =
      (loadLoop ?st (map (\<lambda>(k, v). keyLine k v) kvs @ ls) :: ('e, _) res)"
    by (rule loadLoop_line [OF key_line(4,1,2) [OF e] loadLine_key [OF e Cons.prems(2,3)]])
  have "list_all (\<lambda>(k, v). plain_entry k v) kvs" "in_sections (ld_ini ?st) n = Some (Section_Add k v s)"
    using Cons.prems(1) st(3) by simp_all
  from Cons.IH [OF this(1) st(2,1) this(2)] obtain st' where
    "loadLoop ?st (map (\<lambda>(k, v). keyLine k v) kvs @ ls) = (loadLoop st' ls :: ('e, _) res)" "calm st'"
    "ld_ini st' = (ld_ini ?st)\<lparr>in_sections := (in_sections (ld_ini ?st))
       (n \<mapsto> fold (\<lambda>(k, v). Section_Add k v) kvs (Section_Add k v s))\<rparr>"
    by blast
  with step st(3) show ?case
    by (intro exI [of _ st']) (simp add: kv fun_upd_def cong: if_cong)
qed

definition addTo :: "string \<Rightarrow> (string \<times> string) list \<Rightarrow> ini \<Rightarrow> ini" where
  "addTo n kvs j = j\<lparr>in_sections := (in_sections j)(n \<mapsto> fold (\<lambda>(k, v). Section_Add k v) kvs
     (case in_sections j n of Some s \<Rightarrow> s | None \<Rightarrow> NewSection n))\<rparr>"

definition sectionLines :: "string \<times> (string \<times> string) list \<Rightarrow> string list" where
  "sectionLines sec = sectionLine (fst sec) # map (\<lambda>(k, v). keyLine k v) (snd sec)"

definition plain_section_entries :: "string \<times> (string \<times> string) list \<Rightarrow> bool" where
  "plain_section_entries sec = (plain_section (fst sec) \<and> list_all (\<lambda>(k, v). plain_entry k v) (snd sec))"

lemma load_section:
  assumes "plain_section_entries (n, kvs)" and "calm st"
  shows "\<exists>st'. loadLoop st (sectionLines (n, kvs) @ ls) = (loadLoop st' ls :: ('e, _) res) \<and> calm st'
     \<and> ld_ini st' = addTo n kvs (ld_ini st)"
proof -
  let ?st = "st\<lparr>ld_ini := Ini_NewSection n (ld_ini st), ld_curSection := Some n, ld_prevKey := [], ld_keyIndent := None\<rparr>"
  have n: "plain_section n" and kvs: "list_all (\<lambda>(k, v). plain_entry k v) kvs"
    using assms(1) by (simp_all add: plain_section_entries_def)
  have st: "calm ?st" "ld_curSection ?st = Some n"
    "in_sections (ld_ini ?st) n = Some (case in_sections (ld_ini st) n of Some s \<Rightarrow> s | None \<Rightarrow> NewSection n)"
    by (auto simp: calm_def Ini_NewSection_def split: option.splits)
  have step: "loadLoop st (sectionLine n # map (\<lambda>(k, v). keyLine k v) kvs @ ls) =
      (loadLoop ?st (map (\<lambda>(k, v). keyLine k v) kvs @ ls) :: ('e, _) res)"
    by (rule loadLoop_line [OF section_line(4,1,2) [OF n] loadLine_section [OF n assms(2)]])
  from load_keys [OF kvs st, of ls, where 'e = 'e] step show ?thesis
    by (auto simp: sectionLines_def addTo_def Ini_NewSection_def split: option.splits)
qed

lemma load_sections:
  "list_all plain_section_entries secs \<Longrightarrow> calm st \<Longrightarrow>
     loadLoop st (concat (map sectionLines secs)) =
       (Ok (fold (\<lambda>(n, kvs). addTo n kvs) secs (ld_ini st), None) :: ('e, _) res)"
proof (induction secs arbitrary: st)
  case Nil
  then show ?case by (simp add: loadLoop.simps readLineIni_def)
next
  case (Cons sec secs)
  obtain n kvs where sec: "sec = (n, kvs)" by (cases sec)
  then obtain st' where "loadLoop st (sectionLines (n, kvs) @ concat (map sectionLines secs)) =
      (loadLoop st' (concat (map sectionLines secs)) :: ('e, _) res)"
    "calm st'" "ld_ini st' = addTo n kvs (ld_ini st)"
    using Cons.prems load_section [of n kvs st "concat (map sectionLines secs)", where 'e = 'e] by auto
  with Cons.IH [of st'] Cons.prems(1) show ?case
    by (simp add: sec)
qed

lemma rawLines_lines:
  assumes "\<forall>l \<in> set ls. NL \<notin> set l"
  shows "rawLines (concat (map (\<lambda>l. l @ [NL]) ls)) = ls"
proof -
  have "splitOn (concat (map (\<lambda>l. l @ [NL]) ls)) NL = ls @ [[]]"
    using assms by (induction ls) (simp_all add: splitOn_append)
  then show ?thesis
    by (simp add: rawLines_def)
qed

text \<open>The sections and entries in the order in which they are written.\<close>

definition entriesOf :: "ini \<Rightarrow> (string \<times> string list) list \<Rightarrow> (string \<times> (string \<times> string) list) list" where
  "entriesOf i order = map (\<lambda>(n, ks). (n, map (\<lambda>k. (k, GetValueWithDefault i n k [])) ks)) order"

definition writable :: "ini \<Rightarrow> bool" where
  "writable i = (\<forall>n s. in_sections i n = Some s \<longrightarrow> is_Name s = n \<and> plain_section n
     \<and> (\<forall>k x. is_keys s k = Some x \<longrightarrow> (\<exists>v. x = NormalKey k v \<and> plain_entry k v)))"

definition enumerates :: "(string \<times> string list) list \<Rightarrow> ini \<Rightarrow> bool" where
  "enumerates order i = (distinct (map fst order) \<and> set (map fst order) = dom (in_sections i)
     \<and> (\<forall>(n, ks) \<in> set order. distinct ks \<and> (\<forall>s. in_sections i n = Some s \<longrightarrow> set ks = dom (is_keys s))))"

lemma written_entry:
  assumes "writable i" and "enumerates order i" and "(n, ks) \<in> set order"
  obtains s where "in_sections i n = Some s" "is_Name s = n" "plain_section n" "set ks = dom (is_keys s)"
    "\<And>k. k \<in> set ks \<Longrightarrow> is_keys s k = Some (NormalKey k (GetValueWithDefault i n k []))
      \<and> plain_entry k (GetValueWithDefault i n k [])"
proof -
  have "n \<in> set (map fst order)"
    using assms(3) by force
  then obtain s where s: "in_sections i n = Some s"
    using assms(2) unfolding enumerates_def by blast
  then have w: "is_Name s = n" "plain_section n" "\<And>k x. is_keys s k = Some x \<Longrightarrow> \<exists>v. x = NormalKey k v \<and> plain_entry k v"
    using assms(1) unfolding writable_def by blast+
  have ks: "set ks = dom (is_keys s)"
    using assms(2,3) s unfolding enumerates_def by blast
  show thesis
  proof (rule that [OF s w(1,2) ks])
    fix k
    assume "k \<in> set ks"
    then obtain v where "is_keys s k = Some (NormalKey k v)" "plain_entry k v"
      using ks w(3) by blast
    then show "is_keys s k = Some (NormalKey k (GetValueWithDefault i n k []))
        \<and> plain_entry k (GetValueWithDefault i n k [])"
      using s by (simp add: GetValueWithDefault_def Section_Key_def)
  qed
qed

lemma entries_plain:
  assumes "writable i" and "enumerates order i"
  shows "list_all plain_section_entries (entriesOf i order)"
proof -
  have "plain_section_entries (n, map (\<lambda>k. (k, GetValueWithDefault i n k [])) ks)"
    if mem: "(n, ks) \<in> set order" for n ks
    by (rule written_entry [OF assms mem]) (auto simp: plain_section_entries_def list_all_iff)
  then show ?thesis
    by (auto simp: entriesOf_def list_all_iff)
qed

lemma concat_lines: "concat (map (\<lambda>l. l @ [NL]) (concat lss)) = concat (map (\<lambda>ls. concat (map (\<lambda>l. l @ [NL]) ls)) lss)"
  by (induction lss) simp_all

lemma Ini_String_lines:
  assumes "writable i" and "enumerates order i"
  shows "Ini_String order i = concat (map (\<lambda>l. l @ [NL]) (concat (map sectionLines (entriesOf i order))))"
proof -
  have sec: "(case in_sections i n of Some s \<Rightarrow> Section_String ks s | None \<Rightarrow> []) =
      concat (map (\<lambda>l. l @ [NL]) (sectionLines (n, map (\<lambda>k. (k, GetValueWithDefault i n k [])) ks)))"
    if mem: "(n, ks) \<in> set order" for n ks
  proof (rule written_entry [OF assms mem])
    fix s
    assume s: "in_sections i n = Some s" "is_Name s = n"
      and ks: "\<And>k. k \<in> set ks \<Longrightarrow> is_keys s k = Some (NormalKey k (GetValueWithDefault i n k []))
        \<and> plain_entry k (GetValueWithDefault i n k [])"
    have "concat (map (\<lambda>k. case is_keys s k of Some key \<Rightarrow> Key_String key @ [NL] | None \<Rightarrow> []) ks) =
        concat (map (\<lambda>k. keyLine k (GetValueWithDefault i n k []) @ [NL]) ks)"
      using ks by (intro arg_cong [where f = concat] map_cong) (simp_all add: keyLine_def)
    then show ?thesis
      by (simp add: s Section_String_def sectionLines_def sectionLine_def o_def)
  qed
  have "map (\<lambda>(n, ks). case in_sections i n of Some s \<Rightarrow> Section_String ks s | None \<Rightarrow> []) order =
      map (\<lambda>sec. concat (map (\<lambda>l. l @ [NL]) (sectionLines sec))) (entriesOf i order)"
    using sec by (auto simp: entriesOf_def)
  then show ?thesis
    by (simp only: Ini_String_def concat_lines map_map o_def)
qed

text \<open>Adding entries of distinct sections one after the other.\<close>

lemma addTo_sections:
  "in_sections (addTo n kvs j) m = (if m = n then Some (fold (\<lambda>(k, v). Section_Add k v) kvs
     (case in_sections j n of Some s \<Rightarrow> s | None \<Rightarrow> NewSection n)) else in_sections j m)"
  by (simp add: addTo_def)

lemma addTo_default: "in_defaultSectionName (addTo n kvs j) = in_defaultSectionName j"
  by (simp add: addTo_def)

lemma fold_addTo:
  "distinct (map fst secs) \<Longrightarrow>
     in_sections (fold (\<lambda>(n, kvs). addTo n kvs) secs j) m =
       (case map_of secs m of
          None \<Rightarrow> in_sections j m
        | Some kvs \<Rightarrow> Some (fold (\<lambda>(k, v). Section_Add k v) kvs
            (case in_sections j m of Some s \<Rightarrow> s | None \<Rightarrow> NewSection m)))
     \<and> in_defaultSectionName (fold (\<lambda>(n, kvs). addTo n kvs) secs j) = in_defaultSectionName j"
proof (induction secs arbitrary: j)
  case (Cons sec secs)
  obtain n kvs where sec: "sec = (n, kvs)" by (cases sec)
  then have "map_of secs n = None"
    using Cons.prems by (simp add: map_of_eq_None_iff)
  then show ?case
    using Cons sec by (auto simp: addTo_sections addTo_default split: option.splits)
qed simp

lemma fold_Section_Add_Name: "is_Name (fold (\<lambda>(k, v). Section_Add k v) kvs s) = is_Name s"
  by (induction kvs arbitrary: s) (auto simp: Section_Add_def)

lemma written_keys:
  assumes "distinct ks" and "set ks = dom (is_keys s)"
    and "\<And>k. k \<in> set ks \<Longrightarrow> is_keys s k = Some (NormalKey k (val k))"
  shows "fold (\<lambda>(k, v). Section_Add k v) (map (\<lambda>k. (k, val k)) ks) base =
    base\<lparr>is_keys := is_keys base ++ is_keys s\<rparr>"
proof -
  have "distinct (map fst (map (\<lambda>k. (k, val k)) ks))"
    using assms(1) by (simp add: o_def)
  from sec.look_puts_distinct [OF this] have
    "is_keys (fold (\<lambda>(k, v). Section_Add k v) (map (\<lambda>k. (k, val k)) ks) base) k =
       (is_keys base ++ is_keys s) k" for k
  proof (cases "k \<in> set ks")
    case True
    then show ?thesis
      using sec.look_puts_distinct [OF \<open>distinct (map fst (map (\<lambda>k. (k, val k)) ks))\<close>] assms(3)
      by (simp add: map_of_map_restrict map_add_def)
  next
    case False
    then have "is_keys s k = None"
      using assms(2) by blast
    then show ?thesis
      using sec.look_puts_distinct [OF \<open>distinct (map fst (map (\<lambda>k. (k, val k)) ks))\<close>] False
      by (simp add: map_of_map_restrict map_add_def)
  qed
  then show ?thesis
    using fold_Section_Add_Name [of "map (\<lambda>k. (k, val k)) ks" base]
    by (intro ini_section.equality) auto
qed

definition mergedIni :: "ini \<Rightarrow> ini \<Rightarrow> ini" where
  "mergedIni j i = j\<lparr>in_sections := (\<lambda>n.
     case in_sections i n of
       None \<Rightarrow> in_sections j n
     | Some s \<Rightarrow> Some (case in_sections j n of
                     None \<Rightarrow> s
                   | Some s' \<Rightarrow> s'\<lparr>is_keys := is_keys s' ++ is_keys s\<rparr>))\<rparr>"

lemma fold_entries:
  assumes "writable i" and "enumerates order i"
  shows "fold (\<lambda>(n, kvs). addTo n kvs) (entriesOf i order) j = mergedIni j i"
proof -
  let ?es = "entriesOf i order"
  have d: "distinct (map fst ?es)"
    using assms(2) by (simp add: entriesOf_def enumerates_def o_def split_def)
  have "in_sections (fold (\<lambda>(n, kvs). addTo n kvs) ?es j) n = in_sections (mergedIni j i) n" for n
  proof (cases "in_sections i n")
    case None
    then have "n \<notin> set (map fst order)"
      using assms(2) unfolding enumerates_def by blast
    then have "map_of ?es n = None"
      by (simp add: map_of_eq_None_iff entriesOf_def image_image split_def)
    then show ?thesis
      using fold_addTo [OF d, of j n] None by (simp add: mergedIni_def)
  next
    case (Some s)
    then have "n \<in> set (map fst order)"
      using assms(2) unfolding enumerates_def by blast
    then obtain ks where mem: "(n, ks) \<in> set order"
      by auto
    let ?kvs = "map (\<lambda>k. (k, GetValueWithDefault i n k [])) ks"
    have "(n, ?kvs) \<in> set ?es"
      using mem by (force simp: entriesOf_def)
    then have es: "map_of ?es n = Some ?kvs"
      using d by (simp add: lookup_unique)
    have ks: "distinct ks"
      using assms(2) mem unfolding enumerates_def by blast
    show ?thesis
    proof (rule written_entry [OF assms mem])
      fix s'
      assume s': "in_sections i n = Some s'" "is_Name s' = n" "set ks = dom (is_keys s')"
        and vals: "\<And>k. k \<in> set ks \<Longrightarrow> is_keys s' k = Some (NormalKey k (GetValueWithDefault i n k []))
          \<and> plain_entry k (GetValueWithDefault i n k [])"
      have "fold (\<lambda>(k, v). Section_Add k v) ?kvs base = base\<lparr>is_keys := is_keys base ++ is_keys s'\<rparr>" for base
        using vals by (intro written_keys [OF ks s'(3)]) blast
      then show ?thesis
        using fold_addTo [OF d, of j n] es s' by (auto simp: mergedIni_def NewSection_def split: option.splits)
    qed
  qed
  moreover have "in_defaultSectionName (fold (\<lambda>(n, kvs). addTo n kvs) ?es j) = in_defaultSectionName j"
    using fold_addTo [OF d, of j undefined] by blast
  ultimately show ?thesis
    by (intro ini.equality) (auto simp: mergedIni_def)
qed


subsection \<open>Panics of the reader\<close>

lemma containsStr_iff: "containsStr s sub = (\<exists>p r. s = p @ sub @ r)"
proof (induction s)
  case (Cons c s)
  have "(\<exists>p r. c # s = p @ sub @ r) = ((\<exists>r. c # s = sub @ r) \<or> (\<exists>p r. s = p @ sub @ r))"
    by (metis append_Cons append_Nil append_eq_Cons_conv)
  with Cons show ?case
    by (simp add: hasPrefix_iff)
qed simp

lemma splitKey_parts: "splitKey line = Some (k, r) \<Longrightarrow> \<exists>c. line = k @ c # r"
  by (induction line arbitrary: k) (auto split: if_splits)

lemma trimLeftSpace_suffix: "\<exists>p. s = p @ trimLeftSpace s"
proof (induction s rule: trimLeftSpace.induct)
  case (1 s)
  show ?case
  proof (cases "s \<noteq> [] \<and> isSpaceRune (fst (decodeRune s))")
    case True
    with 1 obtain p where "drop (snd (decodeRune s)) s = p @ trimLeftSpace s"
      by (metis trimLeftSpace.simps)
    then have "s = (take (snd (decodeRune s)) s @ p) @ trimLeftSpace s"
      by (metis append.assoc append_take_drop_id)
    then show ?thesis by blast
  next
    case False
    then show ?thesis by (subst trimLeftSpace.simps) auto
  qed
qed

lemma readValue_no_panic: "\<not> hasPrefix v TQ \<Longrightarrow> \<exists>r. readValue v ls = Ok r"
  by (auto simp: readValue_def Let_def split: option.splits prod.splits)

lemma loadKey_no_panic:
  assumes "\<not> containsStr rest TQ"
  shows "\<exists>r. loadKey st line k ls rest = (Ok r :: ('e, _) res)"
proof -
  obtain p where "rest = p @ trimLeftSpace rest"
    using trimLeftSpace_suffix by blast
  then have "\<not> hasPrefix (trimLeftSpace rest) TQ"
    using assms unfolding containsStr_iff hasPrefix_iff by metis
  then obtain v ls' where "readValue (trimLeftSpace rest) ls = (Ok (v, ls') :: ('e, _) res)"
    using readValue_no_panic [of "trimLeftSpace rest" ls, where 'a = 'e] by (metis surj_pair)
  then show ?thesis
    by (simp add: loadKey_def Let_def)
qed

lemma loadLine_no_panic:
  assumes "\<not> containsStr line TQ"
  shows "\<exists>r. loadLine st line ls = (Ok r :: ('e, _) res)"
proof (cases "splitKey line")
  case (Some kr)
  obtain k rest where kr: "kr = (k, rest)" by (cases kr)
  then obtain c where "line = k @ c # rest"
    using splitKey_parts Some by blast
  then have "\<not> containsStr rest TQ"
    using assms unfolding containsStr_iff by (metis append.assoc append_Cons)
  from loadKey_no_panic [OF this, of st line k ls, where 'e = 'e] show ?thesis
    using Some kr by (auto simp: loadLine_def split: option.splits)
qed (auto simp: loadLine_def split: option.splits)

lemma dropCR_prefix: "\<exists>r. l = dropCR l @ r"
  by (metis append.right_neutral append_butlast_last_id dropCR_def)

lemma readers_rest:
  "set (snd (readLinesUntilSuffix suf ls)) \<subseteq> set ls" "set (snd (readContinuationLines ls)) \<subseteq> set ls"
  by (induction ls) (auto simp: Let_def split: prod.splits option.splits)

lemma loadLine_rest: "loadLine st line ls = Ok (st', ls') \<Longrightarrow> set ls' \<subseteq> set ls"
  using readers_rest(1) [of TQ ls] readers_rest(2) [of ls]
  by (auto simp: loadLine_def loadKey_def readValue_def rbind_Ok_iff Let_def
      split: if_splits prod.splits option.splits)

lemma loadLoop_no_panic:
  "\<forall>l \<in> set ls. \<not> containsStr l TQ \<Longrightarrow> \<exists>r. loadLoop st ls = (Ok r :: ('e, _) res)"
proof (induction st ls rule: loadLoop.induct [where ?'a = 'e])
  case (1 st ls)
  show ?case
  proof (cases "readLineIni ls")
    case (Ok a)
    then obtain l ls' where ls: "ls = l # ls'" "a = (dropCR l, ls')"
      by (auto simp: readLineIni_def split: list.splits if_splits)
    have "\<not> containsStr (dropCR l) TQ"
      using 1(2) ls dropCR_prefix [of l] unfolding containsStr_iff
      by (metis append.assoc list.set_intros(1))
    then obtain st' ls'' where line: "loadLine st (dropCR l) ls' = (Ok (st', ls'') :: ('e, _) res)"
      using loadLine_no_panic by (metis surj_pair)
    then have "\<forall>l \<in> set ls''. \<not> containsStr l TQ"
      using 1(2) ls loadLine_rest by fastforce
    with 1(1) [OF Ok ls(2) [symmetric] line refl] show ?thesis
      using Ok ls line by (subst loadLoop.simps) simp
  next
    case (Err e)
    then show ?thesis by (subst loadLoop.simps) (cases e; simp)
  qed (simp_all add: readLineIni_def split: list.splits if_splits)
qed

lemma readValue_mark: "readValue (trimLeftSpace TQ) ls = Panic"
proof -
  have "trimmed TQ" "list_all isAscii TQ"
    by code_simp+
  then show ?thesis
    by (simp add: readValue_def trimmed_sides hasSuffix_def)
qed

text \<open>
  Reading never panics and always returns where no line holds the mark of a value over several lines.
  A key whose value opens with the mark and goes on in the next line, the very format the mark is for,
  panics: the mark that opens the value is taken for the one that closes it.
\<close>

theorem LoadString_marks:
  "((\<forall>l \<in> set (rawLines src). \<not> containsStr l TQ) \<longrightarrow> (\<exists>r. LoadString j src = (Ok r :: (unit, _) res)))
   \<and> (plain_key k \<and> length k + 4 < scanBuffer \<longrightarrow>
        LoadString j (k @ CHR ''='' # TQ @ NL # rest) = (Panic :: (unit, _) res))"
proof (intro conjI impI)
  assume "\<forall>l \<in> set (rawLines src). \<not> containsStr l TQ"
  then show "\<exists>r. LoadString j src = (Ok r :: (unit, _) res)"
    using loadLoop_no_panic by (simp add: LoadString_def LoadReader_def)
next
  assume a: "plain_key k \<and> length k + 4 < scanBuffer"
  let ?l = "k @ CHR ''='' # TQ"
  have nl: "NL \<notin> set ?l"
    using a by (auto simp: plain_key_def NL_def)
  obtain ls where raw: "rawLines (?l @ NL # rest) = ?l # ls"
    using splitOn_append [OF nl, of rest] by (simp add: rawLines_def Let_def)
  have l: "trimmed ?l" "list_all isAscii ?l"
    using a by (auto simp: plain_key_def tidy_def trimmed_def isSpace_def code_def isAscii_def)
  have trim: "trimSpaceU ?l = ?l"
    using l by (simp add: tidy_trim tidy_def)
  have "\<not> hasPrefix ?l ''[''"
    using a by (cases k) (simp_all add: plain_key_def)
  then have "parseSectionName ?l = None"
    unfolding parseSectionName_def trim by simp
  moreover have "\<not> isCommentLine ?l"
    using a unfolding isCommentLine_def trim by (simp add: plain_key_def)
  moreover have "splitKey ?l = Some (k, TQ)"
    using a by (intro splitKey_plain) (auto simp: plain_key_def)
  moreover have "readValue (trimLeftSpace TQ) ls = (Panic :: (unit, _) res)"
    by (rule readValue_mark)
  ultimately have "loadLine (loadInit j) ?l ls = (Panic :: (unit, _) res)"
    by (simp add: loadLine_def loadInit_def loadKey_def Let_def)
  then show "LoadString j (k @ CHR ''='' # TQ @ NL # rest) = (Panic :: (unit, _) res)"
    using raw trimmed_sides(4) [OF l] a
    by (simp add: LoadString_def LoadReader_def) (subst loadLoop.simps, simp add: readLineIni_def)
qed

subsection \<open>Witnesses\<close>

text \<open>A section with two keys, one of them with a value that needs escapes.\<close>

definition sample_value :: string where
  "sample_value = ''a;b'' @ [NL, BSL] @ ''c''"

definition sample_ini :: ini where
  "sample_ini = AddSection (Section_Add ''k'' sample_value (Section_Add ''empty'' [] (NewSection ''s''))) Ini_New"

lemma sample_entries: "plain_section ''s'' \<and> plain_entry ''k'' sample_value \<and> plain_entry ''empty'' []"
proof -
  have "tidy ''s''" "plain_key ''k''" "plain_key ''empty''" "plain_value sample_value" "plain_value []"
    "NL \<notin> set ''s''"
    by code_simp+
  moreover have "length (toEscape sample_value) = 9"
    by code_simp
  ultimately show ?thesis
    by (simp add: plain_section_def plain_entry_def scanBuffer_def)
qed

lemma sample_writable: "writable sample_ini"
  using sample_entries
  by (auto simp: writable_def sample_ini_def AddSection_def Section_Add_def NewSection_def Ini_New_def split: if_splits)

lemma sample_enumerates: "enumerates [(''s'', [''k'', ''empty''])] sample_ini"
  by (auto simp: enumerates_def sample_ini_def AddSection_def Section_Add_def NewSection_def Ini_New_def)


lemma LoadString_marks_witness:
  "(\<exists>r. LoadString Ini_New ''a=1'' = (Ok r :: (unit, _) res))
   \<and> LoadString Ini_New (''k='' @ TQ @ [NL] @ ''text'' @ [NL] @ TQ) = (Panic :: (unit, _) res)"
proof -
  have "\<forall>l \<in> set (rawLines ''a=1''). \<not> containsStr l TQ" "plain_key ''k''"
    by code_simp+
  moreover have "length ''k'' + 4 < scanBuffer"
    by (simp add: scanBuffer_def)
  ultimately show ?thesis
    using LoadString_marks [of "''a=1''" Ini_New "''k''" "''text'' @ [NL] @ TQ"] by simp
qed

end
