(* ===== verification/IniRefs.thy ===== *)
theory IniRefs
  imports IniProps
begin

text \<open>
  References in values and the accessors of keys: what a text with references becomes, when replacing
  ends, and how the accessors agree.
\<close>

subsection \<open>The names a text refers to\<close>

fun refNames :: "string option \<Rightarrow> string \<Rightarrow> string list" where
  "refNames collect [] = []"
| "refNames (Some name) (c # s) =
     (if c \<noteq> CHR ''}'' then refNames (Some (c # name)) s else rev name # refNames None s)"
| "refNames None (c # s) =
     (if c = BSL then (case s of [] \<Rightarrow> [] | d # t \<Rightarrow> refNames None t)
      else if c = CHR ''$'' \<and> s \<noteq> [] \<and> hd s = CHR ''{'' then refNames (Some []) (tl s)
      else refNames None s)"

text \<open>The loop from inside a reference and from outside one.\<close>

lemma replaceLoop_close:
  "replaceLoop val b (Some name) (CHR ''}'' # s) =
     rbind (val (rev name)) (\<lambda>v. rmap (\<lambda>(t, r).
       ((case v of Some x \<Rightarrow> x | None \<Rightarrow> ''${'' @ rev name @ ''}'') @ t, r)) (replaceLoop val (v \<noteq> None) None s))"
  by simp

lemma replaceLoop_outside:
  fixes val :: "string \<Rightarrow> ('e, string option) res"
  obtains (escape) d t where "s = d # t" "c = BSL" "refNames None (c # s) = refNames None t"
      "\<And>b. replaceLoop val b None (c # s) = rmap (\<lambda>(u, r). (c # d # u, r)) (replaceLoop val b None t)"
  | (lone) "s = []" "c = BSL" "\<And>b. replaceLoop val b None (c # s) = Ok ([c], b)"
  | (opens) t where "c = CHR ''$''" "s = CHR ''{'' # t" "refNames None (c # s) = refNames (Some []) t"
      "\<And>b. replaceLoop val b None (c # s) = replaceLoop val b (Some []) t"
  | (plain) "refNames None (c # s) = refNames None s"
      "\<And>b. replaceLoop val b None (c # s) = rmap (\<lambda>(u, r). (c # u, r)) (replaceLoop val b None s)"
proof (cases "c = BSL")
  case True
  with escape lone show thesis by (cases s) simp_all
next
  case False
  show thesis
  proof (cases "c = CHR ''$'' \<and> s \<noteq> [] \<and> hd s = CHR ''{''")
    case True
    with opens show thesis by (cases s) simp_all
  next
    case no: False
    show thesis
      using False no by (intro plain) (simp_all only: refNames.simps replaceLoop.simps if_False)
  qed
qed

lemma replaceLoop_Ok:
  fixes val :: "string \<Rightarrow> ('e, string option) res"
  shows "(\<And>m. m \<in> set (refNames c s) \<Longrightarrow> \<exists>v. val m = Ok v) \<Longrightarrow> \<exists>t r. replaceLoop val b c s = Ok (t, r)"
proof (induction s arbitrary: b c rule: length_induct)
  case (1 s)
  note IH = 1(1) [rule_format]
  show ?case
  proof (cases s)
    case (Cons x s')
    show ?thesis
    proof (cases c)
      case (Some name)
      show ?thesis
      proof (cases "x = CHR ''}''")
        case True
        then obtain v where v: "val (rev name) = Ok v"
          using 1(2) [of "rev name"] Some Cons by auto
        moreover obtain t r where "replaceLoop val (v \<noteq> None) None s' = Ok (t, r)"
          using IH [of s' None "v \<noteq> None"] 1(2) True Some Cons by auto
        ultimately show ?thesis
          using True Some Cons by (simp add: replaceLoop_close del: replaceLoop.simps)
      qed (use IH [of s' "Some (x # name)" b] 1(2) Some Cons in auto)
    next
      case None
      show ?thesis
      proof (cases s' x rule: replaceLoop_outside [where val = val])
        case (escape d t)
        then show ?thesis
          using IH [of t None b] 1(2) None Cons by (auto simp del: replaceLoop.simps refNames.simps)
      next
        case (opens t)
        then show ?thesis
          using IH [of t "Some []" b] 1(2) None Cons by (auto simp del: replaceLoop.simps refNames.simps)
      next
        case plain
        then show ?thesis
          using IH [of s' None b] 1(2) None Cons by (auto simp del: replaceLoop.simps refNames.simps)
      qed (use None Cons in \<open>auto simp del: replaceLoop.simps\<close>)
    qed
  qed simp
qed

lemma replaceLoop_NoFuel:
  fixes val :: "string \<Rightarrow> ('e, string option) res"
  shows "(\<And>m. val m = NoFuel \<or> (\<exists>v. val m = Ok v)) \<Longrightarrow> name \<in> set (refNames c s) \<Longrightarrow> val name = NoFuel \<Longrightarrow>
     replaceLoop val b c s = NoFuel"
proof (induction s arbitrary: b c rule: length_induct)
  case (1 s)
  note IH = 1(1) [rule_format, OF _ 1(2) _ 1(4)]
  show ?case
  proof (cases s)
    case Nil
    with 1(3) show ?thesis by simp
  next
    case (Cons x s')
    show ?thesis
    proof (cases c)
      case (Some m)
      show ?thesis
      proof (cases "x = CHR ''}''")
        case True
        show ?thesis
        proof (cases "val (rev m)")
          case (Ok v)
          then have "name \<noteq> rev m"
            using 1(4) by auto
          then have "replaceLoop val (v \<noteq> None) None s' = NoFuel"
            using IH [of s' None] 1(3) True Some Cons by auto
          then show ?thesis
            using True Some Cons Ok by (simp add: replaceLoop_close del: replaceLoop.simps)
        qed (use 1(2) [of "rev m"] True Some Cons in \<open>auto simp: replaceLoop_close simp del: replaceLoop.simps\<close>)
      qed (use IH [of s' "Some (x # m)" b] 1(3) Some Cons in auto)
    next
      case None
      show ?thesis
      proof (cases s' x rule: replaceLoop_outside [where val = val])
        case (escape d t)
        then show ?thesis
          using IH [of t None b] 1(3) None Cons by (auto simp del: replaceLoop.simps refNames.simps)
      next
        case lone
        then show ?thesis
          using 1(3) None Cons by simp
      next
        case (opens t)
        then show ?thesis
          using IH [of t "Some []" b] 1(3) None Cons by (auto simp del: replaceLoop.simps refNames.simps)
      next
        case plain
        then show ?thesis
          using IH [of s' None b] 1(3) None Cons by (auto simp del: replaceLoop.simps refNames.simps)
      qed
    qed
  qed
qed

lemma refNames_dollar: "refNames None s \<noteq> [] \<Longrightarrow> containsStr s ''${''"
proof (induction s rule: length_induct)
  case (1 s)
  show ?case
  proof (cases s)
    case (Cons x s')
    show ?thesis
    proof (cases s' x rule: replaceLoop_outside [where val = "\<lambda>n. Ok None :: (unit, _) res"])
      case (escape d t)
      then show ?thesis
        using 1 Cons by (auto simp del: refNames.simps)
    next
      case plain
      then show ?thesis
        using 1 Cons by (auto simp del: refNames.simps)
    qed (use 1 Cons in auto)
  qed (use 1 in simp)
qed

subsection \<open>When replacing ends\<close>

lemma ex_false [simp]: "Ex Not"
  by (rule exI [of _ False]) simp

lemma replaceIni_quiet:
  "replaceIni n i ps env s = (NoFuel :: ('e, _) res) \<or> (\<exists>r. replaceIni n i ps env s = (Ok r :: ('e, _) res))"
proof (induction n arbitrary: s)
  case (Suc n)
  let ?val = "\<lambda>name. case referenceText i ps env name of None \<Rightarrow> Ok None
    | Some v \<Rightarrow> rmap (\<lambda>(t, r). Some t) (replaceIni n i ps env v :: ('e, _) res)"
  have val: "?val m = NoFuel \<or> (\<exists>v. ?val m = Ok v)" for m
  proof (cases "referenceText i ps env m")
    case (Some v)
    then show ?thesis
      using Suc [of v] by (auto split: prod.splits)
  qed simp
  show ?case
  proof (cases "\<exists>m \<in> set (refNames None s). ?val m = NoFuel")
    case True
    then obtain m where "m \<in> set (refNames None s)" "?val m = NoFuel"
      by blast
    from replaceLoop_NoFuel [of ?val, OF val this] show ?thesis
      by simp
  next
    case False
    then have "\<exists>v. ?val m = Ok v" if "m \<in> set (refNames None s)" for m
      using val that by blast
    from replaceLoop_Ok [of None s ?val False, OF this] show ?thesis
      by auto
  qed
qed simp

text \<open>
  C38: Replacing the references of a text ends exactly when no reference leads back to itself: where every
  reference only leads to references of smaller rank, more calls than the greatest rank are never
  nested; a reference whose text refers to itself is replaced without end, at any depth, which in the
  program overflows the stack.
\<close>

theorem replaceIni_ends:
  "((\<forall>name v. referenceText i ps env name = Some v \<longrightarrow> (\<forall>m \<in> set (refNames None v). rank m < (rank name :: nat)))
      \<and> (\<forall>m \<in> set (refNames None s). rank m < n)
      \<longrightarrow> (\<exists>t r. replaceIni (Suc n) i ps env s = (Ok (t, r) :: (unit, _) res)))
   \<and> (name \<in> set (refNames None s) \<and> referenceText i ps env name = Some v \<and> name \<in> set (refNames None v)
      \<longrightarrow> replaceIni fuel i ps env s = (NoFuel :: (unit, _) res))"
proof (intro conjI impI)
  assume "(\<forall>name v. referenceText i ps env name = Some v \<longrightarrow> (\<forall>m \<in> set (refNames None v). rank m < rank name))
      \<and> (\<forall>m \<in> set (refNames None s). rank m < n)"
  then have ranked: "\<And>name v m. referenceText i ps env name = Some v \<Longrightarrow> m \<in> set (refNames None v) \<Longrightarrow> rank m < rank name"
    and "\<forall>m \<in> set (refNames None s). rank m < n"
    by blast+
  from this(2) show "\<exists>t r. replaceIni (Suc n) i ps env s = (Ok (t, r) :: (unit, _) res)"
  proof (induction n arbitrary: s)
    case 0
    then have none: "refNames None s = []"
      by simp
    have "\<exists>t r. replaceLoop val False None s = (Ok (t, r) :: (unit, _) res)" for val
      by (rule replaceLoop_Ok) (simp add: none)
    then show ?case
      by simp
  next
    case (Suc n)
    let ?val = "\<lambda>m. case referenceText i ps env m of None \<Rightarrow> Ok None
        | Some v \<Rightarrow> rmap (\<lambda>(t, r). Some t) (replaceIni (Suc n) i ps env v :: (unit, _) res)"
    have "\<exists>x. ?val m = Ok x" if m: "m \<in> set (refNames None s)" for m
    proof (cases "referenceText i ps env m")
      case (Some v)
      have "rank m' < n" if "m' \<in> set (refNames None v)" for m'
        using ranked [OF Some that] Suc.prems m by fastforce
      then obtain t r where "replaceIni (Suc n) i ps env v = (Ok (t, r) :: (unit, _) res)"
        using Suc.IH by blast
      then show ?thesis
        by (simp only: Some option.case rmap.simps prod.case) blast
    qed simp
    from replaceLoop_Ok [of None s ?val False, OF this] show ?case
      by (subst replaceIni.simps) simp
  qed
next
  assume a: "name \<in> set (refNames None s) \<and> referenceText i ps env name = Some v \<and> name \<in> set (refNames None v)"
  have step: "replaceIni (Suc k) i ps env t = (NoFuel :: (unit, _) res)"
    if t: "name \<in> set (refNames None t)" and k: "replaceIni k i ps env v = (NoFuel :: (unit, _) res)" for k t
  proof -
    let ?val = "\<lambda>m. case referenceText i ps env m of None \<Rightarrow> Ok None
      | Some v \<Rightarrow> rmap (\<lambda>(t, r). Some t) (replaceIni k i ps env v :: (unit, _) res)"
    have "?val m = NoFuel \<or> (\<exists>x. ?val m = Ok x)" for m
      using replaceIni_quiet [of k i ps env "the (referenceText i ps env m)", where 'e = unit]
      by (cases "referenceText i ps env m") (auto split: prod.splits)
    moreover have "?val name = NoFuel"
      using a k by simp
    ultimately have "replaceLoop ?val False None t = NoFuel"
      using replaceLoop_NoFuel [of ?val name None t] t by blast
    moreover have "containsStr t ''${''"
      using refNames_dollar [of t] t by force
    ultimately show ?thesis
      by simp
  qed
  have v: "replaceIni k i ps env v = (NoFuel :: (unit, _) res)" for k
    using a step by (induction k) auto
  show "replaceIni fuel i ps env s = (NoFuel :: (unit, _) res)"
    using a step v by (cases fuel) auto
qed

subsection \<open>What a text becomes\<close>

datatype piece = Txt string | Ref string

fun renderPiece :: "piece \<Rightarrow> string" where
  "renderPiece (Txt t) = t"
| "renderPiece (Ref m) = ''${'' @ m @ ''}''"

fun goodPiece :: "piece \<Rightarrow> bool" where
  "goodPiece (Txt t) = (set t \<inter> {BSL, CHR ''$''} = {})"
| "goodPiece (Ref m) = (CHR ''}'' \<notin> set m)"

fun substPiece :: "(string \<Rightarrow> string option) \<Rightarrow> piece \<Rightarrow> string" where
  "substPiece sub (Txt t) = t"
| "substPiece sub (Ref m) = (case sub m of Some t \<Rightarrow> t | None \<Rightarrow> renderPiece (Ref m))"

text \<open>Whether the last reference was resolved.\<close>

fun lastResolved :: "(string \<Rightarrow> string option) \<Rightarrow> bool \<Rightarrow> piece list \<Rightarrow> bool" where
  "lastResolved sub b [] = b"
| "lastResolved sub b (Txt t # ps) = lastResolved sub b ps"
| "lastResolved sub b (Ref m # ps) = lastResolved sub (sub m \<noteq> None) ps"

lemma loop_text:
  "set t \<inter> {BSL, CHR ''$''} = {} \<Longrightarrow>
     replaceLoop val b None (t @ s) = rmap (\<lambda>(u, r). (t @ u, r)) (replaceLoop val b None s)"
proof (induction t)
  case Nil
  then show ?case by (cases "replaceLoop val b None s") auto
next
  case (Cons c t)
  then show ?case by (cases "replaceLoop val b None s") (auto split: prod.splits)
qed

lemma loop_name:
  "CHR ''}'' \<notin> set m \<Longrightarrow> replaceLoop val b (Some name) (m @ s) = replaceLoop val b (Some (rev m @ name)) s"
  by (induction m arbitrary: name) auto

lemma loop_pieces:
  "list_all goodPiece ps \<Longrightarrow> (\<And>m. Ref m \<in> set ps \<Longrightarrow> val m = Ok (sub m)) \<Longrightarrow>
     replaceLoop val b None (concat (map renderPiece ps)) =
       Ok (concat (map (substPiece sub) ps), lastResolved sub b ps)"
proof (induction ps arbitrary: b)
  case (Cons p ps)
  show ?case
  proof (cases p)
    case (Txt t)
    then show ?thesis
      using Cons by (simp add: loop_text)
  next
    case (Ref m)
    have "replaceLoop val b None (concat (map renderPiece (p # ps))) =
        replaceLoop val b (Some (rev m)) (CHR ''}'' # concat (map renderPiece ps))"
      using Ref Cons.prems(1) by (simp add: loop_name del: replaceLoop.simps(2))
    then show ?thesis
      using Ref Cons by (cases "sub m") (simp_all add: replaceLoop_close del: replaceLoop.simps)
  qed
qed simp

text \<open>
  A text of plain parts and references is replaced part by part; a reference nobody knows stays as it
  is.  The result says whether the last reference was resolved, whatever became of those before it.
\<close>

theorem replaceIni_pieces:
  assumes "list_all goodPiece ps" and "Ref r \<in> set ps"
    and "\<forall>m. Ref m \<in> set ps \<longrightarrow>
      (case referenceText i predefs env m of
         None \<Rightarrow> sub m = None
       | Some v \<Rightarrow> \<exists>t b. replaceIni n i predefs env v = (Ok (t, b) :: (unit, _) res) \<and> sub m = Some t)"
  shows "replaceIni (Suc n) i predefs env (concat (map renderPiece ps)) =
    (Ok (concat (map (substPiece sub) ps), lastResolved sub False ps) :: (unit, _) res)"
proof -
  let ?val = "\<lambda>m. case referenceText i predefs env m of None \<Rightarrow> Ok None
    | Some v \<Rightarrow> rmap (\<lambda>(t, r). Some t) (replaceIni n i predefs env v :: (unit, _) res)"
  have "?val m = Ok (sub m)" if "Ref m \<in> set ps" for m
    using assms(3) that by (fastforce split: option.splits)
  from loop_pieces [of ps ?val sub False, OF assms(1) this]
  have "replaceLoop ?val False None (concat (map renderPiece ps)) =
      Ok (concat (map (substPiece sub) ps), lastResolved sub False ps)"
    by blast
  moreover have "containsStr (concat (map renderPiece ps)) ''${''"
  proof -
    obtain xs ys where "ps = xs @ Ref r # ys"
      using assms(2) by (meson split_list)
    then have "concat (map renderPiece ps) = concat (map renderPiece xs) @ ''${'' @ (r @ ''}'' @ concat (map renderPiece ys))"
      by simp
    then show ?thesis
      unfolding containsStr_iff by blast
  qed
  ultimately show ?thesis
    by simp
qed

subsection \<open>Accessors\<close>

text \<open>
  Every accessor with a default returns what the accessor without one returns, and the default where
  that one reports an error, be it a missing section, a missing key or a value that is no number.
\<close>

theorem GetWithDefault:
  "GetValueWithDefault i s k d = orDefault (GetValue i s k) d
   \<and> GetBoolWithDefault i s k b = orDefault (GetBool i s k) b
   \<and> GetIntWithDefault i s k x = orDefault (GetInt i s k) x
   \<and> GetUintWithDefault i s k n = orDefault (GetUint i s k) n
   \<and> GetInt64WithDefault i s k x = orDefault (GetInt64 i s k) x
   \<and> GetFloatWithDefault parse zero i s k y = orDefault (GetFloat parse zero i s k) y"
proof -
  have key: "Key_ValueWithDefault key d = orDefault (Key_Value key) d"
    "Key_BoolWithDefault key b = orDefault (Key_Bool key) b"
    "Key_IntWithDefault key x = orDefault (Key_Int key) x"
    "Key_UintWithDefault key n = orDefault (Key_Uint key) n"
    "Key_Int64WithDefault key x = orDefault (Key_Int64 key) x"
    "Key_FloatWithDefault parse zero key y = orDefault (Key_Float parse zero key) y" for key
    by (cases key; simp add: orDefault_def)+
  show ?thesis
    by (cases "in_sections i s")
      (simp_all add: key GetValueWithDefault_def GetValue_def GetBoolWithDefault_def GetBool_def
        GetIntWithDefault_def GetInt_def GetUintWithDefault_def GetUint_def GetInt64WithDefault_def
        GetInt64_def GetFloatWithDefault_def GetFloat_def orDefault_def [of "(_, Some _)"])
qed

subsection \<open>Where values and files go wrong\<close>

definition with_value :: "string \<Rightarrow> ini" where
  "with_value v = AddSection (Section_Add ''k'' v (NewSection ''s'')) Ini_New"

text \<open>
  A NUL byte before two octal digits, and any byte above ASCII in a value that needs an escape, are not
  read back as written; white space at the ends of a value is lost; the same text is the number 10 for
  \<open>GetInt\<close> and 8 for \<open>GetInt64\<close>; a text whose last reference is unknown counts as not replaced, and
  \<open>Resolve\<close> then keeps the references before it too; an unfinished reference loses the rest of the text;
  and of several sources only the first is loaded.
\<close>

theorem ini_irregular:
  "fromEscape (toEscape (CHR 0x00 # ''12'')) = [CHR 0x0A]
   \<and> fromEscape (toEscape [CHR 0xC3, CHR 0xA9, CHR '';'']) = [CHR 0xC3, CHR 0x83, CHR 0xC2, CHR 0xA9, CHR '';'']
   \<and> trimSpaceU (fromEscape (removeComments (toEscape (''a'' @ [TAB])))) = ''a''
   \<and> GetInt (with_value ''010'') ''s'' ''k'' = (10, None) \<and> GetInt64 (with_value ''010'') ''s'' ''k'' = (8, None)
   \<and> replaceIni 2 (with_value ''v'') Map.empty None ''${s.k}${s.x}'' = (Ok (''v${s.x}'', False) :: (unit, _) res)
   \<and> rmap (\<lambda>i. GetValue i ''s'' ''k'') (Resolve 2 [''a'' \<mapsto> ''A''] None [(''s'', ''k'')] (with_value ''${a}${b}''))
       = (Ok (''${a}${b}'', None) :: (unit, _) res)
   \<and> replaceIni 1 Ini_New Map.empty None ''a${b'' = (Ok (''a'', False) :: (unit, _) res)
   \<and> Ini_Load (\<lambda>s. False) (\<lambda>s. None) Ini_New [SrcString [], SrcString ''k=v''] = (Ok (Ini_New, None) :: (unit, _) res)"
proof (intro conjI)
  have "removeComments (toEscape (''a'' @ [TAB])) = trimSpace (toEscape (''a'' @ [TAB]))"
    unfolding removeComments_def cutComment_toEscape
    by (intro trimSpaceU_ascii toEscape_ascii) code_simp
  moreover have "fromEscape (trimSpace (toEscape (''a'' @ [TAB]))) = ''a'' @ [TAB]"
    by code_simp
  moreover have "trimSpaceU (''a'' @ [TAB]) = trimSpace (''a'' @ [TAB])"
    by (intro trimSpaceU_ascii) code_simp
  moreover have "trimSpace (''a'' @ [TAB]) = ''a''"
    by code_simp
  ultimately show "trimSpaceU (fromEscape (removeComments (toEscape (''a'' @ [TAB])))) = ''a''"
    by simp
  show "GetInt (with_value ''010'') ''s'' ''k'' = (10, None)"
    by (simp add: GetInt_def with_value_def AddSection_def Section_Add_def NewSection_def Section_Key_def
        ParseInt_def ParseUint_def digitValue_def isDigit_def code_def numAnswer_def)
  show "GetInt64 (with_value ''010'') ''s'' ''k'' = (8, None)"
    by (simp add: GetInt64_def with_value_def AddSection_def Section_Add_def NewSection_def Section_Key_def
        ParseInt0_def ParseUint0_def basePrefix_def digitValue_def isDigit_def code_def numAnswer_def)
  show "Ini_Load (\<lambda>s. False) (\<lambda>s. None) Ini_New [SrcString [], SrcString ''k=v''] = (Ok (Ini_New, None) :: (unit, _) res)"
    by (simp add: LoadString_def LoadReader_def rawLines_def loadInit_def)
      (subst loadLoop.simps, simp add: readLineIni_def)
qed (code_simp+)

subsection \<open>Witnesses\<close>

lemma replaceIni_pieces_witness:
  "replaceIni 2 (with_value ''v'') Map.empty None ''a=${s.k}, b=${x}'' = (Ok (''a=v, b=${x}'', False) :: (unit, _) res)"
proof -
  let ?ps = "[Txt ''a='', Ref ''s.k'', Txt '', b='', Ref ''x'']"
  let ?sub = "\<lambda>m. if m = ''s.k'' then Some ''v'' else None"
  have val: "referenceText (with_value ''v'') Map.empty None ''s.k'' = Some ''v''"
    "referenceText (with_value ''v'') Map.empty None ''x'' = None"
    "replaceIni 1 (with_value ''v'') Map.empty None ''v'' = (Ok (''v'', False) :: (unit, _) res)"
    by code_simp+
  have "replaceIni (Suc 1) (with_value ''v'') Map.empty None (concat (map renderPiece ?ps)) =
      (Ok (concat (map (substPiece ?sub) ?ps), lastResolved ?sub False ?ps) :: (unit, _) res)"
  proof (rule replaceIni_pieces)
    show "list_all goodPiece ?ps"
      by code_simp
    show "Ref ''x'' \<in> set ?ps"
      by simp
    show "\<forall>m. Ref m \<in> set ?ps \<longrightarrow>
      (case referenceText (with_value ''v'') Map.empty None m of
         None \<Rightarrow> ?sub m = None
       | Some v \<Rightarrow> \<exists>t b. replaceIni 1 (with_value ''v'') Map.empty None v = (Ok (t, b) :: (unit, _) res) \<and> ?sub m = Some t)"
      using val by auto
  qed
  then show ?thesis
    by (simp add: numeral_2_eq_2 del: replaceIni.simps)
qed

lemma replaceIni_ends_witness:
  "(\<exists>t r. replaceIni (Suc 2) Ini_New [''a'' \<mapsto> ''A'', ''c'' \<mapsto> ''${a}''] None ''x${c}'' = (Ok (t, r) :: (unit, _) res))
   \<and> (\<forall>fuel. replaceIni fuel Ini_New [''b'' \<mapsto> ''B${b}''] None ''x${b}'' = (NoFuel :: (unit, _) res))"
proof -
  let ?ps = "[''a'' \<mapsto> ''A'', ''c'' \<mapsto> ''${a}'']" and ?qs = "[''b'' \<mapsto> ''B${b}'']"
  let ?rank = "\<lambda>m. if m = ''c'' then 1 else 0 :: nat"
  have refs: "refNames None ''A'' = []" "refNames None ''${a}'' = [''a'']" "refNames None ''x${c}'' = [''c'']"
    "refNames None ''B${b}'' = [''b'']" "refNames None ''x${b}'' = [''b'']"
    by code_simp+
  have shown: "referenceText Ini_New ps None m = ps m" for ps m
    by (auto simp: referenceText_def Ini_New_def Ini_HasKey_def split: option.splits)
  have "\<forall>name v. referenceText Ini_New ?ps None name = Some v \<longrightarrow> (\<forall>m \<in> set (refNames None v). ?rank m < ?rank name)"
    by (auto simp: shown refs)
  moreover have "\<forall>m \<in> set (refNames None ''x${c}''). ?rank m < 2"
    by (simp add: refs)
  ultimately have "\<exists>t r. replaceIni (Suc 2) Ini_New ?ps None ''x${c}'' = (Ok (t, r) :: (unit, _) res)"
    using replaceIni_ends [of Ini_New ?ps None ?rank "''x${c}''" 2] by blast
  moreover have "\<forall>fuel. replaceIni fuel Ini_New ?qs None ''x${b}'' = (NoFuel :: (unit, _) res)"
    using replaceIni_ends [of Ini_New ?qs None _ "''x${b}''" _ "''b''" "''B${b}''"] by (simp add: shown refs del: replaceIni.simps)
  ultimately show ?thesis
    by blast
qed

end
