(* ===== verification/Glob.thy ===== *)
theory Glob
  imports Utf8
begin

text \<open>
  Glob patterns, \<open>mods/util/glob\<close>: the matcher (\<open>match.go\<close>), the test for a glob and the range of keys
  a pattern can match (\<open>glob.go\<close>), on bytes.  An error is \<open>Err ()\<close>, \<open>ErrBadPattern\<close> in the code.
\<close>

abbreviation ESC :: char where "ESC \<equiv> CHR 0x5C"

subsection \<open>Matching (match.go)\<close>

text \<open>A character of a class, possibly escaped: its code point and the rest of the pattern, never empty.\<close>

definition getEsc :: "string \<Rightarrow> (unit, nat \<times> string) res" where
  "getEsc chunk =
     (if chunk = [] \<or> hd chunk = CHR ''-'' \<or> hd chunk = CHR '']'' then Err ()
      else (let c = (if hd chunk = ESC then tl chunk else chunk) in
        if c = [] then Err ()
        else (case decodeRune c of (r, n) \<Rightarrow>
          (if r = RuneError \<and> n = 1 \<or> drop n c = [] then Err () else Ok (r, drop n c)))))"

lemma getEsc_length: "getEsc chunk = Ok (r, rest) \<Longrightarrow> rest \<noteq> [] \<and> length rest < length chunk"
proof -
  assume g: "getEsc chunk = Ok (r, rest)"
  define c where "c = (if hd chunk = ESC then tl chunk else chunk)"
  have "c \<noteq> []" "rest = drop (snd (decodeRune c)) c" "rest \<noteq> []"
    using g by (auto simp: getEsc_def c_def Let_def split: if_splits prod.splits)
  moreover have "length c \<le> length chunk"
    by (simp add: c_def)
  ultimately show ?thesis
    using decodeRune_width [of c] by auto
qed

text \<open>
  The ranges of a class up to its closing bracket, after \<open>nrange\<close> of them: whether the code point is in
  one, and the rest of the pattern.
\<close>

function classRanges :: "nat \<Rightarrow> nat \<Rightarrow> bool \<Rightarrow> string \<Rightarrow> (unit, bool \<times> string) res" where
  "classRanges r nrange found chunk =
     (if chunk \<noteq> [] \<and> hd chunk = CHR '']'' \<and> 0 < nrange then Ok (found, tl chunk)
      else rbind (getEsc chunk) (\<lambda>(lo, c1).
        if hd c1 = CHR ''-''
        then rbind (getEsc (tl c1)) (\<lambda>(hi, c2). classRanges r (Suc nrange) (found \<or> (lo \<le> r \<and> r \<le> hi)) c2)
        else classRanges r (Suc nrange) (found \<or> (lo \<le> r \<and> r \<le> lo)) c1))"
  by pat_completeness auto
termination
  by (relation "measure (\<lambda>(r, n, f, chunk). length chunk)") (fastforce dest!: getEsc_length)+

declare classRanges.simps [simp del]

lemma classRanges_length: "classRanges r n f chunk = Ok (b, rest) \<Longrightarrow> length rest < length chunk"
proof (induction r n f chunk rule: classRanges.induct)
  case (1 r n f chunk)
  show ?case
  proof (cases "chunk \<noteq> [] \<and> hd chunk = CHR '']'' \<and> 0 < n")
    case True
    then show ?thesis
      using 1(3) by (subst (asm) classRanges.simps) auto
  next
    case False
    then obtain lo c1 where lo: "getEsc chunk = Ok (lo, c1)"
      and rest: "(if hd c1 = CHR ''-''
        then rbind (getEsc (tl c1)) (\<lambda>(hi, c2). classRanges r (Suc n) (f \<or> (lo \<le> r \<and> r \<le> hi)) c2)
        else classRanges r (Suc n) (f \<or> (lo \<le> r \<and> r \<le> lo)) c1) = Ok (b, rest)"
      using 1(3) by (subst (asm) classRanges.simps) (auto simp: rbind_Ok_iff)
    show ?thesis
    proof (cases "hd c1 = CHR ''-''")
      case True
      with rest obtain hi c2 where hi: "getEsc (tl c1) = Ok (hi, c2)"
        and "classRanges r (Suc n) (f \<or> (lo \<le> r \<and> r \<le> hi)) c2 = Ok (b, rest)"
        by (auto simp: rbind_Ok_iff)
      from 1(1) [OF False lo refl True hi refl this(2)] getEsc_length [OF hi] getEsc_length [OF lo]
      have "length rest < length c2" "length c2 < length (tl c1)" "length (tl c1) \<le> length c1" "length c1 < length chunk"
        by simp_all
      then show ?thesis
        by linarith
    next
      case no: False
      with rest have "classRanges r (Suc n) (f \<or> (lo \<le> r \<and> r \<le> lo)) c1 = Ok (b, rest)"
        by simp
      from 1(2) [OF False lo refl no this] getEsc_length [OF lo] show ?thesis
        by simp
    qed
  qed
qed

text \<open>\<open>matchChunk\<close>: the rest of the text after the chunk, \<open>None\<close> where the chunk does not match.\<close>

function matchChunk :: "string \<Rightarrow> string \<Rightarrow> (unit, string option) res" where
  "matchChunk chunk s =
     (if chunk = [] then Ok (Some s)
      else if s = [] then Ok None
      else if hd chunk = CHR ''['' then
        (case decodeRune s of (r, n) \<Rightarrow>
          (if tl chunk = [] then Err ()
           else (let negated = (hd (tl chunk) = CHR ''^'') in
             rbind (classRanges r 0 False (if negated then tl (tl chunk) else tl chunk)) (\<lambda>(found, c2).
               if found = negated then Ok None else matchChunk c2 (drop n s)))))
      else if hd chunk = CHR ''?'' then matchChunk (tl chunk) (drop (snd (decodeRune s)) s)
      else (let c1 = (if hd chunk = ESC then tl chunk else chunk) in
            if c1 = [] then Err ()
            else if hd c1 \<noteq> hd s then Ok None
            else matchChunk (tl c1) (tl s)))"
  by pat_completeness auto
termination
proof (relation "measure (\<lambda>(chunk, s). length chunk)", goal_cases)
  case (2 chunk s r n negated x found c2)
  then show ?case
    using classRanges_length [of r 0 False _ found c2] by (fastforce split: if_splits)
next
  case (4 chunk s c1)
  then show ?case
    by (cases chunk) (auto split: if_splits simp: less_Suc_eq_le intro: le_SucI)
qed (auto simp: length_greater_0_conv)

declare matchChunk.simps [simp del]

text \<open>The next segment of a pattern: whether stars come first, the text up to the next star, the rest.\<close>

fun scanLoop :: "bool \<Rightarrow> string \<Rightarrow> string \<times> string" where
  "scanLoop inrange [] = ([], [])"
| "scanLoop inrange (c # p) =
     (if c = ESC then
        (case p of
           [] \<Rightarrow> ([c], [])
         | d # q \<Rightarrow> (case scanLoop inrange q of (x, r) \<Rightarrow> (c # d # x, r)))
      else if c = CHR ''*'' \<and> \<not> inrange then ([], c # p)
      else (case scanLoop (if c = CHR ''['' then True else if c = CHR '']'' then False else inrange) p of
              (x, r) \<Rightarrow> (c # x, r)))"

definition scanChunk :: "string \<Rightarrow> bool \<times> string \<times> string" where
  "scanChunk pattern =
     (let p = dropWhile (\<lambda>c. c = CHR ''*'') pattern in
      (pattern \<noteq> [] \<and> hd pattern = CHR ''*'', scanLoop False p))"

lemma scanLoop_parts: "fst (scanLoop b p) @ snd (scanLoop b p) = p"
proof (induction b p rule: scanLoop.induct)
  case (2 b c p)
  show ?case
  proof (cases "c = ESC")
    case True
    show ?thesis
    proof (cases p)
      case (Cons d q)
      with 2(1) [OF True Cons] True show ?thesis
        by (cases "scanLoop b q") simp
    qed (use True in simp)
  next
    case no: False
    show ?thesis
    proof (cases "c = CHR ''*'' \<and> \<not> b")
      case True
      with no show ?thesis by simp
    next
      case False
      with 2(2) [OF no False] no show ?thesis
        by (cases "scanLoop (if c = CHR ''['' then True else if c = CHR '']'' then False else b) p") simp
    qed
  qed
qed simp

lemma scanLoop_progress:
  assumes "p \<noteq> []" and "hd p \<noteq> CHR ''*''"
  shows "fst (scanLoop b p) \<noteq> []"
proof -
  obtain c q where p: "p = c # q" "c \<noteq> CHR ''*''"
    using assms by (cases p) auto
  show ?thesis
  proof (cases "c = ESC")
    case True
    then show ?thesis
      by (cases q; cases "scanLoop b (tl q)") (simp_all add: p)
  next
    case False
    then show ?thesis
      by (cases "scanLoop (if c = CHR ''['' then True else if c = CHR '']'' then False else b) q") (simp add: p)
  qed
qed

declare scanLoop.simps(2) [simp del]

lemma scanChunk_rest:
  assumes "pattern \<noteq> []" and "scanChunk pattern = (star, chunk, rest)"
  shows "length rest < length pattern"
proof -
  define p where "p = dropWhile (\<lambda>c. c = CHR ''*'') pattern"
  have rest: "chunk = fst (scanLoop False p)" "rest = snd (scanLoop False p)"
    using assms(2) by (simp_all add: scanChunk_def p_def Let_def)
  have parts: "length chunk + length rest = length p"
    by (metis length_append scanLoop_parts rest)
  show ?thesis
  proof (cases "hd pattern = CHR ''*''")
    case True
    then have "length p < length pattern"
      using assms(1) length_dropWhile_le [of "\<lambda>c. c = CHR ''*''" "tl pattern"]
      by (cases pattern) (simp_all add: p_def less_Suc_eq_le)
    with parts show ?thesis
      by linarith
  next
    case False
    then have "p = pattern"
      using assms(1) by (cases pattern) (simp_all add: p_def)
    moreover have "chunk \<noteq> []"
      using scanLoop_progress [OF assms(1) False, of False] rest(1) \<open>p = pattern\<close> by simp
    ultimately show ?thesis
      using parts by (cases chunk) simp_all
  qed
qed

text \<open>
  After a star: the first place behind the current one where the chunk matches, and for the last chunk
  matches to the end.
\<close>

fun skipMatch :: "string \<Rightarrow> bool \<Rightarrow> string \<Rightarrow> (unit, string option) res" where
  "skipMatch chunk isLast [] = Ok None"
| "skipMatch chunk isLast (c # s) =
     rbind (matchChunk chunk s) (\<lambda>m.
       case m of
         None \<Rightarrow> skipMatch chunk isLast s
       | Some t \<Rightarrow> if isLast \<and> t \<noteq> [] then skipMatch chunk isLast s else Ok (Some t))"

function wildcardMatch :: "string \<Rightarrow> string \<Rightarrow> (unit, bool) res" where
  "wildcardMatch pattern name =
     (if pattern = [] then Ok (name = [])
      else (case scanChunk pattern of (star, chunk, rest) \<Rightarrow>
        (if star \<and> chunk = [] then Ok True
         else rbind (matchChunk chunk name) (\<lambda>m.
           case m of
             Some t \<Rightarrow>
               (if t = [] \<or> rest \<noteq> [] then wildcardMatch rest t
                else if star
                then rbind (skipMatch chunk (rest = []) name) (\<lambda>m'.
                       case m' of Some t' \<Rightarrow> wildcardMatch rest t' | None \<Rightarrow> Ok False)
                else Ok False)
           | None \<Rightarrow>
               (if star
                then rbind (skipMatch chunk (rest = []) name) (\<lambda>m'.
                       case m' of Some t' \<Rightarrow> wildcardMatch rest t' | None \<Rightarrow> Ok False)
                else Ok False)))))"
  by pat_completeness auto
termination
  by (relation "measure (\<lambda>(pattern, name). length pattern)")
    (auto split: prod.splits, (metis scanChunk_rest)+)

declare wildcardMatch.simps [simp del]

subsection \<open>Globs (glob.go)\<close>

definition Match :: "string \<Rightarrow> string \<Rightarrow> (unit, bool) res" where
  "Match pattern str = wildcardMatch pattern str"

definition globChar :: "char \<Rightarrow> bool" where
  "globChar c = (c \<in> {CHR ''['', CHR ''*'', CHR ''?''})"

text \<open>\<open>IsGlob\<close>: the first glob character makes it try the pattern on a fixed text.\<close>

definition IsGlob :: "string \<Rightarrow> bool" where
  "IsGlob pattern =
     (if \<exists>c \<in> set pattern. globChar c then (case Match pattern ''whatever'' of Ok b \<Rightarrow> True | _ \<Rightarrow> False) else False)"

record glob =
  gl_Pattern :: string
  gl_Desc :: bool
  gl_Limits :: "string \<times> string"
  gl_IsGlob :: bool

text \<open>The loop that steps down over trailing zero bytes, on the reversed text.\<close>

fun stepDown :: "string \<Rightarrow> string" where
  "stepDown [] = []"
| "stepDown (c # s) =
     (if code c \<noteq> 0 then c # s
      else (case s of
              [] \<Rightarrow> []
            | d # t \<Rightarrow> if code d = 0 then stepDown s else byte 255 # byte (code d - 1) # t))"

definition upperLimit :: "string \<Rightarrow> string" where
  "upperLimit p = (if code (last p) = 255 then p @ [byte 0] else butlast p @ [byte (code (last p) + 1)])"

definition lowerLimit :: "string \<Rightarrow> string" where
  "lowerLimit p = (if code (last p) = 0 then rev (stepDown (rev p)) else butlast p @ [byte (code (last p) - 1)])"

definition Parse :: "string \<Rightarrow> bool \<Rightarrow> glob" where
  "Parse pattern desc =
     (let g = \<lparr>gl_Pattern = pattern, gl_Desc = desc, gl_Limits = ([], []), gl_IsGlob = False\<rparr> in
      if pattern \<noteq> [] \<and> hd pattern = CHR ''*'' then g\<lparr>gl_IsGlob := True\<rparr>
      else if pattern = [] then g
      else (let p = takeWhile (\<lambda>c. \<not> globChar c) pattern;
                isGlob = (p \<noteq> pattern \<and> (case Match pattern ''whatever'' of Ok b \<Rightarrow> True | _ \<Rightarrow> False))
            in if p = [] then g\<lparr>gl_Limits := (pattern, pattern)\<rparr>
               else g\<lparr>gl_Limits := (if desc then (upperLimit p, lowerLimit p) else (p, upperLimit p)),
                      gl_IsGlob := isGlob\<rparr>))"

end
