(* ===== verification/GlobProps.thy ===== *)
theory GlobProps
  imports Glob
begin

text \<open>
  The properties of glob patterns.  A pattern is the text of a list of items; on ASCII text the matcher
  accepts exactly the texts the items stand for, although it never goes back behind a star.
\<close>

subsection \<open>Items and what they match\<close>

datatype glob_item = Lit char | AnyOne | Class bool "(char \<times> char) list" | Star

fun itemOk :: "glob_item \<Rightarrow> char \<Rightarrow> bool" where
  "itemOk (Lit c) d = (c = d)"
| "itemOk AnyOne d = True"
| "itemOk (Class negated ranges) d = (negated \<noteq> list_ex (\<lambda>(lo, hi). code lo \<le> code d \<and> code d \<le> code hi) ranges)"
| "itemOk Star d = False"

fun globMatches :: "glob_item list \<Rightarrow> string \<Rightarrow> bool" where
  "globMatches [] s = (s = [])"
| "globMatches (i # is) s =
     (if i = Star then list_ex (\<lambda>k. globMatches is (drop k s)) [0..<Suc (length s)]
      else (case s of [] \<Rightarrow> False | c # t \<Rightarrow> itemOk i c \<and> globMatches is t))"

subsection \<open>The text of a pattern\<close>

definition classChar :: "char \<Rightarrow> string" where
  "classChar c = (if c \<in> {ESC, CHR ''-'', CHR '']'', CHR ''['', CHR ''^'', CHR ''*''} then [ESC, c] else [c])"

definition renderRange :: "char \<times> char \<Rightarrow> string" where
  "renderRange lh = classChar (fst lh) @ (if fst lh = snd lh then [] else CHR ''-'' # classChar (snd lh))"

fun renderItem :: "glob_item \<Rightarrow> string" where
  "renderItem (Lit c) = (if c \<in> {ESC, CHR ''['', CHR ''*'', CHR ''?''} then [ESC, c] else [c])"
| "renderItem AnyOne = ''?''"
| "renderItem (Class negated ranges) =
     CHR ''['' # (if negated then ''^'' else []) @ concat (map renderRange ranges) @ '']''"
| "renderItem Star = ''*''"

definition renderGlob :: "glob_item list \<Rightarrow> string" where
  "renderGlob is = concat (map renderItem is)"

fun goodItem :: "glob_item \<Rightarrow> bool" where
  "goodItem (Lit c) = isAscii c"
| "goodItem AnyOne = True"
| "goodItem (Class negated ranges) = (ranges \<noteq> [] \<and> list_all (\<lambda>(lo, hi). isAscii lo \<and> isAscii hi) ranges)"
| "goodItem Star = True"

lemma renderGlob_simps [simp]: "renderGlob [] = []" "renderGlob (i # is) = renderItem i @ renderGlob is"
  "renderGlob (is @ js) = renderGlob is @ renderGlob js"
  by (simp_all add: renderGlob_def)

lemma renderItem_nonempty [simp]: "renderItem i \<noteq> []"
  by (cases i) simp_all

lemma renderGlob_empty [simp]: "(renderGlob is = []) = (is = [])"
  by (cases "is") simp_all

subsection \<open>Reading one item\<close>

lemma classChar_hd: "hd (classChar c @ r) \<notin> {CHR ''-'', CHR '']'', CHR ''^''}" "classChar c \<noteq> []"
  by (auto simp: classChar_def)

lemma getEsc_classChar:
  assumes "isAscii c" and "r \<noteq> []"
  shows "getEsc (classChar c @ r) = Ok (code c, r)"
proof (cases "c \<in> {ESC, CHR ''-'', CHR '']'', CHR ''['', CHR ''^'', CHR ''*''}")
  case True
  then have "classChar c = [ESC, c]"
    by (simp add: classChar_def)
  then show ?thesis
    using assms by (simp add: getEsc_def) (simp add: isAscii_def RuneError_def)
next
  case False
  then have "classChar c = [c]" "c \<noteq> ESC" "c \<noteq> CHR ''-''" "c \<noteq> CHR '']''"
    by (simp_all add: classChar_def)
  then show ?thesis
    using assms by (simp add: getEsc_def) (simp add: isAscii_def RuneError_def)
qed

lemma classRanges_render:
  "list_all (\<lambda>(lo, hi). isAscii lo \<and> isAscii hi) ranges \<Longrightarrow> 0 < n \<or> ranges \<noteq> [] \<Longrightarrow>
     classRanges r n f (concat (map renderRange ranges) @ CHR '']'' # rest) =
       Ok (f \<or> list_ex (\<lambda>(lo, hi). code lo \<le> r \<and> r \<le> code hi) ranges, rest)"
proof (induction ranges arbitrary: n f)
  case Nil
  then show ?case by (subst classRanges.simps) simp
next
  case (Cons lh ranges)
  obtain lo hi where lh: "lh = (lo, hi)" by (cases lh)
  define more where "more = concat (map renderRange ranges) @ CHR '']'' # rest"
  have more: "more \<noteq> []" "hd more \<noteq> CHR ''-''"
    using classChar_hd by (cases ranges; force simp: more_def renderRange_def)+
  have step: "classRanges r (Suc n) g more = Ok (g \<or> list_ex (\<lambda>(lo, hi). code lo \<le> r \<and> r \<le> code hi) ranges, rest)" for g
    using Cons by (simp add: more_def)
  have chars: "isAscii lo" "isAscii hi"
    using Cons.prems(1) lh by simp_all
  have first: "hd (classChar lo @ x) \<noteq> CHR '']''" for x
    using classChar_hd by blast
  show ?case
  proof (cases "lo = hi")
    case True
    then have "concat (map renderRange (lh # ranges)) @ CHR '']'' # rest = classChar lo @ more"
      by (simp add: lh renderRange_def more_def)
    then show ?thesis
      using first [of more] getEsc_classChar [OF chars(1) more(1)] more(2) step True lh
      by (subst classRanges.simps) auto
  next
    case False
    then have "concat (map renderRange (lh # ranges)) @ CHR '']'' # rest = classChar lo @ CHR ''-'' # classChar hi @ more"
      by (simp add: lh renderRange_def more_def)
    then show ?thesis
      using first getEsc_classChar [OF chars(1), of "CHR ''-'' # classChar hi @ more"]
        getEsc_classChar [OF chars(2) more(1)] step lh
      by (subst classRanges.simps) auto
  qed
qed

text \<open>One item that is no star takes one character.\<close>

lemma matchChunk_item:
  assumes "goodItem i" and "i \<noteq> Star" and "list_all isAscii s"
  shows "matchChunk (renderItem i @ rest) s =
    (case s of [] \<Rightarrow> Ok None | c # t \<Rightarrow> if itemOk i c then matchChunk rest t else Ok None)"
proof (cases s)
  case Nil
  then show ?thesis by (subst matchChunk.simps) simp
next
  case (Cons d t)
  then have d: "isAscii d"
    using assms(3) by simp
  show ?thesis
  proof (cases i)
    case (Lit c)
    then show ?thesis
    proof (cases "c \<in> {ESC, CHR ''['', CHR ''*'', CHR ''?''}")
      case True
      then have r: "renderItem i = [ESC, c]"
        by (simp add: Lit)
      show ?thesis
        unfolding r by (subst matchChunk.simps) (simp add: Cons Lit)
    next
      case False
      then have r: "renderItem i = [c]" "c \<noteq> ESC" "c \<noteq> CHR ''[''" "c \<noteq> CHR ''?''"
        by (simp_all add: Lit)
      then show ?thesis
        unfolding r(1) by (subst matchChunk.simps) (simp add: Cons Lit)
    qed
  next
    case AnyOne
    then show ?thesis
      using d by (subst matchChunk.simps) (simp add: Cons)
  next
    case (Class negated ranges)
    let ?body = "concat (map renderRange ranges) @ CHR '']'' # rest"
    have good: "list_all (\<lambda>(lo, hi). isAscii lo \<and> isAscii hi) ranges" "ranges \<noteq> []"
      using assms(1) Class by simp_all
    then have hd: "hd ?body \<noteq> CHR ''^''"
      using classChar_hd by (cases ranges) (force simp: renderRange_def)+
    have "tl (renderItem i @ rest) = (if negated then CHR ''^'' # ?body else ?body)" "hd (renderItem i @ rest) = CHR ''[''"
      by (simp_all add: Class)
    then show ?thesis
      using classRanges_render [OF good(1), of 0 "code d" False rest] good(2) hd d Class
      by (subst matchChunk.simps) (auto simp: Cons)
  qed (use assms in simp)
qed

text \<open>A chunk: items without a star.\<close>

fun chunkOk :: "glob_item list \<Rightarrow> string \<Rightarrow> bool" where
  "chunkOk [] s = True"
| "chunkOk (i # is) s = (case s of [] \<Rightarrow> False | c # t \<Rightarrow> itemOk i c \<and> chunkOk is t)"

definition starless :: "glob_item list \<Rightarrow> bool" where
  "starless is = list_all (\<lambda>i. i \<noteq> Star) is"

lemma matchChunk_render:
  "list_all goodItem is \<Longrightarrow> starless is \<Longrightarrow> list_all isAscii s \<Longrightarrow>
     matchChunk (renderGlob is) s = Ok (if chunkOk is s then Some (drop (length is) s) else None)"
proof (induction "is" arbitrary: s)
  case Nil
  then show ?case by (subst matchChunk.simps) simp
next
  case (Cons i "is")
  then show ?case
    using matchChunk_item [of i s "renderGlob is"] by (cases s) (auto simp: starless_def)
qed

lemma chunkOk_length: "chunkOk is s \<Longrightarrow> length is \<le> length s"
  by (induction "is" s rule: chunkOk.induct) (auto split: list.splits)

subsection \<open>Cutting a pattern into chunks\<close>

definition before :: "string \<Rightarrow> string \<times> string \<Rightarrow> string \<times> string" where
  "before x r = (x @ fst r, snd r)"

lemma before_append [simp]: "before x (before y r) = before (x @ y) r" "before [] r = r"
  by (simp_all add: before_def)

lemma scanLoop_char:
  "c \<noteq> ESC \<Longrightarrow> c \<noteq> CHR ''*'' \<or> b \<Longrightarrow>
     scanLoop b (c # p) = before [c] (scanLoop (if c = CHR ''['' then True else if c = CHR '']'' then False else b) p)"
  by (simp add: scanLoop.simps(2) before_def split: prod.splits)

lemma scanLoop_escape: "scanLoop b (ESC # c # p) = before [ESC, c] (scanLoop b p)"
  by (simp add: scanLoop.simps(2) before_def split: prod.splits)

lemma scanLoop_classChar: "scanLoop True (classChar c @ p) = before (classChar c) (scanLoop True p)"
  by (simp add: classChar_def scanLoop_char scanLoop_escape)

lemma scanLoop_range: "scanLoop True (renderRange lh @ p) = before (renderRange lh) (scanLoop True p)"
  by (simp add: renderRange_def scanLoop_classChar scanLoop_char)

lemma scanLoop_ranges:
  "scanLoop True (concat (map renderRange rs) @ p) = before (concat (map renderRange rs)) (scanLoop True p)"
  by (induction rs) (simp_all add: scanLoop_range)

lemma scanLoop_item:
  assumes "i \<noteq> Star"
  shows "scanLoop False (renderItem i @ p) = before (renderItem i) (scanLoop False p)"
proof (cases i)
  case (Lit c)
  then show ?thesis
    by (cases "c = ESC") (auto simp: scanLoop_char scanLoop_escape)
next
  case AnyOne
  then show ?thesis by (simp add: scanLoop_char)
next
  case (Class negated ranges)
  then show ?thesis
    by (simp add: scanLoop_char scanLoop_ranges)
qed (use assms in simp)

lemma scanLoop_render:
  assumes "starless is" and "p = [] \<or> hd p = CHR ''*''"
  shows "scanLoop False (renderGlob is @ p) = (renderGlob is, p)"
  using assms(1)
proof (induction "is")
  case Nil
  then show ?case
    using assms(2) by (cases p) (simp_all add: scanLoop.simps)
next
  case (Cons i "is")
  then show ?case
    by (simp add: starless_def scanLoop_item) (simp add: before_def)
qed

lemma renderItem_hd: "i \<noteq> Star \<Longrightarrow> hd (renderItem i) \<noteq> CHR ''*''"
  by (cases i) auto

lemma render_stars: "renderGlob (replicate k Star) = replicate k CHR ''*''"
  by (induction k) simp_all

lemma scanChunk_render:
  assumes "starless is" and "rest = [] \<or> hd rest = Star" and "is = [] \<Longrightarrow> rest = [] \<and> 0 < k"
  shows "scanChunk (renderGlob (replicate k Star @ is @ rest)) = (0 < k, renderGlob is, renderGlob rest)"
proof -
  let ?p = "renderGlob (is @ rest)"
  have hd: "?p = [] \<or> hd ?p \<noteq> CHR ''*''"
    using assms(1,3) renderItem_hd by (cases "is") (auto simp: starless_def)
  have "renderGlob (replicate k Star @ is @ rest) = replicate k CHR ''*'' @ ?p"
    by (simp add: render_stars)
  moreover have "dropWhile (\<lambda>c. c = CHR ''*'') (replicate k CHR ''*'' @ ?p) = ?p"
    using hd by (induction k) (cases ?p, auto)
  moreover have "renderGlob rest = [] \<or> hd (renderGlob rest) = CHR ''*''"
    using assms(2) by (cases rest) auto
  moreover have "(replicate k CHR ''*'' @ ?p \<noteq> [] \<and> hd (replicate k CHR ''*'' @ ?p) = CHR ''*'') = (0 < k)"
    using hd by (cases k) auto
  ultimately show ?thesis
    using scanLoop_render [OF assms(1), of "renderGlob rest"] by (simp add: scanChunk_def Let_def)
qed

lemma glob_parts:
  obtains k chunk rest where "is = replicate k Star @ chunk @ rest" "starless chunk"
    "rest = [] \<or> hd rest = Star" "chunk = [] \<longrightarrow> rest = []"
proof
  let ?after = "dropWhile (\<lambda>i. i = Star) is"
  have "takeWhile (\<lambda>i. i = Star) is = replicate (length (takeWhile (\<lambda>i. i = Star) is)) Star"
    by (metis (mono_tags, lifting) replicate_length_same set_takeWhileD)
  then show "is = replicate (length (takeWhile (\<lambda>i. i = Star) is)) Star
      @ takeWhile (\<lambda>i. i \<noteq> Star) ?after @ dropWhile (\<lambda>i. i \<noteq> Star) ?after"
    by (metis takeWhile_dropWhile_id)
  show "starless (takeWhile (\<lambda>i. i \<noteq> Star) ?after)"
    by (auto simp: starless_def list_all_iff dest: set_takeWhileD)
  show "dropWhile (\<lambda>i. i \<noteq> Star) ?after = [] \<or> hd (dropWhile (\<lambda>i. i \<noteq> Star) ?after) = Star"
    using hd_dropWhile [of "\<lambda>i. i \<noteq> Star" ?after] by blast
  have "takeWhile (\<lambda>i. i \<noteq> Star) ?after \<noteq> []" if "?after \<noteq> []"
    using that hd_dropWhile [OF that] by (cases ?after) simp_all
  then show "takeWhile (\<lambda>i. i \<noteq> Star) ?after = [] \<longrightarrow> dropWhile (\<lambda>i. i \<noteq> Star) ?after = []"
    by (metis dropWhile.simps(1))
qed

subsection \<open>What a list of items matches\<close>

lemma globMatches_Star: "globMatches (Star # is) s = (\<exists>k \<le> length s. globMatches is (drop k s))"
  by (auto simp: list_ex_iff less_Suc_eq_le simp del: upt_Suc)

declare globMatches.simps(2) [simp del]

lemma globMatches_stars:
  "globMatches (replicate (Suc k) Star @ is) s = (\<exists>j \<le> length s. globMatches is (drop j s))"
proof (induction k arbitrary: s)
  case (Suc k)
  have "globMatches (replicate (Suc (Suc k)) Star @ is) s = (\<exists>i \<le> length s. \<exists>j \<le> length s - i. globMatches is (drop (i + j) s))"
  proof -
    have "replicate (Suc (Suc k)) Star @ is = Star # (replicate (Suc k) Star @ is)"
      by simp
    then show ?thesis
      by (simp only: globMatches_Star Suc length_drop drop_drop add.commute)
  qed
  also have "\<dots> = (\<exists>j \<le> length s. globMatches is (drop j s))"
    by (metis add_0 add_leE diff_zero le0 le_diff_conv2 add.commute)
  finally show ?case .
qed (simp add: globMatches_Star)

lemma globMatches_chunk:
  "starless is \<Longrightarrow> globMatches (is @ js) s = (chunkOk is s \<and> globMatches js (drop (length is) s))"
proof (induction "is" arbitrary: s)
  case (Cons i "is")
  then show ?case by (cases s) (auto simp: starless_def globMatches.simps(2))
qed simp

text \<open>A pattern that starts with a star matches a text if it matches an end of it.\<close>

lemma globMatches_suffix:
  assumes "hd is = Star" and "is \<noteq> []" and "globMatches is (drop j s)"
  shows "globMatches is s"
proof -
  obtain js where js: "is = Star # js"
    using assms by (cases "is") auto
  then obtain k where k: "k \<le> length (drop j s)" "globMatches js (drop (j + k) s)"
    using assms(3) by (auto simp: globMatches_Star add.commute)
  have "\<exists>m \<le> length s. globMatches js (drop m s)"
  proof (cases "j \<le> length s")
    case True
    then show ?thesis
      using k by (intro exI [of _ "j + k"]) simp
  next
    case False
    then show ?thesis
      using k by (intro exI [of _ "length s"]) simp
  qed
  then show ?thesis
    by (simp add: js globMatches_Star)
qed

subsection \<open>The matcher\<close>

text \<open>A place where the chunk matches, for the last chunk up to the end.\<close>

definition hit :: "glob_item list \<Rightarrow> bool \<Rightarrow> string \<Rightarrow> nat \<Rightarrow> bool" where
  "hit is isLast s j = (chunkOk is (drop j s) \<and> (isLast \<longrightarrow> length s = j + length is))"

lemma find_map: "find p (map f xs) = map_option f (find (p \<circ> f) xs)"
  by (induction xs) simp_all

lemma hit_Suc: "hit is isLast (c # s) (Suc j) = hit is isLast s j"
  by (simp add: hit_def)

lemma find_shift:
  "find (hit is isLast (c # s)) [1..<Suc (Suc n)] =
     (if hit is isLast s 0 then Some 1 else map_option Suc (find (hit is isLast s) [1..<Suc n]))"
proof -
  have "[1..<Suc (Suc n)] = 1 # map Suc [1..<Suc n]"
    by (simp add: upt_conv_Cons map_Suc_upt del: upt_Suc)
  moreover have "hit is isLast (c # s) \<circ> Suc = hit is isLast s"
    by (simp add: fun_eq_iff hit_Suc)
  ultimately show ?thesis
    using hit_Suc [of "is" isLast c s 0] by (simp add: find_map del: upt_Suc)
qed

lemma skipMatch_render:
  assumes "list_all goodItem is" and "starless is"
  shows "list_all isAscii s \<Longrightarrow> skipMatch (renderGlob is) isLast s =
    Ok (map_option (\<lambda>j. drop (j + length is) s) (find (hit is isLast s) [1..<Suc (length s)]))"
proof (induction s)
  case (Cons c s)
  have m: "matchChunk (renderGlob is) s = Ok (if chunkOk is s then Some (drop (length is) s) else None)"
    using matchChunk_render assms Cons.prems by simp
  have "skipMatch (renderGlob is) isLast (c # s) =
      (if hit is isLast s 0 then Ok (Some (drop (length is) s)) else skipMatch (renderGlob is) isLast s)"
    using m chunkOk_length [of "is" s] by (auto simp: hit_def)
  then show ?case
    using Cons find_shift [of "is" isLast c s "length s"]
    by (cases "find (hit is isLast s) [1..<Suc (length s)]") (simp_all del: upt_Suc)
qed simp

lemma find_first:
  assumes "find p [1..<n] = Some j"
  shows "0 < j" and "j < n" and "p j" and "\<And>i. 0 < i \<Longrightarrow> i < j \<Longrightarrow> \<not> p i"
proof -
  obtain m where m: "m < n - 1" "p (Suc m)" "j = Suc m" "\<forall>i < m. \<not> p (Suc i)"
    using assms by (auto simp: find_Some_iff)
  then show "0 < j" "j < n" "p j"
    by simp_all
  show "\<not> p i" if "0 < i" "i < j" for i
    using that m by (cases i) auto
qed

text \<open>Behind a star the first hit decides.\<close>

lemma first_hit:
  assumes "starless is" and "rest = [] \<or> hd rest = Star"
    and "j \<le> length s" and "hit is (rest = []) s j" and "\<And>i. i < j \<Longrightarrow> \<not> hit is (rest = []) s i"
  shows "(\<exists>i \<le> length s. globMatches (is @ rest) (drop i s)) = globMatches rest (drop (j + length is) s)"
proof
  assume "\<exists>i \<le> length s. globMatches (is @ rest) (drop i s)"
  then obtain i where i: "i \<le> length s" "chunkOk is (drop i s)" "globMatches rest (drop (i + length is) s)"
    using assms(1) by (auto simp: globMatches_chunk add.commute)
  have "length is \<le> length s - i"
    using chunkOk_length [OF i(2)] by simp
  then have "hit is (rest = []) s i"
    using i by (auto simp: hit_def)
  then have "j \<le> i"
    using assms(5) not_le by blast
  then obtain d where d: "i = j + d"
    using le_Suc_ex by blast
  show "globMatches rest (drop (j + length is) s)"
  proof (cases "rest = []")
    case True
    then show ?thesis
      using assms(4) by (simp add: hit_def)
  next
    case False
    then show ?thesis
      using assms(2) i(3) d globMatches_suffix [of rest d "drop (j + length is) s"]
      by (simp add: add.commute add.left_commute)
  qed
next
  assume "globMatches rest (drop (j + length is) s)"
  then show "\<exists>i \<le> length s. globMatches (is @ rest) (drop i s)"
    using assms(1,3,4) by (intro exI [of _ j]) (simp add: globMatches_chunk hit_def add.commute)
qed

lemma no_hit:
  assumes "starless is" and "\<And>i. i \<le> length s \<Longrightarrow> \<not> hit is (rest = []) s i"
  shows "\<not> (\<exists>i \<le> length s. globMatches (is @ rest) (drop i s))"
proof
  assume "\<exists>i \<le> length s. globMatches (is @ rest) (drop i s)"
  then obtain i where i: "i \<le> length s" "chunkOk is (drop i s)" "globMatches rest (drop (i + length is) s)"
    using assms(1) by (auto simp: globMatches_chunk add.commute)
  have "length is \<le> length s - i"
    using chunkOk_length [OF i(2)] by simp
  then have "hit is (rest = []) s i"
    using i by (auto simp: hit_def)
  with assms(2) i(1) show False
    by blast
qed

text \<open>
  C39: On ASCII text the matcher accepts exactly the texts the pattern's items stand for: that it takes the
  first place where the next chunk matches and never goes back loses no match.
\<close>

theorem Match_items:
  assumes "list_all goodItem is" and "list_all isAscii s"
  shows "Match (renderGlob is) s = Ok (globMatches is s)"
  unfolding Match_def
  using assms
proof (induction "is" arbitrary: s rule: length_induct)
  case (1 "is")
  obtain k chunk rest where parts: "is = replicate k Star @ chunk @ rest" "starless chunk"
    "rest = [] \<or> hd rest = Star" "chunk = [] \<longrightarrow> rest = []"
    by (rule glob_parts [of "is"])
  have good: "list_all goodItem chunk" "list_all goodItem rest"
    using 1(2) parts(1) by simp_all
  have IH: "wildcardMatch (renderGlob rest) (drop n s) = Ok (globMatches rest (drop n s))" if "is \<noteq> []" for n
  proof -
    have "length rest < length is"
      using parts(1,4) that by (cases "chunk = []") auto
    then show ?thesis
      using 1(1) good(2) list_all_drop [OF 1(3)] by blast
  qed
  have m: "matchChunk (renderGlob chunk) s = Ok (if chunkOk chunk s then Some (drop (length chunk) s) else None)"
    using matchChunk_render good(1) parts(2) 1(3) by simp
  show ?case
  proof (cases "is = []")
    case True
    then show ?thesis by (subst wildcardMatch.simps) simp
  next
    case False
    have scan: "scanChunk (renderGlob is) = (0 < k, renderGlob chunk, renderGlob rest)"
      using scanChunk_render [OF parts(2,3), of k] parts(1,4) False by auto
    let ?hit = "hit chunk (rest = []) s"
    show ?thesis
    proof (cases "0 < k \<and> chunk = []")
      case True
      then have "wildcardMatch (renderGlob is) s = Ok True"
        using scan False by (subst wildcardMatch.simps) simp
      moreover have "globMatches is s"
        using True parts(1,4) globMatches_stars [of "k - 1" "[]" s] by auto
      ultimately show ?thesis
        by simp
    next
      case chunk: False
      have step: "wildcardMatch (renderGlob is) s =
          (if ?hit 0 then wildcardMatch (renderGlob rest) (drop (length chunk) s)
           else if 0 < k then
             (case find ?hit [1..<Suc (length s)] of
                Some j \<Rightarrow> wildcardMatch (renderGlob rest) (drop (j + length chunk) s)
              | None \<Rightarrow> Ok False)
           else Ok False)"
        using scan False chunk m skipMatch_render [OF good(1) parts(2) 1(3), of "rest = []"] chunkOk_length [of chunk s]
        by (subst wildcardMatch.simps) (auto simp: hit_def simp del: upt_Suc split: option.splits)
      have matches: "globMatches is s = (if 0 < k then \<exists>i \<le> length s. globMatches (chunk @ rest) (drop i s)
          else chunkOk chunk s \<and> globMatches rest (drop (length chunk) s))"
        using parts(1) globMatches_stars [of "k - 1" "chunk @ rest" s] globMatches_chunk [OF parts(2), of rest s]
        by (cases k) simp_all
      show ?thesis
      proof (cases "?hit 0")
        case True
        then show ?thesis
          using step matches IH [OF False, of "length chunk"] first_hit [OF parts(2,3), of 0 s]
          by (simp add: hit_def)
      next
        case nohit: False
        show ?thesis
        proof (cases "0 < k")
          case True
          show ?thesis
          proof (cases "find ?hit [1..<Suc (length s)]")
            case None
            then have "\<not> ?hit i" if "i \<le> length s" for i
              using that nohit by (cases i) (auto simp: find_None_iff simp del: upt_Suc)
            then show ?thesis
              using step matches True nohit None no_hit [OF parts(2)] by simp
          next
            case (Some j)
            note j = find_first [OF Some]
            have "\<not> ?hit i" if "i < j" for i
              using that nohit j(4) by (cases i) auto
            then show ?thesis
              using step matches True nohit Some first_hit [OF parts(2,3) _ j(3)] j(2) IH [OF False] by simp
          qed
        next
          case no: False
          then show ?thesis
            using step matches nohit chunkOk_length [of chunk s] by (auto simp: hit_def)
        qed
      qed
    qed
  qed
qed

subsection \<open>The range of a pattern\<close>

text \<open>Byte order, as the keys are ordered.\<close>

fun bytesLess :: "string \<Rightarrow> string \<Rightarrow> bool" where
  "bytesLess s [] = False"
| "bytesLess [] (d # t) = True"
| "bytesLess (c # s) (d # t) = (code c < code d \<or> (c = d \<and> bytesLess s t))"

lemma bytesLess_prefix: "bytesLess (p @ s) (p @ t) = bytesLess s t"
  by (induction p) simp_all

lemma bytesLess_irrefl [simp]: "\<not> bytesLess s s"
  by (induction s) simp_all

lemma bytesLess_extend: "\<not> bytesLess (p @ s) p"
  by (induction p) simp_all

lemma code_byte: "n < 256 \<Longrightarrow> code (byte n) = n"
  by (simp add: code_def byte_def)

lemma code_less: "code c < 256"
  using nat_of_char_less_256 [of c] by (simp add: code_def)

text \<open>A text that begins with the prefix lies between the limits made from it.\<close>

lemma upperLimit_bound:
  assumes "p \<noteq> []" and "code (last p) < 255"
  shows "bytesLess (p @ s) (upperLimit p)"
proof -
  have p: "p @ s = butlast p @ last p # s"
    using assms(1) by simp
  have "upperLimit p = butlast p @ [byte (code (last p) + 1)]"
    using assms(2) by (simp add: upperLimit_def)
  then show ?thesis
    unfolding p using assms(2) by (simp add: bytesLess_prefix code_byte)
qed

lemma stepDown_bound: "p \<noteq> [] \<Longrightarrow> code (last p) = 0 \<Longrightarrow> bytesLess (rev (stepDown (rev p))) (p @ s)"
proof (induction p arbitrary: s rule: rev_induct)
  case (snoc c p)
  show ?case
  proof (cases p rule: rev_cases)
    case Nil
    then show ?thesis using snoc.prems by simp
  next
    case (snoc q d)
    show ?thesis
    proof (cases "code d = 0")
      case True
      then have "rev (stepDown (rev (p @ [c]))) = rev (stepDown (rev p))"
        using snoc snoc.prems by simp
      then show ?thesis
        using snoc.IH [of "c # s"] True snoc by simp
    next
      case False
      then have "rev (stepDown (rev (p @ [c]))) = q @ [byte (code d - 1), byte 255]"
        using snoc snoc.prems by simp
      then show ?thesis
        using False snoc code_less [of d] by (simp add: bytesLess_prefix code_byte)
    qed
  qed
qed simp

lemma lowerLimit_bound:
  assumes "p \<noteq> []"
  shows "bytesLess (lowerLimit p) (p @ s)"
proof (cases "code (last p) = 0")
  case True
  then show ?thesis
    using stepDown_bound [OF assms] by (simp add: lowerLimit_def)
next
  case False
  have p: "p @ s = butlast p @ last p # s"
    using assms by simp
  show ?thesis
    unfolding p using False code_less [of "last p"] by (simp add: lowerLimit_def bytesLess_prefix code_byte)
qed

definition plainChar :: "char \<Rightarrow> bool" where
  "plainChar c = (isAscii c \<and> c \<noteq> ESC \<and> \<not> globChar c)"

lemma render_plain: "list_all plainChar cs \<Longrightarrow> renderGlob (map Lit cs) = cs"
  by (induction cs) (auto simp: plainChar_def globChar_def)

lemma globMatches_literals:
  "globMatches (map Lit cs @ is) s = (\<exists>t. s = cs @ t \<and> globMatches is t)"
  by (induction cs arbitrary: s) (auto simp: globMatches.simps(2) split: list.splits)

lemma renderItem_glob: "\<forall>c. i \<noteq> Lit c \<Longrightarrow> \<exists>g r. renderItem i = g # r \<and> globChar g"
  by (cases i) (simp_all add: globChar_def)

lemma plain_prefix:
  assumes "list_all plainChar cs" and "is \<noteq> []" and "\<forall>c. hd is \<noteq> Lit c"
  shows "takeWhile (\<lambda>c. \<not> globChar c) (cs @ renderGlob is) = cs"
proof -
  obtain g r where "renderGlob is = g # r" "globChar g"
    using assms(2) renderItem_glob [OF assms(3)] by (cases "is") auto
  moreover have "\<forall>c \<in> set cs. \<not> globChar c"
    using assms(1) by (simp add: list_all_iff plainChar_def)
  ultimately show ?thesis
    by simp
qed

lemma plain_good: "list_all plainChar cs \<Longrightarrow> list_all goodItem (map Lit cs)"
  by (induction cs) (simp_all add: plainChar_def)

lemma plain_hd:
  assumes "cs \<noteq> []" and "list_all plainChar cs"
  shows "cs @ r \<noteq> []" and "hd (cs @ r) \<noteq> CHR ''*''"
  using assms by (cases cs; simp add: plainChar_def globChar_def)+

lemma plain_last:
  assumes "cs \<noteq> []" and "list_all plainChar cs"
  shows "code (last cs) < 255"
proof -
  have "plainChar (last cs)"
    using assms by (metis last_in_set list_all_iff)
  then show ?thesis
    by (simp add: plainChar_def isAscii_def)
qed

lemma Parse_prefix:
  assumes "pattern \<noteq> []" and "hd pattern \<noteq> CHR ''*''" and "takeWhile (\<lambda>c. \<not> globChar c) pattern = cs" and "cs \<noteq> []"
  shows "gl_Limits (Parse pattern desc) = (if desc then (upperLimit cs, lowerLimit cs) else (cs, upperLimit cs))"
  using assms by (simp add: Parse_def Let_def)

text \<open>
  C40: A pattern that starts with plain characters and goes on with an item that is no character: every text
  it matches lies in the range \<open>Parse\<close> gives, in either direction.
\<close>

theorem Parse_limits:
  assumes "cs \<noteq> []" and "list_all plainChar cs" and "list_all goodItem is" and "list_all isAscii s"
    and "is \<noteq> []" and "\<forall>c. hd is \<noteq> Lit c"
    and "Match (renderGlob (map Lit cs @ is)) s = Ok True"
  shows "case gl_Limits (Parse (renderGlob (map Lit cs @ is)) desc) of (a, b) \<Rightarrow>
    (if desc then bytesLess b s \<and> bytesLess s a else \<not> bytesLess s a \<and> bytesLess s b)"
proof -
  have good: "list_all goodItem (map Lit cs @ is)"
    by (simp add: assms(3) plain_good [OF assms(2)])
  then have "globMatches (map Lit cs @ is) s"
    using assms(7) Match_items [OF good assms(4)] by simp
  then obtain t where s: "s = cs @ t"
    unfolding globMatches_literals by blast
  have p: "renderGlob (map Lit cs @ is) = cs @ renderGlob is"
    by (simp add: render_plain [OF assms(2)])
  show ?thesis
    unfolding p Parse_prefix [OF plain_hd [OF assms(1,2)] plain_prefix [OF assms(2,5,6)] assms(1)] s
    using upperLimit_bound [OF assms(1) plain_last [OF assms(1,2)], of t] lowerLimit_bound [OF assms(1), of t]
      bytesLess_extend [of cs t]
    by (cases desc) (simp_all only: prod.case if_True if_False simp_thms)
qed

text \<open>
  \<open>Parse\<close> and \<open>IsGlob\<close> do not agree on a pattern that starts with a question mark or a class; a pattern
  with a class that never ends counts as a glob; the range of a pattern with an escaped character or a
  last byte 255 before the wildcard leaves out texts it matches.
\<close>

theorem glob_irregular:
  "IsGlob ''?b'' \<and> \<not> gl_IsGlob (Parse ''?b'' False) \<and> gl_Limits (Parse ''?b'' False) = (''?b'', ''?b'')
   \<and> IsGlob ''x['' \<and> Match ''x['' ''xa'' = Err ()
   \<and> Match [ESC, CHR ''*'', CHR ''*''] ''*a'' = Ok True
   \<and> gl_Limits (Parse [ESC, CHR ''*'', CHR ''*''] False) = ([ESC], CHR '']'' # [])
   \<and> bytesLess ''*a'' [ESC]
   \<and> Match [CHR 0xFF, CHR ''*''] [CHR 0xFF, CHR 0xFF] = Ok True
   \<and> gl_Limits (Parse [CHR 0xFF, CHR ''*''] False) = ([CHR 0xFF], [CHR 0xFF, CHR 0x00])
   \<and> \<not> bytesLess [CHR 0xFF, CHR 0xFF] [CHR 0xFF, CHR 0x00]"
  by (intro conjI; code_simp)

lemma Match_items_witness:
  "Match ''a*[x-z]?'' ''abcyd'' = Ok True"
proof -
  let ?is = "[Lit CHR ''a'', Star, Class False [(CHR ''x'', CHR ''z'')], AnyOne]"
  have "list_all goodItem ?is" "list_all isAscii ''abcyd''" "renderGlob ?is = ''a*[x-z]?''" "globMatches ?is ''abcyd''"
    by code_simp+
  with Match_items [of ?is "''abcyd''"] show ?thesis
    by simp
qed

lemma Parse_limits_witness:
  "\<not> bytesLess ''ab-c'' ''ab'' \<and> bytesLess ''ab-c'' ''ac''"
proof -
  have "case gl_Limits (Parse (renderGlob (map Lit ''ab'' @ [Star])) False) of (a, b) \<Rightarrow>
    (if False then bytesLess b ''ab-c'' \<and> bytesLess ''ab-c'' a else \<not> bytesLess ''ab-c'' a \<and> bytesLess ''ab-c'' b)"
    by (rule Parse_limits) (simp, code_simp, code_simp, code_simp, simp, simp, code_simp)
  moreover have "gl_Limits (Parse (renderGlob (map Lit ''ab'' @ [Star])) False) = (''ab'', ''ac'')"
    by code_simp
  ultimately show ?thesis
    by simp
qed

end
