(* ===== verification/GoTime.thy ===== *)
theory GoTime
  imports Prelude
begin

text \<open>
  Go's integers and times.  A \<open>time.Time\<close> is the number of nanoseconds since the zero time and a duration a
  number of nanoseconds, both of type \<open>int\<close>; an \<open>int\<close> of the program is an \<open>int\<close> between the bounds of 64
  bits, and \<open>wrap64\<close> is what an operation does that leaves them.
\<close>

definition wrap64 :: "int \<Rightarrow> int" where
  "wrap64 z = (z + 2 ^ 63) mod 2 ^ 64 - 2 ^ 63"

lemma wrap64_id: "- (2 ^ 63) \<le> z \<Longrightarrow> z < 2 ^ 63 \<Longrightarrow> wrap64 z = z"
  by (simp add: wrap64_def)

lemma wrap64_range: "- (2 ^ 63) \<le> wrap64 z \<and> wrap64 z < 2 ^ 63"
  by (simp add: wrap64_def)

text \<open>Go's division of integers truncates; \<open>Sub\<close> is kept within 64 bits.\<close>

definition tdiv :: "int \<Rightarrow> int \<Rightarrow> int" where
  "tdiv a b = sgn a * sgn b * (\<bar>a\<bar> div \<bar>b\<bar>)"

definition subTime :: "int \<Rightarrow> int \<Rightarrow> int" where
  "subTime t u = (let d = t - u in if d < - (2 ^ 63) then - (2 ^ 63) else if 2 ^ 63 \<le> d then 2 ^ 63 - 1 else d)"

text \<open>\<open>Time.Truncate\<close> and \<open>Time.Round\<close>.\<close>

definition truncTime :: "int \<Rightarrow> int \<Rightarrow> int" where
  "truncTime d t = (if d \<le> 0 then t else t - t mod d)"

definition roundGo :: "int \<Rightarrow> int \<Rightarrow> int" where
  "roundGo d t = (if d \<le> 0 then t else let r = t mod d in if r + r < d then t - r else t + (d - r))"

end
