(* ===== verification/TimeSeries.thy ===== *)
theory TimeSeries
  imports GoTime "HOL-Library.Word"
begin

text \<open>
  Time series of metrics, \<open>mods/util/metric/timeseries.go\<close>, and the producers that fold the values of an
  interval (\<open>counter.go\<close>, \<open>gauge.go\<close>, \<open>meter.go\<close>, \<open>odometer.go\<close>).

  A \<open>time.Time\<close> is the number of nanoseconds since the zero time, an \<open>int\<close>; a duration is an \<open>int\<close> too.
  Floating-point numbers are a type \<open>'f\<close>.  The producer of a series is a record of functions on a state
  \<open>'p\<close>; its values have the type \<open>'v\<close>, \<open>None\<close> is Go's \<open>nil\<close>.  What a listener is told is kept as a list.
\<close>

subsection \<open>Producers\<close>

record 'v deriver =
  dv_ID :: string
  dv_WindowSize :: int
  dv_Derive :: "'v option list \<Rightarrow> 'v option"

text \<open>
  \<open>po_setDerived\<close> is the method \<open>SetDerivedValue\<close>, \<open>None\<close> for a value that does not have it; \<open>po_isNaN\<close> is
  \<open>val != val\<close>.
\<close>

record ('f, 'p, 'v) producer_ops =
  po_isNaN :: "'f \<Rightarrow> bool"
  po_add :: "'f \<Rightarrow> 'p \<Rightarrow> 'p"
  po_produce :: "bool \<Rightarrow> 'p \<Rightarrow> 'v option \<times> 'p"
  po_derivers :: "'v deriver list"
  po_setDerived :: "string \<Rightarrow> 'v option \<Rightarrow> 'v \<Rightarrow> 'v option"

subsection \<open>The series\<close>

record 'v time_bin =
  tb_Time :: int
  tb_Value :: "'v option"
  tb_IsNull :: bool

record ('p, 'v) time_series =
  ts_producer :: 'p
  ts_lastTime :: int
  ts_data :: "'v time_bin list"
  ts_interval :: int
  ts_maxCount :: int
  ts_lsnr :: "'v time_bin list option"

definition NewTimeSeries :: "int \<Rightarrow> int \<Rightarrow> 'p \<Rightarrow> 'v time_bin list option \<Rightarrow> ('p, 'v) time_series" where
  "NewTimeSeries interval maxCount pr lsnr =
     \<lparr>ts_producer = pr, ts_lastTime = 0, ts_data = [], ts_interval = interval, ts_maxCount = maxCount,
      ts_lsnr = lsnr\<rparr>"

definition roundTime :: "('p, 'v) time_series \<Rightarrow> int \<Rightarrow> int" where
  "roundTime ts t = roundGo (ts_interval ts) (t + tdiv (ts_interval ts) 2)"

definition timeRound :: "('p, 'v) time_series \<Rightarrow> int \<Rightarrow> int" where
  "timeRound ts t = truncTime (ts_interval ts) t"

text \<open>A division by an interval of zero panics.\<close>

definition IntervalBetween :: "('p, 'v) time_series \<Rightarrow> int \<Rightarrow> int \<Rightarrow> ('e, int) res" where
  "IntervalBetween ts prev later =
     (if ts_interval ts = 0 then Panic
      else Ok (tdiv (subTime (timeRound ts later) (timeRound ts prev)) (ts_interval ts)))"

subsection \<open>Reading the last bins\<close>

text \<open>The inner loop: the first index from \<open>k\<close> on whose time is not before \<open>t\<close>; past the end it panics.\<close>

fun advance :: "int \<Rightarrow> int list \<Rightarrow> nat \<Rightarrow> nat option" where
  "advance t [] k = None"
| "advance t (x # xs) k = (if x < t then advance t xs (Suc k) else Some k)"

fun placeBins :: "int list \<Rightarrow> nat \<Rightarrow> 'v option list \<Rightarrow> 'v time_bin list \<Rightarrow> ('e, 'v option list) res" where
  "placeBins tms k values [] = Ok values"
| "placeBins tms k values (tb # tbs) =
     (if length tms \<le> k + 1 then Ok values
      else if tb_Time tb < tms ! k then placeBins tms k values tbs
      else (case advance (tb_Time tb) (drop k tms) k of
              None \<Rightarrow> Panic
            | Some k' \<Rightarrow> placeBins tms k' (values[k' := tb_Value tb]) tbs))"

text \<open>
  The offset computed in \<open>lastN\<close> is assigned to a variable of its own in an inner block, so that the
  loop starts with the first bin.  Both the times and the values are of length 0 or the code panics
  before they are used.
\<close>

definition lastN ::
  "('f, 'p, 'v) producer_ops \<Rightarrow> ('p, 'v) time_series \<Rightarrow> int \<Rightarrow> ('e, int list \<times> 'v option list) res" where
  "lastN po ts n0 =
     (let lt = roundTime ts (ts_lastTime ts);
          lv = fst (po_produce po False (ts_producer ts)) in
      if n0 = 1 then Ok ([lt], [lv])
      else (let n = (if n0 \<le> 0 \<or> ts_maxCount ts < n0 then ts_maxCount ts else n0) in
        if n \<le> 0 then Panic
        else (let tms = map (\<lambda>i. lt - (n - int i - 1) * ts_interval ts) [0..<nat n] in
          rbind (placeBins tms 0 (replicate (nat n) None) (ts_data ts)) (\<lambda>values.
            Ok (tms, if last tms = lt then values[nat n - 1 := lv] else values)))))"

text \<open>
  \<open>runDerivers\<close> on a value that is not kept in the series: the derived values are set one after the
  other, each from the bins of its window.
\<close>

definition windowValues ::
  "('f, 'p, 'v) producer_ops \<Rightarrow> ('p, 'v) time_series \<Rightarrow> bool \<Rightarrow> 'v deriver \<Rightarrow> ('e, 'v option list) res" where
  "windowValues po ts preliminary d =
     (if 0 < dv_WindowSize d
      then rmap (\<lambda>(ts', values). if preliminary then tl values else butlast values) (lastN po ts (dv_WindowSize d + 1))
      else rmap snd (lastN po ts 1))"

fun deriveValue ::
  "('f, 'p, 'v) producer_ops \<Rightarrow> ('p, 'v) time_series \<Rightarrow> 'v deriver list \<Rightarrow> 'v option \<Rightarrow> ('e, 'v option) res" where
  "deriveValue po ts [] cur = Ok cur"
| "deriveValue po ts (d # ds) cur =
     (case cur of
        None \<Rightarrow> Ok cur
      | Some v \<Rightarrow>
          (case po_setDerived po (dv_ID d) None v of
             None \<Rightarrow> Ok cur
           | Some _ \<Rightarrow>
               rbind (windowValues po ts True d) (\<lambda>values.
                 deriveValue po ts ds (po_setDerived po (dv_ID d) (dv_Derive d values) v))))"

text \<open>\<open>runDerivers\<close> on the value of the last bin, which the later derivers of the loop already see changed.\<close>

fun deriveLast ::
  "('f, 'p, 'v) producer_ops \<Rightarrow> 'v deriver list \<Rightarrow> ('p, 'v) time_series \<Rightarrow> ('e, ('p, 'v) time_series) res" where
  "deriveLast po [] ts = Ok ts"
| "deriveLast po (d # ds) ts =
     (case tb_Value (last (ts_data ts)) of
        None \<Rightarrow> Ok ts
      | Some v \<Rightarrow>
          (case po_setDerived po (dv_ID d) None v of
             None \<Rightarrow> Ok ts
           | Some _ \<Rightarrow>
               rbind (windowValues po ts False d) (\<lambda>values.
                 deriveLast po ds (ts\<lparr>ts_data := butlast (ts_data ts)
                   @ [(last (ts_data ts))\<lparr>tb_Value := po_setDerived po (dv_ID d) (dv_Derive d values) v\<rparr>]\<rparr>))))"

definition LastN ::
  "('f, 'p, 'v) producer_ops \<Rightarrow> ('p, 'v) time_series \<Rightarrow> int \<Rightarrow> ('e, int list \<times> 'v option list) res" where
  "LastN po ts n =
     rbind (lastN po ts n) (\<lambda>(tms, values).
       rmap (\<lambda>v. (tms, values[length values - 1 := v])) (deriveValue po ts (po_derivers po) (last values)))"

definition Last :: "('f, 'p, 'v) producer_ops \<Rightarrow> ('p, 'v) time_series \<Rightarrow> ('e, int \<times> 'v option) res" where
  "Last po ts = rmap (\<lambda>(tms, values). (hd tms, hd values)) (LastN po ts 1)"

definition LastBin :: "('f, 'p, 'v) producer_ops \<Rightarrow> ('p, 'v) time_series \<Rightarrow> ('e, 'v time_bin) res" where
  "LastBin po ts = rmap (\<lambda>(tm, val). \<lparr>tb_Time = tm, tb_Value = val, tb_IsNull = (val = None)\<rparr>) (Last po ts)"

definition All :: "('f, 'p, 'v) producer_ops \<Rightarrow> ('p, 'v) time_series \<Rightarrow> ('e, int list \<times> 'v option list) res" where
  "All po ts = LastN po ts 0"

definition After ::
  "('f, 'p, 'v) producer_ops \<Rightarrow> ('p, 'v) time_series \<Rightarrow> int \<Rightarrow> int list \<times> 'v option list" where
  "After po ts t =
     (let tick = t - tdiv (ts_interval ts) 2;
          sub = dropWhile (\<lambda>b. tb_Time b < tick) (ts_data ts) in
      if sub = [] then ([], [])
      else (map tb_Time sub @ [roundTime ts (ts_lastTime ts)],
            map tb_Value sub @ [fst (po_produce po False (ts_producer ts))]))"

subsection \<open>Adding values\<close>

definition takeValue :: "('f, 'p, 'v) producer_ops \<Rightarrow> int \<Rightarrow> 'f \<Rightarrow> ('p, 'v) time_series \<Rightarrow> ('p, 'v) time_series" where
  "takeValue po tm v ts =
     ts\<lparr>ts_lastTime := tm, ts_producer := (if po_isNaN po v then ts_producer ts else po_add po v (ts_producer ts))\<rparr>"

text \<open>Empty bins for the intervals without values; the oldest bin goes when there are too many.\<close>

fun fillGaps :: "int \<Rightarrow> int \<Rightarrow> int \<Rightarrow> nat \<Rightarrow> nat \<Rightarrow> 'v time_bin list \<Rightarrow> 'v time_bin list" where
  "fillGaps interval maxCount lastT i 0 data = data"
| "fillGaps interval maxCount lastT i (Suc n) data =
     (let data1 = data @ [\<lparr>tb_Time = lastT + (int i + 1) * interval, tb_Value = None, tb_IsNull = True\<rparr>] in
      fillGaps interval maxCount lastT (Suc i) n
        (if maxCount - 1 < int (length data1) then tl data1 else data1))"

definition addSeries ::
  "('f, 'p, 'v) producer_ops \<Rightarrow> int \<Rightarrow> 'f \<Rightarrow> ('p, 'v) time_series \<Rightarrow> ('e, ('p, 'v) time_series) res" where
  "addSeries po tm v ts =
     rbind (IntervalBetween ts (ts_lastTime ts) tm) (\<lambda>roll.
       if roll \<le> 0 \<or> ts_lastTime ts = 0 then Ok (takeValue po tm v ts)
       else (let (p, pr) = po_produce po True (ts_producer ts);
                 tb = \<lparr>tb_Time = roundTime ts (ts_lastTime ts), tb_Value = p, tb_IsNull = (p = None)\<rparr>;
                 ts1 = takeValue po tm v (ts\<lparr>ts_producer := pr,
                         ts_lsnr := map_option (\<lambda>l. l @ [tb]) (ts_lsnr ts),
                         ts_data := ts_data ts @ [tb]\<rparr>)
             in rbind (deriveLast po (po_derivers po) ts1) (\<lambda>ts2.
                  let gaps = roll - 1 in
                  if ts_maxCount ts2 - 1 \<le> gaps then Ok (ts2\<lparr>ts_data := []\<rparr>)
                  else (let n = int (length (ts_data ts2));
                            data1 = (if ts_maxCount ts2 - 1 < n
                                     then drop (nat (n - (ts_maxCount ts2 - 1))) (ts_data ts2) else ts_data ts2)
                        in if data1 = [] then Panic
                           else Ok (ts2\<lparr>ts_data := fillGaps (ts_interval ts2) (ts_maxCount ts2)
                                    (tb_Time (last data1)) 0 (nat gaps) data1\<rparr>)))))"

fun addAll ::
  "('f, 'p, 'v) producer_ops \<Rightarrow> (int \<times> 'f) list \<Rightarrow> ('p, 'v) time_series \<Rightarrow> ('e, ('p, 'v) time_series) res" where
  "addAll po [] ts = Ok ts"
| "addAll po ((t, v) # xs) ts = rbind (addSeries po t v ts) (addAll po xs)"

text \<open>\<open>MultiTimeSeries.AddTime\<close>.\<close>

fun addMulti ::
  "('f, 'p, 'v) producer_ops \<Rightarrow> int \<Rightarrow> 'f \<Rightarrow> ('p, 'v) time_series list \<Rightarrow> ('e, ('p, 'v) time_series list) res" where
  "addMulti po t v [] = Ok []"
| "addMulti po t v (ts # mts) =
     rbind (addSeries po t v ts) (\<lambda>ts'. rmap (\<lambda>mts'. ts' # mts') (addMulti po t v mts))"

subsection \<open>The producers\<close>

text \<open>Arithmetic of \<open>float64\<close>; samples are 64-bit integers.  Derived values are left out of the values.\<close>

record 'f float_ops =
  fl_zero :: 'f
  fl_add :: "'f \<Rightarrow> 'f \<Rightarrow> 'f"
  fl_less :: "'f \<Rightarrow> 'f \<Rightarrow> bool"

record 'f counter =
  co_samples :: "64 word"
  co_value :: 'f

definition NewCounter :: "'f float_ops \<Rightarrow> 'f counter" where
  "NewCounter fl = \<lparr>co_samples = 0, co_value = fl_zero fl\<rparr>"

definition Counter_Add :: "'f float_ops \<Rightarrow> 'f \<Rightarrow> 'f counter \<Rightarrow> 'f counter" where
  "Counter_Add fl v c = c\<lparr>co_value := fl_add fl (co_value c) v, co_samples := co_samples c + 1\<rparr>"

definition Counter_Produce :: "'f float_ops \<Rightarrow> bool \<Rightarrow> 'f counter \<Rightarrow> 'f counter option \<times> 'f counter" where
  "Counter_Produce fl reset c =
     (Some \<lparr>co_samples = co_samples c, co_value = co_value c\<rparr>,
      if reset then c\<lparr>co_samples := 0, co_value := fl_zero fl\<rparr> else c)"

record 'f gauge =
  ga_samples :: "64 word"
  ga_sum :: 'f
  ga_value :: 'f

definition NewGauge :: "'f float_ops \<Rightarrow> 'f gauge" where
  "NewGauge fl = \<lparr>ga_samples = 0, ga_sum = fl_zero fl, ga_value = fl_zero fl\<rparr>"

definition Gauge_Add :: "'f float_ops \<Rightarrow> 'f \<Rightarrow> 'f gauge \<Rightarrow> 'f gauge" where
  "Gauge_Add fl v g = g\<lparr>ga_value := v, ga_sum := fl_add fl (ga_sum g) v, ga_samples := ga_samples g + 1\<rparr>"

definition Gauge_Produce :: "'f float_ops \<Rightarrow> bool \<Rightarrow> 'f gauge \<Rightarrow> 'f gauge option \<times> 'f gauge" where
  "Gauge_Produce fl reset g =
     (Some \<lparr>ga_samples = ga_samples g, ga_sum = ga_sum g, ga_value = ga_value g\<rparr>,
      if reset then g\<lparr>ga_value := fl_zero fl, ga_samples := 0, ga_sum := fl_zero fl\<rparr> else g)"

record 'f meter =
  me_first :: 'f
  me_last :: 'f
  me_min :: 'f
  me_max :: 'f
  me_sum :: 'f
  me_samples :: "64 word"

definition NewMeter :: "'f float_ops \<Rightarrow> 'f meter" where
  "NewMeter fl = \<lparr>me_first = fl_zero fl, me_last = fl_zero fl, me_min = fl_zero fl, me_max = fl_zero fl,
     me_sum = fl_zero fl, me_samples = 0\<rparr>"

definition Meter_Add :: "'f float_ops \<Rightarrow> 'f \<Rightarrow> 'f meter \<Rightarrow> 'f meter" where
  "Meter_Add fl v m =
     (let m1 = (if me_samples m = 0 then m\<lparr>me_first := v, me_min := v, me_max := v\<rparr> else m);
          m2 = (if fl_less fl v (me_min m1) then m1\<lparr>me_min := v\<rparr> else m1);
          m3 = (if fl_less fl (me_max m2) v then m2\<lparr>me_max := v\<rparr> else m2)
      in m3\<lparr>me_sum := fl_add fl (me_sum m3) v, me_last := v, me_samples := me_samples m3 + 1\<rparr>)"

definition Meter_Produce :: "'f float_ops \<Rightarrow> bool \<Rightarrow> 'f meter \<Rightarrow> 'f meter option \<times> 'f meter" where
  "Meter_Produce fl reset m =
     (Some \<lparr>me_first = me_first m, me_last = me_last m, me_min = me_min m, me_max = me_max m,
        me_sum = me_sum m, me_samples = me_samples m\<rparr>,
      if reset then m\<lparr>me_first := fl_zero fl, me_last := fl_zero fl, me_min := fl_zero fl, me_max := fl_zero fl,
        me_sum := fl_zero fl, me_samples := 0\<rparr> else m)"

record 'f odometer =
  od_first :: 'f
  od_last :: 'f
  od_samples :: "64 word"
  od_initialized :: bool

definition NewOdometer :: "'f float_ops \<Rightarrow> 'f odometer" where
  "NewOdometer fl = \<lparr>od_first = fl_zero fl, od_last = fl_zero fl, od_samples = 0, od_initialized = False\<rparr>"

definition Odometer_Add :: "'f \<Rightarrow> 'f odometer \<Rightarrow> 'f odometer" where
  "Odometer_Add v o' =
     (let o1 = o'\<lparr>od_samples := od_samples o' + 1\<rparr> in
      if \<not> od_initialized o1 then o1\<lparr>od_first := v, od_last := v, od_initialized := True\<rparr>
      else o1\<lparr>od_last := v\<rparr>)"

definition Odometer_Produce :: "bool \<Rightarrow> 'f odometer \<Rightarrow> ('f \<times> 'f \<times> 64 word) option \<times> 'f odometer" where
  "Odometer_Produce reset o' =
     (Some (od_first o', od_last o', od_samples o'),
      if reset then o'\<lparr>od_first := od_last o', od_samples := 0\<rparr> else o')"

end
