(* ===== verification/TimeSeriesProps.thy ===== *)
theory TimeSeriesProps
  imports TimeSeries
begin

text \<open>
  The properties of time series: the bins of a series are one interval apart and end at the current one,
  the last bins are read at their times, and the bins a listener is told are the values of the intervals.
\<close>

subsection \<open>Times on the grid\<close>

lemma tdiv_nonneg: "0 \<le> a \<Longrightarrow> 0 < b \<Longrightarrow> tdiv a b = a div b"
  by (cases "a = 0") (simp_all add: tdiv_def)

lemma truncTime_bounds:
  assumes "0 < d"
  shows "truncTime d t \<le> t" and "t < truncTime d t + d" and "d dvd truncTime d t"
proof -
  show "truncTime d t \<le> t" "t < truncTime d t + d"
    using assms pos_mod_sign [OF assms, of t] pos_mod_bound [OF assms, of t]
    by (simp_all add: truncTime_def)
  show "d dvd truncTime d t"
    using assms by (simp add: truncTime_def minus_mod_eq_mult_div)
qed

lemma truncTime_mono: "0 < d \<Longrightarrow> t \<le> u \<Longrightarrow> truncTime d t \<le> truncTime d u"
  by (simp add: truncTime_def minus_mod_eq_mult_div zdiv_mono1)

lemma roundTime_trunc:
  assumes "0 < d" and "even d"
  shows "roundGo d (t + tdiv d 2) = truncTime d t + d"
proof -
  obtain h where h: "d = 2 * h"
    using assms(2) by auto
  have tdiv: "tdiv d 2 = h"
    using assms(1) by (simp add: tdiv_nonneg h)
  define r where "r = t mod d"
  have r: "0 \<le> r" "r < d"
    using assms(1) by (simp_all add: r_def)
  have m: "(t + h) mod d = (r + h) mod d"
    by (simp add: r_def mod_add_left_eq)
  show ?thesis
  proof (cases "r < h")
    case True
    then have "(t + h) mod d = r + h"
      using r h unfolding m by (intro mod_pos_pos_trivial) simp_all
    moreover have "\<not> r + h + (r + h) < d"
      using r h by simp
    ultimately show ?thesis
      using assms(1) h unfolding roundGo_def truncTime_def tdiv Let_def by (simp add: r_def)
  next
    case False
    have "(t + h) mod d = (r + h - d) mod d"
      unfolding m by (rule minus_mod_self2 [symmetric])
    also have "\<dots> = r - h"
      using False r h by (subst mod_pos_pos_trivial) simp_all
    finally have "(t + h) mod d = r - h" .
    moreover have "r - h + (r - h) < d"
      using r h by simp
    ultimately show ?thesis
      using assms(1) h unfolding roundGo_def truncTime_def tdiv Let_def by (simp add: r_def)
  qed
qed

text \<open>\<open>n\<close> points one interval apart, the last at \<open>l\<close>.\<close>

definition ladder :: "int \<Rightarrow> int \<Rightarrow> nat \<Rightarrow> int list" where
  "ladder d l n = map (\<lambda>i. l - (int n - 1 - int i) * d) [0..<n]"

lemma length_ladder [simp]: "length (ladder d l n) = n"
  by (simp add: ladder_def)

lemma ladder_nth: "i < n \<Longrightarrow> ladder d l n ! i = l - (int n - 1 - int i) * d"
  by (simp add: ladder_def)

lemma ladder_0 [simp]: "ladder d l 0 = []"
  by (simp add: ladder_def)

lemma ladder_snoc: "ladder d l n @ [l + d] = ladder d (l + d) (Suc n)"
proof (rule nth_equalityI)
  fix i assume "i < length (ladder d l n @ [l + d])"
  then show "(ladder d l n @ [l + d]) ! i = ladder d (l + d) (Suc n) ! i"
    by (cases "i < n") (auto simp: ladder_nth nth_append algebra_simps)
qed simp

lemma drop_ladder: "drop k (ladder d l n) = ladder d l (n - k)"
proof (rule nth_equalityI)
  fix i assume "i < length (drop k (ladder d l n))"
  then show "drop k (ladder d l n) ! i = ladder d l (n - k) ! i"
    by (simp add: ladder_nth of_nat_diff algebra_simps)
qed simp

lemma tl_ladder: "tl (ladder d l n) = ladder d l (n - 1)"
  using drop_ladder [of 1 d l n] by (simp add: drop_Suc)

lemma last_ladder: "0 < n \<Longrightarrow> last (ladder d l n) = l"
  using ladder_snoc [of d "l - d" "n - 1"] by (metis Suc_diff_1 diff_add_cancel last_snoc)

lemma ladder_Cons: "ladder d l (Suc n) = (l - int n * d) # ladder d l n"
proof (rule nth_equalityI)
  fix i assume "i < length (ladder d l (Suc n))"
  then show "ladder d l (Suc n) ! i = ((l - int n * d) # ladder d l n) ! i"
    by (cases i) (simp_all add: ladder_nth algebra_simps)
qed simp

subsection \<open>The bins of a series\<close>

text \<open>
  The series between two calls: the bins are one interval apart, the last of them belongs to the
  interval before the current one, and there are fewer than \<open>maxCount\<close> of them.
\<close>

definition series_ok :: "('p, 'v) time_series \<Rightarrow> bool" where
  "series_ok ts = (0 < ts_interval ts \<and> even (ts_interval ts) \<and> 1 \<le> ts_maxCount ts
     \<and> map tb_Time (ts_data ts) = ladder (ts_interval ts) (truncTime (ts_interval ts) (ts_lastTime ts)) (length (ts_data ts))
     \<and> int (length (ts_data ts)) \<le> ts_maxCount ts - 1
     \<and> (ts_lastTime ts = 0 \<longrightarrow> ts_data ts = []))"

lemma NewTimeSeries_ok: "0 < d \<Longrightarrow> even d \<Longrightarrow> 1 \<le> m \<Longrightarrow> series_ok (NewTimeSeries d m p lsnr)"
  by (simp add: series_ok_def NewTimeSeries_def)

lemma advance_Some:
  "xs \<noteq> [] \<Longrightarrow> t \<le> last xs \<Longrightarrow> \<exists>k'. advance t xs k = Some k' \<and> k \<le> k' \<and> k' < k + length xs"
proof (induction xs arbitrary: k)
  case (Cons x xs)
  show ?case
  proof (cases "x < t")
    case True
    then have "xs \<noteq> []" "t \<le> last xs"
      using Cons.prems(2) by (auto split: if_splits)
    with Cons.IH [of "Suc k"] True show ?thesis
      by auto
  qed auto
qed simp

text \<open>Bins that do not lie behind the last time are placed without a panic.\<close>

lemma placeBins_Ok:
  "k < length tms \<Longrightarrow> \<forall>b \<in> set bs. tb_Time b \<le> last tms \<Longrightarrow> length vs = length tms \<Longrightarrow>
     \<exists>vs'. placeBins tms k vs bs = Ok vs' \<and> length vs' = length tms"
proof (induction bs arbitrary: k vs)
  case (Cons b bs)
  have drop: "drop k tms \<noteq> []" "last (drop k tms) = last tms"
    using Cons.prems(1) by auto
  then obtain k' where "advance (tb_Time b) (drop k tms) k = Some k'" "k' < length tms"
    using advance_Some [of "drop k tms" "tb_Time b" k] Cons.prems(1,2) by auto
  then show ?case
    using Cons by auto
qed simp

text \<open>The number of bins \<open>lastN\<close> returns, and its times.\<close>

definition binCount :: "int \<Rightarrow> int \<Rightarrow> nat" where
  "binCount mc n = nat (if n \<le> 0 \<or> mc < n then mc else n)"

lemma lastN_bins:
  assumes "n \<noteq> 1" and "0 < binCount (ts_maxCount ts) n"
  shows "(lastN po ts n :: ('e, _) res) =
    (let lt = roundTime ts (ts_lastTime ts); tms = ladder (ts_interval ts) lt (binCount (ts_maxCount ts) n) in
     rmap (\<lambda>vs. (tms, vs[binCount (ts_maxCount ts) n - 1 := fst (po_produce po False (ts_producer ts))]))
       (placeBins tms 0 (replicate (binCount (ts_maxCount ts) n) None) (ts_data ts)))"
proof -
  define m where "m = (if n \<le> 0 \<or> ts_maxCount ts < n then ts_maxCount ts else n)"
  define lt where "lt = roundTime ts (ts_lastTime ts)"
  have m: "binCount (ts_maxCount ts) n = nat m" "0 < m" "int (nat m) = m"
    using assms(2) by (auto simp: binCount_def m_def)
  have tms: "map (\<lambda>i. lt - (m - int i - 1) * ts_interval ts) [0..<nat m] = ladder (ts_interval ts) lt (nat m)"
    using m(3) by (simp add: ladder_def algebra_simps)
  show ?thesis
    using assms(1) m(2) last_ladder [of "nat m" "ts_interval ts" lt]
    unfolding lastN_def Let_def m_def [symmetric] lt_def [symmetric] m(1) tms
    by (cases "placeBins (ladder (ts_interval ts) lt (nat m)) 0 (replicate (nat m) None) (ts_data ts) :: ('e, _) res")
      simp_all
qed

lemma lastN_Ok:
  assumes "1 \<le> ts_maxCount ts" and "\<forall>b \<in> set (ts_data ts). tb_Time b \<le> roundTime ts (ts_lastTime ts)"
  shows "\<exists>tms vs. lastN po ts n = (Ok (tms, vs) :: ('e, _) res) \<and> tms \<noteq> [] \<and> length vs = length tms"
proof (cases "n = 1")
  case True
  then show ?thesis by (simp add: lastN_def Let_def)
next
  case False
  have pos: "0 < binCount (ts_maxCount ts) n"
    using assms(1) by (auto simp: binCount_def)
  let ?tms = "ladder (ts_interval ts) (roundTime ts (ts_lastTime ts)) (binCount (ts_maxCount ts) n)"
  obtain vs where "placeBins ?tms 0 (replicate (binCount (ts_maxCount ts) n) None) (ts_data ts) = (Ok vs :: ('e, _) res)" "length vs = binCount (ts_maxCount ts) n"
    using placeBins_Ok [of 0 ?tms "ts_data ts" "replicate (binCount (ts_maxCount ts) n) None"] assms(2) pos
    by (auto simp: last_ladder)
  then show ?thesis
    using pos by (simp add: lastN_bins [OF False pos] Let_def) (metis length_ladder list.size(3) less_irrefl)
qed

lemma windowValues_Ok:
  assumes "1 \<le> ts_maxCount ts" and "\<forall>b \<in> set (ts_data ts). tb_Time b \<le> roundTime ts (ts_lastTime ts)"
  shows "\<exists>vs. windowValues po ts b d = (Ok vs :: ('e, _) res)"
proof -
  obtain t1 v1 t2 v2 where
    "lastN po ts (dv_WindowSize d + 1) = (Ok (t1, v1) :: ('e, _) res)" "lastN po ts 1 = (Ok (t2, v2) :: ('e, _) res)"
    using lastN_Ok [OF assms] by blast
  then show ?thesis
    by (simp add: windowValues_def)
qed

text \<open>Derived values change nothing but the value of the last bin.\<close>

definition same_but_last :: "('p, 'v) time_series \<Rightarrow> ('p, 'v) time_series \<Rightarrow> bool" where
  "same_but_last ts ts' = (\<exists>v. ts' = ts\<lparr>ts_data := butlast (ts_data ts) @ [(last (ts_data ts))\<lparr>tb_Value := v\<rparr>]\<rparr>)"

lemma same_but_last_refl: "ts_data ts \<noteq> [] \<Longrightarrow> same_but_last ts ts"
  unfolding same_but_last_def by (intro exI [of _ "tb_Value (last (ts_data ts))"]) simp

lemma deriveLast_Ok:
  assumes "1 \<le> ts_maxCount ts" and "ts_data ts \<noteq> []"
    and "\<forall>b \<in> set (ts_data ts). tb_Time b \<le> roundTime ts (ts_lastTime ts)"
  shows "\<exists>ts'. deriveLast po ds ts = (Ok ts' :: ('e, _) res) \<and> same_but_last ts ts'"
  using assms
proof (induction ds arbitrary: ts)
  case Nil
  then show ?case by (simp add: same_but_last_refl)
next
  case (Cons d ds)
  show ?case
  proof (cases "\<exists>v w. tb_Value (last (ts_data ts)) = Some v \<and> po_setDerived po (dv_ID d) None v = Some w")
    case True
    then obtain v w where v: "tb_Value (last (ts_data ts)) = Some v" "po_setDerived po (dv_ID d) None v = Some w"
      by blast
    obtain vs where vs: "windowValues po ts False d = (Ok vs :: ('e, _) res)"
      using windowValues_Ok [OF Cons.prems(1,3)] by blast
    let ?ts = "ts\<lparr>ts_data := butlast (ts_data ts)
      @ [(last (ts_data ts))\<lparr>tb_Value := po_setDerived po (dv_ID d) (dv_Derive d vs) v\<rparr>]\<rparr>"
    have "\<forall>b \<in> set (ts_data ?ts). tb_Time b \<le> roundTime ?ts (ts_lastTime ?ts)"
      using Cons.prems(2,3) by (auto simp: roundTime_def dest: in_set_butlastD)
    then obtain ts' where "deriveLast po ds ?ts = (Ok ts' :: ('e, _) res)" "same_but_last ?ts ts'"
      using Cons.IH [of ?ts] Cons.prems(1) by auto
    then show ?thesis
      using v vs by (auto simp: same_but_last_def)
  next
    case False
    then have "deriveLast po (d # ds) ts = (Ok ts :: ('e, _) res)"
      by (auto split: option.splits)
    then show ?thesis
      using same_but_last_refl [OF Cons.prems(2)] by auto
  qed
qed

subsection \<open>Adding keeps the series well-formed\<close>

lemma fillGaps_ladder:
  "map tb_Time data = ladder d (l + int i * d) (length data) \<Longrightarrow> int (length data) \<le> mc - 1 \<Longrightarrow> 1 < mc \<Longrightarrow>
   map tb_Time (fillGaps d mc l i n data) = ladder d (l + int (i + n) * d) (length (fillGaps d mc l i n data))
   \<and> int (length (fillGaps d mc l i n data)) \<le> mc - 1"
proof (induction n arbitrary: i data)
  case (Suc n)
  let ?b = "\<lparr>tb_Time = l + (int i + 1) * d, tb_Value = None, tb_IsNull = True\<rparr>"
  have data1: "map tb_Time (data @ [?b]) = ladder d (l + int (Suc i) * d) (length (data @ [?b]))"
    using Suc.prems(1) ladder_snoc [of d "l + int i * d" "length data"] by (simp add: algebra_simps)
  then have tl: "map tb_Time (tl (data @ [?b])) = ladder d (l + int (Suc i) * d) (length (tl (data @ [?b])))"
    by (simp only: map_tl tl_ladder length_tl)
  show ?case
  proof (cases "mc - 1 < int (length (data @ [?b]))")
    case True
    then show ?thesis
      using Suc.IH [OF tl] Suc.prems(2,3) by (simp add: Let_def)
  next
    case False
    then show ?thesis
      using Suc.IH [OF data1] Suc.prems(3) by (simp add: Let_def)
  qed
qed simp

lemma subTime_small: "- (2 ^ 63) \<le> t - u \<Longrightarrow> t - u < 2 ^ 63 \<Longrightarrow> subTime t u = t - u"
  by (simp add: subTime_def)

text \<open>The number of intervals between two times.\<close>

definition intervals :: "('p, 'v) time_series \<Rightarrow> int \<Rightarrow> int" where
  "intervals ts tm = (truncTime (ts_interval ts) tm - truncTime (ts_interval ts) (ts_lastTime ts)) div ts_interval ts"

definition near :: "('p, 'v) time_series \<Rightarrow> int \<Rightarrow> bool" where
  "near ts tm = (truncTime (ts_interval ts) tm - truncTime (ts_interval ts) (ts_lastTime ts) < 2 ^ 63)"

lemma intervals_mult:
  assumes "0 < ts_interval ts"
  shows "truncTime (ts_interval ts) tm = truncTime (ts_interval ts) (ts_lastTime ts) + intervals ts tm * ts_interval ts"
proof -
  have "ts_interval ts dvd truncTime (ts_interval ts) tm - truncTime (ts_interval ts) (ts_lastTime ts)"
    using truncTime_bounds(3) [OF assms] by (intro dvd_diff)
  then show ?thesis
    by (simp add: intervals_def)
qed

lemma IntervalBetween_near:
  assumes "0 < ts_interval ts" and "ts_lastTime ts \<le> tm" and "near ts tm"
  shows "IntervalBetween ts (ts_lastTime ts) tm = (Ok (intervals ts tm) :: ('e, _) res)" and "0 \<le> intervals ts tm"
proof -
  have mono: "truncTime (ts_interval ts) (ts_lastTime ts) \<le> truncTime (ts_interval ts) tm"
    using assms(1,2) by (rule truncTime_mono)
  then show "IntervalBetween ts (ts_lastTime ts) tm = (Ok (intervals ts tm) :: ('e, _) res)"
    using assms(1,3)
    by (simp add: IntervalBetween_def timeRound_def intervals_def near_def subTime_small tdiv_nonneg)
  show "0 \<le> intervals ts tm"
    using mono assms(1) by (simp add: intervals_def pos_imp_zdiv_nonneg_iff)
qed

text \<open>The bin that ends the current interval, and the bins after it.\<close>

definition newBin :: "('f, 'p, 'v) producer_ops \<Rightarrow> ('p, 'v) time_series \<Rightarrow> 'v time_bin" where
  "newBin po ts = (let v = fst (po_produce po True (ts_producer ts)) in
     \<lparr>tb_Time = roundTime ts (ts_lastTime ts), tb_Value = v, tb_IsNull = (v = None)\<rparr>)"

definition rolled :: "int \<Rightarrow> int \<Rightarrow> int \<Rightarrow> 'v time_bin list \<Rightarrow> 'v time_bin list" where
  "rolled d mc roll data =
     (if mc - 1 \<le> roll - 1 then []
      else let data1 = drop (nat (int (length data) - (mc - 1))) data in
           fillGaps d mc (tb_Time (last data1)) 0 (nat (roll - 1)) data1)"

lemma rolled_ladder:
  assumes "map tb_Time data = ladder d l (length data)" and "data \<noteq> []" and "1 \<le> roll"
  shows "map tb_Time (rolled d mc roll data) = ladder d (l + (roll - 1) * d) (length (rolled d mc roll data))
    \<and> (1 \<le> mc \<longrightarrow> int (length (rolled d mc roll data)) \<le> mc - 1)"
proof (cases "mc - 1 \<le> roll - 1")
  case False
  let ?data1 = "drop (nat (int (length data) - (mc - 1))) data"
  have ne: "?data1 \<noteq> []" and len: "int (length ?data1) \<le> mc - 1"
    using False assms(2,3) length_greater_0_conv [of data] by (simp_all, arith+)
  have tms: "map tb_Time ?data1 = ladder d l (length ?data1)"
    using assms(1) by (simp add: drop_map [symmetric] drop_ladder)
  then have "tb_Time (last ?data1) = l"
    using ne last_ladder [of "length ?data1" d l] last_map [OF ne, of tb_Time] by simp
  then show ?thesis
    using fillGaps_ladder [of ?data1 d l 0 mc "nat (roll - 1)"] tms len False assms(3)
    by (simp add: rolled_def Let_def)
qed (simp add: rolled_def)

lemma same_but_last_simps:
  assumes "same_but_last ts ts'" and "ts_data ts \<noteq> []"
  shows "map tb_Time (ts_data ts') = map tb_Time (ts_data ts)" and "ts_data ts' \<noteq> []"
    and "length (ts_data ts') = length (ts_data ts)"
    and "ts_interval ts' = ts_interval ts" and "ts_maxCount ts' = ts_maxCount ts"
    and "ts_lastTime ts' = ts_lastTime ts" and "ts_producer ts' = ts_producer ts" and "ts_lsnr ts' = ts_lsnr ts"
proof -
  obtain v where v: "ts' = ts\<lparr>ts_data := butlast (ts_data ts) @ [(last (ts_data ts))\<lparr>tb_Value := v\<rparr>]\<rparr>"
    using assms(1) by (auto simp: same_but_last_def)
  have "map tb_Time (ts_data ts) = map tb_Time (butlast (ts_data ts)) @ [tb_Time (last (ts_data ts))]"
    using assms(2) by (metis append_butlast_last_id list.simps(8,9) map_append)
  then show "map tb_Time (ts_data ts') = map tb_Time (ts_data ts)"
    by (simp add: v)
  show "length (ts_data ts') = length (ts_data ts)"
    using assms(2) by (simp add: v)
qed (use assms(1) in \<open>auto simp: same_but_last_def\<close>)

text \<open>The series a call of \<open>add\<close> starts from when the interval is over.\<close>

definition entered :: "('f, 'p, 'v) producer_ops \<Rightarrow> int \<Rightarrow> 'f \<Rightarrow> ('p, 'v) time_series \<Rightarrow> ('p, 'v) time_series" where
  "entered po tm v ts = takeValue po tm v (ts\<lparr>ts_producer := snd (po_produce po True (ts_producer ts)),
     ts_lsnr := map_option (\<lambda>l. l @ [newBin po ts]) (ts_lsnr ts), ts_data := ts_data ts @ [newBin po ts]\<rparr>)"

lemma addSeries_cases:
  assumes ok: "series_ok ts" and le: "ts_lastTime ts \<le> tm" and near: "near ts tm"
  obtains (stay) "intervals ts tm = 0 \<or> ts_lastTime ts = 0" "addSeries po tm v ts = (Ok (takeValue po tm v ts) :: ('e, _) res)"
  | (roll) ts2 where "1 \<le> intervals ts tm" "ts_lastTime ts \<noteq> 0"
      "deriveLast po (po_derivers po) (entered po tm v ts) = (Ok ts2 :: ('e, _) res)"
      "same_but_last (entered po tm v ts) ts2"
      "addSeries po tm v ts = (Ok (ts2\<lparr>ts_data := rolled (ts_interval ts) (ts_maxCount ts) (intervals ts tm) (ts_data ts2)\<rparr>)
         :: ('e, _) res)"
proof -
  have d: "0 < ts_interval ts" "even (ts_interval ts)" and mc: "1 \<le> ts_maxCount ts"
    and tms: "map tb_Time (ts_data ts) = ladder (ts_interval ts) (truncTime (ts_interval ts) (ts_lastTime ts)) (length (ts_data ts))"
    using ok by (simp_all add: series_ok_def)
  have between: "IntervalBetween ts (ts_lastTime ts) tm = (Ok (intervals ts tm) :: ('e, _) res)" "0 \<le> intervals ts tm"
    using IntervalBetween_near [OF d(1) le near] .
  show thesis
  proof (cases "intervals ts tm \<le> 0 \<or> ts_lastTime ts = 0")
    case True
    then show thesis
      using between by (intro stay) (auto simp: addSeries_def)
  next
    case False
    have bins: "tb_Time b \<le> truncTime (ts_interval ts) (ts_lastTime ts)" if b: "b \<in> set (ts_data ts)" for b
    proof -
      have "tb_Time b \<in> set (ladder (ts_interval ts) (truncTime (ts_interval ts) (ts_lastTime ts)) (length (ts_data ts)))"
        using b by (simp add: tms [symmetric])
      then show ?thesis
        using d(1) by (auto simp: ladder_def)
    qed
    have mono: "truncTime (ts_interval ts) (ts_lastTime ts) \<le> truncTime (ts_interval ts) tm"
      using d(1) le by (rule truncTime_mono)
    have "\<forall>b \<in> set (ts_data (entered po tm v ts)).
        tb_Time b \<le> roundTime (entered po tm v ts) (ts_lastTime (entered po tm v ts))"
      using bins mono d roundTime_trunc [OF d] by (fastforce simp: entered_def takeValue_def roundTime_def newBin_def Let_def)
    then obtain ts2 where ts2: "deriveLast po (po_derivers po) (entered po tm v ts) = (Ok ts2 :: ('e, _) res)"
        "same_but_last (entered po tm v ts) ts2"
      using deriveLast_Ok [of "entered po tm v ts" po "po_derivers po"] mc
      by (auto simp: entered_def takeValue_def)
    have ne: "ts_data (entered po tm v ts) \<noteq> []"
      by (simp add: entered_def takeValue_def)
    have fields: "ts_interval ts2 = ts_interval ts" "ts_maxCount ts2 = ts_maxCount ts" "ts_data ts2 \<noteq> []"
      using same_but_last_simps [OF ts2(2) ne] by (simp_all add: entered_def takeValue_def)
    have drop: "(if m < int (length xs) then drop (nat (int (length xs) - m)) xs else xs) = drop (nat (int (length xs) - m)) xs"
      for m and xs :: "'b time_bin list"
      by simp
    have prod: "(case po_produce po True (ts_producer ts) of (p, pr) \<Rightarrow> f p pr)
        = f (fst (po_produce po True (ts_producer ts))) (snd (po_produce po True (ts_producer ts)))" for f :: "_ \<Rightarrow> _ \<Rightarrow> 'z"
      by (simp add: case_prod_beta)
    have "addSeries po tm v ts = rbind (deriveLast po (po_derivers po) (entered po tm v ts)) (\<lambda>ts2.
        let gaps = intervals ts tm - 1 in
        if ts_maxCount ts2 - 1 \<le> gaps then Ok (ts2\<lparr>ts_data := []\<rparr>)
        else (let n = int (length (ts_data ts2));
                  data1 = (if ts_maxCount ts2 - 1 < n
                           then drop (nat (n - (ts_maxCount ts2 - 1))) (ts_data ts2) else ts_data ts2)
              in if data1 = [] then Panic
                 else Ok (ts2\<lparr>ts_data := fillGaps (ts_interval ts2) (ts_maxCount ts2)
                          (tb_Time (last data1)) 0 (nat gaps) data1\<rparr>)) :: ('e, _) res)"
      using False between(1) by (simp add: addSeries_def entered_def newBin_def prod Let_def)
    also have "\<dots> = Ok (ts2\<lparr>ts_data := rolled (ts_interval ts) (ts_maxCount ts) (intervals ts tm) (ts_data ts2)\<rparr>)"
      using False between(2) fields length_greater_0_conv [of "ts_data ts2"]
      by (simp add: ts2(1) rolled_def drop Let_def, arith)
    finally show thesis
      using False ts2 by (intro roll) auto
  qed
qed

text \<open>Between two calls the series is well-formed, and no call in time order panics.\<close>

lemma addSeries_ok:
  assumes "series_ok ts" and "0 < tm" and "ts_lastTime ts \<le> tm" and "near ts tm"
  shows "\<exists>ts'. addSeries po tm v ts = (Ok ts' :: ('e, _) res) \<and> series_ok ts' \<and> ts_lastTime ts' = tm
    \<and> ts_interval ts' = ts_interval ts \<and> ts_maxCount ts' = ts_maxCount ts"
  using assms(1,3,4)
proof (cases rule: addSeries_cases [where po = po and v = v and 'e = 'e])
  case stay
  have "truncTime (ts_interval ts) tm = truncTime (ts_interval ts) (ts_lastTime ts)" if "intervals ts tm = 0"
    using intervals_mult [of ts tm] that assms(1) by (simp add: series_ok_def)
  then have "series_ok (takeValue po tm v ts)"
    using stay(1) assms(1,2) by (auto simp: series_ok_def takeValue_def)
  then show ?thesis
    using stay(2) by (simp add: takeValue_def)
next
  case (roll ts2)
  let ?d = "ts_interval ts" and ?mc = "ts_maxCount ts" and ?T = "truncTime (ts_interval ts) (ts_lastTime ts)"
  have d: "0 < ?d" "even ?d" and mc: "1 \<le> ?mc" and tms: "map tb_Time (ts_data ts) = ladder ?d ?T (length (ts_data ts))"
    using assms(1) by (simp_all add: series_ok_def)
  have ne: "ts_data (entered po tm v ts) \<noteq> []"
    by (simp add: entered_def takeValue_def)
  note same = same_but_last_simps [OF roll(4) ne]
  have "map tb_Time (ts_data ts2) = ladder ?d (?T + ?d) (length (ts_data ts2))"
    using tms ladder_snoc [of ?d ?T "length (ts_data ts)"] roundTime_trunc [OF d, of "ts_lastTime ts"]
    unfolding same(1,3) by (simp add: entered_def takeValue_def newBin_def roundTime_def Let_def)
  from rolled_ladder [OF this same(2) roll(1), of ?mc]
  show ?thesis
    using roll(5) d mc assms(2) intervals_mult [OF d(1), of tm] same(4,5,6)
    by (simp add: series_ok_def entered_def takeValue_def algebra_simps)
qed

end
