(* ===== verification/TimeSeriesGroups.thy ===== *)
theory TimeSeriesGroups
  imports TimeSeriesProps
begin

text \<open>
  What a time series shows: the last bins are the values of the intervals the samples fall into, the same
  as if the samples were grouped by interval first and each group folded from a fresh producer.
\<close>

subsection \<open>Placing the bins\<close>

definition binAt :: "'v time_bin list \<Rightarrow> int \<Rightarrow> 'v option" where
  "binAt bs t = (case find (\<lambda>b. tb_Time b = t) bs of Some b \<Rightarrow> tb_Value b | None \<Rightarrow> None)"

lemma binAt_Nil [simp]: "binAt [] t = None"
  by (simp add: binAt_def)

lemma binAt_Cons: "binAt (b # bs) t = (if tb_Time b = t then tb_Value b else binAt bs t)"
  by (simp add: binAt_def)

lemma binAt_absent: "t \<notin> tb_Time ` set bs \<Longrightarrow> binAt bs t = None"
  by (induction bs) (auto simp: binAt_Cons)

lemma binAt_append: "binAt (as @ bs) t = (if t \<in> tb_Time ` set as then binAt as t else binAt bs t)"
  by (induction as) (auto simp: binAt_Cons)

lemma sorted_ladder: "0 < d \<Longrightarrow> sorted_wrt (<) (ladder d l n)"
  by (auto simp: sorted_wrt_iff_nth_less ladder_nth)

lemma set_ladder: "t \<in> set (ladder d l n) \<longleftrightarrow> (\<exists>j < n. t = l - int j * d)"
proof
  assume "t \<in> set (ladder d l n)"
  then obtain i where "i < n" "t = l - (int n - 1 - int i) * d"
    by (auto simp: ladder_def)
  then show "\<exists>j < n. t = l - int j * d"
    by (intro exI [of _ "n - 1 - i"]) (simp add: of_nat_diff)
next
  assume "\<exists>j < n. t = l - int j * d"
  then obtain j where "j < n" "t = l - int j * d"
    by blast
  then have "t = ladder d l n ! (n - 1 - j)" "n - 1 - j < n"
    by (simp_all add: ladder_nth of_nat_diff)
  then show "t \<in> set (ladder d l n)"
    by (metis length_ladder nth_mem)
qed

lemma set_ladder_le: "0 < d \<Longrightarrow> t \<in> set (ladder d l n) \<Longrightarrow> t \<le> l"
  unfolding set_ladder by auto

lemma advance_at:
  "sorted_wrt (<) xs \<Longrightarrow> j < length xs \<Longrightarrow> advance (xs ! j) xs k = Some (k + j)"
proof (induction xs arbitrary: j k)
  case (Cons x xs)
  then show ?case
    by (cases j) auto
qed simp

lemma placeBins_at:
  assumes "sorted_wrt (<) tms" and "sorted_wrt (<) (map tb_Time bs)" and "k < length tms" and "length vs = length tms"
    and "\<forall>b \<in> set bs. tb_Time b < last tms \<and> (tms ! k \<le> tb_Time b \<longrightarrow> tb_Time b \<in> set tms)"
  shows "placeBins tms k vs bs = (Ok (map (\<lambda>i. if k \<le> i \<and> tms ! i \<in> tb_Time ` set bs then binAt bs (tms ! i) else vs ! i)
    [0..<length tms]) :: ('e, _) res)"
  using assms(2-5)
proof (induction bs arbitrary: k vs)
  case Nil
  then show ?case
    using map_nth [of vs] by simp
next
  case (Cons b bs)
  have mono: "tms ! i \<le> tms ! j" if "i \<le> j" "j < length tms" for i j
    using sorted_wrt_nth_less [OF assms(1), of i j] that by (cases "i = j") auto
  have "tms ! k < last tms" if "tms ! k \<le> tb_Time b"
    using Cons.prems(4) that by auto
  then have more: "tms ! k \<le> tb_Time b \<Longrightarrow> k + 1 < length tms"
    using Cons.prems(2) by (metis Suc_eq_plus1 Suc_lessI diff_Suc_1 last_conv_nth length_greater_0_conv less_irrefl
        less_nat_zero_code list.size(3))
  have later: "tb_Time b < tb_Time c" if "c \<in> set bs" for c
    using Cons.prems(1) that by simp
  show ?case
  proof (cases "tb_Time b < tms ! k")
    case True
    have IH: "placeBins tms k vs bs = (Ok (map (\<lambda>i. if k \<le> i \<and> tms ! i \<in> tb_Time ` set bs then binAt bs (tms ! i) else vs ! i)
      [0..<length tms]) :: ('e, _) res)"
      using Cons.prems by (intro Cons.IH) auto
    have ne: "tms ! i \<noteq> tb_Time b" if "k \<le> i" "i < length tms" for i
      using True mono [OF that] by simp
    then have ne': "tb_Time b \<noteq> tms ! i" if "k \<le> i" "i < length tms" for i
      using that by metis
    show ?thesis
    proof (cases "length tms \<le> k + 1")
      case True
      have absent: "tms ! i \<notin> tb_Time ` set (b # bs)" if "k \<le> i" "i < length tms" for i
      proof -
        have "i = length tms - 1"
          using that True by simp
        then have "tms ! i = last tms"
          using that by (metis last_conv_nth list.size(3) not_less_zero)
        then show ?thesis
          using Cons.prems(4) by auto
      qed
      have "map (\<lambda>i. if k \<le> i \<and> tms ! i \<in> tb_Time ` set (b # bs) then binAt (b # bs) (tms ! i) else vs ! i) [0..<length tms]
        = map ((!) vs) [0..<length vs]"
        using absent Cons.prems(3) by (intro map_cong) auto
      then show ?thesis
        using True by (simp add: map_nth)
    next
      case False
      then show ?thesis
        using True IH ne ne' by (auto simp: binAt_Cons intro!: map_cong)
    qed
  next
    case False
    obtain j where j: "j < length tms" "tb_Time b = tms ! j"
      using False Cons.prems(4) by (auto simp: in_set_conv_nth)
    have "k \<le> j"
      using False j sorted_wrt_nth_less [OF assms(1), of j k] Cons.prems(2) by force
    then have adv: "advance (tb_Time b) (drop k tms) k = Some j"
      using advance_at [of "drop k tms" "j - k" k] j Cons.prems(2) assms(1) by (simp add: sorted_wrt_drop)
    have IH: "placeBins tms j (vs[j := tb_Value b]) bs
      = (Ok (map (\<lambda>i. if j \<le> i \<and> tms ! i \<in> tb_Time ` set bs then binAt bs (tms ! i) else vs[j := tb_Value b] ! i)
      [0..<length tms]) :: ('e, _) res)"
      using Cons.prems mono [OF \<open>k \<le> j\<close> j(1)] by (intro Cons.IH) (auto simp: j(1))
    have behind: "tms ! i \<notin> tb_Time ` set bs" if "i \<le> j" for i
      using later mono [OF that j(1)] j(2) by force
    have inj: "tms ! j = tms ! i \<longleftrightarrow> i = j" if "i < length tms" for i
      using sorted_wrt_nth_less [OF assms(1), of i j] sorted_wrt_nth_less [OF assms(1), of j i] that j(1)
      by (cases i j rule: linorder_cases) auto
    have "map (\<lambda>i. if j \<le> i \<and> tms ! i \<in> tb_Time ` set bs then binAt bs (tms ! i) else vs[j := tb_Value b] ! i) [0..<length tms]
      = map (\<lambda>i. if k \<le> i \<and> tms ! i \<in> tb_Time ` set (b # bs) then binAt (b # bs) (tms ! i) else vs ! i) [0..<length tms]"
    proof (rule map_cong)
      fix i assume "i \<in> set [0..<length tms]"
      then have i: "i < length tms" by simp
      show "(if j \<le> i \<and> tms ! i \<in> tb_Time ` set bs then binAt bs (tms ! i) else vs[j := tb_Value b] ! i)
        = (if k \<le> i \<and> tms ! i \<in> tb_Time ` set (b # bs) then binAt (b # bs) (tms ! i) else vs ! i)"
        using behind [of i] \<open>k \<le> j\<close> i Cons.prems(3) inj [OF i] j by (auto simp: binAt_Cons nth_list_update)
    qed simp
    then show ?thesis
      using False more adv IH by simp
  qed
qed

subsection \<open>The last bins of a well-formed series\<close>

text \<open>The bins of a window ending at \<open>l\<close>: dropping older bins, or adding empty ones, changes nothing in it.\<close>

lemma binAt_drop:
  assumes "map tb_Time bs = ladder d l (length bs)" and "l - (int (length bs) - int k) * d < t" and "k \<le> length bs"
    and "0 < d"
  shows "binAt (drop k bs) t = binAt bs t"
proof -
  have "t \<notin> tb_Time ` set (take k bs)"
  proof
    assume "t \<in> tb_Time ` set (take k bs)"
    then have "t \<in> set (take k (ladder d l (length bs)))"
      by (metis assms(1) list.set_map take_map)
    then obtain i where i: "i < k" "i < length bs" "t = l - (int (length bs) - 1 - int i) * d"
      by (auto simp: in_set_conv_nth ladder_nth)
    have "(int (length bs) - int k) * d \<le> (int (length bs) - 1 - int i) * d"
      using i(1) assms(4) by (intro mult_right_mono) simp_all
    then show False
      using assms(2) i(3) by simp
  qed
  then show ?thesis
    using binAt_append [of "take k bs" "drop k bs" t] by simp
qed

lemma binAt_null: "binAt (bs @ [\<lparr>tb_Time = u, tb_Value = None, tb_IsNull = True\<rparr>]) t = binAt bs t"
  using binAt_absent [of t bs] by (auto simp: binAt_append binAt_Cons)

lemma binAt_fillGaps:
  "map tb_Time bs = ladder d (l + int i * d) (length bs) \<Longrightarrow> int (length bs) \<le> mc - 1 \<Longrightarrow> 1 < mc \<Longrightarrow> 0 < d \<Longrightarrow>
   l + int (i + n) * d - (mc - 1) * d < t \<Longrightarrow> binAt (fillGaps d mc l i n bs) t = binAt bs t"
proof (induction n arbitrary: i bs)
  case (Suc n)
  let ?b = "\<lparr>tb_Time = l + (int i + 1) * d, tb_Value = None, tb_IsNull = True\<rparr>"
  have data1: "map tb_Time (bs @ [?b]) = ladder d (l + int (Suc i) * d) (length (bs @ [?b]))"
    using Suc.prems(1) ladder_snoc [of d "l + int i * d" "length bs"] by (simp add: algebra_simps)
  show ?case
  proof (cases "mc - 1 < int (length (bs @ [?b]))")
    case True
    then have len: "int (length (bs @ [?b])) = mc"
      using Suc.prems(2) by simp
    have pos: "0 \<le> int n * d"
      using Suc.prems(4) by simp
    then have "l + int (Suc i) * d - (mc - 1) * d < t"
      using Suc.prems(5) by (simp add: algebra_simps)
    then have "binAt (drop 1 (bs @ [?b])) t = binAt (bs @ [?b]) t"
      using len Suc.prems(4) by (intro binAt_drop [OF data1]) simp_all
    then have tl: "binAt (tl (bs @ [?b])) t = binAt (bs @ [?b]) t"
      by (simp only: drop_Suc One_nat_def drop0)
    have "map tb_Time (tl (bs @ [?b])) = ladder d (l + int (Suc i) * d) (length (tl (bs @ [?b])))"
      using data1 by (simp only: map_tl tl_ladder length_tl)
    from Suc.IH [OF this] show ?thesis
      using True len Suc.prems(3,4,5) tl binAt_null [of bs "l + (int i + 1) * d" t] by (simp add: Let_def)
  next
    case False
    then show ?thesis
      using Suc.IH [OF data1] Suc.prems(3,4,5) binAt_null [of bs "l + (int i + 1) * d" t] by (simp add: Let_def)
  qed
qed simp

lemma binAt_rolled:
  assumes tms: "map tb_Time bs = ladder d l (length bs)" and "bs \<noteq> []" and "1 \<le> roll" and "0 < d"
    and t: "l + (roll - 1) * d - (mc - 1) * d < t"
  shows "binAt (rolled d mc roll bs) t = binAt bs t"
proof (cases "mc - 1 \<le> roll - 1")
  case True
  then have "(mc - 1) * d \<le> (roll - 1) * d"
    using assms(4) by (intro mult_right_mono) simp_all
  then have "l < t"
    using t by simp
  moreover have "tb_Time b \<le> l" if "b \<in> set bs" for b
  proof -
    have "tb_Time b \<in> set (ladder d l (length bs))"
      using that by (simp add: tms [symmetric])
    then show ?thesis
      using assms(4) by (auto simp: set_ladder)
  qed
  ultimately have "binAt bs t = None"
    by (intro binAt_absent) force
  then show ?thesis
    using True by (simp add: rolled_def)
next
  case False
  let ?k = "nat (int (length bs) - (mc - 1))"
  have k: "?k \<le> length bs" "int (length bs) - int ?k \<le> mc - 1"
    using False assms(3) by auto
  have ne: "drop ?k bs \<noteq> []" and len: "int (length (drop ?k bs)) \<le> mc - 1"
    using False assms(2,3) length_greater_0_conv [of bs] by (simp_all, arith+)
  have tms': "map tb_Time (drop ?k bs) = ladder d l (length (drop ?k bs))"
    using tms by (simp add: drop_map [symmetric] drop_ladder)
  then have last: "tb_Time (last (drop ?k bs)) = l"
    using ne last_ladder [of "length (drop ?k bs)" d l] last_map [OF ne, of tb_Time] by simp
  have "binAt (fillGaps d mc l 0 (nat (roll - 1)) (drop ?k bs)) t = binAt (drop ?k bs) t"
    using tms' len False assms(3,4) t by (intro binAt_fillGaps) simp_all
  also have "\<dots> = binAt bs t"
  proof (cases "?k = 0")
    case False
    then have "int (length bs) - int ?k = mc - 1"
      by simp
    moreover have "0 \<le> (roll - 1) * d"
      using assms(3,4) by (intro mult_nonneg_nonneg) simp_all
    with t have "l - (mc - 1) * d < t"
      by linarith
    ultimately show ?thesis
      using k(1) assms(4) by (intro binAt_drop [OF tms]) (simp_all only:)
  qed simp
  finally show ?thesis
    using False by (simp add: rolled_def last Let_def)
qed

text \<open>\<open>LastN\<close> shows every time of the window: the bin there, \<open>nil\<close> where there is none, the current value last.\<close>

lemma LastN_bins:
  assumes ok: "series_ok ts" and "po_derivers po = []"
  shows "LastN po ts n = (let T = truncTime (ts_interval ts) (ts_lastTime ts) + ts_interval ts;
      tms = ladder (ts_interval ts) T (binCount (ts_maxCount ts) n) in
    (Ok (tms, map (\<lambda>t. if t = T then fst (po_produce po False (ts_producer ts)) else binAt (ts_data ts) t) tms) :: ('e, _) res))"
proof -
  define d where "d = ts_interval ts"
  define T where "T = truncTime d (ts_lastTime ts) + d"
  define m where "m = binCount (ts_maxCount ts) n"
  let ?cur = "fst (po_produce po False (ts_producer ts))"
  define f where "f t = (if t = T then ?cur else binAt (ts_data ts) t)" for t
  have d: "0 < d" "even d" and mc: "1 \<le> ts_maxCount ts"
    and bins: "map tb_Time (ts_data ts) = ladder d (T - d) (length (ts_data ts))"
    using ok by (simp_all add: series_ok_def d_def T_def)
  have lt: "roundTime ts (ts_lastTime ts) = T"
    using roundTime_trunc [OF d] by (simp add: roundTime_def d_def T_def)
  have m: "0 < m" and m1: "n = 1 \<Longrightarrow> m = 1"
    using mc by (auto simp: m_def binCount_def)
  have "lastN po ts n = (Ok (ladder d T m, map f (ladder d T m)) :: ('e, _) res)"
  proof (cases "n = 1")
    case True
    then show ?thesis
      using m1 ladder_Cons [of d T 0] by (simp add: lastN_def lt f_def Let_def)
  next
    case False
    have at: "tb_Time b < last (ladder d T m) \<and> (ladder d T m ! 0 \<le> tb_Time b \<longrightarrow> tb_Time b \<in> set (ladder d T m))"
      if b: "b \<in> set (ts_data ts)" for b
    proof -
      have "tb_Time b \<in> set (ladder d (T - d) (length (ts_data ts)))"
        using b by (simp add: bins [symmetric])
      then obtain j where j: "tb_Time b = T - int (Suc j) * d"
        by (auto simp: set_ladder algebra_simps)
      have "Suc j < m" if "ladder d T m ! 0 \<le> tb_Time b"
        using that j d(1) m by (simp add: ladder_nth)
      then show ?thesis
        using j d(1) m unfolding set_ladder by (auto simp: last_ladder)
    qed
    have "sorted_wrt (<) (map tb_Time (ts_data ts))"
      using sorted_ladder [OF d(1)] by (simp add: bins)
    then have "placeBins (ladder d T m) 0 (replicate m None) (ts_data ts) = (Ok (map (\<lambda>i. if 0 \<le> i
          \<and> ladder d T m ! i \<in> tb_Time ` set (ts_data ts) then binAt (ts_data ts) (ladder d T m ! i)
          else replicate m None ! i) [0..<length (ladder d T m)]) :: ('e, _) res)"
      using m at by (intro placeBins_at sorted_ladder [OF d(1)]) simp_all
    also have "\<dots> = Ok (map (binAt (ts_data ts)) (ladder d T m))"
      by (auto simp: binAt_absent intro!: nth_equalityI)
    finally have place: "placeBins (ladder d T m) 0 (replicate m None) (ts_data ts)
        = (Ok (map (binAt (ts_data ts)) (ladder d T m)) :: ('e, _) res)" .
    have "(map (binAt (ts_data ts)) (ladder d T m))[m - 1 := ?cur]
        = map f (ladder d T m)"
    proof (rule nth_equalityI)
      fix i assume i: "i < length ((map (binAt (ts_data ts)) (ladder d T m))[m - 1 := ?cur])"
      have "ladder d T m ! i = T \<longleftrightarrow> i = m - 1"
        using i d(1) by (auto simp: ladder_nth of_nat_diff)
      then show "(map (binAt (ts_data ts)) (ladder d T m))[m - 1 := ?cur] ! i
          = map f (ladder d T m) ! i"
        using i by (auto simp: f_def nth_list_update)
    qed simp
    then show ?thesis
      using False m place by (simp add: lastN_bins lt m_def [symmetric] d_def [symmetric] Let_def)
  qed
  moreover have "last (map f (ladder d T m)) = f T"
    using m last_ladder [of m d T] last_map [of "ladder d T m" f] by (metis length_ladder list.size(3) less_irrefl)
  moreover have "(map f (ladder d T m))[m - 1 := f T] = map f (ladder d T m)"
    using m ladder_nth [of "m - 1" m d T] by (intro list_update_same_conv [THEN iffD2]) (simp_all add: of_nat_diff)
  ultimately have "LastN po ts n = (Ok (ladder d T m, map f (ladder d T m)) :: ('e, _) res)"
    using assms(2) by (simp add: LastN_def)
  then show ?thesis
    by (simp add: f_def d_def [symmetric] T_def [symmetric] m_def [symmetric] Let_def)
qed

subsection \<open>Grouping the samples\<close>

text \<open>The end of the interval of a time, and the samples of the interval that ends at \<open>t\<close>.\<close>

definition endOf :: "int \<Rightarrow> int \<Rightarrow> int" where
  "endOf d tm = truncTime d tm + d"

definition groupOf :: "int \<Rightarrow> (int \<times> 'f) list \<Rightarrow> int \<Rightarrow> 'f list" where
  "groupOf d xs t = map snd (filter (\<lambda>x. endOf d (fst x) = t) xs)"

definition feed :: "('f, 'p, 'v) producer_ops \<Rightarrow> 'p \<Rightarrow> 'f list \<Rightarrow> 'p" where
  "feed po p g = fold (\<lambda>v p. if po_isNaN po v then p else po_add po v p) g p"

definition groupValue :: "('f, 'p, 'v) producer_ops \<Rightarrow> 'p \<Rightarrow> int \<Rightarrow> (int \<times> 'f) list \<Rightarrow> int \<Rightarrow> 'v option" where
  "groupValue po p0 d xs t =
     (if groupOf d xs t = [] then None else fst (po_produce po True (feed po p0 (groupOf d xs t))))"

definition groupEnds :: "int \<Rightarrow> (int \<times> 'f) list \<Rightarrow> int list" where
  "groupEnds d xs = remdups_adj (map (\<lambda>x. endOf d (fst x)) xs)"

text \<open>Samples in time order after the zero time, with gaps that fit a duration.\<close>

definition timely :: "int \<Rightarrow> (int \<times> 'f) list \<Rightarrow> bool" where
  "timely d xs = ((\<forall>x \<in> set xs. 0 < fst x)
     \<and> successively (\<lambda>x y. fst x \<le> fst y \<and> endOf d (fst y) - endOf d (fst x) < 2 ^ 63) xs)"

lemma remdups_adj_snoc: "xs \<noteq> [] \<Longrightarrow> remdups_adj (xs @ [y]) = remdups_adj xs @ (if last xs = y then [] else [y])"
  using remdups_adj_append_two [of "butlast xs" "last xs" y] by (metis append_assoc append_Cons append_Nil append_butlast_last_id)

lemma groupEnds_snoc:
  "xs \<noteq> [] \<Longrightarrow> groupEnds d (xs @ [(tm, v)])
     = groupEnds d xs @ (if endOf d tm = endOf d (fst (last xs)) then [] else [endOf d tm])"
  by (auto simp: groupEnds_def remdups_adj_snoc last_map)

lemma groupOf_snoc: "groupOf d (xs @ [(tm, v)]) t = groupOf d xs t @ (if endOf d tm = t then [v] else [])"
  by (simp add: groupOf_def)

lemma groupOf_Nil_iff: "groupOf d xs t = [] \<longleftrightarrow> (\<forall>x \<in> set xs. endOf d (fst x) \<noteq> t)"
  by (auto simp: groupOf_def filter_empty_conv)

lemma feed_snoc: "feed po p (g @ [v]) = (if po_isNaN po v then feed po p g else po_add po v (feed po p g))"
  by (simp add: feed_def)

lemma groupValue_snoc: "endOf d tm \<noteq> t \<Longrightarrow> groupValue po p0 d (xs @ [(tm, v)]) t = groupValue po p0 d xs t"
  by (simp add: groupValue_def groupOf_snoc)

lemma endOf_mono: "0 < d \<Longrightarrow> t \<le> u \<Longrightarrow> endOf d t \<le> endOf d u"
  by (simp add: endOf_def truncTime_mono)

lemma timely_snoc:
  "timely d (xs @ [(tm, v)]) \<longleftrightarrow> timely d xs \<and> 0 < tm
     \<and> (xs = [] \<or> fst (last xs) \<le> tm \<and> endOf d tm - endOf d (fst (last xs)) < 2 ^ 63)"
  by (auto simp: timely_def successively_append_iff)

lemma addAll_append: "addAll po (xs @ ys) ts = rbind (addAll po xs ts) (addAll po ys)"
  by (induction xs arbitrary: ts) (auto simp: rbind_assoc intro!: rbind_cong)

text \<open>
  The contract of a producer that starts afresh: a reset returns it to its first state, and reading
  it leaves it as it is.
\<close>

locale resetting =
  fixes po :: "('f, 'p, 'v) producer_ops" and p0 :: 'p
  assumes reset: "snd (po_produce po True p) = p0"
    and keep: "snd (po_produce po False p) = p"
    and same: "fst (po_produce po True p) = fst (po_produce po False p)"
    and plain: "po_derivers po = []"
begin

text \<open>What holds of the series after the samples \<open>xs\<close>.\<close>

definition groupBin :: "int \<Rightarrow> (int \<times> 'f) list \<Rightarrow> int \<Rightarrow> 'v time_bin" where
  "groupBin d xs t = (let v = groupValue po p0 d xs t in \<lparr>tb_Time = t, tb_Value = v, tb_IsNull = (v = None)\<rparr>)"

definition follows :: "int \<Rightarrow> int \<Rightarrow> 'v time_bin list option \<Rightarrow> (int \<times> 'f) list \<Rightarrow> ('p, 'v) time_series \<Rightarrow> bool" where
  "follows d mc log xs ts = (series_ok ts \<and> ts_interval ts = d \<and> ts_maxCount ts = mc \<and> ts_lastTime ts = fst (last xs)
     \<and> (\<forall>x \<in> set xs. fst x \<le> ts_lastTime ts)
     \<and> ts_producer ts = feed po p0 (groupOf d xs (endOf d (ts_lastTime ts)))
     \<and> (\<forall>t. endOf d (ts_lastTime ts) - mc * d < t \<longrightarrow> t < endOf d (ts_lastTime ts) \<longrightarrow> d dvd t
          \<longrightarrow> binAt (ts_data ts) t = groupValue po p0 d xs t)
     \<and> (\<forall>t \<in> set (butlast (groupEnds d xs)). t < endOf d (ts_lastTime ts))
     \<and> ts_lsnr ts = map_option (\<lambda>l. l @ map (groupBin d xs) (butlast (groupEnds d xs))) log)"

lemma follows_first:
  assumes "0 < d" "even d" "1 \<le> mc" "0 < tm"
  shows "\<exists>ts. addSeries po tm v (NewTimeSeries d mc p0 log) = (Ok ts :: ('e, _) res) \<and> follows d mc log [(tm, v)] ts"
proof -
  have ok: "series_ok (NewTimeSeries d mc p0 log :: ('p, 'v) time_series)"
    using assms by (intro NewTimeSeries_ok)
  have "addSeries po tm v (NewTimeSeries d mc p0 log) = (Ok (takeValue po tm v (NewTimeSeries d mc p0 log)) :: ('e, _) res)"
    using assms(1) by (simp add: addSeries_def IntervalBetween_def NewTimeSeries_def)
  moreover have "follows d mc log [(tm, v)] (takeValue po tm v (NewTimeSeries d mc p0 log))"
    using assms by (auto simp: follows_def takeValue_def NewTimeSeries_def series_ok_def groupValue_def groupOf_def
        groupEnds_def feed_def map_option.identity)
  ultimately show ?thesis
    by blast
qed

lemma groupBin_snoc: "t \<noteq> endOf d tm \<Longrightarrow> groupBin d (xs @ [(tm, v)]) t = groupBin d xs t"
  by (simp add: groupBin_def groupValue_snoc)

lemma groupBins_snoc:
  "\<forall>t \<in> set ts. t < endOf d tm \<Longrightarrow> map (groupBin d (xs @ [(tm, v)])) ts = map (groupBin d xs) ts"
  by (auto simp: groupBin_snoc)

lemma groupValue_later:
  assumes "follows d mc log xs ts" and "endOf d (ts_lastTime ts) < t"
  shows "groupValue po p0 d xs t = None"
proof -
  have "0 < d" and le: "\<forall>x \<in> set xs. fst x \<le> ts_lastTime ts"
    using assms(1) unfolding follows_def series_ok_def by blast+
  then have "endOf d (fst x) \<le> endOf d (ts_lastTime ts)" if "x \<in> set xs" for x
    using that by (simp add: endOf_mono)
  then have "groupOf d xs t = []"
    using assms(2) unfolding groupOf_Nil_iff by fastforce
  then show ?thesis
    by (simp add: groupValue_def)
qed

lemma follows_stay:
  assumes fol: "follows d mc log xs ts" and xs: "xs \<noteq> []" and tm: "ts_lastTime ts \<le> tm" "0 < tm"
    and same_end: "endOf d tm = endOf d (ts_lastTime ts)"
  shows "follows d mc log (xs @ [(tm, v)]) (takeValue po tm v ts)"
proof -
  have ok: "series_ok ts" and d: "ts_interval ts = d" and last: "ts_lastTime ts = fst (last xs)"
    using fol by (simp_all add: follows_def)
  have parts: "ts_maxCount ts = mc" "ts_producer ts = feed po p0 (groupOf d xs (endOf d (ts_lastTime ts)))"
    "\<forall>t. endOf d (ts_lastTime ts) - mc * d < t \<longrightarrow> t < endOf d (ts_lastTime ts) \<longrightarrow> d dvd t
      \<longrightarrow> binAt (ts_data ts) t = groupValue po p0 d xs t"
    "ts_lsnr ts = map_option (\<lambda>l. l @ map (groupBin d xs) (butlast (groupEnds d xs))) log"
    using fol unfolding follows_def by blast+
  have before: "\<forall>t \<in> set (butlast (groupEnds d xs)). t < endOf d tm"
    using fol unfolding follows_def same_end by blast
  have "series_ok (takeValue po tm v ts)"
    using ok same_end tm(2) by (simp add: series_ok_def takeValue_def endOf_def d)
  moreover have "groupEnds d (xs @ [(tm, v)]) = groupEnds d xs"
    using xs same_end last by (simp add: groupEnds_snoc)
  moreover have "map (groupBin d (xs @ [(tm, v)])) (butlast (groupEnds d xs)) = map (groupBin d xs) (butlast (groupEnds d xs))"
    using before by (rule groupBins_snoc)
  moreover have "\<forall>x \<in> set xs. fst x \<le> tm"
    using fol tm(1) by (auto simp: follows_def)
  ultimately show ?thesis
    using parts before unfolding follows_def
    by (simp add: takeValue_def groupOf_snoc feed_snoc groupValue_snoc same_end d del: map_eq_conv)
qed

lemma entered_fields:
  "ts_lastTime (entered po tm v ts) = tm" "ts_interval (entered po tm v ts) = ts_interval ts"
  "ts_maxCount (entered po tm v ts) = ts_maxCount ts" "ts_data (entered po tm v ts) = ts_data ts @ [newBin po ts]"
  "ts_producer (entered po tm v ts) = feed po p0 [v]"
  "ts_lsnr (entered po tm v ts) = map_option (\<lambda>l. l @ [newBin po ts]) (ts_lsnr ts)"
  by (simp_all add: entered_def takeValue_def reset feed_def)

lemma follows_roll:
  assumes fol: "follows d mc log xs ts" and xs: "xs \<noteq> []" and tm: "ts_lastTime ts \<le> tm" "0 < tm"
    and roll: "1 \<le> intervals ts tm"
    and ok': "series_ok ((entered po tm v ts)\<lparr>ts_data := rolled d mc (intervals ts tm) (ts_data ts @ [newBin po ts])\<rparr>)"
  shows "follows d mc log (xs @ [(tm, v)])
    ((entered po tm v ts)\<lparr>ts_data := rolled d mc (intervals ts tm) (ts_data ts @ [newBin po ts])\<rparr>)"
proof -
  let ?E = "endOf d (ts_lastTime ts)" and ?E' = "endOf d tm" and ?bs = "ts_data ts @ [newBin po ts]"
  have ok: "series_ok ts" and di: "ts_interval ts = d" and mci: "ts_maxCount ts = mc" and last: "ts_lastTime ts = fst (last xs)"
    and prod: "ts_producer ts = feed po p0 (groupOf d xs ?E)"
    using fol by (simp_all add: follows_def)
  have d: "0 < d" "even d"
    and tms: "map tb_Time (ts_data ts) = ladder d (?E - d) (length (ts_data ts))"
    using ok by (simp_all add: series_ok_def di endOf_def)
  have E': "?E' = ?E + intervals ts tm * d"
    using intervals_mult [of ts tm] d(1) by (simp add: endOf_def di)
  have "1 * d \<le> intervals ts tm * d"
    using roll d(1) by (intro mult_right_mono) simp_all
  with E' have E'_le: "?E + d \<le> ?E'"
    by simp
  have mem: "last xs \<in> set xs"
    using xs by simp
  then have cur: "groupOf d xs ?E \<noteq> []"
    using last by (auto simp: groupOf_Nil_iff)
  have new: "newBin po ts = groupBin d xs ?E"
    using roundTime_trunc [OF d] cur
    by (simp add: newBin_def groupBin_def groupValue_def roundTime_def di prod endOf_def)
  have btms: "map tb_Time ?bs = ladder d ?E (length ?bs)"
    using tms ladder_snoc [of d "?E - d" "length (ts_data ts)"] by (simp add: new groupBin_def Let_def)
  have data: "binAt (rolled d mc (intervals ts tm) ?bs) t = groupValue po p0 d (xs @ [(tm, v)]) t"
    if t: "?E' - mc * d < t" "t < ?E'" "d dvd t" for t
  proof -
    have "?E + (intervals ts tm - 1) * d - (mc - 1) * d < t"
      using t(1) by (simp add: E' algebra_simps)
    then have "binAt (rolled d mc (intervals ts tm) ?bs) t = binAt ?bs t"
      using btms roll d(1) by (intro binAt_rolled) simp_all
    also have "\<dots> = groupValue po p0 d xs t"
    proof (cases t ?E rule: linorder_cases)
      case less
      have "?E - mc * d < t"
        using t(1) E'_le d(1) by simp
      then have "binAt (ts_data ts) t = groupValue po p0 d xs t"
        using fol less t(3) unfolding follows_def by blast
      moreover have "binAt [newBin po ts] t = None"
        using less by (simp add: binAt_Cons new groupBin_def Let_def)
      ultimately show ?thesis
        using binAt_absent [of t "ts_data ts"] by (auto simp: binAt_append)
    next
      case equal
      have "- d \<noteq> int j * d" for j
        using d(1) mult_nonneg_nonneg [of "int j" d] by linarith
      then have "?E \<notin> set (ladder d (?E - d) (length (ts_data ts)))"
        by (auto simp: set_ladder)
      then show ?thesis
        using equal by (simp add: binAt_append binAt_Cons new groupBin_def Let_def tms [symmetric])
    next
      case greater
      have "t \<notin> set (ladder d ?E (length ?bs))"
        using greater set_ladder_le [OF d(1), of t ?E "length ?bs"] by auto
      then have "binAt ?bs t = None"
        by (intro binAt_absent) (metis btms list.set_map)
      then show ?thesis
        using groupValue_later [OF fol greater] by simp
    qed
    also have "\<dots> = groupValue po p0 d (xs @ [(tm, v)]) t"
      using t(2) by (simp add: groupValue_snoc)
    finally show ?thesis .
  qed
  have ends: "groupEnds d (xs @ [(tm, v)]) = groupEnds d xs @ [?E']"
    using xs E'_le d(1) last by (simp add: groupEnds_snoc)
  have "groupEnds d xs \<noteq> []" "last (groupEnds d xs) = ?E"
    using xs last by (simp_all add: groupEnds_def last_map)
  then have ends_xs: "groupEnds d xs = butlast (groupEnds d xs) @ [?E]"
    by (metis append_butlast_last_id)
  have before: "\<forall>t \<in> set (groupEnds d xs). t < ?E'"
    using fol E'_le d(1) by (subst ends_xs) (auto simp: follows_def)
  have log: "map (groupBin d (xs @ [(tm, v)])) (groupEnds d xs)
      = map (groupBin d xs) (butlast (groupEnds d xs)) @ [newBin po ts]"
    using groupBins_snoc [OF before] by (subst (asm) (2) ends_xs) (simp add: new)
  have "groupOf d (xs @ [(tm, v)]) ?E' = [v]"
  proof -
    have "groupOf d xs ?E' = []"
      using groupValue_later [OF fol, of ?E'] E'_le d(1) endOf_mono [OF d(1)] fol
      unfolding groupOf_Nil_iff follows_def by fastforce
    then show ?thesis
      by (simp add: groupOf_snoc)
  qed
  moreover have "\<forall>x \<in> set xs. fst x \<le> tm"
    using fol tm(1) by (auto simp: follows_def)
  moreover have "ts_lsnr (entered po tm v ts) = map_option (\<lambda>l. l @ map (groupBin d (xs @ [(tm, v)])) (groupEnds d xs)) log"
    using fol by (simp add: entered_fields log follows_def option.map_comp comp_def)
  ultimately show ?thesis
    using ok' data before by (simp add: follows_def entered_fields di mci ends)
qed

lemma follows_step:
  assumes fol: "follows d mc log xs ts" and xs: "xs \<noteq> []" and timely: "timely d (xs @ [(tm, v)])"
  shows "\<exists>ts'. addSeries po tm v ts = (Ok ts' :: ('e, _) res) \<and> follows d mc log (xs @ [(tm, v)]) ts'"
proof -
  have ok: "series_ok ts" and di: "ts_interval ts = d" and mci: "ts_maxCount ts = mc" and last: "ts_lastTime ts = fst (last xs)"
    using fol by (simp_all add: follows_def)
  have tm: "0 < tm" "ts_lastTime ts \<le> tm" and near: "near ts tm"
    using timely xs last by (simp_all add: timely_snoc near_def di endOf_def)
  have pos: "ts_lastTime ts \<noteq> 0"
  proof -
    have "last xs \<in> set xs"
      using xs by simp
    then show ?thesis
      using timely last by (auto simp: timely_snoc timely_def)
  qed
  obtain ts' where ts': "addSeries po tm v ts = (Ok ts' :: ('e, _) res)" "series_ok ts'"
    using addSeries_ok [OF ok tm near, of po v] by blast
  show ?thesis
    using ok tm(2) near
  proof (cases rule: addSeries_cases [where po = po and v = v and 'e = 'e])
    case stay
    then have "endOf d tm = endOf d (ts_lastTime ts)"
      using pos intervals_mult [of ts tm] ok by (simp add: series_ok_def endOf_def di)
    then have "follows d mc log (xs @ [(tm, v)]) (takeValue po tm v ts)"
      by (rule follows_stay [OF fol xs tm(2,1)])
    then show ?thesis
      using stay(2) by (intro exI conjI)
  next
    case (roll ts2)
    have ts2: "ts2 = entered po tm v ts"
      using roll(3) by (simp add: plain)
    have eq: "ts' = (entered po tm v ts)\<lparr>ts_data := rolled d mc (intervals ts tm) (ts_data ts @ [newBin po ts])\<rparr>"
      using ts'(1) [unfolded roll(5)] by (simp only: res.inject ts2 di mci entered_fields)
    have "follows d mc log (xs @ [(tm, v)]) ts'"
      using ts'(2) unfolding eq by (rule follows_roll [OF fol xs tm(2,1) roll(1)])
    then show ?thesis
      using ts'(1) by (intro exI conjI)
  qed
qed

text \<open>Every timely sequence of samples is taken, and the series follows it.\<close>

lemma addAll_follows:
  assumes d: "0 < d" "even d" "1 \<le> mc"
  shows "xs \<noteq> [] \<Longrightarrow> timely d xs \<Longrightarrow>
    \<exists>ts. addAll po xs (NewTimeSeries d mc p0 log) = (Ok ts :: ('e, _) res) \<and> follows d mc log xs ts"
proof (induction xs rule: rev_induct)
  case (snoc x xs)
  obtain tm v where x: "x = (tm, v)"
    by (cases x)
  show ?case
  proof (cases "xs = []")
    case True
    have "0 < tm"
      using snoc.prems(2) by (simp add: x timely_def)
    from follows_first [OF d this] obtain ts where
      "addSeries po tm v (NewTimeSeries d mc p0 log) = (Ok ts :: ('e, _) res)" "follows d mc log [(tm, v)] ts"
      by blast
    then show ?thesis
      using True by (simp add: x)
  next
    case False
    then obtain ts where ts: "addAll po xs (NewTimeSeries d mc p0 log) = (Ok ts :: ('e, _) res)" "follows d mc log xs ts"
      using snoc by (auto simp: x timely_snoc)
    obtain ts' where "addSeries po tm v ts = (Ok ts' :: ('e, _) res)" "follows d mc log (xs @ [(tm, v)]) ts'"
      using follows_step [OF ts(2) False] snoc.prems(2) x by blast
    then show ?thesis
      using ts(1) by (auto simp: x addAll_append)
  qed
qed simp

text \<open>The window \<open>LastN\<close> shows is the list of the group values, and the listener was told the finished groups.\<close>

lemma LastN_follows:
  assumes fol: "follows d mc log xs ts" and xs: "xs \<noteq> []"
  shows "LastN po ts n = (let tms = ladder d (endOf d (fst (last xs))) (binCount mc n) in
    Ok (tms, map (groupValue po p0 d xs) tms) :: ('e, _) res)"
proof -
  let ?E = "endOf d (ts_lastTime ts)"
  have ok: "series_ok ts" and di: "ts_interval ts = d" and mci: "ts_maxCount ts = mc" and last: "ts_lastTime ts = fst (last xs)"
    and prod: "ts_producer ts = feed po p0 (groupOf d xs ?E)"
    using fol by (simp_all add: follows_def)
  have d: "0 < d" and mc: "1 \<le> mc"
    using ok by (simp_all add: series_ok_def di mci)
  have "last xs \<in> set xs"
    using xs by simp
  then have cur: "groupValue po p0 d xs ?E = fst (po_produce po False (ts_producer ts))"
    using last by (auto simp: groupValue_def groupOf_Nil_iff prod same)
  have le: "binCount mc n \<le> nat mc"
    using mc by (auto simp: binCount_def mci)
  have "(if t = ?E then fst (po_produce po False (ts_producer ts)) else binAt (ts_data ts) t) = groupValue po p0 d xs t"
    if t: "t \<in> set (ladder d ?E (binCount mc n))" for t
  proof (cases "t = ?E")
    case False
    obtain j where j: "j < binCount mc n" "t = ?E - int j * d"
      using t unfolding set_ladder by blast
    then have "0 < int j" "int j < mc"
      using False le by (auto intro: ccontr)
    then have "0 < int j * d" "int j * d < mc * d"
      using d by simp_all
    moreover have "d dvd t"
      using truncTime_bounds(3) [OF d] by (simp add: j(2) endOf_def)
    ultimately show ?thesis
      using fol j(2) False unfolding follows_def by simp
  qed (simp add: cur)
  then show ?thesis
    using LastN_bins [OF ok plain, of n] last by (simp add: di mci endOf_def Let_def cong: map_cong)
qed

end

subsection \<open>The producers\<close>

definition counterOps :: "('f \<Rightarrow> bool) \<Rightarrow> 'f float_ops \<Rightarrow> ('f, 'f counter, 'f counter) producer_ops" where
  "counterOps nan fl = \<lparr>po_isNaN = nan, po_add = Counter_Add fl, po_produce = Counter_Produce fl, po_derivers = [],
     po_setDerived = (\<lambda>i dv v. Some v)\<rparr>"

definition gaugeOps :: "('f \<Rightarrow> bool) \<Rightarrow> 'f float_ops \<Rightarrow> ('f, 'f gauge, 'f gauge) producer_ops" where
  "gaugeOps nan fl = \<lparr>po_isNaN = nan, po_add = Gauge_Add fl, po_produce = Gauge_Produce fl, po_derivers = [],
     po_setDerived = (\<lambda>i dv v. Some v)\<rparr>"

definition meterOps :: "('f \<Rightarrow> bool) \<Rightarrow> 'f float_ops \<Rightarrow> ('f, 'f meter, 'f meter) producer_ops" where
  "meterOps nan fl = \<lparr>po_isNaN = nan, po_add = Meter_Add fl, po_produce = Meter_Produce fl, po_derivers = [],
     po_setDerived = (\<lambda>i dv v. Some v)\<rparr>"

interpretation counters: resetting "counterOps nan fl" "NewCounter fl"
  by unfold_locales (simp_all add: counterOps_def Counter_Produce_def NewCounter_def)

interpretation gauges: resetting "gaugeOps nan fl" "NewGauge fl"
  by unfold_locales (simp_all add: gaugeOps_def Gauge_Produce_def NewGauge_def)

interpretation meters: resetting "meterOps nan fl" "NewMeter fl"
  by unfold_locales (simp_all add: meterOps_def Meter_Produce_def NewMeter_def)

lemma feed_Nil [simp]: "feed po p [] = p"
  by (simp add: feed_def)

text \<open>A counter of a group: how many samples, and their sum in order.\<close>

definition counted :: "('f \<Rightarrow> bool) \<Rightarrow> 'f float_ops \<Rightarrow> 'f list \<Rightarrow> 'f counter" where
  "counted nan fl g = (let vs = filter (Not \<circ> nan) g in
     \<lparr>co_samples = word_of_nat (length vs), co_value = foldl (fl_add fl) (fl_zero fl) vs\<rparr>)"

lemma counter_feed: "feed (counterOps nan fl) (NewCounter fl) g = counted nan fl g"
  by (induction g rule: rev_induct)
    (simp_all add: feed_snoc counted_def counterOps_def Counter_Add_def NewCounter_def Let_def)

lemma counter_group:
  "groupValue (counterOps nan fl) (NewCounter fl) d xs t
     = (if groupOf d xs t = [] then None else Some (counted nan fl (groupOf d xs t)))"
  unfolding groupValue_def counter_feed by (simp add: counterOps_def Counter_Produce_def counted_def Let_def)

text \<open>C34: adding timely samples to a new series of counters never panics, and then \<open>LastN\<close> shows, for every
  interval of its window, the number and the sum of the samples of that interval, or \<open>nil\<close> when it has none.\<close>

theorem LastN_counter:
  assumes "0 < d" and "even d" and "1 \<le> mc" and "xs \<noteq> []" and "timely d xs"
  shows "\<exists>ts. addAll (counterOps nan fl) xs (NewTimeSeries d mc (NewCounter fl) log) = (Ok ts :: ('e, _) res)
    \<and> (\<forall>n. LastN (counterOps nan fl) ts n =
        (let tms = ladder d (endOf d (fst (last xs))) (binCount mc n) in
         Ok (tms, map (\<lambda>t. if groupOf d xs t = [] then None else Some (counted nan fl (groupOf d xs t))) tms)
           :: ('e, _) res))"
proof -
  obtain ts where ts: "addAll (counterOps nan fl) xs (NewTimeSeries d mc (NewCounter fl) log) = (Ok ts :: ('e, _) res)"
      "counters.follows nan fl d mc log xs ts"
    using counters.addAll_follows [OF assms(1-3) assms(4,5)] by blast
  have "LastN (counterOps nan fl) ts n = (let tms = ladder d (endOf d (fst (last xs))) (binCount mc n) in
      Ok (tms, map (groupValue (counterOps nan fl) (NewCounter fl) d xs) tms) :: ('e, _) res)" for n
    by (rule counters.LastN_follows [OF ts(2) assms(4)])
  with ts(1) show ?thesis
    by (intro exI [of _ ts]) (simp add: counter_group [abs_def] Let_def)
qed

definition intOps :: "int float_ops" where
  "intOps = \<lparr>fl_zero = 0, fl_add = (+), fl_less = (<)\<rparr>"

theorem LastN_counter_witness:
  "\<exists>ts. addAll (counterOps (\<lambda>v. False) intOps) [(10, 5), (12, 7), (31, 1)] (NewTimeSeries 10 3 (NewCounter intOps) None)
      = (Ok ts :: (unit, _) res)
    \<and> LastN (counterOps (\<lambda>v. False) intOps) ts 0
      = (Ok ([20, 30, 40], [Some \<lparr>co_samples = 2, co_value = 12\<rparr>, None, Some \<lparr>co_samples = 1, co_value = 1\<rparr>]) :: (unit, _) res)"
proof -
  let ?xs = "[(10, 5), (12, 7), (31, 1)] :: (int \<times> int) list"
  have timely: "timely 10 ?xs"
    by (simp add: timely_def endOf_def truncTime_def)
  have tms: "ladder 10 (endOf 10 (fst (last ?xs))) (binCount 3 0) = [20, 30, 40]"
    by (simp add: ladder_def endOf_def truncTime_def binCount_def upt_rec)
  obtain ts where "addAll (counterOps (\<lambda>v. False) intOps) ?xs (NewTimeSeries 10 3 (NewCounter intOps) None) = (Ok ts :: (unit, _) res)"
    and "\<forall>n. LastN (counterOps (\<lambda>v. False) intOps) ts n = (let tms = ladder 10 (endOf 10 (fst (last ?xs))) (binCount 3 n) in
         Ok (tms, map (\<lambda>t. if groupOf 10 ?xs t = [] then None else Some (counted (\<lambda>v. False) intOps (groupOf 10 ?xs t))) tms)
           :: (unit, _) res)"
    using LastN_counter [of 10 3 ?xs "\<lambda>v. False" intOps None, where 'e = unit] timely by auto
  then show ?thesis
    using tms by (intro exI [of _ ts])
      (simp add: groupOf_def counted_def endOf_def truncTime_def intOps_def Let_def del: last.simps)
qed

text \<open>C35: the listener of a series of meters is told, in time order, one bin for every interval that has samples and
  is over, with the value of the samples of that interval.\<close>

theorem listener_meter:
  assumes "0 < d" and "even d" and "1 \<le> mc" and "xs \<noteq> []" and "timely d xs"
  shows "\<exists>ts. addAll (meterOps nan fl) xs (NewTimeSeries d mc (NewMeter fl) (Some [])) = (Ok ts :: ('e, _) res)
    \<and> ts_lsnr ts = Some (map (\<lambda>t. \<lparr>tb_Time = t, tb_Value = Some (feed (meterOps nan fl) (NewMeter fl) (groupOf d xs t)),
        tb_IsNull = False\<rparr>) (butlast (groupEnds d xs)))"
proof -
  obtain ts where ts: "addAll (meterOps nan fl) xs (NewTimeSeries d mc (NewMeter fl) (Some [])) = (Ok ts :: ('e, _) res)"
      "meters.follows nan fl d mc (Some []) xs ts"
    using meters.addAll_follows [OF assms(1-3) assms(4,5)] by blast
  have "meters.groupBin nan fl d xs t = \<lparr>tb_Time = t,
      tb_Value = Some (feed (meterOps nan fl) (NewMeter fl) (groupOf d xs t)), tb_IsNull = False\<rparr>"
    if "t \<in> set (butlast (groupEnds d xs))" for t
  proof -
    have "t \<in> set (groupEnds d xs)"
      using that by (rule in_set_butlastD)
    then have "groupOf d xs t \<noteq> []"
      by (auto simp: groupEnds_def groupOf_Nil_iff)
    then show ?thesis
      by (simp add: meters.groupBin_def groupValue_def, simp add: meterOps_def Meter_Produce_def)
  qed
  then show ?thesis
    using ts by (simp add: meters.follows_def cong: map_cong)
qed

theorem listener_meter_witness:
  "\<exists>ts. addAll (meterOps (\<lambda>v. False) intOps) [(10, 5), (12, 7), (31, 1)] (NewTimeSeries 10 3 (NewMeter intOps) (Some []))
      = (Ok ts :: (unit, _) res)
    \<and> ts_lsnr ts = Some [\<lparr>tb_Time = 20, tb_Value = Some \<lparr>me_first = 5, me_last = 7, me_min = 5, me_max = 7,
        me_sum = 12, me_samples = 2\<rparr>, tb_IsNull = False\<rparr>]"
proof -
  let ?xs = "[(10, 5), (12, 7), (31, 1)] :: (int \<times> int) list"
  have timely: "timely 10 ?xs"
    by (simp add: timely_def endOf_def truncTime_def)
  have ends: "groupEnds 10 ?xs = [20, 40]"
    by (simp add: groupEnds_def endOf_def truncTime_def)
  show ?thesis
    using listener_meter [of 10 3 ?xs "\<lambda>v. False" intOps, where 'e = unit] timely
    by (simp add: ends groupOf_def endOf_def truncTime_def feed_def meterOps_def Meter_Add_def NewMeter_def intOps_def)
qed

text \<open>C36: whatever the producer and its derivers, timely samples never make a series panic, and its bins are one
  interval apart, end at the interval before the current one and are fewer than \<open>maxCount\<close>.\<close>

theorem addAll_bins:
  assumes d: "0 < d" "even d" "1 \<le> mc" and "timely d xs" and "xs \<noteq> []"
  shows "\<exists>ts. addAll po xs (NewTimeSeries d mc p log) = (Ok ts :: ('e, _) res)
    \<and> ts_lastTime ts = fst (last xs) \<and> int (length (ts_data ts)) \<le> mc - 1
    \<and> map tb_Time (ts_data ts) = ladder d (truncTime d (fst (last xs))) (length (ts_data ts))"
proof -
  have "\<exists>ts. addAll po xs (NewTimeSeries d mc p log) = (Ok ts :: ('e, _) res) \<and> series_ok ts \<and> ts_interval ts = d
    \<and> ts_maxCount ts = mc \<and> ts_lastTime ts = (if xs = [] then 0 else fst (last xs))
    \<and> (xs = [] \<longrightarrow> ts = NewTimeSeries d mc p log)" if "timely d xs"
    using that
  proof (induction xs rule: rev_induct)
    case Nil
    then show ?case
      using d by (simp add: NewTimeSeries_ok) (simp add: NewTimeSeries_def)
  next
    case (snoc x xs)
    obtain tm v where x: "x = (tm, v)"
      by (cases x)
    obtain ts where ts: "addAll po xs (NewTimeSeries d mc p log) = (Ok ts :: ('e, _) res)" "series_ok ts"
        "ts_interval ts = d" "ts_maxCount ts = mc" "ts_lastTime ts = (if xs = [] then 0 else fst (last xs))"
        "xs = [] \<longrightarrow> ts = NewTimeSeries d mc p log"
      using snoc by (auto simp: x timely_snoc)
    show ?case
    proof (cases "xs = []")
      case True
      then have "addSeries po tm v ts = (Ok (takeValue po tm v ts) :: ('e, _) res)"
        using ts(6) d(1) by (simp add: addSeries_def IntervalBetween_def NewTimeSeries_def)
      moreover have "series_ok (takeValue po tm v ts)"
        using True ts(2,6) snoc.prems by (auto simp: x timely_def series_ok_def takeValue_def NewTimeSeries_def)
      ultimately show ?thesis
        using ts(1,3,4) by (simp add: x addAll_append takeValue_def)
    next
      case False
      have "0 < tm" "ts_lastTime ts \<le> tm" "near ts tm"
        using snoc.prems False ts(3,5) by (simp_all add: x timely_snoc near_def endOf_def)
      from addSeries_ok [OF ts(2) this, of po v] obtain ts' where "addSeries po tm v ts = (Ok ts' :: ('e, _) res)"
          "series_ok ts'" "ts_lastTime ts' = tm" "ts_interval ts' = ts_interval ts" "ts_maxCount ts' = ts_maxCount ts"
        by blast
      then show ?thesis
        using ts(1,3,4) by (simp add: x addAll_append)
    qed
  qed
  then show ?thesis
    using assms(4,5) unfolding series_ok_def by fastforce
qed

theorem addAll_bins_witness:
  "\<exists>ts. addAll (meterOps (\<lambda>v. False) intOps) [(10, 5), (12, 7), (31, 1)] (NewTimeSeries 10 3 (NewMeter intOps) None)
      = (Ok ts :: (unit, _) res) \<and> ts_lastTime ts = 31 \<and> length (ts_data ts) \<le> 2"
proof -
  have "timely 10 ([(10, 5), (12, 7), (31, 1)] :: (int \<times> int) list)"
    by (simp add: timely_def endOf_def truncTime_def)
  then show ?thesis
    using addAll_bins [of 10 3 "[(10, 5), (12, 7), (31, 1)]" "meterOps (\<lambda>v. False) intOps" "NewMeter intOps" None,
        where 'e = unit] by auto
qed

text \<open>when the clock goes back behind the first bin that is kept, the sample is taken, and reading more than the
  current bin panics: the index of the times runs past their end.\<close>

theorem LastN_clock_back:
  assumes ok: "series_ok ts" and data: "ts_data ts = b # bs" and mc: "2 \<le> ts_maxCount ts"
    and behind: "endOf (ts_interval ts) tm < tb_Time b" and n: "n \<noteq> 1"
  shows "\<exists>ts'. addSeries po tm v ts = (Ok ts' :: ('e, _) res) \<and> LastN po ts' n = (Panic :: ('e, _) res)"
proof -
  let ?d = "ts_interval ts" and ?T = "truncTime (ts_interval ts) (ts_lastTime ts)"
  have d: "0 < ?d" "even ?d" and tms: "map tb_Time (ts_data ts) = ladder ?d ?T (length (ts_data ts))"
    using ok by (simp_all add: series_ok_def)
  have "tb_Time b \<in> set (ladder ?d ?T (length (ts_data ts)))"
    unfolding tms [symmetric] by (simp add: data)
  then have "tb_Time b \<le> ?T"
    by (rule set_ladder_le [OF d(1)])
  then have neg: "subTime (truncTime ?d tm) ?T < 0"
    using behind d(1) by (simp add: subTime_def endOf_def Let_def)
  have "tdiv a ?d \<le> 0" if "a < 0" for a
    using that d(1) by (simp add: tdiv_def pos_imp_zdiv_nonneg_iff)
  then have add: "addSeries po tm v ts = (Ok (takeValue po tm v ts) :: ('e, _) res)"
    using neg d(1) by (simp add: addSeries_def IntervalBetween_def timeRound_def)
  let ?ts = "takeValue po tm v ts" and ?m = "binCount (ts_maxCount ts) n"
  let ?tms = "ladder ?d (endOf ?d tm) ?m"
  have m: "1 < ?m"
    using mc n by (auto simp: binCount_def)
  have rt: "roundTime ?ts (ts_lastTime ?ts) = endOf ?d tm"
    using roundTime_trunc [OF d, of tm] by (simp add: takeValue_def roundTime_def endOf_def)
  have none: "advance (tb_Time b) xs k = None" if "\<forall>x \<in> set xs. x < tb_Time b" for xs k
    using that by (induction xs arbitrary: k) auto
  have "\<forall>x \<in> set ?tms. x < tb_Time b"
    using set_ladder_le [OF d(1), of _ "endOf ?d tm" ?m] behind by fastforce
  moreover from this have "\<not> tb_Time b < ?tms ! 0"
    using m by (metis length_ladder less_trans less_irrefl nth_mem zero_less_one)
  ultimately have "placeBins ?tms 0 (replicate ?m None) (ts_data ts) = (Panic :: ('e, _) res)"
    using m by (simp add: data none)
  moreover have "ts_data ?ts = ts_data ts" "ts_maxCount ?ts = ts_maxCount ts" "ts_interval ?ts = ?d"
    by (simp_all add: takeValue_def)
  ultimately have "lastN po ?ts n = (Panic :: ('e, _) res)"
    using lastN_bins [OF n, of ?ts po, where 'e = 'e] m by (simp add: rt Let_def)
  then show ?thesis
    using add by (simp add: LastN_def)
qed

theorem LastN_clock_back_witness:
  "\<exists>ts'. addSeries (meterOps (\<lambda>v. False) intOps) 5 7
        \<lparr>ts_producer = NewMeter intOps, ts_lastTime = 31, ts_data = [\<lparr>tb_Time = 20, tb_Value = None, tb_IsNull = True\<rparr>,
           \<lparr>tb_Time = 30, tb_Value = None, tb_IsNull = True\<rparr>], ts_interval = 10, ts_maxCount = 3, ts_lsnr = None\<rparr>
      = (Ok ts' :: (unit, _) res)
    \<and> LastN (meterOps (\<lambda>v. False) intOps) ts' 0 = (Panic :: (unit, _) res)"
  by (rule LastN_clock_back [where b = "\<lparr>tb_Time = 20, tb_Value = None, tb_IsNull = True\<rparr>"
        and bs = "[\<lparr>tb_Time = 30, tb_Value = None, tb_IsNull = True\<rparr>]"]) (simp_all add: series_ok_def ladder_def truncTime_def endOf_def upt_rec)

definition meterOf :: "'f float_ops \<Rightarrow> 'f list \<Rightarrow> 'f meter" where
  "meterOf fl g = fold (Meter_Add fl) g (NewMeter fl)"

lemma meterOf_snoc: "meterOf fl (g @ [v]) = Meter_Add fl v (meterOf fl g)"
  by (simp add: meterOf_def)

lemma Meter_Add_fields:
  assumes "me_samples m \<noteq> 0"
  shows "me_first (Meter_Add fl v m) = me_first m" and "me_last (Meter_Add fl v m) = v"
    and "me_min (Meter_Add fl v m) = (if fl_less fl v (me_min m) then v else me_min m)"
    and "me_max (Meter_Add fl v m) = (if fl_less fl (me_max m) v then v else me_max m)"
  using assms by (simp_all add: Meter_Add_def Let_def)

lemma extremum_snoc:
  assumes "irreflp R" and "transp R" and "x \<in> set g" and "\<forall>y \<in> set g. \<not> R y x"
  shows "(if R v x then v else x) \<in> set (g @ [v])" and "\<forall>y \<in> set (g @ [v]). \<not> R y (if R v x then v else x)"
proof -
  have "\<not> R y v" if "R v x" "y \<in> set g" for y
    using assms(4) that transpD [OF assms(2), of y v x] by blast
  moreover have "\<not> R v v"
    using assms(1) by (rule irreflpD)
  ultimately show "\<forall>y \<in> set (g @ [v]). \<not> R y (if R v x then v else x)"
    using assms(4) by simp
qed (use assms(3) in simp)

lemma meterOf_samples: "me_samples (meterOf fl g) = word_of_nat (length g)"
  by (induction g rule: rev_induct)
    (simp_all add: meterOf_snoc Meter_Add_def Let_def, simp add: meterOf_def NewMeter_def)

text \<open>a meter of samples that are not NaN holds the first and the last of them, their sum in order, how many they
  are, and a smallest and a largest of them.\<close>

theorem Meter_summary:
  assumes less: "irreflp (fl_less fl)" "transp (fl_less fl)" and g: "g \<noteq> []" "length g < 2 ^ 64"
  shows "let m = fold (Meter_Add fl) g (NewMeter fl) in
    me_first m = hd g \<and> me_last m = last g \<and> me_sum m = foldl (fl_add fl) (fl_zero fl) g
    \<and> unat (me_samples m) = length g
    \<and> me_min m \<in> set g \<and> (\<forall>x \<in> set g. \<not> fl_less fl x (me_min m))
    \<and> me_max m \<in> set g \<and> (\<forall>x \<in> set g. \<not> fl_less fl (me_max m) x)"
proof -
  have "me_sum (meterOf fl g) = foldl (fl_add fl) (fl_zero fl) g" for g
    by (induction g rule: rev_induct) (simp_all add: meterOf_snoc Meter_Add_def Let_def, simp add: meterOf_def NewMeter_def)
  moreover have "unat (me_samples (meterOf fl g)) = length g"
    using g(2) by (simp add: meterOf_samples unat_of_nat)
  moreover have "me_first (meterOf fl g) = hd g \<and> me_last (meterOf fl g) = last g
    \<and> me_min (meterOf fl g) \<in> set g \<and> (\<forall>x \<in> set g. \<not> fl_less fl x (me_min (meterOf fl g)))
    \<and> me_max (meterOf fl g) \<in> set g \<and> (\<forall>x \<in> set g. \<not> fl_less fl (me_max (meterOf fl g)) x)"
    using g
  proof (induction g rule: rev_induct)
    case (snoc v g)
    show ?case
    proof (cases "g = []")
      case True
      then show ?thesis
        using irreflpD [OF less(1)] by (simp add: meterOf_def NewMeter_def Meter_Add_def)
    next
      case False
      have "me_samples (meterOf fl g) \<noteq> 0"
        using False snoc.prems(2) by (simp add: meterOf_samples word_of_nat_eq_0_iff nat_dvd_not_less)
      note fields = Meter_Add_fields [OF this]
      have IH: "me_first (meterOf fl g) = hd g" "me_min (meterOf fl g) \<in> set g" "me_max (meterOf fl g) \<in> set g"
          "\<forall>x \<in> set g. \<not> fl_less fl x (me_min (meterOf fl g))"
          "\<forall>x \<in> set g. \<not> fl_less fl (me_max (meterOf fl g)) x"
        using snoc False by simp_all
      have "irreflp (\<lambda>x y. fl_less fl y x)" "transp (\<lambda>x y. fl_less fl y x)"
        using less by (auto simp: irreflp_def transp_def)
      then show ?thesis
        using extremum_snoc [OF less IH(2,4), of v] extremum_snoc [where R = "\<lambda>x y. fl_less fl y x", of "me_max (meterOf fl g)" g v] IH(3,5) False IH(1)
        by (simp add: meterOf_snoc fields)
    qed
  qed simp
  ultimately show ?thesis
    by (simp add: meterOf_def Let_def)
qed

theorem Meter_summary_witness:
  "fold (Meter_Add intOps) [5, 2, 9, 4] (NewMeter intOps)
     = \<lparr>me_first = 5, me_last = 4, me_min = 2, me_max = 9, me_sum = 20, me_samples = 4\<rparr>
   \<and> me_min (fold (Meter_Add intOps) [5, 2, 9, 4] (NewMeter intOps)) \<in> {5, 2, 9, 4}"
  using Meter_summary [of intOps "[5, 2, 9, 4]"]
  by (simp add: intOps_def Meter_Add_def NewMeter_def irreflp_def transp_def Let_def)

text \<open>an odometer keeps its last reading over a reset: the bin after it starts where the bin before it ended,
  whatever is added, and with no reading at all the bin repeats the last one with no samples.\<close>

theorem Odometer_chain:
  assumes "od_initialized o'"
  shows "fst (Odometer_Produce r (fold Odometer_Add vs (snd (Odometer_Produce True o'))))
    = Some (od_last o', last (od_last o' # vs), word_of_nat (length vs))"
proof -
  have "fold Odometer_Add vs (o'\<lparr>od_first := od_last o', od_samples := 0\<rparr>)
    = o'\<lparr>od_first := od_last o', od_last := last (od_last o' # vs), od_samples := word_of_nat (length vs)\<rparr>"
    using assms by (induction vs rule: rev_induct) (simp_all add: Odometer_Add_def Let_def)
  then show ?thesis
    by (simp add: Odometer_Produce_def)
qed

theorem Odometer_chain_witness:
  "fst (Odometer_Produce True (fold Odometer_Add [8, 11] (snd (Odometer_Produce True (Odometer_Add 3 (NewOdometer intOps))))))
     = Some (3, 11, 2)"
  using Odometer_chain [of "Odometer_Add 3 (NewOdometer intOps)" True "[8, 11]"]
  by (simp add: Odometer_Add_def NewOdometer_def intOps_def)

end
