(* ===== verification/TqlRecord.thy ===== *)
theory TqlRecord
  imports GoText
begin

text \<open>
  Records of a TQL task, \<open>mods/tql/task_record.go\<close>.  A value of type \<open>any\<close> is a \<open>cell\<close>: nil, a string, another
  comparable Go value of type \<open>'a\<close>, a \<open>[]any\<close>, a \<open>[][]any\<close>, an error, or the records of an array record.
  Records are values here: that a function changes the record in place and returns it is a new record, so a
  pointer kept to the old one is not followed.
\<close>

subsection \<open>Values and records\<close>

datatype 'a cell =
    CNil | CStr string | CVal 'a
  | CArr "'a cell list" | CRows "'a cell list list"
  | CErr string | CRecs "'a tql_record list"
and 'a tql_record = Rec (rec_key: "'a cell") (rec_value: "'a cell") (rec_vars: "(string \<times> 'a cell) list option")

definition kEOF :: string where
  "kEOF = ''f0ec1dea-03e8-4121-8c98-0b78704e009d''"

definition kBREAK :: string where
  "kBREAK = ''5bd2e423-4536-4a8d-a80d-c11567fc296f''"

definition kBYTES :: string where
  "kBYTES = ''a6cd7131-63cc-4f83-9cbb-709a3d317780''"

definition kIMAGE :: string where
  "kIMAGE = ''f2f79e86-44dc-4721-95e0-ba42ebe1fe88''"

definition kERR :: string where
  "kERR = ''0fd184f8-0f4a-4d05-bf0f-77bd31642eae''"

definition kARR :: string where
  "kARR = ''057f1cb0-df9f-41d3-b003-ba7c1ef8f497''"

definition EofRecord :: "'a tql_record" where
  "EofRecord = Rec (CStr kEOF) CNil None"

definition BreakRecord :: "'a tql_record" where
  "BreakRecord = Rec (CStr kBREAK) CNil None"

definition ErrorRecord :: "string \<Rightarrow> 'a tql_record" where
  "ErrorRecord err = Rec (CStr kERR) (CErr err) None"

definition ArrayRecord :: "'a tql_record list \<Rightarrow> 'a tql_record" where
  "ArrayRecord arr = Rec (CStr kARR) (CRecs arr) None"

definition NewRecord :: "'a cell \<Rightarrow> 'a cell \<Rightarrow> 'a tql_record" where
  "NewRecord k v = Rec k v None"

definition NewRecordVars :: "'a cell \<Rightarrow> 'a cell \<Rightarrow> (string \<times> 'a cell) list option \<Rightarrow> 'a tql_record" where
  "NewRecordVars k v vars = Rec k v vars"

definition NewBytesRecord :: "'a \<Rightarrow> 'a tql_record" where
  "NewBytesRecord raw = Rec (CStr kBYTES) (CVal raw) None"

definition NewImageRecord :: "'a \<Rightarrow> 'a tql_record" where
  "NewImageRecord raw = Rec (CStr kIMAGE) (CVal raw) None"

definition ReplaceValue :: "'a tql_record \<Rightarrow> 'a cell \<Rightarrow> 'a tql_record" where
  "ReplaceValue r v = Rec (rec_key r) v (rec_vars r)"

definition ReplaceKey :: "'a tql_record \<Rightarrow> 'a cell \<Rightarrow> 'a tql_record" where
  "ReplaceKey r k = Rec k (rec_value r) (rec_vars r)"

definition ReplaceKeyValue :: "'a tql_record \<Rightarrow> 'a cell \<Rightarrow> 'a cell \<Rightarrow> 'a tql_record" where
  "ReplaceKeyValue r k v = Rec k v (rec_vars r)"

definition IsEOF :: "'a tql_record \<Rightarrow> bool" where
  "IsEOF r = (case rec_key r of CStr s \<Rightarrow> s = kEOF | _ \<Rightarrow> False)"

definition IsCircuitBreak :: "'a tql_record \<Rightarrow> bool" where
  "IsCircuitBreak r = (case rec_key r of CStr s \<Rightarrow> s = kBREAK | _ \<Rightarrow> False)"

definition IsError :: "'a tql_record \<Rightarrow> bool" where
  "IsError r = (case rec_key r of CStr s \<Rightarrow> s = kERR | _ \<Rightarrow> False)"

definition IsBytes :: "'a tql_record \<Rightarrow> bool" where
  "IsBytes r = (case rec_key r of CStr s \<Rightarrow> s = kBYTES | _ \<Rightarrow> False)"

definition IsImage :: "'a tql_record \<Rightarrow> bool" where
  "IsImage r = (case rec_key r of CStr s \<Rightarrow> s = kIMAGE | _ \<Rightarrow> False)"

definition IsArray :: "'a tql_record \<Rightarrow> bool" where
  "IsArray r = (case rec_key r of CStr s \<Rightarrow> s = kARR | _ \<Rightarrow> False)"

definition IsTuple :: "'a tql_record \<Rightarrow> bool" where
  "IsTuple r = (case rec_key r of CStr s \<Rightarrow> s \<notin> {kEOF, kBREAK, kBYTES, kIMAGE, kERR, kARR} | _ \<Rightarrow> True)"

text \<open>\<open>Array\<close>: a failed type assertion panics.\<close>

definition RecArray :: "'a tql_record \<Rightarrow> (string, 'a tql_record list) res" where
  "RecArray r = (if IsArray r then (case rec_value r of CRecs rs \<Rightarrow> Ok rs | _ \<Rightarrow> Panic) else Ok [])"

subsection \<open>Variables\<close>

definition SetVariable :: "string \<Rightarrow> 'a cell \<Rightarrow> 'a tql_record \<Rightarrow> 'a tql_record" where
  "SetVariable name v r =
     Rec (rec_key r) (rec_value r) (Some ((name, v) # (case rec_vars r of None \<Rightarrow> [] | Some m \<Rightarrow> m)))"

definition GetVariable :: "string \<Rightarrow> 'a tql_record \<Rightarrow> (string, 'a cell) res" where
  "GetVariable name r =
     (case rec_vars r of
        Some m \<Rightarrow>
          (if name \<noteq> [] \<and> hd name = CHR ''$''
           then Ok (case map_of m (tl name) of Some v \<Rightarrow> v | None \<Rightarrow> CNil)
           else Err ''undefined variable'')
      | None \<Rightarrow> Err ''undefined variable'')"

subsection \<open>Fields\<close>

definition Flatten :: "'a tql_record \<Rightarrow> 'a cell list" where
  "Flatten r = (case rec_value r of CArr vs \<Rightarrow> rec_key r # vs | CNil \<Rightarrow> [rec_key r] | v \<Rightarrow> [rec_key r, v])"

definition Fields :: "'a tql_record \<Rightarrow> 'a cell list" where
  "Fields r =
     (case rec_value r of
        CNil \<Rightarrow> [rec_key r]
      | CRows vss \<Rightarrow> rec_key r # concat vss
      | CArr vs \<Rightarrow> rec_key r # vs
      | v \<Rightarrow> [rec_key r, v])"

text \<open>\<open>Node.yield\<close>: the record told for a key and its values.\<close>

definition yieldRecord :: "'a cell \<Rightarrow> 'a cell list \<Rightarrow> 'a tql_record" where
  "yieldRecord key values =
     (case values of [] \<Rightarrow> NewRecord key (CArr []) | [v] \<Rightarrow> NewRecord key v | _ \<Rightarrow> NewRecord key (CArr values))"

subsection \<open>Control keys\<close>

lemmas control_keys = kEOF_def kBREAK_def kBYTES_def kIMAGE_def kERR_def kARR_def

lemma control_distinct: "distinct [kEOF, kBREAK, kBYTES, kIMAGE, kERR, kARR]"
  by (simp add: control_keys)

lemma control_kinds [simp]:
  "IsEOF EofRecord" "\<not> IsCircuitBreak EofRecord" "\<not> IsError EofRecord"
  "IsCircuitBreak BreakRecord" "\<not> IsEOF BreakRecord" "\<not> IsError BreakRecord"
  "IsError (ErrorRecord e)" "\<not> IsEOF (ErrorRecord e)" "\<not> IsCircuitBreak (ErrorRecord e)"
  using control_distinct
  by (auto simp: IsEOF_def IsCircuitBreak_def IsError_def EofRecord_def BreakRecord_def ErrorRecord_def)

text \<open>A record is of exactly one kind.\<close>

lemma record_kinds:
  "length (filter (\<lambda>p. p r) [IsEOF, IsCircuitBreak, IsError, IsBytes, IsImage, IsArray, IsTuple]) = 1"
  using control_distinct
  by (cases "rec_key r")
    (auto simp: IsEOF_def IsCircuitBreak_def IsError_def IsBytes_def IsImage_def IsArray_def IsTuple_def)

text \<open>What a key tells: a record whose key is a data key is a tuple.\<close>

definition dataKey :: "'a cell \<Rightarrow> bool" where
  "dataKey k = (case k of CStr s \<Rightarrow> s \<notin> {kEOF, kBREAK, kBYTES, kIMAGE, kERR, kARR} | _ \<Rightarrow> True)"

lemma IsTuple_dataKey: "IsTuple r = dataKey (rec_key r)"
  by (simp add: IsTuple_def dataKey_def)

lemma tuple_kinds [simp]:
  "IsTuple r \<Longrightarrow> \<not> IsEOF r" "IsTuple r \<Longrightarrow> \<not> IsCircuitBreak r" "IsTuple r \<Longrightarrow> \<not> IsError r" "IsTuple r \<Longrightarrow> \<not> IsArray r"
  by (cases "rec_key r"; simp add: IsTuple_def IsEOF_def IsCircuitBreak_def IsError_def IsArray_def)+

end
