(* ===== verification/TqlMaps.thy ===== *)
theory TqlMaps
  imports TqlRecord GoTime
begin

text \<open>
  The functions of a map statement that move, drop and reshape records, \<open>mods/tql/fm_monad.go\<close>.  A node keeps
  what its function stores with \<open>SetValue\<close> in a \<open>node_state\<close>; the columns of the result belong to the task
  and are part of that state while the function runs.  Records told to the next node during the evaluation
  are collected in \<open>ns_told\<close>.  Error texts are the name of the function.
\<close>

subsection \<open>What a function returns and keeps\<close>

text \<open>A nil pointer of type \<open>*Record\<close> in an \<open>any\<close> is not nil: it is \<open>RetPtr None\<close>.\<close>

datatype 'a fm_ret = RetNil | RetPtr "'a tql_record option" | RetPtrs "'a tql_record option list" | RetOther

record column =
  cl_Name :: string
  cl_DataType :: string

text \<open>
  The client library: columns made for a value, the names of data types, the value behind a pointer.  Which
  comparable values are times or floats, and how \<open>fmt\<close> prints a value; \<open>en_order\<close> is the order in which Go
  ranges over a map.
\<close>

record 'a env =
  en_columnOf :: "string \<Rightarrow> 'a cell \<Rightarrow> column"
  en_columnAny :: "string \<Rightarrow> column"
  en_dataType :: "string \<Rightarrow> string"
  en_unbox :: "'a cell \<Rightarrow> 'a cell"
  en_isTime :: "'a \<Rightarrow> bool"
  en_isFloat :: "'a \<Rightarrow> bool"
  en_show :: "'a cell \<Rightarrow> string"
  en_itoa :: "int \<Rightarrow> string"
  en_order :: "('a cell \<times> 'a cell list) list \<Rightarrow> ('a cell \<times> 'a cell list) list"

record 'a buffered_filter =
  bf_last :: "'a cell"
  bf_lastTimestamp :: int
  bf_lastYield :: bool
  bf_firstRecord :: "'a tql_record option"
  bf_lastRecord :: "'a tql_record option"
  bf_withLast :: bool

record transposer =
  tr_fixedIndexes :: "int list"
  tr_transposedIndexes :: "int list"
  tr_headerNames :: "string list"
  tr_header :: bool
  tr_cache :: "(nat list \<times> nat list) option"

record 'a tql_group =
  gr_lazy :: bool
  gr_buffer :: "('a cell \<times> 'a cell list) list"
  gr_curKey :: "'a cell"

record 'a node_state =
  ns_columns :: "column list"
  ns_isFirst :: bool
  ns_limit :: "int option"
  ns_offset :: "int option"
  ns_count :: "int option"
  ns_filter :: "'a buffered_filter option"
  ns_transposer :: "transposer option"
  ns_group :: "'a tql_group option"
  ns_told :: "'a tql_record list"

definition NewNode_state :: "'a node_state" where
  "NewNode_state = \<lparr>ns_columns = [], ns_isFirst = False, ns_limit = None, ns_offset = None, ns_count = None,
     ns_filter = None, ns_transposer = None, ns_group = None, ns_told = []\<rparr>"

type_synonym 'a fm = "'a node_state \<Rightarrow> (string, 'a fm_ret) res \<times> 'a node_state"

definition sqlDataType :: "'a env \<Rightarrow> string \<Rightarrow> string" where
  "sqlDataType en t =
     (case map_of [(''sql.RawBytes'', ''DataTypeBinary''), (''sql.NullBool'', ''DataTypeBoolean''),
        (''sql.NullByte'', ''DataTypeByte''), (''sql.NullFloat64'', ''DataTypeFloat64''),
        (''sql.NullInt16'', ''DataTypeInt16''), (''sql.NullInt32'', ''DataTypeInt32''),
        (''sql.NullInt64'', ''DataTypeInt64''), (''sql.NullString'', ''DataTypeString''),
        (''sql.NullTime'', ''DataTypeDatetime'')] t of
        Some c \<Rightarrow> en_dataType en c
      | None \<Rightarrow> t)"

definition SetResultColumns :: "'a env \<Rightarrow> column list \<Rightarrow> 'a node_state \<Rightarrow> 'a node_state" where
  "SetResultColumns en cols st = st\<lparr>ns_columns := map (\<lambda>c. c\<lparr>cl_DataType := sqlDataType en (cl_DataType c)\<rparr>) cols\<rparr>"

text \<open>Comparing two interfaces panics when both hold slices of one type.\<close>

definition cellEq :: "'a cell \<Rightarrow> 'a cell \<Rightarrow> (string, bool) res" where
  "cellEq x y =
     (case (x, y) of
        (CArr _, CArr _) \<Rightarrow> Panic
      | (CRows _, CRows _) \<Rightarrow> Panic
      | (CRecs _, CRecs _) \<Rightarrow> Panic
      | _ \<Rightarrow> Ok (x = y))"

text \<open>So does a map that is asked for a slice.\<close>

definition hashable :: "'a cell \<Rightarrow> bool" where
  "hashable x = (case x of CArr _ \<Rightarrow> False | CRows _ \<Rightarrow> False | CRecs _ \<Rightarrow> False | _ \<Rightarrow> True)"

subsection \<open>TAKE, DROP, FILTER\<close>

text \<open>The limit and the offset are taken from the arguments of the first call.\<close>

definition argLimit :: "int list \<Rightarrow> int" where
  "argLimit args = (case args of [n] \<Rightarrow> n | [m, n] \<Rightarrow> n | _ \<Rightarrow> 0)"

definition argOffset :: "int list \<Rightarrow> int" where
  "argOffset args = (case args of [m, n] \<Rightarrow> m | _ \<Rightarrow> 0)"

definition takeLimits :: "int list \<Rightarrow> 'a node_state \<Rightarrow> int \<times> int \<times> int" where
  "takeLimits args st =
     (case ns_limit st of None \<Rightarrow> argLimit args | Some n \<Rightarrow> n,
      case ns_offset st of None \<Rightarrow> argOffset args | Some n \<Rightarrow> n,
      wrap64 ((case ns_count st of None \<Rightarrow> 0 | Some n \<Rightarrow> n) + 1))"

definition fmTake :: "int list \<Rightarrow> 'a tql_record option \<Rightarrow> 'a fm" where
  "fmTake args inflight st =
     (case takeLimits args st of (limit, offset, count) \<Rightarrow>
       if limit < 0 then (Err ''TAKE'', st\<lparr>ns_limit := Some limit\<rparr>)
       else (if wrap64 (offset + limit) < count then Ok (RetPtr (Some BreakRecord))
             else if count \<le> offset then Ok (RetPtr None)
             else Ok (RetPtr inflight),
             st\<lparr>ns_limit := Some limit, ns_offset := Some offset, ns_count := Some count\<rparr>))"

definition fmDrop :: "int list \<Rightarrow> 'a tql_record option \<Rightarrow> 'a fm" where
  "fmDrop args inflight st =
     (case takeLimits args st of (limit, offset, count) \<Rightarrow>
       if limit < 0 then (Err ''DROP'', st\<lparr>ns_limit := Some limit\<rparr>)
       else (if offset < count \<and> count \<le> wrap64 (offset + limit) then Ok (RetPtr None)
             else Ok (RetPtr inflight),
             st\<lparr>ns_limit := Some limit, ns_offset := Some offset, ns_count := Some count\<rparr>))"

definition fmFilter :: "bool \<Rightarrow> 'a tql_record option \<Rightarrow> 'a fm" where
  "fmFilter flag inflight st = (Ok (RetPtr (if flag then inflight else None)), st)"

subsection \<open>FILTER\_CHANGED\<close>

datatype filter_arg = FaRetain int int | FaUseFirst bool | FaOther

fun filterArgs :: "filter_arg list \<Rightarrow> (int \<times> int) option \<times> bool option \<Rightarrow> (int \<times> int) option \<times> bool option" where
  "filterArgs [] acc = acc"
| "filterArgs (FaRetain t d # args) (retain, use) = filterArgs args (Some (t, d), use)"
| "filterArgs (FaUseFirst b # args) (retain, use) = filterArgs args (retain, Some b)"
| "filterArgs (FaOther # args) acc = filterArgs args acc"

definition changedFirst ::
  "'a cell \<Rightarrow> (int \<times> int) option \<Rightarrow> bool \<Rightarrow> 'a tql_record \<Rightarrow> 'a buffered_filter" where
  "changedFirst val retain withLast rec =
     \<lparr>bf_last = val, bf_lastTimestamp = (case retain of Some (t, d) \<Rightarrow> t | None \<Rightarrow> 0), bf_lastYield = False,
      bf_firstRecord = None, bf_lastRecord = (if withLast then Some rec else None), bf_withLast = withLast\<rparr>"

definition changedRetain ::
  "'a cell \<Rightarrow> int \<Rightarrow> int \<Rightarrow> bool \<Rightarrow> bool \<Rightarrow> 'a tql_record \<Rightarrow> 'a buffered_filter
     \<Rightarrow> (string, 'a fm_ret \<times> 'a buffered_filter) res" where
  "changedRetain val t d useFirst withLast rec bf =
     rbind (if IsEOF rec then Ok True else rmap Not (cellEq (bf_last bf) val)) (\<lambda>changed.
       if changed
       then Ok (RetPtr (if withLast then bf_lastRecord bf else None),
                bf\<lparr>bf_last := val, bf_lastTimestamp := t, bf_lastYield := False,
                   bf_firstRecord := Some rec, bf_lastRecord := None\<rparr>)
       else if \<not> bf_lastYield bf \<and> d \<le> subTime t (bf_lastTimestamp bf)
       then (if useFirst
             then Ok (RetPtr (bf_firstRecord bf),
                      bf\<lparr>bf_lastYield := True, bf_firstRecord := None, bf_lastRecord := Some rec\<rparr>)
             else Ok (RetPtr (Some rec), bf\<lparr>bf_lastYield := True\<rparr>))
       else Ok (RetNil, bf\<lparr>bf_lastRecord := Some rec\<rparr>))"

definition changedPlain ::
  "'a cell \<Rightarrow> bool \<Rightarrow> 'a tql_record \<Rightarrow> 'a buffered_filter \<Rightarrow> (string, 'a fm_ret \<times> 'a buffered_filter) res" where
  "changedPlain val withLast rec bf =
     rbind (rmap Not (cellEq (bf_last bf) val)) (\<lambda>changed.
       if changed
       then (let bf1 = bf\<lparr>bf_last := val, bf_lastYield := True\<rparr> in
             if withLast
             then (case bf_lastRecord bf1 of
                     Some l \<Rightarrow> Ok (RetPtrs [Some l, Some rec], bf1\<lparr>bf_lastRecord := Some rec\<rparr>)
                   | None \<Rightarrow> Ok (RetNil, bf1\<lparr>bf_lastRecord := Some rec\<rparr>))
             else Ok (RetPtr (Some rec), bf1\<lparr>bf_lastRecord := None\<rparr>))
       else Ok (RetNil, bf\<lparr>bf_lastRecord := Some rec\<rparr>))"

definition fmFilterChanged :: "'a env \<Rightarrow> 'a cell \<Rightarrow> filter_arg list \<Rightarrow> 'a tql_record option \<Rightarrow> 'a fm" where
  "fmFilterChanged en v args inflight st =
     (case inflight of
        None \<Rightarrow> (Ok RetNil, st)
      | Some rec \<Rightarrow>
          (case filterArgs args (None, None) of (retain, use) \<Rightarrow>
            let withLast = (use = Some True); val = en_unbox en v in
            (case ns_filter st of
               None \<Rightarrow> (Ok (RetPtr (Some rec)), st\<lparr>ns_filter := Some (changedFirst val retain withLast rec)\<rparr>)
             | Some bf \<Rightarrow>
                 (case (case retain of
                          Some (t, d) \<Rightarrow> changedRetain val t d (use \<noteq> None) withLast rec bf
                        | None \<Rightarrow> changedPlain val withLast rec bf) of
                    Ok (ret, bf') \<Rightarrow> (Ok ret, st\<lparr>ns_filter := Some bf'\<rparr>)
                  | Err e \<Rightarrow> (Err e, st) | Panic \<Rightarrow> (Panic, st) | NoFuel \<Rightarrow> (NoFuel, st)))))"

text \<open>The function set with \<open>SetEOF\<close>: the last record is told too, when the first call asked for it.\<close>

definition changedEOF :: "'a node_state \<Rightarrow> 'a tql_record list" where
  "changedEOF st =
     (case ns_filter st of
        None \<Rightarrow> []
      | Some bf \<Rightarrow> if bf_withLast bf then (case bf_lastRecord bf of None \<Rightarrow> [] | Some r \<Rightarrow> [r]) else [])"

subsection \<open>FLATTEN\<close>

definition flattenValues :: "'a cell \<Rightarrow> 'a cell list \<Rightarrow> 'a tql_record list" where
  "flattenValues k vs = map (NewRecord k) (filter (\<lambda>v. v \<noteq> CNil) vs)"

definition flattenOne :: "'a tql_record \<Rightarrow> 'a tql_record list" where
  "flattenOne r =
     (case rec_value r of
        CArr vs \<Rightarrow> flattenValues (rec_key r) vs
      | CNil \<Rightarrow> [ErrorRecord ''FLATTEN'']
      | _ \<Rightarrow> [r])"

definition fmFlatten :: "'a tql_record option \<Rightarrow> 'a fm" where
  "fmFlatten inflight st =
     (case inflight of
        None \<Rightarrow> (Panic, st)
      | Some r \<Rightarrow>
          (rbind (RecArray r) (\<lambda>rs.
             if IsArray r then Ok (RetPtrs (map Some (concat (map flattenOne rs))))
             else if IsTuple r then
               (case rec_value r of
                  CRows vss \<Rightarrow> Ok (RetPtrs (map (\<lambda>vs. Some (NewRecord (rec_key r) (CArr vs))) (filter (\<lambda>vs. vs \<noteq> []) vss)))
                | CArr vs \<Rightarrow> Ok (RetPtrs (map Some (flattenValues (rec_key r) vs)))
                | CNil \<Rightarrow> Ok (RetPtr (Some (ErrorRecord ''FLATTEN'')))
                | _ \<Rightarrow> Ok (RetPtr (Some r)))
             else Ok (RetPtr (Some r))), st))"

end
