(* ===== verification/TqlReshape.thy ===== *)
theory TqlReshape
  imports TqlMaps
begin

text \<open>
  The functions that change the key and the values of a record, \<open>PUSHKEY\<close> to \<open>MAPVALUE\<close>, \<open>TRANSPOSE\<close> and
  \<open>GROUPBYKEY\<close> of \<open>mods/tql/fm_monad.go\<close>.  They also keep the result columns of the task, the first of
  which is the row number.
\<close>

subsection \<open>Keys\<close>

text \<open>What is done once, on the first record.\<close>

definition onFirst :: "('a node_state \<Rightarrow> 'a node_state) \<Rightarrow> 'a node_state \<Rightarrow> 'a node_state" where
  "onFirst f st = (if ns_isFirst st then st else f (st\<lparr>ns_isFirst := True\<rparr>))"

definition popKeyColumns :: "nat \<Rightarrow> column list \<Rightarrow> column list" where
  "popKeyColumns n columns =
     (if n + 1 < length columns
      then columns ! (n + 1) # take n (drop 1 columns) @ drop (n + 2) columns
      else columns)"

definition popRow :: "'a tql_record \<Rightarrow> 'a cell list \<Rightarrow> 'a tql_record option" where
  "popRow rec v =
     (case v of
        x # y # zs \<Rightarrow> Some (NewRecordVars x (if zs = [] then y else CArr (y # zs)) (rec_vars rec))
      | _ \<Rightarrow> None)"

definition fmPopKey :: "'a env \<Rightarrow> int list \<Rightarrow> 'a tql_record option \<Rightarrow> 'a fm" where
  "fmPopKey en args inflight st =
     (let place = (case args of [] \<Rightarrow> 0 | n # _ \<Rightarrow> n) in
      case inflight of
        None \<Rightarrow> (Ok RetNil, st)
      | Some rec \<Rightarrow>
          (case rec_value rec of
             CNil \<Rightarrow> (Ok RetNil, st)
           | CArr val \<Rightarrow>
               (if place < 0 \<or> int (length val) \<le> place then (Err ''POPKEY'', st)
                else (let n = nat place in
                  (Ok (RetPtr (Some (ReplaceKeyValue rec (val ! n) (CArr (take n val @ drop (n + 1) val))))),
                   onFirst (\<lambda>st. SetResultColumns en (popKeyColumns n (ns_columns st)) st) st)))
           | CRows val \<Rightarrow>
               (let st1 = onFirst (\<lambda>st. if 1 < length (ns_columns st)
                                     then SetResultColumns en (tl (ns_columns st)) st else st) st in
                if \<exists>v \<in> set val. length v < 2 then (Err ''POPKEY'', st1)
                else (Ok (RetPtrs (map (popRow rec) val)), st1))
           | _ \<Rightarrow> (Err ''POPKEY'', st)))"

definition fmPushKey :: "'a env \<Rightarrow> 'a cell \<Rightarrow> 'a tql_record option \<Rightarrow> 'a fm" where
  "fmPushKey en newKey inflight st =
     (let st1 = onFirst (\<lambda>st. SetResultColumns en (en_columnOf en ''key'' newKey # ns_columns st) st) st in
      case inflight of
        None \<Rightarrow> (Ok RetNil, st1)
      | Some rec \<Rightarrow>
          (case rec_value rec of
             CArr val \<Rightarrow> (Ok (RetPtr (Some (ReplaceKeyValue rec newKey (CArr (rec_key rec # val))))), st1)
           | CNil \<Rightarrow> (Err ''PUSHKEY'', st1)
           | val \<Rightarrow> (Ok (RetPtr (Some (ReplaceKeyValue rec newKey (CArr [rec_key rec, val])))), st1)))"

definition fmMapKey :: "'a env \<Rightarrow> 'a cell \<Rightarrow> 'a tql_record option \<Rightarrow> 'a fm" where
  "fmMapKey en newKey inflight st =
     (let st1 = onFirst (\<lambda>st. if ns_columns st = [] then st
                  else SetResultColumns en (en_columnOf en ''key'' newKey # tl (ns_columns st)) st) st in
      case inflight of
        None \<Rightarrow> (Ok RetNil, st1)
      | Some rec \<Rightarrow> (Ok (RetPtr (Some (ReplaceKey rec newKey))), st1))"

subsection \<open>Values\<close>

datatype 'a opt = OptStr string | OptNull "'a cell" | OptWhere bool | OptOther

text \<open>The new value and the predicate after the options; a name counts as the first option only.\<close>

fun scanOpts :: "'a opt list \<Rightarrow> 'a cell \<times> bool \<Rightarrow> 'a cell \<times> bool" where
  "scanOpts [] acc = acc"
| "scanOpts (OptNull alt # opts) (v, w) = scanOpts opts (if v = CNil then alt else v, w)"
| "scanOpts (OptWhere b # opts) (v, w) = scanOpts opts (v, b)"
| "scanOpts (opt # opts) acc = scanOpts opts acc"

definition optName :: "'a opt list \<Rightarrow> string option" where
  "optName opts = (case opts of OptStr s # _ \<Rightarrow> Some s | _ \<Rightarrow> None)"

definition pushIndex :: "int \<Rightarrow> 'a cell \<Rightarrow> nat" where
  "pushIndex idx value =
     (let i = (if idx < 0 then 0 else idx) in
      case value of
        CArr val \<Rightarrow> nat (if int (length val) < i then int (length val) else i)
      | _ \<Rightarrow> nat (if 0 < i then 1 else i))"

definition pushColumns :: "'a env \<Rightarrow> nat \<Rightarrow> string \<Rightarrow> 'a cell \<Rightarrow> column list \<Rightarrow> column list" where
  "pushColumns en idx name v cols =
     (if idx \<le> length cols
      then (if length cols = idx then cols else take (idx + 1) cols) @ [en_columnOf en name v]
           @ (if length cols = idx then [] else drop (idx + 1) cols)
      else cols @ map (\<lambda>i. \<lparr>cl_Name = ''column'' @ en_itoa en (int i), cl_DataType = []\<rparr>) [length cols..<idx])"

definition fmPushValue :: "'a env \<Rightarrow> int \<Rightarrow> 'a cell \<Rightarrow> 'a opt list \<Rightarrow> 'a tql_record option \<Rightarrow> 'a fm" where
  "fmPushValue en idx0 v0 opts inflight st =
     (case scanOpts opts (v0, True) of (v1, ok) \<Rightarrow>
      (case inflight of
         None \<Rightarrow> (Ok RetNil, st)
       | Some rec \<Rightarrow>
           (let idx = pushIndex idx0 (rec_value rec);
                name = (case optName opts of Some s \<Rightarrow> s | None \<Rightarrow> ''column'');
                st1 = onFirst (\<lambda>st. SetResultColumns en (pushColumns en idx name v1 (ns_columns st)) st) st;
                v = (if ok then v1 else CNil)
            in case rec_value rec of
                 CArr val \<Rightarrow>
                   (Ok (RetPtr (Some (NewRecordVars (rec_key rec) (CArr (take idx val @ [v] @ drop idx val)) (rec_vars rec)))), st1)
               | val \<Rightarrow>
                   (Ok (RetPtr (Some (ReplaceValue rec (CArr (if idx = 0 then [v, val] else [val, v]))))), st1))))"

text \<open>The places that stay: the indexes are looked for in their order, from left to right.\<close>

fun keptPlaces :: "nat \<Rightarrow> nat \<Rightarrow> int list \<Rightarrow> nat list" where
  "keptPlaces i 0 indexes = []"
| "keptPlaces i (Suc n) indexes =
     (case indexes of
        x # xs \<Rightarrow> if int i = x then keptPlaces (Suc i) n xs else i # keptPlaces (Suc i) n indexes
      | [] \<Rightarrow> i # keptPlaces (Suc i) n indexes)"

definition fmPopValue :: "'a env \<Rightarrow> int list \<Rightarrow> 'a tql_record option \<Rightarrow> 'a fm" where
  "fmPopValue en indexes inflight st =
     (case inflight of
        None \<Rightarrow> (Ok (RetPtr None), st)
      | Some rec \<Rightarrow>
          (if indexes = [] then (Ok (RetPtr (Some rec)), st)
           else case rec_value rec of
             CArr val \<Rightarrow>
               (if \<exists>i \<in> set indexes. i < 0 \<or> int (length val) \<le> i then (Err ''POPVALUE'', st)
                else (let includes = keptPlaces 0 (length val) indexes;
                          ret = Ok (RetPtr (Some (ReplaceValue rec (CArr (map ((!) val) includes)))))
                  in if ns_isFirst st then (ret, st)
                     else (case ns_columns st of
                             [] \<Rightarrow> (Panic, st\<lparr>ns_isFirst := True\<rparr>)
                           | c # cs \<Rightarrow>
                               (ret, SetResultColumns en (c # map ((!) (c # cs)) (filter (\<lambda>i. i < length (c # cs)) (map Suc includes)))
                                  (st\<lparr>ns_isFirst := True\<rparr>)))))
           | _ \<Rightarrow> (Err ''POPVALUE'', st)))"

definition mapColumns :: "'a env \<Rightarrow> nat \<Rightarrow> string \<Rightarrow> 'a cell \<Rightarrow> column list \<Rightarrow> column list" where
  "mapColumns en idx name v cols =
     (let padded = (if length cols \<le> idx + 1
                    then cols @ map (\<lambda>i. en_columnAny en (''column'' @ en_itoa en (int i))) [length cols..<idx + 2]
                    else cols)
      in padded[idx + 1 := en_columnOf en name v])"

definition fmMapValue :: "'a env \<Rightarrow> int \<Rightarrow> 'a cell \<Rightarrow> 'a opt list \<Rightarrow> 'a tql_record option \<Rightarrow> 'a fm" where
  "fmMapValue en idx v0 opts inflight st =
     (case inflight of
        None \<Rightarrow> (Ok RetNil, st)
      | Some rec \<Rightarrow>
          (case scanOpts opts (v0, True) of (v, ok) \<Rightarrow>
           (case rec_value rec of
              CArr val \<Rightarrow>
                (if idx < 0 \<or> int (length val) \<le> idx then fmPushValue en idx v opts inflight st
                 else (Ok (RetPtr (Some (ReplaceValue rec (CArr (if ok then val[nat idx := v] else val))))),
                       onFirst (\<lambda>st. case optName opts of
                                  Some name \<Rightarrow> SetResultColumns en (mapColumns en (nat idx) name v (ns_columns st)) st
                                | None \<Rightarrow> st) st))
            | val \<Rightarrow>
                (if idx \<noteq> 0 then fmPushValue en idx v opts inflight st
                 else (let ret = Ok (RetPtr (Some (ReplaceValue rec (if ok then v else val)))) in
                   if ns_isFirst st then (ret, st)
                   else (case optName opts of
                           None \<Rightarrow> (ret, st\<lparr>ns_isFirst := True\<rparr>)
                         | Some name \<Rightarrow>
                             (if length (ns_columns st) < 2 then (Panic, st\<lparr>ns_isFirst := True\<rparr>)
                              else (ret, st\<lparr>ns_isFirst := True,
                                     ns_columns := (ns_columns st)[1 := (ns_columns st ! 1)\<lparr>cl_Name := name\<rparr>]\<rparr>))))))))"

subsection \<open>TRANSPOSE\<close>

text \<open>An argument is the option \<open>header\<close>, the option \<open>fixed\<close>, a column number or something else.\<close>

datatype tr_arg = TrHeader bool | TrFixed "int list" | TrIndex int | TrOther

fun transposeArgs :: "tr_arg list \<Rightarrow> transposer \<Rightarrow> transposer option" where
  "transposeArgs [] tr = Some tr"
| "transposeArgs (TrHeader b # args) tr = transposeArgs args (tr\<lparr>tr_header := b\<rparr>)"
| "transposeArgs (TrFixed ns # args) tr = transposeArgs args (tr\<lparr>tr_fixedIndexes := tr_fixedIndexes tr @ ns\<rparr>)"
| "transposeArgs (TrIndex n # args) tr = transposeArgs args (tr\<lparr>tr_transposedIndexes := tr_transposedIndexes tr @ [n]\<rparr>)"
| "transposeArgs (TrOther # args) tr = None"

text \<open>\<open>fixedAndTransposed\<close> remembers the division of the first record it sees.\<close>

definition splitPlaces :: "transposer \<Rightarrow> nat \<Rightarrow> nat list \<times> nat list" where
  "splitPlaces tr n =
     (if tr_transposedIndexes tr = [] \<and> tr_fixedIndexes tr = [] then ([], [0..<n])
      else if tr_transposedIndexes tr \<noteq> []
      then (filter (\<lambda>i. int i \<notin> set (tr_transposedIndexes tr)) [0..<n],
            filter (\<lambda>i. int i \<in> set (tr_transposedIndexes tr)) [0..<n])
      else (filter (\<lambda>i. int i \<in> set (tr_fixedIndexes tr)) [0..<n],
            filter (\<lambda>i. int i \<notin> set (tr_fixedIndexes tr)) [0..<n]))"

definition fixedAndTransposed :: "transposer \<Rightarrow> nat \<Rightarrow> (nat list \<times> nat list) \<times> transposer" where
  "fixedAndTransposed tr n =
     (case tr_cache tr of
        Some p \<Rightarrow> (p, tr)
      | None \<Rightarrow> (splitPlaces tr n, tr\<lparr>tr_cache := Some (splitPlaces tr n)\<rparr>))"

text \<open>
  Reading values at given places panics past their end.  A value that is no \<open>[]any\<close> leaves the nil slice of
  the failed type assertion in the record.
\<close>

definition valuesAt :: "'a cell list \<Rightarrow> nat list \<Rightarrow> (string, 'a cell list) res" where
  "valuesAt values places =
     (if \<forall>n \<in> set places. n < length values then Ok (map ((!) values) places) else Panic)"

definition headerCell :: "transposer \<Rightarrow> nat \<Rightarrow> 'a cell list" where
  "headerCell tr n =
     (if tr_header tr
      then [CStr (if n < length (tr_headerNames tr) then tr_headerNames tr ! n else ''no-header'')]
      else [])"

definition transposeDo :: "transposer \<Rightarrow> 'a tql_record \<Rightarrow> (string, 'a fm_ret) res \<times> transposer" where
  "transposeDo tr rec =
     (case rec_value rec of
        CNil \<Rightarrow> (Ok RetNil, tr)
      | CArr values \<Rightarrow>
          (case fixedAndTransposed tr (length values) of
             ((fixed, transposed), tr') \<Rightarrow>
               (rbind (valuesAt values fixed) (\<lambda>fixedVals.
                  if transposed = [] then Ok (RetPtr (Some (NewRecord (rec_key rec) (CArr fixedVals))))
                  else rbind (valuesAt values transposed) (\<lambda>vs.
                    Ok (RetPtrs (map (\<lambda>(n, v). Some (NewRecord (rec_key rec) (CArr (fixedVals @ headerCell tr n @ [v]))))
                      (zip transposed vs))))), tr'))
      | v \<Rightarrow>
          (if tr_header tr \<and> tr_headerNames tr \<noteq> []
           then Ok (RetPtr (Some (NewRecord (rec_key rec) (CArr [CStr (hd (tr_headerNames tr)), CArr []]))))
           else Ok (RetPtr (Some rec)), tr))"

text \<open>The columns of the first record: the fixed ones renamed, one for the header, one for the value.\<close>

definition renamedColumn :: "'a env \<Rightarrow> transposer \<Rightarrow> nat \<Rightarrow> nat \<Rightarrow> column \<Rightarrow> column" where
  "renamedColumn en tr i n c =
     c\<lparr>cl_Name := (if n < length (tr_headerNames tr) then tr_headerNames tr ! n else ''column'' @ en_itoa en (int i)),
       cl_DataType := []\<rparr>"

definition transposeColumns :: "'a env \<Rightarrow> transposer \<Rightarrow> nat list \<Rightarrow> column list \<Rightarrow> (string, column list) res" where
  "transposeColumns en tr fixed cols =
     (if cols = [] \<or> (\<exists>n \<in> set fixed. length cols \<le> n + 1) then Panic
      else (let cs = hd cols # map (\<lambda>(i, n). renamedColumn en tr i n (cols ! (n + 1))) (enumerate 0 fixed)
                  @ (if tr_header tr then [en_columnAny en ''header''] else [])
            in Ok (cs @ [en_columnAny en (''column'' @ en_itoa en (int (length cs) - 1))])))"

definition transposeFirst ::
  "'a env \<Rightarrow> transposer \<Rightarrow> 'a tql_record \<Rightarrow> 'a node_state \<Rightarrow> (string, 'a node_state \<times> transposer) res" where
  "transposeFirst en tr rec st =
     (case rec_value rec of
        CArr vals \<Rightarrow>
          (let tr1 = (if tr_header tr
                      then tr\<lparr>tr_headerNames := tr_headerNames tr @ map (\<lambda>v. case v of CStr s \<Rightarrow> s | _ \<Rightarrow> en_show en v) vals\<rparr>
                      else tr)
           in case fixedAndTransposed tr1 (length vals) of
                ((fixed, _), tr2) \<Rightarrow>
                  rbind (transposeColumns en tr2 fixed (ns_columns st)) (\<lambda>cols.
                    Ok (SetResultColumns en cols st, tr2)))
      | CNil \<Rightarrow> Ok (st, tr)
      | v \<Rightarrow>
          (case ns_columns st of
             [] \<Rightarrow> Panic
           | c # _ \<Rightarrow>
               (let cs = (if tr_header tr then [c, en_columnAny en (''column'' @ en_itoa en 0)] else [c])
                in Ok (SetResultColumns en (cs @ [en_columnAny en ''column1'']) st,
                       if tr_header tr then tr\<lparr>tr_headerNames := [en_show en v]\<rparr> else tr))))"

definition newTransposer :: transposer where
  "newTransposer = \<lparr>tr_fixedIndexes = [], tr_transposedIndexes = [], tr_headerNames = [], tr_header = False, tr_cache = None\<rparr>"

definition fmTranspose :: "'a env \<Rightarrow> tr_arg list \<Rightarrow> 'a tql_record option \<Rightarrow> 'a fm" where
  "fmTranspose en args inflight st =
     (case ns_transposer st of
        Some tr \<Rightarrow>
          (case inflight of
             None \<Rightarrow> (Ok RetNil, st)
           | Some rec \<Rightarrow> (case transposeDo tr rec of (r, tr') \<Rightarrow> (r, st\<lparr>ns_transposer := Some tr'\<rparr>)))
      | None \<Rightarrow>
          (case transposeArgs args newTransposer of
             None \<Rightarrow> (Err ''TRANSPOSE'', st\<lparr>ns_transposer := Some newTransposer\<rparr>)
           | Some tr \<Rightarrow>
               (if tr_fixedIndexes tr \<noteq> [] \<and> tr_transposedIndexes tr \<noteq> []
                then (Err ''TRANSPOSE'', st\<lparr>ns_transposer := Some tr\<rparr>)
                else (case inflight of
                        None \<Rightarrow> (Ok RetNil, st\<lparr>ns_transposer := Some tr\<rparr>)
                      | Some rec \<Rightarrow>
                          (case transposeFirst en tr rec st of
                             Ok (st1, tr1) \<Rightarrow>
                               (if tr_header tr1 then (Ok RetNil, st1\<lparr>ns_transposer := Some tr1\<rparr>)
                                else (case transposeDo tr1 rec of (r, tr') \<Rightarrow> (r, st1\<lparr>ns_transposer := Some tr'\<rparr>)))
                           | Err e \<Rightarrow> (Err e, st) | Panic \<Rightarrow> (Panic, st) | NoFuel \<Rightarrow> (NoFuel, st))))))"

subsection \<open>GROUPBYKEY\<close>

text \<open>
  \<open>Group.yield\<close> in chunk mode.  A group made by \<open>GROUPBYKEY\<close> has no fillers, so a nil value, or a float under
  a time as key, indexes an empty slice.
\<close>

definition yieldChunk :: "'a env \<Rightarrow> 'a cell \<Rightarrow> 'a cell list \<Rightarrow> 'a node_state \<Rightarrow> (string, 'a node_state) res" where
  "yieldChunk en key values st =
     (if \<exists>v \<in> set values. v = CNil
          \<or> ((case key of CVal k \<Rightarrow> en_isTime en k | _ \<Rightarrow> False) \<and> (case v of CVal x \<Rightarrow> en_isFloat en x | _ \<Rightarrow> False))
      then Panic
      else Ok (st\<lparr>ns_told := ns_told st @ [yieldRecord key values]\<rparr>))"

definition bufferAppend :: "'a cell \<Rightarrow> 'a cell \<Rightarrow> ('a cell \<times> 'a cell list) list \<Rightarrow> ('a cell \<times> 'a cell list) list" where
  "bufferAppend key v buf =
     (case map_of buf key of
        None \<Rightarrow> buf @ [(key, [v])]
      | Some vs \<Rightarrow> map (\<lambda>(k, ws). (k, if k = key then ws @ [v] else ws)) buf)"

definition pushChunk ::
  "'a env \<Rightarrow> 'a cell \<Rightarrow> 'a tql_record \<Rightarrow> 'a tql_group \<Rightarrow> 'a node_state \<Rightarrow> (string, 'a tql_group \<times> 'a node_state) res" where
  "pushChunk en key rec gr st =
     (if \<not> hashable key then Panic
      else (let buf = bufferAppend key (rec_value rec) (gr_buffer gr);
                cur = gr_curKey gr;
                gr1 = gr\<lparr>gr_buffer := buf, gr_curKey := key\<rparr>
            in if \<not> gr_lazy gr \<and> cur \<noteq> CNil \<and> cur \<noteq> key
               then (case map_of buf cur of
                       Some vs \<Rightarrow>
                         rbind (yieldChunk en cur vs st) (\<lambda>st'.
                           Ok (gr1\<lparr>gr_buffer := filter (\<lambda>(k, ws). k \<noteq> cur) buf\<rparr>, st'))
                     | None \<Rightarrow> Ok (gr1, st))
               else Ok (gr1, st)))"

text \<open>An argument of \<open>GROUPBYKEY\<close> is the option \<open>lazy\<close> or is ignored; the last option wins.\<close>

definition fmGroupByKey :: "'a env \<Rightarrow> bool option list \<Rightarrow> 'a tql_record option \<Rightarrow> 'a fm" where
  "fmGroupByKey en args inflight st =
     (let gr = (case ns_group st of
                  Some gr \<Rightarrow> gr
                | None \<Rightarrow> \<lparr>gr_lazy = fold (\<lambda>a b. case a of Some f \<Rightarrow> f | None \<Rightarrow> b) args False, gr_buffer = [], gr_curKey = CNil\<rparr>)
      in case inflight of
           None \<Rightarrow> (Ok RetNil, st\<lparr>ns_group := Some gr\<rparr>)
         | Some rec \<Rightarrow>
             (case pushChunk en (en_unbox en (rec_key rec)) rec gr st of
                Ok (gr', st') \<Rightarrow> (Ok RetNil, st'\<lparr>ns_group := Some gr'\<rparr>)
              | Err e \<Rightarrow> (Err e, st) | Panic \<Rightarrow> (Panic, st) | NoFuel \<Rightarrow> (NoFuel, st)))"

text \<open>\<open>Group.onEOF\<close> in chunk mode, which ranges over the map; what was told before a panic stays told.\<close>

fun yieldAll :: "'a env \<Rightarrow> ('a cell \<times> 'a cell list) list \<Rightarrow> 'a node_state \<Rightarrow> bool \<times> 'a node_state" where
  "yieldAll en [] st = (True, st)"
| "yieldAll en ((k, vs) # buf) st =
     (case yieldChunk en k vs st of Ok st' \<Rightarrow> yieldAll en buf st' | _ \<Rightarrow> (False, st))"

definition groupEOF :: "'a env \<Rightarrow> 'a node_state \<Rightarrow> bool \<times> 'a node_state" where
  "groupEOF en st =
     (case ns_group st of
        None \<Rightarrow> (True, st)
      | Some gr \<Rightarrow> yieldAll en (en_order en (gr_buffer gr)) (st\<lparr>ns_group := Some (gr\<lparr>gr_buffer := []\<rparr>)\<rparr>))"

end
