(* ===== verification/TqlPipeline.thy ===== *)
theory TqlPipeline
  imports TqlReshape
begin

text \<open>
  A task as a chain of nodes, \<open>mods/tql/task_node.go\<close>, \<open>task.go\<close> and \<open>task_output.go\<close>.  Each node is a
  goroutine that receives a record, evaluates its expression and tells the results to the next node; the
  channels have no buffer, so a node that tells a record waits until the next node receives it.  A step of
  the task is one record that passes from one goroutine to the next; which of the possible steps happens is
  up to the scheduler.  A task that is cancelled is not modelled, and the evaluation of a record is one step.
\<close>

subsection \<open>One node\<close>

text \<open>A node evaluates its expression on a record; at the end it runs the function set with \<open>SetEOF\<close>.\<close>

record 'a node_fn =
  nf_eval :: "'a tql_record option \<Rightarrow> 'a fm"
  nf_eof :: "'a node_state \<Rightarrow> bool \<times> 'a node_state"

text \<open>\<open>to_next\<close>: what a result tells the next node, and whether it fires the circuit break.\<close>

fun toNext :: "'a tql_record option list \<Rightarrow> 'a tql_record list \<times> bool" where
  "toNext [] = ([], False)"
| "toNext (None # rs) = toNext rs"
| "toNext (Some r # rs) =
     (if IsEOF r then ([r], False)
      else if IsCircuitBreak r then ([], True)
      else (case toNext rs of (out, brk) \<Rightarrow> (r # out, brk)))"

definition retNext :: "'a fm_ret \<Rightarrow> 'a tql_record list \<times> bool" where
  "retNext ret =
     (case ret of
        RetNil \<Rightarrow> ([], False)
      | RetPtr r \<Rightarrow> toNext [r]
      | RetPtrs rs \<Rightarrow> toNext rs
      | RetOther \<Rightarrow> ([ErrorRecord ''invalid type''], False))"

datatype phase = Running | Leaving | Failed | FailedEOF

record 'a proc =
  pr_state :: "'a node_state"
  pr_pend :: "'a tql_record list"
  pr_phase :: phase
  pr_broken :: bool

definition startProc :: "'a proc" where
  "startProc = \<lparr>pr_state = NewNode_state, pr_pend = [], pr_phase = Running, pr_broken = False\<rparr>"

text \<open>
  The result columns are shared by all nodes of the task: a node works on the columns it finds and leaves
  new ones.  What a node does with a record it has received, up to the records it is going to tell.  After
  a panic the goroutine is gone; the last will is told after the function set with \<open>SetEOF\<close>.
\<close>

definition told :: "'a node_state \<Rightarrow> 'a proc \<Rightarrow> 'a tql_record list \<Rightarrow> 'a proc" where
  "told st p out = p\<lparr>pr_state := st\<lparr>ns_told := [], ns_columns := []\<rparr>, pr_pend := ns_told st @ out\<rparr>"

definition receive :: "'a node_fn \<Rightarrow> 'a tql_record \<Rightarrow> column list \<Rightarrow> 'a proc \<Rightarrow> column list \<times> 'a proc" where
  "receive fn rec cols p =
     (let st0 = (pr_state p)\<lparr>ns_columns := cols\<rparr> in
      if IsEOF rec \<or> IsCircuitBreak rec then
        (case nf_eof fn st0 of
           (True, st) \<Rightarrow> (ns_columns st, (told st p [rec])\<lparr>pr_phase := Leaving\<rparr>)
         | (False, st) \<Rightarrow> (ns_columns st, (told st p [])\<lparr>pr_phase := FailedEOF\<rparr>))
      else if IsError rec then (cols, p\<lparr>pr_pend := [rec]\<rparr>)
      else
        (case nf_eval fn (Some rec) st0 of
           (Ok ret, st) \<Rightarrow>
             (case retNext ret of (out, brk) \<Rightarrow>
                (ns_columns st, (told st p out)\<lparr>pr_broken := (pr_broken p \<or> brk)\<rparr>))
         | (Err e, st) \<Rightarrow> (ns_columns st, told st p [ErrorRecord e])
         | (_, st) \<Rightarrow> (ns_columns st, (told st p [])\<lparr>pr_phase := Failed\<rparr>)))"

subsection \<open>The chain\<close>

text \<open>
  \<open>hop\<close>: one record passes.  \<open>inp\<close> is what the goroutine before the chain still has to tell; the last node
  delivers to the sink.  A node receives only when it has nothing left to tell.
\<close>

definition ready :: "'a proc \<Rightarrow> bool" where
  "ready p = (pr_phase p = Running \<and> pr_pend p = [])"

inductive hop ::
  "'a node_fn list \<Rightarrow> column list \<Rightarrow> 'a tql_record list \<Rightarrow> 'a proc list
     \<Rightarrow> 'a tql_record option \<Rightarrow> column list \<Rightarrow> 'a tql_record list \<Rightarrow> 'a proc list \<Rightarrow> bool" where
  pass: "ready p \<Longrightarrow> receive fn rec cols p = (cols', p') \<Longrightarrow>
     hop (fn # fns) cols (rec # inp) (p # ps) None cols' inp (p' # ps)"
| deliver: "hop [] cols (rec # inp) [] (Some rec) cols inp []"
| behind: "hop fns cols (pr_pend p) ps out cols' pend' ps' \<Longrightarrow>
     hop (fn # fns) cols inp (p # ps) out cols' inp (p\<lparr>pr_pend := pend'\<rparr> # ps')"

record 'a task =
  tk_columns :: "column list"
  tk_main :: "'a tql_record list"
  tk_procs :: "'a proc list"
  tk_sink :: "'a tql_record list"

text \<open>The goroutine of the output leaves its loop at the end and at a circuit break.\<close>

definition sinkOpen :: "'a tql_record list \<Rightarrow> bool" where
  "sinkOpen received = list_all (\<lambda>r. \<not> IsEOF r \<and> \<not> IsCircuitBreak r) received"

inductive task_step :: "'a node_fn list \<Rightarrow> 'a task \<Rightarrow> 'a task \<Rightarrow> bool" where
  moves: "hop fns (tk_columns t) (tk_main t) (tk_procs t) None cols' main' procs' \<Longrightarrow>
     task_step fns t (t\<lparr>tk_columns := cols', tk_main := main', tk_procs := procs'\<rparr>)"
| delivers: "hop fns (tk_columns t) (tk_main t) (tk_procs t) (Some rec) cols' main' procs' \<Longrightarrow> sinkOpen (tk_sink t) \<Longrightarrow>
     task_step fns t (t\<lparr>tk_columns := cols', tk_main := main', tk_procs := procs', tk_sink := tk_sink t @ [rec]\<rparr>)"

text \<open>\<open>executeOutput\<close>: an empty record makes the source run, the end follows.\<close>

definition startTask :: "'a node_fn list \<Rightarrow> 'a task" where
  "startTask fns = \<lparr>tk_columns = [], tk_main = [NewRecord (CStr []) CNil, EofRecord], tk_procs = map (\<lambda>fn. startProc) fns, tk_sink = []\<rparr>"

text \<open>Every goroutine has told all it had to tell, and every node has left.\<close>

definition finished :: "'a task \<Rightarrow> bool" where
  "finished t = (tk_main t = [] \<and> list_all (\<lambda>p. pr_phase p = Leaving \<and> pr_pend p = []) (tk_procs t))"

subsection \<open>The rows of the sink\<close>

text \<open>
  \<open>output.addRow\<close>: the rows handed to the encoder or the database, for encoders that take them; the rows of
  images are left out.
\<close>

fun recordRows :: "'a tql_record \<Rightarrow> 'a cell list list" where
  "recordRows (Rec k v vars) =
     (if IsArray (Rec k v vars) then (case v of CRecs rs \<Rightarrow> concat (map recordRows rs) | _ \<Rightarrow> [])
      else if IsTuple (Rec k v vars) then
        (case v of CNil \<Rightarrow> [] | CRows vss \<Rightarrow> vss | CArr vs \<Rightarrow> [vs] | _ \<Rightarrow> [[v]])
      else [])"

definition sinkRows :: "'a tql_record list \<Rightarrow> 'a cell list list" where
  "sinkRows received = concat (map recordRows received)"

definition sinkError :: "'a tql_record list \<Rightarrow> 'a cell option" where
  "sinkError received = (case filter IsError received of [] \<Rightarrow> None | es \<Rightarrow> Some (rec_value (last es)))"

subsection \<open>The nodes of the map functions\<close>

definition noEOF :: "'a node_state \<Rightarrow> bool \<times> 'a node_state" where
  "noEOF st = (True, st)"

text \<open>A source sets the columns and tells its records when it receives the first record.\<close>

definition sourceNode :: "column list \<Rightarrow> 'a tql_record list \<Rightarrow> 'a node_fn" where
  "sourceNode cols recs =
     \<lparr>nf_eval = (\<lambda>rec st. (Ok RetNil, st\<lparr>ns_columns := cols, ns_told := recs\<rparr>)), nf_eof = noEOF\<rparr>"

definition takeNode :: "int list \<Rightarrow> 'a node_fn" where
  "takeNode args = \<lparr>nf_eval = fmTake args, nf_eof = noEOF\<rparr>"

definition dropNode :: "int list \<Rightarrow> 'a node_fn" where
  "dropNode args = \<lparr>nf_eval = fmDrop args, nf_eof = noEOF\<rparr>"

text \<open>The arguments of these are expressions over the record.\<close>

definition filterNode :: "('a tql_record \<Rightarrow> bool) \<Rightarrow> 'a node_fn" where
  "filterNode p = \<lparr>nf_eval = (\<lambda>rec. fmFilter (case rec of Some r \<Rightarrow> p r | None \<Rightarrow> False) rec), nf_eof = noEOF\<rparr>"

definition filterChangedNode :: "'a env \<Rightarrow> ('a tql_record \<Rightarrow> 'a cell) \<Rightarrow> ('a tql_record \<Rightarrow> filter_arg list) \<Rightarrow> 'a node_fn" where
  "filterChangedNode en f args =
     \<lparr>nf_eval = (\<lambda>rec. case rec of Some r \<Rightarrow> fmFilterChanged en (f r) (args r) rec | None \<Rightarrow> fmFilterChanged en CNil [] rec),
      nf_eof = (\<lambda>st. (True, st\<lparr>ns_told := changedEOF st\<rparr>))\<rparr>"

definition flattenNode :: "'a node_fn" where
  "flattenNode = \<lparr>nf_eval = fmFlatten, nf_eof = noEOF\<rparr>"

definition pushKeyNode :: "'a env \<Rightarrow> ('a tql_record \<Rightarrow> 'a cell) \<Rightarrow> 'a node_fn" where
  "pushKeyNode en f =
     \<lparr>nf_eval = (\<lambda>rec. fmPushKey en (case rec of Some r \<Rightarrow> f r | None \<Rightarrow> CNil) rec), nf_eof = noEOF\<rparr>"

definition popKeyNode :: "'a env \<Rightarrow> int list \<Rightarrow> 'a node_fn" where
  "popKeyNode en args = \<lparr>nf_eval = fmPopKey en args, nf_eof = noEOF\<rparr>"

definition mapKeyNode :: "'a env \<Rightarrow> ('a tql_record \<Rightarrow> 'a cell) \<Rightarrow> 'a node_fn" where
  "mapKeyNode en f =
     \<lparr>nf_eval = (\<lambda>rec. fmMapKey en (case rec of Some r \<Rightarrow> f r | None \<Rightarrow> CNil) rec), nf_eof = noEOF\<rparr>"

definition pushValueNode :: "'a env \<Rightarrow> int \<Rightarrow> ('a tql_record \<Rightarrow> 'a cell) \<Rightarrow> ('a tql_record \<Rightarrow> 'a opt list) \<Rightarrow> 'a node_fn" where
  "pushValueNode en i f opts =
     \<lparr>nf_eval = (\<lambda>rec. case rec of Some r \<Rightarrow> fmPushValue en i (f r) (opts r) rec | None \<Rightarrow> fmPushValue en i CNil [] rec),
      nf_eof = noEOF\<rparr>"

definition popValueNode :: "'a env \<Rightarrow> int list \<Rightarrow> 'a node_fn" where
  "popValueNode en indexes = \<lparr>nf_eval = fmPopValue en indexes, nf_eof = noEOF\<rparr>"

definition mapValueNode :: "'a env \<Rightarrow> int \<Rightarrow> ('a tql_record \<Rightarrow> 'a cell) \<Rightarrow> ('a tql_record \<Rightarrow> 'a opt list) \<Rightarrow> 'a node_fn" where
  "mapValueNode en i f opts =
     \<lparr>nf_eval = (\<lambda>rec. case rec of Some r \<Rightarrow> fmMapValue en i (f r) (opts r) rec | None \<Rightarrow> fmMapValue en i CNil [] rec),
      nf_eof = noEOF\<rparr>"

definition groupByKeyNode :: "'a env \<Rightarrow> bool option list \<Rightarrow> 'a node_fn" where
  "groupByKeyNode en args = \<lparr>nf_eval = fmGroupByKey en args, nf_eof = groupEOF en\<rparr>"

definition transposeNode :: "'a env \<Rightarrow> tr_arg list \<Rightarrow> 'a node_fn" where
  "transposeNode en args = \<lparr>nf_eval = fmTranspose en args, nf_eof = noEOF\<rparr>"

end
