(* ===== verification/TqlPipelineProps.thy ===== *)
theory TqlPipelineProps
  imports TqlPipeline
begin

text \<open>
  What a task delivers does not depend on the scheduler: every node turns the records it receives into the
  records it tells, one after the other, and the sink receives the composition of the nodes.  Every
  execution ends, with all goroutines gone, unless a node panics; then the task never ends.
\<close>

subsection \<open>The nodes as functions on sequences\<close>

text \<open>The result columns a node finds must not change what it tells.\<close>

definition blind :: "'a node_fn \<Rightarrow> bool" where
  "blind fn = (\<forall>rec cols p. snd (receive fn rec cols p) = snd (receive fn rec [] p))"

text \<open>All a node tells, with what it still has to tell, when it receives the given records; and its last phase.\<close>

fun runProc :: "'a node_fn \<Rightarrow> 'a proc \<Rightarrow> 'a tql_record list \<Rightarrow> 'a tql_record list" where
  "runProc fn p [] = pr_pend p"
| "runProc fn p (r # rs) =
     pr_pend p @ (if pr_phase p = Running then runProc fn (snd (receive fn r [] (p\<lparr>pr_pend := []\<rparr>))) rs else [])"

fun runPhase :: "'a node_fn \<Rightarrow> 'a proc \<Rightarrow> 'a tql_record list \<Rightarrow> phase" where
  "runPhase fn p [] = pr_phase p"
| "runPhase fn p (r # rs) =
     (if pr_phase p = Running then runPhase fn (snd (receive fn r [] (p\<lparr>pr_pend := []\<rparr>))) rs else pr_phase p)"

text \<open>The chain: what the sink is going to receive.\<close>

fun runChain :: "'a node_fn list \<Rightarrow> 'a proc list \<Rightarrow> 'a tql_record list \<Rightarrow> 'a tql_record list" where
  "runChain (fn # fns) (p # ps) inp = runChain fns ps (runProc fn p inp)"
| "runChain _ _ inp = inp"

text \<open>The number of records that are still going to pass from one goroutine to the next.\<close>

fun work :: "'a node_fn list \<Rightarrow> 'a proc list \<Rightarrow> 'a tql_record list \<Rightarrow> nat" where
  "work (fn # fns) (p # ps) inp = length inp + work fns ps (runProc fn p inp)"
| "work _ _ inp = length inp"

lemma runProc_pend: "runProc fn p inp = pr_pend p @ runProc fn (p\<lparr>pr_pend := []\<rparr>) inp"
  by (cases inp) simp_all

lemma runPhase_pend [simp]: "runPhase fn (p\<lparr>pr_pend := q\<rparr>) inp = runPhase fn p inp"
  by (cases inp) simp_all

lemma runProc_swap: "runProc fn (p\<lparr>pr_pend := q\<rparr>) inp = q @ runProc fn (p\<lparr>pr_pend := []\<rparr>) inp"
  using runProc_pend [of fn "p\<lparr>pr_pend := q\<rparr>" inp] by simp

lemma ready_same: "ready p \<Longrightarrow> p\<lparr>pr_pend := []\<rparr> = p \<and> pr_phase p = Running"
  by (simp add: ready_def)

lemma receive_blind: "blind fn \<Longrightarrow> receive fn r cols p = (cols', p') \<Longrightarrow> p' = snd (receive fn r [] p)"
  unfolding blind_def by (metis snd_conv)

text \<open>A hop changes neither what the sink is going to receive nor, but for one record, the work that is left.\<close>

lemma hop_future:
  "hop fns cols inp ps out cols' inp' ps' \<Longrightarrow> list_all blind fns \<Longrightarrow>
     runChain fns ps (inp @ rest) = (case out of None \<Rightarrow> [] | Some r \<Rightarrow> [r]) @ runChain fns ps' (inp' @ rest)
   \<and> work fns ps (inp @ rest) = Suc (work fns ps' (inp' @ rest))"
proof (induction arbitrary: rest rule: hop.induct)
  case (pass p fn rec cols cols' p' fns inp ps)
  have eq: "p\<lparr>pr_pend := []\<rparr> = p" and run: "pr_phase p = Running" "pr_pend p = []"
    using pass.hyps(1) by (simp_all add: ready_def)
  have "p' = snd (receive fn rec [] p)"
    using pass by (intro receive_blind) simp_all
  then show ?case
    by (simp add: eq run)
next
  case (deliver cols rec inp)
  then show ?case by simp
next
  case (behind fns cols p ps out cols' pend' ps' fn inp)
  have "runProc fn p (inp @ rest) = pr_pend p @ runProc fn (p\<lparr>pr_pend := []\<rparr>) (inp @ rest)"
    by (rule runProc_pend)
  moreover have "runProc fn (p\<lparr>pr_pend := pend'\<rparr>) (inp @ rest) = pend' @ runProc fn (p\<lparr>pr_pend := []\<rparr>) (inp @ rest)"
    by (rule runProc_swap)
  ultimately show ?case
    using behind.IH [of "runProc fn (p\<lparr>pr_pend := []\<rparr>) (inp @ rest)"] behind.prems by simp
qed

definition taskFuture :: "'a node_fn list \<Rightarrow> 'a task \<Rightarrow> 'a tql_record list" where
  "taskFuture fns t = tk_sink t @ runChain fns (tk_procs t) (tk_main t)"

definition taskWork :: "'a node_fn list \<Rightarrow> 'a task \<Rightarrow> nat" where
  "taskWork fns t = work fns (tk_procs t) (tk_main t)"

lemma task_step_future:
  assumes "task_step fns t t'" and "list_all blind fns"
  shows "taskFuture fns t' = taskFuture fns t \<and> taskWork fns t = Suc (taskWork fns t')"
  using assms(1)
proof (cases rule: task_step.cases)
  case (moves cols' main' procs')
  then show ?thesis
    using hop_future [OF moves(2) assms(2), of "[]"] by (simp_all add: taskFuture_def taskWork_def)
next
  case (delivers rec cols' main' procs')
  then show ?thesis
    using hop_future [OF delivers(2) assms(2), of "[]"] by (simp_all add: taskFuture_def taskWork_def)
qed

lemma task_steps_future:
  "(task_step fns ^^ n) t t' \<Longrightarrow> list_all blind fns \<Longrightarrow>
     taskFuture fns t' = taskFuture fns t \<and> taskWork fns t = n + taskWork fns t'"
proof (induction n arbitrary: t')
  case (Suc n)
  then obtain u where "(task_step fns ^^ n) t u" "task_step fns u t'"
    by auto
  then show ?case
    using Suc.IH Suc.prems(2) task_step_future [of fns u t'] by fastforce
qed simp

subsection \<open>A task ends\<close>

text \<open>A sequence of records that ends with the end and has no other control record.\<close>

definition control :: "'a tql_record \<Rightarrow> bool" where
  "control r = (IsEOF r \<or> IsCircuitBreak r)"

definition endsOnce :: "'a tql_record list \<Rightarrow> bool" where
  "endsOnce rs = (rs \<noteq> [] \<and> control (last rs) \<and> list_all (\<lambda>r. \<not> control r) (butlast rs))"

lemma endsOnce_Cons: "endsOnce (r # rs) = (if rs = [] then control r else \<not> control r \<and> endsOnce rs)"
  by (auto simp: endsOnce_def)

lemma endsOnce_append: "rs \<noteq> [] \<Longrightarrow> endsOnce (qs @ rs) = (list_all (\<lambda>r. \<not> control r) qs \<and> endsOnce rs)"
  by (auto simp: endsOnce_def butlast_append)

text \<open>Run one node after the other: no node panics, and each tells one end, the last of its records.\<close>

fun calm :: "'a node_fn list \<Rightarrow> 'a proc list \<Rightarrow> 'a tql_record list \<Rightarrow> bool" where
  "calm (fn # fns) (p # ps) inp = (endsOnce inp \<and> runPhase fn p inp = Leaving \<and> calm fns ps (runProc fn p inp))"
| "calm _ _ inp = endsOnce inp"

text \<open>The same while the task runs: a node that has left has got its end.\<close>

fun flow :: "'a node_fn list \<Rightarrow> 'a proc list \<Rightarrow> 'a tql_record list \<Rightarrow> bool" where
  "flow (fn # fns) (p # ps) inp =
     ((pr_phase p = Running \<and> endsOnce inp \<and> runPhase fn p inp = Leaving \<or> pr_phase p = Leaving \<and> inp = [])
      \<and> flow fns ps (runProc fn p inp))"
| "flow [] [] inp = (inp = [] \<or> endsOnce inp)"
| "flow _ _ inp = False"

lemma calm_flow: "calm fns (map (\<lambda>fn. startProc) fns) inp \<Longrightarrow> flow fns (map (\<lambda>fn. startProc) fns) inp"
  by (induction fns arbitrary: inp) (simp_all add: startProc_def)

lemma receive_control:
  assumes "control r" and "receive fn r cols p = (cols', p')"
  shows "pr_phase p' = Leaving \<or> pr_phase p' = FailedEOF"
  using assms by (auto simp: receive_def control_def told_def Let_def split: prod.splits bool.splits)

lemma receive_other:
  assumes "\<not> control r" and "receive fn r cols p = (cols', p')" and "pr_phase p = Running"
  shows "pr_phase p' = Running \<or> pr_phase p' = Failed"
  using assms by (auto simp: receive_def control_def told_def Let_def split: prod.splits res.splits if_splits)

lemma hop_flow:
  "hop fns cols inp ps out cols' inp' ps' \<Longrightarrow> list_all blind fns \<Longrightarrow> flow fns ps (inp @ rest) \<Longrightarrow> flow fns ps' (inp' @ rest)"
proof (induction arbitrary: rest rule: hop.induct)
  case (pass p fn rec cols cols' p' fns inp ps)
  have eq: "p\<lparr>pr_pend := []\<rparr> = p" and run: "pr_phase p = Running" "pr_pend p = []"
    using pass.hyps(1) by (simp_all add: ready_def)
  have p': "p' = snd (receive fn rec [] p)"
    using pass by (intro receive_blind) simp_all
  have ends: "endsOnce (rec # inp @ rest)" and ph: "runPhase fn p' (inp @ rest) = Leaving"
    using pass.prems(2) by (simp_all add: run eq p')
  have fl: "flow fns ps (runProc fn p' (inp @ rest))"
    using pass.prems(2) by (simp add: run eq p')
  show ?case
  proof (cases "inp @ rest = []")
    case True
    then show ?thesis
      using ph fl by simp
  next
    case False
    then have "\<not> control rec" "endsOnce (inp @ rest)"
      using ends by (simp_all add: endsOnce_Cons)
    moreover have "pr_phase p' = Running"
    proof -
      have "pr_phase p' \<noteq> Failed"
        using ph by (cases "inp @ rest") auto
      then show ?thesis
        using receive_other [OF \<open>\<not> control rec\<close> pass.hyps(2) run(1)] by blast
    qed
    ultimately show ?thesis
      using ph fl by simp
  qed
next
  case (deliver cols rec inp)
  then show ?case
    by (auto simp: endsOnce_Cons split: if_splits)
next
  case (behind fns cols p ps out cols' pend' ps' fn inp)
  let ?rest = "runProc fn (p\<lparr>pr_pend := []\<rparr>) (inp @ rest)"
  have "flow fns ps (pr_pend p @ ?rest)"
    using behind.prems(2) runProc_pend [of fn p "inp @ rest"] by simp
  then have "flow fns ps' (pend' @ ?rest)"
    using behind.IH behind.prems(1) by simp
  then show ?case
    using behind.prems(2) runProc_swap [of fn pend' p "inp @ rest"] by simp
qed

text \<open>As long as something is left to tell, some record can pass.\<close>

lemma flow_progress:
  "flow fns ps (q @ rest) \<Longrightarrow> q \<noteq> [] \<Longrightarrow> \<exists>out cols' q' ps'. hop fns cols q ps out cols' q' ps'"
proof (induction fns ps "q @ rest" arbitrary: q rest rule: flow.induct)
  case (1 fn fns p ps)
  obtain r rs where q: "q = r # rs"
    using 1(3) by (cases q) auto
  have run: "pr_phase p = Running"
    using 1(2,3) by auto
  show ?case
  proof (cases "pr_pend p = []")
    case True
    obtain cols' p' where "receive fn r cols p = (cols', p')"
      by (cases "receive fn r cols p")
    then show ?thesis
      using hop.pass [of p fn r cols cols' p' fns rs ps] True run q by (auto simp: ready_def)
  next
    case False
    have eq: "runProc fn p (q @ rest) = pr_pend p @ runProc fn (p\<lparr>pr_pend := []\<rparr>) (q @ rest)"
      by (rule runProc_pend)
    then have "flow fns ps (pr_pend p @ runProc fn (p\<lparr>pr_pend := []\<rparr>) (q @ rest))"
      using 1(2) by simp
    from 1(1) [OF eq this False] show ?thesis
      using hop.behind by blast
  qed
next
  case 2
  then show ?case
    by (cases q) (auto intro!: exI hop.deliver)
qed simp_all

lemma flow_blocked:
  "flow fns ps [] \<Longrightarrow> (\<nexists>out cols' q' ps'. hop fns cols [] ps out cols' q' ps') \<Longrightarrow>
     list_all (\<lambda>p. pr_phase p = Leaving \<and> pr_pend p = []) ps \<and> runChain fns ps [] = []"
proof (induction fns ps "[] :: 'a tql_record list" rule: flow.induct)
  case (1 fn fns p ps)
  have left: "pr_phase p = Leaving" and fl: "flow fns ps (pr_pend p)"
    using 1(2) by (simp_all add: endsOnce_def)
  have "pr_pend p = []"
  proof (rule ccontr)
    assume "pr_pend p \<noteq> []"
    then obtain out cols' q' ps' where "hop fns cols (pr_pend p) ps out cols' q' ps'"
      using flow_progress [of fns ps "pr_pend p" "[]" cols] fl by auto
    then show False
      using 1(3) hop.behind by blast
  qed
  moreover have "\<nexists>out cols' q' ps'. hop fns cols [] ps out cols' q' ps'"
    using 1(3) hop.behind [of fns cols p ps] \<open>pr_pend p = []\<close> by metis
  ultimately show ?case
    using 1(1) fl left by simp
qed simp_all

text \<open>A record that is delivered is the first of what the sink is going to receive.\<close>

lemma hop_nonempty: "hop fns cols inp ps (Some r) cols' inp' ps' \<Longrightarrow> runChain fns ps (inp @ rest) \<noteq> []"
proof (induction fns cols inp ps "Some r" cols' inp' ps' arbitrary: rest rule: hop.induct)
  case (behind fns cols p ps cols' pend' ps' fn inp)
  then show ?case
    using runProc_pend [of fn p "inp @ rest"] by simp
qed simp

definition stuck :: "'a node_fn list \<Rightarrow> 'a task \<Rightarrow> bool" where
  "stuck fns t = (\<nexists>t'. task_step fns t t')"

definition startProcs :: "'a node_fn list \<Rightarrow> 'a proc list" where
  "startProcs fns = map (\<lambda>fn. startProc) fns"

definition startInput :: "'a tql_record list" where
  "startInput = [NewRecord (CStr []) CNil, EofRecord]"

lemma startTask_simps [simp]:
  "tk_main (startTask fns) = startInput" "tk_procs (startTask fns) = startProcs fns" "tk_sink (startTask fns) = []"
  by (simp_all add: startTask_def startInput_def startProcs_def)

definition taskFlow :: "'a node_fn list \<Rightarrow> 'a task \<Rightarrow> bool" where
  "taskFlow fns t = (flow fns (tk_procs t) (tk_main t) \<and> endsOnce (taskFuture fns t))"

lemma calm_ends: "calm fns ps inp \<Longrightarrow> length ps = length fns \<Longrightarrow> endsOnce (runChain fns ps inp)"
  by (induction fns ps inp rule: calm.induct) simp_all

lemma start_flow: "calm fns (startProcs fns) startInput \<Longrightarrow> taskFlow fns (startTask fns)"
  using calm_flow [of fns startInput] calm_ends [of fns "startProcs fns" startInput]
  by (simp add: taskFlow_def taskFuture_def startProcs_def)

lemma task_step_flow: "task_step fns t t' \<Longrightarrow> list_all blind fns \<Longrightarrow> taskFlow fns t \<Longrightarrow> taskFlow fns t'"
  using task_step_future [of fns t t'] hop_flow [where rest = "[]"]
  by (fastforce simp: taskFlow_def elim: task_step.cases)

lemma task_steps_flow: "(task_step fns ^^ n) t t' \<Longrightarrow> list_all blind fns \<Longrightarrow> taskFlow fns t \<Longrightarrow> taskFlow fns t'"
  by (induction n arbitrary: t') (auto intro: task_step_flow)

text \<open>A task that cannot go on has finished, and the sink has received all.\<close>

lemma stuck_finished:
  assumes "taskFlow fns t" and "stuck fns t"
  shows "finished t \<and> tk_sink t = taskFuture fns t"
proof -
  have fl: "flow fns (tk_procs t) (tk_main t)" and ends: "endsOnce (taskFuture fns t)"
    using assms(1) by (simp_all add: taskFlow_def)
  have none: "\<not> hop fns (tk_columns t) (tk_main t) (tk_procs t) out cols' main' procs'" for out cols' main' procs'
  proof
    assume hop: "hop fns (tk_columns t) (tk_main t) (tk_procs t) out cols' main' procs'"
    show False
    proof (cases out)
      case None
      then show False
        using hop assms(2) task_step.moves [of fns t cols' main' procs'] by (auto simp: stuck_def)
    next
      case (Some r)
      have "sinkOpen (tk_sink t)"
      proof -
        have "runChain fns (tk_procs t) (tk_main t) \<noteq> []"
          using hop_nonempty [of fns _ "tk_main t" "tk_procs t" r _ _ _ "[]"] hop Some by simp
        then show ?thesis
          using ends by (simp add: taskFuture_def endsOnce_append sinkOpen_def control_def)
      qed
      then show False
        using hop assms(2) task_step.delivers [of fns t r cols' main' procs'] Some by (auto simp: stuck_def)
    qed
  qed
  have "tk_main t = []"
    using flow_progress [of fns "tk_procs t" "tk_main t" "[]" "tk_columns t"] fl none by auto
  moreover from this have "list_all (\<lambda>p. pr_phase p = Leaving \<and> pr_pend p = []) (tk_procs t)
      \<and> runChain fns (tk_procs t) [] = []"
    using flow_blocked [of fns "tk_procs t" "tk_columns t"] fl none by simp
  ultimately show ?thesis
    by (simp add: finished_def taskFuture_def)
qed

subsection \<open>Nodes that behave\<close>

text \<open>What passes between nodes: tuples and errors.\<close>

definition data :: "'a tql_record \<Rightarrow> bool" where
  "data r = (IsTuple r \<or> IsError r)"

lemma data_control: "data r \<Longrightarrow> \<not> control r"
  by (cases "rec_key r") (auto simp: data_def control_def IsTuple_def IsError_def IsEOF_def IsCircuitBreak_def control_keys)

lemma data_error [simp]: "data (ErrorRecord e)"
  by (simp add: data_def)

lemma control_EOF [simp]: "control EofRecord"
  by (simp add: control_def)

lemma startInput_data: "startInput = [NewRecord (CStr []) CNil] @ [EofRecord]" "data (NewRecord (CStr []) CNil)"
  by (simp_all add: startInput_def data_def IsTuple_def NewRecord_def control_keys)

text \<open>
  The contract of a map function: on a tuple it does not panic and tells tuples and errors only, at the end
  it tells the end, and the result columns do not matter.
\<close>

locale map_function =
  fixes fn :: "'a node_fn"
  assumes eval_columns: "snd (receive fn r cols p) = snd (receive fn r [] p)"
    and eval_calm: "IsTuple r \<Longrightarrow> nf_eval fn (Some r) st \<noteq> (Panic, st') \<and> nf_eval fn (Some r) st \<noteq> (NoFuel, st')"
    and eval_data: "IsTuple r \<Longrightarrow> nf_eval fn (Some r) st = (Ok ret, st') \<Longrightarrow> ns_told st = []
      \<Longrightarrow> list_all data (ns_told st' @ fst (retNext ret))"
    and eval_err: "IsTuple r \<Longrightarrow> nf_eval fn (Some r) st = (Err e, st') \<Longrightarrow> ns_told st = [] \<Longrightarrow> list_all data (ns_told st')"
    and end_data: "ns_told st = [] \<Longrightarrow> fst (nf_eof fn st) \<and> list_all data (ns_told (snd (nf_eof fn st)))"
begin

lemma receive_data:
  assumes "data r" and "pr_phase p = Running" and "ns_told (pr_state p) = []"
  shows "let p' = snd (receive fn r cols p) in
    pr_phase p' = Running \<and> ns_told (pr_state p') = [] \<and> list_all data (pr_pend p')"
proof (cases "IsError r")
  case True
  then show ?thesis
    using data_control [OF assms(1)] assms by (simp add: receive_def control_def)
next
  case False
  then have tup: "IsTuple r"
    using assms(1) by (simp add: data_def)
  let ?st = "(pr_state p)\<lparr>ns_columns := cols\<rparr>"
  obtain res st' where res: "nf_eval fn (Some r) ?st = (res, st')"
    by (cases "nf_eval fn (Some r) ?st")
  show ?thesis
  proof (cases res)
    case (Ok ret)
    then show ?thesis
      using eval_data [OF tup, of ?st ret st'] res tup False assms
      by (cases "retNext ret") (simp add: receive_def told_def Let_def)
  next
    case (Err e)
    then show ?thesis
      using eval_err [OF tup, of ?st e st'] res tup False assms by (simp add: receive_def told_def Let_def)
  qed (use eval_calm [OF tup, of ?st st'] res in simp_all)
qed

lemma receive_end:
  assumes "control r" and "ns_told (pr_state p) = []"
  shows "let p' = snd (receive fn r cols p) in
    pr_phase p' = Leaving \<and> (\<exists>out. pr_pend p' = out @ [r] \<and> list_all data out)"
  using end_data [of "(pr_state p)\<lparr>ns_columns := cols\<rparr>"] assms
  by (cases "nf_eof fn ((pr_state p)\<lparr>ns_columns := cols\<rparr>)") (auto simp: receive_def control_def told_def Let_def)

lemma runs:
  "pr_phase p = Running \<Longrightarrow> ns_told (pr_state p) = [] \<Longrightarrow> list_all data (pr_pend p) \<Longrightarrow> list_all data rs \<Longrightarrow> control e \<Longrightarrow>
     runPhase fn p (rs @ [e]) = Leaving \<and> (\<exists>out. runProc fn p (rs @ [e]) = out @ [e] \<and> list_all data out)"
proof (induction rs arbitrary: p)
  case Nil
  let ?p = "snd (receive fn e [] (p\<lparr>pr_pend := []\<rparr>))"
  obtain out where "pr_phase ?p = Leaving" "pr_pend ?p = out @ [e]" "list_all data out"
    using receive_end [of e "p\<lparr>pr_pend := []\<rparr>" "[]"] Nil by (auto simp: Let_def)
  then show ?case
    using Nil by (auto intro!: exI [of _ "pr_pend p @ out"])
next
  case (Cons r rs)
  let ?p = "snd (receive fn r [] (p\<lparr>pr_pend := []\<rparr>))"
  have "pr_phase ?p = Running" "ns_told (pr_state ?p) = []" "list_all data (pr_pend ?p)"
    using receive_data [of r "p\<lparr>pr_pend := []\<rparr>" "[]"] Cons.prems by (simp_all add: Let_def)
  from Cons.IH [OF this] obtain out where "runPhase fn ?p (rs @ [e]) = Leaving"
      "runProc fn ?p (rs @ [e]) = out @ [e]" "list_all data out"
    using Cons.prems by auto
  then show ?case
    using Cons.prems by (auto intro!: exI [of _ "pr_pend p @ out"])
qed

lemma node_blind: "blind fn"
  using eval_columns by (auto simp: blind_def)

end

text \<open>A chain of such nodes is calm.\<close>

lemma chain_calm:
  "list_all map_function fns \<Longrightarrow> list_all data rs \<Longrightarrow> calm fns (startProcs fns) (rs @ [EofRecord]) \<and> list_all blind fns"
proof (induction fns arbitrary: rs)
  case Nil
  then show ?case
    using data_control by (auto simp: endsOnce_def list_all_iff)
next
  case (Cons fn fns)
  have fn: "map_function fn"
    using Cons.prems(1) by simp
  have start: "pr_phase startProc = Running" "ns_told (pr_state startProc) = []" "list_all data (pr_pend startProc)"
    by (simp_all add: startProc_def NewNode_state_def)
  obtain out where out: "runPhase fn startProc (rs @ [EofRecord]) = Leaving"
      "runProc fn startProc (rs @ [EofRecord]) = out @ [EofRecord]" "list_all data out"
    using map_function.runs [OF fn start Cons.prems(2) control_EOF] by blast
  moreover have "endsOnce (rs @ [EofRecord])"
    using Cons.prems(2) data_control by (auto simp: endsOnce_def list_all_iff)
  ultimately show ?case
    using Cons.IH [of out] Cons.prems(1) map_function.node_blind [OF fn] by (simp add: startProcs_def)
qed

end
