(* ===== verification/TqlTask.thy ===== *)
theory TqlTask
  imports TqlPipelineProps
begin

text \<open>
  The properties of a task: the same result for every schedule, no deadlock without a panic, a deadlock
  with one; and the map functions that keep the contract of a node.
\<close>

subsection \<open>The map functions\<close>

lemma toNext_single: "toNext [Some r] = (if IsEOF r then ([r], False) else if IsCircuitBreak r then ([], True) else ([r], False))"
  by simp

lemma toNext_data: "list_all data rs \<Longrightarrow> toNext (map Some rs) = (rs, False)"
proof (induction rs)
  case (Cons r rs)
  then have "\<not> IsEOF r" "\<not> IsCircuitBreak r"
    using data_control [of r] by (simp_all add: control_def)
  then show ?case
    using Cons by simp
qed simp

lemma data_next: "IsTuple r \<Longrightarrow> toNext [Some r] = ([r], False)"
  by simp

lemmas node_simps = receive_def told_def noEOF_def Let_def data_def

lemma takeLimits_columns [simp]: "takeLimits args (st\<lparr>ns_columns := c\<rparr>) = takeLimits args st"
  by (simp add: takeLimits_def)

lemma fmTake_columns: "fmTake args rec (st\<lparr>ns_columns := c\<rparr>)
    = (fst (fmTake args rec st), (snd (fmTake args rec st))\<lparr>ns_columns := c\<rparr>)"
  by (simp add: fmTake_def Let_def split: prod.splits)

lemma fmDrop_columns: "fmDrop args rec (st\<lparr>ns_columns := c\<rparr>)
    = (fst (fmDrop args rec st), (snd (fmDrop args rec st))\<lparr>ns_columns := c\<rparr>)"
  by (simp add: fmDrop_def Let_def split: prod.splits)

text \<open>A node whose function does the same whatever the columns does not depend on them.\<close>

lemma columns_blind:
  assumes "\<And>rec st c. fst (nf_eval fn rec (st\<lparr>ns_columns := c\<rparr>)) = fst (nf_eval fn rec st)"
    and "\<And>rec st c. (snd (nf_eval fn rec (st\<lparr>ns_columns := c\<rparr>)))\<lparr>ns_columns := []\<rparr> = (snd (nf_eval fn rec st))\<lparr>ns_columns := []\<rparr>"
    and "\<And>st c. fst (nf_eof fn (st\<lparr>ns_columns := c\<rparr>)) = fst (nf_eof fn st)"
    and "\<And>st c. (snd (nf_eof fn (st\<lparr>ns_columns := c\<rparr>)))\<lparr>ns_columns := []\<rparr> = (snd (nf_eof fn st))\<lparr>ns_columns := []\<rparr>"
  shows "snd (receive fn r cols p) = snd (receive fn r [] p)"
proof -
  have told: "told st p out = told st' p out" if "st\<lparr>ns_columns := []\<rparr> = st'\<lparr>ns_columns := []\<rparr>"
    for st st' :: "'a node_state" and p out
  proof -
    have "ns_told st = ns_told (st\<lparr>ns_columns := []\<rparr>)" "ns_told st' = ns_told (st'\<lparr>ns_columns := []\<rparr>)"
      by simp_all
    moreover have "st\<lparr>ns_told := [], ns_columns := []\<rparr> = (st\<lparr>ns_columns := []\<rparr>)\<lparr>ns_told := []\<rparr>"
        "st'\<lparr>ns_told := [], ns_columns := []\<rparr> = (st'\<lparr>ns_columns := []\<rparr>)\<lparr>ns_told := []\<rparr>"
      by simp_all
    ultimately show ?thesis
      using that unfolding told_def by metis
  qed
  let ?a = "nf_eval fn (Some r) ((pr_state p)\<lparr>ns_columns := cols\<rparr>)" and ?b = "nf_eval fn (Some r) ((pr_state p)\<lparr>ns_columns := []\<rparr>)"
  let ?c = "nf_eof fn ((pr_state p)\<lparr>ns_columns := cols\<rparr>)" and ?d = "nf_eof fn ((pr_state p)\<lparr>ns_columns := []\<rparr>)"
  have "fst ?a = fst ?b" "\<And>out. told (snd ?a) p out = told (snd ?b) p out"
    using assms(1) by (simp, intro told) (simp add: assms(2))
  moreover have "fst ?c = fst ?d" "\<And>out. told (snd ?c) p out = told (snd ?d) p out"
    using assms(3) by (simp, intro told) (simp add: assms(4))
  ultimately show ?thesis
    unfolding receive_def Let_def
    by (cases ?a; cases ?b; cases ?c; cases ?d) (auto split: res.splits prod.splits bool.splits)
qed

lemma columns_through:
  assumes "\<And>rec st c. nf_eval fn rec (st\<lparr>ns_columns := c\<rparr>) = (fst (nf_eval fn rec st), (snd (nf_eval fn rec st))\<lparr>ns_columns := c\<rparr>)"
    and "\<And>st c. nf_eof fn (st\<lparr>ns_columns := c\<rparr>) = (fst (nf_eof fn st), (snd (nf_eof fn st))\<lparr>ns_columns := c\<rparr>)"
  shows "snd (receive fn r cols p) = snd (receive fn r [] p)"
  by (rule columns_blind) (simp_all add: assms)

interpretation takes: map_function "takeNode args"
proof
  show "snd (receive (takeNode args) r cols p) = snd (receive (takeNode args) r [] p)" for r cols p
    by (rule columns_through) (simp_all add: takeNode_def noEOF_def fmTake_columns)
qed (auto simp: takeNode_def fmTake_def retNext_def noEOF_def data_def split: prod.splits if_splits)

interpretation drops: map_function "dropNode args"
proof
  show "snd (receive (dropNode args) r cols p) = snd (receive (dropNode args) r [] p)" for r cols p
    by (rule columns_through) (simp_all add: dropNode_def noEOF_def fmDrop_columns)
qed (auto simp: dropNode_def fmDrop_def retNext_def noEOF_def data_def split: prod.splits if_splits)

interpretation filters: map_function "filterNode f"
proof
  show "snd (receive (filterNode f) r cols p) = snd (receive (filterNode f) r [] p)" for r cols p
    by (rule columns_through) (simp_all add: filterNode_def noEOF_def fmFilter_def)
qed (auto simp: filterNode_def fmFilter_def retNext_def noEOF_def data_def split: if_splits)

lemma source_function:
  assumes "list_all data recs"
  shows "map_function (sourceNode cs recs)"
proof
  show "snd (receive (sourceNode cs recs) r cols p) = snd (receive (sourceNode cs recs) r [] p)" for r cols p
    by (rule columns_blind) (simp_all add: sourceNode_def noEOF_def)
qed (use assms in \<open>auto simp: sourceNode_def retNext_def noEOF_def\<close>)

lemma pushKey_data: "dataKey k \<Longrightarrow> data (ReplaceKeyValue r k v)"
  by (simp add: data_def IsTuple_dataKey ReplaceKeyValue_def)

lemma pushKey_columns:
  "fst (fmPushKey en k rec (st\<lparr>ns_columns := c\<rparr>)) = fst (fmPushKey en k rec st)
   \<and> (snd (fmPushKey en k rec (st\<lparr>ns_columns := c\<rparr>)))\<lparr>ns_columns := []\<rparr> = (snd (fmPushKey en k rec st))\<lparr>ns_columns := []\<rparr>"
  by (auto simp: fmPushKey_def onFirst_def SetResultColumns_def Let_def split: option.splits cell.splits)

lemma pushKey_function:
  assumes "\<And>r. dataKey (f r)"
  shows "map_function (pushKeyNode en f)"
proof
  show "snd (receive (pushKeyNode en f) r cols p) = snd (receive (pushKeyNode en f) r [] p)" for r cols p
    by (rule columns_blind) (simp_all add: pushKeyNode_def noEOF_def pushKey_columns)
next
  fix r st ret st'
  assume "nf_eval (pushKeyNode en f) (Some r) st = (Ok ret, st')" "ns_told st = []"
  then have "\<exists>v. ret = RetPtr (Some (ReplaceKeyValue r (f r) v))" "ns_told st' = []"
    by (auto simp: pushKeyNode_def fmPushKey_def onFirst_def SetResultColumns_def Let_def split: cell.splits if_splits)
  moreover have "data (ReplaceKeyValue r (f r) v)" "IsTuple (ReplaceKeyValue r (f r) v)" for v
    using pushKey_data [OF assms] assms by (simp_all add: IsTuple_dataKey ReplaceKeyValue_def)
  ultimately show "list_all data (ns_told st' @ fst (retNext ret))"
    by (auto simp: retNext_def)
qed (auto simp: pushKeyNode_def fmPushKey_def onFirst_def SetResultColumns_def noEOF_def Let_def split: cell.splits if_splits)

subsection \<open>Tasks\<close>


lemma finished_work: "finished t \<Longrightarrow> taskWork fns t = 0"
proof -
  have "list_all (\<lambda>p. pr_phase p = Leaving \<and> pr_pend p = []) ps \<Longrightarrow> work fns ps [] = 0" for ps :: "'a proc list" and fns
  proof (induction ps arbitrary: fns)
    case (Cons p ps)
    then show ?case
      by (cases fns) simp_all
  qed simp
  then show "finished t \<Longrightarrow> taskWork fns t = 0"
    by (simp add: finished_def taskWork_def)
qed

text \<open>As long as there is work the task goes on.\<close>

lemma runs_to_end:
  assumes blind: "list_all blind fns"
  shows "taskFlow fns t \<Longrightarrow> \<exists>t'. (task_step fns ^^ taskWork fns t) t t' \<and> finished t' \<and> tk_sink t' = taskFuture fns t"
proof (induction "taskWork fns t" arbitrary: t)
  case 0
  have "stuck fns t"
    using task_step_future(1) [OF _ blind, of t] 0(1) by (auto simp: stuck_def)
  then show ?case
    using stuck_finished [OF 0(2)] 0(1) [symmetric] by auto
next
  case (Suc k)
  show ?case
  proof (cases "stuck fns t")
    case True
    then have "finished t"
      using stuck_finished [OF Suc.prems] by simp
    then have "taskWork fns t = 0"
      using finished_work by blast
    then show ?thesis
      using Suc.hyps(2) by simp
  next
    case False
    then obtain u where u: "task_step fns t u"
      by (auto simp: stuck_def)
    have fut: "taskFuture fns u = taskFuture fns t" "taskWork fns t = Suc (taskWork fns u)"
      using task_step_future [OF u blind] by simp_all
    obtain t' where "(task_step fns ^^ taskWork fns u) u t'" "finished t'" "tk_sink t' = taskFuture fns u"
      using Suc.hyps(1) [of u] Suc.hyps(2) fut(2) task_step_flow [OF u blind Suc.prems] by auto
    moreover from this(1) have "(task_step fns ^^ taskWork fns t) t t'"
      unfolding fut(2) using u by (rule relpowp_Suc_I2 [rotated])
    ultimately show ?thesis
      using fut(1) by auto
  qed
qed

lemma chain_finishes:
  assumes "list_all map_function fns"
  shows "\<exists>t. (task_step fns)\<^sup>*\<^sup>* (startTask fns) t \<and> finished t \<and> tk_sink t = runChain fns (startProcs fns) startInput"
proof -
  have "calm fns (startProcs fns) startInput" and blind: "list_all blind fns"
    using chain_calm [OF assms(1), of "[NewRecord (CStr []) CNil]"] by (simp_all add: startInput_data)
  from runs_to_end [OF blind start_flow [OF this(1)]] obtain t where
      "(task_step fns ^^ taskWork fns (startTask fns)) (startTask fns) t" "finished t" "tk_sink t = taskFuture fns (startTask fns)"
    by blast
  then show ?thesis
    by (auto simp: taskFuture_def intro!: exI [of _ t] dest: relpowp_imp_rtranclp)
qed

text \<open>
  C5: A task of nodes that keep the contract ends: no execution is longer than the number of records that pass
  between the goroutines, every execution can go on until all of them are gone, and then the sink has
  received exactly the composition of the nodes.
\<close>

theorem task_completes:
  assumes "list_all map_function fns" and "(task_step fns ^^ n) (startTask fns) t"
  shows "n \<le> taskWork fns (startTask fns)
    \<and> (\<exists>t'. (task_step fns ^^ (taskWork fns (startTask fns) - n)) t t' \<and> finished t'
         \<and> tk_sink t' = runChain fns (startProcs fns) startInput)"
proof -
  have calm: "calm fns (startProcs fns) startInput" and blind: "list_all blind fns"
    using chain_calm [OF assms(1), of "[NewRecord (CStr []) CNil]"] by (simp_all add: startInput_data)
  have steps: "taskFuture fns t = runChain fns (startProcs fns) startInput" "taskWork fns (startTask fns) = n + taskWork fns t"
    using task_steps_future [OF assms(2) blind] by (simp_all add: taskFuture_def)
  then show ?thesis
    using runs_to_end [OF blind task_steps_flow [OF assms(2) blind start_flow [OF calm]]] by auto
qed

subsection \<open>A panic\<close>

text \<open>
  \<open>l\<close> says that the goroutine before the chain has left its loop: what it still tells ends with a control
  record, and when it has told all of it the next node has left as well.
\<close>

fun settled :: "bool \<Rightarrow> 'a tql_record list \<Rightarrow> 'a proc list \<Rightarrow> bool" where
  "settled l inp [] = True"
| "settled l inp (p # ps) =
     ((l \<longrightarrow> (if inp = [] then pr_phase p = Leaving else control (last inp)))
      \<and> pr_phase p \<noteq> FailedEOF \<and> settled (pr_phase p = Leaving) (pr_pend p) ps)"

definition endSafe :: "'a node_fn \<Rightarrow> bool" where
  "endSafe fn = (\<forall>st. fst (nf_eof fn st))"

lemma receive_endSafe:
  assumes "endSafe fn" and "receive fn r cols p = (cols', p')" and "pr_phase p = Running"
  shows "pr_phase p' \<noteq> FailedEOF" and "control r \<Longrightarrow> pr_phase p' = Leaving"
    and "pr_phase p' = Leaving \<Longrightarrow> pr_pend p' \<noteq> [] \<and> control (last (pr_pend p'))"
proof -
  have "pr_phase p' \<noteq> FailedEOF \<and> (control r \<longrightarrow> pr_phase p' = Leaving)
    \<and> (pr_phase p' = Leaving \<longrightarrow> pr_pend p' \<noteq> [] \<and> control (last (pr_pend p')))"
  proof (cases "control r")
    case True
    obtain st where "nf_eof fn ((pr_state p)\<lparr>ns_columns := cols\<rparr>) = (True, st)"
      using assms(1) unfolding endSafe_def by (metis prod.collapse)
    then show ?thesis
      using True assms(2) by (auto simp: receive_def told_def control_def Let_def)
  next
    case False
    then have "pr_phase p' = Running \<or> pr_phase p' = Failed"
      using receive_other [OF _ assms(2,3)] by blast
    then show ?thesis
      using False by auto
  qed
  then show "pr_phase p' \<noteq> FailedEOF" "control r \<Longrightarrow> pr_phase p' = Leaving"
      "pr_phase p' = Leaving \<Longrightarrow> pr_pend p' \<noteq> [] \<and> control (last (pr_pend p'))"
    by blast+
qed

lemma settled_more: "settled l inp ps \<Longrightarrow> (l \<Longrightarrow> False) \<Longrightarrow> settled False inp' ps"
  by (cases ps) simp_all

lemma settled_start: "pr_phase p \<noteq> FailedEOF \<Longrightarrow> settled l [] ps \<Longrightarrow> settled False q ps"
  by (cases ps) simp_all

lemma hop_settled:
  "hop fns cols inp ps out cols' inp' ps' \<Longrightarrow> list_all endSafe fns \<Longrightarrow> settled l inp ps \<Longrightarrow> settled l inp' ps'"
proof (induction arbitrary: l rule: hop.induct)
  case (pass p fn rec cols cols' p' fns inp ps)
  have run: "pr_phase p = Running" and safe: "endSafe fn"
    using pass.hyps(1) pass.prems(1) by (simp_all add: ready_def)
  note rcv = receive_endSafe [OF safe pass.hyps(2) run]
  have "settled False [] ps"
    using pass.prems(2) run pass.hyps(1) by (simp add: ready_def)
  then have "settled (pr_phase p' = Leaving) (pr_pend p') ps"
    using rcv(3) by (cases ps) auto
  moreover have "l \<longrightarrow> (if inp = [] then pr_phase p' = Leaving else control (last inp))"
    using pass.prems(2) rcv(2) by auto
  ultimately show ?case
    using rcv(1) by simp
next
  case (behind fns cols p ps out cols' pend' ps' fn inp)
  then show ?case
    by auto
qed simp

lemma settled_failed:
  "settled l inp ps \<Longrightarrow> l \<Longrightarrow> inp = [] \<Longrightarrow> list_all (\<lambda>p. pr_pend p = []) ps \<Longrightarrow> list_all (\<lambda>p. pr_phase p = Leaving) ps"
proof (induction ps arbitrary: l inp)
  case (Cons p ps)
  then have "pr_phase p = Leaving" "settled True [] ps"
    by auto
  then show ?case
    using Cons.IH [of True "[]"] Cons.prems(4) by simp
qed simp

lemma task_settled:
  assumes "list_all endSafe fns" and "(task_step fns)\<^sup>*\<^sup>* (startTask fns) t"
  shows "settled True (tk_main t) (tk_procs t)"
  using assms(2)
proof (induction rule: rtranclp_induct)
  case base
  have "settled False q (startProcs fns)" for q :: "'a tql_record list" and fns :: "'a node_fn list"
    by (induction fns arbitrary: q) (simp_all add: startProcs_def startProc_def)
  then show ?case
    by (cases fns) (auto simp: startInput_def startProcs_def startProc_def)
next
  case (step t u)
  from step(2,3) hop_settled [OF _ assms(1), of _ "tk_main t" "tk_procs t" _ _ _ _ True] show ?case
    by (auto elim!: task_step.cases)
qed

lemma hop_keeps_failed:
  "hop fns cols inp ps out cols' inp' ps' \<Longrightarrow> \<exists>p \<in> set ps. pr_phase p = Failed \<Longrightarrow> \<exists>p \<in> set ps'. pr_phase p = Failed"
  by (induction rule: hop.induct) (auto simp: ready_def)

lemma steps_keep_failed:
  assumes "(task_step fns)\<^sup>*\<^sup>* t u"
  shows "\<exists>p \<in> set (tk_procs t). pr_phase p = Failed \<Longrightarrow> \<exists>p \<in> set (tk_procs u). pr_phase p = Failed"
  using assms
proof (induction rule: rtranclp_induct)
  case (step u v)
  then show ?case
    using hop_keeps_failed [of fns "tk_columns u" "tk_main u" "tk_procs u"] by (fastforce elim!: task_step.cases)
qed simp

text \<open>
  C6: When a map function panics the task never ends, for a goroutine in front of the lost one waits forever
  with a record it cannot tell: at no time after it has the main goroutine told the end and every other
  told all it had.
\<close>

theorem panic_blocks:
  assumes "list_all endSafe fns" and "(task_step fns)\<^sup>*\<^sup>* (startTask fns) t"
    and "p \<in> set (tk_procs t)" and "pr_phase p = Failed" and "(task_step fns)\<^sup>*\<^sup>* t u"
  shows "(tk_main u \<noteq> [] \<or> (\<exists>q \<in> set (tk_procs u). pr_pend q \<noteq> [])) \<and> \<not> finished u"
proof -
  obtain p' where p': "p' \<in> set (tk_procs u)" "pr_phase p' = Failed"
    using steps_keep_failed [OF assms(5)] assms(3,4) by blast
  have "settled True (tk_main u) (tk_procs u)"
    by (rule task_settled [OF assms(1) rtranclp_trans [OF assms(2,5)]])
  then have left: "list_all (\<lambda>p. pr_phase p = Leaving) (tk_procs u)"
    if "tk_main u = []" "\<forall>q \<in> set (tk_procs u). pr_pend q = []"
    using that settled_failed [of True "tk_main u" "tk_procs u"] by (simp add: list_all_iff)
  have "tk_main u \<noteq> [] \<or> (\<exists>q \<in> set (tk_procs u). pr_pend q \<noteq> [])"
    using left p' by (fastforce simp: list_all_iff)
  moreover have "\<not> finished u"
    using p' by (auto simp: finished_def list_all_iff intro!: bexI [of _ p'])
  ultimately show ?thesis
    by blast
qed

text \<open>A task with a source and two map functions, and one whose transposition meets a shorter row.\<close>

definition row :: "nat \<Rightarrow> nat cell list \<Rightarrow> nat tql_record" where
  "row k vs = NewRecord (CVal k) (CArr vs)"

definition sampleTask :: "nat node_fn list" where
  "sampleTask = [sourceNode [] [row 1 [], row 2 [], row 3 [], row 4 []], dropNode [0, 1], takeNode [1, 5]]"

lemma sample_functions: "list_all map_function sampleTask"
proof -
  have "map_function (sourceNode [] [row 1 [], row 2 [], row 3 [], row 4 []])"
    by (rule source_function) (simp add: data_def IsTuple_def row_def NewRecord_def)
  then show ?thesis
    by (simp add: sampleTask_def takes.map_function_axioms drops.map_function_axioms)
qed

lemmas run_simps = receive_def told_def retNext_def noEOF_def startProcs_def startProc_def NewNode_state_def
  startInput_def NewRecord_def IsEOF_def IsCircuitBreak_def IsError_def EofRecord_def BreakRecord_def Let_def

lemma sample_result: "runChain sampleTask (startProcs sampleTask) startInput = [row 3 [], row 4 [], EofRecord]"
  by (simp add: sampleTask_def sourceNode_def dropNode_def takeNode_def fmDrop_def fmTake_def takeLimits_def
      argLimit_def argOffset_def wrap64_def row_def run_simps control_keys)

theorem task_completes_witness:
  "\<exists>t. (task_step sampleTask)\<^sup>*\<^sup>* (startTask sampleTask) t \<and> finished t \<and> tk_sink t = [row 3 [], row 4 [], EofRecord]"
proof -
  have "(task_step sampleTask ^^ 0) (startTask sampleTask) (startTask sampleTask)"
    by simp
  from task_completes [OF sample_functions this] obtain t n where
    "(task_step sampleTask ^^ n) (startTask sampleTask) t" "finished t"
    "tk_sink t = runChain sampleTask (startProcs sampleTask) startInput"
    by blast
  then show ?thesis
    using sample_result relpowp_imp_rtranclp [of n "task_step sampleTask" "startTask sampleTask" t] by auto
qed

text \<open>The first step of a task: the source has received the empty record and is going to tell its records.\<close>

lemma first_step:
  assumes "receive fn (NewRecord (CStr []) CNil) [] startProc = ([], p)"
  shows "task_step (fn # fns) (startTask (fn # fns))
    ((startTask (fn # fns))\<lparr>tk_columns := [], tk_main := [EofRecord], tk_procs := p # startProcs fns\<rparr>)"
proof -
  have "ready startProc"
    by (simp add: ready_def startProc_def)
  from hop.pass [OF this assms, of fns "[EofRecord]" "startProcs fns"]
  have "hop (fn # fns) (tk_columns (startTask (fn # fns))) (tk_main (startTask (fn # fns))) (tk_procs (startTask (fn # fns)))
      None [] [EofRecord] (p # startProcs fns)"
    by (simp add: startTask_def startProcs_def)
  then show ?thesis
    by (rule task_step.moves)
qed

definition lostTask :: "nat node_fn list" where
  "lostTask = [sourceNode [] [row 1 [CVal 1]], transposeNode undefined []]"

lemma lost_failed:
  "\<exists>t p. (task_step lostTask)\<^sup>*\<^sup>* (startTask lostTask) t \<and> p \<in> set (tk_procs t) \<and> pr_phase p = Failed"
proof -
  let ?src = "sourceNode [] [row 1 [CVal 1]]" and ?tr = "transposeNode undefined []"
  let ?p1 = "startProc\<lparr>pr_pend := [row 1 [CVal 1]]\<rparr>"
  have first: "receive ?src (NewRecord (CStr []) CNil) [] startProc = ([], ?p1)"
    by (simp add: sourceNode_def run_simps control_keys)
  have lost: "pr_phase (snd (receive ?tr (row 1 [CVal 1]) [] startProc)) = Failed"
    by (simp add: transposeNode_def fmTranspose_def newTransposer_def transposeFirst_def fixedAndTransposed_def
        splitPlaces_def transposeColumns_def row_def run_simps control_keys)
  obtain cols' p2 where p2: "receive ?tr (row 1 [CVal 1]) [] startProc = (cols', p2)" "pr_phase p2 = Failed"
    using lost by (cases "receive ?tr (row 1 [CVal 1]) [] startProc") simp
  have ready: "ready startProc"
    by (simp add: ready_def startProc_def)
  let ?t0 = "startTask lostTask"
  have s1: "task_step lostTask ?t0 (?t0\<lparr>tk_columns := [], tk_main := [EofRecord], tk_procs := [?p1, startProc]\<rparr>)"
    using first_step [OF first, of "[?tr]"] by (simp add: lostTask_def startProcs_def)
  let ?t1 = "?t0\<lparr>tk_columns := [], tk_main := [EofRecord], tk_procs := [?p1, startProc]\<rparr>"
  have "hop [?tr] [] (pr_pend ?p1) [startProc] None cols' [] [p2]"
    using hop.pass [OF ready p2(1), of "[]" "[]" "[]"] by simp
  from hop.behind [OF this, of ?src "[EofRecord]"]
  have "hop lostTask (tk_columns ?t1) (tk_main ?t1) (tk_procs ?t1) None cols' [EofRecord] [?p1\<lparr>pr_pend := []\<rparr>, p2]"
    by (simp add: lostTask_def)
  from task_step.moves [OF this] s1 have
    "(task_step lostTask)\<^sup>*\<^sup>* ?t0 (?t1\<lparr>tk_columns := cols', tk_main := [EofRecord], tk_procs := [?p1\<lparr>pr_pend := []\<rparr>, p2]\<rparr>)"
    by (rule converse_rtranclp_into_rtranclp [OF _ r_into_rtranclp, rotated])
  moreover have "p2 \<in> set (tk_procs (?t1\<lparr>tk_columns := cols', tk_main := [EofRecord], tk_procs := [?p1\<lparr>pr_pend := []\<rparr>, p2]\<rparr>))"
    by (simp add: startTask_def)
  ultimately show ?thesis
    using p2(2) by blast
qed

theorem panic_blocks_witness:
  "\<exists>t. (task_step lostTask)\<^sup>*\<^sup>* (startTask lostTask) t \<and> (tk_main t \<noteq> [] \<or> (\<exists>q \<in> set (tk_procs t). pr_pend q \<noteq> []))
     \<and> \<not> finished t"
proof -
  have "list_all endSafe lostTask"
    by (simp add: lostTask_def endSafe_def sourceNode_def transposeNode_def noEOF_def)
  moreover obtain t p where "(task_step lostTask)\<^sup>*\<^sup>* (startTask lostTask) t" "p \<in> set (tk_procs t)" "pr_phase p = Failed"
    using lost_failed by blast
  ultimately show ?thesis
    using panic_blocks [of lostTask t p t] by blast
qed


subsection \<open>TAKE and DROP\<close>

lemma receive_tuple:
  "IsTuple r \<Longrightarrow> snd (receive fn r [] p) =
     (case nf_eval fn (Some r) ((pr_state p)\<lparr>ns_columns := []\<rparr>) of
        (Ok ret, st) \<Rightarrow> (told st p (fst (retNext ret)))\<lparr>pr_broken := (pr_broken p \<or> snd (retNext ret))\<rparr>
      | (Err e, st) \<Rightarrow> told st p [ErrorRecord e]
      | (_, st) \<Rightarrow> (told st p [])\<lparr>pr_phase := Failed\<rparr>)"
  by (auto simp: receive_def Let_def split: res.splits prod.splits)

lemma runProc_end:
  "pr_phase p = Running \<Longrightarrow> pr_pend p = [] \<Longrightarrow> ns_told (pr_state p) = [] \<Longrightarrow> nf_eof fn = noEOF
     \<Longrightarrow> runProc fn p [EofRecord] = [EofRecord]"
  by (simp add: receive_def told_def noEOF_def)

lemma runProc_pending:
  "pr_phase p = Running \<Longrightarrow> runProc fn p (r # rs) = pr_pend p @ runProc fn (snd (receive fn r [] (p\<lparr>pr_pend := []\<rparr>))) rs"
  by simp

text \<open>A node that has counted \<open>c\<close> records and has nothing to tell.\<close>

definition counting :: "int \<Rightarrow> int \<Rightarrow> nat \<Rightarrow> 'a proc \<Rightarrow> int list \<Rightarrow> bool" where
  "counting limit offset c p args =
     (takeLimits args (pr_state p) = (limit, offset, int c + 1) \<and> pr_phase p = Running \<and> ns_told (pr_state p) = [])"

lemma takeLimits_next:
  "takeLimits args st = (limit, offset, count) \<Longrightarrow>
     takeLimits args' (st'\<lparr>ns_limit := Some limit, ns_offset := Some offset, ns_count := Some count\<rparr>)
       = (limit, offset, wrap64 (count + 1))"
  by (simp add: takeLimits_def)

lemma window_step:
  assumes "m \<le> k"
  shows "drop (m - c) (take (k - c) (r # rs))
    = (if k \<le> c then [] else if c < m then [] else [r]) @ drop (m - Suc c) (take (k - Suc c) rs)"
  using assms by (cases "k \<le> c"; cases "c < m") (auto simp: take_Cons' drop_Cons' Suc_diff_le)

lemma gap_step:
  assumes "m \<le> k"
  shows "take (m - c) (r # rs) @ drop (k - c) (r # rs)
    = (if m \<le> c \<and> c < k then [] else [r]) @ take (m - Suc c) rs @ drop (k - Suc c) rs"
  using assms by (cases "k \<le> c"; cases "c < m") (auto simp: take_Cons' drop_Cons' Suc_diff_le)

lemma take_run:
  assumes "0 \<le> limit" "0 \<le> offset" "limit + offset < 2 ^ 63"
  shows "counting limit offset c p args \<Longrightarrow> list_all IsTuple rs \<Longrightarrow> int c + int (length rs) < 2 ^ 63 - 1 \<Longrightarrow>
    runProc (takeNode args) p (rs @ [EofRecord])
      = pr_pend p @ drop (nat offset - c) (take (nat (offset + limit) - c) rs) @ [EofRecord]"
proof (induction rs arbitrary: c p)
  case Nil
  then show ?case
    by (simp add: counting_def receive_def told_def takeNode_def noEOF_def)
next
  case (Cons r rs)
  let ?p = "snd (receive (takeNode args) r [] (p\<lparr>pr_pend := []\<rparr>))"
  have wrap: "wrap64 (offset + limit) = offset + limit" "wrap64 (int c + 1 + 1) = int c + 2"
    using assms Cons.prems(3) by (simp_all add: wrap64_id)
  let ?out = "if offset + limit < int c + 1 then [] else if int c + 1 \<le> offset then [] else [r]"
  have p: "counting limit offset (Suc c) ?p args \<and> pr_pend ?p = ?out"
    using Cons.prems(1,2) assms wrap
    by (auto simp: counting_def receive_tuple takeNode_def fmTake_def retNext_def told_def takeLimits_def split: option.splits)
  have "runProc (takeNode args) ?p (rs @ [EofRecord])
      = ?out @ drop (nat offset - Suc c) (take (nat (offset + limit) - Suc c) rs) @ [EofRecord]"
    using Cons.IH [of "Suc c" ?p] p Cons.prems by simp
  moreover have "drop (nat offset - c) (take (nat (offset + limit) - c) (r # rs))
      = ?out @ drop (nat offset - Suc c) (take (nat (offset + limit) - Suc c) rs)"
    using window_step [of "nat offset" "nat (offset + limit)" c r rs] assms by auto
  ultimately show ?case
    using Cons.prems(1) by (simp add: counting_def)
qed

lemma drop_run:
  assumes "0 \<le> limit" "0 \<le> offset" "limit + offset < 2 ^ 63"
  shows "counting limit offset c p args \<Longrightarrow> list_all IsTuple rs \<Longrightarrow> int c + int (length rs) < 2 ^ 63 - 1 \<Longrightarrow>
    runProc (dropNode args) p (rs @ [EofRecord])
      = pr_pend p @ take (nat offset - c) rs @ drop (nat (offset + limit) - c) rs @ [EofRecord]"
proof (induction rs arbitrary: c p)
  case Nil
  then show ?case
    by (simp add: counting_def receive_def told_def dropNode_def noEOF_def)
next
  case (Cons r rs)
  let ?p = "snd (receive (dropNode args) r [] (p\<lparr>pr_pend := []\<rparr>))"
  have wrap: "wrap64 (offset + limit) = offset + limit" "wrap64 (int c + 1 + 1) = int c + 2"
    using assms Cons.prems(3) by (simp_all add: wrap64_id)
  let ?out = "if offset < int c + 1 \<and> int c + 1 \<le> offset + limit then [] else [r]"
  have p: "counting limit offset (Suc c) ?p args \<and> pr_pend ?p = ?out"
    using Cons.prems(1,2) assms wrap
    by (auto simp: counting_def receive_tuple dropNode_def fmDrop_def retNext_def told_def takeLimits_def split: option.splits)
  have "runProc (dropNode args) ?p (rs @ [EofRecord])
      = ?out @ take (nat offset - Suc c) rs @ drop (nat (offset + limit) - Suc c) rs @ [EofRecord]"
    using Cons.IH [of "Suc c" ?p] p Cons.prems by simp
  moreover have "take (nat offset - c) (r # rs) @ drop (nat (offset + limit) - c) (r # rs)
      = ?out @ take (nat offset - Suc c) rs @ drop (nat (offset + limit) - Suc c) rs"
    using gap_step [of "nat offset" "nat (offset + limit)" c r rs] assms by auto
  ultimately show ?case
    using Cons.prems(1) by (simp add: counting_def)
qed

lemma counting_start:
  "counting (int n) (int m) 0 startProc [int m, int n]" "counting (int n) 0 0 startProc [int n]"
  by (simp_all add: counting_def takeLimits_def startProc_def NewNode_state_def argLimit_def argOffset_def wrap64_id)

text \<open>\<open>TAKE(m, n)\<close> lets the \<open>n\<close> records after the first \<open>m\<close> through, \<open>DROP(m, n)\<close> all the others.\<close>

theorem TAKE_DROP:
  assumes "list_all IsTuple rs" and "int m + int n < 2 ^ 63" and "int (length rs) < 2 ^ 63 - 1"
  shows "runProc (takeNode [int m, int n]) startProc (rs @ [EofRecord]) = take n (drop m rs) @ [EofRecord]
    \<and> runProc (dropNode [int m, int n]) startProc (rs @ [EofRecord]) = take m rs @ drop (m + n) rs @ [EofRecord]"
  using take_run [OF _ _ _ counting_start(1) assms(1)] drop_run [OF _ _ _ counting_start(1) assms(1)] assms(2,3)
  by (simp add: startProc_def drop_take nat_int_add add.commute)

theorem TAKE_DROP_witness:
  "runProc (takeNode [1, 1]) startProc [row 1 [], row 2 [], row 3 [], EofRecord] = [row 2 [], EofRecord]
    \<and> runProc (dropNode [1, 1]) startProc [row 1 [], row 2 [], row 3 [], EofRecord] = [row 1 [], row 3 [], EofRecord]"
proof -
  have "list_all IsTuple [row 1 [], row 2 [], row 3 []]"
    by (simp add: row_def tuple_kinds NewRecord_def IsTuple_def)
  from TAKE_DROP [OF this, of 1 1] show ?thesis
    by simp
qed

end
