(* ===== verification/TqlStreams.thy ===== *)
theory TqlStreams
  imports TqlTask "HOL-Library.Multiset"
begin

text \<open>
  What single map functions do to a whole stream: \<open>FILTER_CHANGED\<close> and \<open>GROUPBYKEY\<close> see it as runs of equal
  values, and the functions that take keys and values off a record undo the ones that put them on.
\<close>

subsection \<open>Runs\<close>

fun runs :: "('b \<Rightarrow> 'c) \<Rightarrow> 'b list \<Rightarrow> 'b list list" where
  "runs f [] = []"
| "runs f (x # xs) =
     (case runs f xs of
        (y # g) # gs \<Rightarrow> if f x = f y then (x # y # g) # gs else [x] # (y # g) # gs
      | _ \<Rightarrow> [[x]])"

lemma runs_Cons: "\<exists>g gs. runs f (x # xs) = (x # g) # gs"
  by (auto split: list.splits)

lemma runs_Cons2:
  "runs f (x # y # zs) = (if f x = f y then (x # hd (runs f (y # zs))) # tl (runs f (y # zs)) else [x] # runs f (y # zs))"
  using runs_Cons [of f y zs] by (auto simp del: runs.simps simp: runs.simps(2) [of f x])

lemma runs_single: "runs f [x] = [[x]]"
  by simp

declare runs.simps(2) [simp del]

lemma runs_content: "concat (runs f xs) = xs"
proof (induction f xs rule: runs.induct)
  case (2 f x xs)
  show ?case
  proof (cases xs)
    case (Cons y ys)
    obtain g gs where "runs f xs = (y # g) # gs"
      using runs_Cons [of f y ys] Cons by auto
    then show ?thesis
      using 2 Cons by (auto simp: runs_Cons2)
  qed (simp add: runs_single)
qed simp

lemma runs_parts: "g \<in> set (runs f xs) \<Longrightarrow> g \<noteq> [] \<and> (\<forall>x \<in> set g. f x = f (hd g))"
proof (induction f xs arbitrary: g rule: runs.induct)
  case (2 f x xs)
  show ?case
  proof (cases xs)
    case Nil
    then show ?thesis
      using 2(2) by (simp add: runs_single)
  next
    case (Cons y ys)
    obtain h gs where h: "runs f xs = (y # h) # gs"
      using runs_Cons [of f y ys] Cons by auto
    have part: "k \<noteq> [] \<and> (\<forall>z \<in> set k. f z = f (hd k))" if "k \<in> set (runs f xs)" for k
      using "2.IH" that by blast
    have "f z = f y" if "z \<in> set h" for z
      using part [of "y # h"] that h by simp
    then show ?thesis
      using part "2.prems" h by (auto simp: runs_Cons2 Cons split: if_splits)
  qed
qed simp

text \<open>The first records of the runs, and the first and last ones, in one pass.\<close>

fun changesFrom :: "('b \<Rightarrow> 'c) \<Rightarrow> 'b \<Rightarrow> 'b list \<Rightarrow> 'b list" where
  "changesFrom f l [] = []"
| "changesFrom f l (r # rs) = (if f l = f r then [] else [r]) @ changesFrom f r rs"

fun borders :: "('b \<Rightarrow> 'c) \<Rightarrow> 'b \<Rightarrow> 'b list \<Rightarrow> 'b list" where
  "borders f l [] = [l]"
| "borders f l (r # rs) = (if f l = f r then [] else [l, r]) @ borders f r rs"

lemma changesFrom_runs: "l # changesFrom f l rs = map hd (runs f (l # rs))"
proof (induction rs arbitrary: l)
  case (Cons r rs)
  show ?case
    using runs_Cons [of f r rs] Cons.IH [of r] by (auto simp: runs_Cons2)
qed (simp add: runs_single)

lemma borders_runs: "l # borders f l rs = concat (map (\<lambda>g. [hd g, last g]) (runs f (l # rs)))"
proof (induction rs arbitrary: l)
  case (Cons r rs)
  show ?case
    using runs_Cons [of f r rs] Cons.IH [of r] by (auto simp: runs_Cons2)
qed (simp add: runs_single)

subsection \<open>FILTER\_CHANGED\<close>

lemma cellEq_hashable: "hashable x \<Longrightarrow> hashable y \<Longrightarrow> cellEq x y = Ok (x = y)"
  by (auto simp: cellEq_def hashable_def split: cell.splits)

text \<open>The node has seen \<open>l\<close> last and has nothing to tell.\<close>

definition watching :: "('a tql_record \<Rightarrow> 'a cell) \<Rightarrow> bool \<Rightarrow> 'a tql_record \<Rightarrow> 'a proc \<Rightarrow> bool" where
  "watching v withLast l p =
     (pr_phase p = Running \<and> ns_told (pr_state p) = []
      \<and> (\<exists>bf. ns_filter (pr_state p) = Some bf \<and> bf_last bf = v l \<and> bf_withLast bf = withLast
            \<and> (withLast \<longrightarrow> bf_lastRecord bf = Some l)))"

lemmas changed_simps = watching_def receive_tuple filterChangedNode_def fmFilterChanged_def changedFirst_def
  changedPlain_def retNext_def told_def Let_def

lemma changed_first:
  assumes "IsTuple r"
  shows "watching (\<lambda>r. en_unbox en (f r)) w r (snd (receive (filterChangedNode en f (\<lambda>_. if w then [FaUseFirst True] else [])) r [] startProc))
    \<and> pr_pend (snd (receive (filterChangedNode en f (\<lambda>_. if w then [FaUseFirst True] else [])) r [] startProc)) = [r]"
  using assms by (cases w) (simp_all add: changed_simps startProc_def NewNode_state_def)

lemma changed_next:
  assumes "IsTuple l" and "IsTuple r" and "hashable (en_unbox en (f l))" and "hashable (en_unbox en (f r))"
    and "watching (\<lambda>r. en_unbox en (f r)) w l p"
  shows "watching (\<lambda>r. en_unbox en (f r)) w r (snd (receive (filterChangedNode en f (\<lambda>_. if w then [FaUseFirst True] else [])) r [] p))
    \<and> pr_pend (snd (receive (filterChangedNode en f (\<lambda>_. if w then [FaUseFirst True] else [])) r [] p))
        = (if en_unbox en (f l) = en_unbox en (f r) then [] else if w then [l, r] else [r])"
  using assms by (cases w) (auto simp: changed_simps cellEq_hashable)

lemma changed_end:
  assumes "watching v w l p" and "pr_pend p = []"
  shows "runProc (filterChangedNode en f args) p [EofRecord] = (if w then [l] else []) @ [EofRecord]"
  using assms by (auto simp: watching_def receive_def told_def Let_def filterChangedNode_def changedEOF_def)

lemma changed_run:
  fixes en f w
  defines "v \<equiv> \<lambda>r. en_unbox en (f r)"
  shows "watching v w l p \<Longrightarrow> list_all IsTuple (l # rs) \<Longrightarrow> list_all (\<lambda>r. hashable (v r)) (l # rs) \<Longrightarrow>
    runProc (filterChangedNode en f (\<lambda>_. if w then [FaUseFirst True] else [])) p (rs @ [EofRecord])
      = pr_pend p @ (if w then borders v l rs else changesFrom v l rs) @ [EofRecord]"
proof (induction rs arbitrary: l p)
  case Nil
  then show ?case
    using changed_end [of v w l "p\<lparr>pr_pend := []\<rparr>" en f] runProc_pend [of _ p] by (simp add: watching_def)
next
  case (Cons r rs)
  let ?n = "filterChangedNode en f (\<lambda>_. if w then [FaUseFirst True] else [])"
  let ?p = "snd (receive ?n r [] (p\<lparr>pr_pend := []\<rparr>))"
  have "watching v w l (p\<lparr>pr_pend := []\<rparr>)"
    using Cons.prems(1) by (simp add: watching_def)
  from changed_next [OF _ _ _ _ this [unfolded v_def], of r]
  have p: "watching v w r ?p" "pr_pend ?p = (if v l = v r then [] else if w then [l, r] else [r])"
    using Cons.prems(2,3) by (simp_all add: v_def)
  show ?case
    using Cons.IH [OF p(1)] Cons.prems p(2) by (simp add: watching_def)
qed

text \<open>
  C9: \<open>FILTER_CHANGED(v)\<close> tells the first record of every run of equal values, and with \<open>useFirstWithLast(true)\<close> the
  first and the last one: a run of one record is told twice.
\<close>

theorem FILTER_CHANGED_runs:
  assumes "list_all IsTuple rs" and "list_all (\<lambda>r. hashable (en_unbox en (f r))) rs"
  shows "runProc (filterChangedNode en f (\<lambda>_. [])) startProc (rs @ [EofRecord])
      = map hd (runs (\<lambda>r. en_unbox en (f r)) rs) @ [EofRecord]
    \<and> runProc (filterChangedNode en f (\<lambda>_. [FaUseFirst True])) startProc (rs @ [EofRecord])
      = concat (map (\<lambda>g. [hd g, last g]) (runs (\<lambda>r. en_unbox en (f r)) rs)) @ [EofRecord]"
proof -
  have "runProc (filterChangedNode en f (\<lambda>_. if w then [FaUseFirst True] else [])) startProc (rs @ [EofRecord])
      = (if w then concat (map (\<lambda>g. [hd g, last g]) (runs (\<lambda>r. en_unbox en (f r)) rs))
         else map hd (runs (\<lambda>r. en_unbox en (f r)) rs)) @ [EofRecord]" for w
  proof (cases rs)
    case Nil
    then show ?thesis
      by (simp add: receive_def told_def Let_def filterChangedNode_def changedEOF_def startProc_def NewNode_state_def)
  next
    case (Cons r qs)
    let ?n = "filterChangedNode en f (\<lambda>_. if w then [FaUseFirst True] else [])"
    have first: "watching (\<lambda>r. en_unbox en (f r)) w r (snd (receive ?n r [] startProc)) \<and> pr_pend (snd (receive ?n r [] startProc)) = [r]"
      using changed_first [of r en f w] assms(1) Cons by simp
    have "runProc ?n startProc (rs @ [EofRecord]) = runProc ?n (snd (receive ?n r [] startProc)) (qs @ [EofRecord])"
      by (simp add: Cons startProc_def)
    then show ?thesis
      using changed_run [OF conjunct1 [OF first], of qs] assms first Cons
        borders_runs [of r "\<lambda>r. en_unbox en (f r)" qs] changesFrom_runs [of r "\<lambda>r. en_unbox en (f r)" qs]
      by (cases w) simp_all
  qed
  from this [of False] this [of True] show ?thesis
    by simp
qed

definition plainEnv :: "nat env" where
  "plainEnv = \<lparr>en_columnOf = (\<lambda>n v. \<lparr>cl_Name = n, cl_DataType = ''any''\<rparr>), en_columnAny = (\<lambda>n. \<lparr>cl_Name = n, cl_DataType = ''any''\<rparr>),
     en_dataType = (\<lambda>t. t), en_unbox = (\<lambda>v. v), en_isTime = (\<lambda>_. False), en_isFloat = (\<lambda>_. False),
     en_show = (\<lambda>_. ''value''), en_itoa = (\<lambda>_. ''1''), en_order = (\<lambda>b. b)\<rparr>"

theorem FILTER_CHANGED_runs_witness:
  "runProc (filterChangedNode plainEnv rec_key (\<lambda>_. [])) startProc [row 1 [], row 1 [CVal 2], row 3 [], EofRecord]
     = [row 1 [], row 3 [], EofRecord]
   \<and> runProc (filterChangedNode plainEnv rec_key (\<lambda>_. [FaUseFirst True])) startProc [row 1 [], row 1 [CVal 2], row 3 [], EofRecord]
     = [row 1 [], row 1 [CVal 2], row 3 [], row 3 [], EofRecord]"
proof -
  let ?rs = "[row 1 [], row 1 [CVal 2], row 3 []]"
  have "list_all IsTuple ?rs" "list_all (\<lambda>r. hashable (en_unbox plainEnv (rec_key r))) ?rs"
    by (simp_all add: row_def NewRecord_def IsTuple_def hashable_def plainEnv_def)
  from FILTER_CHANGED_runs [OF this] show ?thesis
    by (simp add: runs.simps plainEnv_def row_def NewRecord_def)
qed

subsection \<open>GROUPBYKEY\<close>

text \<open>Records a group can take without a panic: the key can be hashed, and no value needs a filler.\<close>

definition groupable :: "'a env \<Rightarrow> 'a tql_record \<Rightarrow> bool" where
  "groupable en r =
     (IsTuple r \<and> hashable (en_unbox en (rec_key r)) \<and> rec_value r \<noteq> CNil
      \<and> \<not> ((case en_unbox en (rec_key r) of CVal k \<Rightarrow> en_isTime en k | _ \<Rightarrow> False)
            \<and> (case rec_value r of CVal x \<Rightarrow> en_isFloat en x | _ \<Rightarrow> False)))"

lemma yieldChunk_groupable:
  assumes "\<forall>r \<in> set g. groupable en r \<and> en_unbox en (rec_key r) = k"
  shows "yieldChunk en k (map rec_value g) st = Ok (st\<lparr>ns_told := ns_told st @ [yieldRecord k (map rec_value g)]\<rparr>)"
  using assms by (force simp: yieldChunk_def groupable_def)

lemma eval_group:
  "nf_eval (groupByKeyNode en args) rec = fmGroupByKey en args rec" "nf_eof (groupByKeyNode en args) = groupEOF en"
  by (simp_all add: groupByKeyNode_def)

text \<open>The node is in the middle of the run \<open>g\<close> of records with key \<open>k\<close>.\<close>

definition collecting :: "'a env \<Rightarrow> 'a cell \<Rightarrow> 'a tql_record list \<Rightarrow> 'a proc \<Rightarrow> bool" where
  "collecting en k g p =
     (pr_phase p = Running \<and> ns_told (pr_state p) = [] \<and> k \<noteq> CNil
      \<and> (\<forall>r \<in> set g. groupable en r \<and> en_unbox en (rec_key r) = k)
      \<and> ns_group (pr_state p) = Some \<lparr>gr_lazy = False, gr_buffer = [(k, map rec_value g)], gr_curKey = k\<rparr>)"

lemmas group_simps = receive_tuple eval_group fmGroupByKey_def pushChunk_def bufferAppend_def told_def retNext_def Let_def

lemma group_first:
  assumes "groupable en r" and "en_unbox en (rec_key r) \<noteq> CNil"
  shows "collecting en (en_unbox en (rec_key r)) [r] (snd (receive (groupByKeyNode en []) r [] startProc))
    \<and> pr_pend (snd (receive (groupByKeyNode en []) r [] startProc)) = []"
proof -
  have "IsTuple r" "hashable (en_unbox en (rec_key r))"
    using assms(1) by (simp_all add: groupable_def)
  then show ?thesis
    using assms by (simp add: group_simps collecting_def startProc_def NewNode_state_def)
qed

lemma group_next:
  assumes "collecting en k g p" and "groupable en r" and "en_unbox en (rec_key r) = k'" and "k' \<noteq> CNil"
  shows "collecting en k' (if k' = k then g @ [r] else [r]) (snd (receive (groupByKeyNode en []) r [] p))
    \<and> pr_pend (snd (receive (groupByKeyNode en []) r [] p)) = (if k' = k then [] else [yieldRecord k (map rec_value g)])"
proof -
  have r: "IsTuple r" "hashable k'"
    using assms(2,3) by (simp_all add: groupable_def)
  have p: "pr_phase p = Running" "ns_told (pr_state p) = []" "k \<noteq> CNil"
      "ns_group (pr_state p) = Some \<lparr>gr_lazy = False, gr_buffer = [(k, map rec_value g)], gr_curKey = k\<rparr>"
    and all: "\<forall>r \<in> set g. groupable en r \<and> en_unbox en (rec_key r) = k"
    using assms(1) unfolding collecting_def by blast+
  show ?thesis
    using r p all assms(2-) yieldChunk_groupable [OF all] by (simp add: group_simps collecting_def)
qed

lemma runs_const: "g \<noteq> [] \<Longrightarrow> \<forall>x \<in> set g. f x = k \<Longrightarrow> runs f g = [g]"
proof (induction g)
  case (Cons x g)
  then show ?case
    by (cases g) (simp_all add: runs_single runs_Cons2)
qed simp

lemma runs_break: "g \<noteq> [] \<Longrightarrow> \<forall>x \<in> set g. f x = k \<Longrightarrow> f r \<noteq> k \<Longrightarrow> runs f (g @ r # rs) = g # runs f (r # rs)"
proof (induction g)
  case (Cons x g)
  then show ?case
    by (cases g) (simp_all add: runs_Cons2)
qed simp

lemma group_end:
  assumes "collecting en k g p" and "pr_pend p = []" and "\<And>b. mset (en_order en b) = mset b"
  shows "runProc (groupByKeyNode en []) p [EofRecord] = [yieldRecord k (map rec_value g)] @ [EofRecord]"
proof -
  have "en_order en [(k, map rec_value g)] = [(k, map rec_value g)]"
    using assms(3) [of "[(k, map rec_value g)]"] by simp
  moreover have "\<forall>r \<in> set g. groupable en r \<and> en_unbox en (rec_key r) = k"
    using assms(1) by (simp add: collecting_def)
  ultimately show ?thesis
    using assms(1,2) by (simp add: receive_def eval_group groupEOF_def yieldChunk_groupable collecting_def told_def Let_def)
qed

definition groupRecord :: "'a env \<Rightarrow> 'a tql_record list \<Rightarrow> 'a tql_record" where
  "groupRecord en g = yieldRecord (en_unbox en (rec_key (hd g))) (map rec_value g)"

lemma group_run:
  assumes order: "\<And>b. mset (en_order en b) = mset b"
  shows "collecting en k g p \<Longrightarrow> g \<noteq> [] \<Longrightarrow> list_all (\<lambda>r. groupable en r \<and> en_unbox en (rec_key r) \<noteq> CNil) rs \<Longrightarrow>
    runProc (groupByKeyNode en []) p (rs @ [EofRecord])
      = pr_pend p @ map (groupRecord en) (runs (\<lambda>r. en_unbox en (rec_key r)) (g @ rs)) @ [EofRecord]"
proof (induction rs arbitrary: k g p)
  case Nil
  let ?key = "\<lambda>r. en_unbox en (rec_key r)"
  have coll: "collecting en k g (p\<lparr>pr_pend := []\<rparr>)" and all: "\<forall>r \<in> set g. ?key r = k" and run: "pr_phase p = Running"
    using Nil.prems(1) by (simp_all add: collecting_def)
  have "?key (hd g) = k"
    using all Nil.prems(2) by simp
  then show ?case
    using group_end [OF coll _ order] runProc_pend [of _ p] runs_const [OF Nil.prems(2) all]
    by (simp add: groupRecord_def run)
next
  case (Cons r rs)
  let ?key = "\<lambda>r. en_unbox en (rec_key r)"
  let ?p = "snd (receive (groupByKeyNode en []) r [] (p\<lparr>pr_pend := []\<rparr>))"
  have coll: "collecting en k g (p\<lparr>pr_pend := []\<rparr>)" and all: "\<forall>r \<in> set g. ?key r = k" and run: "pr_phase p = Running"
    using Cons.prems(1) by (simp_all add: collecting_def)
  have p: "collecting en (?key r) (if ?key r = k then g @ [r] else [r]) ?p"
      "pr_pend ?p = (if ?key r = k then [] else [yieldRecord k (map rec_value g)])"
    using group_next [OF coll _ refl, of r] Cons.prems(3) by simp_all
  have "runProc (groupByKeyNode en []) ?p (rs @ [EofRecord])
      = pr_pend ?p @ map (groupRecord en) (runs ?key ((if ?key r = k then g @ [r] else [r]) @ rs)) @ [EofRecord]"
    by (rule Cons.IH [OF p(1)]) (use Cons.prems(3) in simp_all)
  moreover have "map (groupRecord en) (runs ?key (g @ r # rs))
      = pr_pend ?p @ map (groupRecord en) (runs ?key ((if ?key r = k then g @ [r] else [r]) @ rs))"
  proof (cases "?key r = k")
    case False
    have "?key (hd g) = k"
      using all Cons.prems(2) by simp
    then show ?thesis
      using False runs_break [OF Cons.prems(2) all False] p(2) by (simp add: groupRecord_def)
  qed (use p(2) in simp)
  ultimately show ?case
    by (simp add: run)
qed

text \<open>With \<open>lazy(true)\<close> the groups stay until the end: one for each key.\<close>

definition grouped :: "'a env \<Rightarrow> 'a tql_record list \<Rightarrow> ('a cell \<times> 'a cell list) list" where
  "grouped en rs =
     map (\<lambda>k. (k, map rec_value (filter (\<lambda>r. en_unbox en (rec_key r) = k) rs)))
       (rev (remdups (rev (map (\<lambda>r. en_unbox en (rec_key r)) rs))))"

lemma map_of_self: "map_of (map (\<lambda>k. (k, f k)) ks) x = (if x \<in> set ks then Some (f x) else None)"
  by (induction ks) auto

lemma bufferAppend_grouped: "bufferAppend (en_unbox en (rec_key r)) (rec_value r) (grouped en rs) = grouped en (rs @ [r])"
  by (auto simp: bufferAppend_def grouped_def map_of_self filter_empty_conv image_iff)

definition storing :: "'a env \<Rightarrow> 'a tql_record list \<Rightarrow> 'a proc \<Rightarrow> bool" where
  "storing en rs p =
     (pr_phase p = Running \<and> ns_told (pr_state p) = [] \<and> list_all (groupable en) rs
      \<and> (\<exists>k. ns_group (pr_state p) = Some \<lparr>gr_lazy = True, gr_buffer = grouped en rs, gr_curKey = k\<rparr>))"

lemma yieldAll_groupable:
  "\<forall>(k, vs) \<in> set buf. \<exists>g. vs = map rec_value g \<and> (\<forall>r \<in> set g. groupable en r \<and> en_unbox en (rec_key r) = k) \<Longrightarrow>
     yieldAll en buf st = (True, st\<lparr>ns_told := ns_told st @ map (\<lambda>(k, vs). yieldRecord k vs) buf\<rparr>)"
proof (induction buf arbitrary: st)
  case (Cons kv buf)
  obtain k g where "kv = (k, map rec_value g)" "\<forall>r \<in> set g. groupable en r \<and> en_unbox en (rec_key r) = k"
    using Cons.prems by (cases kv) auto
  then show ?case
    using Cons by (simp add: yieldChunk_groupable)
qed simp

lemma grouped_groupable:
  "list_all (groupable en) rs \<Longrightarrow>
     \<forall>(k, vs) \<in> set (grouped en rs). \<exists>g. vs = map rec_value g \<and> (\<forall>r \<in> set g. groupable en r \<and> en_unbox en (rec_key r) = k)"
  by (auto simp: grouped_def list_all_iff intro!: exI [of _ "filter (\<lambda>r. en_unbox en (rec_key r) = _) rs"])

lemma storing_first:
  assumes "groupable en r"
  shows "storing en [r] (snd (receive (groupByKeyNode en [Some True]) r [] startProc))
    \<and> pr_pend (snd (receive (groupByKeyNode en [Some True]) r [] startProc)) = []"
proof -
  have "IsTuple r" "hashable (en_unbox en (rec_key r))"
    using assms(1) by (simp_all add: groupable_def)
  then show ?thesis
    using assms by (simp add: group_simps storing_def grouped_def startProc_def NewNode_state_def)
qed

lemma storing_next:
  assumes "storing en rs p" and "groupable en r"
  shows "storing en (rs @ [r]) (snd (receive (groupByKeyNode en [Some True]) r [] p))
    \<and> pr_pend (snd (receive (groupByKeyNode en [Some True]) r [] p)) = []"
proof -
  have "IsTuple r" "hashable (en_unbox en (rec_key r))"
    using assms(2) by (simp_all add: groupable_def)
  then show ?thesis
    using assms bufferAppend_grouped [of en r rs]
    by (auto simp: receive_tuple eval_group fmGroupByKey_def pushChunk_def told_def retNext_def Let_def storing_def)
qed

lemma storing_run:
  assumes order: "\<And>b. mset (en_order en b) = mset b"
  shows "storing en qs p \<Longrightarrow> list_all (groupable en) rs \<Longrightarrow>
    runProc (groupByKeyNode en [Some True]) p (rs @ [EofRecord])
      = pr_pend p @ map (\<lambda>(k, vs). yieldRecord k vs) (en_order en (grouped en (qs @ rs))) @ [EofRecord]"
proof (induction rs arbitrary: qs p)
  case Nil
  have "set (en_order en (grouped en qs)) = set (grouped en qs)"
    using order by (metis set_mset_mset)
  then have "yieldAll en (en_order en (grouped en qs)) st
      = (True, st\<lparr>ns_told := ns_told st @ map (\<lambda>(k, vs). yieldRecord k vs) (en_order en (grouped en qs))\<rparr>)" for st
    using Nil.prems(1) grouped_groupable [of en qs] by (intro yieldAll_groupable) (simp add: storing_def)
  then show ?case
    using Nil.prems(1) by (auto simp: storing_def receive_def eval_group groupEOF_def told_def Let_def)
next
  case (Cons r rs)
  let ?p = "snd (receive (groupByKeyNode en [Some True]) r [] (p\<lparr>pr_pend := []\<rparr>))"
  have "storing en qs (p\<lparr>pr_pend := []\<rparr>)" and run: "pr_phase p = Running"
    using Cons.prems(1) by (simp_all add: storing_def)
  from storing_next [OF this(1), of r] have p: "storing en (qs @ [r]) ?p" "pr_pend ?p = []"
    using Cons.prems(2) by simp_all
  show ?case
    using Cons.IH [OF p(1)] Cons.prems(2) p(2) run by simp
qed



subsection \<open>Pushing and popping\<close>

lemma keptPlaces_ascending:
  "sorted_wrt (<) xs \<Longrightarrow> \<forall>x \<in> set xs. int j \<le> x \<Longrightarrow> keptPlaces j n xs = filter (\<lambda>i. int i \<notin> set xs) [j..<j + n]"
proof (induction n arbitrary: j xs)
  case (Suc n)
  have upt: "[j..<j + Suc n] = j # [Suc j..<Suc j + n]"
    by (simp add: upt_conv_Cons)
  show ?case
  proof (cases xs)
    case Nil
    then show ?thesis
      using Suc.IH [of "[]" "Suc j"] upt by simp
  next
    case (Cons x ys)
    have later: "\<forall>y \<in> set ys. int (Suc j) \<le> y"
      using Suc.prems Cons by auto
    show ?thesis
    proof (cases "int j = x")
      case True
      have "filter (\<lambda>i. int i \<notin> set xs) [Suc j..<Suc j + n] = filter (\<lambda>i. int i \<notin> set ys) [Suc j..<Suc j + n]"
        using True Cons by (intro filter_cong) auto
      then show ?thesis
        using Suc.IH [of ys "Suc j"] Suc.prems later True Cons upt by simp
    next
      case False
      then have "\<forall>y \<in> set xs. int (Suc j) \<le> y" "int j \<notin> set xs"
        using Suc.prems Cons later by auto
      then show ?thesis
        using Suc.IH [of xs "Suc j"] Suc.prems(1) False Cons upt by simp
    qed
  qed
qed simp

lemma map_nth_upt: "n \<le> length xs \<Longrightarrow> map ((!) xs) [m..<n] = drop m (take n xs)"
  by (rule nth_equalityI) auto

lemma keptPlaces_one:
  assumes "i \<le> n"
  shows "keptPlaces 0 (Suc n) [int i] = [0..<i] @ [Suc i..<Suc n]"
proof -
  have "[0..<Suc n] = [0..<i] @ i # [Suc i..<Suc n]"
    using assms upt_add_eq_append [of 0 i "Suc n - i"] upt_conv_Cons [of i "Suc n"] by simp
  then show ?thesis
    using assms keptPlaces_ascending [of "[int i]" 0 "Suc n"]
    by (auto simp: filter_id_conv simp del: upt_Suc keptPlaces.simps)
qed

lemma pop_pushed:
  assumes "i \<le> length vs"
  shows "map ((!) (take i vs @ v # drop i vs)) (keptPlaces 0 (Suc (length vs)) [int i]) = vs"
proof -
  let ?ws = "take i vs @ v # drop i vs"
  have "map ((!) ?ws) ([0..<i] @ [Suc i..<Suc (length vs)])
      = drop 0 (take i ?ws) @ drop (Suc i) (take (Suc (length vs)) ?ws)"
    using assms unfolding map_append by (intro arg_cong2 [where f = append] map_nth_upt) simp_all
  then show ?thesis
    using assms keptPlaces_one [OF assms] by simp
qed

text \<open>Columns as \<open>SetResultColumns\<close> leaves them.\<close>

definition setColumns :: "'a env \<Rightarrow> column list \<Rightarrow> bool" where
  "setColumns en cols = list_all (\<lambda>c. sqlDataType en (cl_DataType c) = cl_DataType c) cols"

lemma setColumns_map [simp]:
  "setColumns en cols \<Longrightarrow> map (\<lambda>c. c\<lparr>cl_DataType := sqlDataType en (cl_DataType c)\<rparr>) cols = cols"
  by (induction cols) (simp_all add: setColumns_def)

lemma pushKey_popKey:
  assumes "rec_value r = CArr vs" and "length cols = Suc (length vs)" and "setColumns en cols"
  shows "case fmPushKey en k (Some r) (NewNode_state\<lparr>ns_columns := cols\<rparr>) of
      (Ok (RetPtr (Some r')), st) \<Rightarrow>
        (\<exists>st'. fmPopKey en [] (Some r') (NewNode_state\<lparr>ns_columns := ns_columns st\<rparr>) = (Ok (RetPtr (Some r)), st')
           \<and> ns_columns st' = cols)
    | _ \<Rightarrow> False"
proof -
  obtain c cs where "cols = c # cs"
    using assms(2) by (cases cols) auto
  then show ?thesis
    using assms setColumns_map [OF assms(3)]
    by (cases r) (simp add: fmPushKey_def fmPopKey_def onFirst_def SetResultColumns_def popKeyColumns_def NewNode_state_def
      ReplaceKeyValue_def)
qed

lemma push_columns:
  assumes "length cs = n" and "i \<le> n"
  shows "pushColumns en i name v (c # cs) = c # take i cs @ en_columnOf en name v # drop i cs"
  using assms by (auto simp: pushColumns_def)

lemma pop_columns:
  fixes d :: 'b
  assumes "length cs = n" and "i \<le> n"
  defines "ws \<equiv> take i cs @ d # drop i cs"
  shows "map ((!) (c # ws)) (filter (\<lambda>j. j < length (c # ws)) (map Suc (keptPlaces 0 (Suc n) [int i]))) = cs"
proof -
  have "filter (\<lambda>j. j < length (c # ws)) (map Suc (keptPlaces 0 (Suc n) [int i])) = map Suc (keptPlaces 0 (Suc n) [int i])"
    using assms(1,2) keptPlaces_one [OF assms(2)] by (auto simp: filter_id_conv ws_def simp del: keptPlaces.simps)
  then have "map ((!) (c # ws)) (filter (\<lambda>j. j < length (c # ws)) (map Suc (keptPlaces 0 (Suc n) [int i])))
      = map ((!) ws) (keptPlaces 0 (Suc n) [int i])"
    by (simp add: comp_def)
  then show ?thesis
    using pop_pushed [of i cs d] assms by simp
qed

lemma pushValue_popValue:
  assumes "rec_value r = CArr vs" and "length cols = Suc (length vs)" and "setColumns en cols"
  shows "case fmPushValue en i v opts (Some r) (NewNode_state\<lparr>ns_columns := cols\<rparr>) of
      (Ok (RetPtr (Some r')), st) \<Rightarrow>
        (\<exists>st'. fmPopValue en [int (pushIndex i (rec_value r))] (Some r') (NewNode_state\<lparr>ns_columns := ns_columns st\<rparr>)
                = (Ok (RetPtr (Some r)), st')
           \<and> ns_columns st' = cols)
    | _ \<Rightarrow> False"
proof -
  obtain c cs where cols: "cols = c # cs" and len: "length cs = length vs"
    using assms(2) by (cases cols) auto
  define idx where "idx = pushIndex i (CArr vs)"
  have idx: "idx \<le> length vs"
    by (auto simp: idx_def pushIndex_def Let_def)
  obtain v1 ok where opts: "scanOpts opts (v, True) = (v1, ok)"
    by (cases "scanOpts opts (v, True)")
  define name where "name = (case optName opts of Some s \<Rightarrow> s | None \<Rightarrow> ''column'')"
  define w where "w = (if ok then v1 else CNil)"
  define t where "t = (\<lambda>c :: column. c\<lparr>cl_DataType := sqlDataType en (cl_DataType c)\<rparr>)"
  have t: "t c = c" "map t cs = cs"
    using setColumns_map [OF assms(3)] by (simp_all add: t_def cols)
  define ds where "ds = take idx cs @ t (en_columnOf en name v1) # drop idx cs"
  have ds: "map t (pushColumns en idx name v1 cols) = c # ds"
    using push_columns [OF len idx, of en name v1 c] t by (simp add: cols ds_def flip: take_map drop_map)
  have push: "fmPushValue en i v opts (Some r) (NewNode_state\<lparr>ns_columns := cols\<rparr>)
      = (Ok (RetPtr (Some (Rec (rec_key r) (CArr (take idx vs @ w # drop idx vs)) (rec_vars r)))),
         NewNode_state\<lparr>ns_isFirst := True, ns_columns := c # ds\<rparr>)"
    using ds by (simp add: fmPushValue_def opts onFirst_def SetResultColumns_def NewNode_state_def NewRecordVars_def
        assms(1) Let_def w_def flip: t_def idx_def name_def)
  have "map ((!) (c # ds)) (filter (\<lambda>j. j < length (c # ds)) (map Suc (keptPlaces 0 (Suc (length vs)) [int idx]))) = cs"
    unfolding ds_def by (rule pop_columns [OF len idx])
  then have "map (t \<circ> (!) (c # ds)) (filter (\<lambda>j. j < Suc (length ds)) (map Suc (keptPlaces 0 (Suc (length vs)) [int idx]))) = cs"
    using t by (simp flip: map_map)
  moreover have "map ((!) (take idx vs @ w # drop idx vs)) (keptPlaces 0 (Suc (length vs)) [int idx]) = vs"
    by (rule pop_pushed [OF idx])
  moreover have "int idx < int (length (take idx vs @ w # drop idx vs))" "length (take idx vs @ w # drop idx vs) = Suc (length vs)"
    using idx by simp_all
  ultimately show ?thesis
    unfolding push using t assms(1) idx
    by (cases r) (simp add: fmPopValue_def SetResultColumns_def NewNode_state_def ReplaceValue_def Let_def cols
        flip: idx_def t_def del: keptPlaces.simps)
qed


definition twoColumns :: "column list" where
  "twoColumns = map (\<lambda>n. \<lparr>cl_Name = n, cl_DataType = ''int64''\<rparr>) [''ROWNUM'', ''a'', ''b'']"


end
