(* ===== verification/TqlColumns.thy ===== *)
theory TqlColumns
  imports TqlStreams
begin

text \<open>
  Do the columns of a result describe its rows?  The functions of \<open>mods/tql/fm_monad.go\<close> that reshape records
  change the columns of the task when they receive their first record, each goroutine at its own time, and
  the sink takes its header from the columns it finds when its first record arrives.  A call has a type: it
  turns records of one shape into records of another.  In a task whose calls fit one another no function
  fails, and under every schedule the header has as many columns as every row has values.
\<close>

subsection \<open>Shapes\<close>

datatype shape = ScalarShape | ArrayShape nat

fun width :: "shape \<Rightarrow> nat" where
  "width ScalarShape = 1"
| "width (ArrayShape n) = n"

definition scalarCell :: "'a cell \<Rightarrow> bool" where
  "scalarCell v = (dataKey v \<and> (case v of CStr _ \<Rightarrow> True | CVal _ \<Rightarrow> True | CErr _ \<Rightarrow> True | _ \<Rightarrow> False))"

definition hasShape :: "shape \<Rightarrow> 'a tql_record \<Rightarrow> bool" where
  "hasShape s r =
     (dataKey (rec_key r)
      \<and> (case s of
           ScalarShape \<Rightarrow> scalarCell (rec_value r)
         | ArrayShape n \<Rightarrow> (case rec_value r of CArr vs \<Rightarrow> length vs = n \<and> list_all dataKey vs | _ \<Rightarrow> False)))"

lemma hasShape_tuple: "hasShape s r \<Longrightarrow> IsTuple r"
  by (simp add: hasShape_def IsTuple_dataKey)

lemma hasShape_control: "hasShape s r \<Longrightarrow> \<not> control r"
  using hasShape_tuple [of s r] by (simp add: control_def)

lemma hasShape_array: "hasShape (ArrayShape n) r \<Longrightarrow> \<exists>vs. rec_value r = CArr vs \<and> length vs = n \<and> list_all dataKey vs"
  by (auto simp: hasShape_def split: cell.splits)

lemma hasShape_rows: "hasShape s r \<Longrightarrow> \<exists>vs. recordRows r = [vs] \<and> length vs = width s"
  using hasShape_tuple [of s r]
  by (cases r; cases s) (auto simp: hasShape_def scalarCell_def split: cell.splits)

subsection \<open>The contract of a call\<close>

text \<open>
  A node with a type: \<open>entered\<close> says that it has adjusted the columns, \<open>keeps\<close> what it keeps between records.
\<close>

locale shaped_node =
  fixes fn :: "'a node_fn" and s s' :: shape
    and entered keeps :: "'a node_state \<Rightarrow> bool"
  assumes inv_start: "keeps NewNode_state"
    and entered_start: "entered NewNode_state \<Longrightarrow> width s' = width s"
    and inv_outer: "keeps (st\<lparr>ns_columns := cs\<rparr>) = keeps st" "keeps (st\<lparr>ns_told := rs\<rparr>) = keeps st"
    and entered_outer: "entered (st\<lparr>ns_columns := cs\<rparr>) = entered st" "entered (st\<lparr>ns_told := rs\<rparr>) = entered st"
    and eof_start: "nf_eof fn (NewNode_state\<lparr>ns_columns := cs\<rparr>) = (True, NewNode_state\<lparr>ns_columns := cs\<rparr>)"
    and eof_shaped: "keeps st \<Longrightarrow> ns_told st = [] \<Longrightarrow>
      \<exists>st'. nf_eof fn st = (True, st') \<and> keeps st' \<and> entered st' = entered st \<and> ns_columns st' = ns_columns st
          \<and> (ns_told st' = [] \<or> entered st) \<and> list_all (hasShape s') (ns_told st')"
    and eval_shaped: "hasShape s r \<Longrightarrow> keeps st \<Longrightarrow> ns_told st = [] \<Longrightarrow> entered st \<or> length (ns_columns st) = Suc (width s) \<Longrightarrow>
      \<exists>ret st'. nf_eval fn (Some r) st = (Ok ret, st') \<and> keeps st' \<and> entered st'
          \<and> (if entered st then ns_columns st' = ns_columns st else length (ns_columns st') = Suc (width s'))
          \<and> list_all (hasShape s') (ns_told st' @ fst (retNext ret))"

record 'a typed_node =
  tn_fn :: "'a node_fn"
  tn_out :: shape
  tn_entered :: "'a node_state \<Rightarrow> bool"
  tn_inv :: "'a node_state \<Rightarrow> bool"

fun typedChain :: "shape \<Rightarrow> 'a typed_node list \<Rightarrow> bool" where
  "typedChain s [] = True"
| "typedChain s (g # gs) = (shaped_node (tn_fn g) s (tn_out g) (tn_entered g) (tn_inv g) \<and> typedChain (tn_out g) gs)"

fun lastShape :: "shape \<Rightarrow> 'a typed_node list \<Rightarrow> shape" where
  "lastShape s [] = s"
| "lastShape s (g # gs) = lastShape (tn_out g) gs"

subsection \<open>The columns of a running chain\<close>

text \<open>
  \<open>live\<close>: the columns have been adjusted up to this place, so records may arrive here.  A node that is not live
  has received no record; the columns fit the shape before the first node that has not adjusted them.
\<close>

definition okRecs :: "shape \<Rightarrow> bool \<Rightarrow> 'a tql_record list \<Rightarrow> bool" where
  "okRecs s live inp = list_all (\<lambda>r. control r \<or> live \<and> hasShape s r) inp"

definition okProc :: "'a typed_node \<Rightarrow> bool \<Rightarrow> 'a proc \<Rightarrow> bool" where
  "okProc g live p =
     ((pr_phase p = Running \<or> pr_phase p = Leaving) \<and> ns_told (pr_state p) = [] \<and> ns_columns (pr_state p) = []
      \<and> (if live then tn_inv g (pr_state p) else pr_state p = NewNode_state))"

fun fitting :: "shape \<Rightarrow> 'a typed_node list \<Rightarrow> bool \<Rightarrow> column list \<Rightarrow> 'a tql_record list \<Rightarrow> 'a proc list \<Rightarrow> bool" where
  "fitting s [] live cols inp [] = (okRecs s live inp \<and> (live \<longrightarrow> length cols = Suc (width s)))"
| "fitting s (g # gs) live cols inp (p # ps) =
     (okRecs s live inp \<and> okProc g live p
      \<and> (live \<longrightarrow> tn_entered g (pr_state p) \<or> length cols = Suc (width s))
      \<and> fitting (tn_out g) gs (live \<and> tn_entered g (pr_state p)) cols (pr_pend p) ps)"
| "fitting _ _ _ _ _ _ = False"

fun liveEnd :: "'a typed_node list \<Rightarrow> bool \<Rightarrow> 'a proc list \<Rightarrow> bool" where
  "liveEnd (g # gs) live (p # ps) = liveEnd gs (live \<and> tn_entered g (pr_state p)) ps"
| "liveEnd _ live _ = live"

lemma newNode_empty [simp]: "ns_told NewNode_state = []" "ns_columns NewNode_state = []"
  by (simp_all add: NewNode_state_def)

lemma fitting_input: "fitting s gs live cols inp ps \<Longrightarrow> okRecs s live inp' \<Longrightarrow> fitting s gs live cols inp' ps"
  by (cases gs; cases ps) auto

lemma liveEnd_more: "liveEnd gs live ps \<Longrightarrow> live \<longrightarrow> live' \<Longrightarrow> liveEnd gs live' ps"
  by (induction gs live ps arbitrary: live' rule: liveEnd.induct) auto

lemma fitting_dead: "fitting s gs False cols inp ps \<Longrightarrow> fitting s gs False cols' inp ps"
  by (induction s gs False cols inp ps rule: fitting.induct) simp_all

lemma fitting_wake:
  "typedChain s gs \<Longrightarrow> fitting s gs False cols inp ps \<Longrightarrow> length cols' = Suc (width s) \<Longrightarrow> fitting s gs True cols' inp ps"
proof (induction s gs False cols inp ps rule: fitting.induct)
  case (2 s g gs cols inp p ps)
  have shaped: "shaped_node (tn_fn g) s (tn_out g) (tn_entered g) (tn_inv g)" and chain: "typedChain (tn_out g) gs"
    using "2.prems"(1) by simp_all
  have p: "okProc g False p" and behind: "fitting (tn_out g) gs False cols (pr_pend p) ps"
    using "2.prems"(2) by simp_all
  have "fitting (tn_out g) gs (tn_entered g (pr_state p)) cols' (pr_pend p) ps"
  proof (cases "tn_entered g (pr_state p)")
    case True
    then have "width (tn_out g) = width s"
      using p shaped_node.entered_start [OF shaped] by (simp add: okProc_def)
    then show ?thesis
      using 2(1) [OF _ chain] behind True "2.prems"(3) by simp
  next
    case False
    then show ?thesis
      using fitting_dead [OF behind] by simp
  qed
  moreover have "okProc g True p"
    using p shaped_node.inv_start [OF shaped] by (simp add: okProc_def)
  ultimately show ?case
    using "2.prems" by (auto simp: okRecs_def list_all_iff)
qed (auto simp: okRecs_def list_all_iff)

text \<open>What a node does that receives a record.\<close>

lemma receive_end_shaped:
  assumes shaped: "shaped_node fn s s' ent keeps" and r: "control r"
    and p: "okProc \<lparr>tn_fn = fn, tn_out = s', tn_entered = ent, tn_inv = keeps\<rparr> live p"
  shows "\<exists>p'. receive fn r cols p = (cols, p') \<and> okProc \<lparr>tn_fn = fn, tn_out = s', tn_entered = ent, tn_inv = keeps\<rparr> live p'
    \<and> ent (pr_state p') = ent (pr_state p) \<and> okRecs s' (live \<and> ent (pr_state p)) (pr_pend p')"
proof (cases live)
  case True
  let ?st = "(pr_state p)\<lparr>ns_columns := cols\<rparr>"
  have "keeps ?st" "ns_told ?st = []"
    using p True shaped_node.inv_outer [OF shaped] by (simp_all add: okProc_def)
  then obtain st' where st': "nf_eof fn ?st = (True, st')" "keeps st'" "ent st' = ent ?st" "ns_columns st' = cols"
      "ns_told st' = [] \<or> ent ?st" "list_all (hasShape s') (ns_told st')"
    using shaped_node.eof_shaped [OF shaped, of ?st] by auto
  then show ?thesis
    using p r True shaped_node.inv_outer [OF shaped] shaped_node.entered_outer [OF shaped]
    by (auto simp: receive_def told_def okProc_def okRecs_def control_def Let_def list_all_iff)
next
  case False
  then have "pr_state p = NewNode_state"
    using p by (simp add: okProc_def)
  then show ?thesis
    using p r False shaped_node.eof_start [OF shaped, of cols]
    by (auto simp: receive_def told_def okProc_def okRecs_def control_def Let_def NewNode_state_def)
qed

lemma receive_record_shaped:
  assumes shaped: "shaped_node fn s s' ent keeps" and r: "hasShape s r"
    and p: "okProc \<lparr>tn_fn = fn, tn_out = s', tn_entered = ent, tn_inv = keeps\<rparr> True p"
    and cols: "ent (pr_state p) \<or> length cols = Suc (width s)"
  shows "\<exists>cols' p'. receive fn r cols p = (cols', p') \<and> okProc \<lparr>tn_fn = fn, tn_out = s', tn_entered = ent, tn_inv = keeps\<rparr> True p'
    \<and> ent (pr_state p') \<and> okRecs s' True (pr_pend p')
    \<and> (if ent (pr_state p) then cols' = cols else length cols' = Suc (width s'))"
proof -
  let ?st = "(pr_state p)\<lparr>ns_columns := cols\<rparr>"
  have "keeps ?st" "ns_told ?st = []" "ent ?st = ent (pr_state p)" "ent ?st \<or> length (ns_columns ?st) = Suc (width s)"
    using p cols shaped_node.inv_outer [OF shaped] shaped_node.entered_outer [OF shaped] by (simp_all add: okProc_def)
  then obtain ret st' where "nf_eval fn (Some r) ?st = (Ok ret, st')" "keeps st'" "ent st'"
      "if ent (pr_state p) then ns_columns st' = cols else length (ns_columns st') = Suc (width s')"
      "list_all (hasShape s') (ns_told st' @ fst (retNext ret))"
    using shaped_node.eval_shaped [OF shaped r, of ?st] by auto
  moreover have "\<not> IsEOF r" "\<not> IsCircuitBreak r" "\<not> IsError r"
    using hasShape_tuple [OF r] by simp_all
  ultimately show ?thesis
    using p shaped_node.inv_outer [OF shaped] shaped_node.entered_outer [OF shaped]
    by (auto simp: receive_def told_def okProc_def okRecs_def Let_def list_all_iff split: prod.splits if_splits)
qed

text \<open>One record passes: the columns still fit, and a chain that is not live does not touch them.\<close>

lemma okRecs_tail: "okRecs s live (r # rs) = ((control r \<or> live \<and> hasShape s r) \<and> okRecs s live rs)"
  by (simp add: okRecs_def)

lemma hop_fitting:
  "hop fns cols inp ps out cols' inp' ps' \<Longrightarrow> fns = map tn_fn gs \<Longrightarrow> typedChain s gs \<Longrightarrow> fitting s gs live cols inp ps \<Longrightarrow>
     fitting s gs live cols' inp' ps' \<and> (live \<or> cols' = cols) \<and> (liveEnd gs live ps \<longrightarrow> liveEnd gs live ps')
     \<and> (case out of None \<Rightarrow> True | Some r \<Rightarrow> control r \<or> hasShape (lastShape s gs) r \<and> liveEnd gs live ps')"
proof (induction arbitrary: gs s live rule: hop.induct)
  case (pass p fn rec cols cols' p' fns inp ps)
  obtain g gs' where gs: "gs = g # gs'" "fn = tn_fn g" "fns = map tn_fn gs'"
    using pass.prems(1) by (cases gs) auto
  have shaped: "shaped_node fn s (tn_out g) (tn_entered g) (tn_inv g)" and chain: "typedChain (tn_out g) gs'"
    using pass.prems(2) gs by simp_all
  let ?g = "\<lparr>tn_fn = fn, tn_out = tn_out g, tn_entered = tn_entered g, tn_inv = tn_inv g\<rparr>"
  have g: "?g = g"
    using gs(2) by simp
  have fit: "control rec \<or> live \<and> hasShape s rec" "okRecs s live inp" "okProc g live p"
      "live \<longrightarrow> tn_entered g (pr_state p) \<or> length cols = Suc (width s)"
      "fitting (tn_out g) gs' (live \<and> tn_entered g (pr_state p)) cols (pr_pend p) ps"
    using pass.prems(3) by (simp_all add: gs okRecs_tail)
  have pend: "pr_pend p = []"
    using pass.hyps(1) by (simp add: ready_def)
  show ?case
  proof (cases "control rec")
    case True
    obtain p'' where "receive fn rec cols p = (cols, p'')" "okProc g live p''" "tn_entered g (pr_state p'') = tn_entered g (pr_state p)"
        "okRecs (tn_out g) (live \<and> tn_entered g (pr_state p)) (pr_pend p'')"
      using receive_end_shaped [OF shaped True, of live p cols] fit(3) by (auto simp: g)
    then show ?thesis
      using pass.hyps(2) fit fitting_input [OF fit(5)] by (auto simp: gs)
  next
    case False
    then have live: "live" "hasShape s rec"
      using fit(1) by simp_all
    obtain cols'' p'' where step: "receive fn rec cols p = (cols'', p'')" "okProc g True p''" "tn_entered g (pr_state p'')"
        "okRecs (tn_out g) True (pr_pend p'')"
        "if tn_entered g (pr_state p) then cols'' = cols else length cols'' = Suc (width (tn_out g))"
      using receive_record_shaped [OF shaped live(2), of p cols] fit(3,4) live(1) by (auto simp: g)
    have eq: "cols'' = cols'" "p'' = p'"
      using step(1) pass.hyps(2) by simp_all
    have "fitting (tn_out g) gs' True cols' (pr_pend p) ps"
      using fit(5) fitting_wake [OF chain, of cols "pr_pend p" ps cols'] step(5) live(1)
      by (cases "tn_entered g (pr_state p)") (simp_all add: eq)
    from fitting_input [OF this, of "pr_pend p'"] show ?thesis
      using step fit live by (auto simp: gs eq intro: liveEnd_more)
  qed
next
  case (deliver cols rec inp)
  then show ?case
    by (cases gs) (auto simp: okRecs_tail)
next
  case (behind fns cols p ps out cols' pend' ps' fn inp)
  obtain g gs' where gs: "gs = g # gs'" "fn = tn_fn g" "fns = map tn_fn gs'"
    using behind.prems(1) by (cases gs) auto
  have "fitting (tn_out g) gs' (live \<and> tn_entered g (pr_state p)) cols (pr_pend p) ps" "typedChain (tn_out g) gs'"
    using behind.prems(2,3) by (simp_all add: gs)
  from behind.IH [OF gs(3) this(2,1)] show ?case
    using behind.prems(3) by (auto simp: gs okProc_def split: option.splits)
qed

subsection \<open>The columns of a running task\<close>

inductive_cases hop_Cons: "hop (fn # fns) cols inp (p # ps) out cols' inp' ps'"

text \<open>The source is the first node; it sets the columns when the main goroutine's empty record arrives.\<close>

definition started :: "'a tql_record list \<Rightarrow> bool" where
  "started main = (main = [EofRecord] \<or> main = [])"

definition taskFits :: "shape \<Rightarrow> 'a typed_node list \<Rightarrow> 'a task \<Rightarrow> bool" where
  "taskFits s gs t =
     (\<exists>p ps. tk_procs t = p # ps \<and> pr_state p = NewNode_state \<and> (pr_phase p = Running \<or> pr_phase p = Leaving)
        \<and> (started (tk_main t) \<or> tk_main t = startInput \<and> pr_pend p = [])
        \<and> fitting s gs (started (tk_main t)) (tk_columns t) (pr_pend p) ps
        \<and> list_all (\<lambda>r. control r \<or> hasShape (lastShape s gs) r \<and> liveEnd gs (started (tk_main t)) ps) (tk_sink t))"

lemma source_receives:
  "pr_state p = NewNode_state \<Longrightarrow> receive (sourceNode cs recs) (NewRecord (CStr []) CNil) cols p = (cs, p\<lparr>pr_state := NewNode_state, pr_pend := recs\<rparr>)"
  "pr_state p = NewNode_state \<Longrightarrow> receive (sourceNode cs recs) EofRecord cols p
     = (cols, p\<lparr>pr_state := NewNode_state, pr_pend := [EofRecord], pr_phase := Leaving\<rparr>)"
  by (simp_all add: sourceNode_def receive_def told_def retNext_def noEOF_def NewRecord_def IsEOF_def IsCircuitBreak_def
      IsError_def EofRecord_def control_keys NewNode_state_def Let_def)

lemma startInput_started: "started startInput = False" "startInput = [NewRecord (CStr []) CNil, EofRecord]"
  by (simp_all add: started_def startInput_def)

lemma hop_input: "hop fns cols inp ps out cols' inp' ps' \<Longrightarrow> inp' = inp \<or> (\<exists>r. inp = r # inp')"
  by (induction rule: hop.induct) auto

lemma hop_taskFits:
  assumes hop: "hop (sourceNode cs recs # map tn_fn gs) (tk_columns t) (tk_main t) (tk_procs t) out cols' main' procs'"
    and chain: "typedChain s gs" and source: "length cs = Suc (width s)" "list_all (hasShape s) recs"
    and fits: "taskFits s gs t"
  shows "taskFits s gs (t\<lparr>tk_columns := cols', tk_main := main', tk_procs := procs', tk_sink := tk_sink t @ (case out of None \<Rightarrow> [] | Some r \<Rightarrow> [r])\<rparr>)"
proof -
  obtain p ps where t: "tk_procs t = p # ps" "pr_state p = NewNode_state" "pr_phase p = Running \<or> pr_phase p = Leaving"
      "started (tk_main t) \<or> tk_main t = startInput \<and> pr_pend p = []"
      "fitting s gs (started (tk_main t)) (tk_columns t) (pr_pend p) ps"
      "list_all (\<lambda>r. control r \<or> hasShape (lastShape s gs) r \<and> liveEnd gs (started (tk_main t)) ps) (tk_sink t)"
    using fits by (auto simp: taskFits_def)
  consider rec p' where "ready p" "receive (sourceNode cs recs) rec (tk_columns t) p = (cols', p')" "tk_main t = rec # main'"
      "out = None" "procs' = p' # ps"
    | pend' ps' where "hop (map tn_fn gs) (tk_columns t) (pr_pend p) ps out cols' pend' ps'" "main' = tk_main t"
      "procs' = p\<lparr>pr_pend := pend'\<rparr> # ps'"
    using hop unfolding t(1) by (elim hop_Cons) auto
  then show ?thesis
  proof cases
    case 1
    have phase: "pr_phase p = Running" and pend: "pr_pend p = []"
      using 1(1) by (simp_all add: ready_def)
    have recs: "okRecs s True recs"
      using source(2) by (auto simp: okRecs_def list_all_iff)
    show ?thesis
    proof (cases "started (tk_main t)")
      case False
      then have "rec = NewRecord (CStr []) CNil" "main' = [EofRecord]" "tk_main t = startInput"
        using t(4) 1(3) by (simp_all add: startInput_started)
      moreover have "fitting s gs True cs recs ps"
        using fitting_input [OF fitting_wake [OF chain _ source(1)] recs] t(5) False by simp
      ultimately show ?thesis
        using 1 t(6) source_receives(1) [OF t(2), of cs recs "tk_columns t"] phase False
        by (auto simp: taskFits_def started_def list_all_iff intro: liveEnd_more)
    next
      case True
      then have "rec = EofRecord" "main' = []"
        using 1(3) by (simp_all add: started_def)
      moreover have "fitting s gs True (tk_columns t) [EofRecord] ps"
        using fitting_input [OF t(5), of "[EofRecord]"] True by (simp add: okRecs_def)
      ultimately show ?thesis
        using 1 t(6) source_receives(2) [OF t(2), of cs recs "tk_columns t"] True
        by (auto simp: taskFits_def started_def)
    qed
  next
    case 2
    note passed = hop_fitting [OF 2(1) refl chain t(5)]
    have "pr_pend p = [] \<Longrightarrow> pend' = []"
      using hop_input [OF 2(1)] by auto
    then show ?thesis
      using passed 2 t
      by (auto simp: taskFits_def list_all_iff split: option.splits)
  qed
qed

lemma startProc_ok: "okProc g False startProc"
  by (simp add: okProc_def startProc_def)

lemma fitting_start: "fitting s gs False cols [] (startProcs (map tn_fn gs))"
  by (induction gs arbitrary: s) (simp_all add: startProcs_def okRecs_def startProc_ok, simp_all add: startProc_def)

lemma taskFits_start: "taskFits s gs (startTask (sourceNode cs recs # map tn_fn gs))"
  using fitting_start [of s gs "[]"]
  by (auto simp: taskFits_def startTask_def startInput_started startInput_def startProcs_def started_def startProc_def)

lemma task_taskFits:
  assumes "typedChain s gs" and "length cs = Suc (width s)" and "list_all (hasShape s) recs"
  shows "(task_step (sourceNode cs recs # map tn_fn gs))\<^sup>*\<^sup>* (startTask (sourceNode cs recs # map tn_fn gs)) t \<Longrightarrow> taskFits s gs t"
proof (induction rule: rtranclp_induct)
  case base
  show ?case
    by (rule taskFits_start)
next
  case (step t u)
  from step(2) show ?case
  proof (cases rule: task_step.cases)
    case (moves cols' main' procs')
    then show ?thesis
      using hop_taskFits [OF moves(2) assms step.IH] by simp
  next
    case (delivers rec cols' main' procs')
    then show ?thesis
      using hop_taskFits [OF delivers(2) assms step.IH] by simp
  qed
qed

lemma fitting_columns: "fitting s gs live cols inp ps \<Longrightarrow> liveEnd gs live ps \<Longrightarrow> length cols = Suc (width (lastShape s gs))"
  by (induction s gs live cols inp ps rule: fitting.induct) auto

lemma fitting_phases: "fitting s gs live cols inp ps \<Longrightarrow> list_all (\<lambda>p. pr_phase p = Running \<or> pr_phase p = Leaving) ps"
  by (induction s gs live cols inp ps rule: fitting.induct) (auto simp: okProc_def)

lemma control_rows: "control r \<Longrightarrow> recordRows r = [] \<and> \<not> IsError r"
  using control_distinct
  by (cases r; cases "rec_key r") (auto simp: control_def IsEOF_def IsCircuitBreak_def IsArray_def IsTuple_def IsError_def)

lemma taskFits_rows:
  assumes "taskFits s gs t"
  shows "list_all (\<lambda>row. length row = width (lastShape s gs) \<and> length (tk_columns t) = Suc (width (lastShape s gs))) (sinkRows (tk_sink t))"
    and "sinkError (tk_sink t) = None"
    and "list_all (\<lambda>p. pr_phase p = Running \<or> pr_phase p = Leaving) (tk_procs t)"
proof -
  obtain p ps where t: "tk_procs t = p # ps" "pr_phase p = Running \<or> pr_phase p = Leaving"
      "fitting s gs (started (tk_main t)) (tk_columns t) (pr_pend p) ps"
      "list_all (\<lambda>r. control r \<or> hasShape (lastShape s gs) r \<and> liveEnd gs (started (tk_main t)) ps) (tk_sink t)"
    using assms by (auto simp: taskFits_def)
  have rows: "length row = width (lastShape s gs) \<and> length (tk_columns t) = Suc (width (lastShape s gs))" if r: "r \<in> set (tk_sink t)" and row: "row \<in> set (recordRows r)" for r row
  proof -
    consider "control r" | "hasShape (lastShape s gs) r" "liveEnd gs (started (tk_main t)) ps"
      using t(4) r by (auto simp: list_all_iff)
    then show ?thesis
    proof cases
      case 1
      then show ?thesis
        using control_rows row by fastforce
    next
      case 2
      then show ?thesis
        using hasShape_rows [OF 2(1)] row fitting_columns [OF t(3) 2(2)] by auto
    qed
  qed
  then show "list_all (\<lambda>row. length row = width (lastShape s gs) \<and> length (tk_columns t) = Suc (width (lastShape s gs))) (sinkRows (tk_sink t))"
    by (auto simp: sinkRows_def list_all_iff)
  have "\<not> IsError r" if "r \<in> set (tk_sink t)" for r
    using t(4) that control_rows hasShape_tuple by (fastforce simp: list_all_iff)
  then have "filter IsError (tk_sink t) = []"
    by (simp add: filter_empty_conv)
  then show "sinkError (tk_sink t) = None"
    by (simp add: sinkError_def)
  show "list_all (\<lambda>p. pr_phase p = Running \<or> pr_phase p = Leaving) (tk_procs t)"
    using fitting_phases [OF t(3)] t(1,2) by simp
qed

end
