(* ===== verification/TqlTypes.thy ===== *)
theory TqlTypes
  imports TqlColumns
begin

text \<open>
  The types of the map functions.  Each function keeps the contract of a typed node of \<open>TqlColumns\<close>, and a chain
  of calls whose types fit one another gives a result whose header fits its rows.
\<close>

subsection \<open>Functions that leave the columns alone\<close>

definition limitKept :: "'a node_state \<Rightarrow> bool" where
  "limitKept st = (case ns_limit st of None \<Rightarrow> True | Some n \<Rightarrow> 0 \<le> n)"

lemma take_shaped: "0 \<le> argLimit args \<Longrightarrow> shaped_node (takeNode args) s s (\<lambda>_. True) limitKept"
  by unfold_locales
    (auto simp: takeNode_def fmTake_def takeLimits_def retNext_def noEOF_def limitKept_def NewNode_state_def
      hasShape_tuple split: option.splits)

lemma drop_shaped: "0 \<le> argLimit args \<Longrightarrow> shaped_node (dropNode args) s s (\<lambda>_. True) limitKept"
  by unfold_locales
    (auto simp: dropNode_def fmDrop_def takeLimits_def retNext_def noEOF_def limitKept_def NewNode_state_def
      hasShape_tuple split: option.splits)

interpretation filter_shaped: shaped_node "filterNode f" s s "\<lambda>_. True" "\<lambda>_. True"
  by unfold_locales (auto simp: filterNode_def fmFilter_def retNext_def noEOF_def NewNode_state_def hasShape_tuple)

definition filterKept :: "shape \<Rightarrow> 'a node_state \<Rightarrow> bool" where
  "filterKept s st =
     (case ns_filter st of
        None \<Rightarrow> True
      | Some bf \<Rightarrow> hashable (bf_last bf) \<and> (case bf_lastRecord bf of None \<Rightarrow> True | Some r \<Rightarrow> hasShape s r))"

lemma filterChanged_shaped:
  assumes "\<And>r. hashable (en_unbox en (f r))"
  shows "shaped_node (filterChangedNode en f (\<lambda>_. if w then [FaUseFirst True] else [])) s s (\<lambda>_. True) (filterKept s)"
proof
  fix r :: "'a tql_record" and st :: "'a node_state"
  let ?n = "filterChangedNode en f (\<lambda>_. if w then [FaUseFirst True] else [])"
  assume r: "hasShape s r" "filterKept s st" "ns_told st = []"
  show "\<exists>ret st'. nf_eval ?n (Some r) st = (Ok ret, st') \<and> filterKept s st' \<and> True
      \<and> (if True then ns_columns st' = ns_columns st else length (ns_columns st') = Suc (width s))
      \<and> list_all (hasShape s) (ns_told st' @ fst (retNext ret))"
    using r assms [of r] hasShape_tuple [OF r(1)]
    by (cases w; cases "ns_filter st")
      (auto simp: filterChangedNode_def fmFilterChanged_def changedFirst_def changedPlain_def cellEq_hashable filterKept_def
        retNext_def hasShape_tuple Let_def split: option.splits)
qed (auto simp: filterChangedNode_def filterKept_def changedEOF_def NewNode_state_def split: option.splits)

subsection \<open>Functions of keys and values\<close>

lemma reshaping_shaped:
  assumes "\<And>r st. hasShape s r \<Longrightarrow> ns_isFirst st \<or> length (ns_columns st) = Suc (width s) \<Longrightarrow>
      \<exists>r' st'. nf_eval fn (Some r) st = (Ok (RetPtr (Some r')), st') \<and> ns_told st' = ns_told st \<and> ns_isFirst st'
        \<and> (if ns_isFirst st then ns_columns st' = ns_columns st else length (ns_columns st') = Suc (width s'))
        \<and> hasShape s' r'"
    and "nf_eof fn = noEOF"
  shows "shaped_node fn s s' ns_isFirst (\<lambda>_. True)"
proof
  fix r :: "'a tql_record" and st :: "'a node_state"
  assume r: "hasShape s r" "ns_told st = []" "ns_isFirst st \<or> length (ns_columns st) = Suc (width s)"
  obtain r' st' where r': "nf_eval fn (Some r) st = (Ok (RetPtr (Some r')), st')" "ns_told st' = ns_told st" "ns_isFirst st'"
      "if ns_isFirst st then ns_columns st' = ns_columns st else length (ns_columns st') = Suc (width s')" "hasShape s' r'"
    using assms(1) [OF r(1,3)] by blast
  then show "\<exists>ret st'. nf_eval fn (Some r) st = (Ok ret, st') \<and> True \<and> ns_isFirst st'
      \<and> (if ns_isFirst st then ns_columns st' = ns_columns st else length (ns_columns st') = Suc (width s'))
      \<and> list_all (hasShape s') (ns_told st' @ fst (retNext ret))"
    using r(2) hasShape_tuple [OF r'(5)] by (intro exI [of _ "RetPtr (Some r')"] exI [of _ st']) (simp add: retNext_def)
qed (use assms(2) in \<open>simp_all add: noEOF_def NewNode_state_def\<close>)

lemmas reshape_simps = onFirst_def SetResultColumns_def Let_def ReplaceKeyValue_def ReplaceKey_def ReplaceValue_def NewRecordVars_def

fun pushed :: "shape \<Rightarrow> shape" where
  "pushed ScalarShape = ArrayShape 2"
| "pushed (ArrayShape n) = ArrayShape (Suc n)"

lemma scalar_data: "scalarCell v \<Longrightarrow> dataKey v"
  by (simp add: scalarCell_def)

lemma pushKey_shaped:
  assumes "\<And>r. dataKey (f r)"
  shows "shaped_node (pushKeyNode en f) s (pushed s) ns_isFirst (\<lambda>_. True)"
proof (rule reshaping_shaped)
  fix r :: "'a tql_record" and st :: "'a node_state"
  assume "hasShape s r" "ns_isFirst st \<or> length (ns_columns st) = Suc (width s)"
  then show "\<exists>r' st'. nf_eval (pushKeyNode en f) (Some r) st = (Ok (RetPtr (Some r')), st') \<and> ns_told st' = ns_told st \<and> ns_isFirst st'
        \<and> (if ns_isFirst st then ns_columns st' = ns_columns st else length (ns_columns st') = Suc (width (pushed s)))
        \<and> hasShape (pushed s) r'"
    using assms [of r]
    by (cases s) (auto simp: pushKeyNode_def fmPushKey_def reshape_simps hasShape_def scalarCell_def split: cell.splits)
qed (simp add: pushKeyNode_def)

lemma mapKey_shaped:
  assumes "\<And>r. dataKey (f r)"
  shows "shaped_node (mapKeyNode en f) s s ns_isFirst (\<lambda>_. True)"
proof (rule reshaping_shaped)
  fix r :: "'a tql_record" and st :: "'a node_state"
  assume "hasShape s r" "ns_isFirst st \<or> length (ns_columns st) = Suc (width s)"
  then show "\<exists>r' st'. nf_eval (mapKeyNode en f) (Some r) st = (Ok (RetPtr (Some r')), st') \<and> ns_told st' = ns_told st \<and> ns_isFirst st'
        \<and> (if ns_isFirst st then ns_columns st' = ns_columns st else length (ns_columns st') = Suc (width s))
        \<and> hasShape s r'"
    using assms [of r]
    by (cases s) (auto simp: mapKeyNode_def fmMapKey_def reshape_simps hasShape_def)
qed (simp add: mapKeyNode_def)

lemma popKey_shaped:
  assumes "case args of [] \<Rightarrow> 0 < n | i # _ \<Rightarrow> 0 \<le> i \<and> i < int n"
  shows "shaped_node (popKeyNode en args) (ArrayShape n) (ArrayShape (n - 1)) ns_isFirst (\<lambda>_. True)"
proof (rule reshaping_shaped)
  fix r :: "'a tql_record" and st :: "'a node_state"
  assume r: "hasShape (ArrayShape n) r" "ns_isFirst st \<or> length (ns_columns st) = Suc (width (ArrayShape n))"
  define i where "i = nat (case args of [] \<Rightarrow> 0 | i # _ \<Rightarrow> i)"
  have i: "i < n" "(case args of [] \<Rightarrow> 0 | i # _ \<Rightarrow> i) = int i"
    using assms by (auto simp: i_def split: list.splits)
  obtain vs where vs: "rec_value r = CArr vs" "length vs = n" "list_all dataKey vs"
    using hasShape_array [OF r(1)] by blast
  then have "dataKey (vs ! i)"
    using i by (simp add: list_all_length)
  show "\<exists>r' st'. nf_eval (popKeyNode en args) (Some r) st = (Ok (RetPtr (Some r')), st') \<and> ns_told st' = ns_told st \<and> ns_isFirst st'
        \<and> (if ns_isFirst st then ns_columns st' = ns_columns st else length (ns_columns st') = Suc (width (ArrayShape (n - 1))))
        \<and> hasShape (ArrayShape (n - 1)) r'"
    using vs r(2) i \<open>dataKey (vs ! i)\<close>
    by (auto simp: popKeyNode_def fmPopKey_def reshape_simps popKeyColumns_def hasShape_def list_all_take list_all_drop)
qed (simp add: popKeyNode_def)

lemma pushIndex_width: "hasShape s r \<Longrightarrow> pushIndex i (rec_value r) \<le> width s"
  by (cases s) (auto simp: hasShape_def scalarCell_def pushIndex_def Let_def split: cell.splits)

lemma pushColumns_length: "idx < length cols \<Longrightarrow> length (pushColumns en idx name v cols) = Suc (length cols)"
  by (simp add: pushColumns_def)

text \<open>Arguments that are no control strings.\<close>

definition dataArgs :: "'a cell \<Rightarrow> 'a opt list \<Rightarrow> bool" where
  "dataArgs v opts = (dataKey v \<and> list_all (\<lambda>a. case a of OptNull alt \<Rightarrow> dataKey alt | _ \<Rightarrow> True) opts)"

lemma scanOpts_data: "dataArgs v opts \<Longrightarrow> dataKey (fst (scanOpts opts (v, ok)))"
  by (induction opts "(v, ok)" arbitrary: v ok rule: scanOpts.induct) (simp_all add: dataArgs_def)

lemma scanOpts_dataArgs: "dataArgs v opts \<Longrightarrow> scanOpts opts (v, ok) = (v', ok') \<Longrightarrow> dataArgs v' opts"
  using scanOpts_data [of v opts ok] by (simp add: dataArgs_def)

lemma dataKey_nil [simp]: "dataKey CNil"
  by (simp add: dataKey_def)

lemma fmPushValue_shaped:
  assumes "hasShape s r" and "dataArgs v opts" and "ns_isFirst st \<or> length (ns_columns st) = Suc (width s)"
  shows "\<exists>r' st'. fmPushValue en i v opts (Some r) st = (Ok (RetPtr (Some r')), st') \<and> ns_told st' = ns_told st \<and> ns_isFirst st'
    \<and> (if ns_isFirst st then ns_columns st' = ns_columns st else length (ns_columns st') = Suc (width (pushed s)))
    \<and> hasShape (pushed s) r'"
proof -
  obtain v1 ok where scan: "scanOpts opts (v, True) = (v1, ok)"
    by (cases "scanOpts opts (v, True)")
  then have v1: "dataKey v1"
    using scanOpts_data [OF assms(2), of True] by simp
  let ?i = "pushIndex i (rec_value r)"
  have "?i \<le> width s"
    by (rule pushIndex_width [OF assms(1)])
  then have cols: "ns_isFirst st \<or> length (pushColumns en ?i name v1 (ns_columns st)) = Suc (Suc (width s))" for name
    using pushColumns_length [of ?i "ns_columns st" en name v1] assms(3) by auto
  show ?thesis
  proof (cases s)
    case ScalarShape
    then show ?thesis
      using assms(1) v1 cols
      by (auto simp: fmPushValue_def scan reshape_simps hasShape_def scalarCell_def split: cell.splits)
  next
    case (ArrayShape n)
    then obtain vs where "rec_value r = CArr vs" "length vs = n" "list_all dataKey vs"
      using hasShape_array assms(1) by blast
    then show ?thesis
      using assms(1) v1 cols ArrayShape
      by (auto simp: fmPushValue_def scan reshape_simps hasShape_def list_all_take list_all_drop)
  qed
qed

lemma pushValue_shaped:
  assumes "\<And>r. dataArgs (f r) (opts r)"
  shows "shaped_node (pushValueNode en i f opts) s (pushed s) ns_isFirst (\<lambda>_. True)"
proof (rule reshaping_shaped)
  fix r :: "'a tql_record" and st :: "'a node_state"
  assume r: "hasShape s r" "ns_isFirst st \<or> length (ns_columns st) = Suc (width s)"
  have "nf_eval (pushValueNode en i f opts) (Some r) = fmPushValue en i (f r) (opts r) (Some r)"
    by (simp add: pushValueNode_def)
  then show "\<exists>r' st'. nf_eval (pushValueNode en i f opts) (Some r) st = (Ok (RetPtr (Some r')), st')
        \<and> ns_told st' = ns_told st \<and> ns_isFirst st'
        \<and> (if ns_isFirst st then ns_columns st' = ns_columns st else length (ns_columns st') = Suc (width (pushed s)))
        \<and> hasShape (pushed s) r'"
    using fmPushValue_shaped [OF r(1) assms r(2), of en i] by (simp only:)
qed (simp add: pushValueNode_def)

lemma keptPlaces_range: "k \<in> set (keptPlaces j n xs) \<Longrightarrow> j \<le> k \<and> k < j + n"
proof (induction n arbitrary: j xs)
  case (Suc n)
  then show ?case
    by (fastforce split: list.splits if_splits)
qed simp

lemma popValue_shaped:
  assumes "indexes \<noteq> []" and "list_all (\<lambda>i. 0 \<le> i \<and> i < int n) indexes"
  shows "shaped_node (popValueNode en indexes) (ArrayShape n) (ArrayShape (length (keptPlaces 0 n indexes))) ns_isFirst (\<lambda>_. True)"
proof (rule reshaping_shaped)
  fix r :: "'a tql_record" and st :: "'a node_state"
  assume r: "hasShape (ArrayShape n) r" "ns_isFirst st \<or> length (ns_columns st) = Suc (width (ArrayShape n))"
  obtain vs where vs: "rec_value r = CArr vs" "length vs = n" "list_all dataKey vs"
    using hasShape_array [OF r(1)] by blast
  let ?kept = "keptPlaces 0 n indexes"
  have kept: "list_all dataKey (map ((!) vs) ?kept)"
    using keptPlaces_range [of _ 0 n indexes] vs by (auto simp: list_all_iff)
  have places: "filter (\<lambda>i. i < Suc n) (map Suc ?kept) = map Suc ?kept"
    using keptPlaces_range [of _ 0 n indexes] by (auto simp: filter_id_conv)
  have range: "\<not> (\<exists>i \<in> set indexes. i < 0 \<or> int n \<le> i)"
    using assms(2) by (auto simp: list_all_iff)
  show "\<exists>r' st'. nf_eval (popValueNode en indexes) (Some r) st = (Ok (RetPtr (Some r')), st') \<and> ns_told st' = ns_told st \<and> ns_isFirst st'
        \<and> (if ns_isFirst st then ns_columns st' = ns_columns st else length (ns_columns st') = Suc (width (ArrayShape (length ?kept))))
        \<and> hasShape (ArrayShape (length ?kept)) r'"
  proof (cases "ns_isFirst st")
    case True
    then show ?thesis
      using vs r(1) kept range assms(1)
      by (auto simp: popValueNode_def fmPopValue_def reshape_simps hasShape_def)
  next
    case False
    then obtain c cs where "ns_columns st = c # cs" "length cs = n"
      using r(2) by (cases "ns_columns st") auto
    then show ?thesis
      using vs r(1) kept range places assms(1) False
      by (auto simp: popValueNode_def fmPopValue_def reshape_simps hasShape_def)
  qed
qed (simp add: popValueNode_def)

fun mapped :: "int \<Rightarrow> shape \<Rightarrow> shape" where
  "mapped i ScalarShape = (if i = 0 then ScalarShape else ArrayShape 2)"
| "mapped i (ArrayShape n) = (if 0 \<le> i \<and> i < int n then ArrayShape n else ArrayShape (Suc n))"

lemma list_all_update: "list_all P xs \<Longrightarrow> P x \<Longrightarrow> list_all P (xs[i := x])"
  using set_update_subset_insert [of xs i x] by (auto simp: list_all_iff)

lemma fmMapValue_shaped:
  assumes "hasShape s r" and "dataArgs v opts" and "ns_isFirst st \<or> length (ns_columns st) = Suc (width s)"
    and "s = ScalarShape \<and> i = 0 \<Longrightarrow> scalarCell (fst (scanOpts opts (v, True)))"
  shows "\<exists>r' st'. fmMapValue en i v opts (Some r) st = (Ok (RetPtr (Some r')), st') \<and> ns_told st' = ns_told st \<and> ns_isFirst st'
    \<and> (if ns_isFirst st then ns_columns st' = ns_columns st else length (ns_columns st') = Suc (width (mapped i s)))
    \<and> hasShape (mapped i s) r'"
proof -
  obtain v1 ok where scan: "scanOpts opts (v, True) = (v1, ok)"
    by (cases "scanOpts opts (v, True)")
  have v1: "dataKey v1" "dataArgs v1 opts"
    using scanOpts_data [OF assms(2), of True] scanOpts_dataArgs [OF assms(2) scan] scan by simp_all
  note push = fmPushValue_shaped [OF assms(1) v1(2) assms(3), of en i]
  show ?thesis
  proof (cases s)
    case ScalarShape
    show ?thesis
    proof (cases "i = 0")
      case True
      have val: "scalarCell (rec_value r)" "dataKey (rec_key r)" "scalarCell v1"
        using assms(1,4) scan ScalarShape True by (simp_all add: hasShape_def)
      have "fmMapValue en i v opts (Some r) st
          = (Ok (RetPtr (Some (ReplaceValue r (if ok then v1 else rec_value r)))),
             if ns_isFirst st then st
             else (case optName opts of
                     None \<Rightarrow> st\<lparr>ns_isFirst := True\<rparr>
                   | Some name \<Rightarrow> st\<lparr>ns_isFirst := True, ns_columns := (ns_columns st)[1 := (ns_columns st ! 1)\<lparr>cl_Name := name\<rparr>]\<rparr>))"
        using val(1) True assms(3) ScalarShape
        by (cases "rec_value r"; cases "ns_isFirst st") (simp_all add: fmMapValue_def scan scalarCell_def Let_def split: option.splits)
      then show ?thesis
        using val True ScalarShape assms(3) by (cases "ns_isFirst st") (simp_all add: hasShape_def ReplaceValue_def split: option.splits)
    next
      case False
      then have "fmMapValue en i v opts (Some r) st = fmPushValue en i v1 opts (Some r) st" "pushed s = mapped i s"
        using assms(1) ScalarShape by (auto simp: fmMapValue_def scan hasShape_def scalarCell_def split: cell.splits)
      then show ?thesis
        using push by (simp only:)
    qed
  next
    case (ArrayShape n)
    then obtain vs where vs: "rec_value r = CArr vs" "length vs = n" "list_all dataKey vs"
      using hasShape_array assms(1) by blast
    show ?thesis
    proof (cases "0 \<le> i \<and> i < int n")
      case True
      have "fmMapValue en i v opts (Some r) st
          = (Ok (RetPtr (Some (ReplaceValue r (CArr (if ok then vs[nat i := v1] else vs))))),
             onFirst (\<lambda>st. case optName opts of
                        Some name \<Rightarrow> SetResultColumns en (mapColumns en (nat i) name v1 (ns_columns st)) st
                      | None \<Rightarrow> st) st)"
        using True vs by (simp add: fmMapValue_def scan)
      moreover have "nat i < n"
        using True by linarith
      then have "length (mapColumns en (nat i) name v1 (ns_columns st)) = length (ns_columns st)" if "\<not> ns_isFirst st" for name
        using assms(3) that ArrayShape True by (simp add: mapColumns_def)
      moreover have "list_all dataKey (vs[nat i := v1])"
        by (rule list_all_update [OF vs(3) v1(1)])
      ultimately show ?thesis
        using assms(1,3) vs True ArrayShape
        by (cases "ns_isFirst st") (simp_all add: reshape_simps hasShape_def split: option.splits)
    next
      case False
      then have "fmMapValue en i v opts (Some r) st = fmPushValue en i v1 opts (Some r) st" "pushed s = mapped i s"
        using vs ArrayShape by (auto simp: fmMapValue_def scan)
      then show ?thesis
        using push by (simp only:)
    qed
  qed
qed

lemma mapValue_shaped:
  assumes "\<And>r. dataArgs (f r) (opts r)"
    and "\<And>r. s = ScalarShape \<and> i = 0 \<Longrightarrow> scalarCell (fst (scanOpts (opts r) (f r, True)))"
  shows "shaped_node (mapValueNode en i f opts) s (mapped i s) ns_isFirst (\<lambda>_. True)"
proof (rule reshaping_shaped)
  fix r :: "'a tql_record" and st :: "'a node_state"
  assume r: "hasShape s r" "ns_isFirst st \<or> length (ns_columns st) = Suc (width s)"
  have "nf_eval (mapValueNode en i f opts) (Some r) = fmMapValue en i (f r) (opts r) (Some r)"
    by (simp add: mapValueNode_def)
  then show "\<exists>r' st'. nf_eval (mapValueNode en i f opts) (Some r) st = (Ok (RetPtr (Some r')), st')
        \<and> ns_told st' = ns_told st \<and> ns_isFirst st'
        \<and> (if ns_isFirst st then ns_columns st' = ns_columns st else length (ns_columns st') = Suc (width (mapped i s)))
        \<and> hasShape (mapped i s) r'"
    using fmMapValue_shaped [OF r(1) assms(1) r(2) assms(2), where en = en] by (simp only:)
qed (simp add: mapValueNode_def)

subsection \<open>TRANSPOSE\<close>

lemma transposeArgs_start:
  "transposeArgs args tr = Some tr' \<Longrightarrow> tr_headerNames tr' = tr_headerNames tr \<and> tr_cache tr' = tr_cache tr"
  by (induction args tr rule: transposeArgs.induct) auto

lemma splitPlaces_range: "splitPlaces tr n = (fixed, transposed) \<Longrightarrow> list_all (\<lambda>i. i < n) fixed \<and> list_all (\<lambda>i. i < n) transposed"
  by (auto simp: splitPlaces_def list_all_iff split: if_splits)

definition transposedShape :: "transposer \<Rightarrow> nat \<Rightarrow> shape" where
  "transposedShape tr n = ArrayShape (length (fst (splitPlaces tr n)) + (if tr_header tr then 2 else 1))"

definition transposerKept :: "transposer \<Rightarrow> nat \<Rightarrow> 'a node_state \<Rightarrow> bool" where
  "transposerKept tr0 n st =
     (case ns_transposer st of
        None \<Rightarrow> True
      | Some tr \<Rightarrow> tr_header tr = tr_header tr0 \<and> tr_cache tr = Some (splitPlaces tr0 n)
          \<and> list_all (\<lambda>h. dataKey (CStr h :: 'a cell)) (tr_headerNames tr))"

lemma transposeDo_shaped:
  fixes r :: "'a tql_record"
  assumes "hasShape (ArrayShape n) r" and "snd (splitPlaces tr0 n) \<noteq> []"
    and "tr_header tr = tr_header tr0" and "tr_cache tr = Some (splitPlaces tr0 n)"
    and "list_all (\<lambda>h. dataKey (CStr h :: 'a cell)) (tr_headerNames tr)"
  shows "\<exists>ret. transposeDo tr r = (Ok ret, tr) \<and> list_all (hasShape (transposedShape tr0 n)) (fst (retNext ret))"
proof -
  obtain vs where vs: "rec_value r = CArr vs" "length vs = n" "list_all dataKey vs" and key: "dataKey (rec_key r)"
    using hasShape_array [OF assms(1)] assms(1) by (auto simp: hasShape_def)
  obtain fixed transposed where split: "splitPlaces tr0 n = (fixed, transposed)"
    by (cases "splitPlaces tr0 n")
  then have range: "list_all (\<lambda>i. i < n) fixed" "list_all (\<lambda>i. i < n) transposed"
    using splitPlaces_range by blast+
  let ?fv = "map ((!) vs) fixed" and ?tv = "map ((!) vs) transposed"
  have places: "(valuesAt vs fixed :: (string, _) res) = Ok ?fv" "(valuesAt vs transposed :: (string, _) res) = Ok ?tv"
    using range vs(2) by (simp_all add: valuesAt_def list_all_iff)
  have dat: "list_all dataKey ?fv" "list_all dataKey ?tv"
    using range vs(2,3) by (auto simp: list_all_iff)
  define rs where "rs = map (\<lambda>(i, v). NewRecord (rec_key r) (CArr (?fv @ headerCell tr i @ [v]))) (zip transposed ?tv)"
  have "transposeDo tr r = (Ok (RetPtrs (map Some rs)), tr)"
    using assms(2,4) by (simp add: transposeDo_def vs(1) fixedAndTransposed_def split places rs_def comp_def case_prod_unfold)
  moreover have header: "list_all dataKey (headerCell tr i :: 'a cell list)" for i
    using assms(5) by (auto simp: headerCell_def list_all_length dataKey_def control_keys)
  have "dataKey v" if "(i, v) \<in> set (zip transposed ?tv)" for i v
    using set_zip_rightD [OF that] dat(2) by (auto simp: list_all_iff)
  then have "list_all (hasShape (transposedShape tr0 n)) rs"
    using dat(1) header key assms(3)
    by (auto simp: rs_def list_all_iff hasShape_def NewRecord_def transposedShape_def split headerCell_def)
  moreover from this have "list_all data rs"
    by (auto simp: list_all_iff data_def intro: hasShape_tuple)
  ultimately show ?thesis
    by (intro exI [of _ "RetPtrs (map Some rs)"]) (simp add: retNext_def toNext_data)
qed

lemma transposeFirst_shaped:
  fixes r :: "'a tql_record"
  assumes "hasShape (ArrayShape n) r" and "length (ns_columns st) = Suc n" and "tr_headerNames tr0 = []" and "tr_cache tr0 = None"
    and "\<And>v :: 'a cell. dataKey (CStr (en_show en v) :: 'a cell)"
  shows "\<exists>st' tr. transposeFirst en tr0 r st = Ok (st', tr) \<and> ns_told st' = ns_told st
    \<and> length (ns_columns st') = Suc (width (transposedShape tr0 n)) \<and> transposerKept tr0 n (st'\<lparr>ns_transposer := Some tr\<rparr>)"
proof -
  obtain vs where vs: "rec_value r = CArr vs" "length vs = n" "list_all dataKey vs"
    using hasShape_array [OF assms(1)] by blast
  obtain fixed transposed where split: "splitPlaces tr0 n = (fixed, transposed)"
    by (cases "splitPlaces tr0 n")
  then have range: "\<not> (\<exists>i \<in> set fixed. length (ns_columns st) \<le> i + 1)"
    using splitPlaces_range [OF split] assms(2) by (auto simp: list_all_iff)
  define names where "names = (if tr_header tr0 then map (\<lambda>v. case v of CStr s \<Rightarrow> s | _ \<Rightarrow> en_show en v) vs else [])"
  have names: "list_all (\<lambda>h. dataKey (CStr h :: 'a cell)) names"
    using vs(3) assms(5) by (auto simp: names_def list_all_iff split: cell.splits)
  define tr where "tr = tr0\<lparr>tr_headerNames := names, tr_cache := Some (fixed, transposed)\<rparr>"
  have tr1: "(if tr_header tr0 then tr0\<lparr>tr_headerNames := tr_headerNames tr0 @ map (\<lambda>v. case v of CStr s \<Rightarrow> s | _ \<Rightarrow> en_show en v) vs\<rparr>
      else tr0) = tr0\<lparr>tr_headerNames := names\<rparr>"
    using assms(3) by (simp add: names_def)
  have "splitPlaces (tr0\<lparr>tr_headerNames := names\<rparr>) n = (fixed, transposed)"
    using split by (auto simp: splitPlaces_def split: if_splits)
  then have cache: "fixedAndTransposed (tr0\<lparr>tr_headerNames := names\<rparr>) (length vs) = ((fixed, transposed), tr)"
    using assms(4) vs(2) by (simp add: fixedAndTransposed_def tr_def)
  obtain cols where cols: "(transposeColumns en tr fixed (ns_columns st) :: (string, _) res) = Ok cols"
      "length cols = Suc (width (transposedShape tr0 n))"
    using range assms(2) by (cases "ns_columns st") (auto simp: transposeColumns_def transposedShape_def split tr_def Let_def)
  have "transposeFirst en tr0 r st = Ok (SetResultColumns en cols st, tr)"
    unfolding transposeFirst_def vs(1) by (simp add: tr1 cache cols)
  then show ?thesis
    using cols(2) names by (simp add: SetResultColumns_def transposerKept_def tr_def split)
qed

lemma transpose_array_shaped:
  fixes en :: "'a env"
  assumes "transposeArgs args newTransposer = Some tr0" and "tr_fixedIndexes tr0 = [] \<or> tr_transposedIndexes tr0 = []"
    and "snd (splitPlaces tr0 n) \<noteq> []" and show_data: "\<And>v :: 'a cell. dataKey (CStr (en_show en v) :: 'a cell)"
  shows "shaped_node (transposeNode en args) (ArrayShape n) (transposedShape tr0 n) (\<lambda>st. ns_transposer st \<noteq> None) (transposerKept tr0 n)"
proof
  fix r :: "'a tql_record" and st :: "'a node_state"
  assume r: "hasShape (ArrayShape n) r" "transposerKept tr0 n st" "ns_told st = []"
    "ns_transposer st \<noteq> None \<or> length (ns_columns st) = Suc (width (ArrayShape n))"
  have start: "tr_headerNames tr0 = []" "tr_cache tr0 = None"
    using transposeArgs_start [OF assms(1)] by (simp_all add: newTransposer_def)
  show "\<exists>ret st'. nf_eval (transposeNode en args) (Some r) st = (Ok ret, st') \<and> transposerKept tr0 n st' \<and> ns_transposer st' \<noteq> None
      \<and> (if ns_transposer st \<noteq> None then ns_columns st' = ns_columns st
         else length (ns_columns st') = Suc (width (transposedShape tr0 n)))
      \<and> list_all (hasShape (transposedShape tr0 n)) (ns_told st' @ fst (retNext ret))"
  proof (cases "ns_transposer st")
    case None
    then have "length (ns_columns st) = Suc n"
      using r(4) by simp
    from transposeFirst_shaped [OF r(1) this start show_data] obtain st' tr where first:
        "transposeFirst en tr0 r st = Ok (st', tr)" "ns_told st' = ns_told st"
        "length (ns_columns st') = Suc (width (transposedShape tr0 n))" "transposerKept tr0 n (st'\<lparr>ns_transposer := Some tr\<rparr>)"
      by blast
    then have tr: "tr_header tr = tr_header tr0" "tr_cache tr = Some (splitPlaces tr0 n)"
        "list_all (\<lambda>h. dataKey (CStr h :: 'a cell)) (tr_headerNames tr)"
      by (simp_all add: transposerKept_def)
    obtain ret where "transposeDo tr r = (Ok ret, tr)" "list_all (hasShape (transposedShape tr0 n)) (fst (retNext ret))"
      using transposeDo_shaped [OF r(1) assms(3) tr] by blast
    then show ?thesis
      using None first assms(1,2) r(3)
      by (cases "tr_header tr") (auto simp: transposeNode_def fmTranspose_def retNext_def)
  next
    case (Some tr)
    then have tr: "tr_header tr = tr_header tr0" "tr_cache tr = Some (splitPlaces tr0 n)"
        "list_all (\<lambda>h. dataKey (CStr h :: 'a cell)) (tr_headerNames tr)"
      using r(2) by (simp_all add: transposerKept_def)
    obtain ret where "transposeDo tr r = (Ok ret, tr)" "list_all (hasShape (transposedShape tr0 n)) (fst (retNext ret))"
      using transposeDo_shaped [OF r(1) assms(3) tr] by blast
    then show ?thesis
      using Some r(2,3) by (auto simp: transposeNode_def fmTranspose_def transposerKept_def)
  qed
qed (simp_all add: transposeNode_def transposerKept_def noEOF_def NewNode_state_def)

text \<open>A value that is no array is its own transposition, as long as there is no header.\<close>

lemma transpose_scalar_shaped:
  assumes "transposeArgs args newTransposer = Some tr0" and "tr_fixedIndexes tr0 = [] \<or> tr_transposedIndexes tr0 = []"
    and "\<not> tr_header tr0"
  shows "shaped_node (transposeNode en args) ScalarShape ScalarShape (\<lambda>st. ns_transposer st \<noteq> None)
    (\<lambda>st. ns_transposer st = None \<or> ns_transposer st = Some tr0)"
proof
  fix r :: "'a tql_record" and st :: "'a node_state"
  assume r: "hasShape ScalarShape r" "ns_transposer st = None \<or> ns_transposer st = Some tr0" "ns_told st = []"
    "ns_transposer st \<noteq> None \<or> length (ns_columns st) = Suc (width ScalarShape)"
  have val: "scalarCell (rec_value r)"
    using r(1) by (simp add: hasShape_def)
  have trdo: "transposeDo tr0 r = (Ok (RetPtr (Some r)), tr0)"
    using val assms(3) by (cases "rec_value r") (simp_all add: transposeDo_def scalarCell_def)
  have first: "transposeFirst en tr0 r st = Ok (SetResultColumns en [hd (ns_columns st), en_columnAny en ''column1''] st, tr0)"
    if "ns_transposer st = None"
    using val assms(3) that r(4) by (cases "rec_value r"; cases "ns_columns st") (simp_all add: transposeFirst_def scalarCell_def)
  show "\<exists>ret st'. nf_eval (transposeNode en args) (Some r) st = (Ok ret, st')
      \<and> (ns_transposer st' = None \<or> ns_transposer st' = Some tr0) \<and> ns_transposer st' \<noteq> None
      \<and> (if ns_transposer st \<noteq> None then ns_columns st' = ns_columns st else length (ns_columns st') = Suc (width ScalarShape))
      \<and> list_all (hasShape ScalarShape) (ns_told st' @ fst (retNext ret))"
    using r first assms trdo hasShape_tuple [OF r(1)]
    by (cases "ns_transposer st") (auto simp: transposeNode_def fmTranspose_def retNext_def SetResultColumns_def)
qed (auto simp: transposeNode_def noEOF_def NewNode_state_def)

subsection \<open>The types of calls\<close>

inductive callType :: "'a env \<Rightarrow> shape \<Rightarrow> 'a node_fn \<Rightarrow> shape \<Rightarrow> bool" for en where
  take: "0 \<le> argLimit args \<Longrightarrow> callType en s (takeNode args) s"
| drop: "0 \<le> argLimit args \<Longrightarrow> callType en s (dropNode args) s"
| filter: "callType en s (filterNode f) s"
| filterChanged: "(\<And>r. hashable (en_unbox en (f r))) \<Longrightarrow> callType en s (filterChangedNode en f (\<lambda>_. if w then [FaUseFirst True] else [])) s"
| pushKey: "(\<And>r. dataKey (f r)) \<Longrightarrow> callType en s (pushKeyNode en f) (pushed s)"
| mapKey: "(\<And>r. dataKey (f r)) \<Longrightarrow> callType en s (mapKeyNode en f) s"
| popKey: "(case args of [] \<Rightarrow> 0 < n | i # _ \<Rightarrow> 0 \<le> i \<and> i < int n) \<Longrightarrow> callType en (ArrayShape n) (popKeyNode en args) (ArrayShape (n - 1))"
| pushValue: "(\<And>r. dataArgs (f r) (opts r)) \<Longrightarrow> callType en s (pushValueNode en i f opts) (pushed s)"
| popValue: "indexes \<noteq> [] \<Longrightarrow> list_all (\<lambda>i. 0 \<le> i \<and> i < int n) indexes \<Longrightarrow>
     callType en (ArrayShape n) (popValueNode en indexes) (ArrayShape (length (keptPlaces 0 n indexes)))"
| mapValue: "(\<And>r. dataArgs (f r) (opts r)) \<Longrightarrow>
     (\<And>r. s = ScalarShape \<and> i = 0 \<Longrightarrow> scalarCell (fst (scanOpts (opts r) (f r, True)))) \<Longrightarrow>
     callType en s (mapValueNode en i f opts) (mapped i s)"
| transposeArray: "transposeArgs args newTransposer = Some tr \<Longrightarrow> tr_fixedIndexes tr = [] \<or> tr_transposedIndexes tr = [] \<Longrightarrow>
     snd (splitPlaces tr n) \<noteq> [] \<Longrightarrow> (\<And>v :: 'a cell. dataKey (CStr (en_show en v) :: 'a cell)) \<Longrightarrow>
     callType en (ArrayShape n) (transposeNode en args) (transposedShape tr n)"
| transposeScalar: "transposeArgs args newTransposer = Some tr \<Longrightarrow> tr_fixedIndexes tr = [] \<or> tr_transposedIndexes tr = [] \<Longrightarrow>
     \<not> tr_header tr \<Longrightarrow> callType en ScalarShape (transposeNode en args) ScalarShape"

inductive chainType :: "'a env \<Rightarrow> shape \<Rightarrow> 'a node_fn list \<Rightarrow> shape \<Rightarrow> bool" for en where
  nil: "chainType en s [] s"
| call: "callType en s fn s1 \<Longrightarrow> chainType en s1 fns s2 \<Longrightarrow> chainType en s (fn # fns) s2"

lemma callType_shaped: "callType en s fn s' \<Longrightarrow> \<exists>entered keeps. shaped_node fn s s' entered keeps"
proof (induction rule: callType.induct)
  case (take args s)
  then show ?case
    using take_shaped by blast
next
  case (drop args s)
  then show ?case
    using drop_shaped by blast
next
  case (filter s f)
  show ?case
    using filter_shaped.shaped_node_axioms by blast
next
  case (filterChanged f s w)
  then show ?case
    using filterChanged_shaped by blast
next
  case (pushKey f s)
  then show ?case
    using pushKey_shaped by blast
next
  case (mapKey f s)
  then show ?case
    using mapKey_shaped by blast
next
  case (popKey args n)
  then show ?case
    using popKey_shaped by blast
next
  case (pushValue f opts s i)
  then show ?case
    using pushValue_shaped by blast
next
  case (popValue indexes n)
  then show ?case
    using popValue_shaped by blast
next
  case (mapValue f opts s i)
  then show ?case
    using mapValue_shaped [of f opts s i en] by blast
next
  case (transposeArray args tr n)
  then show ?case
    using transpose_array_shaped by blast
next
  case (transposeScalar args tr)
  then show ?case
    using transpose_scalar_shaped by blast
qed

lemma chainType_typed:
  "chainType en s fns s' \<Longrightarrow> \<exists>gs. map tn_fn gs = fns \<and> typedChain s gs \<and> lastShape s gs = s'"
proof (induction rule: chainType.induct)
  case (nil s)
  then show ?case
    by (intro exI [of _ "[]"]) simp
next
  case (call s fn s1 fns s2)
  obtain entered keeps where "shaped_node fn s s1 entered keeps"
    using callType_shaped call.hyps(1) by blast
  moreover obtain gs where "map tn_fn gs = fns" "typedChain s1 gs" "lastShape s1 gs = s2"
    using call.IH by blast
  ultimately show ?case
    by (intro exI [of _ "\<lparr>tn_fn = fn, tn_out = s1, tn_entered = entered, tn_inv = keeps\<rparr> # gs"]) simp
qed


text \<open>A source of two columns, a key pushed, one record taken.\<close>

definition typedTask :: "nat node_fn list" where
  "typedTask = [pushKeyNode plainEnv (\<lambda>_. CVal 9), takeNode [1]]"


text \<open>
  Calls without a type: \<open>FLATTEN\<close> leaves the columns of the array it takes apart, and \<open>TRANSPOSE\<close> with all places
  fixed adds a column for a value it does not tell.
\<close>

lemma columns_misfit:
  "(case fmFlatten (Some (row 1 [CVal 5, CVal 6])) (NewNode_state\<lparr>ns_columns := twoColumns\<rparr>) of
      (Ok ret, st) \<Rightarrow> toNext (case ret of RetPtrs rs \<Rightarrow> rs | _ \<Rightarrow> []) = ([NewRecord (CVal 1) (CVal 5), NewRecord (CVal 1) (CVal 6)], False)
        \<and> ns_columns st = twoColumns
    | _ \<Rightarrow> False)
   \<and> (case fmTranspose plainEnv [TrFixed [0, 1]] (Some (row 1 [CVal 5, CVal 6])) (NewNode_state\<lparr>ns_columns := twoColumns\<rparr>) of
      (Ok (RetPtr (Some r)), st) \<Rightarrow> r = row 1 [CVal 5, CVal 6] \<and> length (ns_columns st) = 4
    | _ \<Rightarrow> False)"
  by (simp add: fmFlatten_def RecArray_def IsArray_def IsTuple_def flattenValues_def row_def NewRecord_def IsEOF_def
      IsCircuitBreak_def fmTranspose_def newTransposer_def transposeFirst_def fixedAndTransposed_def splitPlaces_def
      transposeColumns_def transposeDo_def valuesAt_def NewNode_state_def twoColumns_def SetResultColumns_def
      enumerate_eq_zip numeral_2_eq_2 upt_rec)

end
