(* ===== verification/AppendWorker.thy ===== *)
theory AppendWorker
  imports GoText
begin

text \<open>
  The append workers, \<open>spi/append_worker.go\<close>: for each table one goroutine that takes rows from a channel and
  hands them to the appender of the database; clients share the worker of a table and count their references;
  a flusher stops idle workers, and others stop them by name.  The program is a transition function on the
  whole system: an action is an atomic step of one goroutine, and any interleaving of actions is a run.

  A worker is known by its place in a list, for clients keep their pointer after it has left the table of
  appenders.  The rows sent to a worker and the rows handed to its appender are recorded.  Table names are
  ASCII.  Connecting to the database succeeds or fails as the action says; what the appender does with a
  row, logging, and the end of the process (\<open>StopAppendWorkers\<close>) are left out.
\<close>

subsection \<open>State\<close>

datatype chan_state = ChanOpen | ChanClosed | ChanNil

datatype runner = Looping | Draining | Exited

record 'r worker =
  wk_table :: string
  wk_lastTime :: int
  wk_refCount :: int
  wk_appendC :: "'r list"
  wk_chan :: chan_state
  wk_stopped :: bool
  wk_run :: runner
  wk_sent :: "'r list"
  wk_appended :: "'r list"
  wk_closed :: bool

text \<open>A client has no worker, has one, is about to send a row on the channel it has read, or will never go on.\<close>

datatype 'r appender_client = NoWorker | Has nat | Sending nat 'r | Stuck nat | Panicked nat

fun clientWorker :: "'r appender_client \<Rightarrow> nat option" where
  "clientWorker NoWorker = None"
| "clientWorker (Has i) = Some i"
| "clientWorker (Sending i v) = Some i"
| "clientWorker (Stuck i) = Some i"
| "clientWorker (Panicked i) = Some i"

text \<open>
  The goroutine that holds \<open>appendersLock\<close> to stop workers: those it has still to visit, whether it asks if they
  are idle, the names it is going to delete, and its place in \<open>Stop\<close>.
\<close>

datatype stop_place = StopSignal | StopWait | StopClose | StopNil | StopAppender

record stopper =
  st_todo :: "(string \<times> nat) list"
  st_idleOnly :: bool
  st_deleting :: "string list"
  st_place :: "stop_place option"

record 'r appenders =
  ap_workers :: "'r worker list"
  ap_table :: "(string \<times> nat) list"
  ap_lock :: "stopper option"
  ap_clients :: "'r appender_client list"

definition startAppenders :: "nat \<Rightarrow> 'r appenders" where
  "startAppenders n = \<lparr>ap_workers = [], ap_table = [], ap_lock = None, ap_clients = replicate n NoWorker\<rparr>"

definition updWorker :: "nat \<Rightarrow> ('r worker \<Rightarrow> 'r worker) \<Rightarrow> 'r appenders \<Rightarrow> 'r appenders" where
  "updWorker i f s = s\<lparr>ap_workers := (ap_workers s)[i := f (ap_workers s ! i)]\<rparr>"

definition setClient :: "nat \<Rightarrow> 'r appender_client \<Rightarrow> 'r appenders \<Rightarrow> 'r appenders" where
  "setClient c x s = s\<lparr>ap_clients := (ap_clients s)[c := x]\<rparr>"

text \<open>The channel of a worker holds 1000 rows.\<close>

definition chanCap :: nat where
  "chanCap = 1000"

subsection \<open>Clients\<close>

definition newWorker :: "string \<Rightarrow> int \<Rightarrow> 'r worker" where
  "newWorker table now = \<lparr>wk_table = table, wk_lastTime = now, wk_refCount = 1, wk_appendC = [], wk_chan = ChanOpen,
     wk_stopped = False, wk_run = Looping, wk_sent = [], wk_appended = [], wk_closed = False\<rparr>"

definition GetAppendWorker :: "nat \<Rightarrow> string \<Rightarrow> int \<Rightarrow> bool \<Rightarrow> 'r appenders \<Rightarrow> 'r appenders option" where
  "GetAppendWorker c table now connects s =
     (let name = map toLowerAscii table in
      if ap_lock s \<noteq> None \<or> \<not> (c < length (ap_clients s) \<and> ap_clients s ! c = NoWorker) then None
      else case map_of (ap_table s) name of
        Some i \<Rightarrow> Some (setClient c (Has i) (updWorker i (\<lambda>w. w\<lparr>wk_lastTime := now, wk_refCount := wk_refCount w + 1\<rparr>) s))
      | None \<Rightarrow>
          (if connects
           then Some (setClient c (Has (length (ap_workers s)))
                  (s\<lparr>ap_workers := ap_workers s @ [newWorker name now], ap_table := (name, length (ap_workers s)) # ap_table s\<rparr>))
           else Some s))"

text \<open>
  \<open>Append\<close>: the channel is read, then the row is sent.  On a nil channel the client waits forever, on a closed
  one it panics, on a full one it waits.
\<close>

definition readChan :: "nat \<Rightarrow> 'r \<Rightarrow> 'r appenders \<Rightarrow> 'r appenders option" where
  "readChan c v s =
     (if c < length (ap_clients s)
      then (case ap_clients s ! c of
              Has i \<Rightarrow> Some (setClient c (if wk_chan (ap_workers s ! i) = ChanNil then Stuck i else Sending i v) s)
            | _ \<Rightarrow> None)
      else None)"

definition sendRow :: "nat \<Rightarrow> 'r appenders \<Rightarrow> 'r appenders option" where
  "sendRow c s =
     (if c < length (ap_clients s)
      then (case ap_clients s ! c of
              Sending i v \<Rightarrow>
                (if wk_chan (ap_workers s ! i) \<noteq> ChanOpen then Some (setClient c (Panicked i) s)
                 else if length (wk_appendC (ap_workers s ! i)) < chanCap
                 then Some (setClient c (Has i)
                        (updWorker i (\<lambda>w. w\<lparr>wk_appendC := wk_appendC w @ [v], wk_sent := wk_sent w @ [v]\<rparr>) s))
                 else None)
            | _ \<Rightarrow> None)
      else None)"

definition CloseAppender :: "nat \<Rightarrow> 'r appenders \<Rightarrow> 'r appenders option" where
  "CloseAppender c s =
     (if c < length (ap_clients s)
      then (case ap_clients s ! c of
              Has i \<Rightarrow> Some (setClient c NoWorker (updWorker i (\<lambda>w. w\<lparr>wk_refCount := wk_refCount w - 1\<rparr>) s))
            | _ \<Rightarrow> None)
      else None)"

subsection \<open>The goroutine of a worker\<close>

definition appendHead :: "'r worker \<Rightarrow> 'r worker" where
  "appendHead w = w\<lparr>wk_appendC := tl (wk_appendC w), wk_appended := wk_appended w @ [hd (wk_appendC w)]\<rparr>"

text \<open>The loop takes a row or the signal, whichever \<open>select\<close> picks; after the signal it drains the channel.\<close>

definition takeRow :: "nat \<Rightarrow> 'r appenders \<Rightarrow> 'r appenders option" where
  "takeRow i s =
     (if i < length (ap_workers s) \<and> wk_run (ap_workers s ! i) \<noteq> Exited \<and> wk_appendC (ap_workers s ! i) \<noteq> []
      then Some (updWorker i appendHead s) else None)"

definition takeSignal :: "nat \<Rightarrow> 'r appenders \<Rightarrow> 'r appenders option" where
  "takeSignal i s =
     (if i < length (ap_workers s) \<and> wk_run (ap_workers s ! i) = Looping \<and> wk_stopped (ap_workers s ! i)
      then Some (updWorker i (\<lambda>w. w\<lparr>wk_run := Draining\<rparr>) s) else None)"

definition leaveLoop :: "nat \<Rightarrow> 'r appenders \<Rightarrow> 'r appenders option" where
  "leaveLoop i s =
     (if i < length (ap_workers s) \<and> wk_run (ap_workers s ! i) = Draining \<and> wk_appendC (ap_workers s ! i) = []
      then Some (updWorker i (\<lambda>w. w\<lparr>wk_run := Exited\<rparr>) s) else None)"

subsection \<open>Stopping\<close>

definition maxIdle :: int where
  "maxIdle = 5 * 10 ^ 9"

definition takeLock :: "(string \<times> nat) list \<Rightarrow> bool \<Rightarrow> 'r appenders \<Rightarrow> 'r appenders option" where
  "takeLock todo idleOnly s =
     (if ap_lock s = None
      then Some (s\<lparr>ap_lock := Some \<lparr>st_todo = todo, st_idleOnly = idleOnly, st_deleting = [], st_place = None\<rparr>\<rparr>)
      else None)"

text \<open>Ranging over the map visits its entries in some order.\<close>

definition isOrder :: "(string \<times> nat) list \<Rightarrow> (string \<times> nat) list \<Rightarrow> bool" where
  "isOrder order table = (set order = set table \<and> length order = length table)"

definition idleCheck :: "(string \<times> nat) list \<Rightarrow> 'r appenders \<Rightarrow> 'r appenders option" where
  "idleCheck order s = (if isOrder order (ap_table s) then takeLock order True s else None)"

definition flushAll :: "(string \<times> nat) list \<Rightarrow> 'r appenders \<Rightarrow> 'r appenders option" where
  "flushAll order s = (if isOrder order (ap_table s) then takeLock order False s else None)"

definition flushTables :: "string list \<Rightarrow> 'r appenders \<Rightarrow> 'r appenders option" where
  "flushTables tables s =
     takeLock (concat (map (\<lambda>n. case map_of (ap_table s) n of Some i \<Rightarrow> [(n, i)] | None \<Rightarrow> []) (map (map toLowerAscii) tables))) False s"

definition StopAppendWorker :: "string \<Rightarrow> 'r appenders \<Rightarrow> 'r appenders option" where
  "StopAppendWorker table s = flushTables [table] s"

text \<open>The next worker is stopped, or left alone; after the last one the names are deleted and the lock is free.\<close>

definition visitNext :: "int \<Rightarrow> 'r appenders \<Rightarrow> 'r appenders option" where
  "visitNext now s =
     (case ap_lock s of
        Some st \<Rightarrow>
          (if st_place st \<noteq> None then None
           else case st_todo st of
             [] \<Rightarrow> Some (s\<lparr>ap_table := filter (\<lambda>(n, i). n \<notin> set (st_deleting st)) (ap_table s), ap_lock := None\<rparr>)
           | (n, i) # rest \<Rightarrow>
               (if \<not> st_idleOnly st
                   \<or> maxIdle < now - wk_lastTime (ap_workers s ! i) \<and> wk_refCount (ap_workers s ! i) = 0
                then Some (s\<lparr>ap_lock := Some (st\<lparr>st_place := Some StopSignal\<rparr>)\<rparr>)
                else Some (s\<lparr>ap_lock := Some (st\<lparr>st_todo := rest\<rparr>)\<rparr>)))
      | None \<Rightarrow> None)"

text \<open>\<open>Stop\<close>, place by place, and where it goes on: closing a closed channel would panic.\<close>

fun stopWorker :: "stop_place \<Rightarrow> 'r worker \<Rightarrow> ('r worker \<times> stop_place option) option" where
  "stopWorker StopSignal w =
     (if wk_chan w = ChanNil then Some (w, Some StopAppender)
      else if wk_stopped w then None
      else Some (w\<lparr>wk_stopped := True\<rparr>, Some StopWait))"
| "stopWorker StopWait w = (if wk_run w = Exited then Some (w, Some StopClose) else None)"
| "stopWorker StopClose w = Some (w\<lparr>wk_chan := ChanClosed\<rparr>, Some StopNil)"
| "stopWorker StopNil w = Some (w\<lparr>wk_chan := ChanNil\<rparr>, Some StopAppender)"
| "stopWorker StopAppender w = Some (w\<lparr>wk_closed := True\<rparr>, None)"

definition stopStep :: "'r appenders \<Rightarrow> 'r appenders option" where
  "stopStep s =
     (case ap_lock s of
        Some st \<Rightarrow>
          (case (st_place st, st_todo st) of
             (Some place, (n, i) # rest) \<Rightarrow>
               (case stopWorker place (ap_workers s ! i) of
                  Some (w, Some place') \<Rightarrow> Some (updWorker i (\<lambda>_. w) (s\<lparr>ap_lock := Some (st\<lparr>st_place := Some place'\<rparr>)\<rparr>))
                | Some (w, None) \<Rightarrow>
                    Some (updWorker i (\<lambda>_. w)
                      (s\<lparr>ap_lock := Some (st\<lparr>st_todo := rest, st_deleting := st_deleting st @ [n], st_place := None\<rparr>)\<rparr>))
                | None \<Rightarrow> None)
           | _ \<Rightarrow> None)
      | None \<Rightarrow> None)"

subsection \<open>Runs\<close>

datatype 'r action =
    Get nat string int bool | Read nat 'r | Send nat | Release nat
  | TakeRow nat | TakeSignal nat | LeaveLoop nat
  | IdleCheck "(string \<times> nat) list" | FlushAll "(string \<times> nat) list" | FlushTables "string list" | StopByName string
  | Visit int | StopGoesOn

fun act :: "'r action \<Rightarrow> 'r appenders \<Rightarrow> 'r appenders option" where
  "act (Get c table now connects) s = GetAppendWorker c table now connects s"
| "act (Read c v) s = readChan c v s"
| "act (Send c) s = sendRow c s"
| "act (Release c) s = CloseAppender c s"
| "act (TakeRow i) s = takeRow i s"
| "act (TakeSignal i) s = takeSignal i s"
| "act (LeaveLoop i) s = leaveLoop i s"
| "act (IdleCheck order) s = idleCheck order s"
| "act (FlushAll order) s = flushAll order s"
| "act (FlushTables tables) s = flushTables tables s"
| "act (StopByName table) s = StopAppendWorker table s"
| "act (Visit now) s = visitNext now s"
| "act StopGoesOn s = stopStep s"

fun run :: "'r action list \<Rightarrow> 'r appenders \<Rightarrow> 'r appenders option" where
  "run [] s = Some s"
| "run (a # as) s = (case act a s of Some s' \<Rightarrow> run as s' | None \<Rightarrow> None)"

text \<open>The actions of clients, and those that stop workers whether they are used or not.\<close>

fun clientAction :: "'r action \<Rightarrow> bool" where
  "clientAction (Get c table now connects) = True"
| "clientAction (Read c v) = True"
| "clientAction (Send c) = True"
| "clientAction (Release c) = True"
| "clientAction _ = False"

fun forcedStop :: "'r action \<Rightarrow> bool" where
  "forcedStop (FlushAll order) = True"
| "forcedStop (FlushTables tables) = True"
| "forcedStop (StopByName table) = True"
| "forcedStop _ = False"

end
