(* ===== verification/AppendWorkerProps.thy ===== *)
theory AppendWorkerProps
  imports AppendWorker
begin

text \<open>
  What holds in every run of the append workers: rows keep their order, a table has one open worker at a
  time, and a worker stopped for being idle has handed over every row it was sent.
\<close>

subsection \<open>Invariants of runs\<close>

text \<open>A property of states that the actions of one kind keep.\<close>

locale run_invariant =
  fixes allowed :: "'r action \<Rightarrow> bool" and good :: "'r appenders \<Rightarrow> bool"
  assumes good_start: "good (startAppenders n)"
    and good_act: "good s \<Longrightarrow> allowed a \<Longrightarrow> act a s = Some s' \<Longrightarrow> good s'"
begin

lemma good_run: "run as s = Some s' \<Longrightarrow> list_all allowed as \<Longrightarrow> good s \<Longrightarrow> good s'"
  by (induction as s rule: run.induct) (auto split: option.splits intro: good_act)

lemma good_reached: "run as (startAppenders n) = Some s \<Longrightarrow> list_all allowed as \<Longrightarrow> good s"
  using good_run good_start by blast

end

lemmas act_defs = GetAppendWorker_def readChan_def sendRow_def CloseAppender_def takeRow_def takeSignal_def leaveLoop_def
  idleCheck_def flushAll_def flushTables_def StopAppendWorker_def takeLock_def visitNext_def stopStep_def

lemmas act_splits = if_splits option.splits appender_client.splits list.splits prod.splits stop_place.splits

lemma updWorker_simps [simp]:
  "ap_workers (updWorker i f s) = (ap_workers s)[i := f (ap_workers s ! i)]" "ap_table (updWorker i f s) = ap_table s"
  "ap_lock (updWorker i f s) = ap_lock s" "ap_clients (updWorker i f s) = ap_clients s"
  by (simp_all add: updWorker_def)

lemma setClient_simps [simp]:
  "ap_workers (setClient c x s) = ap_workers s" "ap_table (setClient c x s) = ap_table s"
  "ap_lock (setClient c x s) = ap_lock s" "ap_clients (setClient c x s) = (ap_clients s)[c := x]"
  by (simp_all add: setClient_def)

subsection \<open>Rows keep their order\<close>

definition inOrder :: "'r worker \<Rightarrow> bool" where
  "inOrder w = (wk_sent w = wk_appended w @ wk_appendC w)"

lemma list_all_put: "list_all P xs \<Longrightarrow> (i < length xs \<Longrightarrow> P y) \<Longrightarrow> list_all P (xs[i := y])"
  by (cases "i < length xs") (auto simp: list_all_length nth_list_update)

lemma list_all_at: "list_all P xs \<Longrightarrow> i < length xs \<Longrightarrow> P (xs ! i)"
  by (simp add: list_all_length)

lemma act_workers:
  assumes "act a s = Some s'" and "list_all P (ap_workers s)"
    and "\<And>w now. P w \<Longrightarrow> P (w\<lparr>wk_lastTime := now, wk_refCount := wk_refCount w + 1\<rparr>)"
    and "\<And>w. P w \<Longrightarrow> P (w\<lparr>wk_refCount := wk_refCount w - 1\<rparr>)"
    and "\<And>name now. P (newWorker name now)"
    and "\<And>w v. P w \<Longrightarrow> P (w\<lparr>wk_appendC := wk_appendC w @ [v], wk_sent := wk_sent w @ [v]\<rparr>)"
    and "\<And>w. P w \<Longrightarrow> wk_appendC w \<noteq> [] \<Longrightarrow> P (appendHead w)"
    and "\<And>w r. P w \<Longrightarrow> P (w\<lparr>wk_run := r\<rparr>)" and stop: "\<And>w p w' q. stopWorker p w = Some (w', q) \<Longrightarrow> P w \<Longrightarrow> P w'"
  shows "list_all P (ap_workers s')"
  using assms(1,2)
  by (cases a) (auto simp: act_defs Let_def assms(5) split: act_splits intro!: list_all_put assms(3,4,6-8) intro: list_all_at stop [OF _ list_all_at])

interpretation ordered: run_invariant "\<lambda>_. True" "\<lambda>s. list_all inOrder (ap_workers s)"
proof
  show "list_all inOrder (ap_workers (startAppenders n))" for n
    by (simp add: startAppenders_def)
next
  fix s s' :: "'a appenders" and a
  assume "list_all inOrder (ap_workers s)" "act a s = Some s'"
  then show "list_all inOrder (ap_workers s')"
    by (intro act_workers [of a s s' inOrder]) (auto simp: inOrder_def newWorker_def appendHead_def elim!: stopWorker.elims split: if_splits)
qed

subsection \<open>One open worker for each table\<close>

text \<open>The life of a worker: in the loop, being stopped at some place of \<open>Stop\<close>, or gone.\<close>

definition alive :: "'r worker \<Rightarrow> bool" where
  "alive w = (\<not> wk_stopped w \<and> wk_run w = Looping \<and> wk_chan w = ChanOpen \<and> \<not> wk_closed w)"

definition gone :: "'r worker \<Rightarrow> bool" where
  "gone w = (wk_stopped w \<and> wk_run w = Exited \<and> wk_chan w = ChanNil \<and> wk_closed w)"

fun lifeAt :: "stop_place option \<Rightarrow> 'r worker \<Rightarrow> bool" where
  "lifeAt (Some StopWait) w = (wk_stopped w \<and> wk_chan w = ChanOpen \<and> \<not> wk_closed w)"
| "lifeAt (Some StopClose) w = (wk_stopped w \<and> wk_run w = Exited \<and> wk_chan w = ChanOpen \<and> \<not> wk_closed w)"
| "lifeAt (Some StopNil) w = (wk_stopped w \<and> wk_run w = Exited \<and> wk_chan w = ChanClosed \<and> \<not> wk_closed w)"
| "lifeAt (Some StopAppender) w = (wk_stopped w \<and> wk_run w = Exited \<and> wk_chan w = ChanNil)"
| "lifeAt _ w = (alive w \<or> gone w)"

definition placeOf :: "nat \<Rightarrow> 'r appenders \<Rightarrow> stop_place option" where
  "placeOf i s =
     (case ap_lock s of
        None \<Rightarrow> None
      | Some st \<Rightarrow> (case st_todo st of (n, j) # _ \<Rightarrow> if j = i then st_place st else None | [] \<Rightarrow> None))"

definition knows :: "'r worker list \<Rightarrow> 'r appender_client \<Rightarrow> bool" where
  "knows ws x = (case clientWorker x of None \<Rightarrow> True | Some i \<Rightarrow> i < length ws)"

definition tableOK :: "'r appenders \<Rightarrow> bool" where
  "tableOK s =
     (distinct (map fst (ap_table s))
      \<and> (\<forall>(n, i) \<in> set (ap_table s). i < length (ap_workers s) \<and> wk_table (ap_workers s ! i) = n))"

definition lockOK :: "'r appenders \<Rightarrow> bool" where
  "lockOK s =
     (case ap_lock s of
        None \<Rightarrow> \<forall>(n, i) \<in> set (ap_table s). \<not> wk_closed (ap_workers s ! i)
      | Some st \<Rightarrow> set (st_todo st) \<subseteq> set (ap_table s)
          \<and> (\<forall>(n, i) \<in> set (ap_table s). wk_closed (ap_workers s ! i) = (n \<in> set (st_deleting st)))
          \<and> (st_place st = None \<or> st_todo st \<noteq> []))"

definition wellFormed :: "'r appenders \<Rightarrow> bool" where
  "wellFormed s =
     (tableOK s \<and> lockOK s \<and> list_all (knows (ap_workers s)) (ap_clients s)
      \<and> (\<forall>i < length (ap_workers s). lifeAt (placeOf i s) (ap_workers s ! i)
           \<and> (\<not> wk_closed (ap_workers s ! i) \<longrightarrow> (wk_table (ap_workers s ! i), i) \<in> set (ap_table s))))"

text \<open>Most actions change nothing of this.\<close>

definition core :: "'r worker \<Rightarrow> string \<times> chan_state \<times> bool \<times> runner \<times> bool" where
  "core w = (wk_table w, wk_chan w, wk_stopped w, wk_run w, wk_closed w)"

lemma lifeAt_core: "core w = core w' \<Longrightarrow> lifeAt p w = lifeAt p w'"
  by (cases "(p, w)" rule: lifeAt.cases) (simp_all add: core_def alive_def gone_def)

lemma core_parts: "core w = core w' \<Longrightarrow> wk_table w = wk_table w' \<and> wk_closed w = wk_closed w'"
  by (simp add: core_def)

lemma wellFormed_quiet:
  assumes "wellFormed s" and "ap_table s' = ap_table s" and "ap_lock s' = ap_lock s"
    and len: "length (ap_workers s') = length (ap_workers s)"
    and core: "\<And>i. i < length (ap_workers s) \<Longrightarrow> core (ap_workers s' ! i) = core (ap_workers s ! i)"
    and "list_all (knows (ap_workers s')) (ap_clients s')"
  shows "wellFormed s'"
proof -
  have same: "wk_table (ap_workers s' ! i) = wk_table (ap_workers s ! i)" "wk_closed (ap_workers s' ! i) = wk_closed (ap_workers s ! i)"
      "lifeAt p (ap_workers s' ! i) = lifeAt p (ap_workers s ! i)" if "i < length (ap_workers s)" for i p
    using core_parts [OF core [OF that]] lifeAt_core [OF core [OF that]] by auto
  have range: "i < length (ap_workers s)" if "(n, i) \<in> set (ap_table s)" for n i
    using assms(1) that by (auto simp: wellFormed_def tableOK_def)
  have "tableOK s'"
    using assms(1) same range by (fastforce simp: wellFormed_def tableOK_def assms(2) len)
  moreover have "lockOK s'"
    using assms(1) same range by (fastforce simp: wellFormed_def lockOK_def assms(2,3) split: option.splits)
  moreover have "placeOf i s' = placeOf i s" for i
    by (simp add: placeOf_def assms(3))
  ultimately show ?thesis
    using assms(1,6) same by (auto simp: wellFormed_def assms(2) len)
qed

lemma knows_put: "list_all (knows ws) cs \<Longrightarrow> knows ws x \<Longrightarrow> list_all (knows ws) (cs[c := x])"
  using list_all_put [of "knows ws" cs c x] by simp

lemma knows_same: "knows (ws[i := w]) = knows ws"
  by (rule ext) (simp add: knows_def split: option.splits)

lemma knows_simps [simp]:
  "knows ws NoWorker" "knows ws (Has i) = (i < length ws)" "knows ws (Sending i v) = (i < length ws)"
  "knows ws (Stuck i) = (i < length ws)" "knows ws (Panicked i) = (i < length ws)"
  by (simp_all add: knows_def)

lemma wellFormed_one:
  assumes "wellFormed s" and "ap_table s' = ap_table s" and "ap_clients s' = ap_clients s"
    and workers: "ap_workers s' = (ap_workers s)[i := w]"
    and "wk_table w = wk_table (ap_workers s ! i)" and "\<not> wk_closed w \<Longrightarrow> \<not> wk_closed (ap_workers s ! i)"
    and "lifeAt (placeOf i s') w" and "\<And>j. j \<noteq> i \<Longrightarrow> placeOf j s' = placeOf j s" and "lockOK s'"
  shows "wellFormed s'"
proof -
  have "tableOK s"
    using assms(1) by (simp add: wellFormed_def)
  moreover have "wk_table (ap_workers s' ! j) = wk_table (ap_workers s ! j)" if "j < length (ap_workers s)" for j
    using assms(5) that by (cases "j = i") (simp_all add: workers)
  ultimately have "tableOK s'"
    by (auto simp: tableOK_def assms(2) workers)
  moreover have "list_all (knows (ap_workers s')) (ap_clients s')"
    using assms(1) by (simp add: wellFormed_def workers assms(3) knows_same)
  moreover have "lifeAt (placeOf j s') (ap_workers s' ! j)
      \<and> (\<not> wk_closed (ap_workers s' ! j) \<longrightarrow> (wk_table (ap_workers s' ! j), j) \<in> set (ap_table s'))"
    if "j < length (ap_workers s')" for j
  proof (cases "j = i")
    case True
    then show ?thesis
      using assms(1,5-7) that unfolding wellFormed_def by (auto simp: workers assms(2))
  next
    case False
    then show ?thesis
      using assms(1,8) that unfolding wellFormed_def by (auto simp: workers assms(2))
  qed
  ultimately show ?thesis
    using assms(9) by (simp add: wellFormed_def)
qed

lemma quiet_wellFormed:
  assumes "wellFormed s" and "act a s = Some s'"
    and "case a of Get c t now b \<Rightarrow> map_of (ap_table s) (map toLowerAscii t) \<noteq> None \<or> \<not> b
      | Read c v \<Rightarrow> True | Send c \<Rightarrow> True | Release c \<Rightarrow> True | TakeRow i \<Rightarrow> True | _ \<Rightarrow> False"
  shows "wellFormed s'"
proof -
  have clients: "list_all (knows (ap_workers s)) (ap_clients s)"
    using assms(1) by (simp add: wellFormed_def)
  have known: "i < length (ap_workers s)" if "map_of (ap_table s) t = Some i" for t i
    using assms(1) map_of_SomeD [OF that] by (auto simp: wellFormed_def tableOK_def)
  have mine: "i < length (ap_workers s)" if "c < length (ap_clients s)" "clientWorker (ap_clients s ! c) = Some i" for c i
    using list_all_at [OF clients that(1)] that(2) by (simp add: knows_def)
  show ?thesis
    using assms clients mine
    by (cases a)
      (auto simp: act_defs Let_def core_def appendHead_def nth_list_update knows_same known
        intro!: wellFormed_quiet [OF assms(1)] knows_put clients split: act_splits)
qed

lemma get_wellFormed:
  assumes "wellFormed s" and "GetAppendWorker c t now True s = Some s'" and new: "map_of (ap_table s) (map toLowerAscii t) = None"
  shows "wellFormed s'"
proof -
  let ?n = "map toLowerAscii t" and ?k = "length (ap_workers s)"
  have s': "s' = setClient c (Has ?k) (s\<lparr>ap_workers := ap_workers s @ [newWorker ?n now], ap_table := (?n, ?k) # ap_table s\<rparr>)"
      "ap_lock s = None"
    using assms(2,3) by (auto simp: GetAppendWorker_def Let_def split: if_splits)
  have "?n \<notin> fst ` set (ap_table s)"
    using new by (simp add: map_of_eq_None_iff)
  moreover have "list_all (knows (ap_workers s @ [w])) ((ap_clients s)[c := Has ?k])" for w
    using assms(1) by (intro knows_put) (auto simp: wellFormed_def knows_def list_all_iff split: option.splits)
  ultimately show ?thesis
    using assms(1) s'(2)
    by (auto simp: s'(1) wellFormed_def tableOK_def lockOK_def placeOf_def nth_append newWorker_def alive_def less_Suc_eq)
qed

lemma life_at: "wellFormed s \<Longrightarrow> i < length (ap_workers s) \<Longrightarrow> lifeAt (placeOf i s) (ap_workers s ! i)"
  by (simp add: wellFormed_def)

lemma placeOf_updWorker [simp]: "placeOf j (updWorker i f s) = placeOf j s"
  by (simp add: placeOf_def)

lemma lockOK_same:
  assumes "lockOK s" and "ap_table s' = ap_table s" and "ap_lock s' = ap_lock s"
    and "\<And>n i. (n, i) \<in> set (ap_table s) \<Longrightarrow> wk_closed (ap_workers s' ! i) = wk_closed (ap_workers s ! i)"
  shows "lockOK s'"
  using assms(1,4) by (auto simp: lockOK_def assms(2,3) split: option.splits)

lemma closed_put: "wk_closed w = wk_closed (ws ! i) \<Longrightarrow> wk_closed (ws[i := w] ! j) = wk_closed (ws ! j)"
  by (cases "i < length ws"; cases "i = j") (simp_all add: list_update_beyond)

lemma lifeAt_running:
  "lifeAt p w \<Longrightarrow> wk_run w = Looping \<and> wk_stopped w \<or> wk_run w = Draining \<Longrightarrow> p = Some StopWait"
  by (induction p w rule: lifeAt.induct) (auto simp: alive_def gone_def)

lemma closed_exited: "lifeAt p w \<Longrightarrow> wk_closed w \<Longrightarrow> wk_run w = Exited"
  by (induction p w rule: lifeAt.induct) (auto simp: alive_def gone_def)

lemma closed_nil: "lifeAt p w \<Longrightarrow> wk_closed w \<Longrightarrow> wk_chan w = ChanNil"
  by (induction p w rule: lifeAt.induct) (auto simp: alive_def gone_def)

lemma signal_wellFormed:
  assumes "wellFormed s" and "takeSignal i s = Some s' \<or> leaveLoop i s = Some s'"
  shows "wellFormed s'"
proof -
  let ?w = "ap_workers s ! i"
  have i: "i < length (ap_workers s)" and run: "wk_run ?w = Looping \<and> wk_stopped ?w \<or> wk_run ?w = Draining"
    using assms(2) by (auto simp: takeSignal_def leaveLoop_def split: if_splits)
  have place: "placeOf i s = Some StopWait"
    by (rule lifeAt_running [OF life_at [OF assms(1) i] run])
  obtain r where r: "s' = updWorker i (\<lambda>w. w\<lparr>wk_run := r\<rparr>) s"
    using assms(2) by (auto simp: takeSignal_def leaveLoop_def split: if_splits)
  have "lifeAt (Some StopWait) (?w\<lparr>wk_run := r\<rparr>)"
    using life_at [OF assms(1) i] by (simp add: place)
  moreover have "lockOK s"
    using assms(1) by (simp add: wellFormed_def)
  then have "lockOK (updWorker i (\<lambda>w. w\<lparr>wk_run := r\<rparr>) s)"
    by (rule lockOK_same) (simp_all add: closed_put)
  ultimately show ?thesis
    unfolding r by (intro wellFormed_one [OF assms(1), where i = i and w = "?w\<lparr>wk_run := r\<rparr>"]) (simp_all add: place)
qed

lemma lock_wellFormed:
  assumes "wellFormed s" and "takeLock todo b s = Some s'" and "set todo \<subseteq> set (ap_table s)"
  shows "wellFormed s'"
proof -
  have s': "ap_lock s = None" "s' = s\<lparr>ap_lock := Some \<lparr>st_todo = todo, st_idleOnly = b, st_deleting = [], st_place = None\<rparr>\<rparr>"
    using assms(2) by (simp_all add: takeLock_def split: if_splits)
  have "placeOf i s' = None" "placeOf i s = None" for i
    by (simp_all add: s' placeOf_def split: list.splits)
  then show ?thesis
    using assms(1,3) by (simp add: wellFormed_def tableOK_def lockOK_def s')
qed

lemma flushTables_todo:
  "set (concat (map (\<lambda>n. case map_of tab n of Some i \<Rightarrow> [(n, i)] | None \<Rightarrow> []) names)) \<subseteq> set tab"
  by (auto split: option.splits dest!: sym [of "Some _"] map_of_SomeD)

lemma wellFormed_lock:
  assumes "wellFormed s" and "ap_workers s' = ap_workers s" and "ap_table s' = ap_table s" and "ap_clients s' = ap_clients s"
    and "lockOK s'" and "\<And>i. i < length (ap_workers s) \<Longrightarrow> lifeAt (placeOf i s') (ap_workers s ! i)"
  shows "wellFormed s'"
  using assms(1,5,6) by (simp add: wellFormed_def tableOK_def assms(2-4))

lemma visit_wellFormed:
  assumes wf: "wellFormed s" and "visitNext now s = Some s'"
  shows "wellFormed s'"
proof -
  obtain st where st: "ap_lock s = Some st" "st_place st = None"
    using assms(2) by (auto simp: visitNext_def split: option.splits if_splits)
  have none: "placeOf i s = None" for i
    by (simp add: placeOf_def st split: list.splits)
  have lock: "lockOK s" "tableOK s"
    using wf by (simp_all add: wellFormed_def)
  show ?thesis
  proof (cases "st_todo st")
    case Nil
    then have s': "s' = s\<lparr>ap_table := filter (\<lambda>(n, i). n \<notin> set (st_deleting st)) (ap_table s), ap_lock := None\<rparr>"
      using assms(2) by (simp add: visitNext_def st)
    have closed: "wk_closed (ap_workers s ! i) = (n \<in> set (st_deleting st))" if "(n, i) \<in> set (ap_table s)" for n i
      using lock(1) that by (auto simp: lockOK_def st)
    have "tableOK s'" "lockOK s'"
      using lock(2) closed by (auto simp: s' tableOK_def lockOK_def distinct_map_filter)
    moreover have "placeOf i s' = None" for i
      by (simp add: s' placeOf_def)
    ultimately show ?thesis
      using wf closed none by (auto simp: wellFormed_def s')
  next
    case (Cons ni rest)
    then have "s' = s\<lparr>ap_lock := Some (st\<lparr>st_place := Some StopSignal\<rparr>)\<rparr> \<or> s' = s\<lparr>ap_lock := Some (st\<lparr>st_todo := rest\<rparr>)\<rparr>"
      using assms(2) by (auto simp: visitNext_def st split: prod.splits if_splits)
    then show ?thesis
    proof
      assume s': "s' = s\<lparr>ap_lock := Some (st\<lparr>st_place := Some StopSignal\<rparr>)\<rparr>"
      have "lockOK s'"
        using lock(1) Cons by (auto simp: s' lockOK_def st)
      moreover have "lifeAt (placeOf i s') (ap_workers s ! i)" if "i < length (ap_workers s)" for i
        using life_at [OF wf that] none by (simp add: s' placeOf_def Cons split: prod.splits)
      ultimately show ?thesis
        by (intro wellFormed_lock [OF wf]) (simp_all add: s')
    next
      assume s': "s' = s\<lparr>ap_lock := Some (st\<lparr>st_todo := rest\<rparr>)\<rparr>"
      have "lockOK s'"
        using lock(1) Cons by (auto simp: s' lockOK_def st)
      moreover have "placeOf i s' = None" for i
        by (simp add: s' placeOf_def st split: list.splits)
      ultimately show ?thesis
        using life_at [OF wf] none by (intro wellFormed_lock [OF wf]) (simp_all add: s')
    qed
  qed
qed

text \<open>A step of \<open>Stop\<close> changes the place and perhaps the worker it stops.\<close>

lemma stopStep_eq:
  assumes "stopStep s = Some s'"
  obtains st place n i rest w q where "ap_lock s = Some st" "st_place st = Some place" "st_todo st = (n, i) # rest"
    "stopWorker place (ap_workers s ! i) = Some (w, q)"
    "s' = updWorker i (\<lambda>_. w) (s\<lparr>ap_lock := Some (case q of Some p \<Rightarrow> st\<lparr>st_place := Some p\<rparr>
        | None \<Rightarrow> st\<lparr>st_todo := rest, st_deleting := st_deleting st @ [n], st_place := None\<rparr>)\<rparr>)"
  using assms by (auto simp: stopStep_def split: option.splits list.splits prod.splits)

lemma stopWorker_life:
  "stopWorker place w = Some (w', q) \<Longrightarrow> lifeAt (Some place) w \<Longrightarrow>
     lifeAt q w' \<and> wk_table w' = wk_table w \<and> (wk_closed w' = (q = None \<or> wk_closed w))"
  by (cases place) (auto simp: alive_def gone_def split: if_splits)

lemma stop_wellFormed:
  assumes wf: "wellFormed s" and step: "stopStep s = Some s'"
  shows "wellFormed s'"
proof -
  obtain st place n i rest w q where st: "ap_lock s = Some st" "st_place st = Some place" "st_todo st = (n, i) # rest"
    and w: "stopWorker place (ap_workers s ! i) = Some (w, q)"
    and s': "s' = updWorker i (\<lambda>_. w) (s\<lparr>ap_lock := Some (case q of Some p \<Rightarrow> st\<lparr>st_place := Some p\<rparr>
        | None \<Rightarrow> st\<lparr>st_todo := rest, st_deleting := st_deleting st @ [n], st_place := None\<rparr>)\<rparr>)"
    by (rule stopStep_eq [OF step])
  have lock: "lockOK s" "tableOK s"
    using wf by (simp_all add: wellFormed_def)
  then have table: "(n, i) \<in> set (ap_table s)" and i: "i < length (ap_workers s)"
    by (auto simp: lockOK_def tableOK_def st)
  have place: "placeOf i s = Some place"
    by (simp add: placeOf_def st)
  have "lifeAt (Some place) (ap_workers s ! i)"
    using life_at [OF wf i] by (simp add: place)
  note life = stopWorker_life [OF w this]
  have others: "placeOf j s' = placeOf j s" if "j \<noteq> i" for j
    using that by (simp add: placeOf_def st s' split: option.splits list.splits)
  have here: "lifeAt (placeOf i s') w"
    using life by (cases "q") (simp_all add: placeOf_def st s' split: list.splits)
  have named: "wk_table (ap_workers s ! k) = m" if "(m, k) \<in> set (ap_table s)" for m k
    using lock(2) that by (auto simp: tableOK_def)
  have same: "k = i \<longleftrightarrow> m = n" if "(m, k) \<in> set (ap_table s)" for m k
    using named [OF table] named [OF that] lock(2) table that by (auto simp: tableOK_def dest: eq_key_imp_eq_value)
  have closed: "wk_closed (ap_workers s ! k) = (m \<in> set (st_deleting st))" "k < length (ap_workers s)" if "(m, k) \<in> set (ap_table s)" for m k
    using lock that by (auto simp: lockOK_def tableOK_def st)
  have closed': "wk_closed (ap_workers s' ! k) = (m \<in> set (st_deleting st) \<or> q = None \<and> m = n)"
    if mk: "(m, k) \<in> set (ap_table s)" for m k
  proof (cases "k = i")
    case True
    then show ?thesis
      using life closed(1) [OF mk] same [OF mk] i by (auto simp: s')
  next
    case False
    then show ?thesis
      using closed(1) [OF mk] same [OF mk] by (simp add: s')
  qed
  have "lockOK s'"
    using lock(1) closed' by (cases q) (auto simp: lockOK_def st s')
  then show ?thesis
    by (intro wellFormed_one [OF wf, where i = i and w = w]) (use life here others in \<open>simp_all add: s'\<close>)
qed

lemma flush_wellFormed: "wellFormed s \<Longrightarrow> flushTables tables s = Some s' \<Longrightarrow> wellFormed s'"
  unfolding flushTables_def by (rule lock_wellFormed [OF _ _ flushTables_todo])

lemma act_wellFormed:
  assumes "wellFormed s" and "act a s = Some s'"
  shows "wellFormed s'"
proof (cases a)
  case (Get c t now b)
  then show ?thesis
    using assms quiet_wellFormed [OF assms] get_wellFormed [of s c t now s']
    by (cases "map_of (ap_table s) (map toLowerAscii t)"; cases b) simp_all
next
  case (TakeSignal i)
  then show ?thesis
    using assms signal_wellFormed [of s i s'] by simp
next
  case (LeaveLoop i)
  then show ?thesis
    using assms signal_wellFormed [of s i s'] by simp
next
  case (IdleCheck order)
  then show ?thesis
    using assms lock_wellFormed [of s order] by (auto simp: idleCheck_def isOrder_def split: if_splits)
next
  case (FlushAll order)
  then show ?thesis
    using assms lock_wellFormed [of s order] by (auto simp: flushAll_def isOrder_def split: if_splits)
next
  case (FlushTables tables)
  then show ?thesis
    using assms flush_wellFormed by simp
next
  case (StopByName t)
  then show ?thesis
    using assms flush_wellFormed by (simp add: StopAppendWorker_def)
next
  case (Visit now)
  then show ?thesis
    using assms visit_wellFormed by simp
next
  case StopGoesOn
  then show ?thesis
    using assms stop_wellFormed by simp
qed (use quiet_wellFormed [OF assms] in simp_all)

lemma wellFormed_start: "wellFormed (startAppenders n)"
  by (simp add: wellFormed_def startAppenders_def tableOK_def lockOK_def list_all_length)

interpretation formed: run_invariant "\<lambda>_. True" wellFormed
  by unfold_locales (rule wellFormed_start, rule act_wellFormed)

subsection \<open>Idle workers\<close>

definition holders :: "nat \<Rightarrow> 'r appender_client list \<Rightarrow> nat" where
  "holders i cs = length (filter (\<lambda>x. clientWorker x = Some i) cs)"

lemma holders_simps: "holders i [] = 0" "holders i (y # cs) = (if clientWorker y = Some i then 1 else 0) + holders i cs"
  by (simp_all add: holders_def)

lemma holders_put:
  "c < length cs \<Longrightarrow> int (holders i (cs[c := x]))
     = int (holders i cs) - (if clientWorker (cs ! c) = Some i then 1 else 0) + (if clientWorker x = Some i then 1 else 0)"
proof (induction cs arbitrary: c)
  case (Cons y cs)
  then show ?case
    by (cases c) (simp_all add: holders_simps)
qed simp

lemma holders_pos: "c < length cs \<Longrightarrow> clientWorker (cs ! c) = Some i \<Longrightarrow> 0 < holders i cs"
  by (auto simp: holders_def length_pos_if_in_set filter_empty_conv intro!: nth_mem)

fun going :: "'r appender_client \<Rightarrow> bool" where
  "going (Stuck i) = False"
| "going (Panicked i) = False"
| "going x = True"

text \<open>As long as only idle workers are stopped, a worker that is being stopped has no client.\<close>

definition idleAt :: "stop_place option \<Rightarrow> 'r worker \<Rightarrow> nat \<Rightarrow> bool" where
  "idleAt place w users =
     (wk_refCount w = int users \<and> (wk_stopped w \<or> place \<noteq> None \<longrightarrow> users = 0) \<and> (wk_run w = Exited \<longrightarrow> wk_appendC w = []))"

definition idleOK :: "'r appenders \<Rightarrow> bool" where
  "idleOK s =
     (list_all going (ap_clients s) \<and> (case ap_lock s of None \<Rightarrow> True | Some st \<Rightarrow> st_idleOnly st)
      \<and> (\<forall>i < length (ap_workers s). idleAt (placeOf i s) (ap_workers s ! i) (holders i (ap_clients s))))"

lemma used_alive:
  assumes "wellFormed s" and "idleOK s" and "c < length (ap_clients s)" and "clientWorker (ap_clients s ! c) = Some i"
  shows "i < length (ap_workers s) \<and> alive (ap_workers s ! i) \<and> placeOf i s = None"
proof -
  have i: "i < length (ap_workers s)"
    using assms(1) list_all_at [of "knows (ap_workers s)" "ap_clients s" c] assms(3,4) by (auto simp: wellFormed_def knows_def)
  moreover have "\<not> wk_stopped (ap_workers s ! i) \<and> placeOf i s = None"
    using assms(2) i holders_pos [OF assms(3,4)] by (auto simp: idleOK_def idleAt_def)
  ultimately show ?thesis
    using life_at [OF assms(1) i] by (auto simp: gone_def)
qed

lemma idle_at: "idleOK s \<Longrightarrow> i < length (ap_workers s) \<Longrightarrow> idleAt (placeOf i s) (ap_workers s ! i) (holders i (ap_clients s))"
  by (simp add: idleOK_def)

lemma idleOK_one:
  assumes "idleOK s" and "ap_workers s' = (ap_workers s)[i := w]"
    and "i < length (ap_workers s) \<Longrightarrow> idleAt (placeOf i s') w (holders i (ap_clients s'))"
    and "\<And>j. j \<noteq> i \<Longrightarrow> placeOf j s' = placeOf j s \<or> placeOf j s' = None"
    and "\<And>j. j \<noteq> i \<Longrightarrow> holders j (ap_clients s') = holders j (ap_clients s)"
    and "list_all going (ap_clients s')" and "case ap_lock s' of None \<Rightarrow> True | Some st \<Rightarrow> st_idleOnly st"
  shows "idleOK s'"
proof -
  have "idleAt (placeOf j s') (ap_workers s' ! j) (holders j (ap_clients s'))" if j: "j < length (ap_workers s)" for j
  proof (cases "j = i")
    case True
    then show ?thesis
      using assms(3) j by (simp add: assms(2))
  next
    case False
    then show ?thesis
      using assms(4) [OF False] assms(5) [OF False] idle_at [OF assms(1) j] False by (auto simp: assms(2) idleAt_def)
  qed
  then show ?thesis
    using assms(6,7) by (simp add: idleOK_def assms(2))
qed

text \<open>A client that moves to or from a worker.\<close>

lemma idleOK_client:
  assumes ok: "idleOK s" and c: "c < length (ap_clients s)" and s': "s' = setClient c x (updWorker i (\<lambda>_. w) s)"
    and "going x" and "\<And>j. clientWorker x = Some j \<or> clientWorker (ap_clients s ! c) = Some j \<Longrightarrow> j = i"
    and "i < length (ap_workers s) \<Longrightarrow> idleAt (placeOf i s) w (holders i ((ap_clients s)[c := x]))"
  shows "idleOK s'"
proof (rule idleOK_one [OF ok, where i = i and w = w])
  show "holders j (ap_clients s') = holders j (ap_clients s)" if "j \<noteq> i" for j
  proof -
    have "clientWorker x \<noteq> Some j" "clientWorker (ap_clients s ! c) \<noteq> Some j"
      using assms(5) that by blast+
    then show ?thesis
      using holders_put [OF c, of j x] by (simp add: s')
  qed
  show "list_all going (ap_clients s')"
    using ok assms(4) list_all_put [of going "ap_clients s" c x] by (simp add: s' idleOK_def)
  show "case ap_lock s' of None \<Rightarrow> True | Some st \<Rightarrow> st_idleOnly st"
    using ok by (simp add: s' idleOK_def)
  have "placeOf j s' = placeOf j s" for j
    by (simp add: s' placeOf_def)
  then show "i < length (ap_workers s) \<Longrightarrow> idleAt (placeOf i s') w (holders i (ap_clients s'))"
      "\<And>j. j \<noteq> i \<Longrightarrow> placeOf j s' = placeOf j s \<or> placeOf j s' = None"
    using assms(6) by (simp_all add: s')
qed (simp add: s')

lemma idle_client_act:
  assumes wf: "wellFormed s" and ok: "idleOK s" and "clientAction a" and step: "act a s = Some s'"
  shows "idleOK s'"
  using assms(3)
proof (cases a)
  case (Get c t now b)
  let ?n = "map toLowerAscii t"
  have c: "c < length (ap_clients s)" "ap_clients s ! c = NoWorker" and lock: "ap_lock s = None"
    using step by (auto simp: Get GetAppendWorker_def Let_def split: if_splits)
  have place: "placeOf j s = None" for j
    by (simp add: placeOf_def lock)
  show ?thesis
  proof (cases "map_of (ap_table s) ?n")
    case (Some i)
    let ?w = "(ap_workers s ! i)\<lparr>wk_lastTime := now, wk_refCount := wk_refCount (ap_workers s ! i) + 1\<rparr>"
    have s': "s' = setClient c (Has i) (updWorker i (\<lambda>_. ?w) s)"
      using step c lock Some by (simp add: Get GetAppendWorker_def updWorker_def)
    have "(?n, i) \<in> set (ap_table s)"
      by (rule map_of_SomeD [OF Some])
    then have "\<not> wk_closed (ap_workers s ! i)" "i < length (ap_workers s)"
      using wf by (auto simp: wellFormed_def lockOK_def tableOK_def lock)
    then have "alive (ap_workers s ! i)"
      using life_at [OF wf] place by (auto simp: gone_def)
    then show ?thesis
      using idle_at [OF ok] place holders_put [OF c(1), of i "Has i"] c(2)
      by (intro idleOK_client [OF ok c(1) s']) (auto simp: idleAt_def alive_def)
  next
    case None
    show ?thesis
    proof (cases b)
      case True
      let ?k = "length (ap_workers s)"
      have s': "s' = setClient c (Has ?k) (s\<lparr>ap_workers := ap_workers s @ [newWorker ?n now], ap_table := (?n, ?k) # ap_table s\<rparr>)"
        using step c lock None True by (simp add: Get GetAppendWorker_def Let_def)
      have "holders ?k (ap_clients s) = 0"
        using wf by (auto simp: wellFormed_def holders_def knows_def list_all_iff filter_empty_conv)
      then have "holders ?k ((ap_clients s)[c := Has ?k]) = 1"
        using holders_put [OF c(1), of ?k "Has ?k"] c(2) by simp
      moreover have "holders j ((ap_clients s)[c := Has ?k]) = holders j (ap_clients s)" if "j < ?k" for j
        using holders_put [OF c(1), of j "Has ?k"] c(2) that by simp
      moreover have "placeOf j s' = None" for j
        by (simp add: placeOf_def s' lock)
      moreover have "list_all going ((ap_clients s)[c := Has ?k])"
        using ok list_all_put [of going "ap_clients s" c "Has ?k"] by (simp add: idleOK_def)
      ultimately show ?thesis
        using idle_at [OF ok] place by (auto simp: idleOK_def s' lock nth_append less_Suc_eq idleAt_def newWorker_def)
    qed (use step c lock None ok in \<open>simp add: Get GetAppendWorker_def\<close>)
  qed
next
  case (Read c v)
  then obtain i where c: "c < length (ap_clients s)" "ap_clients s ! c = Has i"
    using step by (auto simp: readChan_def split: if_splits appender_client.splits)
  note alive = used_alive [OF wf ok c(1), of i]
  then have s': "s' = setClient c (Sending i v) (updWorker i (\<lambda>_. ap_workers s ! i) s)"
    using step c by (simp add: Read readChan_def alive_def updWorker_def)
  show ?thesis
    using idle_at [OF ok, of i] holders_put [OF c(1), of i "Sending i v"] c(2)
    by (intro idleOK_client [OF ok c(1) s']) auto
next
  case (Send c)
  then obtain i v where c: "c < length (ap_clients s)" "ap_clients s ! c = Sending i v"
    using step by (auto simp: sendRow_def split: if_splits appender_client.splits)
  let ?w = "(ap_workers s ! i)\<lparr>wk_appendC := wk_appendC (ap_workers s ! i) @ [v], wk_sent := wk_sent (ap_workers s ! i) @ [v]\<rparr>"
  note alive = used_alive [OF wf ok c(1), of i]
  then have s': "s' = setClient c (Has i) (updWorker i (\<lambda>_. ?w) s)"
    using step c by (auto simp: Send sendRow_def alive_def updWorker_def split: if_splits)
  show ?thesis
    using idle_at [OF ok, of i] holders_put [OF c(1), of i "Has i"] c(2) alive
    by (intro idleOK_client [OF ok c(1) s']) (auto simp: idleAt_def alive_def)
next
  case (Release c)
  then obtain i where c: "c < length (ap_clients s)" "ap_clients s ! c = Has i"
    using step by (auto simp: CloseAppender_def split: if_splits appender_client.splits)
  let ?w = "(ap_workers s ! i)\<lparr>wk_refCount := wk_refCount (ap_workers s ! i) - 1\<rparr>"
  note alive = used_alive [OF wf ok c(1), of i]
  then have s': "s' = setClient c NoWorker (updWorker i (\<lambda>_. ?w) s)"
    using step c by (simp add: Release CloseAppender_def updWorker_def)
  show ?thesis
    using idle_at [OF ok, of i] holders_put [OF c(1), of i NoWorker] c(2) alive
    by (intro idleOK_client [OF ok c(1) s']) (auto simp: idleAt_def alive_def)
qed simp_all

lemma stopWorker_idle:
  "stopWorker place w = Some (w', q) \<Longrightarrow> idleAt (Some place) w h \<Longrightarrow> idleAt q w' h"
  by (cases place) (auto simp: idleAt_def split: if_splits)

lemma idle_inner_act:
  assumes wf: "wellFormed s" and ok: "idleOK s" and "\<not> clientAction a" and "\<not> forcedStop a" and step: "act a s = Some s'"
  shows "idleOK s'"
  using assms(3,4)
proof (cases a)
  case (TakeRow i)
  then have "s' = updWorker i appendHead s" "wk_run (ap_workers s ! i) \<noteq> Exited"
    using step by (simp_all add: takeRow_def split: if_splits)
  then show ?thesis
    using idle_at [OF ok, of i] ok
    by (intro idleOK_one [OF ok, of _ i]) (auto simp: idleAt_def appendHead_def idleOK_def)
next
  case (TakeSignal i)
  then have "s' = updWorker i (\<lambda>w. w\<lparr>wk_run := Draining\<rparr>) s"
    using step by (simp add: takeSignal_def split: if_splits)
  then show ?thesis
    using idle_at [OF ok, of i] ok
    by (intro idleOK_one [OF ok, of _ i]) (auto simp: idleAt_def idleOK_def)
next
  case (LeaveLoop i)
  then have "s' = updWorker i (\<lambda>w. w\<lparr>wk_run := Exited\<rparr>) s" "wk_appendC (ap_workers s ! i) = []"
    using step by (simp_all add: leaveLoop_def split: if_splits)
  then show ?thesis
    using idle_at [OF ok, of i] ok
    by (intro idleOK_one [OF ok, of _ i]) (auto simp: idleAt_def idleOK_def)
next
  case (IdleCheck order)
  then have s': "s' = s\<lparr>ap_lock := Some \<lparr>st_todo = order, st_idleOnly = True, st_deleting = [], st_place = None\<rparr>\<rparr>"
    using step by (simp add: idleCheck_def takeLock_def split: if_splits)
  have "placeOf j s' = None" for j
    by (simp add: s' placeOf_def split: list.splits)
  then show ?thesis
    using idle_at [OF ok] ok by (auto simp: idleOK_def s' idleAt_def)
next
  case (Visit now)
  then obtain st where st: "ap_lock s = Some st" "st_place st = None"
    using step by (auto simp: visitNext_def split: option.splits if_splits)
  have only: "st_idleOnly st"
    using ok by (simp add: idleOK_def st)
  show ?thesis
  proof (cases "st_todo st")
    case Nil
    then have "s' = s\<lparr>ap_table := filter (\<lambda>(n, i). n \<notin> set (st_deleting st)) (ap_table s), ap_lock := None\<rparr>"
      using step by (simp add: Visit visitNext_def st)
    then show ?thesis
      using idle_at [OF ok] ok by (auto simp: idleOK_def placeOf_def idleAt_def)
  next
    case (Cons ni rest)
    obtain n i where ni: "ni = (n, i)"
      by (cases ni)
    let ?w = "ap_workers s ! i"
    show ?thesis
    proof (cases "maxIdle < now - wk_lastTime ?w \<and> wk_refCount ?w = 0")
      case True
      then have s': "s' = s\<lparr>ap_lock := Some (st\<lparr>st_place := Some StopSignal\<rparr>)\<rparr>"
        using step by (simp add: Visit visitNext_def st Cons ni)
      have "i < length (ap_workers s) \<Longrightarrow> idleAt (placeOf i s') ?w (holders i (ap_clients s))"
        using idle_at [OF ok, of i] True by (auto simp: idleAt_def)
      then show ?thesis
        using only ok by (intro idleOK_one [OF ok, of s' i ?w]) (auto simp: s' placeOf_def Cons ni idleOK_def)
    next
      case False
      then have s': "s' = s\<lparr>ap_lock := Some (st\<lparr>st_todo := rest\<rparr>)\<rparr>"
        using step only by (auto simp: Visit visitNext_def st Cons ni)
      have "placeOf j s' = None" for j
        by (simp add: s' placeOf_def st split: list.splits)
      then show ?thesis
        using idle_at [OF ok] ok by (auto simp: idleOK_def s' idleAt_def st)
    qed
  qed
next
  case StopGoesOn
  have "stopStep s = Some s'"
    using step StopGoesOn by simp
  then obtain st place n i rest w q where st: "ap_lock s = Some st" "st_place st = Some place" "st_todo st = (n, i) # rest"
    and w: "stopWorker place (ap_workers s ! i) = Some (w, q)"
    and s': "s' = updWorker i (\<lambda>_. w) (s\<lparr>ap_lock := Some (case q of Some p \<Rightarrow> st\<lparr>st_place := Some p\<rparr>
        | None \<Rightarrow> st\<lparr>st_todo := rest, st_deleting := st_deleting st @ [n], st_place := None\<rparr>)\<rparr>)"
    by (rule stopStep_eq)
  have place: "placeOf i s = Some place" "\<And>j. j \<noteq> i \<Longrightarrow> placeOf j s = None"
    by (simp_all add: placeOf_def st)
  have place': "placeOf i s' = q" "\<And>j. j \<noteq> i \<Longrightarrow> placeOf j s' = None"
    by (cases q; simp add: placeOf_def st s' split: list.splits)+
  show ?thesis
    using stopWorker_idle [OF w, of "holders i (ap_clients s)"] idle_at [OF ok, of i] place place' ok
    by (intro idleOK_one [OF ok, of s' i w]) (auto simp: s' idleOK_def st split: option.splits)
qed simp_all

interpretation idle: run_invariant "\<lambda>a. \<not> forcedStop a" "\<lambda>s. wellFormed s \<and> idleOK s"
proof
  show "wellFormed (startAppenders n) \<and> idleOK (startAppenders n)" for n
    using wellFormed_start by (simp add: idleOK_def startAppenders_def list_all_length)
next
  fix s s' :: "'a appenders" and a
  assume "wellFormed s \<and> idleOK s" "\<not> forcedStop a" "act a s = Some s'"
  then show "wellFormed s' \<and> idleOK s'"
    using act_wellFormed idle_client_act idle_inner_act by blast
qed

subsection \<open>What holds in every run\<close>

text \<open>
  C11: In every run, whatever is stopped and whoever uses the workers, a table has at most one worker whose appender
  is open, and the rows handed to an appender are the first of the rows the clients sent, in their order.
\<close>

theorem workers_exclusive:
  assumes "run as (startAppenders n) = Some s"
  shows "distinct (map wk_table (filter (\<lambda>w. \<not> wk_closed w) (ap_workers s)))
    \<and> list_all (\<lambda>w. wk_sent w = wk_appended w @ wk_appendC w) (ap_workers s)"
proof
  have wf: "wellFormed s"
    using formed.good_reached [OF assms] by (simp add: list_all_iff)
  have unique: "i = j" if "i < length (ap_workers s)" "j < length (ap_workers s)" "\<not> wk_closed (ap_workers s ! i)"
      "\<not> wk_closed (ap_workers s ! j)" "wk_table (ap_workers s ! i) = wk_table (ap_workers s ! j)" for i j
  proof -
    have "(wk_table (ap_workers s ! i), i) \<in> set (ap_table s)" "(wk_table (ap_workers s ! j), j) \<in> set (ap_table s)"
      using wf that(1-4) by (simp_all add: wellFormed_def)
    moreover have "distinct (map fst (ap_table s))"
      using wf by (simp add: wellFormed_def tableOK_def)
    ultimately show "i = j"
      using that(5) eq_key_imp_eq_value by simp
  qed
  have "distinct (map f (filter P xs))"
    if "\<And>i j. i < length xs \<Longrightarrow> j < length xs \<Longrightarrow> P (xs ! i) \<Longrightarrow> P (xs ! j) \<Longrightarrow> f (xs ! i) = f (xs ! j) \<Longrightarrow> i = j"
    for f :: "'a worker \<Rightarrow> string" and P xs
    using that
  proof (induction xs)
    case (Cons x xs)
    have "f x \<noteq> f y" if "y \<in> set xs" "P y" "P x" for y
      using Cons.prems [of 0 "Suc _"] that by (fastforce simp: in_set_conv_nth)
    then have "P x \<longrightarrow> f x \<notin> set (map f (filter P xs))"
      by auto
    moreover have "distinct (map f (filter P xs))"
      using Cons.prems [of "Suc _" "Suc _"] by (intro Cons.IH) fastforce
    ultimately show ?case
      by auto
  qed simp
  from this [of "ap_workers s" "\<lambda>w. \<not> wk_closed w" wk_table] unique
  show "distinct (map wk_table (filter (\<lambda>w. \<not> wk_closed w) (ap_workers s)))"
    by blast
  show "list_all (\<lambda>w. wk_sent w = wk_appended w @ wk_appendC w) (ap_workers s)"
    using ordered.good_reached [OF assms] by (simp add: list_all_iff inOrder_def)
qed

text \<open>
  C12: When only idle workers are stopped, no client waits forever or panics, and a worker whose appender has been
  closed has handed over every row it was sent.
\<close>

theorem idle_stop_complete:
  assumes "run as (startAppenders n) = Some s" and "list_all (\<lambda>a. \<not> forcedStop a) as"
  shows "list_all going (ap_clients s) \<and> list_all (\<lambda>w. \<not> wk_closed w \<or> wk_appended w = wk_sent w) (ap_workers s)"
proof -
  have good: "wellFormed s" "idleOK s"
    using idle.good_reached [OF assms] by simp_all
  have "list_all inOrder (ap_workers s)"
    using ordered.good_reached [OF assms(1)] by (simp add: list_all_iff)
  moreover have "wk_appendC (ap_workers s ! i) = []" if "i < length (ap_workers s)" "wk_closed (ap_workers s ! i)" for i
    using closed_exited [OF life_at [OF good(1) that(1)] that(2)] idle_at [OF good(2) that(1)] by (simp add: idleAt_def)
  ultimately show ?thesis
    using good(2) by (auto simp: idleOK_def list_all_length inOrder_def)
qed

subsection \<open>A stop ends\<close>

text \<open>The places of \<open>Stop\<close> in their order.\<close>

fun placeRank :: "stop_place \<Rightarrow> nat" where
  "placeRank StopSignal = 0"
| "placeRank StopWait = 1"
| "placeRank StopClose = 2"
| "placeRank StopNil = 3"
| "placeRank StopAppender = 4"

lemma placeRank_inject: "placeRank p = placeRank q \<Longrightarrow> p = q"
  by (cases p; cases q) simp_all

instantiation stop_place :: linorder
begin

definition less_eq_stop_place :: "stop_place \<Rightarrow> stop_place \<Rightarrow> bool" where
  "less_eq_stop_place p q = (placeRank p \<le> placeRank q)"

definition less_stop_place :: "stop_place \<Rightarrow> stop_place \<Rightarrow> bool" where
  "less_stop_place p q = (placeRank p < placeRank q)"

instance
  by standard (auto simp: less_eq_stop_place_def less_stop_place_def intro: placeRank_inject)

end

lemma stopWorker_forward: "stopWorker p w = Some (w', Some q) \<Longrightarrow> p < q"
  by (cases p) (auto simp: less_stop_place_def split: if_splits)

lemma stopWorker_enabled: "lifeAt (Some p) w \<Longrightarrow> p \<noteq> StopWait \<Longrightarrow> \<exists>w' q. stopWorker p w = Some (w', q)"
  by (cases p) (auto simp: alive_def gone_def)

text \<open>The actions of the goroutines of workers and of the one that holds the lock, and what they have still to do.\<close>

fun inner :: "'r action \<Rightarrow> bool" where
  "inner (TakeRow i) = True"
| "inner (TakeSignal i) = True"
| "inner (LeaveLoop i) = True"
| "inner (Visit now) = True"
| "inner StopGoesOn = True"
| "inner _ = False"

fun runnerWork :: "runner \<Rightarrow> nat" where
  "runnerWork Looping = 2"
| "runnerWork Draining = 1"
| "runnerWork Exited = 0"

definition workerWork :: "'r worker \<Rightarrow> nat" where
  "workerWork w = length (wk_appendC w) + runnerWork (wk_run w)"

fun placeWork :: "stop_place option \<Rightarrow> nat" where
  "placeWork None = 6"
| "placeWork (Some p) = 5 - placeRank p"

definition lockWork :: "stopper option \<Rightarrow> nat" where
  "lockWork l = (case l of None \<Rightarrow> 0 | Some st \<Rightarrow> 7 * length (st_todo st) + placeWork (st_place st))"

definition stopWork :: "'r appenders \<Rightarrow> nat" where
  "stopWork s = lockWork (ap_lock s) + sum_list (map workerWork (ap_workers s))"

lemma work_put:
  assumes "i < length ws"
  shows "sum_list (map workerWork (ws[i := w])) + workerWork (ws ! i) = sum_list (map workerWork ws) + workerWork w"
proof -
  have "workerWork (ws ! i) \<le> sum_list (map workerWork ws)"
    using assms by (intro member_le_sum_list) simp_all
  then show ?thesis
    using assms by (simp add: map_update sum_list_update)
qed

lemma stopWorker_work: "stopWorker p w = Some (w', q) \<Longrightarrow> workerWork w' = workerWork w"
  by (cases p) (auto simp: workerWork_def split: if_splits)

lemma place_forward: "p < q \<Longrightarrow> placeWork (Some q) < placeWork (Some p)"
  by (cases p; cases q) (simp_all add: less_stop_place_def)

lemma inner_works:
  assumes "wellFormed s" and "inner a" and "act a s = Some s'"
  shows "stopWork s' < stopWork s"
  using assms(2)
proof (cases a)
  case (TakeRow i)
  then have "s' = updWorker i appendHead s" "i < length (ap_workers s)" "wk_appendC (ap_workers s ! i) \<noteq> []"
    using assms(3) by (simp_all add: takeRow_def split: if_splits)
  then show ?thesis
    using work_put [of i "ap_workers s" "appendHead (ap_workers s ! i)"]
    by (cases "wk_appendC (ap_workers s ! i)") (simp_all add: stopWork_def workerWork_def appendHead_def)
next
  case (TakeSignal i)
  then have "s' = updWorker i (\<lambda>w. w\<lparr>wk_run := Draining\<rparr>) s" "i < length (ap_workers s)" "wk_run (ap_workers s ! i) = Looping"
    using assms(3) by (simp_all add: takeSignal_def split: if_splits)
  then show ?thesis
    using work_put [of i "ap_workers s" "(ap_workers s ! i)\<lparr>wk_run := Draining\<rparr>"] by (simp add: stopWork_def workerWork_def)
next
  case (LeaveLoop i)
  then have "s' = updWorker i (\<lambda>w. w\<lparr>wk_run := Exited\<rparr>) s" "i < length (ap_workers s)" "wk_run (ap_workers s ! i) = Draining"
    using assms(3) by (simp_all add: leaveLoop_def split: if_splits)
  then show ?thesis
    using work_put [of i "ap_workers s" "(ap_workers s ! i)\<lparr>wk_run := Exited\<rparr>"] by (simp add: stopWork_def workerWork_def)
next
  case (Visit now)
  then show ?thesis
    using assms(3) by (auto simp: visitNext_def stopWork_def lockWork_def split: option.splits if_splits list.splits prod.splits)
next
  case StopGoesOn
  have "stopStep s = Some s'"
    using assms(3) StopGoesOn by simp
  then obtain st place n i rest w q where st: "ap_lock s = Some st" "st_place st = Some place" "st_todo st = (n, i) # rest"
    and w: "stopWorker place (ap_workers s ! i) = Some (w, q)"
    and s': "s' = updWorker i (\<lambda>_. w) (s\<lparr>ap_lock := Some (case q of Some p \<Rightarrow> st\<lparr>st_place := Some p\<rparr>
        | None \<Rightarrow> st\<lparr>st_todo := rest, st_deleting := st_deleting st @ [n], st_place := None\<rparr>)\<rparr>)"
    by (rule stopStep_eq)
  have "i < length (ap_workers s)"
    using assms(1) by (auto simp: wellFormed_def lockOK_def tableOK_def st)
  then have "sum_list (map workerWork (ap_workers s')) = sum_list (map workerWork (ap_workers s))"
    using work_put [of i "ap_workers s" w] stopWorker_work [OF w] by (simp add: s')
  moreover have "lockWork (ap_lock s') < lockWork (ap_lock s)"
  proof (cases q)
    case (Some p)
    then show ?thesis
      using place_forward [of place p] stopWorker_forward [of place _ w p] w by (simp add: s' lockWork_def st)
  next
    case None
    then show ?thesis
      by (cases place) (simp_all add: s' lockWork_def st)
  qed
  ultimately show ?thesis
    by (simp add: stopWork_def)
qed simp_all

lemma inner_bound: "wellFormed s \<Longrightarrow> list_all inner as \<Longrightarrow> run as s = Some s' \<Longrightarrow> length as + stopWork s' \<le> stopWork s"
proof (induction as arbitrary: s)
  case (Cons a as)
  then obtain t where t: "act a s = Some t" "run as t = Some s'"
    by (auto split: option.splits)
  have "length as + stopWork s' \<le> stopWork t"
    using Cons.prems t by (intro Cons.IH) (auto intro: act_wellFormed)
  then show ?case
    using inner_works [of s a t] Cons.prems t(1) by simp
qed simp

text \<open>Whoever holds the lock can go on, or the worker that is being stopped can.\<close>

lemma inner_enabled:
  assumes wf: "wellFormed s" and lock: "ap_lock s = Some st"
  shows "\<exists>a s'. inner a \<and> act a s = Some s'"
proof (cases "st_place st")
  case None
  then have "\<exists>s'. act (Visit 0) s = Some s'"
    by (auto simp: visitNext_def lock split: list.splits prod.splits)
  then show ?thesis
    using inner.simps(4) by blast
next
  case (Some p)
  then obtain n i rest where todo: "st_todo st = (n, i) # rest"
    using wf by (cases "st_todo st") (auto simp: wellFormed_def lockOK_def lock)
  have i: "i < length (ap_workers s)"
    using wf by (auto simp: wellFormed_def lockOK_def tableOK_def lock todo)
  have place: "placeOf i s = Some p"
    by (simp add: placeOf_def lock todo Some)
  have life: "lifeAt (Some p) (ap_workers s ! i)"
    using life_at [OF wf i] by (simp add: place)
  have goes: "\<exists>s'. act StopGoesOn s = Some s'" if "stopWorker p (ap_workers s ! i) = Some (w, q)" for w q
    using that by (cases q) (simp_all add: stopStep_def lock todo Some)
  show ?thesis
  proof (cases "p = StopWait")
    case False
    then show ?thesis
      using stopWorker_enabled [OF life] goes inner.simps(5) by blast
  next
    case True
    consider "wk_run (ap_workers s ! i) = Looping" | "wk_run (ap_workers s ! i) = Exited"
      | "wk_run (ap_workers s ! i) = Draining" "wk_appendC (ap_workers s ! i) = []"
      | "wk_run (ap_workers s ! i) = Draining" "wk_appendC (ap_workers s ! i) \<noteq> []"
      by (cases "wk_run (ap_workers s ! i)") auto
    then have "(\<exists>s'. act (TakeSignal i) s = Some s') \<or> (\<exists>s'. act StopGoesOn s = Some s')
        \<or> (\<exists>s'. act (LeaveLoop i) s = Some s') \<or> (\<exists>s'. act (TakeRow i) s = Some s')"
    proof cases
      case 1
      then show ?thesis
        using life i True by (simp add: takeSignal_def)
    next
      case 2
      then show ?thesis
        using goes True by simp
    next
      case 3
      then show ?thesis
        using i by (simp add: leaveLoop_def)
    next
      case 4
      then show ?thesis
        using i by (simp add: takeRow_def)
    qed
    then show ?thesis
      using inner.simps by blast
  qed
qed


text \<open>
  C14: A client that still has a worker whose appender has been closed never sends it another row: it waits forever on
  the nil channel, or panics if it had read the channel before.
\<close>

theorem closed_worker_blocks:
  assumes "run as (startAppenders n) = Some s" and "i < length (ap_workers s)" and "wk_closed (ap_workers s ! i)"
    and "c < length (ap_clients s)"
  shows "(ap_clients s ! c = Has i \<longrightarrow> readChan c v s = Some (setClient c (Stuck i) s))
    \<and> (ap_clients s ! c = Sending i v \<longrightarrow> sendRow c s = Some (setClient c (Panicked i) s))"
proof -
  have "wellFormed s"
    using formed.good_reached [OF assms(1)] by (simp add: list_all_iff)
  then have "wk_chan (ap_workers s ! i) = ChanNil"
    using closed_nil [OF life_at] assms(2,3) by blast
  then show ?thesis
    using assms(4) by (simp add: readChan_def sendRow_def)
qed

subsection \<open>Runs\<close>

text \<open>Two clients use a worker, which is then stopped for being idle.\<close>

definition idleRun :: "nat action list" where
  "idleRun = [Get 0 ''t'' 0 True, Read 0 7, Send 0, Get 1 ''T'' 1 True, TakeRow 0, Read 1 8, Send 1, Release 0, Release 1,
     IdleCheck [(''t'', 0)], Visit (maxIdle + 2), StopGoesOn]"

definition stopRun :: "nat action list" where
  "stopRun = [TakeSignal 0, TakeRow 0, LeaveLoop 0, StopGoesOn, StopGoesOn, StopGoesOn, StopGoesOn, Visit 0]"

text \<open>Three clients use a worker, which is stopped by name.\<close>

definition forcedRun :: "nat action list" where
  "forcedRun = [Get 0 ''t'' 0 True, Get 1 ''t'' 0 True, Get 2 ''t'' 0 True, Read 0 7, Read 2 8, FlushTables [''T''],
     Visit 0, StopGoesOn, TakeSignal 0, LeaveLoop 0, Send 0, StopGoesOn, StopGoesOn, Send 2, StopGoesOn, StopGoesOn, Visit 0]"

lemma lower_t: "toLowerAscii CHR ''t'' = CHR ''t''" "toLowerAscii CHR ''T'' = CHR ''t''"
  by code_simp+

lemmas run_eval = act_defs startAppenders_def newWorker_def appendHead_def updWorker_def setClient_def chanCap_def maxIdle_def
  isOrder_def lower_t Let_def numeral_2_eq_2 numeral_3_eq_3

definition lastWorker :: "bool \<Rightarrow> nat list \<Rightarrow> nat list \<Rightarrow> nat worker" where
  "lastWorker used sent got = \<lparr>wk_table = ''t'', wk_lastTime = (if used then 0 else 1), wk_refCount = (if used then 3 else 0), wk_appendC = drop (length got) sent,
     wk_chan = ChanNil, wk_stopped = True, wk_run = Exited, wk_sent = sent, wk_appended = got, wk_closed = True\<rparr>"

definition idleEnd :: "nat appenders" where
  "idleEnd = \<lparr>ap_workers = [lastWorker False [7, 8] [7, 8]], ap_table = [], ap_lock = None, ap_clients = [NoWorker, NoWorker]\<rparr>"

definition forcedEnd :: "nat appenders" where
  "forcedEnd = \<lparr>ap_workers = [lastWorker True [7] []], ap_table = [], ap_lock = None, ap_clients = [Has 0, Has 0, Panicked 0]\<rparr>"

lemma run_append: "run (as @ bs) s = (case run as s of Some s' \<Rightarrow> run bs s' | None \<Rightarrow> None)"
  by (induction as s rule: run.induct) (simp_all split: option.splits)

lemma idleRun_ok: "run (idleRun @ stopRun) (startAppenders 2) = Some idleEnd"
  by (simp add: idleEnd_def lastWorker_def idleRun_def stopRun_def run_eval)

lemma forcedRun_ok: "run forcedRun (startAppenders 3) = Some forcedEnd"
  by (simp add: forcedEnd_def lastWorker_def forcedRun_def run_eval)

theorem workers_exclusive_witness:
  "distinct (map wk_table (filter (\<lambda>w. \<not> wk_closed w) (ap_workers forcedEnd)))
    \<and> list_all (\<lambda>w. wk_sent w = wk_appended w @ wk_appendC w) (ap_workers forcedEnd)"
  by (rule workers_exclusive [OF forcedRun_ok])

theorem idle_stop_complete_witness:
  "list_all going (ap_clients idleEnd) \<and> list_all (\<lambda>w. \<not> wk_closed w \<or> wk_appended w = wk_sent w) (ap_workers idleEnd)"
  by (rule idle_stop_complete [OF idleRun_ok]) (simp add: idleRun_def stopRun_def)


theorem closed_worker_blocks_witness: "readChan 0 9 forcedEnd = Some (setClient 0 (Stuck 0) forcedEnd)"
  using closed_worker_blocks [OF forcedRun_ok, of 0 0 9] by (simp add: forcedEnd_def lastWorker_def)

text \<open>
  Stopping a worker that clients use loses a row: one sent after the worker has drained its channel is never
  handed over, though the client was told it was; of the other clients one has panicked and one waits forever when it
  sends its next row.
\<close>

theorem forced_stop_loses:
  "\<exists>as s w. run as (startAppenders 3) = Some s \<and> ap_workers s = [w] \<and> wk_closed w \<and> wk_sent w = [7 :: nat] \<and> wk_appended w = []
     \<and> ap_clients s = [Has 0, Stuck 0, Panicked 0]"
proof -
  have whole: "run (forcedRun @ [Read 1 9]) (startAppenders 3) = Some (setClient 1 (Stuck 0) forcedEnd)"
    by (simp add: run_append forcedRun_ok readChan_def) (simp add: forcedEnd_def lastWorker_def)
  show ?thesis
    by (rule exI [of _ "forcedRun @ [Read 1 9]"], rule exI [of _ "setClient 1 (Stuck 0) forcedEnd"],
        rule exI [of _ "lastWorker True [7] []"]) (use whole in \<open>simp add: forcedEnd_def lastWorker_def\<close>)
qed

end
