(* ===== verification/AppendColumns.thy ===== *)
theory AppendColumns
  imports AppendWorker
begin

text \<open>
  The appender a client gets when it names its columns, \<open>spi/append_worker.go\<close> \<open>WithInputColumns\<close> on: the names are
  looked up among the columns of the table, and a row of values is put in the order of the table before it goes
  to the channel of the worker.  Names are ASCII; the columns, the name and the type of the table are what the
  appender of the database tells.
\<close>

subsection \<open>Input columns\<close>

record input_column =
  ic_name :: string
  ic_idx :: int

definition placeColumn :: "nat \<times> string \<Rightarrow> input_column list \<Rightarrow> input_column list" where
  "placeColumn = (\<lambda>(idx, name). map (\<lambda>c. if name = ic_name c then c\<lparr>ic_idx := int idx\<rparr> else c))"

definition WithInputColumns :: "string list \<Rightarrow> string list \<Rightarrow> input_column list" where
  "WithInputColumns columns names =
     fold placeColumn (enumerate 0 columns) (map (\<lambda>n. \<lparr>ic_name = map toUpperAscii n, ic_idx = -1\<rparr>) names)"

subsection \<open>Rows\<close>

text \<open>A value of a row: \<open>nil\<close>, a value, or a slice of values that stands where one value should.\<close>

datatype 'v cell = Null | Cell 'v | Cells "'v cell list"

datatype append_error = ValueCount nat string nat | NotLogTable string

fun putValues :: "input_column list \<Rightarrow> 'v cell list \<Rightarrow> 'v cell list \<Rightarrow> (append_error, 'v cell list) res" where
  "putValues [] vals row = Ok row"
| "putValues (c # cs) [] row = Panic"
| "putValues (c # cs) (v # vals) row =
     (if 0 \<le> ic_idx c \<and> nat (ic_idx c) < length row then putValues cs vals (row[nat (ic_idx c) := v]) else Panic)"

definition AppendRow :: "string list \<Rightarrow> string \<Rightarrow> input_column list \<Rightarrow> 'v cell list \<Rightarrow> (append_error, 'v cell list) res" where
  "AppendRow columns table inputs vals =
     (if inputs = []
      then (if length columns \<noteq> length vals then Err (ValueCount (length vals) table (length columns)) else Ok vals)
      else putValues inputs vals (replicate (length columns) Null))"

text \<open>The row that is sent, or none although the caller is told that all is well.\<close>

definition AppendLogTimeRow :: "bool \<Rightarrow> string list \<Rightarrow> string \<Rightarrow> input_column list \<Rightarrow> 'v cell \<Rightarrow> 'v cell list
    \<Rightarrow> (append_error, 'v cell list option) res" where
  "AppendLogTimeRow isLog columns table inputs ts vals =
     (if \<not> isLog then Err (NotLogTable table)
      else case AppendRow columns table inputs [Cells (ts # vals)] of
        Ok row \<Rightarrow> Ok (Some row)
      | Err e \<Rightarrow> Ok None
      | Panic \<Rightarrow> Panic
      | NoFuel \<Rightarrow> NoFuel)"

text \<open>The same operation of a worker whose columns are not named.\<close>

definition WorkerLogTimeRow :: "bool \<Rightarrow> string \<Rightarrow> 'v cell \<Rightarrow> 'v cell list \<Rightarrow> (append_error, 'v cell list) res" where
  "WorkerLogTimeRow isLog table ts vals = (if isLog then Ok (ts # vals) else Err (NotLogTable table))"

subsection \<open>Where the columns are\<close>

definition putIndex :: "nat \<times> string \<Rightarrow> (string \<Rightarrow> int) \<Rightarrow> string \<Rightarrow> int" where
  "putIndex p f = f(snd p := int (fst p))"

lemma placeColumn_map:
  "placeColumn p (map (\<lambda>n. \<lparr>ic_name = n, ic_idx = f n\<rparr>) names) = map (\<lambda>n. \<lparr>ic_name = n, ic_idx = putIndex p f n\<rparr>) names"
  by (cases p) (simp add: placeColumn_def putIndex_def)

lemma fold_placeColumn:
  "fold placeColumn ps (map (\<lambda>n. \<lparr>ic_name = n, ic_idx = f n\<rparr>) names)
     = map (\<lambda>n. \<lparr>ic_name = n, ic_idx = fold putIndex ps f n\<rparr>) names"
  by (induction ps arbitrary: f) (simp_all add: placeColumn_map)

lemma fold_putIndex_other: "name \<notin> snd ` set ps \<Longrightarrow> fold putIndex ps f name = f name"
  by (induction ps arbitrary: f) (auto simp: putIndex_def)

lemma fold_putIndex_at: "distinct (map snd ps) \<Longrightarrow> (i, name) \<in> set ps \<Longrightarrow> fold putIndex ps f name = int i"
proof (induction ps arbitrary: f)
  case (Cons p ps)
  show ?case
  proof (cases "p = (i, name)")
    case True
    then show ?thesis
      using Cons.prems(1) fold_putIndex_other [of name ps "putIndex p f"] by (simp, simp add: putIndex_def)
  next
    case False
    then show ?thesis
      using Cons.prems Cons.IH by auto
  qed
qed simp

definition columnIndex :: "string list \<Rightarrow> string \<Rightarrow> int" where
  "columnIndex columns = fold putIndex (enumerate 0 columns) (\<lambda>_. -1)"

lemma WithInputColumns_map:
  "WithInputColumns columns names
     = map (\<lambda>n. \<lparr>ic_name = n, ic_idx = columnIndex columns n\<rparr>) (map (map toUpperAscii) names)"
  using fold_placeColumn [of "enumerate 0 columns" "\<lambda>_. -1" "map (map toUpperAscii) names"]
  by (simp add: WithInputColumns_def columnIndex_def comp_def)

lemma columnIndex_at:
  assumes "distinct columns" and "i < length columns"
  shows "columnIndex columns (columns ! i) = int i"
  unfolding columnIndex_def using assms by (intro fold_putIndex_at) (simp_all add: in_set_enumerate_eq)

lemma columnIndex_none: "name \<notin> set columns \<Longrightarrow> columnIndex columns name = -1"
  unfolding columnIndex_def by (subst fold_putIndex_other) (simp_all flip: set_map)

lemma columnIndex_eq:
  assumes "distinct columns" and "i < length columns"
  shows "columnIndex columns name = int i \<longleftrightarrow> name = columns ! i"
proof (cases "name \<in> set columns")
  case True
  then obtain k where "k < length columns" "name = columns ! k"
    by (auto simp: in_set_conv_nth)
  then show ?thesis
    using assms columnIndex_at [of columns k] by (auto simp: nth_eq_iff_index_eq)
next
  case False
  then show ?thesis
    using assms(2) columnIndex_none [OF False] by auto
qed

lemma columnIndex_range:
  assumes "distinct columns"
  shows "0 \<le> columnIndex columns name \<and> nat (columnIndex columns name) < length columns \<longleftrightarrow> name \<in> set columns"
proof (cases "name \<in> set columns")
  case True
  then show ?thesis
    using columnIndex_at [OF assms] by (auto simp: in_set_conv_nth)
qed (simp add: columnIndex_none)

subsection \<open>The row of the table\<close>

definition chosen :: "('k \<times> 'v cell) list \<Rightarrow> 'k \<Rightarrow> 'v cell \<Rightarrow> 'v cell" where
  "chosen kvs k d = (case map_of (rev kvs) k of Some v \<Rightarrow> v | None \<Rightarrow> d)"

lemma chosen_simps [simp]:
  "chosen [] k d = d" "chosen ((k', v) # kvs) k d = chosen kvs k (if k = k' then v else d)"
  by (simp_all add: chosen_def map_add_def split: option.splits)

lemma chosen_keys: "(\<And>n. n \<in> set names \<Longrightarrow> g n = i \<longleftrightarrow> n = x) \<Longrightarrow> chosen (zip (map g names) vals) i d = chosen (zip names vals) x d"
proof (induction names arbitrary: vals d)
  case (Cons n names)
  show ?case
  proof (cases vals)
    case (Cons v vs)
    then show ?thesis
      using Cons.prems Cons.IH by (simp add: eq_commute [of i] eq_commute [of x])
  qed simp
qed simp

lemma putValues_eq:
  "putValues ics vals row =
     (if (\<forall>c \<in> set ics. 0 \<le> ic_idx c \<and> nat (ic_idx c) < length row) \<and> length ics \<le> length vals
      then Ok (map (\<lambda>i. chosen (zip (map (\<lambda>c. nat (ic_idx c)) ics) vals) i (row ! i)) [0..<length row]) else Panic)"
proof (induction ics vals row rule: putValues.induct)
  case (1 vals row)
  then show ?case
    by (simp add: map_nth)
next
  case (3 c cs v vals row)
  then show ?case
    by (simp add: nth_list_update if_distrib cong: if_cong)
qed simp

text \<open>
  C15: A row appended with named columns: it is refused by a panic when a name is no column of the table or a value is
  missing; otherwise each column of the table holds the value of the last name that is its own, or \<open>nil\<close>.
\<close>

theorem append_columns:
  assumes "distinct columns" and "names \<noteq> []"
  shows "AppendRow columns table (WithInputColumns columns names) vals =
    (if set (map (map toUpperAscii) names) \<subseteq> set columns \<and> length names \<le> length vals
     then Ok (map (\<lambda>column. chosen (zip (map (map toUpperAscii) names) vals) column Null) columns) else Panic)"
proof -
  let ?names = "map (map toUpperAscii) names" and ?index = "\<lambda>n. nat (columnIndex columns n)"
  let ?ics = "WithInputColumns columns names"
  have ics: "?ics \<noteq> []" "length ?ics = length names" "map (\<lambda>c. nat (ic_idx c)) ?ics = map ?index ?names"
    using assms(2) by (simp_all add: WithInputColumns_map comp_def)
  have range: "(\<forall>c \<in> set ?ics. 0 \<le> ic_idx c \<and> nat (ic_idx c) < length columns) = (set ?names \<subseteq> set columns)"
    using columnIndex_range [OF assms(1)] by (auto simp: WithInputColumns_map)
  have row: "map (\<lambda>i. chosen (zip (map ?index ?names) vals) i (replicate (length columns) Null ! i)) [0..<length columns]
      = map (\<lambda>column. chosen (zip ?names vals) column Null) columns" if sub: "set ?names \<subseteq> set columns"
  proof (rule nth_equalityI)
    fix i
    assume "i < length (map (\<lambda>i. chosen (zip (map ?index ?names) vals) i (replicate (length columns) Null ! i)) [0..<length columns])"
    then have i: "i < length columns"
      by simp
    have "?index n = i \<longleftrightarrow> n = columns ! i" if "n \<in> set ?names" for n
      using columnIndex_eq [OF assms(1) i, of n] columnIndex_range [OF assms(1), of n] sub that by auto
    then have "chosen (zip (map ?index ?names) vals) i Null = chosen (zip ?names vals) (columns ! i) Null"
      by (rule chosen_keys)
    then show "map (\<lambda>i. chosen (zip (map ?index ?names) vals) i (replicate (length columns) Null ! i)) [0..<length columns] ! i
        = map (\<lambda>column. chosen (zip ?names vals) column Null) columns ! i"
      using i by simp
  qed simp
  show ?thesis
    using ics(1,2) range row by (simp add: AppendRow_def putValues_eq ics(3))
qed

theorem append_columns_witness:
  "AppendRow [''NAME'', ''TIME'', ''VALUE''] ''T'' (WithInputColumns [''NAME'', ''TIME'', ''VALUE''] [''value'', ''Name'']) [Cell 3, Cell 5]
     = Ok [Cell (5 :: nat), Null, Cell 3]"
  by (subst append_columns) (simp, simp, code_simp)

text \<open>
  \<open>AppendLogTime\<close> of an appender with named columns hands on the row as one value: nothing is sent, and nothing is said
  unless it panics, as long as the table has more than one column.
\<close>

theorem logtime_lost:
  assumes "length columns \<noteq> 1" and "length inputs \<noteq> 1"
  shows "AppendLogTimeRow True columns table inputs ts vals = (if inputs = [] then Ok None else Panic)"
  using assms by (cases inputs; cases "tl inputs") (auto simp: AppendLogTimeRow_def AppendRow_def)

theorem logtime_lost_witness:
  "AppendLogTimeRow True [''TIME'', ''VALUE''] ''T'' [] (Cell (1 :: nat)) [Cell 2] = Ok None"
  using logtime_lost [of "[''TIME'', ''VALUE'']" "[]" "''T''" "Cell (1 :: nat)" "[Cell 2]"] by simp

end
