(* ===== verification/GoPath.thy ===== *)
theory GoPath
  imports GoText
begin

text \<open>
  Slash-separated paths as Go's packages \<open>path\<close> and \<open>io/fs\<close> treat them: \<open>Clean\<close>, \<open>Dir\<close>, \<open>Base\<close>, \<open>ValidPath\<close>.  A
  valid path is a list of names joined by slashes; the lemmas carry each operation over to these lists.
\<close>

subsection \<open>The packages path and io/fs\<close>

definition slash :: char where
  "slash = CHR ''/''"

text \<open>\<open>path.Clean\<close>, name by name; the names kept so far are in reverse.\<close>

definition cleanStep :: "bool \<Rightarrow> string list \<Rightarrow> string \<Rightarrow> string list" where
  "cleanStep rooted acc c =
     (if c = '''' \<or> c = ''.'' then acc
      else if c = ''..'' then (case acc of
          [] \<Rightarrow> if rooted then [] else [c]
        | a # as \<Rightarrow> if a = ''..'' then c # acc else as)
      else c # acc)"

definition pathClean :: "string \<Rightarrow> string" where
  "pathClean p =
     (let rooted = hasPrefix p ''/'';
          out = (if rooted then ''/'' else '''') @ joinWith ''/'' (rev (foldl (cleanStep rooted) [] (splitOn p slash)))
      in if out = '''' then ''.'' else out)"

definition pathDir :: "string \<Rightarrow> string" where
  "pathDir p = pathClean (rev (dropWhile (\<lambda>c. c \<noteq> slash) (rev p)))"

definition pathBase :: "string \<Rightarrow> string" where
  "pathBase p =
     (if p = '''' then ''.''
      else let q = rev (takeWhile (\<lambda>c. c \<noteq> slash) (dropWhile (\<lambda>c. c = slash) (rev p))) in if q = '''' then ''/'' else q)"

definition validPath :: "string \<Rightarrow> bool" where
  "validPath p = (p = ''.'' \<or> list_all (\<lambda>c. c \<noteq> '''' \<and> c \<noteq> ''.'' \<and> c \<noteq> ''..'') (splitOn p slash))"

subsection \<open>Lists of names\<close>

definition goodName :: "string \<Rightarrow> bool" where
  "goodName c = (c \<noteq> '''' \<and> c \<noteq> ''.'' \<and> c \<noteq> ''..'' \<and> slash \<notin> set c)"

definition joinPath :: "string list \<Rightarrow> string" where
  "joinPath cs = (if cs = [] then ''.'' else joinWith ''/'' cs)"

definition names :: "string \<Rightarrow> string list" where
  "names p = (if p = ''.'' then [] else splitOn p slash)"

lemma joinWith_append: "xs \<noteq> [] \<Longrightarrow> ys \<noteq> [] \<Longrightarrow> joinWith sep (xs @ ys) = joinWith sep xs @ sep @ joinWith sep ys"
proof (induction sep xs rule: joinWith.induct)
  case (2 sep p)
  then show ?case
    by (cases ys) simp_all
qed simp_all

lemma joinWith_Cons: "ps \<noteq> [] \<Longrightarrow> joinWith sep (p # ps) = p @ sep @ joinWith sep ps"
  by (cases ps) simp_all

lemma good_slash: "list_all goodName cs \<Longrightarrow> \<forall>c \<in> set cs. slash \<notin> set c"
  by (auto simp: list_all_iff goodName_def)

lemma splitOn_good: "cs \<noteq> [] \<Longrightarrow> list_all goodName cs \<Longrightarrow> splitOn (joinWith ''/'' cs) slash = cs"
  using splitOn_join [of cs slash] good_slash by (simp add: slash_def)

lemma splitOn_more: "cs \<noteq> [] \<Longrightarrow> list_all goodName cs \<Longrightarrow> splitOn (joinWith ''/'' cs @ ''/'' @ r) slash = cs @ splitOn r slash"
proof (induction cs)
  case (Cons c cs)
  then have c: "slash \<notin> set c"
    by (simp add: goodName_def)
  show ?case
  proof (cases "cs = []")
    case True
    then show ?thesis
      using splitOn_append [OF c, of r] by (simp add: slash_def)
  next
    case False
    then have "splitOn (joinWith ''/'' cs @ ''/'' @ r) slash = cs @ splitOn r slash"
      using Cons.prems by (intro Cons.IH) simp_all
    then show ?thesis
      using False splitOn_append [OF c, of "joinWith ''/'' cs @ ''/'' @ r"] by (simp add: joinWith_Cons slash_def)
  qed
qed simp

lemma joinWith_not_dot: "cs \<noteq> [] \<Longrightarrow> list_all goodName cs \<Longrightarrow> joinWith ''/'' cs \<noteq> ''.'' \<and> joinWith ''/'' cs \<noteq> ''''"
proof -
  assume cs: "cs \<noteq> []" "list_all goodName cs"
  have "splitOn ''.'' slash = [''.'']" "splitOn '''' slash = ['''']"
    by (simp_all add: slash_def)
  then show ?thesis
    using splitOn_good [OF cs] cs by (auto simp: goodName_def)
qed

lemma names_joinPath [simp]: "list_all goodName cs \<Longrightarrow> names (joinPath cs) = cs"
  using joinWith_not_dot [of cs] splitOn_good [of cs] by (auto simp: names_def joinPath_def)

lemma joinPath_names: "validPath p \<Longrightarrow> joinPath (names p) = p"
  by (auto simp: names_def joinPath_def joinWith_splitOn [of slash, unfolded slash_def] slash_def)

lemma good_names: "validPath p \<Longrightarrow> list_all goodName (names p)"
  using splitOn_no_sep [of _ p slash] by (auto simp: names_def validPath_def list_all_iff goodName_def)

lemma validPath_joinPath [simp]: "list_all goodName cs \<Longrightarrow> validPath (joinPath cs)"
  using splitOn_good [of cs] by (auto simp: validPath_def joinPath_def list_all_iff goodName_def)

lemma validPath_iff: "validPath p \<longleftrightarrow> (\<exists>cs. list_all goodName cs \<and> p = joinPath cs)"
  using good_names joinPath_names validPath_joinPath by metis

lemma joinPath_inject: "list_all goodName cs \<Longrightarrow> list_all goodName ds \<Longrightarrow> joinPath cs = joinPath ds \<longleftrightarrow> cs = ds"
  using names_joinPath by metis

lemma joinPath_dot [simp]: "joinPath [] = ''.''" "list_all goodName cs \<Longrightarrow> joinPath cs = ''.'' \<longleftrightarrow> cs = []"
  using joinWith_not_dot [of cs] by (auto simp: joinPath_def)

subsection \<open>The operations on lists of names\<close>

lemma foldl_good: "list_all goodName cs \<Longrightarrow> foldl (cleanStep r) acc cs = rev cs @ acc"
  by (induction cs arbitrary: acc) (simp_all add: cleanStep_def goodName_def)

lemma good_not_rooted:
  assumes "cs \<noteq> []" "list_all goodName cs"
  shows "\<not> hasPrefix (joinWith ''/'' cs @ r) ''/''"
proof -
  obtain c cs' where cs: "cs = c # cs'" "goodName c"
    using assms by (cases cs) auto
  then obtain x c' where "c = x # c'" "x \<noteq> slash"
    by (cases c) (auto simp: goodName_def)
  then show ?thesis
    by (cases cs') (simp_all add: cs slash_def)
qed

lemma pathClean_good: "list_all goodName cs \<Longrightarrow> pathClean (joinPath cs) = joinPath cs"
  using good_not_rooted [of cs "[]"] splitOn_good [of cs] joinWith_not_dot [of cs]
  by (cases "cs = []") (simp_all add: pathClean_def joinPath_def foldl_good, simp add: cleanStep_def slash_def)

lemma pathClean_slash:
  assumes "cs \<noteq> []" "list_all goodName cs"
  shows "pathClean (joinWith ''/'' cs @ ''/'') = joinPath cs"
  using good_not_rooted [of cs "''/''"] splitOn_more [OF assms, of "[]"] joinWith_not_dot [OF assms] assms
  by (simp add: pathClean_def joinPath_def foldl_good cleanStep_def)

lemma pathDir_joinPath:
  assumes "list_all goodName cs"
  shows "pathDir (joinPath cs) = joinPath (butlast cs)"
proof (cases cs rule: rev_cases)
  case Nil
  then show ?thesis
    by (simp add: pathDir_def pathClean_def slash_def cleanStep_def)
next
  case (snoc ds c)
  then have c: "\<forall>x \<in> set (rev c). x \<noteq> slash" and ds: "list_all goodName ds"
    using assms by (auto simp: goodName_def)
  show ?thesis
  proof (cases "ds = []")
    case True
    have none: "dropWhile (\<lambda>x. x \<noteq> slash) (rev c) = []"
      using c by (simp only: dropWhile_eq_Nil_conv)
    have "pathDir (joinPath cs) = pathClean (rev (dropWhile (\<lambda>x. x \<noteq> slash) (rev c)))"
      by (simp add: snoc True pathDir_def joinPath_def)
    also have "\<dots> = ''.''"
      by (simp only: none) (simp add: pathClean_def cleanStep_def slash_def)
    finally show ?thesis
      by (simp add: snoc True)
  next
    case False
    then have "joinPath cs = joinWith ''/'' ds @ ''/'' @ c"
      using joinWith_append [of ds "[c]" "''/''"] by (simp add: snoc joinPath_def)
    then have "rev (joinPath cs) = rev c @ slash # rev (joinWith ''/'' ds)"
      by (simp add: slash_def)
    moreover have "dropWhile (\<lambda>x. x \<noteq> slash) (rev c @ slash # r) = slash # r" for r
      using c by (subst dropWhile_append2) auto
    ultimately have "rev (dropWhile (\<lambda>x. x \<noteq> slash) (rev (joinPath cs))) = joinWith ''/'' ds @ ''/''"
      by (simp only: rev.simps rev_rev_ident append.simps append_assoc) (simp add: slash_def)
    then show ?thesis
      using pathClean_slash [OF False ds] by (simp add: pathDir_def snoc)
  qed
qed

lemma pathBase_joinPath:
  assumes "list_all goodName cs" "cs \<noteq> []"
  shows "pathBase (joinPath cs) = last cs"
proof -
  obtain ds c where cs: "cs = ds @ [c]"
    using assms(2) by (cases cs rule: rev_cases) auto
  then have c: "\<forall>x \<in> set (rev c). x \<noteq> slash" "c \<noteq> []"
    using assms(1) by (auto simp: goodName_def)
  have "\<exists>r. rev (joinPath cs) = rev c @ r \<and> takeWhile (\<lambda>x. x \<noteq> slash) r = []"
  proof (cases "ds = []")
    case False
    then show ?thesis
      using joinWith_append [of ds "[c]" "''/''"] by (simp add: cs joinPath_def slash_def)
  qed (simp add: cs joinPath_def)
  then obtain r where r: "rev (joinPath cs) = rev c @ r" "takeWhile (\<lambda>x. x \<noteq> slash) r = []"
    by blast
  have "dropWhile (\<lambda>x. x = slash) (rev c @ r) = rev c @ r"
    using c by (cases c rule: rev_cases) auto
  moreover have "takeWhile (\<lambda>x. x \<noteq> slash) (rev c @ r) = rev c"
    using c(1) r(2) by (subst takeWhile_append2) auto
  moreover have "joinPath cs \<noteq> ''''"
    using r(1) c(2) by auto
  ultimately show ?thesis
    using c(2) by (simp add: pathBase_def r(1)) (simp add: cs)
qed

text \<open>A path lies under another when it goes on after it with a slash.\<close>

lemma hasPrefix_joinPath:
  assumes "list_all goodName cs" "cs \<noteq> []" "list_all goodName ds"
  shows "hasPrefix (joinPath ds) (joinPath cs @ ''/'') \<longleftrightarrow> (\<exists>es. es \<noteq> [] \<and> ds = cs @ es)"
proof
  assume "hasPrefix (joinPath ds) (joinPath cs @ ''/'')"
  then obtain r where r: "joinPath ds = joinWith ''/'' cs @ ''/'' @ r"
    using assms(2) by (auto simp: hasPrefix_iff joinPath_def split: if_splits)
  have "ds \<noteq> []"
    using r joinWith_not_dot [OF assms(2,1)] by (cases "joinWith ''/'' cs") auto
  then have "splitOn (joinPath ds) slash = ds"
    using splitOn_good assms(3) by (simp add: joinPath_def)
  then have "ds = cs @ splitOn r slash"
    using splitOn_more [OF assms(2,1)] r by simp
  then show "\<exists>es. es \<noteq> [] \<and> ds = cs @ es"
    by auto
next
  assume "\<exists>es. es \<noteq> [] \<and> ds = cs @ es"
  then show "hasPrefix (joinPath ds) (joinPath cs @ ''/'')"
    using assms(2) by (auto simp: joinPath_def joinWith_append hasPrefix_iff)
qed

lemma trimPrefix_joinPath: "cs \<noteq> [] \<Longrightarrow> es \<noteq> [] \<Longrightarrow> trimPrefix (joinPath (cs @ es)) (joinPath cs @ ''/'') = joinPath es"
  using trimPrefix_append [of "joinWith ''/'' cs @ ''/''"] by (simp add: joinPath_def joinWith_append)

lemma joinPath_append: "cs \<noteq> [] \<Longrightarrow> es \<noteq> [] \<Longrightarrow> joinPath cs @ ''/'' @ joinPath es = joinPath (cs @ es)"
  by (simp add: joinPath_def joinWith_append)

end
