(* ===== verification/VirtualFs.thy ===== *)
theory VirtualFs
  imports GoPath Prelude "HOL-Library.AList" "HOL-Library.Word" "HOL-Library.List_Lexorder" "HOL-Library.Char_ord"
begin

unbundle bit_operations_syntax

text \<open>
  The file system in memory of the JavaScript shell, \<open>jsh/engine/virtual_fs.go\<close>.  The two maps of the program are
  association lists with one entry for each path; where the code ranges over a map, the order of the list is the
  order of that run.  Times are nanoseconds since 1970; file names hold no code point above U+00FF.  A lazy loader is
  called through the parameter \<open>load\<close>, for it is the code of the caller.
\<close>

subsection \<open>Files, directories, errors\<close>

record vprop =
  vp_create :: int
  vp_mod :: int
  vp_mode :: "32 word"

datatype 'l vcontent = Bytes string | Loader 'l

record 'l ventry =
  ve_content :: "'l vcontent"
  ve_prop :: vprop

record 'l virtual_fs =
  vf_dirs :: "(string \<times> vprop) list"
  vf_files :: "(string \<times> 'l ventry) list"

datatype fs_err = ErrInvalid | ErrExist | ErrNotExist | ErrPermission

datatype path_error = PathError string string fs_err

definition NewVirtualFS :: "'l virtual_fs" where
  "NewVirtualFS = \<lparr>vf_dirs = [], vf_files = []\<rparr>"

fun getData :: "('l \<Rightarrow> string) \<Rightarrow> 'l ventry \<Rightarrow> string" where
  "getData load e = (case ve_content e of Loader l \<Rightarrow> load l | Bytes d \<Rightarrow> d)"

definition zeroTime :: int where
  "zeroTime = - 62135596800 * 10 ^ 9"

definition defaultTimestamp :: int where
  "defaultTimestamp = 1772757478 * 10 ^ 9"

definition modeDir :: "32 word" where
  "modeDir = push_bit 31 1"

definition modePerm :: "32 word \<Rightarrow> 32 word" where
  "modePerm m = m AND 0x1FF"

definition normalizeVirtualProperty :: "vprop \<Rightarrow> vprop" where
  "normalizeVirtualProperty p =
     (let modified = (if vp_mod p = zeroTime then defaultTimestamp else vp_mod p)
      in \<lparr>vp_create = (if vp_create p = zeroTime then modified else vp_create p), vp_mod = modified,
          vp_mode = (if vp_mode p = 0 then 0x1A4 else vp_mode p) AND NOT modeDir\<rparr>)"

definition noProp :: vprop where
  "noProp = \<lparr>vp_create = zeroTime, vp_mod = zeroTime, vp_mode = 0\<rparr>"

definition dirProp :: "int \<Rightarrow> vprop" where
  "dirProp stamp = normalizeVirtualProperty \<lparr>vp_create = stamp, vp_mod = stamp, vp_mode = modeDir OR 0x1ED\<rparr>"

subsection \<open>Paths\<close>

definition normalizeVirtualPath :: "string \<Rightarrow> string \<Rightarrow> bool \<Rightarrow> (path_error, string) res" where
  "normalizeVirtualPath op name allowRoot =
     (let n = (if name = '''' then ''.'' else name);
          cleaned = pathClean (trimPrefix n ''/'')
      in if cleaned = ''.'' then (if allowRoot then Ok ''.'' else Err (PathError op n ErrInvalid))
         else if cleaned = ''..'' \<or> hasPrefix cleaned ''../'' then Err (PathError op n ErrInvalid)
         else if \<not> validPath cleaned then Err (PathError op n ErrInvalid)
         else Ok cleaned)"

text \<open>A path and those above it, up to the root: what \<open>path.Dir\<close> walks through.\<close>

fun upwards :: "nat \<Rightarrow> string \<Rightarrow> string list" where
  "upwards 0 rel = []"
| "upwards (Suc n) rel = (if rel = ''.'' then [] else rel # upwards n (pathDir rel))"

definition chain :: "string \<Rightarrow> string list" where
  "chain rel = upwards (length rel) rel"

definition isFile :: "'l virtual_fs \<Rightarrow> string \<Rightarrow> bool" where
  "isFile s p = (map_of (vf_files s) p \<noteq> None)"

definition isFolder :: "'l virtual_fs \<Rightarrow> string \<Rightarrow> bool" where
  "isFolder s p = (map_of (vf_dirs s) p \<noteq> None)"

definition parentIsFile :: "'l virtual_fs \<Rightarrow> string \<Rightarrow> bool" where
  "parentIsFile s rel = list_ex (isFile s) (chain (pathDir rel))"

definition hasDescendant :: "'l virtual_fs \<Rightarrow> string \<Rightarrow> bool" where
  "hasDescendant s rel =
     (list_ex (\<lambda>k. hasPrefix k (rel @ ''/'')) (map fst (vf_dirs s))
      \<or> list_ex (\<lambda>k. hasPrefix k (rel @ ''/'')) (map fst (vf_files s)))"

definition hasDir :: "'l virtual_fs \<Rightarrow> string \<Rightarrow> bool" where
  "hasDir s rel = (rel = ''.'' \<or> isFolder s rel \<or> hasDescendant s rel)"

definition dirPropOf :: "'l virtual_fs \<Rightarrow> string \<Rightarrow> vprop option" where
  "dirPropOf s rel =
     (if rel = ''.'' then Some (normalizeVirtualProperty (noProp\<lparr>vp_mode := modeDir OR 0x1ED\<rparr>))
      else map_option normalizeVirtualProperty (map_of (vf_dirs s) rel))"

subsection \<open>Directories above a path\<close>

definition putDir :: "string \<Rightarrow> vprop \<Rightarrow> 'l virtual_fs \<Rightarrow> 'l virtual_fs" where
  "putDir p prop s = s\<lparr>vf_dirs := AList.update p prop (vf_dirs s)\<rparr>"

definition putFile :: "string \<Rightarrow> 'l ventry \<Rightarrow> 'l virtual_fs \<Rightarrow> 'l virtual_fs" where
  "putFile p e s = s\<lparr>vf_files := AList.update p e (vf_files s)\<rparr>"

fun ensureDirs :: "string list \<Rightarrow> int \<Rightarrow> 'l virtual_fs \<Rightarrow> 'l virtual_fs" where
  "ensureDirs [] stamp s = s"
| "ensureDirs (p # ps) stamp s =
     (if isFile s p then s
      else let s' = ensureDirs ps stamp s in if isFolder s' p then s' else putDir p (dirProp stamp) s')"

definition ensureDir :: "string \<Rightarrow> int \<Rightarrow> 'l virtual_fs \<Rightarrow> 'l virtual_fs" where
  "ensureDir rel stamp s = ensureDirs (chain rel) stamp s"

definition ensureParentDirs :: "string \<Rightarrow> int \<Rightarrow> 'l virtual_fs \<Rightarrow> 'l virtual_fs" where
  "ensureParentDirs rel stamp s = ensureDir (pathDir rel) stamp s"

fun touchDirs :: "string list \<Rightarrow> int \<Rightarrow> 'l virtual_fs \<Rightarrow> 'l virtual_fs" where
  "touchDirs [] stamp s = s"
| "touchDirs (p # ps) stamp s =
     touchDirs ps stamp (case map_of (vf_dirs s) p of
       Some prop \<Rightarrow> putDir p (normalizeVirtualProperty (prop\<lparr>vp_mod := stamp\<rparr>)) s | None \<Rightarrow> s)"

definition touchParentDirs :: "string \<Rightarrow> int \<Rightarrow> 'l virtual_fs \<Rightarrow> 'l virtual_fs" where
  "touchParentDirs rel stamp s = touchDirs (chain (pathDir rel)) stamp s"

fun cleanupDirs :: "string list \<Rightarrow> 'l virtual_fs \<Rightarrow> 'l virtual_fs" where
  "cleanupDirs [] s = s"
| "cleanupDirs (p # ps) s =
     (if \<not> isFolder s p then cleanupDirs ps s
      else if hasDescendant s p then s
      else cleanupDirs ps (s\<lparr>vf_dirs := AList.delete p (vf_dirs s)\<rparr>))"

definition cleanupParentDirs :: "string \<Rightarrow> 'l virtual_fs \<Rightarrow> 'l virtual_fs" where
  "cleanupParentDirs rel s = cleanupDirs (chain rel) s"

subsection \<open>Writing\<close>

datatype 'l any_content = FileContent string | ByteSlice string | TextContent string | LazyContent 'l | OtherContent

fun toContent :: "'l any_content \<Rightarrow> (path_error, 'l vcontent) res" where
  "toContent (LazyContent l) = Ok (Loader l)"
| "toContent (FileContent d) = Ok (Bytes d)"
| "toContent (ByteSlice d) = Ok (Bytes d)"
| "toContent (TextContent d) = Ok (Bytes d)"
| "toContent OtherContent = Err (PathError ''create'' '''' ErrInvalid)"

definition AddFile :: "string \<Rightarrow> 'l any_content \<Rightarrow> vprop \<Rightarrow> 'l virtual_fs \<Rightarrow> (path_error, 'l virtual_fs) res" where
  "AddFile name content prop s =
     rbind (normalizeVirtualPath ''create'' name False) (\<lambda>rel.
     rbind (toContent content) (\<lambda>data.
       if isFolder s rel \<or> isFile s rel then Err (PathError ''create'' name ErrExist)
       else if parentIsFile s rel then Err (PathError ''create'' name ErrInvalid)
       else if hasDescendant s rel then Err (PathError ''create'' name ErrInvalid)
       else let prop' = normalizeVirtualProperty prop
            in Ok (putFile rel \<lparr>ve_content = data, ve_prop = prop'\<rparr> (ensureParentDirs rel (vp_mod prop') s))))"

definition WriteFile :: "string \<Rightarrow> string \<Rightarrow> 'l virtual_fs \<Rightarrow> (path_error, 'l virtual_fs) res" where
  "WriteFile name data s =
     rbind (normalizeVirtualPath ''writefile'' name False) (\<lambda>rel.
       let write = (\<lambda>stamp mode.
             let prop = normalizeVirtualProperty \<lparr>vp_create = stamp, vp_mod = zeroTime, vp_mode = mode\<rparr>
             in Ok (putFile rel \<lparr>ve_content = Bytes data, ve_prop = prop\<rparr> (ensureParentDirs rel (vp_mod prop) s)))
       in if isFolder s rel then Err (PathError ''writefile'' name ErrInvalid)
          else if parentIsFile s rel then Err (PathError ''writefile'' name ErrInvalid)
          else case map_of (vf_files s) rel of
            Some e \<Rightarrow> (case ve_content e of
                Loader l \<Rightarrow> Err (PathError ''writefile'' name ErrPermission)
              | Bytes d \<Rightarrow> write (vp_create (ve_prop e)) (vp_mode (ve_prop e)))
          | None \<Rightarrow> write defaultTimestamp 0)"

definition AppendFile :: "string \<Rightarrow> string \<Rightarrow> 'l virtual_fs \<Rightarrow> (path_error, 'l virtual_fs) res" where
  "AppendFile name data s =
     rbind (normalizeVirtualPath ''appendfile'' name False) (\<lambda>rel.
       if isFolder s rel then Err (PathError ''appendfile'' name ErrInvalid)
       else if parentIsFile s rel then Err (PathError ''appendfile'' name ErrInvalid)
       else case map_of (vf_files s) rel of
         Some e \<Rightarrow> (case ve_content e of
             Loader l \<Rightarrow> Err (PathError ''appendfile'' name ErrPermission)
           | Bytes d \<Rightarrow> Ok (touchParentDirs rel defaultTimestamp
               (putFile rel \<lparr>ve_content = Bytes (d @ data), ve_prop = (ve_prop e)\<lparr>vp_mod := defaultTimestamp\<rparr>\<rparr> s)))
       | None \<Rightarrow>
           let prop = normalizeVirtualProperty noProp
           in Ok (putFile rel \<lparr>ve_content = Bytes data, ve_prop = prop\<rparr> (ensureParentDirs rel (vp_mod prop) s)))"

definition Mkdir :: "string \<Rightarrow> 'l virtual_fs \<Rightarrow> (path_error, 'l virtual_fs) res" where
  "Mkdir name s =
     rbind (normalizeVirtualPath ''mkdir'' name False) (\<lambda>rel.
       if isFile s rel then Err (PathError ''mkdir'' name ErrExist)
       else if parentIsFile s rel then Err (PathError ''mkdir'' name ErrInvalid)
       else Ok (ensureDir rel defaultTimestamp s))"

subsection \<open>Attributes\<close>

definition Chmod :: "string \<Rightarrow> 32 word \<Rightarrow> 'l virtual_fs \<Rightarrow> (path_error, 'l virtual_fs) res" where
  "Chmod name mode s =
     rbind (normalizeVirtualPath ''chmod'' name True) (\<lambda>rel.
       if rel = ''.'' then Ok s
       else case map_of (vf_files s) rel of
         Some e \<Rightarrow> Ok (putFile rel (e\<lparr>ve_prop := (ve_prop e)
             \<lparr>vp_mode := vp_mode (normalizeVirtualProperty (noProp\<lparr>vp_mode := mode\<rparr>)), vp_mod := defaultTimestamp\<rparr>\<rparr>) s)
       | None \<Rightarrow> (case map_of (vf_dirs s) rel of
           Some prop \<Rightarrow> Ok (putDir rel (normalizeVirtualProperty (prop\<lparr>vp_mode := mode, vp_mod := defaultTimestamp\<rparr>)) s)
         | None \<Rightarrow>
             (if hasDir s rel
              then Ok (putDir rel (normalizeVirtualProperty
                     \<lparr>vp_create = defaultTimestamp, vp_mod = defaultTimestamp, vp_mode = mode\<rparr>) s)
              else Err (PathError ''chmod'' name ErrNotExist))))"

definition Chown :: "string \<Rightarrow> 'l virtual_fs \<Rightarrow> (path_error, 'l virtual_fs) res" where
  "Chown name s =
     rbind (normalizeVirtualPath ''chown'' name True) (\<lambda>rel.
       if rel = ''.'' \<or> hasDir s rel \<or> isFile s rel then Ok s else Err (PathError ''chown'' name ErrNotExist))"

subsection \<open>Moving and removing\<close>

definition inside :: "string \<Rightarrow> string \<Rightarrow> bool" where
  "inside rel k = (k = rel \<or> hasPrefix k (rel @ ''/''))"

definition moved :: "string \<Rightarrow> string \<Rightarrow> string \<Rightarrow> string" where
  "moved oldRel newRel k = (if k = oldRel then newRel else (newRel @ ''/'') @ trimPrefix k (oldRel @ ''/''))"

definition moveDirs :: "string \<Rightarrow> string \<Rightarrow> (string \<times> vprop) list \<Rightarrow> (string \<times> vprop) list" where
  "moveDirs oldRel newRel ds =
     (let newDirs = map (\<lambda>(k, p). (moved oldRel newRel k, p)) (filter (\<lambda>(k, p). inside oldRel k) ds);
          newDirs' = (if newDirs = [] then [(newRel, dirProp zeroTime)] else newDirs)
      in fold (\<lambda>(k, p). AList.update k p) newDirs' (filter (\<lambda>(k, p). \<not> inside oldRel k) ds))"

definition moveFiles :: "string \<Rightarrow> string \<Rightarrow> (string \<times> 'l ventry) list \<Rightarrow> (string \<times> 'l ventry) list" where
  "moveFiles oldRel newRel fs =
     fold (\<lambda>(k, e). AList.update k e)
       (map (\<lambda>(k, e). (moved oldRel newRel k, e)) (filter (\<lambda>(k, e). hasPrefix k (oldRel @ ''/'')) fs))
       (filter (\<lambda>(k, e). \<not> hasPrefix k (oldRel @ ''/'')) fs)"

definition moveEntry :: "string \<Rightarrow> string \<Rightarrow> string \<Rightarrow> 'l virtual_fs \<Rightarrow> (path_error, 'l virtual_fs) res" where
  "moveEntry oldName oldRel newRel s =
     (case map_of (vf_files s) oldRel of
        Some e \<Rightarrow>
          Ok (cleanupParentDirs (pathDir oldRel)
                (putFile newRel e
                  (ensureParentDirs newRel (vp_mod (ve_prop e)) (s\<lparr>vf_files := AList.delete oldRel (vf_files s)\<rparr>))))
      | None \<Rightarrow>
          (if \<not> isFolder s oldRel \<and> \<not> hasDescendant s oldRel then Err (PathError ''rename'' oldName ErrNotExist)
           else let s1 = ensureParentDirs newRel defaultTimestamp s
                in Ok (cleanupParentDirs (pathDir oldRel)
                     \<lparr>vf_dirs = moveDirs oldRel newRel (vf_dirs s1), vf_files = moveFiles oldRel newRel (vf_files s1)\<rparr>)))"

definition Rename :: "string \<Rightarrow> string \<Rightarrow> 'l virtual_fs \<Rightarrow> (path_error, 'l virtual_fs) res" where
  "Rename oldName newName s =
     rbind (normalizeVirtualPath ''rename'' oldName False) (\<lambda>oldRel.
     rbind (normalizeVirtualPath ''rename'' newName False) (\<lambda>newRel.
       if oldRel = newRel
       then (if isFile s oldRel \<or> isFolder s oldRel \<or> hasDir s oldRel then Ok s
             else Err (PathError ''rename'' oldName ErrNotExist))
       else if isFile s newRel \<or> isFolder s newRel \<or> hasDescendant s newRel then Err (PathError ''rename'' newName ErrExist)
       else if parentIsFile s newRel then Err (PathError ''rename'' newName ErrInvalid)
       else if pathDir newRel \<noteq> ''.'' \<and> \<not> hasDir s (pathDir newRel) then Err (PathError ''rename'' newName ErrNotExist)
       else moveEntry oldName oldRel newRel s))"

definition Remove :: "string \<Rightarrow> 'l virtual_fs \<Rightarrow> (path_error, 'l virtual_fs) res" where
  "Remove name s =
     rbind (normalizeVirtualPath ''remove'' name True) (\<lambda>rel.
       if rel = ''.''
       then (if vf_files s = [] \<and> vf_dirs s = [] then Err (PathError ''remove'' name ErrNotExist) else Ok NewVirtualFS)
       else if isFile s rel
       then Ok (cleanupParentDirs (pathDir rel) (s\<lparr>vf_files := AList.delete rel (vf_files s)\<rparr>))
       else if \<not> isFolder s rel \<and> \<not> hasDescendant s rel then Err (PathError ''remove'' name ErrNotExist)
       else Ok (cleanupParentDirs (pathDir rel)
              \<lparr>vf_dirs = filter (\<lambda>(k, p). \<not> inside rel k) (vf_dirs s),
               vf_files = filter (\<lambda>(k, e). \<not> hasPrefix k (rel @ ''/'')) (vf_files s)\<rparr>))"

subsection \<open>Reading\<close>

record file_info =
  fi_name :: string
  fi_size :: int
  fi_mode :: "32 word"
  fi_mod :: int
  fi_create :: int
  fi_isDir :: bool

definition buildVirtualFileInfo :: "string \<Rightarrow> bool \<Rightarrow> int \<Rightarrow> vprop \<Rightarrow> file_info" where
  "buildVirtualFileInfo name isDir n prop =
     \<lparr>fi_name = name, fi_size = n,
      fi_mode = (if isDir then modeDir OR (if modePerm (vp_mode prop) = 0 then 0x1ED else modePerm (vp_mode prop)) else vp_mode prop),
      fi_mod = vp_mod prop, fi_create = vp_create prop, fi_isDir = isDir\<rparr>"

definition dirName :: "string \<Rightarrow> string" where
  "dirName rel = (if rel = ''.'' then ''.'' else pathBase rel)"

definition fileInfo :: "('l \<Rightarrow> string) \<Rightarrow> string \<Rightarrow> 'l ventry \<Rightarrow> file_info" where
  "fileInfo load name e = buildVirtualFileInfo name False (int (length (getData load e))) (ve_prop e)"

text \<open>The children of a directory: what the two loops of \<open>readDirLocked\<close> find, in the order of the maps.\<close>

datatype 'l vchild = ChildDir "vprop option" | ChildFile "'l ventry"

definition restOf :: "string \<Rightarrow> string \<Rightarrow> string option" where
  "restOf rel k =
     (let prefix = (if rel = ''.'' then '''' else rel @ ''/'')
      in if prefix \<noteq> '''' \<and> \<not> hasPrefix k prefix then None
         else if trimPrefix k prefix = '''' then None else Some (trimPrefix k prefix))"

definition cutName :: "string \<Rightarrow> string \<times> bool" where
  "cutName rest = (takeWhile (\<lambda>c. c \<noteq> slash) rest, slash \<in> set rest)"

definition addChild :: "string \<Rightarrow> ('p \<Rightarrow> 'l vchild) \<Rightarrow> string \<times> 'p \<Rightarrow> (string \<times> 'l vchild) list \<Rightarrow> (string \<times> 'l vchild) list" where
  "addChild rel own = (\<lambda>(k, p) ch. case restOf rel k of
       None \<Rightarrow> ch
     | Some rest \<Rightarrow> (case cutName rest of (name, found) \<Rightarrow> AList.update name (if found then ChildDir None else own p) ch))"

definition childrenOf :: "string \<Rightarrow> 'l virtual_fs \<Rightarrow> (string \<times> 'l vchild) list" where
  "childrenOf rel s =
     fold (addChild rel (\<lambda>p. ChildDir (Some (normalizeVirtualProperty p)))) (vf_dirs s) (fold (addChild rel ChildFile) (vf_files s) [])"

fun childInfo :: "('l \<Rightarrow> string) \<Rightarrow> string \<Rightarrow> 'l vchild \<Rightarrow> file_info" where
  "childInfo load name (ChildFile e) = fileInfo load name e"
| "childInfo load name (ChildDir None) = buildVirtualFileInfo name True 0 (dirProp zeroTime)"
| "childInfo load name (ChildDir (Some p)) = buildVirtualFileInfo name True 0 (normalizeVirtualProperty p)"

definition readDirLocked :: "('l \<Rightarrow> string) \<Rightarrow> string \<Rightarrow> 'l virtual_fs \<Rightarrow> file_info list" where
  "readDirLocked load rel s =
     (let ch = childrenOf rel s in map (\<lambda>name. childInfo load name (the (map_of ch name))) (sort (map fst ch)))"

definition ReadDir :: "('l \<Rightarrow> string) \<Rightarrow> string \<Rightarrow> 'l virtual_fs \<Rightarrow> (path_error, file_info list) res" where
  "ReadDir load name s =
     rbind (normalizeVirtualPath ''readdir'' name True) (\<lambda>rel.
       if \<not> hasDir s rel then Err (PathError ''readdir'' name ErrNotExist) else Ok (readDirLocked load rel s))"

definition ReadFile :: "('l \<Rightarrow> string) \<Rightarrow> string \<Rightarrow> 'l virtual_fs \<Rightarrow> (path_error, string) res" where
  "ReadFile load name s =
     rbind (normalizeVirtualPath ''readfile'' name False) (\<lambda>rel.
       case map_of (vf_files s) rel of
         None \<Rightarrow> Err (PathError ''readfile'' name ErrNotExist)
       | Some e \<Rightarrow> Ok (getData load e))"

definition Stat :: "('l \<Rightarrow> string) \<Rightarrow> string \<Rightarrow> 'l virtual_fs \<Rightarrow> (path_error, file_info) res" where
  "Stat load name s =
     rbind (normalizeVirtualPath ''stat'' name True) (\<lambda>rel.
       case map_of (vf_files s) rel of
         Some e \<Rightarrow> Ok (fileInfo load (pathBase rel) e)
       | None \<Rightarrow> (case dirPropOf s rel of
           Some p \<Rightarrow> Ok (buildVirtualFileInfo (dirName rel) True 0 p)
         | None \<Rightarrow>
             (if hasDir s rel then Ok (buildVirtualFileInfo (dirName rel) True 0 (dirProp defaultTimestamp))
              else Err (PathError ''stat'' name ErrNotExist))))"

text \<open>An open file is a reader over its data; an open directory gives its entries in portions.\<close>

record open_dir =
  od_info :: file_info
  od_entries :: "file_info list"
  od_idx :: nat

datatype opened = OpenFile file_info string | OpenDir open_dir

definition zeroInfo :: "string \<Rightarrow> file_info" where
  "zeroInfo rel = buildVirtualFileInfo (dirName rel) True 0 (noProp\<lparr>vp_mode := modeDir OR 0x1ED\<rparr>)"

definition Open :: "('l \<Rightarrow> string) \<Rightarrow> string \<Rightarrow> 'l virtual_fs \<Rightarrow> (path_error, opened) res" where
  "Open load name s =
     rbind (normalizeVirtualPath ''open'' name True) (\<lambda>rel.
       case map_of (vf_files s) rel of
         Some e \<Rightarrow> Ok (OpenFile (fileInfo load (pathBase rel) e) (getData load e))
       | None \<Rightarrow>
           (if \<not> hasDir s rel then Err (PathError ''open'' name ErrNotExist)
            else Ok (OpenDir \<lparr>od_info = zeroInfo rel, od_entries = readDirLocked load rel s, od_idx = 0\<rparr>)))"

text \<open>The error of an open directory is \<open>io.EOF\<close>; a portion of no more than no entries is all that is left.\<close>

definition OpenDir_ReadDir :: "int \<Rightarrow> open_dir \<Rightarrow> file_info list option \<times> open_dir" where
  "OpenDir_ReadDir count d =
     (if length (od_entries d) \<le> od_idx d \<and> 0 < count then (None, d)
      else let last = (if count \<le> 0 then length (od_entries d) else min (od_idx d + nat count) (length (od_entries d)))
           in (Some (take (last - od_idx d) (drop (od_idx d) (od_entries d))), d\<lparr>od_idx := last\<rparr>))"

subsection \<open>Operations\<close>

datatype 'l fs_op =
    DoAdd string "'l any_content" vprop | DoWrite string string | DoAppend string string | DoMkdir string
  | DoChmod string "32 word" | DoChown string | DoRename string string | DoRemove string

fun perform :: "'l fs_op \<Rightarrow> 'l virtual_fs \<Rightarrow> (path_error, 'l virtual_fs) res" where
  "perform (DoAdd name content prop) s = AddFile name content prop s"
| "perform (DoWrite name data) s = WriteFile name data s"
| "perform (DoAppend name data) s = AppendFile name data s"
| "perform (DoMkdir name) s = Mkdir name s"
| "perform (DoChmod name mode) s = Chmod name mode s"
| "perform (DoChown name) s = Chown name s"
| "perform (DoRename oldName newName) s = Rename oldName newName s"
| "perform (DoRemove name) s = Remove name s"

text \<open>A failed operation leaves the file system as it is.\<close>

fun performAll :: "'l fs_op list \<Rightarrow> 'l virtual_fs \<Rightarrow> 'l virtual_fs" where
  "performAll [] s = s"
| "performAll (op # ops) s = performAll ops (case perform op s of Ok s' \<Rightarrow> s' | _ \<Rightarrow> s)"

end
