(* ===== verification/VirtualFsProps.thy ===== *)
theory VirtualFsProps
  imports VirtualFs "HOL-Library.Sublist"
begin

text \<open>
  What the virtual file system promises: its two maps describe a tree, every operation keeps it one, and the
  contents of files change as the operation says.  The one exception is a directory that is moved into itself.
\<close>

subsection \<open>Paths as lists of names\<close>

text \<open>A list of names and its non-empty beginnings, the longest first.\<close>

fun heads :: "string list \<Rightarrow> string list list" where
  "heads [] = []"
| "heads (c # cs) = (c # cs) # heads (butlast (c # cs))"

lemma heads_eq: "heads cs = (if cs = [] then [] else cs # heads (butlast cs))"
  by (cases cs) simp_all

lemma heads_snoc [simp]: "heads (cs @ [c]) = (cs @ [c]) # heads cs"
  using heads_eq [of "cs @ [c]"] by simp

lemma set_heads: "set (heads cs) = {ds. ds \<noteq> [] \<and> prefix ds cs}"
proof (induction cs rule: heads.induct)
  case (2 c cs)
  have "prefix ds (c # cs) \<longleftrightarrow> ds = c # cs \<or> prefix ds (butlast (c # cs))" for ds
    by (metis append_butlast_last_id list.distinct(1) prefix_snoc)
  then show ?case
    using 2 by auto
qed simp

lemma length_joinPath: "list_all goodName cs \<Longrightarrow> length cs \<le> length (joinPath cs)"
proof -
  have "length cs \<le> length (joinWith ''/'' cs)" if "list_all goodName cs" "cs \<noteq> []"
    using that
  proof (induction cs)
    case (Cons c cs)
    then have "1 \<le> length c"
      by (cases c) (simp_all add: goodName_def)
    then show ?case
      using Cons by (cases cs) (simp_all add: joinWith_Cons)
  qed simp
  then show "list_all goodName cs \<Longrightarrow> length cs \<le> length (joinPath cs)"
    by (simp add: joinPath_def)
qed

lemma good_butlast: "list_all goodName cs \<Longrightarrow> list_all goodName (butlast cs)"
  by (auto simp: list_all_iff dest: in_set_butlastD)

lemma good_prefix: "list_all goodName cs \<Longrightarrow> prefix ds cs \<Longrightarrow> list_all goodName ds"
  by (auto simp: prefix_def)

lemma upwards_joinPath: "list_all goodName cs \<Longrightarrow> length cs \<le> n \<Longrightarrow> upwards n (joinPath cs) = map joinPath (heads cs)"
proof (induction n arbitrary: cs)
  case (Suc n)
  show ?case
  proof (cases "cs = []")
    case False
    have "upwards n (joinPath (butlast cs)) = map joinPath (heads (butlast cs))"
      using Suc.prems by (intro Suc.IH good_butlast) simp_all
    then show ?thesis
      using Suc.prems(1) False heads_eq [of cs] by (simp add: pathDir_joinPath)
  qed simp
qed simp

lemma chain_joinPath: "list_all goodName cs \<Longrightarrow> chain (joinPath cs) = map joinPath (heads cs)"
  by (simp add: chain_def upwards_joinPath length_joinPath)

lemma normalize_ok:
  "normalizeVirtualPath op name b = Ok rel \<Longrightarrow> validPath rel \<and> (rel = ''.'' \<longrightarrow> b)"
  by (auto simp: normalizeVirtualPath_def Let_def validPath_def split: if_splits)

text \<open>The path a name stands for does not depend on the operation.\<close>

definition relOf :: "string \<Rightarrow> string" where
  "relOf name = (case normalizeVirtualPath '''' name True of Ok rel \<Rightarrow> rel | _ \<Rightarrow> '''')"

lemma normalize_relOf: "normalizeVirtualPath op name b = Ok rel \<Longrightarrow> relOf name = rel"
  by (auto simp: relOf_def normalizeVirtualPath_def Let_def split: if_splits)

lemma normalize_names:
  assumes "normalizeVirtualPath op name b = Ok rel"
  obtains cs where "list_all goodName cs" "rel = joinPath cs" "relOf name = rel" "cs = [] \<Longrightarrow> b"
proof -
  have "validPath rel" "relOf name = rel" "rel = ''.'' \<Longrightarrow> b"
    using normalize_ok [OF assms] normalize_relOf [OF assms] by simp_all
  then show ?thesis
    using that [of "names rel"] good_names [of rel] joinPath_names [of rel] by (metis joinPath_dot(1))
qed

subsection \<open>The tree\<close>

definition folders :: "'l virtual_fs \<Rightarrow> string list set" where
  "folders s = {cs. list_all goodName cs \<and> isFolder s (joinPath cs)}"

definition leaves :: "'l virtual_fs \<Rightarrow> string list set" where
  "leaves s = {cs. list_all goodName cs \<and> isFile s (joinPath cs)}"

definition shape :: "string list set \<Rightarrow> string list set \<Rightarrow> bool" where
  "shape D F = (D \<inter> F = {} \<and> [] \<notin> D \<union> F \<and> (\<forall>cs \<in> D \<union> F. butlast cs = [] \<or> butlast cs \<in> D))"

definition keysOK :: "'l virtual_fs \<Rightarrow> bool" where
  "keysOK s =
     (distinct (map fst (vf_dirs s)) \<and> distinct (map fst (vf_files s))
      \<and> list_all validPath (map fst (vf_dirs s)) \<and> list_all validPath (map fst (vf_files s)))"

definition treeOK :: "'l virtual_fs \<Rightarrow> bool" where
  "treeOK s = (keysOK s \<and> shape (folders s) (leaves s))"

lemma shape_prefix: "shape D F \<Longrightarrow> cs @ es \<in> D \<union> F \<Longrightarrow> cs \<noteq> [] \<Longrightarrow> es \<noteq> [] \<Longrightarrow> cs \<in> D"
proof (induction es rule: rev_induct)
  case (snoc e es)
  have "butlast (cs @ es @ [e]) = cs @ es"
    by (simp add: butlast_append)
  moreover have "\<forall>ds \<in> D \<union> F. butlast ds = [] \<or> butlast ds \<in> D"
    using snoc.prems(1) by (simp add: shape_def)
  ultimately have "cs @ es \<in> D"
    using snoc.prems(2,3) by (metis append_is_Nil_conv)
  then show ?case
    using snoc by (cases "es = []") auto
qed simp

lemma isFolder_iff: "isFolder s p \<longleftrightarrow> p \<in> set (map fst (vf_dirs s))"
  by (auto simp: isFolder_def map_of_eq_None_iff)

lemma isFile_iff: "isFile s p \<longleftrightarrow> p \<in> set (map fst (vf_files s))"
  by (auto simp: isFile_def map_of_eq_None_iff)

lemma keys_names:
  assumes "keysOK s"
  shows "set (map fst (vf_dirs s)) = joinPath ` folders s" "set (map fst (vf_files s)) = joinPath ` leaves s"
proof -
  have image: "joinPath ` {cs. list_all goodName cs \<and> Q (joinPath cs)} = {p. validPath p \<and> Q p}" for Q
    by (auto simp: validPath_iff)
  have "set (map fst (vf_dirs s)) = {p. validPath p \<and> isFolder s p}" "set (map fst (vf_files s)) = {p. validPath p \<and> isFile s p}"
    using assms by (auto simp: isFolder_iff isFile_iff keysOK_def list_all_iff)
  then show "set (map fst (vf_dirs s)) = joinPath ` folders s" "set (map fst (vf_files s)) = joinPath ` leaves s"
    by (simp_all add: folders_def leaves_def image)
qed

lemma isFolder_joinPath: "list_all goodName cs \<Longrightarrow> isFolder s (joinPath cs) \<longleftrightarrow> cs \<in> folders s"
  and isFile_joinPath: "list_all goodName cs \<Longrightarrow> isFile s (joinPath cs) \<longleftrightarrow> cs \<in> leaves s"
  by (simp_all add: folders_def leaves_def)

lemma good_folders: "cs \<in> folders s \<Longrightarrow> list_all goodName cs"
  and good_leaves: "cs \<in> leaves s \<Longrightarrow> list_all goodName cs"
  by (simp_all add: folders_def leaves_def)

lemma hasDescendant_joinPath:
  assumes "keysOK s" "list_all goodName cs" "cs \<noteq> []"
  shows "hasDescendant s (joinPath cs) \<longleftrightarrow> (\<exists>es. es \<noteq> [] \<and> cs @ es \<in> folders s \<union> leaves s)"
proof -
  have below: "(\<exists>k \<in> joinPath ` X. hasPrefix k (joinPath cs @ ''/'')) \<longleftrightarrow> (\<exists>es. es \<noteq> [] \<and> cs @ es \<in> X)"
    if "\<forall>ds \<in> X. list_all goodName ds" for X
  proof -
    have "hasPrefix (joinPath ds) (joinPath cs @ ''/'') \<longleftrightarrow> (\<exists>es. es \<noteq> [] \<and> ds = cs @ es)" if "ds \<in> X" for ds
      using hasPrefix_joinPath [OF assms(2,3)] \<open>\<forall>ds \<in> X. list_all goodName ds\<close> that by blast
    then show ?thesis
      by blast
  qed
  have "list_ex (\<lambda>k. hasPrefix k (joinPath cs @ ''/'')) (map fst (vf_dirs s)) \<longleftrightarrow> (\<exists>es. es \<noteq> [] \<and> cs @ es \<in> folders s)"
    unfolding list_ex_iff keys_names [OF assms(1)] by (rule below) (simp add: good_folders)
  moreover have "list_ex (\<lambda>k. hasPrefix k (joinPath cs @ ''/'')) (map fst (vf_files s)) \<longleftrightarrow> (\<exists>es. es \<noteq> [] \<and> cs @ es \<in> leaves s)"
    unfolding list_ex_iff keys_names [OF assms(1)] by (rule below) (simp add: good_leaves)
  ultimately show ?thesis
    unfolding hasDescendant_def by blast
qed

lemma hasDir_joinPath:
  assumes "treeOK s" "list_all goodName cs"
  shows "hasDir s (joinPath cs) \<longleftrightarrow> cs = [] \<or> cs \<in> folders s"
proof -
  have "cs \<in> folders s" if "cs \<noteq> []" "hasDescendant s (joinPath cs)"
    using hasDescendant_joinPath [of s cs] shape_prefix [of "folders s" "leaves s" cs] assms that by (auto simp: treeOK_def)
  then show ?thesis
    using assms(2) by (auto simp: hasDir_def isFolder_joinPath)
qed

subsection \<open>What the parts of an operation do to the tree\<close>

lemma folders_putDir [simp]: "list_all goodName cs \<Longrightarrow> folders (putDir (joinPath cs) p s) = insert cs (folders s)"
  by (auto simp: folders_def isFolder_def putDir_def update_conv' joinPath_inject)

lemma leaves_putFile [simp]: "list_all goodName cs \<Longrightarrow> leaves (putFile (joinPath cs) e s) = insert cs (leaves s)"
  by (auto simp: leaves_def isFile_def putFile_def update_conv' joinPath_inject)

lemma put_other [simp]:
  "leaves (putDir p q s) = leaves s" "folders (putFile p e s) = folders s"
  "vf_files (putDir p q s) = vf_files s" "vf_dirs (putFile p e s) = vf_dirs s"
  by (simp_all add: leaves_def folders_def isFile_def isFolder_def putDir_def putFile_def)

lemma keysOK_putDir [simp]: "list_all goodName cs \<Longrightarrow> keysOK s \<Longrightarrow> keysOK (putDir (joinPath cs) p s)"
  by (auto simp: keysOK_def putDir_def distinct_update dom_update list_all_iff)

lemma keysOK_putFile [simp]: "list_all goodName cs \<Longrightarrow> keysOK s \<Longrightarrow> keysOK (putFile (joinPath cs) e s)"
  by (auto simp: keysOK_def putFile_def distinct_update dom_update list_all_iff)

lemma deleteFile:
  assumes "list_all goodName cs"
  shows "leaves (s\<lparr>vf_files := AList.delete (joinPath cs) (vf_files s)\<rparr>) = leaves s - {cs}"
    and "folders (s\<lparr>vf_files := AList.delete p (vf_files s)\<rparr>) = folders s"
    and "keysOK s \<Longrightarrow> keysOK (s\<lparr>vf_files := AList.delete p (vf_files s)\<rparr>)"
  using assms
  by (auto simp: leaves_def folders_def isFile_def isFolder_def delete_conv' joinPath_inject keysOK_def
      list_all_iff delete_keys distinct_removeAll simp del: set_map)

lemma deleteDir:
  assumes "list_all goodName cs"
  shows "folders (s\<lparr>vf_dirs := AList.delete (joinPath cs) (vf_dirs s)\<rparr>) = folders s - {cs}"
    and "leaves (s\<lparr>vf_dirs := AList.delete p (vf_dirs s)\<rparr>) = leaves s"
    and "keysOK s \<Longrightarrow> keysOK (s\<lparr>vf_dirs := AList.delete p (vf_dirs s)\<rparr>)"
  using assms
  by (auto simp: leaves_def folders_def isFile_def isFolder_def delete_conv' joinPath_inject keysOK_def
      list_all_iff delete_keys distinct_removeAll simp del: set_map)

lemma parentIsFile_joinPath:
  assumes "list_all goodName cs"
  shows "parentIsFile s (joinPath cs) \<longleftrightarrow> set (heads (butlast cs)) \<inter> leaves s \<noteq> {}"
proof -
  have "isFile s (joinPath ds) \<longleftrightarrow> ds \<in> leaves s" if "ds \<in> set (heads (butlast cs))" for ds
    using that good_prefix [OF good_butlast [OF assms]] by (intro isFile_joinPath) (simp add: set_heads)
  moreover have "parentIsFile s (joinPath cs) \<longleftrightarrow> (\<exists>ds \<in> set (heads (butlast cs)). isFile s (joinPath ds))"
    by (simp add: parentIsFile_def pathDir_joinPath assms chain_joinPath good_butlast list_ex_iff)
  ultimately show ?thesis
    by blast
qed

text \<open>Making the directories above a path.\<close>

lemma ensureDirs_tree:
  assumes "list_all goodName cs" "set (heads cs) \<inter> leaves s = {}" "keysOK s"
  shows "folders (ensureDirs (map joinPath (heads cs)) stamp s) = folders s \<union> set (heads cs)"
    "vf_files (ensureDirs (map joinPath (heads cs)) stamp s) = vf_files s"
    "keysOK (ensureDirs (map joinPath (heads cs)) stamp s)"
proof -
  have "folders (ensureDirs (map joinPath (heads cs)) stamp s) = folders s \<union> set (heads cs)
      \<and> vf_files (ensureDirs (map joinPath (heads cs)) stamp s) = vf_files s
      \<and> keysOK (ensureDirs (map joinPath (heads cs)) stamp s)"
    using assms
  proof (induction cs rule: rev_induct)
    case (snoc c cs)
    let ?s = "ensureDirs (map joinPath (heads cs)) stamp s" and ?p = "joinPath (cs @ [c])"
    have ih: "folders ?s = folders s \<union> set (heads cs)" "vf_files ?s = vf_files s" "keysOK ?s"
      using snoc by simp_all
    have "\<not> isFile s ?p"
      using snoc.prems(1,2) isFile_joinPath [of "cs @ [c]" s] by simp
    then have eq: "ensureDirs (map joinPath (heads (cs @ [c]))) stamp s = (if isFolder ?s ?p then ?s else putDir ?p (dirProp stamp) ?s)"
      by (simp add: Let_def)
    show ?case
    proof (cases "isFolder ?s ?p")
      case True
      then have "cs @ [c] \<in> folders ?s"
        by (simp add: isFolder_joinPath [OF snoc.prems(1)])
      then show ?thesis
        unfolding eq using ih True by auto
    next
      case False
      then show ?thesis
        unfolding eq using ih by (simp add: keysOK_putDir [OF snoc.prems(1)] folders_putDir [OF snoc.prems(1)])
    qed
  qed simp
  then show "folders (ensureDirs (map joinPath (heads cs)) stamp s) = folders s \<union> set (heads cs)"
    "vf_files (ensureDirs (map joinPath (heads cs)) stamp s) = vf_files s"
    "keysOK (ensureDirs (map joinPath (heads cs)) stamp s)"
    by simp_all
qed

lemma leaves_files: "vf_files s = vf_files s' \<Longrightarrow> leaves s = leaves s'"
  by (simp add: leaves_def isFile_def)

lemma ensureParent_tree:
  assumes "treeOK s" "list_all goodName cs" "\<not> parentIsFile s (joinPath cs)"
  shows "folders (ensureParentDirs (joinPath cs) stamp s) = folders s \<union> set (heads (butlast cs))"
    "vf_files (ensureParentDirs (joinPath cs) stamp s) = vf_files s"
    "keysOK (ensureParentDirs (joinPath cs) stamp s)"
  using ensureDirs_tree [OF good_butlast [OF assms(2)], of s] assms parentIsFile_joinPath [OF assms(2), of s]
  by (simp_all add: ensureParentDirs_def ensureDir_def pathDir_joinPath chain_joinPath good_butlast treeOK_def)

lemma shape_heads:
  assumes "shape D F" "set (heads cs) \<inter> F = {}"
  shows "shape (D \<union> set (heads cs)) F"
proof -
  have "butlast ds = [] \<or> butlast ds \<in> set (heads cs)" if "ds \<in> set (heads cs)" for ds
    using that prefix_order.trans [OF prefixeq_butlast] by (auto simp: set_heads)
  then show ?thesis
    using assms by (auto simp: shape_def set_heads)
qed

text \<open>Cleaning up directories that have become empty.\<close>

lemma cleanup_tree:
  assumes "treeOK s" "list_all goodName cs"
  shows "treeOK (cleanupDirs (map joinPath (heads cs)) s) \<and> vf_files (cleanupDirs (map joinPath (heads cs)) s) = vf_files s"
  using assms
proof (induction cs arbitrary: s rule: rev_induct)
  case (snoc c cs)
  let ?cs = "cs @ [c]"
  let ?s = "s\<lparr>vf_dirs := AList.delete (joinPath ?cs) (vf_dirs s)\<rparr>"
  have ih: "treeOK (cleanupDirs (map joinPath (heads cs)) t)
      \<and> vf_files (cleanupDirs (map joinPath (heads cs)) t) = vf_files t" if "treeOK t" for t :: "'a virtual_fs"
    using snoc.IH [OF that] snoc.prems(2) by simp
  have "treeOK ?s" if none: "\<not> hasDescendant s (joinPath ?cs)"
  proof -
    have apart: "butlast ds \<noteq> ?cs" if "ds \<in> folders s \<union> leaves s" for ds
    proof
      assume eq: "butlast ds = ?cs"
      then have "ds = ?cs @ [last ds]"
        by (metis append_butlast_last_id butlast.simps(1) snoc_eq_iff_butlast)
      then show False
        using none hasDescendant_joinPath [of s ?cs] snoc.prems that by (metis list.distinct(1) snoc_eq_iff_butlast treeOK_def)
    qed
    have old: "shape (folders s) (leaves s)" "keysOK s"
      using snoc.prems(1) by (simp_all add: treeOK_def)
    have "shape (folders s - {?cs}) (leaves s)"
      using old(1) apart unfolding shape_def by blast
    then show ?thesis
      using deleteDir [where s = s, OF snoc.prems(2)] old(2) by (simp add: treeOK_def)
  qed
  then show ?case
    using ih [of s] ih [of ?s] snoc.prems(1) by simp
qed simp

lemma cleanupParent_tree:
  assumes "treeOK s" "list_all goodName cs"
  shows "treeOK (cleanupParentDirs (pathDir (joinPath cs)) s)" "vf_files (cleanupParentDirs (pathDir (joinPath cs)) s) = vf_files s"
  using cleanup_tree [OF assms(1) good_butlast [OF assms(2)]] assms(2)
  by (simp_all add: cleanupParentDirs_def pathDir_joinPath chain_joinPath good_butlast)

subsection \<open>Contents\<close>

definition contents :: "'l virtual_fs \<Rightarrow> string \<Rightarrow> 'l vcontent option" where
  "contents s p = map_option ve_content (map_of (vf_files s) p)"

lemma contents_files: "vf_files s = vf_files s' \<Longrightarrow> contents s = contents s'"
  by (rule ext) (simp add: contents_def)

lemma contents_putFile [simp]: "contents (putFile p e s) = (contents s)(p \<mapsto> ve_content e)"
  by (rule ext) (simp add: contents_def putFile_def update_conv')

lemma treeOK_files:
  assumes "treeOK s" "vf_files s' = vf_files s" "folders s' = folders s" "keysOK s'"
  shows "treeOK s'"
  using assms leaves_files [OF assms(2)] by (simp add: treeOK_def)

lemma write_tree:
  assumes "treeOK s" "list_all goodName cs" "cs \<noteq> []" "\<not> parentIsFile s (joinPath cs)" "\<not> isFolder s (joinPath cs)"
  shows "treeOK (putFile (joinPath cs) e (ensureParentDirs (joinPath cs) stamp s))"
    and "contents (putFile (joinPath cs) e (ensureParentDirs (joinPath cs) stamp s)) = (contents s)(joinPath cs \<mapsto> ve_content e)"
proof -
  let ?s = "ensureParentDirs (joinPath cs) stamp s"
  note ensured = ensureParent_tree [OF assms(1,2,4), of stamp]
  have "shape (folders s \<union> set (heads (butlast cs))) (leaves s)"
    using assms(1) parentIsFile_joinPath [OF assms(2), of s] assms(4) by (intro shape_heads) (simp_all add: treeOK_def)
  moreover have "\<not> prefix cs (butlast cs)"
    using assms(3) prefix_length_le [of cs "butlast cs"] by (cases cs) auto
  then have "cs \<notin> folders s \<union> set (heads (butlast cs))"
    using assms(5) isFolder_joinPath [OF assms(2), of s] by (simp add: set_heads)
  moreover have "butlast cs = [] \<or> butlast cs \<in> set (heads (butlast cs))"
    by (simp add: set_heads)
  ultimately have "shape (folders s \<union> set (heads (butlast cs))) (insert cs (leaves s))"
    using assms(3) unfolding shape_def by blast
  then show "treeOK (putFile (joinPath cs) e ?s)"
    using ensured leaves_files [OF ensured(2)] assms(2) by (simp add: treeOK_def)
  show "contents (putFile (joinPath cs) e ?s) = (contents s)(joinPath cs \<mapsto> ve_content e)"
    using contents_files [OF ensured(2)] by simp
qed

text \<open>Attributes of files and directories that are there already.\<close>

lemma putDir_same:
  assumes "isFolder s p"
  shows "folders (putDir p q s) = folders s" "keysOK (putDir p q s) = keysOK s"
proof -
  have keys: "map fst (AList.update p q (vf_dirs s)) = map fst (vf_dirs s)"
    using assms by (simp add: isFolder_iff update_keys)
  then show "folders (putDir p q s) = folders s"
    unfolding folders_def isFolder_iff by (simp only: putDir_def virtual_fs.simps virtual_fs.surjective)
      (simp add: keys del: set_map)
  show "keysOK (putDir p q s) = keysOK s"
    by (simp add: keysOK_def putDir_def keys)
qed

lemma putFile_same:
  assumes "isFile s p"
  shows "leaves (putFile p e s) = leaves s" "keysOK (putFile p e s) = keysOK s"
proof -
  have keys: "map fst (AList.update p e (vf_files s)) = map fst (vf_files s)"
    using assms by (simp add: isFile_iff update_keys)
  then show "leaves (putFile p e s) = leaves s"
    unfolding leaves_def isFile_iff by (simp add: putFile_def del: set_map)
  show "keysOK (putFile p e s) = keysOK s"
    by (simp add: keysOK_def putFile_def keys)
qed

lemma treeOK_putDir: "isFolder s p \<Longrightarrow> treeOK s \<Longrightarrow> treeOK (putDir p q s)"
  by (simp add: treeOK_def putDir_same)

lemma treeOK_putFile: "isFile s p \<Longrightarrow> treeOK s \<Longrightarrow> treeOK (putFile p e s)"
  by (simp add: treeOK_def putFile_same)

lemma touch_tree: "treeOK s \<Longrightarrow> treeOK (touchDirs ps stamp s) \<and> vf_files (touchDirs ps stamp s) = vf_files s"
proof (induction ps arbitrary: s)
  case (Cons p ps)
  show ?case
  proof (cases "map_of (vf_dirs s) p")
    case None
    then show ?thesis
      using Cons by simp
  next
    case (Some q)
    then have "isFolder s p"
      by (simp add: isFolder_def)
    from treeOK_putDir [OF this Cons.prems] show ?thesis
      using Cons.IH Some by simp
  qed
qed simp

subsection \<open>Moving and removing\<close>

lemma inside_joinPath:
  assumes "list_all goodName cs" "cs \<noteq> []" "list_all goodName ds"
  shows "inside (joinPath cs) (joinPath ds) \<longleftrightarrow> prefix cs ds"
proof -
  have "ds = cs \<or> (\<exists>es. es \<noteq> [] \<and> ds = cs @ es) \<longleftrightarrow> prefix cs ds"
    by (auto simp: prefix_def)
  then show ?thesis
    using hasPrefix_joinPath [OF assms] joinPath_inject [OF assms(3,1)] by (simp add: inside_def)
qed

lemma moved_joinPath:
  assumes "list_all goodName cs" "cs \<noteq> []" "ds \<noteq> []" "list_all goodName es"
  shows "moved (joinPath cs) (joinPath ds) (joinPath (cs @ es)) = joinPath (ds @ es)"
proof (cases "es = []")
  case False
  then have "joinPath (cs @ es) \<noteq> joinPath cs"
    using joinPath_inject [of "cs @ es" cs] assms(1,4) by simp
  then show ?thesis
    using False trimPrefix_joinPath [of cs es] joinPath_append [of ds es] assms by (simp add: moved_def)
qed (simp add: moved_def)

lemma inside_moved: "inside oldRel k \<Longrightarrow> inside newRel (moved oldRel newRel k)"
  by (auto simp: inside_def moved_def hasPrefix_iff)

lemma trimPrefix_slash [simp]: "trimPrefix (p @ CHR ''/'' # r) (p @ ''/'') = r"
  using trimPrefix_append [of "p @ ''/''" r] by simp

lemma moved_back: "inside oldRel k \<Longrightarrow> moved newRel oldRel (moved oldRel newRel k) = k"
  by (auto simp: inside_def moved_def hasPrefix_iff)

lemma moved_inject: "inside oldRel k \<Longrightarrow> inside oldRel l \<Longrightarrow> moved oldRel newRel k = moved oldRel newRel l \<longleftrightarrow> k = l"
  using moved_back by metis

lemma fold_update_fresh:
  "distinct (map fst (m @ kvs)) \<Longrightarrow> fold (\<lambda>(k, v). AList.update k v) kvs m = m @ kvs"
proof (induction kvs arbitrary: m)
  case (Cons kv kvs)
  have "AList.update k v m = m @ [(k, v)]" if "k \<notin> fst ` set m" for k v
    using that by (induction m) auto
  then show ?case
    using Cons.IH [of "m @ [kv]"] Cons.prems by (cases kv) auto
qed simp

text \<open>One map under a move: what lies inside the old path goes to the new one.\<close>

definition moveKeys :: "string \<Rightarrow> string \<Rightarrow> (string \<times> 'v) list \<Rightarrow> (string \<times> 'v) list" where
  "moveKeys oldRel newRel m =
     filter (\<lambda>(k, v). \<not> inside oldRel k) m @ map (\<lambda>(k, v). (moved oldRel newRel k, v)) (filter (\<lambda>(k, v). inside oldRel k) m)"

lemma distinct_moveKeys:
  assumes "distinct (map fst m)" "\<forall>k \<in> set (map fst m). \<not> inside newRel k"
  shows "distinct (map fst (moveKeys oldRel newRel m))"
proof -
  have "map fst (map (\<lambda>(k, v). (moved oldRel newRel k, v)) xs) = map (moved oldRel newRel) (map fst xs)" for xs :: "(string \<times> 'a) list"
    by (induction xs) auto
  moreover have "map fst (filter (\<lambda>(k, v). P k) m) = filter P (map fst m)" for P
    by (induction m) auto
  ultimately have keys: "map fst (moveKeys oldRel newRel m)
      = filter (\<lambda>k. \<not> inside oldRel k) (map fst m) @ map (moved oldRel newRel) (filter (inside oldRel) (map fst m))"
    by (simp only: moveKeys_def map_append)
  have "inj_on (moved oldRel newRel) {k \<in> set (map fst m). inside oldRel k}"
    by (auto intro!: inj_onI simp: moved_inject)
  moreover have "moved oldRel newRel k \<notin> set (map fst m)" if "inside oldRel k" for k
    using assms(2) inside_moved [OF that] by blast
  moreover have "distinct (filter (\<lambda>k. \<not> P k) ks @ map g (filter P ks))"
    if "distinct ks" "inj_on g {k \<in> set ks. P k}" "\<And>k. P k \<Longrightarrow> g k \<notin> set ks" for P and g :: "string \<Rightarrow> string" and ks
    using that by (auto simp: distinct_map)
  ultimately show ?thesis
    using assms(1) unfolding keys by blast
qed

lemma moveKeys_fold:
  assumes "distinct (map fst m)" "\<forall>k \<in> set (map fst m). \<not> inside newRel k"
  shows "fold (\<lambda>(k, v). AList.update k v) (map (\<lambda>(k, v). (moved oldRel newRel k, v)) (filter (\<lambda>(k, v). inside oldRel k) m))
      (filter (\<lambda>(k, v). \<not> inside oldRel k) m) = moveKeys oldRel newRel m"
  using distinct_moveKeys [OF assms, of oldRel] unfolding moveKeys_def by (rule fold_update_fresh)

lemma option_eqI: "(\<And>v. x = Some v \<longleftrightarrow> y = Some v) \<Longrightarrow> x = y"
  by (cases x; cases y) auto

lemma map_of_moveKeys:
  assumes "distinct (map fst m)" "\<forall>k \<in> set (map fst m). \<not> inside newRel k"
  shows "map_of (moveKeys oldRel newRel m) q =
    (if inside newRel q then (if inside oldRel (moved newRel oldRel q) then map_of m (moved newRel oldRel q) else None)
     else if inside oldRel q then None else map_of m q)"
proof -
  have iff: "map_of (moveKeys oldRel newRel m) q = Some v \<longleftrightarrow>
      (map_of m q = Some v \<and> \<not> inside oldRel q) \<or> (\<exists>k. map_of m k = Some v \<and> inside oldRel k \<and> q = moved oldRel newRel k)" for v
    unfolding map_of_eq_Some_iff [OF distinct_moveKeys [OF assms, of oldRel]] map_of_eq_Some_iff [OF assms(1)]
    by (auto simp: moveKeys_def)
  have none: "map_of m q = None" if "inside newRel q"
    using assms(2) that by (auto simp: map_of_eq_None_iff)
  show ?thesis
  proof (cases "inside newRel q")
    case True
    have "map_of (moveKeys oldRel newRel m) q = Some v \<longleftrightarrow>
        inside oldRel (moved newRel oldRel q) \<and> map_of m (moved newRel oldRel q) = Some v" for v
      using iff [of v] none [OF True] moved_back [OF True] moved_back [of oldRel _ newRel] by force
    then show ?thesis
      using True by (intro option_eqI) simp
  next
    case False
    then have "map_of (moveKeys oldRel newRel m) q = Some v \<longleftrightarrow> \<not> inside oldRel q \<and> map_of m q = Some v" for v
      using iff [of v] inside_moved by blast
    then show ?thesis
      using False by (intro option_eqI) simp
  qed
qed

lemma moved_names:
  assumes names: "list_all goodName cs" "cs \<noteq> []" "list_all goodName ds" "ds \<noteq> []"
    and m: "distinct (map fst m)" "\<forall>k \<in> set (map fst m). \<not> inside (joinPath ds) k"
  shows "{x. list_all goodName x \<and> map_of (moveKeys (joinPath cs) (joinPath ds) m) (joinPath x) \<noteq> None}
    = {x. list_all goodName x \<and> map_of m (joinPath x) \<noteq> None \<and> \<not> prefix cs x}
      \<union> {ds @ r | r. list_all goodName (cs @ r) \<and> map_of m (joinPath (cs @ r)) \<noteq> None}" (is "?L = ?A \<union> ?B")
proof -
  have none: "\<not> prefix ds x" if "list_all goodName x" "map_of m (joinPath x) \<noteq> None" for x
    using m(2) that inside_joinPath [OF names(3,4) that(1)] by (auto simp: map_of_eq_None_iff)
  have "x \<in> ?L \<longleftrightarrow> x \<in> ?A \<union> ?B" if good: "list_all goodName x" for x
  proof (cases "prefix ds x")
    case True
    then obtain r where r: "x = ds @ r" "list_all goodName r"
      using good by (auto simp: prefix_def)
    have "moved (joinPath ds) (joinPath cs) (joinPath x) = joinPath (cs @ r)" "inside (joinPath cs) (joinPath (cs @ r))"
      using moved_joinPath [OF names(3,4,2) r(2)] inside_joinPath [of cs "cs @ r"] names(1,2) r by simp_all
    moreover have "inside (joinPath ds) (joinPath x)"
      using inside_joinPath [OF names(3,4) good] True by simp
    ultimately have "x \<in> ?L \<longleftrightarrow> map_of m (joinPath (cs @ r)) \<noteq> None"
      using good by (simp add: map_of_moveKeys [OF m])
    then show ?thesis
      using none [OF good] True names(1) r by auto
  next
    case False
    then have "x \<in> ?L \<longleftrightarrow> \<not> prefix cs x \<and> map_of m (joinPath x) \<noteq> None"
      using inside_joinPath [OF names(3,4) good] inside_joinPath [OF names(1,2) good] good by (simp add: map_of_moveKeys [OF m])
    then show ?thesis
      using False good by auto
  qed
  moreover have "list_all goodName x" if "x \<in> ?L \<or> x \<in> ?A \<union> ?B" for x
    using that names(3) by auto
  ultimately show ?thesis
    by blast
qed

lemma shape_move:
  assumes "shape D F" "\<not> prefix cs ds" "cs \<noteq> []" "butlast ds = [] \<or> butlast ds \<in> D" "ds \<noteq> []" "\<forall>x \<in> D \<union> F. \<not> prefix ds x"
  shows "shape ({x \<in> D. \<not> prefix cs x} \<union> {ds @ r | r. cs @ r \<in> D}) ({x \<in> F. \<not> prefix cs x} \<union> {ds @ r | r. cs @ r \<in> F})"
proof -
  have up: "butlast x = [] \<or> butlast x \<in> D \<and> \<not> prefix cs (butlast x)" if "x \<in> D \<union> F" "\<not> prefix cs x" for x
    using assms(1) that prefix_order.trans [OF _ prefixeq_butlast] unfolding shape_def by blast
  have here: "butlast ds = [] \<or> butlast ds \<in> D \<and> \<not> prefix cs (butlast ds)"
    using assms(2,4) prefix_order.trans [OF _ prefixeq_butlast] by blast
  have below: "butlast (ds @ r) = ds @ butlast r \<and> cs @ butlast r \<in> D" if "cs @ r \<in> D \<union> F" "r \<noteq> []" for r
  proof -
    have "butlast (cs @ r) = cs @ butlast r"
      using that(2) by (simp add: butlast_append)
    moreover have "butlast (cs @ r) = [] \<or> butlast (cs @ r) \<in> D"
      using assms(1) that(1) unfolding shape_def by blast
    ultimately show ?thesis
      using assms(3) that(2) by (auto simp: butlast_append)
  qed
  have "ds @ r \<notin> D \<and> ds @ r \<notin> F" for r
    using assms(6) prefixI [of "ds @ r" ds r] by blast
  then have "({x \<in> D. \<not> prefix cs x} \<union> {ds @ r | r. cs @ r \<in> D}) \<inter> ({x \<in> F. \<not> prefix cs x} \<union> {ds @ r | r. cs @ r \<in> F}) = {}"
    using assms(1) by (auto simp: shape_def)
  moreover have "butlast x = [] \<or> butlast x \<in> {x \<in> D. \<not> prefix cs x} \<union> {ds @ r | r. cs @ r \<in> D}"
    if "x = ds @ r" "cs @ r \<in> D \<union> F" for x r
    using that here below [of r] by (cases "r = []") auto
  ultimately show ?thesis
    using assms(1,5) up unfolding shape_def by blast
qed

lemma move_tree:
  assumes tree: "treeOK s" and names: "list_all goodName cs" "cs \<noteq> []" "list_all goodName ds" "ds \<noteq> []"
    and "\<not> prefix cs ds" "butlast ds = [] \<or> butlast ds \<in> folders s" "\<forall>x \<in> folders s \<union> leaves s. \<not> prefix ds x"
  shows "treeOK \<lparr>vf_dirs = moveKeys (joinPath cs) (joinPath ds) (vf_dirs s), vf_files = moveKeys (joinPath cs) (joinPath ds) (vf_files s)\<rparr>"
    (is "treeOK ?s")
proof -
  have keys: "keysOK s" and shape: "shape (folders s) (leaves s)"
    using tree by (simp_all add: treeOK_def)
  have fresh: "\<not> inside (joinPath ds) k" if "k \<in> joinPath ` (folders s \<union> leaves s)" for k
    using that assms(8) inside_joinPath [OF names(3,4)] good_folders good_leaves by blast
  have dirs: "distinct (map fst (vf_dirs s))" "\<forall>k \<in> set (map fst (vf_dirs s)). \<not> inside (joinPath ds) k"
    and files: "distinct (map fst (vf_files s))" "\<forall>k \<in> set (map fst (vf_files s)). \<not> inside (joinPath ds) k"
    using keys fresh unfolding keys_names [OF keys] by (auto simp: keysOK_def)
  have "folders ?s = {x \<in> folders s. \<not> prefix cs x} \<union> {ds @ r | r. cs @ r \<in> folders s}"
    using moved_names [OF names dirs] by (auto simp: folders_def isFolder_def)
  moreover have "leaves ?s = {x \<in> leaves s. \<not> prefix cs x} \<union> {ds @ r | r. cs @ r \<in> leaves s}"
    using moved_names [OF names files] by (auto simp: leaves_def isFile_def)
  moreover have "list_all validPath (map fst (moveKeys (joinPath cs) (joinPath ds) m))" if "set (map fst m) = joinPath ` X"
      "\<forall>x \<in> X. list_all goodName x" for m :: "(string \<times> 'v) list" and X
  proof -
    have "validPath (moved (joinPath cs) (joinPath ds) k)" if k: "k \<in> joinPath ` X" and into: "inside (joinPath cs) k" for k
    proof -
      obtain x where x: "k = joinPath x" "list_all goodName x"
        using \<open>\<forall>x \<in> X. list_all goodName x\<close> k by blast
      then obtain r where "x = cs @ r" "list_all goodName r"
        using into inside_joinPath [OF names(1,2) x(2)] by (auto simp: prefix_def)
      then show ?thesis
        using moved_joinPath [OF names(1,2,4)] names(3) by (simp add: x)
    qed
    moreover have "validPath k" if "k \<in> joinPath ` X" for k
      using \<open>\<forall>x \<in> X. list_all goodName x\<close> that by auto
    moreover have "k \<in> joinPath ` X" if "(k, v) \<in> set m" for k v
      using \<open>set (map fst m) = joinPath ` X\<close> image_eqI [OF _ that, of k fst] by simp
    ultimately show ?thesis
      by (auto simp: moveKeys_def list_all_iff)
  qed
  from this [OF keys_names(1) [OF keys]] this [OF keys_names(2) [OF keys]]
  have "keysOK ?s"
    using distinct_moveKeys [OF dirs] distinct_moveKeys [OF files] by (simp add: keysOK_def good_folders good_leaves)
  ultimately show ?thesis
    using shape_move [OF shape assms(6) names(2) assms(7) names(4) assms(8)] by (simp add: treeOK_def)
qed

lemma remove_tree:
  assumes tree: "treeOK s" and names: "list_all goodName cs" "cs \<noteq> []"
  shows "treeOK \<lparr>vf_dirs = filter (\<lambda>(k, p). \<not> inside (joinPath cs) k) (vf_dirs s),
      vf_files = filter (\<lambda>(k, e). \<not> inside (joinPath cs) k) (vf_files s)\<rparr>" (is "treeOK ?s")
proof -
  have some: "map_of (filter (\<lambda>(k, p). P k) m) k = (if P k then map_of m k else None)" for P and m :: "(string \<times> 'v) list" and k
    by (induction m) auto
  have "folders ?s = {x \<in> folders s. \<not> prefix cs x}"
    using inside_joinPath [OF names] by (auto simp: folders_def isFolder_def some)
  moreover have "leaves ?s = {x \<in> leaves s. \<not> prefix cs x}"
    using inside_joinPath [OF names] by (auto simp: leaves_def isFile_def some)
  moreover have "keysOK ?s"
    using tree by (auto simp: treeOK_def keysOK_def list_all_iff distinct_map_filter)
  moreover have "shape {x \<in> folders s. \<not> prefix cs x} {x \<in> leaves s. \<not> prefix cs x}"
    using tree prefix_order.trans [OF _ prefixeq_butlast] unfolding treeOK_def shape_def by blast
  ultimately show ?thesis
    by (simp add: treeOK_def)
qed

subsection \<open>The operations\<close>

text \<open>What an operation does to the contents of files, and the one kind of move that spoils the tree.\<close>

fun effect :: "'l fs_op \<Rightarrow> (string \<Rightarrow> 'l vcontent option) \<Rightarrow> string \<Rightarrow> 'l vcontent option" where
  "effect (DoAdd name content prop) m = (case toContent content of Ok c \<Rightarrow> m(relOf name \<mapsto> c) | _ \<Rightarrow> m)"
| "effect (DoWrite name data) m = m(relOf name \<mapsto> Bytes data)"
| "effect (DoAppend name data) m =
     m(relOf name \<mapsto> Bytes ((case m (relOf name) of Some (Bytes d) \<Rightarrow> d | _ \<Rightarrow> '''') @ data))"
| "effect (DoRename oldName newName) m =
     (\<lambda>q. if inside (relOf newName) q then m (moved (relOf newName) (relOf oldName) q)
          else if inside (relOf oldName) q then None else m q)"
| "effect (DoRemove name) m = (\<lambda>q. if relOf name = ''.'' \<or> inside (relOf name) q then None else m q)"
| "effect _ m = m"

fun intoItself :: "'l fs_op \<Rightarrow> bool" where
  "intoItself (DoRename oldName newName) = (relOf oldName \<noteq> relOf newName \<and> inside (relOf oldName) (relOf newName))"
| "intoItself _ = False"

definition kept :: "'l fs_op \<Rightarrow> 'l virtual_fs \<Rightarrow> 'l virtual_fs \<Rightarrow> bool" where
  "kept op s s' = (treeOK s' \<and> contents s' = effect op (contents s))"

lemma AddFile_kept:
  assumes "treeOK s" "AddFile name content prop s = Ok s'"
  shows "kept (DoAdd name content prop) s s'"
proof -
  obtain rel where rel: "normalizeVirtualPath ''create'' name False = Ok rel"
    using assms(2) by (auto simp: AddFile_def rbind_Ok_iff)
  obtain cs where cs: "list_all goodName cs" "rel = joinPath cs" "relOf name = rel" "cs \<noteq> []"
    using normalize_names [OF rel] by metis
  have "\<exists>data e stamp. toContent content = Ok data \<and> \<not> isFolder s rel \<and> \<not> parentIsFile s rel \<and> ve_content e = data
      \<and> s' = putFile rel e (ensureParentDirs rel stamp s)"
    using assms(2) rel by (force simp: AddFile_def rbind_Ok_iff Let_def split: if_splits)
  then show ?thesis
    using write_tree [OF assms(1) cs(1,4)] cs(2,3) by (auto simp: kept_def)
qed

lemma WriteFile_kept:
  assumes "treeOK s" "WriteFile name data s = Ok s'"
  shows "kept (DoWrite name data) s s'"
proof -
  obtain rel where rel: "normalizeVirtualPath ''writefile'' name False = Ok rel"
    using assms(2) by (auto simp: WriteFile_def rbind_Ok_iff)
  obtain cs where cs: "list_all goodName cs" "rel = joinPath cs" "relOf name = rel" "cs \<noteq> []"
    using normalize_names [OF rel] by metis
  obtain e stamp where "\<not> isFolder s rel" "\<not> parentIsFile s rel" "ve_content e = Bytes data"
      "s' = putFile rel e (ensureParentDirs rel stamp s)"
    using assms(2) rel by (force simp: WriteFile_def rbind_Ok_iff Let_def split: if_splits option.splits vcontent.splits)
  then show ?thesis
    using write_tree [OF assms(1) cs(1,4), of e stamp] cs(2,3) by (simp add: kept_def)
qed

lemma AppendFile_kept:
  assumes "treeOK s" "AppendFile name data s = Ok s'"
  shows "kept (DoAppend name data) s s'"
proof -
  obtain rel where rel: "normalizeVirtualPath ''appendfile'' name False = Ok rel"
    using assms(2) by (auto simp: AppendFile_def rbind_Ok_iff)
  obtain cs where cs: "list_all goodName cs" "rel = joinPath cs" "relOf name = rel" "cs \<noteq> []"
    using normalize_names [OF rel] by metis
  have parts: "\<not> isFolder s rel" "\<not> parentIsFile s rel"
    using assms(2) rel by (auto simp: AppendFile_def split: if_splits)
  show ?thesis
  proof (cases "map_of (vf_files s) rel")
    case None
    then obtain e stamp where s': "s' = putFile rel e (ensureParentDirs rel stamp s)" "ve_content e = Bytes data"
      using assms(2) rel parts by (auto simp: AppendFile_def Let_def)
    have "contents s rel = None"
      using None by (simp add: contents_def)
    then show ?thesis
      using write_tree [OF assms(1) cs(1,4), of e stamp] parts cs(2,3) s' by (simp add: kept_def)
  next
    case (Some e)
    then obtain d where d: "ve_content e = Bytes d"
      using assms(2) rel parts by (auto simp: AppendFile_def split: vcontent.splits)
    let ?e = "\<lparr>ve_content = Bytes (d @ data), ve_prop = (ve_prop e)\<lparr>vp_mod := defaultTimestamp\<rparr>\<rparr>"
    have s': "s' = touchParentDirs rel defaultTimestamp (putFile rel ?e s)"
      using assms(2) rel parts Some d by (simp add: AppendFile_def)
    have tree: "treeOK (putFile rel ?e s)"
      using Some by (intro treeOK_putFile assms(1)) (simp add: isFile_def)
    have "contents s rel = Some (Bytes d)"
      using Some d by (simp add: contents_def)
    then show ?thesis
      using touch_tree [OF tree] cs(3) contents_files [of s' "putFile rel ?e s"]
      by (simp add: kept_def s' touchParentDirs_def)
  qed
qed

lemma Mkdir_kept:
  assumes "treeOK s" "Mkdir name s = Ok s'"
  shows "kept (DoMkdir name) s s'"
proof -
  obtain rel where rel: "normalizeVirtualPath ''mkdir'' name False = Ok rel"
    using assms(2) by (auto simp: Mkdir_def rbind_Ok_iff)
  obtain cs where cs: "list_all goodName cs" "rel = joinPath cs" "relOf name = rel" "cs \<noteq> []"
    using normalize_names [OF rel] by metis
  have parts: "\<not> isFile s rel" "\<not> parentIsFile s rel" "s' = ensureDir rel defaultTimestamp s"
    using assms(2) rel by (auto simp: Mkdir_def split: if_splits)
  have free: "set (heads cs) \<inter> leaves s = {}"
    using parts(1,2) cs parentIsFile_joinPath [OF cs(1), of s] isFile_joinPath [OF cs(1), of s] heads_eq [of cs] by auto
  have keys: "keysOK s" "shape (folders s) (leaves s)"
    using assms(1) by (simp_all add: treeOK_def)
  note ensured = ensureDirs_tree [OF cs(1) free keys(1), of defaultTimestamp]
  have "s' = ensureDirs (map joinPath (heads cs)) defaultTimestamp s"
    using parts(3) cs(1,2) by (simp add: ensureDir_def chain_joinPath)
  then show ?thesis
    using ensured shape_heads [OF keys(2) free] leaves_files [OF ensured(2)] contents_files [OF ensured(2)]
    by (simp add: kept_def treeOK_def)
qed

lemma Chmod_kept:
  assumes "treeOK s" "Chmod name mode s = Ok s'"
  shows "kept (DoChmod name mode) s s'"
proof -
  obtain rel where rel: "normalizeVirtualPath ''chmod'' name True = Ok rel"
    using assms(2) by (auto simp: Chmod_def rbind_Ok_iff)
  obtain cs where cs: "list_all goodName cs" "rel = joinPath cs"
    using normalize_names [OF rel] by metis
  show ?thesis
  proof (cases "rel = ''.''")
    case True
    then show ?thesis
      using assms rel by (simp add: Chmod_def kept_def)
  next
    case inner: False
    show ?thesis
    proof (cases "map_of (vf_files s) rel")
      case (Some e)
      then obtain q where s': "s' = putFile rel (e\<lparr>ve_prop := q\<rparr>) s"
        using assms(2) rel inner by (auto simp: Chmod_def)
      have "contents s rel = Some (ve_content e)"
        using Some by (simp add: contents_def)
      then show ?thesis
        using Some treeOK_putFile [OF _ assms(1), of rel] by (auto simp: kept_def isFile_def s')
    next
      case none: None
      have "isFolder s rel"
        using assms(2) rel inner none hasDir_joinPath [OF assms(1) cs(1)] cs isFolder_joinPath [OF cs(1), of s]
        by (cases "map_of (vf_dirs s) rel") (auto simp: Chmod_def isFolder_def split: if_splits)
      moreover from this obtain q where "s' = putDir rel q s"
        using assms(2) rel inner none by (auto simp: Chmod_def isFolder_def)
      ultimately show ?thesis
        using treeOK_putDir [OF _ assms(1)] contents_files [of s' s] by (simp add: kept_def)
    qed
  qed
qed

lemma leaf_alone:
  assumes "treeOK s" "isFile s rel" "inside rel q" "q \<noteq> rel"
  shows "map_of (vf_files s) q = None"
proof (rule ccontr)
  assume some: "map_of (vf_files s) q \<noteq> None"
  have tree: "keysOK s" "shape (folders s) (leaves s)"
    using assms(1) by (simp_all add: treeOK_def)
  obtain cs ds where cs: "rel = joinPath cs" "cs \<in> leaves s" "q = joinPath ds" "ds \<in> leaves s"
    using keys_names(2) [OF tree(1)] assms(2) some unfolding isFile_iff map_of_eq_None_iff by auto
  moreover have "cs \<noteq> []"
    using tree(2) cs(2) by (auto simp: shape_def)
  ultimately have "prefix cs ds" "cs \<noteq> ds"
    using inside_joinPath [of cs ds] assms(3,4) by (auto simp: good_leaves)
  then have "cs \<in> folders s"
    using shape_prefix [OF tree(2)] cs(4) \<open>cs \<noteq> []\<close> by (auto simp: prefix_def)
  then show False
    using tree(2) cs(2) by (auto simp: shape_def)
qed

lemma no_entry_inside:
  assumes "keysOK s" "\<not> isFile s rel" "\<not> isFolder s rel" "\<not> hasDescendant s rel"
  shows "\<forall>k \<in> set (map fst (vf_files s)) \<union> set (map fst (vf_dirs s)). \<not> inside rel k"
  using assms(2-4) by (auto simp: isFile_iff isFolder_iff hasDescendant_def list_ex_iff inside_def)

lemma Remove_kept:
  assumes "treeOK s" "Remove name s = Ok s'"
  shows "kept (DoRemove name) s s'"
proof -
  obtain rel where rel: "normalizeVirtualPath ''remove'' name True = Ok rel"
    using assms(2) by (auto simp: Remove_def rbind_Ok_iff)
  obtain cs where cs: "list_all goodName cs" "rel = joinPath cs" "relOf name = rel"
    using normalize_names [OF rel] by metis
  show ?thesis
  proof (cases "rel = ''.''")
    case True
    then have "s' = NewVirtualFS"
      using assms(2) rel by (simp add: Remove_def split: if_splits)
    then show ?thesis
      using cs(3) True
      by (simp add: kept_def NewVirtualFS_def treeOK_def keysOK_def shape_def folders_def leaves_def isFolder_def isFile_def
          contents_def fun_eq_iff)
  next
    case inner: False
    then have ne: "cs \<noteq> []"
      using cs(2) by auto
    show ?thesis
    proof (cases "isFile s rel")
      case True
      let ?s = "s\<lparr>vf_files := AList.delete rel (vf_files s)\<rparr>"
      have s': "s' = cleanupParentDirs (pathDir rel) ?s"
        using assms(2) rel inner True by (simp add: Remove_def)
      have tree: "treeOK ?s"
        using assms(1) deleteFile [OF cs(1), where s = s] cs(2) by (auto simp: treeOK_def shape_def)
      have "contents ?s q = effect (DoRemove name) (contents s) q" for q
        using leaf_alone [OF assms(1) True, of q] inner cs(3) by (auto simp: contents_def delete_conv' inside_def)
      then show ?thesis
        using cleanupParent_tree [OF tree cs(1)] contents_files [of s' ?s] cs(2) by (auto simp: kept_def s')
    next
      case False
      let ?s = "\<lparr>vf_dirs = filter (\<lambda>(k, p). \<not> inside rel k) (vf_dirs s), vf_files = filter (\<lambda>(k, e). \<not> inside rel k) (vf_files s)\<rparr>"
      have "filter (\<lambda>(k, e). \<not> hasPrefix k (rel @ ''/'')) (vf_files s) = filter (\<lambda>(k, e). \<not> inside rel k) (vf_files s)"
        using False by (intro filter_cong) (force simp: inside_def isFile_iff)+
      then have s': "s' = cleanupParentDirs (pathDir rel) ?s"
        using assms(2) rel inner False by (auto simp: Remove_def split: if_splits)
      have tree: "treeOK ?s"
        using remove_tree [OF assms(1) cs(1) ne] cs(2) by simp
      have "map_of (filter (\<lambda>(k, e). \<not> inside rel k) m) q = (if inside rel q then None else map_of m q)"
        for m :: "(string \<times> 'a ventry) list" and q
        by (induction m) auto
      then have "contents ?s = effect (DoRemove name) (contents s)"
        using inner cs(3) by (auto simp: contents_def fun_eq_iff)
      then show ?thesis
        using cleanupParent_tree [OF tree cs(1)] contents_files [of s' ?s] cs(2) by (simp add: kept_def s')
    qed
  qed
qed

lemma Rename_kept:
  assumes tree: "treeOK s" and step: "Rename oldName newName s = Ok s'" and "\<not> intoItself (DoRename oldName newName :: 'l fs_op)"
  shows "kept (DoRename oldName newName) s (s' :: 'l virtual_fs)"
proof -
  obtain old new where rel: "normalizeVirtualPath ''rename'' oldName False = Ok old" "normalizeVirtualPath ''rename'' newName False = Ok new"
    using step by (auto simp: Rename_def rbind_Ok_iff)
  obtain cs where cs: "list_all goodName cs" "old = joinPath cs" "relOf oldName = old" "cs \<noteq> []"
    using normalize_names [OF rel(1)] by metis
  obtain ds where ds: "list_all goodName ds" "new = joinPath ds" "relOf newName = new" "ds \<noteq> []"
    using normalize_names [OF rel(2)] by metis
  have keys: "keysOK s" and shape: "shape (folders s) (leaves s)"
    using tree by (simp_all add: treeOK_def)
  show ?thesis
  proof (cases "old = new")
    case True
    then have "s' = s"
      using step rel by (auto simp: Rename_def split: if_splits)
    moreover have "moved new new q = q" if "inside new q" for q
      using that by (auto simp: moved_def inside_def hasPrefix_iff)
    ultimately show ?thesis
      using tree cs(3) ds(3) True by (auto simp: kept_def fun_eq_iff)
  next
    case differ: False
    have parts: "\<not> isFile s new" "\<not> isFolder s new" "\<not> hasDescendant s new" "\<not> parentIsFile s new"
        "pathDir new = ''.'' \<or> hasDir s (pathDir new)" "moveEntry oldName old new s = Ok s'"
      using step rel differ by (auto simp: Rename_def split: if_splits)
    have fresh: "\<not> inside new k" if "isFile s k \<or> isFolder s k" for k
      using no_entry_inside [OF keys parts(1-3)] that by (auto simp: isFile_iff isFolder_iff)
    have apart: "\<not> inside old new"
      using assms(3) differ cs(3) ds(3) by simp
    show ?thesis
    proof (cases "map_of (vf_files s) old")
      case (Some e)
      let ?s = "s\<lparr>vf_files := AList.delete old (vf_files s)\<rparr>"
      let ?t = "putFile new e (ensureParentDirs new (vp_mod (ve_prop e)) ?s)"
      have s': "s' = cleanupParentDirs (pathDir old) ?t"
        using parts(6) Some by (simp add: moveEntry_def)
      have less: "treeOK ?s" "leaves ?s = leaves s - {cs}" "folders ?s = folders s"
        using tree deleteFile [OF cs(1), where s = s] cs(2) by (auto simp: treeOK_def shape_def)
      have free: "\<not> parentIsFile ?s new" "\<not> isFolder ?s new"
        using parts(2,4) ds(1,2) parentIsFile_joinPath [OF ds(1), of s] parentIsFile_joinPath [OF ds(1), of ?s] less(2)
        by (auto simp: isFolder_def)
      note written = write_tree [OF less(1) ds(1,4), of e "vp_mod (ve_prop e)"]
      have "contents ?t q = effect (DoRename oldName newName) (contents s) q" for q
      proof -
        have "contents ?t q = (if q = new then Some (ve_content e) else if q = old then None else contents s q)"
          using written(2) free ds(2) by (simp add: contents_def delete_conv')
        moreover have "contents s (moved new old q) = None" if "inside new q" "q \<noteq> new"
        proof -
          have "moved new old q \<noteq> old" "inside old (moved new old q)"
            using that moved_back [OF that(1), of old] inside_moved [OF that(1)] by (auto simp: moved_def)
          then show ?thesis
            using leaf_alone [OF tree _ _, of old "moved new old q"] Some by (simp add: contents_def isFile_def)
        qed
        moreover have "contents s q = None" if "inside new q"
          using fresh [of q] that by (cases "map_of (vf_files s) q") (auto simp: contents_def isFile_def)
        moreover have "contents s q = None" if "inside old q" "q \<noteq> old"
          using leaf_alone [OF tree _ that] Some by (simp add: contents_def isFile_def)
        moreover have "contents s old = Some (ve_content e)" "moved new old new = old" "inside new new" "inside old old"
          using Some by (simp_all add: contents_def moved_def inside_def)
        moreover have "\<not> inside new old"
          using fresh Some by (simp add: isFile_def)
        ultimately show ?thesis
          using cs(3) ds(3) differ apart by auto
      qed
      then show ?thesis
        using cleanupParent_tree [OF _ cs(1), of ?t] written(1) free ds(2) cs(2) contents_files [of s' ?t]
        by (auto simp: kept_def s')
    next
      case None
      let ?s = "ensureParentDirs new defaultTimestamp s"
      have up: "butlast ds = [] \<or> butlast ds \<in> folders s"
        using parts(5) hasDir_joinPath [OF tree good_butlast [OF ds(1)]] ds(1,2) by (auto simp: pathDir_joinPath good_butlast)
      have "x \<in> folders s" if x: "x \<noteq> []" "prefix x (butlast ds)" for x
      proof -
        obtain zs where zs: "butlast ds = x @ zs"
          using x(2) by (auto simp: prefix_def)
        then show ?thesis
          using up x(1) shape_prefix [OF shape, of x zs] by (cases "zs = []") auto
      qed
      then have "set (heads (butlast ds)) \<subseteq> folders s"
        by (auto simp: set_heads)
      then have same: "folders ?s = folders s" "vf_files ?s = vf_files s" "keysOK ?s"
        using ensureParent_tree [OF tree ds(1), of defaultTimestamp] parts(4) ds(2) by auto
      have tree': "treeOK ?s"
        by (rule treeOK_files [OF tree same(2,1,3)])
      have "hasDir s old" "old \<noteq> ''.''"
        using parts(6) None cs by (auto simp: moveEntry_def hasDir_def split: if_splits)
      then have folder: "cs \<in> folders s"
        using hasDir_joinPath [OF tree cs(1)] cs(2,4) by simp
      then have some: "filter (\<lambda>(k, p). inside old k) (vf_dirs ?s) \<noteq> []"
        using same(1) cs(1,2) isFolder_joinPath [OF cs(1), of ?s] by (auto simp: filter_empty_conv isFolder_iff inside_def)
      have none: "\<forall>x \<in> folders s \<union> leaves s. \<not> prefix ds x"
        using fresh inside_joinPath [OF ds(1,4)] ds(2) isFile_joinPath isFolder_joinPath good_leaves good_folders by blast
      have keys': "distinct (map fst (vf_dirs ?s))" "\<forall>k \<in> set (map fst (vf_dirs ?s)). \<not> inside new k"
          "distinct (map fst (vf_files s))" "\<forall>k \<in> set (map fst (vf_files s)). \<not> inside new k"
        using same(3) keys none inside_joinPath [OF ds(1,4)] ds(2) good_leaves good_folders
        unfolding keys_names [OF same(3)] keys_names [OF keys] same(1) keysOK_def by blast+
      have dirs: "moveDirs old new (vf_dirs ?s) = moveKeys old new (vf_dirs ?s)"
        using moveKeys_fold [OF keys'(1,2), of old] some by (simp add: moveDirs_def Let_def)
      have "filter (\<lambda>(k, e). hasPrefix k (old @ ''/'')) (vf_files s) = filter (\<lambda>(k, e). inside old k) (vf_files s)"
          "filter (\<lambda>(k, e). \<not> hasPrefix k (old @ ''/'')) (vf_files s) = filter (\<lambda>(k, e). \<not> inside old k) (vf_files s)"
        using None by (intro filter_cong; force simp: inside_def map_of_eq_None_iff)+
      then have files: "moveFiles old new (vf_files s) = moveKeys old new (vf_files s)"
        using moveKeys_fold [OF keys'(3,4), of old] by (simp add: moveFiles_def)
      let ?t = "\<lparr>vf_dirs = moveKeys old new (vf_dirs ?s), vf_files = moveKeys old new (vf_files ?s)\<rparr>"
      have s': "s' = cleanupParentDirs (pathDir old) ?t"
        using parts(6) None dirs files same(2) by (simp add: moveEntry_def Let_def split: if_splits)
      have "treeOK ?t"
        using move_tree [OF tree' cs(1,4) ds(1,4)] up none apart inside_joinPath [OF cs(1,4) ds(1)] same(1) leaves_files [OF same(2)] cs(2) ds(2)
        by simp
      moreover have "contents ?t = effect (DoRename oldName newName) (contents s)"
        using map_of_moveKeys [OF keys'(3,4), of old] inside_moved [of new _ old] cs(3) ds(3) same(2)
        by (auto simp: contents_def fun_eq_iff)
      ultimately show ?thesis
        using cleanupParent_tree [OF _ cs(1), of ?t] cs(2) contents_files [of s' ?t] by (simp add: kept_def s')
    qed
  qed
qed

lemma perform_kept:
  assumes "treeOK s" "perform op s = Ok s'" "\<not> intoItself op"
  shows "kept op s s'"
proof (cases op)
  case (DoChown name)
  then have "s' = s"
    using assms(2) by (auto simp: Chown_def rbind_Ok_iff split: if_splits)
  then show ?thesis
    using assms(1) DoChown by (simp add: kept_def)
qed (use assms in \<open>auto intro: AddFile_kept WriteFile_kept AppendFile_kept Mkdir_kept Chmod_kept Rename_kept Remove_kept\<close>)

subsection \<open>What the file system promises\<close>

text \<open>A property of file systems every operation of a kind keeps, failed ones included.\<close>

locale fs_invariant =
  fixes allowed :: "'l fs_op \<Rightarrow> bool" and good :: "'l virtual_fs \<Rightarrow> bool"
  assumes good_new: "good NewVirtualFS"
    and good_perform: "good s \<Longrightarrow> allowed op \<Longrightarrow> perform op s = Ok s' \<Longrightarrow> good s'"
begin

lemma good_all: "good s \<Longrightarrow> list_all allowed ops \<Longrightarrow> good (performAll ops s)"
  by (induction ops s rule: performAll.induct) (auto split: res.splits dest: good_perform)

end

lemma treeOK_new: "treeOK NewVirtualFS"
  by (simp add: NewVirtualFS_def treeOK_def keysOK_def shape_def folders_def leaves_def isFolder_def isFile_def)

interpretation tree: fs_invariant "\<lambda>op. \<not> intoItself op" treeOK
  by unfold_locales (auto simp: treeOK_new kept_def dest: perform_kept)

text \<open>
  C16: Whatever operations have been performed, failed ones included, the two maps describe a tree: every path is a valid
  path, none is both a file and a directory, and the directory above each path is there.  Only moving a directory
  into itself is left out.
\<close>

theorem operations_keep_tree:
  assumes "list_all (\<lambda>op. \<not> intoItself op) ops"
  shows "\<forall>k \<in> set (map fst (vf_dirs (performAll ops NewVirtualFS))) \<union> set (map fst (vf_files (performAll ops NewVirtualFS))).
    validPath k \<and> \<not> (isFile (performAll ops NewVirtualFS) k \<and> isFolder (performAll ops NewVirtualFS) k)
    \<and> (pathDir k = ''.'' \<or> isFolder (performAll ops NewVirtualFS) (pathDir k))"
proof
  let ?s = "performAll ops NewVirtualFS :: 'a virtual_fs"
  fix k
  assume k: "k \<in> set (map fst (vf_dirs ?s)) \<union> set (map fst (vf_files ?s))"
  have "treeOK ?s"
    using tree.good_all [OF treeOK_new assms] .
  then have keys: "keysOK ?s" and shape: "shape (folders ?s) (leaves ?s)"
    by (simp_all add: treeOK_def)
  obtain cs where cs: "k = joinPath cs" "cs \<in> folders ?s \<union> leaves ?s" "list_all goodName cs"
    using k good_folders good_leaves unfolding keys_names [OF keys] by blast
  have "butlast cs = [] \<or> butlast cs \<in> folders ?s"
    using shape cs(2) unfolding shape_def by blast
  moreover have "\<not> (cs \<in> leaves ?s \<and> cs \<in> folders ?s)"
    using shape by (auto simp: shape_def)
  ultimately show "validPath k \<and> \<not> (isFile ?s k \<and> isFolder ?s k) \<and> (pathDir k = ''.'' \<or> isFolder ?s (pathDir k))"
    using cs(1,3) by (auto simp: pathDir_joinPath isFile_joinPath isFolder_joinPath good_butlast)
qed

text \<open>
  C17: Each operation changes the contents of files as it says: writing and appending change one file, moving takes the
  files below the old path to the new one, removing takes away what lies below, and nothing else changes.
\<close>

theorem operations_change_contents:
  assumes "list_all (\<lambda>op. \<not> intoItself op) ops" and "perform op (performAll ops NewVirtualFS) = Ok s" and "\<not> intoItself op"
  shows "contents s = effect op (contents (performAll ops NewVirtualFS))"
  using perform_kept [OF _ assms(2,3)] tree.good_all [OF treeOK_new assms(1)] by (simp add: kept_def)

text \<open>Moving a directory into itself succeeds, and afterwards a file can be written in its place, above other files.\<close>

lemma rename_into_itself:
  "isFile (performAll [DoWrite ''a/x'' ''1'', DoRename ''a'' ''a/b'', DoWrite ''a'' ''2''] (NewVirtualFS :: nat virtual_fs)) ''a''
    \<and> isFile (performAll [DoWrite ''a/x'' ''1'', DoRename ''a'' ''a/b'', DoWrite ''a'' ''2''] (NewVirtualFS :: nat virtual_fs)) ''a/b/x''"
  by code_simp

end
