(* ===== verification/VirtualFsList.thy ===== *)
theory VirtualFsList
  imports VirtualFsProps
begin

text \<open>What listing a directory of the virtual file system gives.\<close>

subsection \<open>Listing a directory\<close>

lemma restOf_joinPath:
  assumes "list_all goodName cs" "list_all goodName ds" "ds \<noteq> []"
  shows "restOf (joinPath cs) (joinPath ds) = (if \<exists>es. es \<noteq> [] \<and> ds = cs @ es then Some (joinPath (drop (length cs) ds)) else None)"
proof (cases "cs = []")
  case True
  have "joinPath ds \<noteq> ''''"
    using joinWith_not_dot [OF assms(3,2)] assms(3) by (simp add: joinPath_def)
  then show ?thesis
    using assms(3) True by (simp add: restOf_def trimPrefix_def)
next
  case False
  show ?thesis
  proof (cases "\<exists>es. es \<noteq> [] \<and> ds = cs @ es")
    case True
    then obtain es where es: "es \<noteq> []" "ds = cs @ es"
      by blast
    have "joinPath es \<noteq> ''''"
      using joinWith_not_dot [OF es(1)] assms(2) es by (simp add: joinPath_def)
    then show ?thesis
      using hasPrefix_joinPath [OF assms(1) False assms(2)] trimPrefix_joinPath [OF False es(1)] False assms(1) es
      by (simp add: restOf_def)
  next
    case none: False
    then show ?thesis
      using hasPrefix_joinPath [OF assms(1) False assms(2)] False assms(1) by (simp add: restOf_def)
  qed
qed

lemma cutName_joinPath:
  assumes "goodName e"
  shows "cutName (joinPath (e # es)) = (e, es \<noteq> [])"
proof -
  have e: "\<forall>x \<in> set e. x \<noteq> slash"
    using assms by (auto simp: goodName_def)
  have "joinPath (e # es) = (if es = [] then e else e @ slash # joinWith ''/'' es)"
    by (simp add: joinPath_def joinWith_Cons slash_def)
  moreover have "takeWhile (\<lambda>x. x \<noteq> slash) (e @ slash # r) = e" for r
    using e by (subst takeWhile_append2) auto
  moreover have "takeWhile (\<lambda>x. x \<noteq> slash) e = e"
    using e by (simp add: takeWhile_eq_all_conv)
  ultimately show ?thesis
    using e by (auto simp: cutName_def)
qed

lemma update_entries: "set (AList.update k v m) \<subseteq> insert (k, v) (set m)"
  by (induction m) auto

lemma update_all:
  assumes "distinct (map fst ch)" "\<forall>(n, c) \<in> set ch. P n c" "P e c"
  shows "distinct (map fst (AList.update e c ch)) \<and> (\<forall>(n, c) \<in> set (AList.update e c ch). P n c)
    \<and> set (map fst ch) \<subseteq> set (map fst (AList.update e c ch))"
  using assms update_entries [of e c ch] by (auto simp: distinct_update update_keys simp del: set_map)

text \<open>One more path among the children of a directory.\<close>

lemma addChild_joinPath:
  assumes "list_all goodName cs" "list_all goodName ds" "ds \<noteq> []"
  shows "addChild (joinPath cs) own (joinPath ds, p) ch =
    (if \<exists>e es. ds = cs @ e # es
     then AList.update (ds ! length cs) (if length ds \<noteq> Suc (length cs) then ChildDir None else own p) ch else ch)"
proof (cases "\<exists>e es. ds = cs @ e # es")
  case True
  then obtain e es where ds: "ds = cs @ e # es"
    by blast
  then have "restOf (joinPath cs) (joinPath ds) = Some (joinPath (e # es))"
    using restOf_joinPath [OF assms] by auto
  moreover have "goodName e"
    using assms(2) ds by simp
  ultimately show ?thesis
    using cutName_joinPath [of e es] ds by (simp add: addChild_def)
next
  case False
  then have "restOf (joinPath cs) (joinPath ds) = None"
    using restOf_joinPath [OF assms] by (metis neq_Nil_conv)
  then show ?thesis
    using False by (simp add: addChild_def)
qed

fun childDir :: "'l vchild \<Rightarrow> bool" where
  "childDir (ChildDir p) = True"
| "childDir (ChildFile e) = False"

lemma fold_children:
  assumes "list_all goodName cs" "set (map fst m) \<subseteq> joinPath ` X" "\<forall>ds \<in> X. list_all goodName ds \<and> ds \<noteq> []"
    and dir: "\<forall>e es. cs @ e # es \<in> X \<and> es \<noteq> [] \<longrightarrow> cs @ [e] \<in> D"
    and own: "\<forall>e p. cs @ [e] \<in> X \<longrightarrow> cs @ [e] \<in> (if childDir (own p) then D else F)"
    and "distinct (map fst ch)" "\<forall>(n, c) \<in> set ch. cs @ [n] \<in> (if childDir c then D else F)"
  shows "distinct (map fst (fold (addChild (joinPath cs) own) m ch))"
    and "\<forall>(n, c) \<in> set (fold (addChild (joinPath cs) own) m ch). cs @ [n] \<in> (if childDir c then D else F)"
    and "set (map fst ch) \<subseteq> set (map fst (fold (addChild (joinPath cs) own) m ch))"
    and "\<forall>n. goodName n \<and> joinPath (cs @ [n]) \<in> set (map fst m) \<longrightarrow> n \<in> set (map fst (fold (addChild (joinPath cs) own) m ch))"
proof -
  let ?ok = "\<lambda>ch. distinct (map fst ch) \<and> (\<forall>(n, c) \<in> set ch. cs @ [n] \<in> (if childDir c then D else F))"
  have "?ok (fold (addChild (joinPath cs) own) m ch) \<and> set (map fst ch) \<subseteq> set (map fst (fold (addChild (joinPath cs) own) m ch))
      \<and> (\<forall>n. goodName n \<and> joinPath (cs @ [n]) \<in> set (map fst m) \<longrightarrow> n \<in> set (map fst (fold (addChild (joinPath cs) own) m ch)))"
    using assms(2,6,7)
  proof (induction m arbitrary: ch)
    case (Cons kp m)
    obtain ds p where kp: "kp = (joinPath ds, p)" "ds \<in> X" "list_all goodName ds" "ds \<noteq> []"
      using Cons.prems(1) assms(3) by (cases kp) auto
    let ?ch = "addChild (joinPath cs) own kp ch"
    have ch: "?ch = (if \<exists>e es. ds = cs @ e # es
        then AList.update (ds ! length cs) (if length ds \<noteq> Suc (length cs) then ChildDir None else own p) ch else ch)"
      unfolding kp(1) by (rule addChild_joinPath [OF assms(1) kp(3,4)])
    have ok: "?ok ?ch \<and> set (map fst ch) \<subseteq> set (map fst ?ch)"
    proof (cases "\<exists>e es. ds = cs @ e # es")
      case True
      then obtain e es where ds: "ds = cs @ e # es"
        by blast
      let ?c = "if es \<noteq> [] then ChildDir None else own p"
      have "cs @ [e] \<in> (if childDir ?c then D else F)"
        using dir [rule_format, of e es] own [rule_format, of e p] kp(2) ds by auto
      moreover have "?ch = AList.update e ?c ch"
        unfolding ch using ds by simp
      ultimately show ?thesis
        using update_all [of ch "\<lambda>n c. cs @ [n] \<in> (if childDir c then D else F)", OF Cons.prems(2,3)] by simp
    next
      case False
      then show ?thesis
        unfolding ch using Cons.prems(2,3) by simp
    qed
    have here: "n \<in> set (map fst ?ch)" if "goodName n" "joinPath (cs @ [n]) = joinPath ds" for n
    proof -
      have "ds = cs @ [n]"
        using joinPath_inject [of "cs @ [n]" ds] that assms(1) kp(3) by simp
      then show ?thesis
        unfolding ch by (simp add: dom_update)
    qed
    let ?all = "fold (addChild (joinPath cs) own) m ?ch"
    have eq: "fold (addChild (joinPath cs) own) (kp # m) ch = ?all"
      by simp
    have ih: "?ok ?all \<and> set (map fst ?ch) \<subseteq> set (map fst ?all)
        \<and> (\<forall>n. goodName n \<and> joinPath (cs @ [n]) \<in> set (map fst m) \<longrightarrow> n \<in> set (map fst ?all))"
      using Cons.prems(1) ok by (intro Cons.IH) simp_all
    have "n \<in> set (map fst ?all)" if n: "goodName n" "joinPath (cs @ [n]) \<in> set (map fst (kp # m))" for n
    proof -
      consider "joinPath (cs @ [n]) = joinPath ds" | "joinPath (cs @ [n]) \<in> set (map fst m)"
        using n(2) kp(1) by auto
      then show ?thesis
        using here [OF n(1)] ih n(1) by cases blast+
    qed
    then show ?case
      unfolding eq using ih ok by blast
  qed simp
  then show "distinct (map fst (fold (addChild (joinPath cs) own) m ch))"
    "\<forall>(n, c) \<in> set (fold (addChild (joinPath cs) own) m ch). cs @ [n] \<in> (if childDir c then D else F)"
    "set (map fst ch) \<subseteq> set (map fst (fold (addChild (joinPath cs) own) m ch))"
    "\<forall>n. goodName n \<and> joinPath (cs @ [n]) \<in> set (map fst m) \<longrightarrow> n \<in> set (map fst (fold (addChild (joinPath cs) own) m ch))"
    by blast+
qed

lemma names_split: "names (joinPath cs) = cs \<Longrightarrow> list_all goodName cs \<Longrightarrow> list_all goodName (cs @ [n]) \<longleftrightarrow> goodName n"
  by simp

lemma childrenOf_tree:
  fixes s :: "'a virtual_fs"
  assumes tree: "treeOK s" and cs: "list_all goodName cs"
  shows "distinct (map fst (childrenOf (joinPath cs) s))"
    and "(n, c) \<in> set (childrenOf (joinPath cs) s) \<Longrightarrow> cs @ [n] \<in> (if childDir c then folders s else leaves s)"
    and "cs @ [n] \<in> folders s \<union> leaves s \<Longrightarrow> n \<in> set (map fst (childrenOf (joinPath cs) s))"
proof -
  have keys: "keysOK s" and shape: "shape (folders s) (leaves s)"
    using tree by (simp_all add: treeOK_def)
  let ?files = "fold (addChild (joinPath cs) ChildFile) (vf_files s) []"
  let ?own = "\<lambda>p. ChildDir (Some (normalizeVirtualProperty p))"
  have up: "\<forall>e es. cs @ e # es \<in> leaves s \<and> es \<noteq> [] \<longrightarrow> cs @ [e] \<in> folders s"
      "\<forall>e es. cs @ e # es \<in> folders s \<and> es \<noteq> [] \<longrightarrow> cs @ [e] \<in> folders s"
    using shape_prefix [OF shape, of "cs @ [_]"] by simp_all blast+
  have good: "\<forall>ds \<in> leaves s. list_all goodName ds \<and> ds \<noteq> []" "\<forall>ds \<in> folders s. list_all goodName ds \<and> ds \<noteq> []"
    using shape good_leaves good_folders unfolding shape_def by blast+
  have sub: "set (map fst (vf_files s)) \<subseteq> joinPath ` leaves s" "set (map fst (vf_dirs s)) \<subseteq> joinPath ` folders s"
    using keys_names [OF keys] by simp_all
  have own: "\<forall>e (p :: 'a ventry). cs @ [e] \<in> leaves s \<longrightarrow> cs @ [e] \<in> (if childDir (ChildFile p) then folders s else leaves s)"
      "\<forall>e p. cs @ [e] \<in> folders s \<longrightarrow> cs @ [e] \<in> (if childDir (?own p :: 'a vchild) then folders s else leaves s)"
    by simp_all
  have none: "distinct (map fst ([] :: (string \<times> 'a vchild) list))"
      "\<forall>(n, c) \<in> set ([] :: (string \<times> 'a vchild) list). cs @ [n] \<in> (if childDir c then folders s else leaves s)"
    by simp_all
  note files = fold_children [where own = ChildFile, OF cs sub(1) good(1) up(1) own(1) none, folded childrenOf_def]
  note all = fold_children [where own = ?own, OF cs sub(2) good(2) up(2) own(2) files(1,2), folded childrenOf_def]
  show "distinct (map fst (childrenOf (joinPath cs) s))"
    by (rule all(1))
  have "\<forall>(n, c) \<in> set (childrenOf (joinPath cs) s). cs @ [n] \<in> (if childDir c then folders s else leaves s)"
    by (rule all(2))
  then show "(n, c) \<in> set (childrenOf (joinPath cs) s) \<Longrightarrow> cs @ [n] \<in> (if childDir c then folders s else leaves s)"
    by blast
  have "set (map fst ?files) \<subseteq> set (map fst (childrenOf (joinPath cs) s))"
    by (rule all(3))
  moreover have "\<forall>n. goodName n \<and> joinPath (cs @ [n]) \<in> set (map fst (vf_dirs s)) \<longrightarrow> n \<in> set (map fst (childrenOf (joinPath cs) s))"
    by (rule all(4))
  ultimately show "n \<in> set (map fst (childrenOf (joinPath cs) s))" if n: "cs @ [n] \<in> folders s \<union> leaves s"
  proof -
    have "list_all goodName (cs @ [n])"
      using n good_leaves good_folders by blast
    then have "goodName n"
      by simp
    moreover have "joinPath (cs @ [n]) \<in> set (map fst (vf_dirs s)) \<or> joinPath (cs @ [n]) \<in> set (map fst (vf_files s))"
      using n unfolding keys_names [OF keys] by blast
    ultimately show ?thesis
      using files(4) \<open>set (map fst ?files) \<subseteq> set (map fst (childrenOf (joinPath cs) s))\<close>
        \<open>\<forall>n. goodName n \<and> joinPath (cs @ [n]) \<in> set (map fst (vf_dirs s)) \<longrightarrow> n \<in> set (map fst (childrenOf (joinPath cs) s))\<close>
      by blast
  qed
qed

lemma childInfo_parts [simp]: "fi_name (childInfo load n c) = n" "fi_isDir (childInfo load n c) = childDir c"
  by (cases "(load, n, c)" rule: childInfo.cases; simp add: fileInfo_def buildVirtualFileInfo_def)+

text \<open>C18: A directory is listed in order, each of its files and directories once, and nothing else.\<close>

theorem ReadDir_lists:
  assumes "list_all (\<lambda>op. \<not> intoItself op) ops" and "ReadDir load name (performAll ops NewVirtualFS) = Ok infos"
  shows "sorted_wrt (<) (map fi_name infos)
    \<and> (\<forall>n d. (\<exists>i \<in> set infos. fi_name i = n \<and> fi_isDir i = d) \<longleftrightarrow> goodName n
          \<and> (if d then isFolder else isFile) (performAll ops NewVirtualFS) (joinPath (names (relOf name) @ [n])))"
proof -
  let ?s = "performAll ops NewVirtualFS :: 'a virtual_fs"
  have tree: "treeOK ?s"
    using tree.good_all [OF treeOK_new assms(1)] .
  obtain rel where rel: "normalizeVirtualPath ''readdir'' name True = Ok rel"
    using assms(2) by (auto simp: ReadDir_def rbind_Ok_iff)
  obtain cs where cs: "list_all goodName cs" "rel = joinPath cs" "relOf name = rel"
    using normalize_names [OF rel] by metis
  let ?ch = "childrenOf (joinPath cs) ?s"
  have infos: "infos = map (\<lambda>n. childInfo load n (the (map_of ?ch n))) (sort (map fst ?ch))"
    using assms(2) rel cs(2) by (simp add: ReadDir_def readDirLocked_def Let_def split: if_splits)
  note ch = childrenOf_tree [OF tree cs(1)]
  have "map fi_name infos = sort (map fst ?ch)"
    by (simp add: infos comp_def)
  then have sorted: "sorted_wrt (<) (map fi_name infos)"
    using ch(1) by (simp add: strict_sorted_iff)
  have disjoint: "folders ?s \<inter> leaves ?s = {}"
    using tree by (simp add: treeOK_def shape_def)
  have child: "(\<exists>i \<in> set infos. fi_name i = n \<and> fi_isDir i = d) \<longleftrightarrow> (\<exists>c. (n, c) \<in> set ?ch \<and> childDir c = d)" for n d
    using map_of_eq_Some_iff [OF ch(1)] by (force simp: infos)
  have "(\<exists>c. (n, c) \<in> set ?ch \<and> childDir c = d) \<longleftrightarrow> cs @ [n] \<in> (if d then folders ?s else leaves ?s)" for n d
  proof
    assume "cs @ [n] \<in> (if d then folders ?s else leaves ?s)"
    moreover from this obtain c where c: "(n, c) \<in> set ?ch"
      using ch(3) [of n] by (auto split: if_splits)
    moreover have "cs @ [n] \<in> (if childDir c then folders ?s else leaves ?s)"
      by (rule ch(2) [OF c])
    ultimately show "\<exists>c. (n, c) \<in> set ?ch \<and> childDir c = d"
      using disjoint by (cases d; cases "childDir c") auto
  qed (use ch(2) in blast)
  moreover have "cs @ [n] \<in> (if d then folders ?s else leaves ?s)
      \<longleftrightarrow> goodName n \<and> (if d then isFolder else isFile) ?s (joinPath (names (relOf name) @ [n]))" for n d
    using cs by (simp add: folders_def leaves_def)
  ultimately show ?thesis
    using sorted child by simp
qed

subsection \<open>A run\<close>

definition demoOps :: "nat fs_op list" where
  "demoOps = [DoWrite ''/a/b'' ''x'', DoMkdir ''d'', DoWrite ''d/./c'' ''z'', DoMkdir ''d'', DoRename ''a'' ''/d/e'', DoRemove ''q'']"

lemma demoOps_ok: "list_all (\<lambda>op. \<not> intoItself op) demoOps"
  by code_simp

theorem operations_keep_tree_witness:
  "''d/e/b'' \<in> set (map fst (vf_files (performAll demoOps NewVirtualFS)))
    \<and> validPath ''d/e/b'' \<and> isFolder (performAll demoOps NewVirtualFS) ''d/e''"
proof -
  have k: "''d/e/b'' \<in> set (map fst (vf_files (performAll demoOps NewVirtualFS)))"
    by code_simp
  have dir: "pathDir ''d/e/b'' = ''d/e''" "''d/e'' \<noteq> ''.''"
    by code_simp+
  show ?thesis
    using operations_keep_tree [OF demoOps_ok, rule_format, OF UnI2 [OF k]] k dir by metis
qed

lemma isOk_obtain: "is_ok r \<Longrightarrow> \<exists>x. r = Ok x"
  by (cases r) simp_all

lemma rmap_obtain: "rmap f r = Ok y \<Longrightarrow> \<exists>x. r = Ok x \<and> f x = y"
  by (cases r) simp_all

theorem operations_change_contents_witness:
  "\<exists>s. perform (DoAppend ''d/e/b'' ''y'') (performAll demoOps NewVirtualFS) = Ok s \<and> contents s ''d/e/b'' = Some (Bytes ''xy'')"
proof -
  have "is_ok (perform (DoAppend ''d/e/b'' ''y'') (performAll demoOps NewVirtualFS))"
    by code_simp
  then obtain s where s: "perform (DoAppend ''d/e/b'' ''y'') (performAll demoOps NewVirtualFS) = Ok s"
    using isOk_obtain by blast
  have "contents s = effect (DoAppend ''d/e/b'' ''y'') (contents (performAll demoOps NewVirtualFS))"
    using operations_change_contents [OF demoOps_ok s] by simp
  moreover have "effect (DoAppend ''d/e/b'' ''y'') (contents (performAll demoOps NewVirtualFS)) ''d/e/b'' = Some (Bytes ''xy'')"
    by code_simp
  ultimately show ?thesis
    using s by simp
qed

theorem ReadDir_lists_witness:
  "\<exists>infos. ReadDir (\<lambda>_. '''') ''/d'' (performAll demoOps NewVirtualFS) = Ok infos \<and> map fi_name infos = [''c'', ''e'']
    \<and> sorted_wrt (<) (map fi_name infos)"
proof -
  have listed: "rmap (map fi_name) (ReadDir (\<lambda>_. '''') ''/d'' (performAll demoOps NewVirtualFS)) = Ok [''c'', ''e'']"
    by code_simp
  from rmap_obtain [OF listed] obtain infos
    where infos: "ReadDir (\<lambda>_. '''') ''/d'' (performAll demoOps NewVirtualFS) = Ok infos" "map fi_name infos = [''c'', ''e'']"
    by (elim exE conjE)
  have sorted: "sorted_wrt (<) (map fi_name infos)"
    by (rule conjunct1 [OF ReadDir_lists [OF demoOps_ok infos(1)]])
  show ?thesis
    by (intro exI [of _ infos] conjI infos sorted)
qed

text \<open>The mode \<open>ReadDir\<close> tells for a directory with children depends on the order in which the map is walked.\<close>

lemma ReadDir_mode_varies:
  "rmap (map fi_mode) (ReadDir (\<lambda>_. '''') ''.'' \<lparr>vf_dirs = [(''a'', dirProp 0\<lparr>vp_mode := 0x1C0\<rparr>), (''a/b'', dirProp 0)], vf_files = ([] :: (string \<times> nat ventry) list)\<rparr>)
    \<noteq> rmap (map fi_mode) (ReadDir (\<lambda>_. '''') ''.'' \<lparr>vf_dirs = [(''a/b'', dirProp 0), (''a'', dirProp 0\<lparr>vp_mode := 0x1C0\<rparr>)], vf_files = ([] :: (string \<times> nat ventry) list)\<rparr>)"
  by code_simp

text \<open>A mode of zero is not kept: the file gets the default mode.\<close>

lemma Chmod_zero:
  "rmap fi_mode (rbind (Chmod ''f'' 0 (performAll [DoWrite ''f'' ''x''] NewVirtualFS)) (Stat (\<lambda>_ :: nat. '''') ''f'')) = Ok 0x1A4"
  by code_simp

end
