(* ===== verification/MountFs.thy ===== *)
theory MountFs
  imports VirtualFs
begin

text \<open>
  The mount table of the JavaScript shell, \<open>jsh/engine/fs.go\<close>, with \<open>CleanPath\<close> of \<open>jsh/engine/env.go\<close>: a path is led
  to the file system mounted nearest above it.  A mounted file system is a number, its place in the list of file
  systems, for two mount points may share one: a virtual file system, a directory of the host (\<open>os.DirFS\<close>), or
  one that can only be read.  What the operating system does is the parameter \<open>host\<close>, what the others let be
  read the parameter \<open>look\<close>; the change a failed operation of the host leaves behind is not followed.  Links, and the attributes of the entries \<open>.\<close> and \<open>..\<close>, are left out.
\<close>

subsection \<open>File systems and mounts\<close>

datatype 'l backend = VirtualBackend "'l virtual_fs" | HostBackend string | OtherBackend nat

datatype host_op =
    HostMkdirAll string | HostRemove string | HostRename string string | HostWrite string string | HostAppend string string
  | HostChmod string "32 word" | HostChown string int int

datatype mount_error = Plain fs_err | At path_error

type_synonym 'h host = "host_op \<Rightarrow> 'h \<Rightarrow> 'h \<times> bool"

record ('l, 'h) mount_fs =
  mf_mounts :: "(string \<times> nat) list"
  mf_backends :: "'l backend list"
  mf_host :: 'h

definition NewFS :: "'l backend list \<Rightarrow> 'h \<Rightarrow> ('l, 'h) mount_fs" where
  "NewFS bs h = \<lparr>mf_mounts = [], mf_backends = bs, mf_host = h\<rparr>"

definition CleanPath :: "string \<Rightarrow> string" where
  "CleanPath p =
     (if p = '''' \<or> p = ''/'' \<or> p = ''.'' then ''/''
      else let q = pathClean (if hasPrefix p ''/'' then p else ''/'' @ p) in if q = ''.'' then ''/'' else q)"

definition conflicts :: "string \<Rightarrow> string \<Rightarrow> bool" where
  "conflicts mountPoint existing =
     (mountPoint = existing \<or> mountPoint \<noteq> ''/'' \<and> hasPrefix existing (mountPoint @ ''/'')
      \<or> existing \<noteq> ''/'' \<and> hasPrefix mountPoint (existing @ ''/''))"

definition Mount :: "string \<Rightarrow> nat \<Rightarrow> ('l, 'h) mount_fs \<Rightarrow> (mount_error, ('l, 'h) mount_fs) res" where
  "Mount point b s =
     (if length (mf_backends s) \<le> b then Err (Plain ErrInvalid)
      else let mountPoint = CleanPath point
           in if list_ex (conflicts mountPoint) (map fst (mf_mounts s)) then Err (Plain ErrExist)
              else Ok (s\<lparr>mf_mounts := AList.update mountPoint b (mf_mounts s)\<rparr>))"

definition Unmount :: "string \<Rightarrow> ('l, 'h) mount_fs \<Rightarrow> (mount_error, ('l, 'h) mount_fs) res" where
  "Unmount point s =
     (let mountPoint = CleanPath point
      in case map_of (mf_mounts s) mountPoint of
           None \<Rightarrow> Err (Plain ErrNotExist)
         | Some b \<Rightarrow> Ok (s\<lparr>mf_mounts := AList.delete mountPoint (mf_mounts s)\<rparr>))"

definition Mounts :: "('l, 'h) mount_fs \<Rightarrow> string list" where
  "Mounts s = sort (map fst (mf_mounts s))"

text \<open>The longest mount point above a path, found while ranging over the map.\<close>

definition bestStep :: "string \<Rightarrow> nat option \<times> string \<Rightarrow> string \<times> nat \<Rightarrow> nat option \<times> string" where
  "bestStep name = (\<lambda>(bestFS, best) (mountPoint, b).
     if mountPoint = ''/'' then (if best = '''' then (Some b, ''/'') else (bestFS, best))
     else if (name = mountPoint \<or> hasPrefix name (mountPoint @ ''/'')) \<and> length best < length mountPoint then (Some b, mountPoint)
     else (bestFS, best))"

definition bestMatch :: "string \<Rightarrow> (string \<times> nat) list \<Rightarrow> nat option \<times> string" where
  "bestMatch name mounts = foldl (bestStep (CleanPath name)) (None, '''') mounts"

definition getRelativePath :: "string \<Rightarrow> string \<Rightarrow> string" where
  "getRelativePath name best =
     (let rel = trimPrefix (trimPrefix name best) ''/'' in if rel = '''' then ''.'' else rel)"

definition resolveMount :: "string \<Rightarrow> ('l, 'h) mount_fs \<Rightarrow> (mount_error, nat \<times> string) res" where
  "resolveMount name s =
     (case bestMatch (CleanPath name) (mf_mounts s) of
        (None, best) \<Rightarrow> Err (Plain ErrNotExist)
      | (Some b, best) \<Rightarrow> Ok (b, getRelativePath (CleanPath name) best))"

text \<open>\<open>filepath.Join\<close> of the directory of the host and a relative path.\<close>

definition joinHost :: "string \<Rightarrow> string \<Rightarrow> string" where
  "joinHost root rel = pathClean (if root = '''' then rel else root @ ''/'' @ rel)"

fun getOSPath :: "'l backend \<Rightarrow> string \<Rightarrow> (mount_error, string) res" where
  "getOSPath (HostBackend root) rel = Ok (joinHost root rel)"
| "getOSPath _ rel = Err (Plain ErrPermission)"

definition performOSOperation :: "'h host \<Rightarrow> (string \<Rightarrow> host_op) \<Rightarrow> string \<Rightarrow> ('l, 'h) mount_fs \<Rightarrow> (mount_error, ('l, 'h) mount_fs) res" where
  "performOSOperation host operation name s =
     rbind (resolveMount name s) (\<lambda>(b, rel).
     rbind (getOSPath (mf_backends s ! b) rel) (\<lambda>target.
       case host (operation target) (mf_host s) of
         (h, True) \<Rightarrow> Ok (s\<lparr>mf_host := h\<rparr>)
       | (h, False) \<Rightarrow> Err (Plain ErrInvalid)))"

definition OSPath :: "string \<Rightarrow> ('l, 'h) mount_fs \<Rightarrow> (mount_error, string) res" where
  "OSPath name s = rbind (resolveMount name s) (\<lambda>(b, rel). getOSPath (mf_backends s ! b) rel)"

subsection \<open>Writing\<close>

definition liftError :: "(path_error, 'a) res \<Rightarrow> (mount_error, 'a) res" where
  "liftError r = (case r of Ok x \<Rightarrow> Ok x | Err e \<Rightarrow> Err (At e) | Panic \<Rightarrow> Panic | NoFuel \<Rightarrow> NoFuel)"

text \<open>An operation of the virtual file system, if that is what is mounted, and otherwise one of the host.\<close>

definition dispatch :: "'h host \<Rightarrow> (string \<Rightarrow> 'l fs_op) \<Rightarrow> (string \<Rightarrow> host_op) \<Rightarrow> string \<Rightarrow> ('l, 'h) mount_fs
    \<Rightarrow> (mount_error, ('l, 'h) mount_fs) res" where
  "dispatch host virtual operation name s =
     rbind (resolveMount name s) (\<lambda>(b, rel).
       case mf_backends s ! b of
         VirtualBackend v \<Rightarrow>
           rbind (liftError (perform (virtual rel) v)) (\<lambda>v'. Ok (s\<lparr>mf_backends := (mf_backends s)[b := VirtualBackend v']\<rparr>))
       | _ \<Rightarrow> performOSOperation host operation name s)"

definition FS_Mkdir :: "'h host \<Rightarrow> string \<Rightarrow> ('l, 'h) mount_fs \<Rightarrow> (mount_error, ('l, 'h) mount_fs) res" where
  "FS_Mkdir host = dispatch host DoMkdir HostMkdirAll"

definition FS_Rmdir :: "'h host \<Rightarrow> string \<Rightarrow> ('l, 'h) mount_fs \<Rightarrow> (mount_error, ('l, 'h) mount_fs) res" where
  "FS_Rmdir host = performOSOperation host HostRemove"

definition FS_Remove :: "'h host \<Rightarrow> string \<Rightarrow> ('l, 'h) mount_fs \<Rightarrow> (mount_error, ('l, 'h) mount_fs) res" where
  "FS_Remove host = dispatch host DoRemove HostRemove"

definition FS_WriteFile :: "'h host \<Rightarrow> string \<Rightarrow> string \<Rightarrow> ('l, 'h) mount_fs \<Rightarrow> (mount_error, ('l, 'h) mount_fs) res" where
  "FS_WriteFile host name data = dispatch host (\<lambda>rel. DoWrite rel data) (\<lambda>target. HostWrite target data) name"

definition FS_AppendFile :: "'h host \<Rightarrow> string \<Rightarrow> string \<Rightarrow> ('l, 'h) mount_fs \<Rightarrow> (mount_error, ('l, 'h) mount_fs) res" where
  "FS_AppendFile host name data = dispatch host (\<lambda>rel. DoAppend rel data) (\<lambda>target. HostAppend target data) name"

definition FS_Chmod :: "'h host \<Rightarrow> string \<Rightarrow> 32 word \<Rightarrow> ('l, 'h) mount_fs \<Rightarrow> (mount_error, ('l, 'h) mount_fs) res" where
  "FS_Chmod host name mode = dispatch host (\<lambda>rel. DoChmod rel mode) (\<lambda>target. HostChmod target mode) name"

definition FS_Chown :: "'h host \<Rightarrow> string \<Rightarrow> int \<Rightarrow> int \<Rightarrow> ('l, 'h) mount_fs \<Rightarrow> (mount_error, ('l, 'h) mount_fs) res" where
  "FS_Chown host name uid gid = dispatch host DoChown (\<lambda>target. HostChown target uid gid) name"

text \<open>Two mounts are of the same file system also when they are directories of the host with the same name.\<close>

fun sameBackend :: "nat \<Rightarrow> nat \<Rightarrow> 'l backend \<Rightarrow> 'l backend \<Rightarrow> bool" where
  "sameBackend a b (HostBackend p) (HostBackend q) = (p = q)"
| "sameBackend a b x y = (a = b)"

definition FS_Rename :: "'h host \<Rightarrow> string \<Rightarrow> string \<Rightarrow> ('l, 'h) mount_fs \<Rightarrow> (mount_error, ('l, 'h) mount_fs) res" where
  "FS_Rename host oldName newName s =
     rbind (resolveMount oldName s) (\<lambda>(a, oldRel).
     rbind (resolveMount newName s) (\<lambda>(b, newRel).
       if \<not> sameBackend a b (mf_backends s ! a) (mf_backends s ! b) then Err (Plain ErrInvalid)
       else case mf_backends s ! a of
         VirtualBackend v \<Rightarrow>
           rbind (liftError (perform (DoRename oldRel newRel) v)) (\<lambda>v'. Ok (s\<lparr>mf_backends := (mf_backends s)[a := VirtualBackend v']\<rparr>))
       | _ \<Rightarrow>
           rbind (getOSPath (mf_backends s ! a) oldRel) (\<lambda>oldTarget.
           rbind (getOSPath (mf_backends s ! b) newRel) (\<lambda>newTarget.
             case host (HostRename oldTarget newTarget) (mf_host s) of
               (h, True) \<Rightarrow> Ok (s\<lparr>mf_host := h\<rparr>)
             | (h, False) \<Rightarrow> Err (Plain ErrInvalid)))))"

subsection \<open>Reading\<close>

type_synonym ('l, 'h) look = "'l backend \<Rightarrow> string \<Rightarrow> 'h \<Rightarrow> (path_error, opened) res"

definition checkPath :: "string \<Rightarrow> string \<Rightarrow> (mount_error, unit) res" where
  "checkPath op name =
     (let valid = (if trimPrefix name ''/'' = '''' then ''.'' else trimPrefix name ''/'')
      in if validPath valid then Ok () else Err (At (PathError op name ErrInvalid)))"

definition openBackend :: "('l \<Rightarrow> string) \<Rightarrow> ('l, 'h) look \<Rightarrow> nat \<Rightarrow> string \<Rightarrow> ('l, 'h) mount_fs \<Rightarrow> (path_error, opened) res" where
  "openBackend load look b rel s =
     (case mf_backends s ! b of VirtualBackend v \<Rightarrow> Open load rel v | other \<Rightarrow> look other rel (mf_host s))"

definition FS_Open :: "('l \<Rightarrow> string) \<Rightarrow> ('l, 'h) look \<Rightarrow> string \<Rightarrow> ('l, 'h) mount_fs \<Rightarrow> (mount_error, opened) res" where
  "FS_Open load look name s =
     rbind (checkPath ''open'' (CleanPath name)) (\<lambda>_.
       case bestMatch (CleanPath name) (mf_mounts s) of
         (None, best) \<Rightarrow> Err (At (PathError ''open'' (CleanPath name) ErrNotExist))
       | (Some b, best) \<Rightarrow> liftError (openBackend load look b (getRelativePath (CleanPath name) best) s))"

definition FS_ReadFile :: "('l \<Rightarrow> string) \<Rightarrow> ('l, 'h) look \<Rightarrow> string \<Rightarrow> ('l, 'h) mount_fs \<Rightarrow> (mount_error, string) res" where
  "FS_ReadFile load look name s =
     rbind (FS_Open load look (CleanPath name) s) (\<lambda>f.
       case f of
         OpenFile info d \<Rightarrow> Ok d
       | OpenDir d \<Rightarrow> Err (At (PathError ''read'' (fi_name (od_info d)) ErrInvalid)))"

definition FS_Stat :: "('l \<Rightarrow> string) \<Rightarrow> ('l, 'h) look \<Rightarrow> string \<Rightarrow> ('l, 'h) mount_fs \<Rightarrow> (mount_error, file_info) res" where
  "FS_Stat load look name s =
     rbind (FS_Open load look (CleanPath name) s) (\<lambda>f. Ok (case f of OpenFile info d \<Rightarrow> info | OpenDir d \<Rightarrow> od_info d))"

definition FS_CountLines :: "('l \<Rightarrow> string) \<Rightarrow> ('l, 'h) look \<Rightarrow> string \<Rightarrow> ('l, 'h) mount_fs \<Rightarrow> (mount_error, nat) res" where
  "FS_CountLines load look name s = rmap (\<lambda>d. length (filter (\<lambda>c. c = NL) d)) (FS_ReadFile load look name s)"

text \<open>
  The names in a directory: the two dots, what the file system tells (without dots of its own), and the mount
  points just below that are not there yet; and which of them are directories.
\<close>

definition mountChild :: "string \<Rightarrow> string \<Rightarrow> string option" where
  "mountChild name mountPoint =
     (if mountPoint \<noteq> ''/'' \<and> (hasPrefix mountPoint (name @ ''/'') \<or> name = ''/'')
      then let rel = trimPrefix (trimPrefix mountPoint name) ''/''
           in if slash \<notin> set rel \<and> rel \<noteq> '''' then Some rel else None
      else None)"

definition addMount :: "string \<Rightarrow> (string \<times> bool) list \<Rightarrow> string \<Rightarrow> (string \<times> bool) list" where
  "addMount name entries mountPoint =
     (case mountChild name mountPoint of
        None \<Rightarrow> entries
      | Some rel \<Rightarrow> if rel \<in> set (map fst entries) then entries else entries @ [(rel, True)])"

definition FS_ReadDir :: "('l \<Rightarrow> string) \<Rightarrow> ('l backend \<Rightarrow> string \<Rightarrow> 'h \<Rightarrow> (path_error, (string \<times> bool) list) res) \<Rightarrow> string
    \<Rightarrow> ('l, 'h) mount_fs \<Rightarrow> (mount_error, (string \<times> bool) list) res" where
  "FS_ReadDir load list name s =
     rbind (checkPath ''readdir'' (CleanPath name)) (\<lambda>_.
       case bestMatch (CleanPath name) (mf_mounts s) of
         (None, best) \<Rightarrow> Err (At (PathError ''readdir'' (CleanPath name) ErrNotExist))
       | (Some b, best) \<Rightarrow>
           rbind (liftError (case mf_backends s ! b of
               VirtualBackend v \<Rightarrow> rmap (map (\<lambda>i. (fi_name i, fi_isDir i))) (ReadDir load (getRelativePath (CleanPath name) best) v)
             | other \<Rightarrow> list other (getRelativePath (CleanPath name) best) (mf_host s))) (\<lambda>entries.
             Ok (foldl (addMount (CleanPath name))
                   ([(''.'', True), (''..'', True)] @ filter (\<lambda>(n, d). n \<noteq> ''.'' \<and> n \<noteq> ''..'') entries)
                   (map fst (mf_mounts s)))))"

end
