(* ===== verification/MountFsProps.thy ===== *)
theory MountFsProps
  imports MountFs VirtualFsList
begin

text \<open>
  Mount points never lie under one another, so that a path belongs to at most one of them besides the root; what
  is written through the mount table is read back through it, and other files stay.
\<close>

subsection \<open>Clean absolute paths\<close>

definition absPath :: "string list \<Rightarrow> string" where
  "absPath cs = ''/'' @ joinWith ''/'' cs"

lemma absPath_simps: "absPath [] = ''/''" "cs \<noteq> [] \<Longrightarrow> absPath cs = CHR ''/'' # joinPath cs"
  by (simp_all add: absPath_def joinPath_def)

lemma cleanStep_good: "list_all goodName acc \<Longrightarrow> slash \<notin> set c \<Longrightarrow> list_all goodName (cleanStep True acc c)"
  by (auto simp: cleanStep_def goodName_def split: list.splits)

lemma foldl_clean_good: "list_all goodName acc \<Longrightarrow> \<forall>c \<in> set xs. slash \<notin> set c \<Longrightarrow> list_all goodName (foldl (cleanStep True) acc xs)"
  by (induction xs arbitrary: acc) (simp_all add: cleanStep_good)

lemma pathClean_rooted:
  assumes "hasPrefix p ''/''"
  obtains cs where "list_all goodName cs" "pathClean p = absPath cs"
proof
  let ?cs = "rev (foldl (cleanStep True) [] (splitOn p slash))"
  have "list_all goodName (foldl (cleanStep True) [] (splitOn p slash))"
    by (intro foldl_clean_good) (auto dest: splitOn_no_sep)
  then show "list_all goodName ?cs"
    by simp
  show "pathClean p = absPath ?cs"
    using assms by (simp add: pathClean_def absPath_def)
qed

lemma CleanPath_absPath: obtains cs where "list_all goodName cs" "CleanPath p = absPath cs"
proof (cases "p = '''' \<or> p = ''/'' \<or> p = ''.''")
  case True
  then show ?thesis
    using that [of "[]"] by (simp add: CleanPath_def absPath_simps)
next
  case False
  have "hasPrefix (if hasPrefix p ''/'' then p else ''/'' @ p) ''/''"
    by simp
  then obtain cs where "list_all goodName cs" "pathClean (if hasPrefix p ''/'' then p else ''/'' @ p) = absPath cs"
    by (rule pathClean_rooted)
  then show ?thesis
    using that [of cs] False by (simp add: CleanPath_def absPath_def)
qed

lemma pathClean_absPath: "list_all goodName cs \<Longrightarrow> pathClean (absPath cs) = absPath cs"
proof (cases "cs = []")
  case False
  assume cs: "list_all goodName cs"
  have "splitOn (absPath cs) slash = '''' # cs"
    using splitOn_good [OF False cs] by (simp add: absPath_def slash_def)
  then show ?thesis
    using cs by (simp add: pathClean_def absPath_def foldl_good, simp add: cleanStep_def)
qed (simp add: absPath_def pathClean_def cleanStep_def slash_def)

lemma CleanPath_again [simp]: "CleanPath (CleanPath p) = CleanPath p"
proof -
  obtain cs where cs: "list_all goodName cs" "CleanPath p = absPath cs"
    by (rule CleanPath_absPath)
  show ?thesis
    using pathClean_absPath [OF cs(1)] unfolding cs(2) by (simp add: CleanPath_def) (simp add: absPath_def)
qed

lemma absPath_inject:
  assumes "list_all goodName cs" "list_all goodName ds"
  shows "absPath cs = absPath ds \<longleftrightarrow> cs = ds"
  using joinPath_inject [OF assms] joinWith_not_dot [of cs] joinWith_not_dot [of ds] assms
  by (cases "cs = []"; cases "ds = []") (auto simp: absPath_def joinPath_def)

lemma under_absPath:
  assumes "list_all goodName cs" "cs \<noteq> []" "list_all goodName ds"
  shows "absPath ds = absPath cs \<or> hasPrefix (absPath ds) (absPath cs @ ''/'') \<longleftrightarrow> prefix cs ds"
proof (cases "ds = []")
  case True
  then show ?thesis
    using assms(2) joinWith_not_dot [OF assms(2,1)] by (cases "joinWith ''/'' cs") (auto simp: absPath_def)
next
  case False
  have "ds = cs \<or> (\<exists>es. es \<noteq> [] \<and> ds = cs @ es) \<longleftrightarrow> prefix cs ds"
    by (auto simp: prefix_def)
  then show ?thesis
    using hasPrefix_joinPath [OF assms] absPath_inject [OF assms(3,1)] assms(2) False by (simp add: absPath_simps)
qed

subsection \<open>Mount tables\<close>

text \<open>A mount point covers a path that is it or lies under it.\<close>

definition covers :: "string \<Rightarrow> string \<Rightarrow> bool" where
  "covers mountPoint name = (mountPoint = ''/'' \<or> name = mountPoint \<or> hasPrefix name (mountPoint @ ''/''))"

definition mountsOK :: "(string \<times> nat) list \<Rightarrow> bool" where
  "mountsOK m =
     (distinct (map fst m) \<and> (\<forall>p \<in> set (map fst m). CleanPath p = p)
      \<and> (\<forall>p \<in> set (map fst m). \<forall>q \<in> set (map fst m). p \<noteq> q \<longrightarrow> \<not> conflicts p q))"

lemma covers_absPath:
  assumes "list_all goodName cs" "list_all goodName ds"
  shows "covers (absPath cs) (absPath ds) \<longleftrightarrow> prefix cs ds"
proof (cases "cs = []")
  case False
  then have "absPath cs \<noteq> ''/''"
    using joinWith_not_dot [OF False assms(1)] by (simp add: absPath_def)
  then show ?thesis
    using under_absPath [OF assms(1) False assms(2)] by (simp add: covers_def)
qed (simp add: covers_def absPath_simps)

lemma covers_chain:
  assumes "CleanPath p = p" "CleanPath q = q" "CleanPath name = name" "covers p name" "covers q name" "p \<noteq> ''/''" "q \<noteq> ''/''" "p \<noteq> q"
  shows "conflicts p q \<and> length p \<noteq> length q"
proof -
  obtain cs ds es where names: "list_all goodName cs" "p = absPath cs" "list_all goodName ds" "q = absPath ds"
      "list_all goodName es" "name = absPath es"
    using assms(1-3) CleanPath_absPath by metis
  have ne: "cs \<noteq> []" "ds \<noteq> []" "cs \<noteq> ds"
    using assms(6-8) names by (auto simp: absPath_simps)
  have "prefix cs es" "prefix ds es"
    using assms(4,5) covers_absPath names by simp_all
  then have both: "prefix cs ds \<or> prefix ds cs"
    by (rule prefix_same_cases)
  then have "hasPrefix q (p @ ''/'') \<or> hasPrefix p (q @ ''/'')"
    using under_absPath [of cs ds] under_absPath [of ds cs] names ne absPath_inject [of cs ds] by auto
  moreover from this have "length p \<noteq> length q"
    by (auto simp: hasPrefix_iff)
  ultimately show ?thesis
    using assms(6,7) by (auto simp: conflicts_def)
qed

text \<open>Finding the mount point, one entry of the map after the other.\<close>

definition found :: "string \<Rightarrow> (string \<times> nat) list \<Rightarrow> nat option \<times> string \<Rightarrow> bool" where
  "found name m r =
     (case r of
        (None, best) \<Rightarrow> best = '''' \<and> (\<forall>(p, b) \<in> set m. \<not> covers p name)
      | (Some b, best) \<Rightarrow> (best, b) \<in> set m \<and> covers best name \<and> (\<forall>(p, b) \<in> set m. covers p name \<longrightarrow> length p \<le> length best))"

lemma clean_length: "CleanPath p = p \<Longrightarrow> p \<noteq> ''/'' \<Longrightarrow> 1 < length p"
proof -
  assume p: "CleanPath p = p" "p \<noteq> ''/''"
  obtain cs where cs: "list_all goodName cs" "p = absPath cs"
    using CleanPath_absPath p(1) by metis
  then have "joinWith ''/'' cs \<noteq> ''''"
    using p(2) joinWith_not_dot [of cs] by (auto simp: absPath_def)
  then show ?thesis
    using cs(2) by (simp add: absPath_def)
qed

lemma found_step:
  assumes "found name m r" "CleanPath p = p" "\<forall>q \<in> set (map fst m). CleanPath q = q"
  shows "found name (m @ [(p, b)]) (bestStep name r (p, b))"
proof (cases "fst r")
  case None
  then have r: "r = (None, '''')"
    using assms(1) by (cases r) (simp add: found_def)
  then show ?thesis
    using assms(1,2) clean_length [of p] by (auto simp: found_def bestStep_def covers_def)
next
  case (Some c)
  then obtain best where r: "r = (Some c, best)"
    by (cases r) simp
  have best: "(best, c) \<in> set m" "covers best name" "\<forall>(q, b) \<in> set m. covers q name \<longrightarrow> length q \<le> length best"
    using assms(1) by (simp_all add: found_def r)
  then have "CleanPath best = best"
    using assms(3) by force
  then have "best \<noteq> ''''"
    by (auto simp: CleanPath_def)
  then have "1 \<le> length best"
    by (cases best) simp_all
  then show ?thesis
    using best by (auto simp: found_def bestStep_def r covers_def split: if_splits)
qed

lemma found_bestMatch:
  assumes "\<forall>q \<in> set (map fst m). CleanPath q = q"
  shows "found (CleanPath name) m (bestMatch name m)"
  using assms
proof (induction m rule: rev_induct)
  case (snoc pb m)
  then show ?case
    using found_step [of "CleanPath name" m "bestMatch name m" "fst pb" "snd pb"] by (simp add: bestMatch_def)
qed (simp add: bestMatch_def found_def)

subsection \<open>Mounting\<close>

datatype mount_op = DoMount string nat | DoUnmount string

fun mountOne :: "mount_op \<Rightarrow> ('l, 'h) mount_fs \<Rightarrow> (mount_error, ('l, 'h) mount_fs) res" where
  "mountOne (DoMount point b) s = Mount point b s"
| "mountOne (DoUnmount point) s = Unmount point s"

fun mountAll :: "mount_op list \<Rightarrow> ('l, 'h) mount_fs \<Rightarrow> ('l, 'h) mount_fs" where
  "mountAll [] s = s"
| "mountAll (op # ops) s = mountAll ops (case mountOne op s of Ok s' \<Rightarrow> s' | _ \<Rightarrow> s)"

definition tableOK :: "('l, 'h) mount_fs \<Rightarrow> bool" where
  "tableOK s = (mountsOK (mf_mounts s) \<and> (\<forall>(p, b) \<in> set (mf_mounts s). b < length (mf_backends s)))"

lemma conflicts_sym: "conflicts p q = conflicts q p"
  by (auto simp: conflicts_def)

lemma Mount_table:
  assumes "tableOK s" "Mount point b s = Ok s'"
  shows "tableOK s' \<and> mf_backends s' = mf_backends s \<and> mf_host s' = mf_host s"
proof -
  let ?p = "CleanPath point" and ?m = "mf_mounts s"
  have s': "s' = s\<lparr>mf_mounts := AList.update ?p b ?m\<rparr>" "b < length (mf_backends s)" "\<not> list_ex (conflicts ?p) (map fst ?m)"
    using assms(2) by (auto simp: Mount_def Let_def split: if_splits)
  have new: "?p \<notin> set (map fst ?m)"
    using s'(3) by (force simp: list_ex_iff conflicts_def)
  have keys: "map fst (AList.update ?p b ?m) = map fst ?m @ [?p]"
    using new by (simp add: update_keys)
  have old: "distinct (map fst ?m)" "\<forall>q \<in> set (map fst ?m). CleanPath q = q"
      "\<forall>p \<in> set (map fst ?m). \<forall>q \<in> set (map fst ?m). p \<noteq> q \<longrightarrow> \<not> conflicts p q"
    using assms(1) by (simp_all add: tableOK_def mountsOK_def)
  have "\<forall>q \<in> set (map fst ?m). \<not> conflicts ?p q"
    using s'(3) unfolding list_ex_iff by blast
  then have free: "\<forall>q \<in> set (map fst ?m). \<not> conflicts ?p q \<and> \<not> conflicts q ?p"
    using conflicts_sym by blast
  have keyset: "set (map fst (AList.update ?p b ?m)) = insert ?p (set (map fst ?m))"
    unfolding keys by simp
  have "distinct (map fst (AList.update ?p b ?m))"
    unfolding keys using old(1) new by simp
  then have "mountsOK (AList.update ?p b ?m)"
    unfolding mountsOK_def keyset using old(2,3) free CleanPath_again by blast
  moreover have "\<forall>(p, c) \<in> set (AList.update ?p b ?m). c < length (mf_backends s)"
    using assms(1) s'(2) update_entries [of ?p b ?m] unfolding tableOK_def by blast
  ultimately show ?thesis
    by (simp add: tableOK_def s'(1))
qed

lemma Unmount_table:
  assumes "tableOK s" "Unmount point s = Ok s'"
  shows "tableOK s' \<and> mf_backends s' = mf_backends s \<and> mf_host s' = mf_host s"
proof -
  let ?p = "CleanPath point" and ?m = "mf_mounts s"
  have s': "s' = s\<lparr>mf_mounts := AList.delete ?p ?m\<rparr>"
    using assms(2) by (auto simp: Unmount_def Let_def split: option.splits)
  have sub: "set (AList.delete ?p ?m) \<subseteq> set ?m" "set (map fst (AList.delete ?p ?m)) \<subseteq> set (map fst ?m)"
    by (auto simp: AList.delete_eq)
  have "distinct (map fst (AList.delete ?p ?m))"
    using assms(1) by (simp add: tableOK_def mountsOK_def distinct_delete)
  then have "mountsOK (AList.delete ?p ?m)"
    using assms(1) sub(2) unfolding tableOK_def mountsOK_def by blast
  then show ?thesis
    using assms(1) sub(1) by (auto simp: tableOK_def s')
qed

lemma mountAll_table: "tableOK s \<Longrightarrow> tableOK (mountAll ops s) \<and> mf_backends (mountAll ops s) = mf_backends s \<and> mf_host (mountAll ops s) = mf_host s"
proof (induction ops s rule: mountAll.induct)
  case (2 op ops s)
  have "tableOK s' \<and> mf_backends s' = mf_backends s \<and> mf_host s' = mf_host s" if "mountOne op s = Ok s'" for s'
    using that Mount_table [OF "2.prems"] Unmount_table [OF "2.prems"] by (cases op) auto
  then show ?case
    using 2 by (cases "mountOne op s") auto
qed simp

lemma tableOK_new: "tableOK (NewFS bs h)"
  by (simp add: tableOK_def mountsOK_def NewFS_def)

text \<open>
  C19: However file systems have been mounted and unmounted, a path is led to the one mount point besides the root that
  covers it, to the root if there is none, and nowhere only if nothing covers it: the order of the map does not matter.
\<close>

theorem bestMatch_unique:
  "case bestMatch name (mf_mounts (mountAll ops (NewFS bs h))) of
     (None, best) \<Rightarrow> \<forall>p \<in> set (map fst (mf_mounts (mountAll ops (NewFS bs h)))). \<not> covers p (CleanPath name)
   | (Some b, best) \<Rightarrow> map_of (mf_mounts (mountAll ops (NewFS bs h))) best = Some b \<and> covers best (CleanPath name)
       \<and> (\<forall>p \<in> set (map fst (mf_mounts (mountAll ops (NewFS bs h)))). covers p (CleanPath name) \<longrightarrow> p = best \<or> p = ''/'')"
proof -
  let ?m = "mf_mounts (mountAll ops (NewFS bs h))" and ?n = "CleanPath name"
  have ok: "mountsOK ?m"
    using mountAll_table [OF tableOK_new, of ops bs h] by (simp add: tableOK_def)
  then have clean: "\<forall>q \<in> set (map fst ?m). CleanPath q = q" and apart: "\<forall>p \<in> set (map fst ?m). \<forall>q \<in> set (map fst ?m). p \<noteq> q \<longrightarrow> \<not> conflicts p q"
    and distinct: "distinct (map fst ?m)"
    by (simp_all add: mountsOK_def)
  obtain r best where match: "bestMatch name ?m = (r, best)"
    by (cases "bestMatch name ?m")
  have found: "found ?n ?m (r, best)"
    using found_bestMatch [OF clean, of name] by (simp add: match)
  show ?thesis
  proof (cases r)
    case None
    then show ?thesis
      using found by (auto simp: match found_def)
  next
    case (Some b)
    then have best: "(best, b) \<in> set ?m" "covers best ?n" "\<forall>(p, b) \<in> set ?m. covers p ?n \<longrightarrow> length p \<le> length best"
      using found by (simp_all add: found_def)
    have "p = best \<or> p = ''/''" if p: "p \<in> set (map fst ?m)" "covers p ?n" for p
    proof (rule ccontr)
      assume other: "\<not> (p = best \<or> p = ''/'')"
      have "best \<in> set (map fst ?m)"
        using best(1) by force
      then have cb: "CleanPath best = best" "\<not> conflicts p best"
        using clean apart p(1) other by blast+
      have cp: "CleanPath p = p"
        using clean p(1) by blast
      show False
      proof (cases "best = ''/''")
        case True
        have "length p \<le> length best"
          using best(3) p by auto
        then show False
          using clean_length [OF cp] other True by simp
      next
        case False
        then show False
          using covers_chain [OF cp cb(1) _ p(2) best(2)] other cb(2) by simp
      qed
    qed
    then show ?thesis
      using best map_of_eq_Some_iff [OF distinct] by (simp add: match Some)
  qed
qed

subsection \<open>Paths below a mount point\<close>

lemma getRelativePath_absPath:
  assumes "list_all goodName cs" "list_all goodName es"
  shows "getRelativePath (absPath (cs @ es)) (absPath cs) = joinPath es"
proof (cases "es = []")
  case True
  then show ?thesis
    using trimPrefix_append [of "absPath cs" "''''"] by (simp add: getRelativePath_def trimPrefix_def [of "''''"])
next
  case False
  then have es: "joinPath es \<noteq> ''''" "joinPath es = joinWith ''/'' es" "trimPrefix (joinPath es) ''/'' = joinPath es"
    using joinWith_not_dot [OF False assms(2)] good_not_rooted [OF False assms(2), of "''''"]
    by (simp_all add: joinPath_def trimPrefix_def)
  show ?thesis
  proof (cases "cs = []")
    case True
    have "absPath es = ''/'' @ joinPath es"
      using es(2) by (simp add: absPath_def)
    then show ?thesis
      using True es trimPrefix_append [of "''/''" "joinPath es"] by (simp add: getRelativePath_def absPath_def)
  next
    case False
    then have "absPath (cs @ es) = absPath cs @ ''/'' @ joinPath es"
      using joinWith_append [OF False \<open>es \<noteq> []\<close>] es(2) by (simp add: absPath_def)
    then show ?thesis
      using es(1) trimPrefix_append [of "absPath cs" "''/'' @ joinPath es"] trimPrefix_append [of "''/''" "joinPath es"]
      by (simp add: getRelativePath_def)
  qed
qed

lemma resolve_valid:
  assumes "tableOK s" "resolveMount name s = Ok (b, rel)"
  shows "validPath rel" "b < length (mf_backends s)"
proof -
  let ?m = "mf_mounts s"
  have clean: "\<forall>q \<in> set (map fst ?m). CleanPath q = q"
    using assms(1) by (simp add: tableOK_def mountsOK_def)
  obtain best where best: "bestMatch (CleanPath name) ?m = (Some b, best)" "rel = getRelativePath (CleanPath name) best"
    using assms(2) by (auto simp: resolveMount_def split: prod.splits option.splits)
  then have in_m: "(best, b) \<in> set ?m" and cov: "covers best (CleanPath name)"
    using found_bestMatch [OF clean, of "CleanPath name"] by (simp_all add: found_def)
  have "CleanPath best = best"
    using clean in_m by force
  then obtain cs where cs: "list_all goodName cs" "best = absPath cs"
    using CleanPath_absPath by metis
  obtain ds where ds: "list_all goodName ds" "CleanPath name = absPath ds"
    by (rule CleanPath_absPath)
  obtain es where es: "ds = cs @ es"
    using cov covers_absPath [OF cs(1) ds(1)] cs(2) ds(2) by (auto simp: prefix_def)
  then show "validPath rel"
    using getRelativePath_absPath [OF cs(1), of es] ds best(2) cs(2) by simp
  show "b < length (mf_backends s)"
    using assms(1) in_m by (auto simp: tableOK_def)
qed

lemma checkPath_ok: "checkPath op (CleanPath name) = Ok ()"
proof -
  obtain cs where cs: "list_all goodName cs" "CleanPath name = absPath cs"
    by (rule CleanPath_absPath)
  have "trimPrefix (absPath cs) ''/'' = joinWith ''/'' cs"
    using trimPrefix_append [of "''/''" "joinWith ''/'' cs"] by (simp add: absPath_def)
  then show ?thesis
    using validPath_joinPath [OF cs(1)] cs joinWith_not_dot [of cs] by (auto simp: checkPath_def joinPath_def split: if_splits)
qed

lemma FS_Open_resolve:
  "FS_Open load look name s = (case resolveMount name s of
     Ok (b, rel) \<Rightarrow> liftError (openBackend load look b rel s)
   | _ \<Rightarrow> Err (At (PathError ''open'' (CleanPath name) ErrNotExist)))"
  by (auto simp: FS_Open_def checkPath_ok resolveMount_def split: prod.splits option.splits)

lemma resolveMount_clean: "resolveMount (CleanPath name) s = resolveMount name s"
  by (simp only: resolveMount_def CleanPath_again)

lemma FS_ReadFile_iff:
  "FS_ReadFile load look name s = Ok d \<longleftrightarrow>
     (\<exists>b rel info. resolveMount name s = Ok (b, rel) \<and> openBackend load look b rel s = Ok (OpenFile info d))"
  by (auto simp: FS_ReadFile_def FS_Open_resolve resolveMount_clean rbind_Ok_iff liftError_def split: res.splits opened.splits)

lemma normalize_valid:
  assumes "validPath rel"
  shows "normalizeVirtualPath op rel True = Ok rel" "relOf rel = rel"
proof -
  have "normalizeVirtualPath op rel True = Ok rel" for op
  proof -
    obtain cs where cs: "list_all goodName cs" "rel = joinPath cs"
      using assms validPath_iff by blast
    have "\<not> hasPrefix rel ''/''"
    proof (cases "cs = []")
      case False
      then show ?thesis
        using good_not_rooted [OF False cs(1), of "''''"] by (simp add: cs(2) joinPath_def)
    qed (simp add: cs(2))
    then have "trimPrefix rel ''/'' = rel"
      by (simp add: trimPrefix_def)
    moreover have "rel \<noteq> ''''"
      using joinWith_not_dot [of cs] cs by (auto simp: joinPath_def)
    moreover have "rel \<noteq> ''..'' \<and> \<not> hasPrefix rel ''../''"
    proof (rule ccontr)
      assume "\<not> (rel \<noteq> ''..'' \<and> \<not> hasPrefix rel ''../'')"
      then have "''..'' \<in> set (splitOn rel slash)"
        using splitOn_append [of slash "''..''"] by (auto simp: hasPrefix_iff slash_def)
      moreover have "rel \<noteq> ''.''"
        using \<open>\<not> (rel \<noteq> ''..'' \<and> \<not> hasPrefix rel ''../'')\<close> by auto
      ultimately show False
        using assms by (auto simp: validPath_def list_all_iff)
    qed
    ultimately show ?thesis
      using assms pathClean_good [OF cs(1)] cs(2) by (auto simp: normalizeVirtualPath_def Let_def)
  qed
  then show "normalizeVirtualPath op rel True = Ok rel" "relOf rel = rel"
    by (simp_all add: relOf_def)
qed

lemma Open_file:
  assumes "validPath rel"
  shows "(\<exists>info. Open load rel v = Ok (OpenFile info d)) \<longleftrightarrow>
    (\<exists>c. contents v rel = Some c \<and> d = (case c of Bytes d \<Rightarrow> d | Loader l \<Rightarrow> load l))"
  using normalize_valid(1) [OF assms, of "''open''"]
  by (auto simp: Open_def contents_def split: option.splits vcontent.splits)

subsection \<open>Reading what was written\<close>

text \<open>
  C20: What has been written through the mount table to a file of a virtual file system is read back under the same
  name, and every other file that could be read holds what it held.
\<close>

theorem write_then_read:
  assumes virtual: "\<forall>v. VirtualBackend v \<in> set bs \<longrightarrow> (\<exists>ops. list_all (\<lambda>op. \<not> intoItself op) ops \<and> v = performAll ops NewVirtualFS)"
    and resolved: "resolveMount name (mountAll mounts (NewFS bs h)) = Ok (b, rel)" "bs ! b = VirtualBackend v"
    and written: "FS_WriteFile host name data (mountAll mounts (NewFS bs h)) = Ok s"
  shows "FS_ReadFile load look name s = Ok data
    \<and> (\<forall>other d. FS_ReadFile load look other (mountAll mounts (NewFS bs h)) = Ok d
          \<and> resolveMount other (mountAll mounts (NewFS bs h)) \<noteq> Ok (b, rel) \<longrightarrow> FS_ReadFile load look other s = Ok d)"
proof -
  let ?s = "mountAll mounts (NewFS bs h)"
  have table: "tableOK ?s" "mf_backends ?s = bs"
    using mountAll_table [OF tableOK_new, of mounts bs h] by (simp_all add: NewFS_def)
  have b: "b < length bs" "mf_backends ?s ! b = VirtualBackend v"
    using resolve_valid(2) [OF table(1) resolved(1)] table(2) resolved(2) by simp_all
  have rel: "validPath rel"
    by (rule resolve_valid(1) [OF table(1) resolved(1)])
  obtain v' where v': "perform (DoWrite rel data) v = Ok v'" "s = ?s\<lparr>mf_backends := bs[b := VirtualBackend v']\<rparr>"
    using written resolved(1) b(2) table(2)
    by (auto simp: FS_WriteFile_def dispatch_def rbind_Ok_iff liftError_def split: res.splits)
  obtain ops where "list_all (\<lambda>op. \<not> intoItself op) ops" "v = performAll ops NewVirtualFS"
    using virtual resolved(2) nth_mem [OF b(1)] by auto
  then have "treeOK v"
    using tree.good_all [OF treeOK_new] by blast
  then have after: "contents v' = (contents v)(rel \<mapsto> Bytes data)"
    using perform_kept [of v "DoWrite rel data" v'] v'(1) normalize_valid(2) [OF rel] by (simp add: kept_def)
  have same: "resolveMount other s = resolveMount other ?s" for other
    by (simp add: v'(2) resolveMount_def)
  have "\<exists>info. Open load rel v' = Ok (OpenFile info data)"
    unfolding Open_file [OF rel] by (simp add: after)
  then have "FS_ReadFile load look name s = Ok data"
    unfolding FS_ReadFile_iff same using resolved(1) b(1) by (simp add: openBackend_def v'(2))
  moreover have "FS_ReadFile load look other s = Ok d"
    if other: "FS_ReadFile load look other ?s = Ok d" "resolveMount other ?s \<noteq> Ok (b, rel)" for other d
  proof -
    obtain b2 rel2 info where two: "resolveMount other ?s = Ok (b2, rel2)" "openBackend load look b2 rel2 ?s = Ok (OpenFile info d)"
      using other(1) unfolding FS_ReadFile_iff by blast
    have "\<exists>info. openBackend load look b2 rel2 s = Ok (OpenFile info d)"
    proof (cases "b2 = b")
      case True
      then have rel2: "rel2 \<noteq> rel" "validPath rel2"
        using other(2) two(1) resolve_valid(1) [OF table(1) two(1)] by auto
      have "\<exists>info. Open load rel2 v = Ok (OpenFile info d)"
        using two(2) True b(2) by (auto simp: openBackend_def)
      then have "\<exists>info. Open load rel2 v' = Ok (OpenFile info d)"
        unfolding Open_file [OF rel2(2)] by (simp add: after rel2(1))
      then show ?thesis
        using True b(1) by (simp add: openBackend_def v'(2))
    next
      case False
      then have "openBackend load look b2 rel2 s = openBackend load look b2 rel2 ?s"
        using table(2) by (simp add: openBackend_def v'(2) split: backend.splits)
      then show ?thesis
        using two(2) by auto
    qed
    then show ?thesis
      unfolding FS_ReadFile_iff same using two(1) by blast
  qed
  ultimately show ?thesis
    by blast
qed

subsection \<open>A run\<close>

definition demoMounts :: "mount_op list" where
  "demoMounts = [DoMount ''/'' 0, DoMount ''work/'' 1, DoMount ''/work/x'' 0, DoMount ''tmp'' 0, DoUnmount ''/tmp'']"

definition demoBackends :: "nat backend list" where
  "demoBackends = [OtherBackend 0, VirtualBackend (performAll demoOps NewVirtualFS)]"

definition demoTable :: "(nat, unit) mount_fs" where
  "demoTable = mountAll demoMounts (NewFS demoBackends ())"

theorem bestMatch_unique_witness:
  "bestMatch ''work/y'' (mf_mounts demoTable) = (Some 1, ''/work'')
    \<and> set (filter (\<lambda>p. covers p (CleanPath ''work/y'')) (map fst (mf_mounts demoTable))) \<subseteq> {''/work'', ''/''}"
proof -
  have match: "bestMatch ''work/y'' (mf_mounts demoTable) = (Some 1, ''/work'')"
    by code_simp
  show ?thesis
    using bestMatch_unique [where name = "''work/y''" and ops = demoMounts and bs = demoBackends and h = "()", folded demoTable_def] match by auto
qed

theorem write_then_read_witness:
  "\<exists>s. FS_WriteFile (\<lambda>_ h. (h, True)) ''/work/n/f'' ''v'' demoTable = Ok s
    \<and> FS_ReadFile (\<lambda>_. '''') (\<lambda>_ rel _. Err (PathError ''open'' rel ErrNotExist)) ''/work/n/f'' s = Ok ''v''"
proof -
  have "is_ok (FS_WriteFile (\<lambda>_ h. (h, True)) ''/work/n/f'' ''v'' demoTable)"
    by code_simp
  then obtain s where s: "FS_WriteFile (\<lambda>_ h. (h, True)) ''/work/n/f'' ''v'' demoTable = Ok s"
    using isOk_obtain by blast
  have "\<exists>ops. list_all (\<lambda>op. \<not> intoItself op) ops \<and> performAll demoOps NewVirtualFS = performAll ops NewVirtualFS"
    using demoOps_ok by blast
  then have virtual: "\<forall>v. VirtualBackend v \<in> set demoBackends
      \<longrightarrow> (\<exists>ops. list_all (\<lambda>op. \<not> intoItself op) ops \<and> v = performAll ops NewVirtualFS)"
    by (simp add: demoBackends_def)
  have resolved: "resolveMount ''/work/n/f'' demoTable = Ok (1, ''n/f'')"
    by code_simp
  have "demoBackends ! 1 = VirtualBackend (performAll demoOps NewVirtualFS)"
    by (simp add: demoBackends_def)
  from write_then_read [OF virtual resolved [unfolded demoTable_def] this s [unfolded demoTable_def]] s
  show ?thesis
    by blast
qed

text \<open>A directory of a virtual file system cannot be removed as a directory.\<close>

lemma Rmdir_virtual:
  "resolveMount name s = Ok (b, rel) \<Longrightarrow> mf_backends s ! b = VirtualBackend v \<Longrightarrow> FS_Rmdir host name s = Err (Plain ErrPermission)"
  by (simp add: FS_Rmdir_def performOSOperation_def)

end
