(* ===== verification/ShellEnv.thy ===== *)
theory ShellEnv
  imports GoPath Prelude "HOL-Library.AList"
begin

text \<open>
  The environment of the shell, \<open>jsh/engine/env.go\<close>: variables and their expansion, aliases, paths, the search for
  commands.  Names and texts hold no code point above U+00FF; upper and lower case of command names is ASCII.
  How a value that is no text is printed, the search on the host, and which files can be opened are parameters.
\<close>

subsection \<open>Variables and aliases\<close>

datatype 'v env_value = StrValue string | SecureValue string | OtherValue 'v

record 'v shell_env =
  ev_vars :: "(string \<times> 'v env_value) list"
  ev_aliases :: "(string \<times> string list) list"
  ev_caseSensitive :: bool

definition Env_Get :: "'v shell_env \<Rightarrow> string \<Rightarrow> 'v env_value option" where
  "Env_Get env key = map_of (ev_vars env) key"

definition SecureMask :: string where
  "SecureMask = ''********''"

definition isAlphaNumeric :: "char \<Rightarrow> bool" where
  "isAlphaNumeric c = (isLowerAscii c \<or> isUpperAscii c \<or> isDigit c)"

text \<open>What is written for a variable.\<close>

definition varText :: "('v \<Rightarrow> string) \<Rightarrow> 'v shell_env \<Rightarrow> string \<Rightarrow> string" where
  "varText fmt env name =
     (if name = '''' then ''''
      else case Env_Get env name of
        Some (StrValue s) \<Rightarrow> s
      | Some (SecureValue s) \<Rightarrow> SecureMask
      | Some (OtherValue v) \<Rightarrow> fmt v
      | None \<Rightarrow> '''')"

text \<open>\<open>Expand\<close> from a place of the text on, inside single or double quotes or not.\<close>

function expandText :: "(string \<Rightarrow> string) \<Rightarrow> bool \<Rightarrow> bool \<Rightarrow> string \<Rightarrow> string" where
  "expandText var sq dq [] = []"
| "expandText var sq dq (c # cs) =
     (if c = CHR 0x27 \<and> \<not> dq then c # expandText var (\<not> sq) dq cs
      else if c = CHR 0x22 \<and> \<not> sq then c # expandText var sq (\<not> dq) cs
      else if sq then c # expandText var sq dq cs
      else if c = CHR ''$'' \<and> cs \<noteq> [] then
        (if hd cs = CHR ''{'' then
           (case indexOf (tl cs) (CHR ''}'') of
              None \<Rightarrow> ''${'' @ expandText var sq dq (tl cs)
            | Some e \<Rightarrow> var (take e (tl cs)) @ expandText var sq dq (drop (e + 1) (tl cs)))
         else
           (let name = takeWhile (\<lambda>x. isAlphaNumeric x \<or> x = CHR ''_'') cs
            in var name @ expandText var sq dq (drop (length name) cs)))
      else c # expandText var sq dq cs)"
  by pat_completeness auto
termination
  by (relation "measure (\<lambda>(var, sq, dq, s). length s)") (auto simp: less_Suc_eq_le le_diff_conv)

definition Env_Expand :: "('v \<Rightarrow> string) \<Rightarrow> 'v shell_env \<Rightarrow> string \<Rightarrow> string" where
  "Env_Expand fmt env s = expandText (varText fmt env) False False s"

definition Env_SetRaw :: "string \<Rightarrow> 'v env_value option \<Rightarrow> 'v shell_env \<Rightarrow> 'v shell_env" where
  "Env_SetRaw key v env =
     (case v of
        None \<Rightarrow> env\<lparr>ev_vars := AList.delete key (ev_vars env)\<rparr>
      | Some x \<Rightarrow> env\<lparr>ev_vars := AList.update key x (ev_vars env)\<rparr>)"

definition Env_Set :: "('v \<Rightarrow> string) \<Rightarrow> string \<Rightarrow> 'v env_value option \<Rightarrow> 'v shell_env \<Rightarrow> 'v shell_env" where
  "Env_Set fmt key v env =
     Env_SetRaw key (case v of Some (StrValue s) \<Rightarrow> Some (StrValue (Env_Expand fmt env s)) | _ \<Rightarrow> v) env"

definition aliasKey :: "'v shell_env \<Rightarrow> string \<Rightarrow> string" where
  "aliasKey env command = (if ev_caseSensitive env then command else map toLowerAscii command)"

definition SetAlias :: "string \<Rightarrow> string list \<Rightarrow> 'v shell_env \<Rightarrow> 'v shell_env" where
  "SetAlias command alias env = env\<lparr>ev_aliases := AList.update (aliasKey env command) alias (ev_aliases env)\<rparr>"

definition LookupAlias :: "'v shell_env \<Rightarrow> string \<Rightarrow> string list option" where
  "LookupAlias env command = map_of (ev_aliases env) (aliasKey env command)"

definition Alias :: "'v shell_env \<Rightarrow> string \<Rightarrow> string list" where
  "Alias env command = (case LookupAlias env command of Some alias \<Rightarrow> alias | None \<Rightarrow> [command])"

definition WithAliases :: "(string \<times> string) list \<Rightarrow> 'v shell_env \<Rightarrow> 'v shell_env" where
  "WithAliases aliases env = fold (\<lambda>(k, v). SetAlias k (splitOn v (CHR '' ''))) aliases env"

subsection \<open>Paths\<close>

text \<open>\<open>filepath.Join\<close> of two elements.\<close>

definition pathJoin :: "string \<Rightarrow> string \<Rightarrow> string" where
  "pathJoin a b = (if a \<noteq> '''' then pathClean (a @ ''/'' @ b) else if b \<noteq> '''' then pathClean b else '''')"

text \<open>\<open>os.Expand\<close>: the name after a dollar and how many characters it takes; \<open>${}\<close> and an open brace are eaten.\<close>

definition isShellSpecialVar :: "char \<Rightarrow> bool" where
  "isShellSpecialVar c = (c \<in> set ''*#$@!?-'' \<or> isDigit c)"

definition getShellName :: "string \<Rightarrow> string \<times> nat" where
  "getShellName s =
     (if hd s = CHR ''{''
      then (if length s > 2 \<and> isShellSpecialVar (s ! 1) \<and> s ! 2 = CHR ''}'' then ([s ! 1], 3)
            else case indexOf (tl s) (CHR ''}'') of
              None \<Rightarrow> ('''', 1)
            | Some e \<Rightarrow> if e = 0 then ('''', 2) else (take e (tl s), e + 2))
      else if isShellSpecialVar (hd s) then ([hd s], 1)
      else let name = takeWhile (\<lambda>x. isAlphaNumeric x \<or> x = CHR ''_'') s in (name, length name))"

function osExpand :: "(string \<Rightarrow> string) \<Rightarrow> string \<Rightarrow> string" where
  "osExpand var [] = []"
| "osExpand var (c # cs) =
     (if c = CHR ''$'' \<and> cs \<noteq> []
      then (case getShellName cs of (name, w) \<Rightarrow>
              (if name \<noteq> '''' then var name else if w > 0 then '''' else [c]) @ osExpand var (drop w cs))
      else c # osExpand var cs)"
  by pat_completeness auto
termination
  by (relation "measure (\<lambda>(var, s). length s)") auto

definition strVar :: "'v shell_env \<Rightarrow> string \<Rightarrow> string" where
  "strVar env name = (case Env_Get env name of Some (StrValue s) \<Rightarrow> s | _ \<Rightarrow> '''')"

definition ResolvePath :: "'v shell_env \<Rightarrow> string \<Rightarrow> string" where
  "ResolvePath env p =
     (let q = (if hasPrefix p ''~'' then (case Env_Get env ''HOME'' of Some (StrValue home) \<Rightarrow> pathJoin home (tl p) | _ \<Rightarrow> p) else p)
      in pathClean (osExpand (strVar env) q))"

definition ResolveAbsPath :: "'v shell_env \<Rightarrow> string \<Rightarrow> string" where
  "ResolveAbsPath env p =
     (let q = ResolvePath env p
      in if hasPrefix q ''/'' then q
         else case Env_Get env ''PWD'' of Some (StrValue cwd) \<Rightarrow> pathJoin cwd q | _ \<Rightarrow> q)"

definition GlobalFolders :: "'v shell_env \<Rightarrow> string list" where
  "GlobalFolders env =
     (case Env_Get env ''LIBRARY_PATH'' of
        Some (StrValue s) \<Rightarrow> if s = '''' then [] else splitOn s (CHR '':'')
      | _ \<Rightarrow> [])"

subsection \<open>Finding a command\<close>

definition hasSuffix :: "string \<Rightarrow> string \<Rightarrow> bool" where
  "hasSuffix s p = hasPrefix (rev s) (rev p)"

definition Which :: "('v \<Rightarrow> string) \<Rightarrow> (string \<Rightarrow> string option) \<Rightarrow> (string \<Rightarrow> bool) \<Rightarrow> 'v shell_env \<Rightarrow> string \<Rightarrow> string" where
  "Which fmt lookPath opens env command0 =
     (if hasPrefix command0 ''@''
      then (case lookPath (tl command0) of Some p \<Rightarrow> ''@'' @ p | None \<Rightarrow> '''')
      else
        let command = Env_Expand fmt env (if hasSuffix command0 ''.js'' then command0 else command0 @ ''.js'');
            check = (\<lambda>p. if opens p then p else '''')
        in if hasPrefix command ''/'' \<or> hasPrefix command ''~/'' then check (ResolvePath env command)
           else if hasPrefix command ''./'' \<or> hasPrefix command ''../''
           then (case Env_Get env ''PWD'' of
                   Some (StrValue cwd) \<Rightarrow> check (ResolvePath env (cwd @ ''/'' @ command))
                 | _ \<Rightarrow> check (ResolvePath env command))
           else (case Env_Get env ''PATH'' of
                   Some (StrValue path) \<Rightarrow>
                     (case find opens (map (\<lambda>dir. ResolvePath env (pathJoin dir command)) (splitOn path (CHR '':''))) of
                        Some p \<Rightarrow> p | None \<Rightarrow> '''')
                 | _ \<Rightarrow> ''''))"

end
