(* ===== verification/ShellExpand.thy ===== *)
theory ShellExpand
  imports ShellParser ShellEnv Glob IntText
begin

text \<open>
  The expansion of a parsed pipeline, \<open>jsh/lib/shell/expand.go\<close>: variables, wildcards and aliases.
  A clone is the value itself.  Directory names and patterns with wildcards are ASCII, so that a
  character is a byte.
\<close>

text \<open>
  What a command line is run against: the environment, how a value that is no text is printed, and what is
  asked of the file system and the host.  The reader of directories gives the names in their order, \<open>None\<close>
  where the directory cannot be read; \<open>None\<close> in the place of the reader is a file system without \<open>ReadDir\<close>.
  \<open>cx_opens\<close> says which files can be opened, \<open>cx_isDir\<close> what \<open>Open\<close> and \<open>Stat\<close> say of a path, \<open>None\<close> an error of
  either, and \<open>cx_lookPath\<close> is the search for a command on the host.
\<close>

record 'v shell_ctx =
  cx_env :: "'v shell_env"
  cx_format :: "'v \<Rightarrow> string"
  cx_readDir :: "(string \<Rightarrow> string list option) option"
  cx_lookPath :: "string \<Rightarrow> string option"
  cx_opens :: "string \<Rightarrow> bool"
  cx_isDir :: "string \<Rightarrow> bool option"

datatype expand_err =
    EnvMissing | ParseFailed string | CommandWords nat | AmbiguousRedirect string | NoGlobbing

record expanded_part =
  pt_Text :: string
  pt_GlobProtected :: bool

subsection \<open>Wildcards\<close>

definition hasWildcard :: "string \<Rightarrow> bool" where
  "hasWildcard s = list_ex (\<lambda>c. c = CHR ''*'' \<or> c = CHR ''?'') s"

text \<open>The text before and after the last slash.\<close>

definition splitGlobPattern :: "string \<Rightarrow> string \<times> string" where
  "splitGlobPattern pattern =
     (let base = rev (takeWhile (\<lambda>c. c \<noteq> slash) (rev pattern)) in
      if length base = length pattern then ('''', pattern)
      else let dirPart = take (length pattern - length base - 1) pattern
           in (if dirPart = '''' then ''/'' else dirPart, base))"

definition joinGlobPath :: "string \<Rightarrow> string \<Rightarrow> string" where
  "joinGlobPath dir name =
     (if dir = '''' \<or> dir = ''.'' then name
      else if dir = ''/'' then ''/'' @ name
      else dir @ ''/'' @ name)"

text \<open>\<open>path.Match\<close> on a name without a slash accepts what the matcher of \<open>Glob\<close> accepts.\<close>

definition pathMatches :: "string \<Rightarrow> string \<Rightarrow> bool" where
  "pathMatches pattern name = (case wildcardMatch pattern name of Ok b \<Rightarrow> b | _ \<Rightarrow> False)"

definition globMatch :: "string \<Rightarrow> string \<Rightarrow> bool" where
  "globMatch basePart name =
     (\<not> (\<not> hasPrefix basePart ''.'' \<and> hasPrefix name ''.'') \<and> pathMatches basePart name)"

definition expandGlob :: "'v shell_ctx \<Rightarrow> string \<Rightarrow> (expand_err, string list) res" where
  "expandGlob cx pattern =
     (if \<not> hasWildcard pattern then Ok [pattern]
      else (case splitGlobPattern pattern of (dirPart, basePart) \<Rightarrow>
        if dirPart \<noteq> '''' \<and> hasWildcard dirPart then Ok [pattern]
        else (case cx_readDir cx of
                None \<Rightarrow> Err NoGlobbing
              | Some readDir \<Rightarrow>
                  (case readDir (ResolveAbsPath (cx_env cx) (if dirPart = '''' then ''.'' else dirPart)) of
                     None \<Rightarrow> Ok [pattern]
                   | Some entries \<Rightarrow>
                       let matches = map (joinGlobPath dirPart) (filter (globMatch basePart) entries)
                       in Ok (if matches = [] then [pattern] else matches)))))"

subsection \<open>Words\<close>

definition expandFragment :: "'v shell_ctx \<Rightarrow> word_fragment \<Rightarrow> expanded_part" where
  "expandFragment cx f =
     \<lparr>pt_Text = (if fr_QuoteKind f = QuoteSingle then fr_Text f else Env_Expand (cx_format cx) (cx_env cx) (fr_Text f)),
      pt_GlobProtected = (fr_QuoteKind f \<noteq> QuoteNone)\<rparr>"

definition joinExpandedParts :: "expanded_part list \<Rightarrow> string" where
  "joinExpandedParts parts = concat (map pt_Text parts)"

definition hasUnprotectedWildcard :: "expanded_part list \<Rightarrow> bool" where
  "hasUnprotectedWildcard parts = list_ex (\<lambda>p. \<not> pt_GlobProtected p \<and> hasWildcard (pt_Text p)) parts"

definition expandWord :: "'v shell_ctx \<Rightarrow> shell_word \<Rightarrow> (expand_err, string list) res" where
  "expandWord cx w =
     (let parts = map (expandFragment cx) (wd_Fragments w)
      in if \<not> hasUnprotectedWildcard parts then Ok [joinExpandedParts parts]
         else expandGlob cx (joinExpandedParts parts))"

definition expandAssignmentValue :: "'v shell_ctx \<Rightarrow> shell_word \<Rightarrow> string" where
  "expandAssignmentValue cx w = concat (map (\<lambda>f. pt_Text (expandFragment cx f)) (wd_Fragments w))"

fun expandWords :: "'v shell_ctx \<Rightarrow> shell_word list \<Rightarrow> (expand_err, string list) res" where
  "expandWords cx [] = Ok []"
| "expandWords cx (w # ws) =
     rbind (expandWord cx w) (\<lambda>e. rbind (expandWords cx ws) (\<lambda>es. Ok (e @ es)))"

definition expandCommandWord :: "'v shell_ctx \<Rightarrow> shell_word option \<Rightarrow> (expand_err, string) res" where
  "expandCommandWord cx word =
     (case word of
        None \<Rightarrow> Ok ''''
      | Some w \<Rightarrow> rbind (expandWord cx w) (\<lambda>e. if length e \<noteq> 1 then Err (CommandWords (length e)) else Ok (hd e)))"

definition expandRedirectTarget :: "'v shell_ctx \<Rightarrow> shell_redirect \<Rightarrow> (expand_err, string) res" where
  "expandRedirectTarget cx r =
     (case rd_TargetWord r of
        None \<Rightarrow> Ok (rd_Target r)
      | Some w \<Rightarrow>
          rbind (expandWord cx w) (\<lambda>e. if length e \<noteq> 1 then Err (AmbiguousRedirect (Word_String w)) else Ok (hd e)))"

subsection \<open>Aliases\<close>

definition hasAliasExpansion :: "string \<Rightarrow> string list \<Rightarrow> bool" where
  "hasAliasExpansion command alias = (alias \<noteq> [] \<and> (length alias \<noteq> 1 \<or> hd alias \<noteq> command))"

definition expandCommandAlias :: "'v shell_env \<Rightarrow> string \<Rightarrow> string list \<Rightarrow> string \<times> string list" where
  "expandCommandAlias env command args =
     (if command = '''' \<or> \<not> hasAliasExpansion command (Alias env command) then (command, args)
      else (hd (Alias env command), tl (Alias env command) @ args))"

subsection \<open>Pipelines\<close>

definition expandRedirect :: "'v shell_ctx \<Rightarrow> shell_redirect option \<Rightarrow> (expand_err, shell_redirect option) res" where
  "expandRedirect cx r =
     (case r of
        None \<Rightarrow> Ok None
      | Some d \<Rightarrow> rmap (\<lambda>t. Some (d\<lparr>rd_Target := t\<rparr>)) (expandRedirectTarget cx d))"

definition expandPipeline :: "'v shell_ctx option \<Rightarrow> shell_pipeline \<Rightarrow> (expand_err, shell_pipeline) res" where
  "expandPipeline ctx pipe =
     (case ctx of
        None \<Rightarrow> Err EnvMissing
      | Some cx \<Rightarrow>
          if pl_ParseError pipe \<noteq> '''' then Err (ParseFailed (pl_ParseError pipe))
          else rbind (expandCommandWord cx (pl_CommandWord pipe)) (\<lambda>command0.
            rbind (expandWords cx (pl_ArgWords pipe)) (\<lambda>args0.
              case expandCommandAlias (cx_env cx) command0 args0 of (command, args) \<Rightarrow>
                rbind (expandRedirect cx (pl_Stdin pipe)) (\<lambda>i.
                  rbind (expandRedirect cx (pl_Stdout pipe)) (\<lambda>out.
                    rbind (if map_option rd_Type (pl_Stderr pipe) = Some ''2>&1'' then Ok (pl_Stderr pipe)
                           else expandRedirect cx (pl_Stderr pipe)) (\<lambda>e.
                      Ok \<lparr>pl_Assignments =
                            map (\<lambda>a. a\<lparr>as_Value := expandAssignmentValue cx (as_ValueWord a)\<rparr>) (pl_Assignments pipe),
                          pl_ParseError = '''',
                          pl_CommandWord = pl_CommandWord pipe, pl_ArgWords = pl_ArgWords pipe,
                          pl_Command = command, pl_Args = args,
                          pl_Stdin = i, pl_Stdout = out, pl_Stderr = e\<rparr>))))))"

end
