(* ===== verification/ShellInternal.thy ===== *)
theory ShellInternal
  imports ShellExpand "HOL-Library.List_Lexorder" "HOL-Library.Char_ord"
begin

text \<open>
  The commands the shell runs itself, \<open>jsh/lib/shell/internal/internal.go\<close>.  Each gives the exit code, the
  environment it leaves and what it writes.
\<close>

type_synonym 'v ran = "int \<times> 'v shell_env \<times> string"

definition IsCommand :: "string \<Rightarrow> bool" where
  "IsCommand cmd = (cmd \<in> set [''alias'', ''cd'', ''setenv'', ''unsetenv'', ''which''])"

definition say :: "string \<Rightarrow> string" where
  "say line = line @ [NL]"

subsection \<open>Aliases\<close>

fun replaceQuotes :: "string \<Rightarrow> string" where
  "replaceQuotes [] = []"
| "replaceQuotes (c # s) = (if c = CHR 0x27 then [CHR 0x27, BACKSLASH, CHR 0x27, CHR 0x27] else [c]) @ replaceQuotes s"

definition quoteAliasToken :: "string \<Rightarrow> string" where
  "quoteAliasToken token =
     (if token = '''' then [CHR 0x27, CHR 0x27]
      else if \<not> list_ex (\<lambda>c. c \<in> set [CHR '' '', TAB, CR, NL, CHR 0x27, CHR 0x22, BACKSLASH]) token then token
      else [CHR 0x27] @ replaceQuotes token @ [CHR 0x27])"

definition formatAlias :: "string \<Rightarrow> string list \<Rightarrow> string" where
  "formatAlias name alias = joinWith '' '' (''alias'' # map quoteAliasToken (name # alias))"

definition printAliases :: "'v shell_env \<Rightarrow> string" where
  "printAliases env =
     concat (map (\<lambda>name. say (formatAlias name (the (map_of (ev_aliases env) name))))
       (sort (map fst (ev_aliases env))))"

definition runAlias :: "'v shell_ctx \<Rightarrow> string list \<Rightarrow> 'v ran" where
  "runAlias cx args =
     (let env = cx_env cx in
      case args of
        [] \<Rightarrow> (0, env, printAliases env)
      | [name] \<Rightarrow>
          (case LookupAlias env name of
             None \<Rightarrow> (1, env, say (''alias: not found: '' @ name))
           | Some alias \<Rightarrow> (0, env, say (formatAlias name alias)))
      | name # alias \<Rightarrow>
          if trimSpace name = '''' then (1, env, say ''alias: invalid name'')
          else (0, SetAlias name alias env, ''''))"

subsection \<open>The working directory\<close>

definition displayPathArg :: "string list \<Rightarrow> string" where
  "displayPathArg args = (if args = [] \<or> hd args = '''' then ''~'' else hd args)"

definition cdPath :: "'v shell_env \<Rightarrow> string list \<Rightarrow> string" where
  "cdPath env args =
     (let target = (if args = [] then '''' else hd args);
          path = ResolvePath env (if target = '''' then ''$HOME'' else target)
      in if hasPrefix path ''/'' then path
         else case Env_Get env ''PWD'' of
           Some (StrValue pwd) \<Rightarrow> if pwd \<noteq> '''' then pwd @ ''/'' @ path else path
         | _ \<Rightarrow> path)"

definition runCD :: "'v shell_ctx \<Rightarrow> string list \<Rightarrow> 'v ran" where
  "runCD cx args =
     (let env = cx_env cx; path = cdPath env args in
      case cx_isDir cx path of
        None \<Rightarrow> (1, env, say (''cd: no such file or directory: '' @ displayPathArg args))
      | Some False \<Rightarrow> (1, env, say (''cd: not a directory: '' @ displayPathArg args))
      | Some True \<Rightarrow> (0, Env_Set (cx_format cx) ''PWD'' (Some (StrValue (pathClean path))) env, ''''))"

subsection \<open>Variables\<close>

text \<open>\<open>envNamePattern\<close> accepts the names the parser takes in an assignment.\<close>

definition setenvUsage :: string where
  "setenvUsage = say ''usage: setenv NAME VALUE'' @ say ''   or: setenv NAME=VALUE''"

definition setenvArgs :: "string list \<Rightarrow> (string \<times> string) option" where
  "setenvArgs args =
     (case args of
        [a] \<Rightarrow> (case indexOf a (CHR ''='') of
                  None \<Rightarrow> None
                | Some i \<Rightarrow> if i = 0 then None else Some (take i a, drop (i + 1) a))
      | [name, v] \<Rightarrow> Some (name, v)
      | _ \<Rightarrow> None)"

definition runSetenv :: "'v shell_ctx \<Rightarrow> string list \<Rightarrow> 'v ran" where
  "runSetenv cx args =
     (case setenvArgs args of
        None \<Rightarrow> (1, cx_env cx, setenvUsage)
      | Some (name, v) \<Rightarrow>
          if \<not> validAssignmentName name then (1, cx_env cx, say (''setenv: invalid variable name: '' @ name))
          else (0, Env_Set (cx_format cx) name (Some (StrValue v)) (cx_env cx), ''''))"

definition runUnsetenv :: "'v shell_ctx \<Rightarrow> string list \<Rightarrow> 'v ran" where
  "runUnsetenv cx args =
     (if length args \<noteq> 1 then (1, cx_env cx, say ''usage: unsetenv NAME'')
      else if \<not> validAssignmentName (hd args)
      then (1, cx_env cx, say (''unsetenv: invalid variable name: '' @ hd args))
      else (0, Env_Set (cx_format cx) (hd args) None (cx_env cx), ''''))"

subsection \<open>Finding commands, and the dispatch\<close>

definition ctxWhich :: "'v shell_ctx \<Rightarrow> string \<Rightarrow> string" where
  "ctxWhich cx command = Which (cx_format cx) (cx_lookPath cx) (cx_opens cx) (cx_env cx) command"

definition runWhich :: "'v shell_ctx \<Rightarrow> string list \<Rightarrow> 'v ran" where
  "runWhich cx args =
     (if args = [] then (1, cx_env cx, say ''which: missing operand'')
      else let found = ctxWhich cx (hd args)
           in if found = '''' then (1, cx_env cx, say (''which: command not found: '' @ hd args))
              else (0, cx_env cx, say found))"

definition runInternal :: "'v shell_ctx \<Rightarrow> string \<Rightarrow> string list \<Rightarrow> 'v ran option" where
  "runInternal cx cmd args =
     (if cmd = ''alias'' then Some (runAlias cx args)
      else if cmd = ''cd'' then Some (runCD cx args)
      else if cmd = ''setenv'' then Some (runSetenv cx args)
      else if cmd = ''unsetenv'' then Some (runUnsetenv cx args)
      else if cmd = ''which'' then Some (runWhich cx args)
      else None)"

end
