(* ===== verification/ShellRun.thy ===== *)
theory ShellRun
  imports ShellInternal
begin

text \<open>
  Running a command line: \<open>process\<close> of \<open>jsh/lib/shell/shell.go\<close> and the statements and pipelines of
  \<open>jsh/lib/shell/pipeline.go\<close>, with the editor's small pure helpers.  The world, the files and processes outside
  the shell, is a parameter of type \<open>'w\<close>; what is written to the log is left out, what the shell itself writes to
  its output is kept.
\<close>

subsection \<open>The world\<close>

text \<open>
  A stage of a pipeline as it is started: the path (of the host, for a command after \<open>@\<close>), the
  arguments, the variables (none for a command of the host, which inherits the process's), and where its input and
  outputs go.  A file sink has the type of its redirection, \<open>>\<close> or \<open>>>\<close>.
\<close>

datatype source = ShellInput | PrevStage | FileSource string
datatype sink = SharedOutput | NextStage | FileSink string string

record 'v stage =
  sg_path :: string
  sg_host :: bool
  sg_args :: "string list"
  sg_vars :: "(string \<times> 'v env_value) list"
  sg_stdin :: source
  sg_stdout :: sink
  sg_stderr :: sink

text \<open>How starting all stages and waiting for them ends, for the last of them.\<close>

datatype run_end = StartFailed | WaitFailed | Exited int

text \<open>
  \<open>os_builds\<close>: the exec builder makes a command of these words and variables.  \<open>os_pipes\<close>: that many host
  pipes can be made.  \<open>os_open\<close>: open a redirection of this type at this path (\<open>OpenFD\<close> and the host's reader or writer of it),
  and whether it succeeded; it fails where the file system of the shell is no mount table.
\<close>

record ('v, 'w) shell_os =
  os_format :: "'v \<Rightarrow> string"
  os_readDir :: "('w \<Rightarrow> string \<Rightarrow> string list option) option"
  os_lookPath :: "'w \<Rightarrow> string \<Rightarrow> string option"
  os_opens :: "'w \<Rightarrow> string \<Rightarrow> bool"
  os_isDir :: "'w \<Rightarrow> string \<Rightarrow> bool option"
  os_builds :: "string list \<Rightarrow> (string \<times> 'v env_value) list \<Rightarrow> bool"
  os_pipes :: "nat \<Rightarrow> 'w \<Rightarrow> bool"
  os_open :: "string \<Rightarrow> string \<Rightarrow> 'w \<Rightarrow> bool \<times> 'w"
  os_run :: "'v stage list \<Rightarrow> 'w \<Rightarrow> run_end \<times> 'w"

record ('v, 'w) shell_state =
  xs_env :: "'v shell_env"
  xs_world :: 'w
  xs_out :: string

definition ctxOf :: "('v, 'w) shell_os \<Rightarrow> ('v, 'w) shell_state \<Rightarrow> 'v shell_ctx" where
  "ctxOf os st =
     \<lparr>cx_env = xs_env st, cx_format = os_format os,
      cx_readDir = map_option (\<lambda>f. f (xs_world st)) (os_readDir os),
      cx_lookPath = os_lookPath os (xs_world st), cx_opens = os_opens os (xs_world st),
      cx_isDir = os_isDir os (xs_world st)\<rparr>"

definition emit :: "string \<Rightarrow> ('v, 'w) shell_state \<Rightarrow> ('v, 'w) shell_state" where
  "emit s st = st\<lparr>xs_out := xs_out st @ s\<rparr>"

definition errText :: "expand_err \<Rightarrow> string" where
  "errText e =
     (case e of
        EnvMissing \<Rightarrow> ''shell environment is not initialized''
      | ParseFailed s \<Rightarrow> s
      | CommandWords n \<Rightarrow> ''command expansion produced '' @ FormatInt (int n) 10 @ '' words''
      | AmbiguousRedirect s \<Rightarrow> ''ambiguous redirect target: '' @ s
      | NoGlobbing \<Rightarrow> ''shell filesystem does not support glob expansion'')"

definition printShellError :: "string \<Rightarrow> ('v, 'w) shell_state \<Rightarrow> ('v, 'w) shell_state" where
  "printShellError message st = emit (say message) st"

subsection \<open>External commands\<close>

definition overlayEnv :: "'v shell_env \<Rightarrow> shell_assignment list \<Rightarrow> (string \<times> 'v env_value) list" where
  "overlayEnv env asg = fold (\<lambda>a. AList.update (as_Name a) (StrValue (as_Value a))) asg (ev_vars env)"

definition resolveExternalCommand :: "'v shell_ctx \<Rightarrow> string \<Rightarrow> string option" where
  "resolveExternalCommand cx command =
     (let p = ctxWhich cx command;
          q = (if p = '''' \<and> \<not> hasSuffix command ''.js'' then ctxWhich cx (command @ ''/index.js'') else p)
      in if q = '''' then None else Some q)"

definition buildExternalExecCmd :: "('v, 'w) shell_os \<Rightarrow> 'v shell_ctx \<Rightarrow> shell_pipeline \<Rightarrow> 'v stage option" where
  "buildExternalExecCmd os cx pipe =
     (case resolveExternalCommand cx (pl_Command pipe) of
        None \<Rightarrow> None
      | Some path \<Rightarrow>
          if hasPrefix path ''@''
          then Some \<lparr>sg_path = tl path, sg_host = True, sg_args = pl_Args pipe, sg_vars = [],
                     sg_stdin = ShellInput, sg_stdout = SharedOutput, sg_stderr = SharedOutput\<rparr>
          else let vars = overlayEnv (cx_env cx) (pl_Assignments pipe)
               in if \<not> os_builds os (path # pl_Args pipe) vars then None
                  else Some \<lparr>sg_path = path, sg_host = False, sg_args = pl_Args pipe, sg_vars = vars,
                             sg_stdin = ShellInput, sg_stdout = SharedOutput, sg_stderr = SharedOutput\<rparr>)"

text \<open>Redirections: the source or sink, \<open>None\<close> an error, and the world after it.\<close>

definition openInputRedirect ::
  "('v, 'w) shell_os \<Rightarrow> 'v shell_env \<Rightarrow> shell_redirect \<Rightarrow> 'w \<Rightarrow> source option \<times> 'w" where
  "openInputRedirect os env r w =
     (if rd_Type r \<noteq> ''<'' then (None, w)
      else let path = ResolveAbsPath env (rd_Target r) in
        (case os_open os ''<'' path w of (ok, w') \<Rightarrow> (if ok then Some (FileSource path) else None, w')))"

definition openOutputRedirect ::
  "('v, 'w) shell_os \<Rightarrow> 'v shell_env \<Rightarrow> string \<Rightarrow> string \<Rightarrow> 'w \<Rightarrow> sink option \<times> 'w" where
  "openOutputRedirect os env type target w =
     (if type \<noteq> ''>'' \<and> type \<noteq> ''>>'' then (None, w)
      else let path = ResolveAbsPath env target in
        (case os_open os type path w of (ok, w') \<Rightarrow> (if ok then Some (FileSink type path) else None, w')))"

definition openErrorRedirect ::
  "('v, 'w) shell_os \<Rightarrow> 'v shell_env \<Rightarrow> shell_redirect \<Rightarrow> sink \<Rightarrow> 'w \<Rightarrow> sink option \<times> 'w" where
  "openErrorRedirect os env r stdout w =
     (if rd_Type r = ''2>'' then openOutputRedirect os env ''>'' (rd_Target r) w
      else if rd_Type r = ''2>>'' then openOutputRedirect os env ''>>'' (rd_Target r) w
      else if rd_Type r = ''2>&1'' then (Some stdout, w)
      else (None, w))"

text \<open>The three steps of a stage, each skipped without its redirection; an error stops at once.\<close>

definition redirectStdin ::
  "('v, 'w) shell_os \<Rightarrow> 'v shell_env \<Rightarrow> shell_pipeline \<Rightarrow> 'v stage \<Rightarrow> 'w \<Rightarrow> 'v stage option \<times> 'w" where
  "redirectStdin os env pipe g w =
     (case pl_Stdin pipe of
        None \<Rightarrow> (Some g, w)
      | Some r \<Rightarrow> (case openInputRedirect os env r w of (s, w') \<Rightarrow> (map_option (\<lambda>s. g\<lparr>sg_stdin := s\<rparr>) s, w')))"

definition redirectStdout ::
  "('v, 'w) shell_os \<Rightarrow> 'v shell_env \<Rightarrow> shell_pipeline \<Rightarrow> 'v stage \<Rightarrow> 'w \<Rightarrow> 'v stage option \<times> 'w" where
  "redirectStdout os env pipe g w =
     (case pl_Stdout pipe of
        None \<Rightarrow> (Some g, w)
      | Some r \<Rightarrow>
          (case openOutputRedirect os env (rd_Type r) (rd_Target r) w of
             (s, w') \<Rightarrow> (map_option (\<lambda>s. g\<lparr>sg_stdout := s\<rparr>) s, w')))"

definition redirectStderr ::
  "('v, 'w) shell_os \<Rightarrow> 'v shell_env \<Rightarrow> shell_pipeline \<Rightarrow> 'v stage \<Rightarrow> 'w \<Rightarrow> 'v stage option \<times> 'w" where
  "redirectStderr os env pipe g w =
     (case pl_Stderr pipe of
        None \<Rightarrow> (Some g, w)
      | Some r \<Rightarrow>
          (case openErrorRedirect os env r (sg_stdout g) w of
             (s, w') \<Rightarrow> (map_option (\<lambda>s. g\<lparr>sg_stderr := s\<rparr>) s, w')))"

definition andThen :: "'a option \<times> 'w \<Rightarrow> ('a \<Rightarrow> 'w \<Rightarrow> 'b option \<times> 'w) \<Rightarrow> 'b option \<times> 'w" where
  "andThen r f = (case r of (None, w) \<Rightarrow> (None, w) | (Some x, w) \<Rightarrow> f x w)"

definition runExternalPipelineStage ::
  "('v, 'w) shell_os \<Rightarrow> shell_pipeline \<Rightarrow> ('v, 'w) shell_state \<Rightarrow> int \<times> ('v, 'w) shell_state" where
  "runExternalPipelineStage os pipe st =
     (let env = xs_env st in
      case buildExternalExecCmd os (ctxOf os st) pipe of
        None \<Rightarrow> (1, st)
      | Some g \<Rightarrow>
          (case andThen (andThen (redirectStdin os env pipe g (xs_world st)) (redirectStdout os env pipe))
                  (redirectStderr os env pipe) of
             (None, w) \<Rightarrow> (1, st\<lparr>xs_world := w\<rparr>)
           | (Some g', w) \<Rightarrow>
               (case os_run os [g'] w of
                  (e, w') \<Rightarrow> (case e of Exited n \<Rightarrow> n | _ \<Rightarrow> 1, st\<lparr>xs_world := w'\<rparr>))))"

subsection \<open>Pipelines of several stages\<close>

definition stageAllowed :: "nat \<Rightarrow> nat \<Rightarrow> shell_pipeline \<Rightarrow> bool" where
  "stageAllowed n i pipe =
     (pl_Command pipe \<noteq> ''exit'' \<and> pl_Command pipe \<noteq> ''quit'' \<and> \<not> IsCommand (pl_Command pipe)
      \<and> (pl_Stdin pipe \<noteq> None \<longrightarrow> i = 0)
      \<and> (pl_Stdout pipe \<noteq> None \<longrightarrow> i = n - 1)
      \<and> (case pl_Stderr pipe of None \<Rightarrow> True | Some r \<Rightarrow> rd_Type r \<in> set [''2>'', ''2>>'', ''2>&1'']))"

fun buildAll :: "('v, 'w) shell_os \<Rightarrow> 'v shell_ctx \<Rightarrow> shell_pipeline list \<Rightarrow> 'v stage list option" where
  "buildAll os cx [] = Some []"
| "buildAll os cx (p # ps) =
     (case buildExternalExecCmd os cx p of
        None \<Rightarrow> None
      | Some g \<Rightarrow> map_option ((#) g) (buildAll os cx ps))"

text \<open>Stage \<open>i\<close> of \<open>n\<close> reads what the one before it writes.\<close>

definition plug :: "nat \<Rightarrow> nat \<Rightarrow> 'v stage \<Rightarrow> 'v stage" where
  "plug n i g =
     g\<lparr>sg_stdin := (if i = 0 then ShellInput else PrevStage),
       sg_stdout := (if i = n - 1 then SharedOutput else NextStage)\<rparr>"

fun redirectErrors ::
  "('v, 'w) shell_os \<Rightarrow> 'v shell_env \<Rightarrow> (shell_pipeline \<times> 'v stage) list \<Rightarrow> 'w \<Rightarrow> 'v stage list option \<times> 'w" where
  "redirectErrors os env [] w = (Some [], w)"
| "redirectErrors os env ((p, g) # r) w =
     andThen (redirectStderr os env p g w) (\<lambda>g' w'.
       andThen (redirectErrors os env r w') (\<lambda>gs w''. (Some (g' # gs), w'')))"

definition runStreamingPipeline ::
  "('v, 'w) shell_os \<Rightarrow> shell_pipeline list \<Rightarrow> ('v, 'w) shell_state \<Rightarrow> int \<times> ('v, 'w) shell_state" where
  "runStreamingPipeline os pipes st =
     (let env = xs_env st; n = length pipes in
      if \<not> list_all (\<lambda>(i, p). stageAllowed n i p) (enumerate 0 pipes) then (1, st)
      else case buildAll os (ctxOf os st) pipes of
        None \<Rightarrow> (1, st)
      | Some gs0 \<Rightarrow>
          if \<not> os_pipes os (n - 1) (xs_world st) then (1, st)
          else
            (let gs = map (\<lambda>(i, g). plug n i g) (enumerate 0 gs0) in
             case andThen (redirectStdin os env (hd pipes) (hd gs) (xs_world st)) (\<lambda>g w.
                    let gs1 = g # tl gs in
                    andThen (redirectStdout os env (List.last pipes) (List.last gs1) w) (\<lambda>g' w'.
                      redirectErrors os env (zip pipes (butlast gs1 @ [g'])) w')) of
               (None, w) \<Rightarrow> (1, st\<lparr>xs_world := w\<rparr>)
             | (Some gs', w) \<Rightarrow>
                 (case os_run os gs' w of
                    (e, w') \<Rightarrow>
                      (case e of Exited k \<Rightarrow> k | WaitFailed \<Rightarrow> -1 | StartFailed \<Rightarrow> 1, st\<lparr>xs_world := w'\<rparr>))))"

subsection \<open>Statements and command lines\<close>

text \<open>The exit code, whether the shell goes on, and the state.\<close>

definition runSinglePipeline ::
  "('v, 'w) shell_os \<Rightarrow> shell_pipeline \<Rightarrow> ('v, 'w) shell_state \<Rightarrow> int \<times> bool \<times> ('v, 'w) shell_state" where
  "runSinglePipeline os pipe st =
     (if pl_Command pipe = ''exit'' \<or> pl_Command pipe = ''quit'' then (0, False, st)
      else if pl_Command pipe = '''' \<and> pl_Assignments pipe \<noteq> []
      then (1, True, printShellError ''assignment without command is not supported'' st)
      else if IsCommand (pl_Command pipe)
      then (if pl_Assignments pipe \<noteq> []
            then (1, True, printShellError ''temporary environment for internal commands is not supported'' st)
            else if pl_Stdin pipe \<noteq> None \<or> pl_Stdout pipe \<noteq> None \<or> pl_Stderr pipe \<noteq> None then (1, True, st)
            else case runInternal (ctxOf os st) (pl_Command pipe) (pl_Args pipe) of
              Some (exitCode, env, s) \<Rightarrow> (exitCode, True, emit s (st\<lparr>xs_env := env\<rparr>))
            | None \<Rightarrow> (1, True, st))
      else case runExternalPipelineStage os pipe st of (exitCode, st') \<Rightarrow> (exitCode, True, st'))"

fun expandAll :: "'v shell_ctx \<Rightarrow> shell_pipeline list \<Rightarrow> (expand_err, shell_pipeline list) res" where
  "expandAll cx [] = Ok []"
| "expandAll cx (p # ps) =
     rbind (expandPipeline (Some cx) p) (\<lambda>e. rbind (expandAll cx ps) (\<lambda>es. Ok (e # es)))"

definition runStatement ::
  "('v, 'w) shell_os \<Rightarrow> shell_statement \<Rightarrow> ('v, 'w) shell_state \<Rightarrow> int \<times> bool \<times> ('v, 'w) shell_state" where
  "runStatement os stmt st =
     (if ss_Pipelines stmt = [] then (0, True, st)
      else case expandAll (ctxOf os st) (ss_Pipelines stmt) of
        Ok pipes \<Rightarrow>
          if length pipes = 1 then runSinglePipeline os (hd pipes) st
          else (case runStreamingPipeline os pipes st of (exitCode, st') \<Rightarrow> (exitCode, True, st'))
      | Err e \<Rightarrow> (1, True, printShellError (trimPrefix (errText e) ''Error: '') st)
      | _ \<Rightarrow> (1, True, st))"

fun runStatements ::
  "('v, 'w) shell_os \<Rightarrow> shell_statement list \<Rightarrow> int \<Rightarrow> ('v, 'w) shell_state \<Rightarrow> int \<times> bool \<times> ('v, 'w) shell_state"
where
  "runStatements os [] lastExitCode st = (lastExitCode, True, st)"
| "runStatements os (stmt # stmts) lastExitCode st =
     (case runStatement os stmt st of (exitCode, alive, st') \<Rightarrow>
        if \<not> alive then (exitCode, False, st')
        else if exitCode \<noteq> 0 \<and> ss_Operator stmt = ''&&'' then (exitCode, True, st')
        else runStatements os stmts exitCode st')"

definition process ::
  "('v, 'w) shell_os \<Rightarrow> string \<Rightarrow> ('v, 'w) shell_state \<Rightarrow> int \<times> bool \<times> ('v, 'w) shell_state" where
  "process os line st = runStatements os (sh_Statements (parseCommand line)) 0 st"

subsection \<open>The editor\<close>

definition trimSuffix :: "string \<Rightarrow> string \<Rightarrow> string" where
  "trimSuffix s p = (if hasSuffix s p then take (length s - length p) s else s)"

text \<open>The line that is run for the lines of an input, and the entry of the history.\<close>

definition joinInput :: "string list \<Rightarrow> string" where
  "joinInput input = concat (map (\<lambda>ln. trimSuffix ln [BACKSLASH]) input)"

definition historyEntry :: "string list \<Rightarrow> string" where
  "historyEntry input = joinWith [NL] input"

text \<open>\<open>None\<close> is the panic on no lines.\<close>

definition submitOnEnterWhen :: "string list \<Rightarrow> bool option" where
  "submitOnEnterWhen lines = (if lines = [] then None else Some (\<not> hasSuffix (List.last lines) [BACKSLASH]))"

text \<open>The first line that starts with the text, the newest entry first.\<close>

definition predictShellHistory :: "string \<Rightarrow> string list option \<Rightarrow> string" where
  "predictShellHistory current history =
     (case history of
        None \<Rightarrow> ''''
      | Some h \<Rightarrow>
          if trimSpace current = '''' \<or> hasSuffix current [BACKSLASH] then ''''
          else case find (\<lambda>candidate. hasPrefix candidate current)
                  (map (\<lambda>l. trimSuffix l [BACKSLASH]) (concat (map (\<lambda>e. splitOn e NL) (rev h)))) of
                 Some candidate \<Rightarrow> current @ drop (length current) candidate
               | None \<Rightarrow> '''')"

definition shouldAcceptPrediction :: "int \<Rightarrow> int \<Rightarrow> int \<Rightarrow> int \<Rightarrow> bool" where
  "shouldAcceptPrediction cursor bufferLen cursorLine lineCount =
     (if cursor < bufferLen then False else if lineCount \<le> 0 then True else lineCount - 1 \<le> cursorLine)"

end
