(* ===== verification/ShellRunProps.thy ===== *)
theory ShellRunProps
  imports ShellRun ShellText
begin

text \<open>
  The properties of the shell's expansion and of running command lines: from the text of a line over
  its words and their expansion to the environment it leaves.
\<close>

subsection \<open>Expansion\<close>

lemma expandText_plain: "CHR ''$'' \<notin> set s \<Longrightarrow> expandText var sq dq s = s"
  by (induction var sq dq s rule: expandText.induct) auto

lemma Env_Expand_plain [simp]: "CHR ''$'' \<notin> set s \<Longrightarrow> Env_Expand fmt env s = s"
  by (simp add: Env_Expand_def expandText_plain)

text \<open>A word in single quotes, and in double quotes.\<close>

definition singleQuoted :: "string \<Rightarrow> shell_word" where
  "singleQuoted s = \<lparr>wd_Fragments = [\<lparr>fr_Text = s, fr_QuoteKind = QuoteSingle\<rparr>], wd_Explicit = True\<rparr>"

definition doubleQuoted :: "string \<Rightarrow> shell_word" where
  "doubleQuoted s = \<lparr>wd_Fragments = [\<lparr>fr_Text = s, fr_QuoteKind = QuoteDouble\<rparr>], wd_Explicit = True\<rparr>"

lemma expandWord_quoted:
  "expandWord cx (singleQuoted s) = Ok [s]"
  "expandWord cx (doubleQuoted s) = Ok [Env_Expand (cx_format cx) (cx_env cx) s]"
  by (simp_all add: expandWord_def singleQuoted_def doubleQuoted_def expandFragment_def
      hasUnprotectedWildcard_def joinExpandedParts_def)

lemma expandWords_quoted: "expandWords cx (map singleQuoted args) = Ok args"
  by (induction args) (simp_all add: expandWord_quoted)

lemma expandWord_plain:
  "CHR ''$'' \<notin> set s \<Longrightarrow> \<not> hasWildcard s \<Longrightarrow> expandWord cx (newWord s) = Ok [s]"
  by (simp add: expandWord_def newWord_def expandFragment_def hasUnprotectedWildcard_def joinExpandedParts_def)

subsection \<open>A command line with quoted arguments\<close>

definition simpleName :: "string \<Rightarrow> bool" where
  "simpleName c = (c \<noteq> [] \<and> list_all (\<lambda>x. isAlphaNumeric x \<or> x \<in> set ''_-./@'') c)"

definition quotable :: "string \<Rightarrow> bool" where
  "quotable v = (CHR 0x27 \<notin> set v \<and> endsOK v)"

definition commandLine :: "string \<Rightarrow> string list \<Rightarrow> string" where
  "commandLine c args = c @ concat (map (\<lambda>a. [CHR '' '', CHR 0x27] @ a @ [CHR 0x27]) args)"

lemma alphaNumeric_code:
  "isAlphaNumeric x = (97 \<le> code x \<and> code x \<le> 122 \<or> 65 \<le> code x \<and> code x \<le> 90 \<or> 48 \<le> code x \<and> code x \<le> 57)"
  by (auto simp: isAlphaNumeric_def isLowerAscii_def isUpperAscii_def isDigit_def Let_def)

definition lineChars :: "char list" where
  "lineChars = [CHR ''$'', CHR ''*'', CHR ''?'', CHR ''='', CHR '' '', CHR ''|'', CHR '';'', CHR ''&'',
     CHR ''<'', CHR ''>'', CHR 0x22, CHR 0x27, BACKSLASH]"

lemma lineChars_not_alpha: "x \<in> set lineChars \<Longrightarrow> \<not> isAlphaNumeric x \<and> x \<notin> set ''_-./@''"
  by (auto simp: lineChars_def BACKSLASH_def alphaNumeric_code code_def)

lemma simple_chars: "simpleName c \<Longrightarrow> x \<in> set lineChars \<Longrightarrow> x \<notin> set c"
  using lineChars_not_alpha by (fastforce simp: simpleName_def list_all_iff)

lemma isSpace_not_simple: "isSpace x \<Longrightarrow> \<not> isAlphaNumeric x \<and> x \<notin> set ''_-./@''"
  by (auto simp: isSpace_def alphaNumeric_code code_def)

lemma simple_plain:
  assumes "simpleName c"
  shows "list_all plainChar c"
  unfolding list_all_iff
proof
  fix x assume x: "x \<in> set c"
  then have "\<not> isSpace x"
    using isSpace_not_simple [of x] assms by (auto simp: simpleName_def list_all_iff)
  moreover have "x \<notin> set lineChars"
    using simple_chars [OF assms] x by blast
  ultimately show "plainChar x"
    by (simp add: plainChar_def lineChars_def)
qed

lemma simple_good:
  assumes "simpleName c"
  shows "goodWord (newWord c)"
proof -
  have "BACKSLASH \<notin> set c"
    using simple_chars [OF assms] by (simp add: lineChars_def)
  then have "endsOK c"
    by (metis endsOK_def last_in_set)
  then show ?thesis
    using assms simple_plain [OF assms] by (simp add: goodWord_def newWord_def goodFragment_def simpleName_def)
qed

lemma quoted_good: "quotable v \<Longrightarrow> goodWord (singleQuoted v)"
  by (simp add: goodWord_def singleQuoted_def goodFragment_def quotable_def)

lemma renderWords_line: "renderWords (newWord c # map singleQuoted args) = commandLine c args"
proof -
  have "joinWith '' '' (x # map f xs) = x @ concat (map (\<lambda>a. CHR '' '' # f a) xs)" for x :: string and f and xs :: "string list"
    by (induction xs arbitrary: x) simp_all
  then show ?thesis
    by (simp add: renderWords_def commandLine_def comp_def renderWord_def newWord_def singleQuoted_def renderFragment.simps)
qed

text \<open>Neither splitter cuts the line.\<close>

lemma piece_name:
  assumes "\<And>c cs. stop (c # cs) \<Longrightarrow> c \<in> set lineChars"
  shows "\<forall>c \<in> set s. c \<notin> set lineChars \<Longrightarrow> prev \<noteq> BACKSLASH \<Longrightarrow>
     piece stop None prev (s @ t) = piece stop None (List.last (prev # s)) t"
proof (induction s arbitrary: prev)
  case (Cons c s)
  have c: "c \<notin> set lineChars"
    using Cons.prems(1) by simp
  then have "\<not> stop (c # s @ t)"
    using assms by blast
  moreover have "\<not> isQuote prev c" "c \<noteq> BACKSLASH"
    using c by (simp_all add: isQuote_def lineChars_def)
  ultimately show ?case
    using Cons.IH [of c] Cons.prems(1) by simp
qed simp

lemma piece_inside:
  "CHR 0x27 \<notin> set v \<Longrightarrow> List.last (prev # v) \<noteq> BACKSLASH \<Longrightarrow>
     piece stop (Some CHR 0x27) prev (v @ CHR 0x27 # t) = piece stop None CHR 0x27 t"
proof (induction v arbitrary: prev)
  case Nil
  then show ?case
    by (simp add: isQuote_def nextQuote_def)
next
  case (Cons c v)
  then have "List.last (c # v) \<noteq> BACKSLASH"
    by simp
  with Cons show ?case
    by (auto simp: isQuote_def nextQuote_def)
qed

lemma piece_quoted:
  assumes "quotable v" and "prev \<noteq> BACKSLASH"
  shows "piece stop None prev (CHR 0x27 # v @ CHR 0x27 # t) = piece stop None CHR 0x27 t"
  using assms piece_inside [of v "CHR 0x27" stop t]
  by (auto simp: quotable_def endsOK_def isQuote_def nextQuote_def BACKSLASH_def)

lemma piece_args:
  assumes "\<And>c cs. stop (c # cs) \<Longrightarrow> c \<in> set [CHR ''|'', CHR '';'', CHR ''&'']"
  shows "list_all quotable args \<Longrightarrow> prev \<noteq> BACKSLASH \<Longrightarrow>
     piece stop None prev (concat (map (\<lambda>a. [CHR '' '', CHR 0x27] @ a @ [CHR 0x27]) args))"
proof (induction args arbitrary: prev)
  case (Cons a args)
  let ?t = "concat (map (\<lambda>a. [CHR '' '', CHR 0x27] @ a @ [CHR 0x27]) args)"
  have "\<not> stop (CHR '' '' # CHR 0x27 # a @ CHR 0x27 # ?t)"
    using assms by fastforce
  then have "piece stop None prev (CHR '' '' # CHR 0x27 # a @ CHR 0x27 # ?t) = piece stop None CHR '' '' (CHR 0x27 # a @ CHR 0x27 # ?t)"
    by (simp add: isQuote_def)
  also have "\<dots> = piece stop None CHR 0x27 ?t"
    by (rule piece_quoted) (use Cons.prems(1) in \<open>simp_all add: BACKSLASH_def\<close>)
  also have "\<dots>"
    by (rule Cons.IH) (use Cons.prems(1) in \<open>simp_all add: BACKSLASH_def\<close>)
  finally show ?case
    by simp
qed simp

lemma piece_line:
  assumes "\<And>c cs. stop (c # cs) \<Longrightarrow> c \<in> set [CHR ''|'', CHR '';'', CHR ''&'']"
    and "simpleName c" and "list_all quotable args"
  shows "piece stop None CHR 0x00 (commandLine c args)"
proof -
  have free: "\<forall>x \<in> set c. x \<notin> set lineChars"
    using simple_chars [OF assms(2)] by blast
  then have "List.last (CHR 0x00 # c) \<noteq> BACKSLASH"
    using assms(2) by (auto simp: simpleName_def lineChars_def BACKSLASH_def)
  moreover have "stop (x # xs) \<Longrightarrow> x \<in> set lineChars" for x xs
    using assms(1) [of x xs] by (auto simp: lineChars_def)
  ultimately show ?thesis
    unfolding commandLine_def
    using piece_args [OF assms(1,3)] free by (subst piece_name) (auto simp: BACKSLASH_def)
qed

lemma pieces_line:
  assumes "simpleName c" and "list_all quotable args"
  shows "pipePiece (commandLine c args)" and "statementPiece (commandLine c args)"
proof -
  have "commandLine c args \<noteq> []"
    using assms(1) by (simp add: commandLine_def simpleName_def)
  moreover have "piece pipeStop None CHR 0x00 (commandLine c args)"
    by (rule piece_line [OF _ assms]) simp
  moreover have "piece statementStop None CHR 0x00 (commandLine c args)"
    by (rule piece_line [OF _ assms]) auto
  ultimately show "pipePiece (commandLine c args)" "statementPiece (commandLine c args)"
    by (simp_all add: pipePiece_def statementPiece_def)
qed

lemma parsePipeline_line:
  assumes "simpleName c" and "list_all quotable args"
  shows "parsePipeline (commandLine c args) =
    emptyPipeline\<lparr>pl_CommandWord := Some (newWord c), pl_Command := c,
      pl_ArgWords := map singleQuoted args, pl_Args := args\<rparr>"
proof -
  let ?ws = "newWord c # map singleQuoted args"
  have good: "list_all goodWord ?ws"
    using assms simple_good quoted_good by (auto simp: list_all_iff)
  then have tok: "list_all shellToken ?ws"
    by (auto simp: list_all_iff shellToken_def)
  have "takeRedirects emptyPipeline [] ?ws = (emptyPipeline, ?ws)"
    using takeRedirects_words [OF good, of emptyPipeline "[]" "[]"] by simp
  moreover have "parseAssignmentWord (newWord c) = NotAssignment"
  proof -
    have "CHR ''='' \<notin> set c"
      using simple_chars [OF assms(1)] by (simp add: lineChars_def)
    then have "indexOf c CHR ''='' = None"
      by (induction c) auto
    then show ?thesis
      by (simp add: parseAssignmentWord_def newWord_def)
  qed
  moreover have "map Word_String (map singleQuoted args) = args"
    by (induction args) (simp_all add: singleQuoted_def Word_String_def)
  moreover have "renderWords ?ws \<noteq> []" "trimSpace (renderWords ?ws) = renderWords ?ws"
    using trimmed_words [OF _ tok] by (auto simp: trimSpace_trimmed trimmed_def)
  ultimately show ?thesis
    using tokenize_words [OF tok] by (simp add: parsePipeline_def Let_def renderWords_line isRedirect_newWord)
qed

lemma parseCommand_line:
  assumes "simpleName c" and "list_all quotable args"
  shows "sh_Statements (parseCommand (commandLine c args)) =
    [\<lparr>ss_Pipelines = [parsePipeline (commandLine c args)], ss_Operator = ''''\<rparr>]"
proof -
  have tok: "list_all shellToken (newWord c # map singleQuoted args)"
    using assms simple_good quoted_good by (auto simp: list_all_iff shellToken_def)
  have trim: "trimSpace (commandLine c args) = commandLine c args" "commandLine c args \<noteq> []"
    using trimmed_words [OF _ tok] by (auto simp: renderWords_line trimSpace_trimmed trimmed_def)
  then show ?thesis
    using pieces_line [OF assms]
    by (simp add: parseCommand_def splitStatements_last statementOf_def splitPipes_last Let_def)
qed

subsection \<open>From the text to the command\<close>

lemma expandPipeline_line:
  assumes "simpleName c" and "list_all quotable args"
  shows "expandPipeline (Some cx) (parsePipeline (commandLine c args)) =
    Ok (let (c', args') = expandCommandAlias (cx_env cx) c args in
        (parsePipeline (commandLine c args))\<lparr>pl_Command := c', pl_Args := args'\<rparr>)"
proof -
  have "CHR ''$'' \<notin> set c" "CHR ''*'' \<notin> set c" "CHR ''?'' \<notin> set c"
    using simple_chars [OF assms(1)] by (simp_all add: lineChars_def)
  then have "expandWord cx (newWord c) = Ok [c]"
    by (intro expandWord_plain) (auto simp: hasWildcard_def list_ex_iff)
  then show ?thesis
    unfolding parsePipeline_line [OF assms]
    by (simp add: expandPipeline_def emptyPipeline_def expandCommandWord_def expandRedirect_def
        expandWords_quoted split: prod.splits)
qed


definition sampleCtx :: "nat shell_ctx" where
  "sampleCtx = \<lparr>cx_env = \<lparr>ev_vars = [(''HOME'', StrValue ''/work'')], ev_aliases = [(''ll'', [''ls'', ''-l''])], ev_caseSensitive = True\<rparr>,
     cx_format = (\<lambda>n. ''''), cx_readDir = None, cx_lookPath = (\<lambda>s. None), cx_opens = (\<lambda>p. False), cx_isDir = (\<lambda>p. None)\<rparr>"


subsection \<open>Setting a variable\<close>

lemma variable_chars: "validAssignmentName n \<Longrightarrow> \<forall>x \<in> set n. isAlphaNumeric x \<or> x = CHR ''_''"
  by (cases n) (auto simp: validAssignmentName_def isAlphaNumeric_def list_all_iff)

lemma name_quotable: "validAssignmentName n \<Longrightarrow> quotable n"
proof -
  assume "validAssignmentName n"
  then have "simpleName n"
    using variable_chars [of n] by (auto simp: simpleName_def validAssignmentName_def list_all_iff)
  from simple_chars [OF this] have "CHR 0x27 \<notin> set n" "BACKSLASH \<notin> set n"
    by (simp_all add: lineChars_def)
  then show ?thesis
    by (metis quotable_def endsOK_def last_in_set)
qed

lemma expand_variable:
  assumes "validAssignmentName n"
  shows "Env_Expand fmt env (CHR ''$'' # n) = varText fmt env n"
proof -
  have "takeWhile (\<lambda>x. isAlphaNumeric x \<or> x = CHR ''_'') n = n"
    using variable_chars [OF assms] by (simp add: takeWhile_eq_all_conv)
  moreover have "n \<noteq> []"
    using assms by (simp add: validAssignmentName_def)
  moreover from this have "hd n \<noteq> CHR ''{''"
    using variable_chars [OF assms] by (auto simp: alphaNumeric_code code_def dest!: hd_in_set)
  ultimately show ?thesis
    by (cases n) (simp_all add: Env_Expand_def Let_def)
qed

lemma Env_Get_SetRaw:
  "Env_Get (Env_SetRaw k v env) m = (if m = k then v else Env_Get env m)"
  by (cases v) (simp_all add: Env_SetRaw_def Env_Get_def update_conv' delete_conv')

lemma Env_Get_Set:
  "Env_Get (Env_Set fmt k v env) m =
     (if m = k then (case v of Some (StrValue s) \<Rightarrow> Some (StrValue (Env_Expand fmt env s)) | _ \<Rightarrow> v) else Env_Get env m)"
  by (simp add: Env_Set_def Env_Get_SetRaw)

lemma expandCommandAlias_none: "LookupAlias env c = None \<Longrightarrow> expandCommandAlias env c args = (c, args)"
  by (simp add: expandCommandAlias_def hasAliasExpansion_def Alias_def)

lemma process_line:
  assumes "simpleName c" and "list_all quotable args" and "LookupAlias (xs_env st) c = None"
  shows "process os (commandLine c args) st =
    runStatements os [\<lparr>ss_Pipelines = [parsePipeline (commandLine c args)], ss_Operator = ''''\<rparr>] 0 st"
    and "runStatement os \<lparr>ss_Pipelines = [parsePipeline (commandLine c args)], ss_Operator = ''''\<rparr> st =
      runSinglePipeline os (parsePipeline (commandLine c args)) st"
proof -
  show "process os (commandLine c args) st =
    runStatements os [\<lparr>ss_Pipelines = [parsePipeline (commandLine c args)], ss_Operator = ''''\<rparr>] 0 st"
    by (simp add: process_def parseCommand_line [OF assms(1,2)])
  have "cx_env (ctxOf os st) = xs_env st"
    by (simp add: ctxOf_def)
  then have "expandPipeline (Some (ctxOf os st)) (parsePipeline (commandLine c args)) = Ok (parsePipeline (commandLine c args))"
    using expandCommandAlias_none [OF assms(3)]
    by (simp add: expandPipeline_line [OF assms(1,2)]) (simp add: parsePipeline_line [OF assms(1,2)])
  then show "runStatement os \<lparr>ss_Pipelines = [parsePipeline (commandLine c args)], ss_Operator = ''''\<rparr> st =
      runSinglePipeline os (parsePipeline (commandLine c args)) st"
    by (simp add: runStatement_def)
qed


definition sampleOs :: "(nat, nat) shell_os" where
  "sampleOs = \<lparr>os_format = (\<lambda>n. ''''), os_readDir = None, os_lookPath = (\<lambda>w s. None), os_opens = (\<lambda>w p. False),
     os_isDir = (\<lambda>w p. Some (p = ''/work'')), os_builds = (\<lambda>ws vs. True), os_pipes = (\<lambda>n w. True),
     os_open = (\<lambda>t p w. (True, w)), os_run = (\<lambda>gs w. (Exited 0, w + 1))\<rparr>"

definition sampleState :: "(nat, nat) shell_state" where
  "sampleState = \<lparr>xs_env = cx_env sampleCtx, xs_world = 0, xs_out = ''''\<rparr>"


subsection \<open>What changes the environment\<close>

text \<open>The contract of a command of the shell: when it fails it has changed nothing.\<close>

locale guarded_command =
  fixes run :: "'v shell_ctx \<Rightarrow> string list \<Rightarrow> 'v ran"
  assumes failed_keeps: "run cx args = (exitCode, env, s) \<Longrightarrow> exitCode \<noteq> 0 \<Longrightarrow> env = cx_env cx"
begin

lemma changed_succeeds: "run cx args = (exitCode, env, s) \<Longrightarrow> env \<noteq> cx_env cx \<Longrightarrow> exitCode = 0"
  using failed_keeps by blast

end

interpretation alias_command: guarded_command runAlias
  by unfold_locales (auto simp: runAlias_def Let_def split: if_splits list.splits option.splits)

interpretation cd_command: guarded_command runCD
  by unfold_locales (auto simp: runCD_def Let_def split: option.splits bool.splits)

interpretation setenv_command: guarded_command runSetenv
  by unfold_locales (auto simp: runSetenv_def split: option.splits prod.splits if_splits)

interpretation unsetenv_command: guarded_command runUnsetenv
  by unfold_locales (auto simp: runUnsetenv_def split: if_splits)

interpretation which_command: guarded_command runWhich
  by unfold_locales (auto simp: runWhich_def Let_def split: if_splits)

lemmas command_changes = alias_command.changed_succeeds cd_command.changed_succeeds setenv_command.changed_succeeds
  unsetenv_command.changed_succeeds which_command.changed_succeeds

lemma runInternal_changes:
  "runInternal cx cmd args = Some (exitCode, env, s) \<Longrightarrow> env \<noteq> cx_env cx \<Longrightarrow> exitCode = 0"
  using command_changes [of cx args exitCode env s] by (auto simp: runInternal_def split: if_splits)

lemma which_keeps: "runInternal cx ''which'' args = Some (exitCode, env, s) \<Longrightarrow> env = cx_env cx"
  by (auto simp: runInternal_def runWhich_def Let_def split: if_splits)

lemma external_keeps_env:
  "runExternalPipelineStage os pipe st = (exitCode, st') \<Longrightarrow> xs_env st' = xs_env st"
  "runStreamingPipeline os pipes st = (exitCode, st') \<Longrightarrow> xs_env st' = xs_env st"
  by (auto simp: runExternalPipelineStage_def runStreamingPipeline_def Let_def split: option.splits prod.splits if_splits)

lemma printShellError_keeps [simp]: "xs_env (printShellError m st) = xs_env st" "xs_world (printShellError m st) = xs_world st"
  by (simp_all add: printShellError_def emit_def)

lemma single_changes:
  assumes run: "runSinglePipeline os pipe st = (exitCode, alive, st')" and change: "xs_env st' \<noteq> xs_env st"
  shows "exitCode = 0 \<and> alive \<and> xs_world st' = xs_world st \<and> pl_Assignments pipe = []
    \<and> pl_Stdin pipe = None \<and> pl_Stdout pipe = None \<and> pl_Stderr pipe = None
    \<and> pl_Command pipe \<in> {''alias'', ''cd'', ''setenv'', ''unsetenv''}"
proof (cases "IsCommand (pl_Command pipe)")
  case True
  have cmd: "pl_Command pipe \<noteq> ''exit''" "pl_Command pipe \<noteq> ''quit''" "pl_Command pipe \<noteq> ''''"
    using True by (auto simp: IsCommand_def)
  have plain: "pl_Assignments pipe = []" "pl_Stdin pipe = None" "pl_Stdout pipe = None" "pl_Stderr pipe = None"
    using run change cmd True by (auto simp: runSinglePipeline_def split: if_splits)
  obtain env s where i: "runInternal (ctxOf os st) (pl_Command pipe) (pl_Args pipe) = Some (exitCode, env, s)"
    and alive: "alive" and st': "st' = emit s (st\<lparr>xs_env := env\<rparr>)"
    using run change cmd True plain by (auto simp: runSinglePipeline_def split: option.splits)
  have env: "env \<noteq> cx_env (ctxOf os st)"
    using change by (simp add: st' emit_def ctxOf_def)
  then have "exitCode = 0"
    using runInternal_changes [OF i] by blast
  moreover have "pl_Command pipe \<noteq> ''which''"
    using which_keeps env i by metis
  ultimately show ?thesis
    using plain True alive by (auto simp: st' emit_def IsCommand_def)
next
  case False
  then show ?thesis
    using run change by (auto simp: runSinglePipeline_def dest: external_keeps_env(1) split: if_splits prod.splits)
qed

lemma expandRedirect_keeps: "expandRedirect cx r = Ok r' \<Longrightarrow> (r' = None) = (r = None)"
  by (auto simp: expandRedirect_def rmap_Ok_iff split: option.splits)

lemma expandPipeline_keeps:
  assumes "expandPipeline (Some cx) p = Ok e"
  shows "(pl_Assignments e = []) = (pl_Assignments p = [])" "(pl_Stdin e = None) = (pl_Stdin p = None)"
    "(pl_Stdout e = None) = (pl_Stdout p = None)" "(pl_Stderr e = None) = (pl_Stderr p = None)"
proof -
  obtain asg i out err where "expandRedirect cx (pl_Stdin p) = Ok i" "expandRedirect cx (pl_Stdout p) = Ok out"
    and err: "(if map_option rd_Type (pl_Stderr p) = Some ''2>&1'' then Ok (pl_Stderr p)
       else expandRedirect cx (pl_Stderr p)) = Ok err"
    and e: "pl_Assignments e = map asg (pl_Assignments p)" "pl_Stdin e = i" "pl_Stdout e = out" "pl_Stderr e = err"
    using assms by (simp add: expandPipeline_def rbind_Ok_iff case_prod_beta split: if_split_asm) force+
  moreover have "(err = None) = (pl_Stderr p = None)"
    using err expandRedirect_keeps by (auto split: if_splits)
  ultimately show "(pl_Assignments e = []) = (pl_Assignments p = [])" "(pl_Stdin e = None) = (pl_Stdin p = None)"
    "(pl_Stdout e = None) = (pl_Stdout p = None)" "(pl_Stderr e = None) = (pl_Stderr p = None)"
    using expandRedirect_keeps by auto
qed

text \<open>
  C23: the shell's environment is changed by its own commands only.  When a statement leaves another
  environment, it succeeded, it is a single pipeline, and the pipeline is after expansion one of \<open>alias\<close>, \<open>cd\<close>, \<open>setenv\<close> and
  \<open>unsetenv\<close> without temporary assignments and redirections; the world is as before.  A failed statement,
  an external command with assignments in front of it and a pipeline of several stages change nothing.
\<close>

theorem environment_changes:
  assumes "runStatement os stmt st = (exitCode, alive, st')" and "xs_env st' \<noteq> xs_env st"
  shows "exitCode = 0 \<and> alive \<and> xs_world st' = xs_world st
    \<and> (\<exists>p e. ss_Pipelines stmt = [p] \<and> expandPipeline (Some (ctxOf os st)) p = Ok e
        \<and> pl_Command e \<in> {''alias'', ''cd'', ''setenv'', ''unsetenv''}
        \<and> pl_Assignments p = [] \<and> pl_Stdin p = None \<and> pl_Stdout p = None \<and> pl_Stderr p = None)"
proof -
  obtain pipes where pipes: "expandAll (ctxOf os st) (ss_Pipelines stmt) = Ok pipes"
    using assms by (auto simp: runStatement_def split: if_splits res.splits)
  then have single: "length pipes = 1"
    using assms by (auto simp: runStatement_def dest: external_keeps_env(2) split: if_splits prod.splits)
  obtain p ps where stmt: "ss_Pipelines stmt = p # ps"
    using pipes single by (cases "ss_Pipelines stmt") auto
  then obtain e es where e: "expandPipeline (Some (ctxOf os st)) p = Ok e" and es: "expandAll (ctxOf os st) ps = Ok es" "pipes = e # es"
    using pipes by (auto simp: rbind_Ok_iff)
  have len: "expandAll (ctxOf os st) ps = Ok es \<Longrightarrow> length ps = length es" for ps es
    by (induction ps arbitrary: es) (auto simp: rbind_Ok_iff)
  have ps: "ps = []" "pipes = [e]"
    using single es len [OF es(1)] by auto
  have "runSinglePipeline os e st = (exitCode, alive, st')"
    using assms(1) stmt pipes ps by (simp add: runStatement_def)
  note run = single_changes [OF this assms(2)]
  have "pl_Assignments e = [] \<longleftrightarrow> pl_Assignments p = []" "pl_Stdin e = None \<longleftrightarrow> pl_Stdin p = None"
    "pl_Stdout e = None \<longleftrightarrow> pl_Stdout p = None" "pl_Stderr e = None \<longleftrightarrow> pl_Stderr p = None"
    using expandPipeline_keeps [OF e] by simp_all
  then show ?thesis
    using run e stmt ps by auto
qed

text \<open>The working directory.\<close>

definition pwdAbsolute :: "'v shell_env \<Rightarrow> bool" where
  "pwdAbsolute env = (\<exists>s. Env_Get env ''PWD'' = Some (StrValue s) \<and> hasPrefix s ''/'')"

lemma hasPrefix_slash: "hasPrefix s ''/'' \<longleftrightarrow> (\<exists>t. s = CHR ''/'' # t)"
  by (auto simp: hasPrefix_iff)

lemma pathClean_slashed: "hasPrefix p ''/'' \<Longrightarrow> hasPrefix (pathClean p) ''/''"
  by (simp add: pathClean_def Let_def)

lemma Env_Expand_rooted: "hasPrefix p ''/'' \<Longrightarrow> hasPrefix (Env_Expand fmt env p) ''/''"
  by (auto simp: hasPrefix_slash Env_Expand_def)

lemma cdPath_rooted: "pwdAbsolute env \<Longrightarrow> hasPrefix (cdPath env args) ''/''"
  by (auto simp: cdPath_def pwdAbsolute_def hasPrefix_slash Let_def)

text \<open>The contract of a command that keeps the working directory absolute.\<close>

locale pwd_command = guarded_command +
  assumes pwd_kept: "pwdAbsolute (cx_env cx) \<Longrightarrow> run cx args = (exitCode, env, s) \<Longrightarrow> pwdAbsolute env"

lemma runCD_pwd:
  assumes "pwdAbsolute (cx_env cx)" and "runCD cx args = (exitCode, env, s)"
  shows "pwdAbsolute env"
proof -
  have "hasPrefix (Env_Expand f e (pathClean (cdPath (cx_env cx) args))) ''/''" for f and e :: "'a shell_env"
    by (intro Env_Expand_rooted pathClean_slashed cdPath_rooted assms(1))
  then show ?thesis
    using assms by (auto simp: runCD_def Let_def pwdAbsolute_def Env_Get_Set split: option.splits bool.splits)
qed

interpretation alias_pwd: pwd_command runAlias
  by unfold_locales (auto simp: runAlias_def SetAlias_def pwdAbsolute_def Env_Get_def Let_def
      split: if_splits list.splits option.splits)

interpretation cd_pwd: pwd_command runCD
  by unfold_locales (rule runCD_pwd)

interpretation which_pwd: pwd_command runWhich
  by unfold_locales (auto simp: runWhich_def Let_def split: if_splits)

text \<open>
  C24: the working directory stays absolute.  Every command of the shell itself keeps \<open>PWD\<close> an absolute path,
  unless \<open>setenv\<close> or \<open>unsetenv\<close> names \<open>PWD\<close>; \<open>cd\<close> succeeds exactly when the path it was given is a directory, and without
  dollars in it \<open>PWD\<close> is then its clean form.
\<close>

theorem pwd_stays_absolute:
  assumes "pwdAbsolute (cx_env cx)" and "runInternal cx cmd args = Some (exitCode, env, s)"
    and "cmd \<in> {''setenv'', ''unsetenv''} \<Longrightarrow> \<not> (\<exists>r. args \<noteq> [] \<and> hd args = ''PWD'' @ r)"
  shows "pwdAbsolute env
    \<and> (cmd = ''cd'' \<longrightarrow> (exitCode = 0 \<longleftrightarrow> cx_isDir cx (cdPath (cx_env cx) args) = Some True)
        \<and> (exitCode = 0 \<and> CHR ''$'' \<notin> set (pathClean (cdPath (cx_env cx) args)) \<longrightarrow>
             Env_Get env ''PWD'' = Some (StrValue (pathClean (cdPath (cx_env cx) args)))))"
proof (cases "cmd = ''cd''")
  case True
  then have run: "runCD cx args = (exitCode, env, s)"
    using assms(2) by (simp add: runInternal_def)
  show ?thesis
    using cd_pwd.pwd_kept [OF assms(1) run] run True
    by (auto simp: runCD_def Let_def Env_Get_Set split: option.splits bool.splits)
next
  case False
  have "pwdAbsolute env"
  proof (cases "cmd \<in> {''setenv'', ''unsetenv''}")
    case True
    then have named: "a \<noteq> ''PWD'' @ r" if "args = a # as" for a as r
      using assms(3) that by auto
    have "n \<noteq> ''PWD''" if n: "setenvArgs args = Some (n, v)" for n v
    proof -
      obtain a as i where "args = a # as" "n = a \<or> n = take i a"
        using n by (auto simp: setenvArgs_def split: list.splits option.splits if_splits)
      with named [of a as "[]"] named [of a as "drop i a"] show ?thesis
        by (metis append_Nil2 append_take_drop_id)
    qed
    moreover have "hd args \<noteq> ''PWD''" if "length args = 1"
      using assms(3) [OF True] that by (auto simp: length_Suc_conv)
    ultimately have "Env_Get env ''PWD'' = Env_Get (cx_env cx) ''PWD''"
      using assms(2) True
      by (auto simp: runInternal_def runSetenv_def runUnsetenv_def Env_Get_Set split: option.splits if_splits prod.splits)
    then show ?thesis
      using assms(1) by (simp add: pwdAbsolute_def)
  next
    case other: False
    then show ?thesis
      using assms(2) False alias_pwd.pwd_kept [OF assms(1)] which_pwd.pwd_kept [OF assms(1)]
      by (auto simp: runInternal_def split: if_splits)
  qed
  then show ?thesis
    using False by simp
qed

subsection \<open>Examples\<close>

definition cdStatement :: shell_statement where
  "cdStatement = \<lparr>ss_Pipelines = [parsePipeline ''cd $HOME''], ss_Operator = ''''\<rparr>"

lemma cdStatement_runs:
  "ss_Pipelines cdStatement = [emptyPipeline\<lparr>pl_CommandWord := Some (newWord ''cd''), pl_Command := ''cd'',
     pl_ArgWords := [newWord ''$HOME''], pl_Args := [''$HOME'']\<rparr>]"
  "fst (runStatement sampleOs cdStatement sampleState) = 0"
  "Env_Get (xs_env (snd (snd (runStatement sampleOs cdStatement sampleState)))) ''PWD'' = Some (StrValue ''/work'')"
  "Env_Get (xs_env sampleState) ''PWD'' = None"
  by code_simp+

theorem environment_changes_witness:
  "\<exists>e. expandPipeline (Some (ctxOf sampleOs sampleState)) (parsePipeline ''cd $HOME'') = Ok e
     \<and> pl_Command e \<in> {''alias'', ''cd'', ''setenv'', ''unsetenv''}"
proof -
  obtain code alive st' where run: "runStatement sampleOs cdStatement sampleState = (code, alive, st')"
    by (metis prod_cases3)
  have "xs_env st' \<noteq> xs_env sampleState"
    using cdStatement_runs(3,4) by (auto simp: run)
  from environment_changes [OF run this] obtain p e where "ss_Pipelines cdStatement = [p]"
    and "expandPipeline (Some (ctxOf sampleOs sampleState)) p = Ok e"
    and "pl_Command e \<in> {''alias'', ''cd'', ''setenv'', ''unsetenv''}"
    by (elim exE conjE) (rule that)
  then show ?thesis
    by (auto simp: cdStatement_def)
qed

definition cdCtx :: "nat shell_ctx" where
  "cdCtx = sampleCtx\<lparr>cx_env := \<lparr>ev_vars = [(''PWD'', StrValue ''/work/a'')], ev_aliases = [], ev_caseSensitive = True\<rparr>,
     cx_isDir := (\<lambda>p. Some True)\<rparr>"

theorem pwd_stays_absolute_witness:
  "\<exists>env. runInternal cdCtx ''cd'' [''../b/.''] = Some (0, env, '''')
     \<and> pwdAbsolute env \<and> Env_Get env ''PWD'' = Some (StrValue ''/work/b'')"
proof -
  obtain env where run: "runInternal cdCtx ''cd'' [''../b/.''] = Some (0, env, '''')"
    by (simp add: runInternal_def runCD_def cdCtx_def Let_def)
  have start: "pwdAbsolute (cx_env cdCtx)"
    by (simp add: pwdAbsolute_def cdCtx_def Env_Get_def)
  have path: "pathClean (cdPath (cx_env cdCtx) [''../b/.'']) = ''/work/b''" "CHR ''$'' \<notin> set ''/work/b''"
    by code_simp+
  have "pwdAbsolute env \<and> Env_Get env ''PWD'' = Some (StrValue ''/work/b'')"
    using pwd_stays_absolute [OF start run] unfolding path(1) using path(2) by simp
  with run show ?thesis
    by blast
qed

subsection \<open>Irregularities\<close>

text \<open>
  Inside double quotes an apostrophe stops the expansion, and a dollar without a name is dropped; a wildcard in
  quotes is active when the word has another one outside; \<open>setenv\<close> expands a value in single quotes; a printed
  alias with an apostrophe is not read back as the alias; a command of the host gets no temporary assignment.
\<close>

lemma expansion_irregular:
  "expandWord sampleCtx (doubleQuoted (''it'' @ CHR 0x27 # ''s $HOME'')) = Ok [''it'' @ CHR 0x27 # ''s $HOME'']
   \<and> expandWord sampleCtx (doubleQuoted ''cost $ 5'') = Ok [''cost  5'']
   \<and> expandWord (sampleCtx\<lparr>cx_readDir := Some (\<lambda>d. Some [''a*b'', ''axb''])\<rparr>)
       \<lparr>wd_Fragments = [\<lparr>fr_Text = ''a*'', fr_QuoteKind = QuoteSingle\<rparr>, \<lparr>fr_Text = ''?'', fr_QuoteKind = QuoteNone\<rparr>],
        wd_Explicit = True\<rparr> = Ok [''a*b'', ''axb'']"
  by (intro conjI; code_simp)

lemma setenv_irregular:
  "map_option (\<lambda>(n, env, s). Env_Get env ''X'') (runInternal sampleCtx ''setenv'' [''X'', ''$HOME'']) =
     Some (Some (StrValue ''/work''))"
  by code_simp

lemma alias_irregular:
  "map Word_String (tokenize (formatAlias ''x'' [''it'' @ CHR 0x27 # ''s''])) \<noteq> [''alias'', ''x'', ''it'' @ CHR 0x27 # ''s'']"
  by code_simp

lemma host_irregular:
  "map_option sg_vars (buildExternalExecCmd sampleOs (sampleCtx\<lparr>cx_lookPath := Some\<rparr>)
     (emptyPipeline\<lparr>pl_Command := ''@env'', pl_Assignments := [\<lparr>as_Name = ''X'', as_ValueWord = newWord ''1'', as_Value = ''1''\<rparr>]\<rparr>)) =
   Some []"
  by code_simp

end
