(* ===== verification/Spec2Isabelle.thy ===== *)
theory Spec2Isabelle
  imports ExprProps ExprSql SqlSplitProps HttpSplit SnowflakeProps ShellProps TqlScriptProps IniRefs GlobProps TimeSeriesGroups TqlTypes
    AppendWorkerProps AppendColumns VirtualFsList MountFsProps ShellRunProps
begin

text \<open>
  A verification development for machbase/neo-server.

  The server runs scripts of TQL, its pipeline language, against a time-series database, splits SQL and
  HTTP scripts into statements, offers a JavaScript shell with a command-line parser, keeps configuration
  in ini files, watches itself with metric time series, and names rows with Snowflake IDs, and
  hands the rows of its clients to the database through one worker for each table.  The parts
  modelled are the ones whose behaviour the code itself decides; a Go package under \<open>src/\<close> is written
  below without that prefix.

  \<^bold>\<open>Ground.\<close>  \<open>Prelude\<close>: the result type \<open>res\<close> (\<open>Ok\<close>, an error, a panic, no fuel), its bind, the theorem
  collections.  \<open>GoText\<close>: Go text up to U+00FF, one \<open>char\<close> per code point, with the functions of \<open>strings\<close>
  and \<open>unicode\<close> the code calls.  \<open>Utf8\<close>: Go strings as bytes, with decoding and encoding of runes.
  \<open>IntText\<close>: positional notation and the number parsers of \<open>strconv\<close>; the locale \<open>alphabet\<close> is the contract
  of a digit alphabet.

  \<^bold>\<open>TQL expressions\<close>, \<open>mods/tql/expression\<close>.
  \<^item> \<open>ExprTokens\<close> (\<open>token.go\<close>, \<open>operator.go\<close>, \<open>operator_table.go\<close>, \<open>source_span.go\<close>, \<open>errors.go\<close>): tokens,
    symbols, binding powers.
  \<^item> \<open>ExprStates\<close> (\<open>lexer_state.go\<close>, parts of \<open>parse.go\<close>): the table of lexer states, balance, optimisation.
  \<^item> \<open>ExprLexer\<close>, \<open>ExprParse\<close> (\<open>lexer.go\<close>, \<open>parse.go\<close>): the stream, each reader, \<open>readToken\<close> branch by branch,
    \<open>ParseTokens\<close>.  The loops recur on the characters left, so they need no fuel.
  \<^item> \<open>ExprPlan\<close> (\<open>stage.go\<close>): the Pratt parser.  \<open>parseExpression\<close> takes fuel, one more than there are tokens;
    \<open>parseStages_total\<close> shows that it is never used up.
  \<^item> \<open>ExprOperators\<close>, \<open>ExprEval\<close> (\<open>evaluation.go\<close>, \<open>expression.go\<close>, \<open>parameter.go\<close>): operators, type checks, short
    circuits, elision of literals, \<open>Vars\<close>, the constructors.  Evaluation threads the state of the caller's code.
  \<^item> \<open>ExprSql\<close> (\<open>expression_sql.go\<close>): the SQL text of a token list, through a list of transactions.
  \<^item> \<open>ExprPrint\<close>: the printer the parser inverts.  \<open>ExprSound\<close>, \<open>ExprProps\<close>: well-formed trees, no panic under type
    checks, elision is invisible, which parameters are read.  The locales \<open>clean_parameters\<close> and its interpretations
    say what evaluation may rely on when it reads parameters.

  \<^bold>\<open>TQL scripts\<close>, \<open>mods/tql\<close>: \<open>TqlScript\<close> (\<open>tqlreader.go\<close>, \<open>script_parser.go\<close>, \<open>script_types.go\<close>, \<open>script_validate.go\<close>)
  calls \<open>ParseTokens\<close> line by line until a statement is complete, then plans each statement.
  \<open>TqlScriptProps\<close>: how a source is cut, what a parsed script holds, which structures are accepted.

  \<^bold>\<open>TQL tasks\<close>, \<open>mods/tql\<close>.
  \<^item> \<open>TqlRecord\<close> (\<open>task_record.go\<close>): records, the keys that mark the end, a break, an error, bytes, images, arrays.
  \<^item> \<open>TqlMaps\<close>, \<open>TqlReshape\<close> (\<open>fm_monad.go\<close>): \<open>TAKE\<close>, \<open>DROP\<close>, \<open>FILTER\<close>, \<open>FILTER_CHANGED\<close>, \<open>FLATTEN\<close>; the functions of keys and
    values, \<open>TRANSPOSE\<close>, \<open>GROUPBYKEY\<close>.  A function takes the record and the values its node stores, and gives a
    result, an error or a panic; the result columns of the task (\<open>task.go\<close>) are part of that state.
  \<^item> \<open>TqlPipeline\<close> (\<open>task_node.go\<close>, \<open>task.go\<close>, \<open>task_output.go\<close>): the goroutines of a task as a step relation, one
    step for each record that passes through a channel, in any order the scheduler picks; the sink.
  \<^item> \<open>TqlPipelineProps\<close>, \<open>TqlTask\<close>: every schedule gives the stream the chain of functions computes; the locale
    \<open>map_function\<close> is the contract of a function that neither panics nor swallows the end, interpreted on the
    modelled functions; tasks of such functions end, tasks with a panic do not.
  \<^item> \<open>TqlStreams\<close>: what single functions do to a whole stream.  \<open>TqlColumns\<close>, \<open>TqlTypes\<close>: the shape of records as a
    type; the locale \<open>shaped_node\<close> is the contract of a typed call, and in a chain of calls whose types fit the
    header of the result fits its rows.

  \<^bold>\<open>Append workers\<close>, \<open>spi/append_worker.go\<close>.
  \<^item> \<open>AppendWorker\<close>: the worker of a table (a goroutine with a channel of 1000 rows), its clients, the flusher and those
    who stop workers, as actions on one state; every list of actions that can be taken is a run.
  \<^item> \<open>AppendWorkerProps\<close>: the locale \<open>run_invariant\<close> is the contract of a property all allowed actions keep, interpreted for
    the order of rows, for well-formed states (the place in \<open>Stop\<close> decides what a worker looks like), and for runs that stop
    only idle workers; stopping ends, by a measure that every step of the goroutines concerned lowers.
  \<^item> \<open>AppendColumns\<close>: rows with named columns.

  \<^bold>\<open>SQL and HTTP scripts\<close>, \<open>mods/util/split.go\<close>: \<open>SqlSplit\<close>, \<open>HttpSplit\<close>, with the properties in \<open>SqlSplitProps\<close>.
  The scanner of SQL is a state record and one step per character.

  \<^bold>\<open>Snowflake IDs\<close>, \<open>mods/util/snowflake\<close>: \<open>Snowflake\<close>, \<open>SnowflakeProps\<close>.  An int64 is a \<open>64 word\<close>; the clock is the
  list of the values the calls read, so \<open>Generate\<close> ends when the list holds a later time.

  \<^bold>\<open>The shell's command lines\<close>, \<open>jsh/lib/shell/parser.go\<close>: \<open>ShellParser\<close>; the locale \<open>splitter\<close> in \<open>ShellText\<close> is what
  splitting by a separator outside quotes promises, interpreted on pipes, semicolons and double ampersands;
  \<open>ShellProps\<close>.

  \<^bold>\<open>The shell's commands\<close>, \<open>jsh/lib/shell\<close> and \<open>jsh/engine\<close>.
  \<^item> \<open>ShellEnv\<close> (\<open>env.go\<close>): variables, their expansion, aliases, paths, the search for commands.
  \<^item> \<open>ShellExpand\<close> (\<open>expand.go\<close>): what a parsed pipeline becomes, with the wildcards matched by \<open>Glob\<close>.
  \<^item> \<open>ShellInternal\<close> (\<open>internal/internal.go\<close>): \<open>alias\<close>, \<open>cd\<close>, \<open>setenv\<close>, \<open>unsetenv\<close> and \<open>which\<close>.
  \<^item> \<open>ShellRun\<close> (\<open>pipeline.go\<close>, \<open>process\<close> of \<open>shell.go\<close>): statements and pipelines over a state of environment, world and
    output.  Files and processes outside the shell are the world, and what changes it are functions of the record \<open>shell_os\<close>.
  \<^item> \<open>ShellRunProps\<close>: from the text of a line to the environment it leaves.  The locale \<open>guarded_command\<close> is the contract of a
    command that changes nothing when it fails, \<open>pwd_command\<close> that of one that keeps \<open>PWD\<close> absolute; both are interpreted on
    the shell's own commands.

  \<^bold>\<open>The shell's file systems\<close>, \<open>jsh/engine\<close>.
  \<^item> \<open>GoPath\<close>: the package \<open>path\<close> and \<open>fs.ValidPath\<close>; a valid path is the text of a list of names.
  \<^item> \<open>VirtualFs\<close> (\<open>virtual_fs.go\<close>): the file system in memory, two maps from paths.  The walk up the parents of a path has
    as much fuel as the path has characters, which is enough because every name has one.
  \<^item> \<open>VirtualFsProps\<close>, \<open>VirtualFsList\<close>: the locale \<open>fs_invariant\<close> is the contract of a property that operations keep; the maps
    stay a tree, the operations refine those of a map from paths to contents, and directories are listed exactly.
  \<^item> \<open>MountFs\<close>, \<open>MountFsProps\<close> (\<open>fs.go\<close>): the mount table over virtual, host and read-only file systems.

  \<^bold>\<open>Ini files\<close>, \<open>mods/util/ini\<close>: \<open>IniEscape\<close> (\<open>escape.go\<close>), \<open>IniKeys\<close> (\<open>key.go\<close>, \<open>section.go\<close>, \<open>ini.go\<close>; the locale
  \<open>store\<close> is the contract of the two maps), \<open>IniLoad\<close> (\<open>loader.go\<close>, \<open>resolve.go\<close>), with the properties in \<open>IniProps\<close>
  and \<open>IniRefs\<close>.  \<open>replaceIni\<close> takes fuel, the depth to which references may nest: \<open>replaceIni_ends\<close> shows that one more
  than the rank of the references is enough, and that a reference to itself uses up any fuel, where the program
  overflows its stack.

  \<^bold>\<open>Glob patterns\<close>, \<open>mods/util/glob\<close>: \<open>Glob\<close> (\<open>match.go\<close>, \<open>glob.go\<close>), \<open>GlobProps\<close>.

  \<^bold>\<open>Metric time series\<close>, \<open>mods/util/metric\<close>: \<open>GoTime\<close> (Go's int64 and its times), \<open>TimeSeries\<close> (\<open>timeseries.go\<close>, \<open>counter.go\<close>, \<open>gauge.go\<close>, \<open>meter.go\<close>,
  \<open>odometer.go\<close>).  A series calls its producer through a record of functions; the locale \<open>resetting\<close> in
  \<open>TimeSeriesGroups\<close> is the contract of a producer that starts afresh after a reset, interpreted on the counter, the
  gauge and the meter.  \<open>TimeSeriesProps\<close>: the invariant of the bins; \<open>TimeSeriesGroups\<close>: the bins refine the
  grouping of the samples by interval.

  \<^bold>\<open>How to read the models.\<close>  A Go struct is a record, an \<open>iota\<close> enumeration or an interface a datatype, an
  error a value of \<open>res\<close>, an index out of range or a failed assertion \<open>Panic\<close>.  What is not under \<open>src/\<close> is a
  parameter: float64 arithmetic and number formatting, \<open>reflect\<close>, regular expressions, the caller's functions.
  Mutexes make the operations of a node or a series atomic, so the operations of all callers form one sequence.

  \<^bold>\<open>Not modelled.\<close>  Texts of error messages; code points above U+00FF where a theory uses \<open>GoText\<close>; the buffer limits
  of \<open>bufio\<close>, except where the ini reader stops at them; formatting of times and floats; aliasing of arrays the
  caller passed; JSON forms.  Of TQL tasks: tasks that are cancelled, the time between the operations of one
  evaluation, records two nodes share through a pointer, the aggregates of \<open>GROUP\<close>, the functions that compute with
  floats or do I/O, the encoders behind the sink.  Of the append workers: \<open>StopAppendWorkers\<close>, which runs when the process ends, and
  what the database does with a row.  Of the shell: the terminal and its editor, completion, signals, the log, file descriptors,
  links, host paths, the loading of modules, and the time at which concurrent processes change files.  The services around
  the core (HTTP, MQTT, gRPC, bridges, scheduler,
  database drivers, the JavaScript engine, charts) are I/O over third-party packages; the numeric packages need a
  semantics of float64 that is not available here.
\<close>

end
